(* ===== verification/Prelude.thy ===== *)
theory Prelude
  imports Main "HOL-Library.Word"
begin

text \<open>
  Shared vocabulary of the development: Go's machine integers and byte slices, errors as
  values, the reader and writer sides of \<open>io\<close>, \<open>encoding/binary\<close> in big-endian order and
  slice copies. Every component theory imports it. The collection \<open>codec\<close> gathers the
  length and round-trip equations of the byte codecs.
\<close>

unbundle bit_operations_syntax

named_theorems codec \<open>length and round-trip equations of byte codecs\<close>

section \<open>Types\<close>

type_synonym byte = "8 word"
type_synonym bytes = "8 word list"
type_synonym u16 = "16 word"
type_synonym u32 = "32 word"
type_synonym u64 = "64 word"

text \<open>
  Go errors. The sentinel errors the code compares against or returns are constructors;
  \<open>Errorf\<close> carries the constant part of a formatted message.
\<close>

datatype go_error =
    EOF
  | ErrUnexpectedEOF
  | ErrShortWrite
  | ErrClosedPipe
  | ErrNoAvailableEndpoints
  | ErrInvalidDatagram
  | ErrUnsupportedAddrType
  | ErrReassemblerQueueFull
  | ErrUnsupportedType
  | Errorf string

type_synonym 'a result = "go_error + 'a"

definition rbind :: "'e + 'a \<Rightarrow> ('a \<Rightarrow> 'e + 'b) \<Rightarrow> 'e + 'b" where
  "rbind m f = (case m of Inl e \<Rightarrow> Inl e | Inr x \<Rightarrow> f x)"

lemma rbind_simps [simp]:
  "rbind (Inl e) f = Inl e"
  "rbind (Inr x) f = f x"
  by (simp_all add: rbind_def)

lemma rbind_eq_Inr: "rbind m f = Inr y \<longleftrightarrow> (\<exists>x. m = Inr x \<and> f x = Inr y)"
  by (cases m) auto

lemma rbind_cong [fundef_cong]:
  "m = m' \<Longrightarrow> (\<And>x. m' = Inr x \<Longrightarrow> f x = f' x) \<Longrightarrow> rbind m f = rbind m' f'"
  by (cases m') auto

text \<open>Elimination of a successful run: each bind succeeded, each error guard was false.\<close>

lemma rbind_InrE:
  assumes "rbind m f = Inr y"
  obtains x where "m = Inr x" "f x = Inr y"
  using assms by (auto simp: rbind_eq_Inr)

lemma guard_InrE:
  assumes "(if b then Inl e else t) = Inr y"
  obtains "\<not> b" "t = Inr y"
  using assms by (simp split: if_splits)

lemma Inr_InrE:
  assumes "(Inr x :: 'e + 'a) = Inr y"
  obtains "y = x"
  using assms by simp

lemmas result_elims = rbind_InrE guard_InrE Inr_InrE

section \<open>Go strings and byte slices\<close>

text \<open>
  A Go string is a sequence of bytes, as is an Isabelle \<open>string\<close> (a \<open>char\<close> has eight
  bits). The conversions \<open>string(b)\<close> and \<open>[]byte(s)\<close> are inverse to each other.
\<close>

definition str_of :: "bytes \<Rightarrow> string" where
  "str_of bs = map (\<lambda>b. char_of (unat b)) bs"

definition bytes_of :: "string \<Rightarrow> bytes" where
  "bytes_of s = map (\<lambda>c. word_of_nat (of_char c)) s"

lemma length_str_of [simp]: "length (str_of bs) = length bs"
  by (simp add: str_of_def)

lemma length_bytes_of [simp]: "length (bytes_of s) = length s"
  by (simp add: bytes_of_def)

lemma bytes_of_append [simp]: "bytes_of (s @ t) = bytes_of s @ bytes_of t"
  by (simp add: bytes_of_def)

lemma bytes_of_eq_Nil [simp]: "bytes_of s = [] \<longleftrightarrow> s = []"
  by (simp add: bytes_of_def)

lemma str_of_bytes_of [simp]: "str_of (bytes_of s) = s"
proof -
  have "char_of (unat (word_of_nat (of_char c) :: byte)) = c" for c
  proof -
    have "take_bit 8 (of_char c :: nat) = of_char c"
      by (cases c) (simp add: take_bit_nat_eq_self)
    then show ?thesis
      by (simp add: unsigned_of_nat)
  qed
  then show ?thesis
    by (simp add: str_of_def bytes_of_def o_def)
qed

lemma bytes_of_str_of [simp]: "bytes_of (str_of bs) = bs"
proof -
  have "word_of_nat (of_char (char_of (unat b))) = b" for b :: byte
  proof -
    have "unat b < 256" using unsigned_less [of b, where ?'a = nat] by simp
    then show ?thesis by (simp add: of_char_of take_bit_nat_eq_self)
  qed
  then show ?thesis
    by (simp add: str_of_def bytes_of_def o_def)
qed

lemma bytes_of_inject [simp]: "bytes_of s = bytes_of t \<longleftrightarrow> s = t"
  by (metis str_of_bytes_of)

section \<open>Big-endian integers\<close>

text \<open>
  \<open>encoding/binary\<close> in big-endian order: \<open>be_put n x\<close> writes the \<open>n\<close> low base-256 digits of
  \<open>x\<close>, most significant first, and \<open>be_nat\<close> reads a slice back.
\<close>

primrec be_put :: "nat \<Rightarrow> nat \<Rightarrow> bytes" where
  "be_put 0 x = []"
| "be_put (Suc n) x = word_of_nat (x div 256 ^ n) # be_put n x"

primrec be_nat :: "bytes \<Rightarrow> nat" where
  "be_nat [] = 0"
| "be_nat (b # bs) = unat b * 256 ^ length bs + be_nat bs"

lemma unat_byte_less [simp]: "unat (b :: byte) < 256"
  using unsigned_less [of b, where ?'a = nat] by simp

lemma unat_word_of_nat_byte [simp]: "unat (word_of_nat x :: byte) = x mod 256"
  by (simp add: unsigned_of_nat take_bit_eq_mod)

lemma length_be_put [simp]: "length (be_put n x) = n"
  by (induction n) simp_all

lemma be_nat_less: "be_nat bs < 256 ^ length bs"
proof (induction bs)
  case Nil
  then show ?case by simp
next
  case (Cons b bs)
  have "unat b + 1 \<le> 256" using unat_byte_less [of b] by linarith
  then have "(unat b + 1) * 256 ^ length bs \<le> 256 * 256 ^ length bs"
    by (rule mult_le_mono1)
  then have "unat b * 256 ^ length bs + 256 ^ length bs \<le> 256 * 256 ^ length bs"
    by (simp only: add_mult_distrib mult_1)
  then show ?case using Cons.IH by (simp only: be_nat.simps length_Cons power_Suc)
qed

lemma be_nat_be_put: "be_nat (be_put n x) = x mod 256 ^ n"
proof (induction n)
  case 0
  then show ?case by simp
next
  case (Suc n)
  have "x mod (256 ^ n * 256) = 256 ^ n * (x div 256 ^ n mod 256) + x mod 256 ^ n"
    by (rule mod_mult2_eq)
  then show ?case using Suc by (simp add: mult.commute)
qed

lemma be_put_mod: "be_put n (x mod 256 ^ n) = be_put n x"
proof -
  have "be_put k (x mod 256 ^ n) = be_put k x" if "k \<le> n" for k
    using that
  proof (induction k)
    case 0
    then show ?case by simp
  next
    case (Suc k)
    have "x mod 256 ^ n div 256 ^ k mod 256 = x div 256 ^ k mod 256"
    proof -
      obtain d where n: "n = k + Suc d" using Suc.prems by (metis Suc_le_D add_Suc_right le_Suc_ex add_Suc)
      have "x mod (256 ^ k * 256 ^ Suc d) div 256 ^ k = x div 256 ^ k mod 256 ^ Suc d"
        by (simp add: mod_mult2_eq)
      then have "x mod 256 ^ n div 256 ^ k = x div 256 ^ k mod (256 * 256 ^ d)"
        by (simp add: n power_add mult_ac)
      then show ?thesis by (simp add: mod_mult2_eq)
    qed
    then have "(word_of_nat (x mod 256 ^ n div 256 ^ k) :: byte) = word_of_nat (x div 256 ^ k)"
      by (metis unat_word_of_nat_byte unsigned_word_eqI)
    with Suc show ?case by simp
  qed
  then show ?thesis by simp
qed

lemma be_put_be_nat: "be_put (length bs) (be_nat bs) = bs"
proof (induction bs)
  case Nil
  then show ?case by simp
next
  case (Cons b bs)
  have lt: "be_nat bs < 256 ^ length bs" by (rule be_nat_less)
  have "(unat b * 256 ^ length bs + be_nat bs) div 256 ^ length bs = unat b"
    using lt by simp
  moreover have "be_put (length bs) (unat b * 256 ^ length bs + be_nat bs) = be_put (length bs) (be_nat bs)"
    using lt be_put_mod [of "length bs" "unat b * 256 ^ length bs + be_nat bs"] by simp
  ultimately show ?case using Cons.IH by simp
qed

definition put16 :: "u16 \<Rightarrow> bytes" where
  "put16 w = be_put 2 (unat w)"

definition put32 :: "u32 \<Rightarrow> bytes" where
  "put32 w = be_put 4 (unat w)"

definition put64 :: "u64 \<Rightarrow> bytes" where
  "put64 w = be_put 8 (unat w)"

text \<open>
  \<open>binary.BigEndian.Uint16\<close> and its siblings read the first bytes of a slice. They panic
  on a slice that is too short; every call site of the program slices to the exact size.
\<close>

definition get16 :: "bytes \<Rightarrow> u16" where
  "get16 bs = word_of_nat (be_nat (take 2 bs))"

definition get32 :: "bytes \<Rightarrow> u32" where
  "get32 bs = word_of_nat (be_nat (take 4 bs))"

definition get64 :: "bytes \<Rightarrow> u64" where
  "get64 bs = word_of_nat (be_nat (take 8 bs))"

lemma unat_u16 [simp, codec]: "n \<le> 65535 \<Longrightarrow> unat (word_of_nat n :: u16) = n"
  by (simp add: unsigned_of_nat take_bit_nat_eq_self)

lemma length_put [simp, codec]:
  "length (put16 w) = 2" "length (put32 v) = 4" "length (put64 u) = 8"
  by (simp_all add: put16_def put32_def put64_def)

lemma put_not_Nil [simp]: "put16 w \<noteq> []" "put32 v \<noteq> []" "put64 u \<noteq> []"
  by (simp_all flip: length_greater_0_conv)

lemma get_put [simp, codec]:
  "get16 (put16 v @ r) = v" "get32 (put32 w @ r) = w" "get64 (put64 x @ r) = x"
  using unsigned_less [of v, where ?'a = nat] unsigned_less [of w, where ?'a = nat]
    unsigned_less [of x, where ?'a = nat]
  by (simp_all add: get16_def put16_def get32_def put32_def get64_def put64_def be_nat_be_put)

lemma get_put_nil [simp, codec]:
  "get16 (put16 v) = v" "get32 (put32 w) = w" "get64 (put64 x) = x"
  using get_put(1) [of v "[]"] get_put(2) [of w "[]"] get_put(3) [of x "[]"] by simp_all

lemma put_get [simp, codec]:
  "length bs = 2 \<Longrightarrow> put16 (get16 bs) = bs"
  "length bs = 4 \<Longrightarrow> put32 (get32 bs) = bs"
  "length bs = 8 \<Longrightarrow> put64 (get64 bs) = bs"
  using be_put_be_nat [of bs] be_nat_less [of bs]
  by (simp_all add: get16_def put16_def get32_def put32_def get64_def put64_def
      unsigned_of_nat take_bit_eq_mod)

lemma put_inject [simp]:
  "put16 v = put16 v' \<longleftrightarrow> v = v'" "put32 w = put32 w' \<longleftrightarrow> w = w'" "put64 x = put64 x' \<longleftrightarrow> x = x'"
  by (metis get_put_nil(1), metis get_put_nil(2), metis get_put_nil(3))

lemma u64_below_max:
  assumes "(q :: u64) \<noteq> - 1"
  shows "unat q + 1 < 2 ^ 64"
proof (rule ccontr)
  assume "\<not> unat q + 1 < 2 ^ 64"
  then have "unat q = 2 ^ 64 - 1" using unsigned_less [of q, where ?'a = nat] by simp
  moreover have "unat (- 1 :: u64) = 2 ^ 64 - 1" by (simp add: unsigned_minus_1_eq_mask mask_eq_exp_minus_1)
  ultimately show False using assms by (metis unsigned_word_eqI)
qed

section \<open>Readers and writers\<close>

text \<open>
  A reader is the bytes still to come and the error that ends them (\<open>EOF\<close> for a stream
  the peer closed, any other error for a broken connection). \<open>read_full\<close> is
  \<open>io.ReadFull\<close>: a stream that ends inside the requested bytes gives
  \<open>ErrUnexpectedEOF\<close>, one that ends before the first of them gives its own error.
\<close>

datatype reader = Reader (rdata: bytes) (rerr: go_error)

definition read_full :: "nat \<Rightarrow> reader \<Rightarrow> (bytes \<times> reader) result" where
  "read_full n r =
    (if n \<le> length (rdata r) then Inr (take n (rdata r), Reader (drop n (rdata r)) (rerr r))
     else if rdata r \<noteq> [] \<and> rerr r = EOF then Inl ErrUnexpectedEOF
     else Inl (rerr r))"

lemma read_full_append [simp, codec]:
  "length xs = n \<Longrightarrow> read_full n (Reader (xs @ ys) e) = Inr (xs, Reader ys e)"
  by (auto simp: read_full_def)

lemma read_full_all [simp, codec]:
  "length xs = n \<Longrightarrow> read_full n (Reader xs e) = Inr (xs, Reader [] e)"
  using read_full_append [of xs n "[]" e] by simp

lemma read_full_Inr:
  "read_full n r = Inr (xs, r') \<longleftrightarrow>
     length xs = n \<and> rdata r = xs @ rdata r' \<and> rerr r' = rerr r"
  by (cases r; cases r') (auto simp: read_full_def split: if_splits)

lemma read_full_short:
  "length (rdata r) < n \<Longrightarrow> \<exists>e. read_full n r = Inl e"
  by (auto simp: read_full_def)

text \<open>
  A writer is its \<open>Write\<close> method and, when it also implements \<open>io.StringWriter\<close>, its
  \<open>WriteString\<close> method. Each takes the writer's state and a slice and returns the count
  of bytes taken (never negative, as \<open>io.Writer\<close> documents), an error or none, and the
  next state.
\<close>

record 'w io_writer =
  io_Write :: "'w \<Rightarrow> bytes \<Rightarrow> nat \<times> go_error option \<times> 'w"
  io_WriteString :: "('w \<Rightarrow> string \<Rightarrow> nat \<times> go_error option \<times> 'w) option"

text \<open>\<open>bytes.Buffer\<close>: appends everything and never fails.\<close>

definition buffer_writer :: "bytes io_writer" where
  "buffer_writer = \<lparr>
     io_Write = (\<lambda>buf b. (length b, None, buf @ b)),
     io_WriteString = Some (\<lambda>buf s. (length s, None, buf @ bytes_of s))\<rparr>"

section \<open>Slices\<close>

text \<open>\<open>slice a b xs\<close> is \<open>xs[a:b]\<close>; \<open>buf_copy a b src buf\<close> is \<open>copy(buf[a:b], src)\<close>.\<close>

definition slice :: "nat \<Rightarrow> nat \<Rightarrow> 'a list \<Rightarrow> 'a list" where
  "slice a b xs = take (b - a) (drop a xs)"

definition buf_copy :: "nat \<Rightarrow> nat \<Rightarrow> 'a list \<Rightarrow> 'a list \<Rightarrow> 'a list" where
  "buf_copy a b src buf =
    (let k = min (b - a) (length src) in take a buf @ take k src @ drop (a + k) buf)"

lemma length_slice [simp]: "b \<le> length xs \<Longrightarrow> length (slice a b xs) = b - a"
  by (simp add: slice_def)

lemma buf_copy_step [simp]:
  assumes "length pre = a" "length src = b - a" "a \<le> b" "length src \<le> length rest"
  shows "buf_copy a b src (pre @ rest) = (pre @ src) @ drop (length src) rest"
  using assms by (simp add: buf_copy_def)

lemma buf_copy_fill:
  assumes "length pre = a" "length src = b - a" "a \<le> b" "b - a \<le> n"
  shows "buf_copy a b src (pre @ replicate n z) = (pre @ src) @ replicate (n - (b - a)) z"
  using assms by (simp add: buf_copy_def)

text \<open>A zero-initialised buffer of size \<open>N\<close> that has been filled with \<open>pre\<close> from the left.\<close>

definition filled :: "bytes \<Rightarrow> nat \<Rightarrow> bytes \<Rightarrow> bool" where
  "filled pre N buf \<longleftrightarrow> length pre \<le> N \<and> buf = pre @ replicate (N - length pre) 0"

lemma filled_init: "filled [] N (replicate N 0)"
  by (simp add: filled_def)

lemma filled_copy:
  "filled pre N buf \<Longrightarrow> length pre = a \<Longrightarrow> length src = b - a \<Longrightarrow> a \<le> b \<Longrightarrow> b \<le> N \<Longrightarrow>
   filled (pre @ src) N (buf_copy a b src buf)"
  unfolding filled_def using buf_copy_fill [of pre a src b "N - a" 0] by auto

lemma filled_zeros: "filled pre N buf \<Longrightarrow> length pre + k \<le> N \<Longrightarrow> filled (pre @ replicate k 0) N buf"
  using replicate_add [of k "N - (length pre + k)" "0::byte"] by (auto simp: filled_def)

lemma filled_all: "filled pre N buf \<Longrightarrow> length pre = N \<Longrightarrow> buf = pre"
  by (simp add: filled_def)

lemma filled_upd: "filled pre N buf \<Longrightarrow> length pre = a \<Longrightarrow> a < N \<Longrightarrow> filled (pre @ [x]) N (buf[a := x])"
proof -
  assume a: "filled pre N buf" "length pre = a" "a < N"
  then have "N - a = Suc (N - Suc a)" by simp
  then have "replicate (N - a) (0 :: byte) = 0 # replicate (N - Suc a) 0" by (metis replicate_Suc)
  with a show "filled (pre @ [x]) N (buf[a := x])" by (auto simp: filled_def list_update_append)
qed

lemma filled_copy_open:
  assumes "filled pre N buf" "length pre = a" "length src \<le> b - a" "a + length src \<le> N"
  shows "filled (pre @ src) N (buf_copy a b src buf)"
proof -
  have "buf_copy a b src buf = buf_copy a (a + length src) src buf"
    using assms(3) by (simp add: buf_copy_def min_absorb2)
  then show ?thesis using filled_copy [OF assms(1,2), of src "a + length src"] assms(4) by simp
qed

section \<open>Time\<close>

text \<open>
  A \<open>time.Time\<close> is its distance in nanoseconds from Go's internal epoch (1 January of
  year 1); durations are nanoseconds too. \<open>time.Unix\<close> and \<open>Time.Unix\<close> shift by the
  distance of the two epochs in 64-bit arithmetic, which wraps; adding a duration to a
  clock reading does not leave the range of \<open>time.Time\<close> (292 billion years).
\<close>

type_synonym gotime = int
type_synonym duration = int

definition second :: int where
  "second = 1000000000"

definition int64 :: "int \<Rightarrow> int" where
  "int64 x = sint (word_of_int x :: u64)"

definition unixToInternal :: int where
  "unixToInternal = 62135596800"

definition time_of_unix :: "int \<Rightarrow> int \<Rightarrow> gotime" where
  "time_of_unix sec nsec = int64 (sec + unixToInternal) * second + nsec"

definition time_Unix :: "gotime \<Rightarrow> int" where
  "time_Unix t = int64 (t div second - unixToInternal)"

definition time_Nanosecond :: "gotime \<Rightarrow> int" where
  "time_Nanosecond t = t mod second"

lemma int64_ident: "- (2 ^ 63) \<le> x \<Longrightarrow> x < 2 ^ 63 \<Longrightarrow> int64 x = x"
  by (simp add: int64_def signed_of_int signed_take_bit_int_eq_self)

lemma int64_word [simp]: "(word_of_int (int64 x) :: u64) = word_of_int x"
  by (simp add: int64_def)

lemma int64_eq_iff: "int64 x = int64 y \<longleftrightarrow> (word_of_int x :: u64) = word_of_int y"
  by (metis int64_def int64_word)

lemma time_Unix_of_unix:
  assumes "0 \<le> ns" "ns < second"
  shows "time_Unix (time_of_unix s ns) = int64 s"
proof -
  have "(int64 (s + unixToInternal) * second + ns) div second = int64 (s + unixToInternal)"
    using assms by (simp add: second_def)
  moreover have "int64 (int64 (s + unixToInternal) - unixToInternal) = int64 s"
    unfolding int64_eq_iff by (simp only: of_int_diff of_int_add int64_word) simp
  ultimately show ?thesis
    by (simp only: time_Unix_def time_of_unix_def)
qed

lemma time_Nanosecond_of_unix:
  "0 \<le> ns \<Longrightarrow> ns < second \<Longrightarrow> time_Nanosecond (time_of_unix s ns) = ns"
  by (simp add: time_Nanosecond_def time_of_unix_def second_def)

end
