(* ===== verification/Go_Net.thy ===== *)
theory Go_Net
  imports Prelude
begin

text \<open>
  The parts of Go's \<open>strings\<close>, \<open>strconv\<close> and \<open>net\<close> packages that the program calls, on
  strings as byte sequences: case mapping, trimming, splitting, decimal numbers,
  \<open>SplitHostPort\<close>/\<open>JoinHostPort\<close> and the textual IP address parser. The Unicode tables
  behind \<open>strings.ToLower\<close> and \<open>strings.TrimSpace\<close> on non-ASCII text are a parameter
  (record \<open>unicode_lib\<close>); on ASCII text both functions are modelled exactly, as the
  library's own fast paths compute them. The lemmas are the facts about these functions
  that the address and policy components rest on.
\<close>

section \<open>Strings\<close>

abbreviation ord :: "char \<Rightarrow> nat" where
  "ord c \<equiv> of_char c"

definition isDigit :: "char \<Rightarrow> bool" where
  "isDigit c \<longleftrightarrow> 48 \<le> ord c \<and> ord c \<le> 57"

definition isLower :: "char \<Rightarrow> bool" where
  "isLower c \<longleftrightarrow> 97 \<le> ord c \<and> ord c \<le> 122"

definition isUpper :: "char \<Rightarrow> bool" where
  "isUpper c \<longleftrightarrow> 65 \<le> ord c \<and> ord c \<le> 90"

definition isAscii :: "char \<Rightarrow> bool" where
  "isAscii c \<longleftrightarrow> ord c < 128"

definition asciiSpace :: "char \<Rightarrow> bool" where
  "asciiSpace c \<longleftrightarrow> ord c \<in> {9, 10, 11, 12, 13, 32}"

record unicode_lib =
  uc_ToLower :: "string \<Rightarrow> string"
  uc_ToUpper :: "string \<Rightarrow> string"
  uc_TrimSpace :: "string \<Rightarrow> string"
  uc_TrimRightSpace :: "string \<Rightarrow> string"

definition lower_char :: "char \<Rightarrow> char" where
  "lower_char c = (if isUpper c then char_of (ord c + 32) else c)"

definition upper_char :: "char \<Rightarrow> char" where
  "upper_char c = (if isLower c then char_of (ord c - 32) else c)"

definition ToLower :: "unicode_lib \<Rightarrow> string \<Rightarrow> string" where
  "ToLower U s = (if list_all isAscii s then map lower_char s else uc_ToLower U s)"

definition ToUpper :: "unicode_lib \<Rightarrow> string \<Rightarrow> string" where
  "ToUpper U s = (if list_all isAscii s then map upper_char s else uc_ToUpper U s)"

definition TrimSpace :: "unicode_lib \<Rightarrow> string \<Rightarrow> string" where
  "TrimSpace U s =
    (let r = dropWhile asciiSpace s in
     if r \<noteq> [] \<and> \<not> isAscii (hd r) then uc_TrimSpace U r
     else
       (let t = rev (dropWhile asciiSpace (rev r)) in
        if t \<noteq> [] \<and> \<not> isAscii (last t) then uc_TrimRightSpace U t else t))"

definition HasPrefix :: "string \<Rightarrow> string \<Rightarrow> bool" where
  "HasPrefix s p \<longleftrightarrow> take (length p) s = p"

definition HasSuffix :: "string \<Rightarrow> string \<Rightarrow> bool" where
  "HasSuffix s p \<longleftrightarrow> length p \<le> length s \<and> drop (length s - length p) s = p"

definition TrimPrefix :: "string \<Rightarrow> string \<Rightarrow> string" where
  "TrimPrefix s p = (if HasPrefix s p then drop (length p) s else s)"

definition TrimSuffix :: "string \<Rightarrow> string \<Rightarrow> string" where
  "TrimSuffix s p = (if HasSuffix s p then take (length s - length p) s else s)"

fun IndexByte :: "char \<Rightarrow> string \<Rightarrow> nat option" where
  "IndexByte c [] = None"
| "IndexByte c (x # xs) = (if x = c then Some 0 else map_option Suc (IndexByte c xs))"

definition LastIndexByte :: "char \<Rightarrow> string \<Rightarrow> nat option" where
  "LastIndexByte c s = map_option (\<lambda>i. length s - 1 - i) (IndexByte c (rev s))"

fun Split :: "char \<Rightarrow> string \<Rightarrow> string list" where
  "Split c [] = [[]]"
| "Split c (x # xs) =
     (if x = c then [] # Split c xs
      else (case Split c xs of [] \<Rightarrow> [[x]] | y # ys \<Rightarrow> (x # y) # ys))"

fun Join :: "char \<Rightarrow> string list \<Rightarrow> string" where
  "Join c [] = []"
| "Join c [s] = s"
| "Join c (s # t # ts) = s @ c # Join c (t # ts)"

definition Cut :: "char \<Rightarrow> string \<Rightarrow> (string \<times> string) option" where
  "Cut c s = map_option (\<lambda>i. (take i s, drop (Suc i) s)) (IndexByte c s)"

section \<open>Decimal numbers\<close>

definition digits_value :: "string \<Rightarrow> nat" where
  "digits_value s = foldl (\<lambda>v c. v * 10 + (ord c - 48)) 0 s"

text \<open>\<open>strconv.Atoi\<close> on a 64-bit platform: an optional sign, digits, the range of int64.\<close>

definition Atoi :: "string \<Rightarrow> int option" where
  "Atoi s =
    (let neg = (s \<noteq> [] \<and> hd s = CHR ''-'');
         ds = (if s \<noteq> [] \<and> (hd s = CHR ''-'' \<or> hd s = CHR ''+'') then tl s else s)
     in if ds = [] \<or> \<not> list_all isDigit ds then None
        else
          (let v = (if neg then - int (digits_value ds) else int (digits_value ds)) in
           if - (2 ^ 63) \<le> v \<and> v < 2 ^ 63 then Some v else None))"

definition digit_char :: "nat \<Rightarrow> char" where
  "digit_char d = char_of (48 + d)"

fun dec_digits :: "nat \<Rightarrow> string" where
  "dec_digits n = (if n < 10 then [digit_char n] else dec_digits (n div 10) @ [digit_char (n mod 10)])"

declare dec_digits.simps [simp del]

definition Itoa :: "int \<Rightarrow> string" where
  "Itoa n = (if n < 0 then CHR ''-'' # dec_digits (nat (- n)) else dec_digits (nat n))"

section \<open>Host and port\<close>

definition SplitHostPort :: "string \<Rightarrow> (string \<times> string) result" where
  "SplitHostPort hp =
    (case LastIndexByte (CHR '':'') hp of
       None \<Rightarrow> Inl (Errorf ''missing port in address'')
     | Some i \<Rightarrow>
         (let finish = (\<lambda>host j k.
            if CHR ''['' \<in> set (drop j hp) then Inl (Errorf ''unexpected '[' in address'')
            else if CHR '']'' \<in> set (drop k hp) then Inl (Errorf ''unexpected ']' in address'')
            else Inr (host, drop (i + 1) hp))
          in
          if hp ! 0 = CHR ''['' then
            (case IndexByte (CHR '']'') hp of
               None \<Rightarrow> Inl (Errorf ''missing ']' in address'')
             | Some e \<Rightarrow>
                 if e + 1 = length hp then Inl (Errorf ''missing port in address'')
                 else if e + 1 = i then finish (slice 1 e hp) 1 (e + 1)
                 else if hp ! (e + 1) = CHR '':'' then Inl (Errorf ''too many colons in address'')
                 else Inl (Errorf ''missing port in address''))
          else if CHR '':'' \<in> set (take i hp) then Inl (Errorf ''too many colons in address'')
          else finish (take i hp) 0 0))"

definition JoinHostPort :: "string \<Rightarrow> string \<Rightarrow> string" where
  "JoinHostPort host port =
    (if CHR '':'' \<in> set host then ''['' @ host @ '']:'' @ port else host @ '':'' @ port)"

section \<open>Textual IP addresses\<close>

text \<open>
  \<open>netip.ParseAddr\<close>: the first of \<open>.\<close>, \<open>:\<close> and \<open>%\<close> in the text decides between the
  dotted and the colon form. An address is its 4 or 16 bytes and, for IPv6, its zone.
\<close>

datatype addr = V4 bytes | V6 bytes string

fun ipv4_fields :: "char option \<Rightarrow> string \<Rightarrow> nat \<Rightarrow> nat \<Rightarrow> bytes \<Rightarrow> bytes option" where
  "ipv4_fields prev [] val digLen fs =
     (if length fs < 3 then None else Some (fs @ [word_of_nat val]))"
| "ipv4_fields prev (c # cs) val digLen fs =
     (if isDigit c then
        (if digLen = 1 \<and> val = 0 then None
         else
           (let v = val * 10 + (ord c - 48) in
            if v > 255 then None else ipv4_fields (Some c) cs v (digLen + 1) fs))
      else if c = CHR ''.'' then
        (if prev = None \<or> cs = [] \<or> prev = Some (CHR ''.'') then None
         else if length fs = 3 then None
         else ipv4_fields (Some c) cs 0 0 (fs @ [word_of_nat val]))
      else None)"

definition parseIPv4 :: "string \<Rightarrow> bytes option" where
  "parseIPv4 s = ipv4_fields None s 0 0 []"

definition hexval :: "char \<Rightarrow> nat option" where
  "hexval c =
    (if isDigit c then Some (ord c - 48)
     else if 97 \<le> ord c \<and> ord c \<le> 102 then Some (ord c - 87)
     else if 65 \<le> ord c \<and> ord c \<le> 70 then Some (ord c - 55)
     else None)"

fun hex_run :: "string \<Rightarrow> nat \<Rightarrow> nat \<Rightarrow> (nat \<times> nat \<times> string) option" where
  "hex_run [] off acc = Some (acc, off, [])"
| "hex_run (c # cs) off acc =
     (case hexval c of
        None \<Rightarrow> Some (acc, off, c # cs)
      | Some d \<Rightarrow>
          if off > 3 \<or> acc * 16 + d > 65535 then None
          else hex_run cs (off + 1) (acc * 16 + d))"

function ipv6_groups :: "string \<Rightarrow> bytes \<Rightarrow> nat option \<Rightarrow> (string \<times> bytes \<times> nat option) option" where
  "ipv6_groups s ip ellipsis =
    (if length ip < 16 then
       (case hex_run s 0 0 of
          None \<Rightarrow> None
        | Some (acc, off, rest) \<Rightarrow>
            if off = 0 then None
            else if rest \<noteq> [] \<and> hd rest = CHR ''.'' then
              (if ellipsis = None \<and> length ip \<noteq> 12 then None
               else if length ip + 4 > 16 then None
               else
                 (case parseIPv4 s of
                    None \<Rightarrow> None
                  | Some v4 \<Rightarrow> Some ([], ip @ v4, ellipsis)))
            else
              (let ip' = ip @ be_put 2 acc in
               case rest of
                 [] \<Rightarrow> Some ([], ip', ellipsis)
               | c # s1 \<Rightarrow>
                   if c \<noteq> CHR '':'' \<or> s1 = [] then None
                   else if hd s1 = CHR '':'' then
                     (if ellipsis \<noteq> None then None
                      else if tl s1 = [] then Some ([], ip', Some (length ip'))
                      else ipv6_groups (tl s1) ip' (Some (length ip')))
                   else ipv6_groups s1 ip' ellipsis))
     else Some (s, ip, ellipsis))"
  by pat_completeness auto
termination
  by (relation "measure (\<lambda>(s, ip, ellipsis). 16 - length ip)") auto

declare ipv6_groups.simps [simp del]

definition parseIPv6 :: "string \<Rightarrow> (bytes \<times> string) option" where
  "parseIPv6 txt =
    (let (s0, zone, bad) =
       (case IndexByte (CHR ''%'') txt of
          None \<Rightarrow> (txt, [], False)
        | Some i \<Rightarrow> (take i txt, drop (Suc i) txt, drop (Suc i) txt = []));
         lead = (take 2 s0 = ''::'');
         s = (if lead then drop 2 s0 else s0)
     in if bad then None
        else if lead \<and> s = [] then Some (replicate 16 0, zone)
        else
          (case ipv6_groups s [] (if lead then Some 0 else None) of
             None \<Rightarrow> None
           | Some (rest, ip, ellipsis) \<Rightarrow>
               if rest \<noteq> [] then None
               else if length ip < 16 then
                 (case ellipsis of
                    None \<Rightarrow> None
                  | Some e \<Rightarrow> Some (take e ip @ replicate (16 - length ip) 0 @ drop e ip, zone))
               else if ellipsis \<noteq> None then None
               else Some (ip, zone)))"

fun ParseAddr_at :: "string \<Rightarrow> string \<Rightarrow> addr option" where
  "ParseAddr_at txt [] = None"
| "ParseAddr_at txt (c # cs) =
     (if c = CHR ''.'' then map_option V4 (parseIPv4 txt)
      else if c = CHR '':'' then map_option (\<lambda>(ip, z). V6 ip z) (parseIPv6 txt)
      else if c = CHR ''%'' then None
      else ParseAddr_at txt cs)"

definition ParseAddr :: "string \<Rightarrow> addr option" where
  "ParseAddr s = ParseAddr_at s s"

text \<open>
  \<open>net.ParseIP\<close> gives the 16-byte form, an IPv4 address mapped into \<open>::ffff:0:0/96\<close>; a zone
  makes it fail. \<open>IP.To4\<close> recognises the mapped form.
\<close>

definition v4_mapped :: "bytes \<Rightarrow> bytes" where
  "v4_mapped v4 = replicate 10 0 @ [255, 255] @ v4"

definition ParseIP :: "string \<Rightarrow> bytes option" where
  "ParseIP s =
    (case ParseAddr s of
       None \<Rightarrow> None
     | Some (V4 b) \<Rightarrow> Some (v4_mapped b)
     | Some (V6 b z) \<Rightarrow> (if z = [] then Some b else None))"

definition To4 :: "bytes \<Rightarrow> bytes option" where
  "To4 ip =
    (if length ip = 4 then Some ip
     else if length ip = 16 \<and> take 12 ip = replicate 10 0 @ [255, 255] then Some (drop 12 ip)
     else None)"

text \<open>\<open>net.IP.IsLoopback\<close>.\<close>

definition netIsLoopback :: "bytes \<Rightarrow> bool" where
  "netIsLoopback ip = (case To4 ip of Some v4 \<Rightarrow> hd v4 = 127 | None \<Rightarrow> ip = replicate 15 0 @ [1])"

section \<open>Library lemmas\<close>

lemma Split_not_Nil [simp]: "Split c s \<noteq> []"
  by (induction s) (auto split: list.splits)

lemma Join_Split [simp]: "Join c (Split c s) = s"
proof (induction s)
  case Nil
  then show ?case by simp
next
  case (Cons x s)
  obtain y ys where "Split c s = y # ys"
    using Split_not_Nil by (cases "Split c s") auto
  with Cons show ?case by (cases ys) auto
qed

lemma Split_no_sep: "c \<notin> set s \<Longrightarrow> Split c s = [s]"
  by (induction s) auto

lemma Split_append_sep: "c \<notin> set s \<Longrightarrow> Split c (s @ c # t) = s # Split c t"
  by (induction s) auto

lemma Split_Join:
  "ls \<noteq> [] \<Longrightarrow> \<forall>l\<in>set ls. c \<notin> set l \<Longrightarrow> Split c (Join c ls) = ls"
  by (induction c ls rule: Join.induct) (auto simp: Split_no_sep Split_append_sep)

lemma Split_no_sep_labels: "l \<in> set (Split c s) \<Longrightarrow> c \<notin> set l"
  by (induction s arbitrary: l) (auto split: list.splits if_splits)

lemma set_Split: "(\<Union>l\<in>set (Split c s). set l) \<union> {c} = set s \<union> {c}"
proof (induction s)
  case Nil
  then show ?case by simp
next
  case (Cons x s)
  obtain y ys where "Split c s = y # ys"
    using Split_not_Nil by (cases "Split c s") auto
  with Cons show ?case by auto
qed

lemma IndexByte_None [simp]: "IndexByte c s = None \<longleftrightarrow> c \<notin> set s"
  by (induction s) auto

lemma IndexByte_first [simp]: "c \<notin> set s \<Longrightarrow> IndexByte c (s @ c # t) = Some (length s)"
  by (induction s) auto

lemma LastIndexByte_last: "c \<notin> set t \<Longrightarrow> LastIndexByte c (s @ c # t) = Some (length s)"
  by (simp add: LastIndexByte_def)

lemma SplitHostPort_JoinHostPort:
  assumes "set port \<inter> {CHR '':'', CHR ''['', CHR '']''} = {}"
    and "set host \<inter> {CHR ''['', CHR '']''} = {}"
  shows "SplitHostPort (JoinHostPort host port) = Inr (host, port)"
proof (cases "CHR '':'' \<in> set host")
  case True
  have split: "LastIndexByte (CHR '':'') (''['' @ host @ '']:'' @ port) = Some (length host + 2)"
    using assms LastIndexByte_last [of "CHR '':''" port "''['' @ host @ '']''"] by simp
  have close: "IndexByte (CHR '']'') (''['' @ host @ '']:'' @ port) = Some (length host + 1)"
    using assms IndexByte_first [of "CHR '']''" host "'':'' @ port"] by simp
  show ?thesis
    using True assms split close
    by (simp add: JoinHostPort_def SplitHostPort_def slice_def)
next
  case False
  have split: "LastIndexByte (CHR '':'') (host @ '':'' @ port) = Some (length host)"
    using assms LastIndexByte_last [of "CHR '':''" port host] by simp
  have first: "(host @ '':'' @ port) ! 0 \<noteq> CHR ''[''"
    using assms by (cases host) auto
  show ?thesis
    using False assms split first
    by (simp add: JoinHostPort_def SplitHostPort_def)
qed

lemma digits_value_snoc [simp]: "digits_value (s @ [c]) = digits_value s * 10 + (ord c - 48)"
  by (simp add: digits_value_def)

lemma ord_digit_char [simp]: "d < 10 \<Longrightarrow> ord (digit_char d) = 48 + d"
  by (simp add: digit_char_def)

lemma isDigit_digit_char [simp]: "d < 10 \<Longrightarrow> isDigit (digit_char d)"
  by (simp add: isDigit_def)

lemma dec_digits_props:
  "list_all isDigit (dec_digits n) \<and> dec_digits n \<noteq> [] \<and> digits_value (dec_digits n) = n"
proof (induction n rule: dec_digits.induct)
  case (1 n)
  show ?case
  proof (cases "n < 10")
    case True
    then show ?thesis
      by (simp add: dec_digits.simps [of n]) (simp add: digits_value_def)
  next
    case False
    with 1 show ?thesis by (simp add: dec_digits.simps [of n])
  qed
qed

lemma list_all_isDigit_chars:
  "list_all isDigit s \<Longrightarrow> set s \<inter> {CHR '':'', CHR ''['', CHR '']'', CHR ''-'', CHR ''+'', CHR '' ''} = {}"
  by (auto simp: list_all_iff isDigit_def)

lemma Atoi_Itoa:
  assumes "0 \<le> n" "n < 2 ^ 63"
  shows "Atoi (Itoa n) = Some n"
proof -
  let ?d = "dec_digits (nat n)"
  have d: "list_all isDigit ?d" "?d \<noteq> []" "digits_value ?d = nat n"
    using dec_digits_props [of "nat n"] by auto
  have "hd ?d \<noteq> CHR ''-'' \<and> hd ?d \<noteq> CHR ''+''"
    using list_all_isDigit_chars [OF d(1)] hd_in_set [OF d(2)] by auto
  with assms d show ?thesis
    by (simp add: Atoi_def Itoa_def)
qed

lemma ipv4_fields_length:
  "ipv4_fields prev s v d fs = Some b \<Longrightarrow> length fs \<le> 3 \<Longrightarrow> length b = 4"
  by (induction prev s v d fs rule: ipv4_fields.induct) (auto simp: Let_def split: if_splits)

lemma parseIPv4_length: "parseIPv4 s = Some b \<Longrightarrow> length b = 4"
  by (auto simp: parseIPv4_def dest: ipv4_fields_length)

lemma ipv6_groups_length:
  "ipv6_groups s ip el = Some (rest, ip', el') \<Longrightarrow> length ip \<le> 16 \<Longrightarrow> even (length ip) \<Longrightarrow>
   el \<noteq> None \<longrightarrow> the el \<le> length ip \<Longrightarrow> length ip' \<le> 16 \<and> (el' \<noteq> None \<longrightarrow> the el' \<le> length ip')"
proof (induction s ip el rule: ipv6_groups.induct)
  case (1 s ip el)
  note e = trans [OF 1(3) [symmetric] ipv6_groups.simps [of s ip el]]
  show ?case
  proof (cases "length ip < 16")
    case False
    with e 1(4,6) show ?thesis by auto
  next
    case True
    obtain k where "length ip = 2 * k" using 1(5) by (auto elim: evenE)
    then have step: "length ip + 2 \<le> 16" using True by simp
    obtain acc off r where h: "hex_run s 0 0 = Some (acc, off, r)"
      using e True by (cases "hex_run s 0 0") auto
    show ?thesis
      using e 1(4,5,6) True step parseIPv4_length [of s] 1(1) [OF True h] 1(2) [OF True h]
      by (auto simp: h Let_def split: if_splits option.splits list.splits)
  qed
qed

lemma parseIPv6_length: "parseIPv6 s = Some (b, z) \<Longrightarrow> length b = 16"
proof -
  assume p: "parseIPv6 s = Some (b, z)"
  obtain s0 zone bad where t: "(case IndexByte (CHR ''%'') s of
      None \<Rightarrow> (s, [], False)
    | Some i \<Rightarrow> (take i s, drop (Suc i) s, drop (Suc i) s = [])) = (s0, zone, bad)"
    by (rule prod_cases3)
  let ?l = "take 2 s0 = ''::''"
  let ?g = "ipv6_groups (if ?l then drop 2 s0 else s0) [] (if ?l then Some 0 else None)"
  note p' = p [unfolded parseIPv6_def t Let_def prod.case]
  show "length b = 16"
  proof (cases ?g)
    case None
    with p' show ?thesis by (auto split: if_splits)
  next
    case (Some x)
    obtain r ip el where x: "?g = Some (r, ip, el)" using Some by (cases x) auto
    have "length ip \<le> 16 \<and> (el \<noteq> None \<longrightarrow> the el \<le> length ip)" using ipv6_groups_length [OF x] by simp
    with p' show ?thesis unfolding x by (auto split: if_splits option.splits)
  qed
qed

lemma ParseIP_length: "ParseIP s = Some b \<Longrightarrow> length b = 16"
proof -
  have "ParseAddr_at s t = Some a \<Longrightarrow> case a of V4 b \<Rightarrow> length b = 4 | V6 b z \<Rightarrow> length b = 16" for t a
    by (induction s t rule: ParseAddr_at.induct)
      (auto dest: parseIPv4_length parseIPv6_length split: if_splits)
  then show "ParseIP s = Some b \<Longrightarrow> length b = 16"
    by (fastforce simp: ParseIP_def ParseAddr_def v4_mapped_def split: option.splits addr.splits if_splits)
qed

lemma To4_length: "To4 b = Some p \<Longrightarrow> length p = 4"
  by (auto simp: To4_def split: if_splits)

end
