(* ===== verification/Netaddr.thy ===== *)
theory Netaddr
  imports Go_Net
begin

text \<open>
  Package \<open>internal/netaddr\<close>: validation of \<open>host:port\<close> strings, host normalisation and
  the host name grammar. Errors are values; \<open>Inr ()\<close> is a nil error. The properties say
  which host names are accepted, what an accepted \<open>host:port\<close> guarantees to the
  code behind the check, and that every address assembled from a valid host and port by
  \<open>net.JoinHostPort\<close> is accepted.
\<close>

section \<open>Model\<close>

definition label_char :: "char \<Rightarrow> bool" where
  "label_char c \<longleftrightarrow> isLower c \<or> isDigit c \<or> c = CHR ''-''"

definition valid_label :: "string \<Rightarrow> bool" where
  "valid_label label \<longleftrightarrow>
     label \<noteq> [] \<and> length label \<le> 63 \<and>
     hd label \<noteq> CHR ''-'' \<and> last label \<noteq> CHR ''-'' \<and>
     list_all label_char label"

definition ValidHostname :: "unicode_lib \<Rightarrow> string \<Rightarrow> bool" where
  "ValidHostname U host0 =
    (let host = ToLower U (TrimSuffix host0 ''.'') in
     if host = [] \<or> length host > 253 then False
     else list_all valid_label (Split (CHR ''.'') host))"

definition NormalizeTargetHost :: "unicode_lib \<Rightarrow> string \<Rightarrow> string" where
  "NormalizeTargetHost U host = TrimSuffix (TrimSpace U (ToLower U host)) ''.''"

definition ValidateHostnameOrIP :: "unicode_lib \<Rightarrow> string \<Rightarrow> unit result" where
  "ValidateHostnameOrIP U host =
    (if ParseIP host \<noteq> None then Inr ()
     else if \<not> ValidHostname U (NormalizeTargetHost U host)
     then Inl (Errorf ''host is neither an IP address nor a DNS host name'')
     else Inr ())"

definition validateHostPortValue :: "unicode_lib \<Rightarrow> string \<Rightarrow> bool \<Rightarrow> bool \<Rightarrow> unit result" where
  "validateHostPortValue U val allowEmptyHost allowZeroPort =
    (if list_ex (\<lambda>c. c \<in> {CHR '' '', CHR 0x09, CHR 0x0D, CHR 0x0A}) val
     then Inl (Errorf ''host:port must not contain white space'')
     else
       rbind (SplitHostPort val) (\<lambda>(host, port).
         if \<not> allowEmptyHost \<and> TrimSpace U host = [] then Inl (Errorf ''host must not be empty'')
         else
           rbind (if TrimSpace U host \<noteq> [] then ValidateHostnameOrIP U host else Inr ()) (\<lambda>_.
             if TrimSpace U port = [] then Inl (Errorf ''port must not be empty'')
             else
               (let minPort = (if allowZeroPort then 0 else 1) in
                case Atoi port of
                  None \<Rightarrow> Inl (Errorf ''port out of range'')
                | Some p \<Rightarrow>
                    if p < minPort \<or> p > 65535 then Inl (Errorf ''port out of range'')
                    else Inr ()))))"

definition ValidateHostPortValue :: "unicode_lib \<Rightarrow> string \<Rightarrow> bool \<Rightarrow> unit result" where
  "ValidateHostPortValue U val allowEmptyHost = validateHostPortValue U val allowEmptyHost False"

definition ValidateHostPort :: "unicode_lib \<Rightarrow> string \<Rightarrow> unit result" where
  "ValidateHostPort U val = ValidateHostPortValue U val False"

definition ValidateListenHostPort :: "unicode_lib \<Rightarrow> string \<Rightarrow> unit result" where
  "ValidateListenHostPort U val = ValidateHostPortValue U val True"

definition ValidateListenHostPortAllowZero :: "unicode_lib \<Rightarrow> string \<Rightarrow> unit result" where
  "ValidateListenHostPortAllowZero U val = validateHostPortValue U val True True"

lemmas hostport_defs = ValidateHostPort_def ValidateHostPortValue_def ValidateListenHostPort_def
  ValidateListenHostPortAllowZero_def validateHostPortValue_def

section \<open>Lemmas\<close>

text \<open>The strings the hostname grammar accepts: labels of letters, digits and hyphens.\<close>

definition plain_hostname :: "string \<Rightarrow> bool" where
  "plain_hostname h \<longleftrightarrow>
     length h \<le> 253 \<and> (\<exists>ls. ls \<noteq> [] \<and> (\<forall>l\<in>set ls. valid_label l) \<and> h = Join (CHR ''.'') ls)"

lemma label_char_ascii: "label_char c \<Longrightarrow> isAscii c \<and> \<not> asciiSpace c \<and> lower_char c = c"
  by (auto simp: label_char_def isAscii_def asciiSpace_def lower_char_def isUpper_def isLower_def
      isDigit_def)

lemma label_char_not_special:
  "label_char c \<Longrightarrow> c \<notin> {CHR ''.'', CHR '':'', CHR ''['', CHR '']'', CHR '' '', CHR 0x09, CHR 0x0D, CHR 0x0A}"
  by (auto simp: label_char_def isLower_def isDigit_def)

lemma valid_label_no_dot: "valid_label l \<Longrightarrow> CHR ''.'' \<notin> set l"
  using label_char_not_special by (fastforce simp: valid_label_def list_all_iff)

lemma set_Join: "set (Join c ls) \<subseteq> (\<Union>l\<in>set ls. set l) \<union> {c}"
  by (induction c ls rule: Join.induct) auto

lemma plain_hostname_chars:
  assumes "plain_hostname h" "c \<in> set h"
  shows "label_char c \<or> c = CHR ''.''"
proof -
  obtain ls where ls: "\<forall>l\<in>set ls. valid_label l" and h: "h = Join (CHR ''.'') ls"
    using assms(1) by (auto simp: plain_hostname_def)
  from assms(2) h set_Join [of "CHR ''.''" ls]
  consider "c = CHR ''.''" | l where "l \<in> set ls" "c \<in> set l" by auto
  then show ?thesis
    using ls by cases (auto simp: valid_label_def list_all_iff)
qed

lemma Join_last:
  "ls \<noteq> [] \<Longrightarrow> \<forall>l\<in>set ls. l \<noteq> [] \<Longrightarrow> Join c ls \<noteq> [] \<and> last (Join c ls) = last (last ls)"
  by (induction c ls rule: Join.induct) auto

lemma plain_hostname_last:
  assumes "plain_hostname h"
  shows "h \<noteq> [] \<and> label_char (last h)"
proof -
  obtain ls where ls: "ls \<noteq> []" "\<forall>l\<in>set ls. valid_label l" and h: "h = Join (CHR ''.'') ls"
    using assms by (auto simp: plain_hostname_def)
  have ne: "\<forall>l\<in>set ls. l \<noteq> []" using ls(2) by (auto simp: valid_label_def)
  have "valid_label (last ls)" using ls by simp
  then have "label_char (last (last ls))"
    by (simp add: valid_label_def list_all_iff)
  with Join_last [OF ls(1) ne] h show ?thesis by simp
qed

lemma HasSuffix_dot: "HasSuffix s [c] \<longleftrightarrow> s \<noteq> [] \<and> last s = c"
proof (cases s rule: rev_cases)
  case Nil
  then show ?thesis by (simp add: HasSuffix_def)
next
  case (snoc ys y)
  then show ?thesis by (simp add: HasSuffix_def)
qed

lemma TrimSuffix_dot: "TrimSuffix s [c] = (if s \<noteq> [] \<and> last s = c then butlast s else s)"
  by (simp add: TrimSuffix_def HasSuffix_dot butlast_conv_take)

lemma TrimSuffix_dot_plain: "plain_hostname h \<Longrightarrow> TrimSuffix h ''.'' = h"
  using plain_hostname_last [of h] label_char_not_special by (auto simp: TrimSuffix_dot)

lemma plain_hostname_ascii:
  assumes "plain_hostname h"
  shows "list_all isAscii h \<and> list_all (Not \<circ> asciiSpace) h \<and> map lower_char h = h"
proof -
  have "isAscii c \<and> \<not> asciiSpace c \<and> lower_char c = c" if "c \<in> set h" for c
  proof -
    have "label_char c \<or> c = CHR ''.''" using plain_hostname_chars [OF assms that] .
    then show ?thesis
    proof
      assume "c = CHR ''.''"
      then show ?thesis by (simp add: isAscii_def asciiSpace_def lower_char_def isUpper_def)
    qed (rule label_char_ascii)
  qed
  then show ?thesis
    by (auto simp: list_all_iff intro: map_idI)
qed

lemma TrimSpace_plain:
  assumes "list_all isAscii s" "list_all (Not \<circ> asciiSpace) s"
  shows "TrimSpace U s = s"
proof -
  have "dropWhile asciiSpace s = s"
    using assms(2) by (cases s) auto
  moreover have "dropWhile asciiSpace (rev s) = rev s"
    using assms(2) by (cases s rule: rev_cases) auto
  moreover have "s \<noteq> [] \<Longrightarrow> isAscii (hd s) \<and> isAscii (last s)"
    using assms(1) by (simp add: list_all_iff)
  ultimately show ?thesis by (auto simp: TrimSpace_def Let_def)
qed

lemma ToLower_plain: "list_all isAscii s \<Longrightarrow> map lower_char s = s \<Longrightarrow> ToLower U s = s"
  by (simp add: ToLower_def)

lemma ValidHostname_plain: "plain_hostname h \<Longrightarrow> ValidHostname U h"
proof -
  assume h: "plain_hostname h"
  obtain ls where ls: "ls \<noteq> []" "\<forall>l\<in>set ls. valid_label l" and hl: "h = Join (CHR ''.'') ls"
    using h by (auto simp: plain_hostname_def)
  have "Split (CHR ''.'') h = ls"
    using Split_Join [OF ls(1)] ls(2) valid_label_no_dot hl by simp
  moreover have "ToLower U (TrimSuffix h ''.'') = h"
    using plain_hostname_ascii [OF h] by (simp add: TrimSuffix_dot_plain [OF h] ToLower_plain)
  ultimately show ?thesis
    using ls h plain_hostname_last [OF h]
    by (auto simp: ValidHostname_def Let_def list_all_iff plain_hostname_def)
qed

lemma NormalizeTargetHost_plain: "plain_hostname h \<Longrightarrow> NormalizeTargetHost U h = h"
  using plain_hostname_ascii [of h]
  by (simp add: NormalizeTargetHost_def ToLower_plain TrimSpace_plain TrimSuffix_dot_plain)

lemma plain_port:
  assumes "list_all isDigit ds" "ds \<noteq> []"
  shows "TrimSpace U ds \<noteq> []"
    and "\<not> list_ex (\<lambda>c. c \<in> {CHR '' '', CHR 0x09, CHR 0x0D, CHR 0x0A}) ds"
    and "set ds \<inter> {CHR '':'', CHR ''['', CHR '']''} = {}"
proof -
  have "list_all isAscii ds" "list_all (Not \<circ> asciiSpace) ds"
    using assms(1) by (auto simp: list_all_iff isDigit_def isAscii_def asciiSpace_def)
  then show "TrimSpace U ds \<noteq> []" using assms(2) TrimSpace_plain by simp
  show "\<not> list_ex (\<lambda>c. c \<in> {CHR '' '', CHR 0x09, CHR 0x0D, CHR 0x0A}) ds"
    using assms(1) by (auto simp: list_all_iff list_ex_iff isDigit_def)
  show "set ds \<inter> {CHR '':'', CHR ''['', CHR '']''} = {}"
    using list_all_isDigit_chars [OF assms(1)] by auto
qed

section \<open>Properties\<close>

text \<open>
  The host name check accepts exactly the dot-separated sequences of valid
  labels (1 to 63 letters, digits and inner hyphens) of at most 253 characters, once one
  trailing dot is dropped and letters are lower-cased: whatever the Unicode tables do to
  non-ASCII text, the lower-cased name is such a sequence.
\<close>

lemma ValidHostname_iff:
  "ValidHostname U h \<longleftrightarrow> plain_hostname (ToLower U (TrimSuffix h ''.''))"
proof
  assume v: "ValidHostname U h"
  let ?h = "ToLower U (TrimSuffix h ''.'')"
  have "?h = Join (CHR ''.'') (Split (CHR ''.'') ?h)" by simp
  moreover have "\<forall>l\<in>set (Split (CHR ''.'') ?h). valid_label l" "length ?h \<le> 253"
    using v by (auto simp: ValidHostname_def Let_def list_all_iff split: if_splits)
  ultimately show "plain_hostname ?h"
    unfolding plain_hostname_def using Split_not_Nil by blast
next
  assume p: "plain_hostname (ToLower U (TrimSuffix h ''.''))"
  let ?h = "ToLower U (TrimSuffix h ''.'')"
  have "ValidHostname U ?h" using p by (rule ValidHostname_plain)
  moreover have "ToLower U (TrimSuffix ?h ''.'') = ?h"
    using plain_hostname_ascii [OF p] by (simp add: TrimSuffix_dot_plain [OF p] ToLower_plain)
  ultimately show "ValidHostname U h"
    by (simp only: ValidHostname_def Let_def)
qed

lemma SplitHostPort_plain:
  assumes "plain_hostname h" and "1 \<le> p"
  shows "SplitHostPort (JoinHostPort h (Itoa p)) = Inr (h, Itoa p)"
proof -
  have ds: "list_all isDigit (Itoa p)" "Itoa p \<noteq> []"
    using dec_digits_props [of "nat p"] assms(2) by (auto simp: Itoa_def)
  have hc: "set h \<inter> {CHR '':'', CHR ''['', CHR '']'', CHR '' '', CHR 0x09, CHR 0x0D, CHR 0x0A} = {}"
    using plain_hostname_chars [OF assms(1)] label_char_not_special by fastforce
  show ?thesis by (rule SplitHostPort_JoinHostPort) (use plain_port(3) [OF ds] hc in auto)
qed

text \<open>
  Every address that \<open>net.JoinHostPort\<close> builds from a plain host name and a port in
  1 to 65535 passes \<open>ValidateHostPort\<close>.
\<close>

lemma ValidateHostPort_JoinHostPort:
  assumes "plain_hostname h" and "1 \<le> p" and "p \<le> 65535"
  shows "ValidateHostPort U (JoinHostPort h (Itoa p)) = Inr ()"
proof -
  have it: "Itoa p = dec_digits (nat p)" using assms(2) by (simp add: Itoa_def)
  have ds: "list_all isDigit (Itoa p)" "Itoa p \<noteq> []"
    using dec_digits_props [of "nat p"] by (auto simp: it)
  have hc: "set h \<inter> {CHR '':'', CHR ''['', CHR '']'', CHR '' '', CHR 0x09, CHR 0x0D, CHR 0x0A} = {}"
    using plain_hostname_chars [OF assms(1)] label_char_not_special by fastforce
  have sp: "SplitHostPort (JoinHostPort h (Itoa p)) = Inr (h, Itoa p)"
    by (rule SplitHostPort_plain [OF assms(1,2)])
  have ws: "\<not> list_ex (\<lambda>c. c \<in> {CHR '' '', CHR 0x09, CHR 0x0D, CHR 0x0A}) (JoinHostPort h (Itoa p))"
    using plain_port(2) [OF ds] hc by (auto simp: JoinHostPort_def list_ex_iff)
  have th: "TrimSpace U h = h" "h \<noteq> []"
    using plain_hostname_ascii [OF assms(1)] plain_hostname_last [OF assms(1)]
    by (auto intro: TrimSpace_plain)
  have v: "ValidateHostnameOrIP U h = Inr ()"
    using assms(1) by (simp add: ValidateHostnameOrIP_def NormalizeTargetHost_plain ValidHostname_plain)
  have "Atoi (Itoa p) = Some p" using assms by (intro Atoi_Itoa) auto
  with ws sp th v assms(2,3) plain_port(1) [OF ds, of U] show ?thesis
    by (simp add: hostport_defs Let_def)
qed

end
