(* ===== verification/Wire_Protocol.thy ===== *)
theory Wire_Protocol
  imports Netaddr
begin

text \<open>
  \<open>internal/wire/protocol.go\<close>: stream kinds, capability bits, open-status and open-header
  frames, length-prefixed chunks and UDP replies, and the write loops under them. A write
  takes the writer and its state and returns the error (or none) and the next state; a read
  takes a reader and returns the value with the rest of the stream, or an error.

  The interface \<open>contract_writer\<close> states what \<open>io.Writer\<close> promises (the count is the
  number of bytes taken), \<open>reliable_writer\<close> adds progress without errors. The write loops
  are verified once against the interfaces, and \<open>bytes.Buffer\<close>, which the program encodes
  its records into, is an interpretation. The frame lemmas are round trips: what a frame
  writer emits is what its reader returns, leaving the bytes behind the frame untouched.
\<close>

section \<open>Constants\<close>

definition streamKindTCP :: byte where "streamKindTCP = 1"
definition streamKindUDP :: byte where "streamKindUDP = 2"
definition streamKindPing :: byte where "streamKindPing = 3"

definition isSupportedStreamKind :: "byte \<Rightarrow> bool" where
  "isSupportedStreamKind kind \<longleftrightarrow> kind \<in> {streamKindTCP, streamKindUDP, streamKindPing}"

definition protocolCapabilityTCP :: u32 where "protocolCapabilityTCP = 1"
definition protocolCapabilityUDP :: u32 where "protocolCapabilityUDP = 2"
definition protocolCapabilityPing :: u32 where "protocolCapabilityPing = 4"
definition protocolCapabilityIPStrategy :: u32 where "protocolCapabilityIPStrategy = 8"
definition protocolCapabilityTCPStatus :: u32 where "protocolCapabilityTCPStatus = 16"
definition protocolCapabilityUDPStatus :: u32 where "protocolCapabilityUDPStatus = 32"
definition protocolCapabilityOpenStatusCode :: u32 where "protocolCapabilityOpenStatusCode = 64"

definition tcpOpenStatusOK :: byte where "tcpOpenStatusOK = 0"
definition tcpOpenStatusError :: byte where "tcpOpenStatusError = 1"
definition udpOpenStatusOK :: byte where "udpOpenStatusOK = 0"
definition udpOpenStatusError :: byte where "udpOpenStatusError = 1"

definition openStatusCodeNone :: byte where "openStatusCodeNone = 0"
definition openStatusCodeBadTarget :: byte where "openStatusCodeBadTarget = 1"
definition openStatusCodePolicyDenied :: byte where "openStatusCodePolicyDenied = 2"
definition openStatusCodeDialFailed :: byte where "openStatusCodeDialFailed = 3"
definition openStatusCodeResourceLimit :: byte where "openStatusCodeResourceLimit = 4"

definition maxProtocolFieldLen :: nat where "maxProtocolFieldLen = 65535"

definition currentProtocolCapabilities :: u32 where
  "currentProtocolCapabilities =
     protocolCapabilityTCP OR protocolCapabilityUDP OR protocolCapabilityPing OR
     protocolCapabilityIPStrategy OR protocolCapabilityTCPStatus OR
     protocolCapabilityUDPStatus OR protocolCapabilityOpenStatusCode"

definition requiredProtocolCapabilities :: u32 where
  "requiredProtocolCapabilities = protocolCapabilityTCP OR protocolCapabilityPing"

section \<open>Write loops\<close>

definition validateProtocolFieldLen :: "nat \<Rightarrow> unit result" where
  "validateProtocolFieldLen len =
    (if len > maxProtocolFieldLen then Inl (Errorf ''field length exceeds limit'') else Inr ())"

function writeAllLoop :: "'w io_writer \<Rightarrow> 'w \<Rightarrow> bytes \<Rightarrow> nat \<Rightarrow> nat \<times> go_error option \<times> 'w" where
  "writeAllLoop W w b tot =
    (if b = [] then (tot, None, w)
     else
       (case io_Write W w b of
          (n, err, w') \<Rightarrow>
            if n > length b then (tot, Some ErrShortWrite, w')
            else
              (case err of
                 Some e \<Rightarrow> (tot + n, Some e, w')
               | None \<Rightarrow>
                   if n = 0 then (tot + n, Some ErrShortWrite, w')
                   else writeAllLoop W w' (drop n b) (tot + n))))"
  by pat_completeness auto
termination
  by (relation "measure (\<lambda>(W, w, b, tot). length b)") auto

declare writeAllLoop.simps [simp del]

definition writeAllCount :: "'w io_writer \<Rightarrow> 'w \<Rightarrow> bytes \<Rightarrow> nat \<times> go_error option \<times> 'w" where
  "writeAllCount W w b = writeAllLoop W w b 0"

definition writeAll :: "'w io_writer \<Rightarrow> 'w \<Rightarrow> bytes \<Rightarrow> go_error option \<times> 'w" where
  "writeAll W w b = (case writeAllCount W w b of (_, err, w') \<Rightarrow> (err, w'))"

function writeStringLoop ::
  "('w \<Rightarrow> string \<Rightarrow> nat \<times> go_error option \<times> 'w) \<Rightarrow> 'w \<Rightarrow> string \<Rightarrow> go_error option \<times> 'w" where
  "writeStringLoop ws w s =
    (if s = [] then (None, w)
     else
       (case ws w s of
          (n, err, w') \<Rightarrow>
            if n > length s then (Some ErrShortWrite, w')
            else
              (case err of
                 Some e \<Rightarrow> (Some e, w')
               | None \<Rightarrow>
                   if n = 0 then (Some ErrShortWrite, w')
                   else writeStringLoop ws w' (drop n s))))"
  by pat_completeness auto
termination
  by (relation "measure (\<lambda>(ws, w, s). length s)") auto

declare writeStringLoop.simps [simp del]

definition writeAllString :: "'w io_writer \<Rightarrow> 'w \<Rightarrow> string \<Rightarrow> go_error option \<times> 'w" where
  "writeAllString W w s =
    (case io_WriteString W of
       Some ws \<Rightarrow> writeStringLoop ws w s
     | None \<Rightarrow> writeAll W w (bytes_of s))"

definition writeOptionalPayload :: "'w io_writer \<Rightarrow> 'w \<Rightarrow> bytes \<Rightarrow> go_error option \<times> 'w" where
  "writeOptionalPayload W w payload = (if length payload = 0 then (None, w) else writeAll W w payload)"

definition writeOptionalString :: "'w io_writer \<Rightarrow> 'w \<Rightarrow> string \<Rightarrow> go_error option \<times> 'w" where
  "writeOptionalString W w payload = (if payload = [] then (None, w) else writeAllString W w payload)"

text \<open>Go's \<open>if err := f(); err != nil { return err }\<close> between two writes.\<close>

definition wthen :: "go_error option \<times> 'w \<Rightarrow> ('w \<Rightarrow> go_error option \<times> 'w) \<Rightarrow> go_error option \<times> 'w" where
  "wthen r f = (case r of (Some e, w) \<Rightarrow> (Some e, w) | (None, w) \<Rightarrow> f w)"

definition readExactPayload :: "reader \<Rightarrow> nat \<Rightarrow> (bytes \<times> reader) result" where
  "readExactPayload r len = (if len = 0 then Inr ([], r) else read_full len r)"

section \<open>Frames\<close>

definition writeOpenStatus :: "'w io_writer \<Rightarrow> 'w \<Rightarrow> byte \<Rightarrow> string \<Rightarrow> go_error option \<times> 'w" where
  "writeOpenStatus W w status message =
    (case validateProtocolFieldLen (length message) of
       Inl e \<Rightarrow> (Some e, w)
     | Inr _ \<Rightarrow>
         wthen (writeAll W w ([status] @ put16 (word_of_nat (length message))))
           (\<lambda>w. writeOptionalString W w message))"

definition readOpenStatus :: "reader \<Rightarrow> ((byte \<times> string) \<times> reader) result" where
  "readOpenStatus r =
    rbind (read_full 3 r) (\<lambda>(head, r).
      let msgLen = unat (get16 (slice 1 3 head)) in
      rbind (readExactPayload r msgLen) (\<lambda>(message, r).
        Inr ((head ! 0, str_of message), r)))"

definition writeOpenStatusCode ::
  "'w io_writer \<Rightarrow> 'w \<Rightarrow> byte \<Rightarrow> byte \<Rightarrow> string \<Rightarrow> go_error option \<times> 'w" where
  "writeOpenStatusCode W w status code message =
    (case validateProtocolFieldLen (length message) of
       Inl e \<Rightarrow> (Some e, w)
     | Inr _ \<Rightarrow>
         wthen (writeAll W w ([status, code] @ put16 (word_of_nat (length message))))
           (\<lambda>w. writeOptionalString W w message))"

definition readOpenStatusCode :: "reader \<Rightarrow> ((byte \<times> byte \<times> string) \<times> reader) result" where
  "readOpenStatusCode r =
    rbind (read_full 4 r) (\<lambda>(head, r).
      let msgLen = unat (get16 (slice 2 4 head)) in
      rbind (readExactPayload r msgLen) (\<lambda>(message, r).
        Inr ((head ! 0, head ! 1, str_of message), r)))"

definition readSmuxOpenHeader :: "reader \<Rightarrow> ((byte \<times> byte \<times> string) \<times> reader) result" where
  "readSmuxOpenHeader r =
    rbind (read_full 4 r) (\<lambda>(head, r).
      let kind = head ! 0; strategy = head ! 1; targetLen = unat (get16 (slice 2 4 head)) in
      rbind (readExactPayload r targetLen) (\<lambda>(targetRaw, r).
        Inr ((kind, strategy, str_of targetRaw), r)))"

definition writeSmuxOpenHeader ::
  "'w io_writer \<Rightarrow> 'w \<Rightarrow> byte \<Rightarrow> byte \<Rightarrow> string \<Rightarrow> go_error option \<times> 'w" where
  "writeSmuxOpenHeader W w kind strategy target =
    (case validateProtocolFieldLen (length target) of
       Inl _ \<Rightarrow> (Some (Errorf ''target address too long''), w)
     | Inr _ \<Rightarrow>
         wthen (writeAll W w ([kind, strategy] @ put16 (word_of_nat (length target))))
           (\<lambda>w. writeOptionalString W w target))"

definition writeChunk :: "'w io_writer \<Rightarrow> 'w \<Rightarrow> bytes \<Rightarrow> go_error option \<times> 'w" where
  "writeChunk W w b =
    (case validateProtocolFieldLen (length b) of
       Inl _ \<Rightarrow> (Some (Errorf ''chunk too large''), w)
     | Inr _ \<Rightarrow>
         wthen (writeAll W w (put16 (word_of_nat (length b))))
           (\<lambda>w. writeOptionalPayload W w b))"

definition readChunk :: "reader \<Rightarrow> (bytes \<times> reader) result" where
  "readChunk r =
    rbind (read_full 2 r) (\<lambda>(h, r).
      let n = unat (get16 h) in readExactPayload r n)"

definition writeUDPReply ::
  "unicode_lib \<Rightarrow> 'w io_writer \<Rightarrow> 'w \<Rightarrow> string \<Rightarrow> bytes \<Rightarrow> go_error option \<times> 'w" where
  "writeUDPReply U W w addr payload =
    (case validateProtocolFieldLen (length addr) of
       Inl _ \<Rightarrow> (Some (Errorf ''address too long''), w)
     | Inr _ \<Rightarrow>
         (case ValidateHostPort U addr of
            Inl _ \<Rightarrow> (Some (Errorf ''UDP reply address invalid''), w)
          | Inr _ \<Rightarrow>
              (case validateProtocolFieldLen (length payload) of
                 Inl _ \<Rightarrow> (Some (Errorf ''chunk too large''), w)
               | Inr _ \<Rightarrow>
                   wthen (writeAll W w (put16 (word_of_nat (length addr)) @
                                        put16 (word_of_nat (length payload))))
                     (\<lambda>w. wthen (writeOptionalString W w addr)
                       (\<lambda>w. writeOptionalPayload W w payload)))))"

definition readUDPReply :: "unicode_lib \<Rightarrow> reader \<Rightarrow> ((string \<times> bytes) \<times> reader) result" where
  "readUDPReply U r =
    rbind (read_full 4 r) (\<lambda>(head, r).
      let addrLen = unat (get16 (slice 0 2 head)); dataLen = unat (get16 (slice 2 4 head)) in
      rbind (readExactPayload r addrLen) (\<lambda>(addrRaw, r).
        let addr = str_of addrRaw in
        (case ValidateHostPort U addr of
           Inl _ \<Rightarrow> Inl (Errorf ''UDP reply address invalid'')
         | Inr _ \<Rightarrow>
             rbind (readExactPayload r dataLen) (\<lambda>(payload, r). Inr ((addr, payload), r)))))"

text \<open>The TCP and UDP variants are the same frames; only the field name in the error differs.\<close>

abbreviation writeTCPOpenStatus :: "'w io_writer \<Rightarrow> 'w \<Rightarrow> byte \<Rightarrow> string \<Rightarrow> go_error option \<times> 'w" where
  "writeTCPOpenStatus \<equiv> writeOpenStatus"

abbreviation writeUDPOpenStatus :: "'w io_writer \<Rightarrow> 'w \<Rightarrow> byte \<Rightarrow> string \<Rightarrow> go_error option \<times> 'w" where
  "writeUDPOpenStatus \<equiv> writeOpenStatus"

abbreviation writeTCPOpenStatusCode :: "'w io_writer \<Rightarrow> 'w \<Rightarrow> byte \<Rightarrow> byte \<Rightarrow> string \<Rightarrow> go_error option \<times> 'w" where
  "writeTCPOpenStatusCode \<equiv> writeOpenStatusCode"

abbreviation writeUDPOpenStatusCode :: "'w io_writer \<Rightarrow> 'w \<Rightarrow> byte \<Rightarrow> byte \<Rightarrow> string \<Rightarrow> go_error option \<times> 'w" where
  "writeUDPOpenStatusCode \<equiv> writeOpenStatusCode"

text \<open>The byte layout of each frame.\<close>

definition open_status_frame :: "byte \<Rightarrow> string \<Rightarrow> bytes" where
  "open_status_frame st m = ([st] @ put16 (word_of_nat (length m))) @ bytes_of m"

definition open_code_frame :: "byte \<Rightarrow> byte \<Rightarrow> string \<Rightarrow> bytes" where
  "open_code_frame st code m = ([st, code] @ put16 (word_of_nat (length m))) @ bytes_of m"

definition chunk_frame :: "bytes \<Rightarrow> bytes" where
  "chunk_frame b = put16 (word_of_nat (length b)) @ b"

definition udp_frame :: "string \<Rightarrow> bytes \<Rightarrow> bytes" where
  "udp_frame a b =
    (put16 (word_of_nat (length a)) @ put16 (word_of_nat (length b))) @ (bytes_of a @ b)"

section \<open>The writer interface\<close>

locale contract_writer =
  fixes W :: "'w io_writer"
    and ok :: "'w \<Rightarrow> bool"
    and sink :: "'w \<Rightarrow> bytes"
  assumes write_ok: "ok w \<Longrightarrow> b \<noteq> [] \<Longrightarrow> io_Write W w b = (n, e, w') \<Longrightarrow>
      ok w' \<and> n \<le> length b \<and> sink w' = sink w @ take n b"
    and write_string_ok: "io_WriteString W = Some ws \<Longrightarrow> ok w \<Longrightarrow> s \<noteq> [] \<Longrightarrow> ws w s = (n, e, w') \<Longrightarrow>
      ok w' \<and> n \<le> length s \<and> sink w' = sink w @ take n (bytes_of s)"
begin

lemma writeAllLoop_sound:
  assumes "ok w" "writeAllLoop W w b tot = (n, e, w')"
  shows "ok w' \<and> tot \<le> n \<and> n \<le> tot + length b \<and> sink w' = sink w @ take (n - tot) b \<and>
    (e = None \<longrightarrow> n = tot + length b)"
  using assms
proof (induction b arbitrary: w tot n e w' rule: length_induct)
  case (1 b)
  show ?case
  proof (cases "b = []")
    case True
    with "1.prems" show ?thesis by (simp add: writeAllLoop.simps)
  next
    case False
    obtain k err w1 where wr: "io_Write W w b = (k, err, w1)" by (cases "io_Write W w b")
    have st: "ok w1" "k \<le> length b" "sink w1 = sink w @ take k b"
      using write_ok [OF "1.prems"(1) False wr] by auto
    show ?thesis
    proof (cases "err = None \<and> k \<noteq> 0")
      case True
      with "1.prems"(2) False wr st have rec: "writeAllLoop W w1 (drop k b) (tot + k) = (n, e, w')"
        by (simp add: writeAllLoop.simps [of W w b tot])
      have "take k b @ take (n - (tot + k)) (drop k b) = take (n - tot) b" if "tot + k \<le> n"
        using that take_add [of k "n - (tot + k)" b] by simp
      moreover have "length (drop k b) < length b" using True False by (cases b) auto
      ultimately show ?thesis
        using "1.IH" [rule_format, of "drop k b" w1 "tot + k" n e w'] rec st by auto
    next
      case False
      with "1.prems"(2) \<open>b \<noteq> []\<close> wr st show ?thesis
        by (auto simp: writeAllLoop.simps [of W w b tot] split: option.splits if_splits)
    qed
  qed
qed

lemma writeAllCount_sound:
  assumes "ok w" "writeAllCount W w b = (n, e, w')"
  shows "ok w' \<and> n \<le> length b \<and> sink w' = sink w @ take n b \<and> (e = None \<longrightarrow> n = length b)"
  using writeAllLoop_sound [of w b 0 n e w'] assms by (simp add: writeAllCount_def)

end

locale reliable_writer = contract_writer +
  assumes write_progress: "ok w \<Longrightarrow> b \<noteq> [] \<Longrightarrow> io_Write W w b = (n, e, w') \<Longrightarrow> 0 < n \<and> e = None"
    and write_string_progress: "io_WriteString W = Some ws \<Longrightarrow> ok w \<Longrightarrow> s \<noteq> [] \<Longrightarrow>
      ws w s = (n, e, w') \<Longrightarrow> 0 < n \<and> e = None"
begin

definition emits :: "go_error option \<times> 'a \<Rightarrow> 'a \<Rightarrow> bytes \<Rightarrow> bool" where
  "emits r w b \<longleftrightarrow> fst r = None \<and> ok (snd r) \<and> sink (snd r) = sink w @ b"

lemma writeAllLoop_None: "ok w \<Longrightarrow> fst (snd (writeAllLoop W w b tot)) = None"
proof (induction b arbitrary: w tot rule: length_induct)
  case (1 b)
  show ?case
  proof (cases "b = []")
    case True
    then show ?thesis by (simp add: writeAllLoop.simps)
  next
    case False
    obtain k err w1 where wr: "io_Write W w b = (k, err, w1)" by (cases "io_Write W w b")
    have st: "ok w1" "k \<le> length b" "0 < k" "err = None"
      using write_ok [OF "1.prems" False wr] write_progress [OF "1.prems" False wr] by auto
    moreover have "length (drop k b) < length b" using st False by (cases b) auto
    ultimately show ?thesis
      using "1.IH" [rule_format, of "drop k b" w1 "tot + k"] False wr
      by (simp add: writeAllLoop.simps [of W w b tot])
  qed
qed

lemma writeAll_emits: "ok w \<Longrightarrow> emits (writeAll W w b) w b"
  using writeAllCount_sound [of w b] writeAllLoop_None [of w b 0]
  by (cases "writeAllCount W w b") (auto simp: emits_def writeAll_def writeAllCount_def)

lemma writeStringLoop_emits:
  "io_WriteString W = Some ws \<Longrightarrow> ok w \<Longrightarrow> emits (writeStringLoop ws w s) w (bytes_of s)"
proof (induction ws w s rule: writeStringLoop.induct)
  case (1 ws w s)
  show ?case
  proof (cases "s = []")
    case True
    with "1.prems" show ?thesis by (simp add: writeStringLoop.simps emits_def)
  next
    case False
    obtain k err w1 where wr: "ws w s = (k, err, w1)" by (cases "ws w s")
    have st: "ok w1" "k \<le> length s" "sink w1 = sink w @ take k (bytes_of s)" "0 < k" "err = None"
      using write_string_ok [OF "1.prems" False wr] write_string_progress [OF "1.prems" False wr] by auto
    have "emits (writeStringLoop ws w1 (drop k s)) w1 (bytes_of (drop k s))"
      using "1.IH" [OF False wr [symmetric] refl _ _ _ "1.prems"(1) st(1)] st by simp
    moreover have "take k (bytes_of s) @ bytes_of (drop k s) = bytes_of s"
      by (metis append_take_drop_id bytes_of_def drop_map)
    ultimately show ?thesis
      using False wr st by (simp add: writeStringLoop.simps [of ws w s] emits_def)
  qed
qed

lemma writeAllString_emits: "ok w \<Longrightarrow> emits (writeAllString W w s) w (bytes_of s)"
  by (simp add: writeAllString_def writeAll_emits writeStringLoop_emits split: option.splits)

lemma writeOptional_emits:
  "ok w \<Longrightarrow> emits (writeOptionalPayload W w b) w b"
  "ok w \<Longrightarrow> emits (writeOptionalString W w s) w (bytes_of s)"
  by (auto simp: writeOptionalPayload_def writeOptionalString_def writeAll_emits writeAllString_emits)
    (auto simp: emits_def)

lemma wthen_emits:
  "emits r w b \<Longrightarrow> (\<And>w'. ok w' \<Longrightarrow> emits (f w') w' c) \<Longrightarrow> emits (wthen r f) w (b @ c)"
  by (cases r) (auto simp: emits_def wthen_def)

lemmas emits_intros = wthen_emits writeAll_emits writeOptional_emits

lemma frames_emit:
  "ok w \<Longrightarrow> length m \<le> 65535 \<Longrightarrow> emits (writeOpenStatus W w st m) w (open_status_frame st m)"
  "ok w \<Longrightarrow> length m \<le> 65535 \<Longrightarrow> emits (writeOpenStatusCode W w st code m) w (open_code_frame st code m)"
  "ok w \<Longrightarrow> length t \<le> 65535 \<Longrightarrow> emits (writeSmuxOpenHeader W w kind strat t) w (open_code_frame kind strat t)"
  "ok w \<Longrightarrow> length b \<le> 65535 \<Longrightarrow> emits (writeChunk W w b) w (chunk_frame b)"
  by (simp_all add: writeOpenStatus_def writeOpenStatusCode_def writeSmuxOpenHeader_def writeChunk_def
      validateProtocolFieldLen_def maxProtocolFieldLen_def open_status_frame_def open_code_frame_def
      chunk_frame_def emits_intros del: append_Cons append_assoc)

lemma udp_reply_emits:
  "ok w \<Longrightarrow> length a \<le> 65535 \<Longrightarrow> length b \<le> 65535 \<Longrightarrow> ValidateHostPort U a = Inr () \<Longrightarrow>
   emits (writeUDPReply U W w a b) w (udp_frame a b)"
  unfolding writeUDPReply_def validateProtocolFieldLen_def maxProtocolFieldLen_def udp_frame_def
  by (simp del: append_assoc) (intro emits_intros, simp)

end

interpretation buf: reliable_writer buffer_writer "\<lambda>_. True" "\<lambda>b. b"
  by unfold_locales (auto simp: buffer_writer_def)

lemma buffer_writeAllCount: "writeAllCount buffer_writer w b = (length b, None, w @ b)"
proof -
  have "writeAllLoop buffer_writer v [] n = (n, None, v)" for v n
    by (subst writeAllLoop.simps) simp
  then show ?thesis
    unfolding writeAllCount_def by (subst writeAllLoop.simps) (simp add: buffer_writer_def)
qed

section \<open>Reading frames back\<close>

lemma slice_put16 [simp, codec]:
  "slice (Suc 0) 3 (a # put16 w) = put16 w"
  "slice 2 4 (a # b # put16 w) = put16 w"
  "slice 0 2 (put16 w @ xs) = put16 w"
  "slice 2 4 (put16 v @ put16 w) = put16 w"
  by (simp_all add: slice_def)

lemma readExactPayload_append [simp, codec]:
  "length xs = n \<Longrightarrow> readExactPayload (Reader (xs @ ys) e) n = Inr (xs, Reader ys e)"
  by (auto simp: readExactPayload_def)

lemma readExactPayload_Inr:
  "readExactPayload r n = Inr (xs, r') \<longleftrightarrow>
     length xs = n \<and> rdata r = xs @ rdata r' \<and> rerr r' = rerr r"
  by (cases r; cases r') (auto simp: readExactPayload_def read_full_Inr)

lemma read_frames:
  assumes "length m \<le> 65535" "length b \<le> 65535"
  shows "readOpenStatus (Reader (open_status_frame st m @ rest) e) = Inr ((st, m), Reader rest e)"
    and "readOpenStatusCode (Reader (open_code_frame st code m @ rest) e) = Inr ((st, code, m), Reader rest e)"
    and "readSmuxOpenHeader (Reader (open_code_frame st code m @ rest) e) = Inr ((st, code, m), Reader rest e)"
    and "readChunk (Reader (chunk_frame b @ rest) e) = Inr (b, Reader rest e)"
proof -
  have "read_full 3 (Reader (open_status_frame st m @ rest) e) =
      Inr ([st] @ put16 (word_of_nat (length m)), Reader (bytes_of m @ rest) e)"
    unfolding open_status_frame_def append_assoc [of _ _ rest] by (rule read_full_append) simp
  then show "readOpenStatus (Reader (open_status_frame st m @ rest) e) = Inr ((st, m), Reader rest e)"
    using assms by (simp add: readOpenStatus_def)
  have h: "read_full 4 (Reader (open_code_frame st code m @ rest) e) =
      Inr ([st, code] @ put16 (word_of_nat (length m)), Reader (bytes_of m @ rest) e)"
    unfolding open_code_frame_def append_assoc [of _ _ rest] by (rule read_full_append) simp
  then show "readOpenStatusCode (Reader (open_code_frame st code m @ rest) e) = Inr ((st, code, m), Reader rest e)"
    using assms by (simp add: readOpenStatusCode_def)
  from h show "readSmuxOpenHeader (Reader (open_code_frame st code m @ rest) e) = Inr ((st, code, m), Reader rest e)"
    using assms by (simp add: readSmuxOpenHeader_def)
  show "readChunk (Reader (chunk_frame b @ rest) e) = Inr (b, Reader rest e)"
    using assms by (simp add: readChunk_def chunk_frame_def)
qed

lemma read_udp_frame:
  assumes "length a \<le> 65535" "length b \<le> 65535" "ValidateHostPort U a = Inr ()"
  shows "readUDPReply U (Reader (udp_frame a b @ rest) e) = Inr ((a, b), Reader rest e)"
proof -
  have "read_full 4 (Reader (udp_frame a b @ rest) e) =
      Inr (put16 (word_of_nat (length a)) @ put16 (word_of_nat (length b)),
           Reader ((bytes_of a @ b) @ rest) e)"
    unfolding udp_frame_def append_assoc [of _ _ rest] by (rule read_full_append) simp
  then show ?thesis
    using assms by (simp add: readUDPReply_def)
qed

lemma read_open_header_complete:
  assumes "readSmuxOpenHeader r = Inr ((kind, strat, t), r')"
  shows "length t \<le> 65535 \<and> rdata r = open_code_frame kind strat t @ rdata r' \<and> rerr r' = rerr r"
proof -
  obtain head r1 raw where h: "read_full 4 r = Inr (head, r1)"
    and p: "readExactPayload r1 (unat (get16 (slice 2 4 head))) = Inr (raw, r')"
    and v: "kind = head ! 0" "strat = head ! 1" "t = str_of raw"
    using assms by (auto simp: readSmuxOpenHeader_def Let_def rbind_eq_Inr)
  have len: "length head = 4" "rdata r = head @ rdata r1" "rerr r1 = rerr r"
    using h by (auto simp: read_full_Inr)
  then obtain a b c d where hd: "head = [a, b, c, d]"
    by (auto simp: length_Suc_conv numeral_eq_Suc)
  have "slice 2 4 head = [c, d]" by (simp add: hd slice_def)
  then have raw: "length raw = unat (get16 [c, d])" "rdata r1 = raw @ rdata r'" "rerr r' = rerr r1"
    using p by (auto simp: readExactPayload_Inr)
  have le: "unat (get16 [c, d]) \<le> 65535"
    using unsigned_less [of "get16 [c, d]", where ?'a = nat] by simp
  have "put16 (word_of_nat (length raw)) = [c, d]" by (simp add: raw)
  with len raw v hd le show ?thesis by (simp add: open_code_frame_def)
qed

section \<open>Properties\<close>

text \<open>
  Over any writer that honours the \<open>io.Writer\<close> contract, \<open>writeAllCount\<close> always
  returns, the count it reports is exactly the number of leading bytes the writer took,
  and a nil error means that all bytes were taken.
\<close>

lemma writeAllCount_contract:
  assumes "contract_writer W ok sink" and "ok w" and "writeAllCount W w b = (n, e, w')"
  shows "n \<le> length b \<and> sink w' = sink w @ take n b \<and> (e = None \<longrightarrow> n = length b)"
  using contract_writer.writeAllCount_sound [OF assms] by simp

text \<open>
  Stream open header: over any reliable writer, \<open>writeSmuxOpenHeader\<close> with a target of
  at most 65535 bytes succeeds and emits a frame that \<open>readSmuxOpenHeader\<close> decodes to the
  same kind, strategy and target, leaving the stream behind the frame in place; every
  proper prefix of the frame is rejected with an error.
\<close>

lemma smux_open_header_roundtrip:
  assumes "reliable_writer W ok sink" and "ok w" and "length target \<le> 65535"
  shows "\<exists>w' frame. writeSmuxOpenHeader W w kind strategy target = (None, w') \<and>
      sink w' = sink w @ frame \<and>
      (\<forall>rest e. readSmuxOpenHeader (Reader (frame @ rest) e) = Inr ((kind, strategy, target), Reader rest e)) \<and>
      (\<forall>k e. k < length frame \<longrightarrow> (\<exists>err. readSmuxOpenHeader (Reader (take k frame) e) = Inl err))"
proof -
  let ?f = "open_code_frame kind strategy target"
  have "reliable_writer.emits ok sink (writeSmuxOpenHeader W w kind strategy target) w ?f"
    by (rule reliable_writer.frames_emit(3) [OF assms])
  then have "\<exists>w'. writeSmuxOpenHeader W w kind strategy target = (None, w') \<and> sink w' = sink w @ ?f"
    by (cases "writeSmuxOpenHeader W w kind strategy target")
      (auto simp: reliable_writer.emits_def [OF assms(1)])
  moreover have "\<exists>err. readSmuxOpenHeader (Reader (take k ?f) e) = Inl err" if "k < length ?f" for k e
  proof (cases "readSmuxOpenHeader (Reader (take k ?f) e)")
    case (Inr b)
    then obtain kd st t r' where r: "readSmuxOpenHeader (Reader (take k ?f) e) = Inr ((kd, st, t), r')"
      by (cases b) auto
    have c: "take k ?f = open_code_frame kd st t @ rdata r'" "length t \<le> 65535"
      using read_open_header_complete [OF r] by auto
    have "?f = open_code_frame kd st t @ (rdata r' @ drop k ?f)"
      using c(1) append_take_drop_id [of k ?f] by simp
    then have a: "readSmuxOpenHeader (Reader ?f e) = Inr ((kd, st, t), Reader (rdata r' @ drop k ?f) e)"
      using read_frames(3) [OF c(2), of "[]" kd st "rdata r' @ drop k ?f" e] by simp
    have b: "readSmuxOpenHeader (Reader ?f e) = Inr ((kind, strategy, target), Reader [] e)"
      using read_frames(3) [OF assms(3), of "[]" kind strategy "[]" e] by simp
    have "Reader (rdata r' @ drop k ?f) e = Reader [] e"
      using trans [OF sym [OF a] b] by (metis Pair_inject sum.inject(2))
    with that show ?thesis by simp
  qed simp
  ultimately show ?thesis using read_frames(3) [OF assms(3), of "[]"] by auto
qed

theorem smux_open_header_roundtrip_witness:
  "\<exists>w' frame. writeSmuxOpenHeader buffer_writer [] streamKindTCP 0 ''a:1'' = (None, w') \<and>
      w' = [] @ frame \<and>
      (\<forall>rest e. readSmuxOpenHeader (Reader (frame @ rest) e) =
         Inr ((streamKindTCP, 0, ''a:1''), Reader rest e)) \<and>
      (\<forall>k e. k < length frame \<longrightarrow> (\<exists>err. readSmuxOpenHeader (Reader (take k frame) e) = Inl err))"
  by (rule smux_open_header_roundtrip [OF buf.reliable_writer_axioms]) simp_all

theorem writeAllCount_contract_witness:
  "writeAllCount buffer_writer [1] [2, 3] = (2, None, [1, 2, 3]) \<and>
   (2::nat) \<le> length [2, 3 :: byte] \<and> [1, 2, 3] = [1] @ take 2 [2, 3 :: byte]"
proof -
  have run: "writeAllCount buffer_writer [1] [2, 3] = (2, None, [1, 2, 3])"
    by (simp add: buffer_writeAllCount)
  show ?thesis
    using run writeAllCount_contract [OF buf.contract_writer_axioms TrueI run] by blast
qed

text \<open>
  UDP reply: for a valid \<open>host:port\<close> address and a payload of at most 65535 bytes the frame
  that \<open>writeUDPReply\<close> emits is decoded by \<open>readUDPReply\<close> to the same address and payload;
  an invalid address is refused by the writer with nothing emitted.
\<close>

lemma udp_reply_roundtrip:
  assumes "reliable_writer W ok sink" and "ok w" and "length a \<le> 65535" and "length b \<le> 65535"
  shows "(ValidateHostPort U a = Inr () \<longrightarrow>
       (\<exists>w' frame. writeUDPReply U W w a b = (None, w') \<and> sink w' = sink w @ frame \<and>
         (\<forall>rest e. readUDPReply U (Reader (frame @ rest) e) = Inr ((a, b), Reader rest e)))) \<and>
     (ValidateHostPort U a \<noteq> Inr () \<longrightarrow>
       writeUDPReply U W w a b = (Some (Errorf ''UDP reply address invalid''), w))"
proof (cases "ValidateHostPort U a")
  case (Inl x)
  with assms show ?thesis
    by (simp add: writeUDPReply_def validateProtocolFieldLen_def maxProtocolFieldLen_def)
next
  case (Inr x)
  then have v: "ValidateHostPort U a = Inr ()" by simp
  have "reliable_writer.emits ok sink (writeUDPReply U W w a b) w (udp_frame a b)"
    by (rule reliable_writer.udp_reply_emits [OF assms v])
  then show ?thesis
    using v read_udp_frame [OF assms(3,4) v]
    by (cases "writeUDPReply U W w a b") (auto simp: reliable_writer.emits_def [OF assms(1)])
qed

definition no_unicode :: unicode_lib where
  "no_unicode = \<lparr>uc_ToLower = id, uc_ToUpper = id, uc_TrimSpace = id, uc_TrimRightSpace = id\<rparr>"

theorem udp_reply_roundtrip_witness:
  "\<exists>w' frame. writeUDPReply no_unicode buffer_writer [] ''a:53'' [7] = (None, w') \<and> w' = [] @ frame \<and>
     (\<forall>rest e. readUDPReply no_unicode (Reader (frame @ rest) e) = Inr ((''a:53'', [7]), Reader rest e))"
proof -
  have "plain_hostname ''a''"
    unfolding plain_hostname_def
    by (auto intro!: exI [of _ "[''a'']"] simp: valid_label_def label_char_def isLower_def)
  then have "ValidateHostPort no_unicode (JoinHostPort ''a'' (Itoa 53)) = Inr ()"
    by (rule ValidateHostPort_JoinHostPort) simp_all
  moreover have "JoinHostPort ''a'' (Itoa 53) = ''a:53''"
    by code_simp
  ultimately have v: "ValidateHostPort no_unicode ''a:53'' = Inr ()" by simp
  show ?thesis
    using udp_reply_roundtrip [OF buf.reliable_writer_axioms, where w = "[]" and a = "''a:53''"
        and b = "[7]" and U = no_unicode] v
    by simp
qed

end
