(* ===== verification/Wire_Crypto.thy ===== *)
theory Wire_Crypto
  imports Prelude
begin

text \<open>
  The cryptographic primitives the wire package calls (SHA-256, HMAC, HKDF, X25519 and the
  three AEAD ciphers) are parameters of the model, the fields of the record \<open>crypto\<close>.
  The predicates below state what their documentation promises and are the named
  hypotheses of the theorems that need them. \<open>plain_crypto\<close> is a concrete instance (no
  security, correct lengths and inverse) that shows the hypotheses can hold together.
\<close>

record crypto =
  sha256_Sum :: "bytes \<Rightarrow> bytes"
  hmac_SHA256 :: "bytes \<Rightarrow> bytes \<Rightarrow> bytes"
  hkdf_Extract :: "bytes \<Rightarrow> bytes \<Rightarrow> bytes"
  hkdf_Expand :: "bytes \<Rightarrow> bytes \<Rightarrow> nat \<Rightarrow> bytes result"
  x25519 :: "bytes \<Rightarrow> bytes \<Rightarrow> bytes result"
  aead_Seal :: "byte \<Rightarrow> bytes \<Rightarrow> bytes \<Rightarrow> bytes \<Rightarrow> bytes \<Rightarrow> bytes"
  aead_Open :: "byte \<Rightarrow> bytes \<Rightarrow> bytes \<Rightarrow> bytes \<Rightarrow> bytes \<Rightarrow> bytes option"

text \<open>\<open>hkdf.New\<close> is extraction followed by expansion.\<close>

definition hkdf_New :: "crypto \<Rightarrow> bytes \<Rightarrow> bytes \<Rightarrow> bytes \<Rightarrow> nat \<Rightarrow> bytes result" where
  "hkdf_New C secret salt info n = hkdf_Expand C (hkdf_Extract C secret salt) info n"

text \<open>Hash and MAC outputs have 32 bytes; HKDF expands to any length up to 255 hash blocks.\<close>

definition hash_lengths :: "crypto \<Rightarrow> bool" where
  "hash_lengths C \<longleftrightarrow>
     (\<forall>x. length (sha256_Sum C x) = 32) \<and> (\<forall>k x. length (hmac_SHA256 C k x) = 32)"

definition hkdf_total :: "crypto \<Rightarrow> bool" where
  "hkdf_total C \<longleftrightarrow>
     (\<forall>prk info n. n \<le> 8160 \<longrightarrow> (\<exists>k. hkdf_Expand C prk info n = Inr k \<and> length k = n))"

text \<open>
  AEAD: the ciphertext is 16 bytes (the tag) longer than the plaintext, and opening it under
  the same key, nonce and additional data gives the plaintext back.
\<close>

definition aead_correct :: "crypto \<Rightarrow> bool" where
  "aead_correct C \<longleftrightarrow>
     (\<forall>c key nonce p ad. length (aead_Seal C c key nonce p ad) = length p + 16 \<and>
        aead_Open C c key nonce (aead_Seal C c key nonce p ad) ad = Some p)"

text \<open>Diffie-Hellman: both sides compute the same shared secret from the other's public key.\<close>

definition dh_agrees :: "crypto \<Rightarrow> bytes \<Rightarrow> bool" where
  "dh_agrees C base \<longleftrightarrow>
     (\<forall>a b pa pb. x25519 C a base = Inr pa \<longrightarrow> x25519 C b base = Inr pb \<longrightarrow>
        x25519 C a pb = x25519 C b pa)"

text \<open>
  Concrete instance: fixed-length checksums for the hashes, XOR-free concatenation for the
  AEAD (plaintext followed by a constant tag).
\<close>

definition fit :: "nat \<Rightarrow> bytes \<Rightarrow> bytes" where
  "fit n b = take n (b @ replicate n 1)"

lemma length_fit [simp]: "length (fit n b) = n"
  by (simp add: fit_def)

definition plain_crypto :: crypto where
  "plain_crypto = \<lparr>
     sha256_Sum = fit 32,
     hmac_SHA256 = (\<lambda>k x. fit 32 x),
     hkdf_Extract = (\<lambda>secret salt. fit 32 secret),
     hkdf_Expand = (\<lambda>prk info n. Inr (fit n info)),
     x25519 = (\<lambda>sk pk. Inr (fit 32 [1])),
     aead_Seal = (\<lambda>c key nonce p ad. p @ replicate 16 0),
     aead_Open = (\<lambda>c key nonce ct ad. if length ct < 16 then None else Some (take (length ct - 16) ct))\<rparr>"

lemma plain_crypto_laws:
  "hash_lengths plain_crypto" "hkdf_total plain_crypto" "aead_correct plain_crypto"
  "dh_agrees plain_crypto base"
  by (simp_all add: plain_crypto_def hash_lengths_def hkdf_total_def aead_correct_def dh_agrees_def)

end
