(* ===== verification/Wire_V2.thy ===== *)
theory Wire_V2
  imports Wire_Protocol Wire_Crypto
begin

text \<open>
  \<open>internal/wire/protocol_v2.go\<close>: the framing envelope, the TLV record layer, the
  \<open>ChannelInit\<close>/\<open>ChannelAccept\<close>/\<open>ChannelReject\<close> messages of protocol v2, the v2
  authentication proof and capability negotiation. The TLV parser is characterised
  completely against a list of records; the message round trips rest on that.
\<close>

section \<open>Constants and data\<close>

definition protocolV2Version :: byte where "protocolV2Version = 2"
definition v2FrameTypeChannelInit :: byte where "v2FrameTypeChannelInit = 1"
definition v2FrameTypeChannelAccept :: byte where "v2FrameTypeChannelAccept = 2"
definition v2FrameTypeChannelReject :: byte where "v2FrameTypeChannelReject = 3"

abbreviation v2RecordSessionID :: u16 where "v2RecordSessionID \<equiv> 0x8001"
abbreviation v2RecordChannelID :: u16 where "v2RecordChannelID \<equiv> 0x8002"
abbreviation v2RecordClientNonce :: u16 where "v2RecordClientNonce \<equiv> 0x8003"
abbreviation v2RecordTimestamp :: u16 where "v2RecordTimestamp \<equiv> 0x8004"
abbreviation v2RecordCapabilities :: u16 where "v2RecordCapabilities \<equiv> 0x8005"
abbreviation v2RecordAuthProof :: u16 where "v2RecordAuthProof \<equiv> 0x8006"
abbreviation v2RecordClientName :: u16 where "v2RecordClientName \<equiv> 0x0007"
abbreviation v2RecordBuildInfo :: u16 where "v2RecordBuildInfo \<equiv> 0x0008"
abbreviation v2RecordDesiredChannelCount :: u16 where "v2RecordDesiredChannelCount \<equiv> 0x0009"
abbreviation v2RecordTransportHints :: u16 where "v2RecordTransportHints \<equiv> 0x000a"
abbreviation v2RecordPadding :: u16 where "v2RecordPadding \<equiv> 0x000b"
abbreviation v2RecordServerNonce :: u16 where "v2RecordServerNonce \<equiv> 0x8010"
abbreviation v2RecordServerTime :: u16 where "v2RecordServerTime \<equiv> 0x8011"
abbreviation v2RecordMaxFrameSize :: u16 where "v2RecordMaxFrameSize \<equiv> 0x0012"
abbreviation v2RecordMaxStreams :: u16 where "v2RecordMaxStreams \<equiv> 0x0013"
abbreviation v2RecordMessage :: u16 where "v2RecordMessage \<equiv> 0x0015"
abbreviation v2RecordRejectCode :: u16 where "v2RecordRejectCode \<equiv> 0x8020"
abbreviation v2RecordRejectReason :: u16 where "v2RecordRejectReason \<equiv> 0x0021"

definition protocolCapabilityChannelStats :: u64 where "protocolCapabilityChannelStats = push_bit 9 1"
definition protocolCapabilityForwardSecrecy :: u64 where "protocolCapabilityForwardSecrecy = push_bit 12 1"

definition v2RejectMissingRequiredCapability :: byte where "v2RejectMissingRequiredCapability = 2"
definition v2RejectMalformedFrame :: byte where "v2RejectMalformedFrame = 8"

definition maxV2FrameSize :: nat where "maxV2FrameSize = 16 * 1024"

record V2Frame =
  frType :: byte
  frVersion :: byte
  frFlags :: u16
  frBody :: bytes

record V2TLV =
  tlvType :: u16
  tlvValue :: bytes

text \<open>Timestamps are int64 in the source; they are kept as their 64 bits and read with \<open>sint\<close>.\<close>

record ChannelInit =
  SessionID :: bytes
  ChannelID :: u32
  ClientNonce :: bytes
  Timestamp :: u64
  Capabilities :: u64
  AuthProof :: bytes
  CipherPref :: bytes
  ClientEphPK :: bytes
  TAI64N :: bytes
  Padding :: bytes

record ChannelAccept =
  accCapabilities :: u64
  ServerNonce :: bytes
  ServerTime :: u64
  MaxFrameSize :: u32
  MaxStreams :: u32
  accMessage :: string
  Cipher :: byte
  ServerEphPK :: bytes
  ServerProof :: bytes

record ChannelReject =
  rejCode :: byte
  rejMessage :: string

definition currentProtocolCapabilitiesV2 :: u64 where
  "currentProtocolCapabilitiesV2 =
     ucast currentProtocolCapabilities OR protocolCapabilityChannelStats OR
     protocolCapabilityForwardSecrecy"

definition requiredProtocolCapabilitiesV2 :: u64 where
  "requiredProtocolCapabilitiesV2 =
     ucast (protocolCapabilityTCP OR protocolCapabilityPing OR protocolCapabilityTCPStatus OR
            protocolCapabilityOpenStatusCode)"

section \<open>Frames\<close>

text \<open>
  \<open>writeV2Frame\<close>/\<open>readV2Frame\<close> and \<open>writeV3Frame\<close>/\<open>readV3Frame\<close> differ in the version byte
  only, which is a parameter here.
\<close>

definition writeFrame :: "byte \<Rightarrow> 'w io_writer \<Rightarrow> 'w \<Rightarrow> V2Frame \<Rightarrow> go_error option \<times> 'w" where
  "writeFrame version W w frame0 =
    (let frame = (if frVersion frame0 = 0 then frame0\<lparr>frVersion := version\<rparr> else frame0) in
     if frVersion frame \<noteq> version then (Some (Errorf ''frame version invalid''), w)
     else if length (frBody frame) > maxV2FrameSize then (Some (Errorf ''frame body too large''), w)
     else
       wthen (writeAll W w ([frType frame, frVersion frame] @ put16 (frFlags frame) @
                            put32 (word_of_nat (length (frBody frame)))))
         (\<lambda>w. writeOptionalPayload W w (frBody frame)))"

definition readFrame :: "byte \<Rightarrow> reader \<Rightarrow> int \<Rightarrow> (V2Frame \<times> reader) result" where
  "readFrame version r maxSize0 =
    (let maxSize = (if maxSize0 \<le> 0 then int maxV2FrameSize else maxSize0) in
     rbind (read_full 8 r) (\<lambda>(head, r).
       if head ! 1 \<noteq> version then Inl (Errorf ''frame version invalid'')
       else
         (let bodyLen = unat (get32 (slice 4 8 head)) in
          if int bodyLen > maxSize then Inl (Errorf ''frame body too large'')
          else
            rbind (readExactPayload r bodyLen) (\<lambda>(body, r).
              Inr (\<lparr>frType = head ! 0, frVersion = head ! 1, frFlags = get16 (slice 2 4 head),
                    frBody = body\<rparr>, r)))))"

definition writeV2Frame :: "'w io_writer \<Rightarrow> 'w \<Rightarrow> V2Frame \<Rightarrow> go_error option \<times> 'w" where
  "writeV2Frame W w frame = writeFrame protocolV2Version W w frame"

definition readV2Frame :: "reader \<Rightarrow> int \<Rightarrow> (V2Frame \<times> reader) result" where
  "readV2Frame r maxSize = readFrame protocolV2Version r maxSize"

section \<open>TLV records\<close>

definition writeV2TLV :: "'w io_writer \<Rightarrow> 'w \<Rightarrow> u16 \<Rightarrow> bytes \<Rightarrow> go_error option \<times> 'w" where
  "writeV2TLV W w typ val =
    (if length val > maxProtocolFieldLen then (Some (Errorf ''v2 record too large''), w)
     else
       wthen (writeAll W w (put16 typ @ put16 (word_of_nat (length val))))
         (\<lambda>w. writeOptionalPayload W w val))"

function parseTLVLoop ::
  "(u16 \<Rightarrow> bool) option \<Rightarrow> bytes \<Rightarrow> (u16 \<rightharpoonup> V2TLV) \<Rightarrow> (u16 \<rightharpoonup> V2TLV) result" where
  "parseTLVLoop known body records =
    (if body = [] then Inr records
     else if length body < 4 then Inl ErrUnexpectedEOF
     else
       (let typ = get16 (slice 0 2 body);
            len = unat (get16 (slice 2 4 body));
            body1 = drop 4 body
        in
        if len > length body1 then Inl ErrUnexpectedEOF
        else
          (let val = take len body1; body2 = drop len body1 in
           if records typ \<noteq> None then Inl (Errorf ''duplicate v2 record'')
           else if (case known of None \<Rightarrow> False | Some k \<Rightarrow> \<not> k typ) then
             (if typ AND 0x8000 \<noteq> 0 then Inl (Errorf ''unknown critical v2 record'')
              else parseTLVLoop known body2 records)
           else parseTLVLoop known body2 (records(typ \<mapsto> \<lparr>tlvType = typ, tlvValue = val\<rparr>)))))"
  by pat_completeness auto
termination
  by (relation "measure (\<lambda>(known, body, records). length body)") auto

declare parseTLVLoop.simps [simp del]

definition parseV2TLVs :: "bytes \<Rightarrow> (u16 \<Rightarrow> bool) option \<Rightarrow> (u16 \<rightharpoonup> V2TLV) result" where
  "parseV2TLVs body known = parseTLVLoop known body Map.empty"

fun encodeTLVLoop :: "bytes \<Rightarrow> V2TLV list \<Rightarrow> bytes result" where
  "encodeTLVLoop buf [] = Inr buf"
| "encodeTLVLoop buf (r # rs) =
     (case writeV2TLV buffer_writer buf (tlvType r) (tlvValue r) of
        (Some e, _) \<Rightarrow> Inl e
      | (None, buf') \<Rightarrow> encodeTLVLoop buf' rs)"

definition encodeV2TLVs :: "V2TLV list \<Rightarrow> bytes result" where
  "encodeV2TLVs records =
    (if list_ex (\<lambda>r. length (tlvValue r) > maxProtocolFieldLen) records
     then Inl (Errorf ''v2 record too large'')
     else encodeTLVLoop [] records)"

definition tlv :: "u16 \<Rightarrow> bytes \<Rightarrow> V2TLV" where
  "tlv t v = \<lparr>tlvType = t, tlvValue = v\<rparr>"

section \<open>The record layer, characterised\<close>

definition tlv_bytes :: "V2TLV \<Rightarrow> bytes" where
  "tlv_bytes r = (put16 (tlvType r) @ put16 (word_of_nat (length (tlvValue r)))) @ tlvValue r"

definition small_records :: "V2TLV list \<Rightarrow> bool" where
  "small_records rs \<longleftrightarrow> (\<forall>r\<in>set rs. length (tlvValue r) \<le> 65535)"

lemma tlv_sel [simp]: "tlvType (tlv t v) = t" "tlvValue (tlv t v) = v"
  by (simp_all add: tlv_def)

lemma length_tlv_bytes [simp]: "length (tlv_bytes r) = 4 + length (tlvValue r)"
  by (simp add: tlv_bytes_def)

lemma writeV2TLV_buffer:
  assumes "length (tlvValue r) \<le> 65535"
  shows "writeV2TLV buffer_writer buf (tlvType r) (tlvValue r) = (None, buf @ tlv_bytes r)"
proof -
  have "buf.emits (writeV2TLV buffer_writer buf (tlvType r) (tlvValue r)) buf (tlv_bytes r)"
    using assms unfolding writeV2TLV_def maxProtocolFieldLen_def tlv_bytes_def
    by (simp del: append_assoc add: buf.emits_intros)
  then show ?thesis
    by (cases "writeV2TLV buffer_writer buf (tlvType r) (tlvValue r)") (auto simp: buf.emits_def)
qed

lemma encodeTLVLoop_concat:
  "small_records rs \<Longrightarrow> encodeTLVLoop buf rs = Inr (buf @ concat (map tlv_bytes rs))"
  by (induction rs arbitrary: buf) (auto simp: small_records_def writeV2TLV_buffer)

lemma encodeV2TLVs_concat [codec]:
  "small_records rs \<Longrightarrow> encodeV2TLVs rs = Inr (concat (map tlv_bytes rs))"
  by (auto simp: encodeV2TLVs_def encodeTLVLoop_concat list_ex_iff maxProtocolFieldLen_def
      small_records_def)

lemma encodeV2TLVs_Inr:
  "encodeV2TLVs rs = Inr body \<longleftrightarrow> small_records rs \<and> body = concat (map tlv_bytes rs)"
proof (cases "small_records rs")
  case True
  then show ?thesis by (auto simp: encodeV2TLVs_concat)
next
  case False
  then have "list_ex (\<lambda>r. length (tlvValue r) > maxProtocolFieldLen) rs"
    by (auto simp: small_records_def list_ex_iff maxProtocolFieldLen_def not_le)
  with False show ?thesis by (simp add: encodeV2TLVs_def)
qed

lemma parseTLVLoop_step:
  assumes "length (tlvValue r) \<le> 65535"
  shows "parseTLVLoop known (tlv_bytes r @ rest) recs =
    (if recs (tlvType r) \<noteq> None then Inl (Errorf ''duplicate v2 record'')
     else if (case known of None \<Rightarrow> False | Some k \<Rightarrow> \<not> k (tlvType r)) then
       (if tlvType r AND 0x8000 \<noteq> 0 then Inl (Errorf ''unknown critical v2 record'')
        else parseTLVLoop known rest recs)
     else parseTLVLoop known rest (recs(tlvType r \<mapsto> \<lparr>tlvType = tlvType r, tlvValue = tlvValue r\<rparr>)))"
proof -
  let ?h = "put16 (tlvType r) @ put16 (word_of_nat (length (tlvValue r)))"
  have b: "tlv_bytes r @ rest = ?h @ (tlvValue r @ rest)" by (simp add: tlv_bytes_def)
  have parts: "slice 0 2 (?h @ x) = put16 (tlvType r)"
    "slice 2 4 (?h @ x) = put16 (word_of_nat (length (tlvValue r)))" "drop 4 (?h @ x) = x" for x
    by (simp_all add: slice_def)
  have ne: "?h @ x \<noteq> []" "\<not> length (?h @ x) < 4" for x
    by simp_all
  show ?thesis
    unfolding b
    by (subst parseTLVLoop.simps)
      (simp only: Let_def parts ne if_False get_put_nil unat_u16 [OF assms] take_append drop_append, simp)
qed

lemma parseTLVLoop_known:
  assumes "small_records rs" "\<forall>t\<in>dom recs. k t"
  shows "parseTLVLoop (Some k) (concat (map tlv_bytes rs)) recs = Inr m \<longleftrightarrow>
    (\<forall>r\<in>set rs. k (tlvType r) \<or> tlvType r AND 0x8000 = 0) \<and>
    distinct (map tlvType (filter (\<lambda>r. k (tlvType r)) rs)) \<and>
    (\<forall>r\<in>set rs. recs (tlvType r) = None) \<and>
    m = recs ++ map_of (map (\<lambda>r. (tlvType r, r)) (filter (\<lambda>r. k (tlvType r)) rs))"
  using assms
proof (induction rs arbitrary: recs)
  case Nil
  then show ?case by (auto simp: parseTLVLoop.simps)
next
  case (Cons r rs)
  have l: "length (tlvValue r) \<le> 65535" and sr: "small_records rs"
    using Cons.prems(1) by (auto simp: small_records_def)
  have eta: "\<lparr>tlvType = tlvType r, tlvValue = tlvValue r\<rparr> = r" by simp
  let ?R = "map_of (map (\<lambda>r. (tlvType r, r)) (filter (\<lambda>r. k (tlvType r)) rs))"
  show ?case
  proof (cases "recs (tlvType r) = None")
    case dup: False
    then show ?thesis by (simp add: parseTLVLoop_step [OF l])
  next
    case new: True
    show ?thesis
    proof (cases "k (tlvType r)")
      case False
      with new show ?thesis
        by (simp add: parseTLVLoop_step [OF l]) (rule impI, rule Cons.IH [OF sr Cons.prems(2)])
    next
      case True
      have kd: "\<forall>t\<in>dom (recs(tlvType r \<mapsto> r)). k t" using Cons.prems(2) True by auto
      have fresh: "(\<forall>x\<in>set rs. (recs(tlvType r \<mapsto> r)) (tlvType x) = None) \<longleftrightarrow>
          (\<forall>x\<in>set rs. recs (tlvType x) = None) \<and> tlvType r \<notin> tlvType ` {x \<in> set rs. k (tlvType x)}"
      proof -
        have "(recs(tlvType r \<mapsto> r)) u = None \<longleftrightarrow> u \<noteq> tlvType r \<and> recs u = None" for u
          by simp
        moreover have "tlvType r \<notin> tlvType ` {x \<in> set rs. k (tlvType x)} \<longleftrightarrow> (\<forall>x\<in>set rs. tlvType x \<noteq> tlvType r)"
          using True by (auto simp: image_iff) metis+
        ultimately show ?thesis by blast
      qed
      have upd: "recs(tlvType r \<mapsto> r) ++ ?R = recs ++ ?R(tlvType r \<mapsto> r)"
        if "tlvType r \<notin> tlvType ` {x \<in> set rs. k (tlvType x)}"
      proof -
        have "?R (tlvType r) = None"
          using that by (auto simp: map_of_eq_None_iff)
        then show ?thesis by (auto simp: map_add_def fun_eq_iff split: option.splits)
      qed
      have step: "parseTLVLoop (Some k) (concat (map tlv_bytes (r # rs))) recs =
          parseTLVLoop (Some k) (concat (map tlv_bytes rs)) (recs(tlvType r \<mapsto> r))"
        using new True by (simp add: parseTLVLoop_step [OF l] eta)
      have R: "map_of (map (\<lambda>r. (tlvType r, r)) (filter (\<lambda>r. k (tlvType r)) (r # rs))) =
          ?R(tlvType r \<mapsto> r)"
        using True by simp
      note simps = list.set ball_simps filter.simps if_True list.map distinct.simps set_map set_filter simp_thms
      show ?thesis
      proof (cases "tlvType r \<in> tlvType ` {x \<in> set rs. k (tlvType x)}")
        case dup: True
        with True show ?thesis unfolding step Cons.IH [OF sr kd] fresh R by (simp only: simps)
      next
        case nodup: False
        with new True show ?thesis
          unfolding step Cons.IH [OF sr kd] fresh R upd [OF nodup] by (simp only: simps)
      qed
    qed
  qed
qed

lemma parseTLVLoop_complete:
  "parseTLVLoop known body recs = Inr m \<Longrightarrow> \<exists>rs. small_records rs \<and> body = concat (map tlv_bytes rs)"
proof (induction body arbitrary: recs rule: length_induct)
  case (1 body)
  show ?case
  proof (cases "body = []")
    case True
    then show ?thesis by (intro exI [of _ "[]"]) (simp add: small_records_def)
  next
    case False
    let ?t = "get16 (slice 0 2 body)" and ?n = "unat (get16 (slice 2 4 body))"
    let ?rest = "drop ?n (drop 4 body)"
    let ?r = "tlv ?t (take ?n (drop 4 body))"
    have l4: "4 \<le> length body" and ln: "?n \<le> length (drop 4 body)"
      and "\<exists>recs'. parseTLVLoop known ?rest recs' = Inr m"
      using "1.prems" False
      by (auto simp: parseTLVLoop.simps [of known body recs] Let_def split: if_splits)
    moreover have "length ?rest < length body" using False l4 by (cases body) auto
    ultimately obtain rs where rs: "small_records rs" "?rest = concat (map tlv_bytes rs)"
      using "1.IH" by blast
    have nb: "?n \<le> 65535"
      using unsigned_less [of "get16 (slice 2 4 body)", where ?'a = nat] by simp
    have "take 4 body = slice 0 2 body @ slice 2 4 body"
      using take_add [of 2 2 body] by (simp add: slice_def)
    then have "take 4 body = put16 ?t @ put16 (word_of_nat (length (tlvValue ?r)))"
      using ln l4 by (simp add: slice_def)
    then have "body = tlv_bytes ?r @ ?rest"
      unfolding tlv_bytes_def tlv_sel by (metis append_take_drop_id append_assoc)
    moreover have "small_records (?r # rs)"
      using rs nb by (simp add: small_records_def)
    ultimately show ?thesis
      using rs(2) by (intro exI [of _ "?r # rs"]) simp
  qed
qed

text \<open>
  What the parser makes of a list of records: every unknown record is non-critical, known
  types do not repeat, and the result maps each known type to its record.
\<close>

definition records_yield :: "(u16 \<Rightarrow> bool) \<Rightarrow> V2TLV list \<Rightarrow> (u16 \<rightharpoonup> V2TLV) \<Rightarrow> bool" where
  "records_yield k rs m \<longleftrightarrow>
    list_all (\<lambda>r. k (tlvType r) \<or> tlvType r AND 0x8000 = 0) rs \<and>
    distinct (map tlvType (filter (\<lambda>r. k (tlvType r)) rs)) \<and>
    m = map_of (map (\<lambda>r. (tlvType r, r)) (filter (\<lambda>r. k (tlvType r)) rs))"

lemma parseV2TLVs_concat:
  assumes "small_records rs"
  shows "parseV2TLVs (concat (map tlv_bytes rs)) (Some k) = Inr m \<longleftrightarrow> records_yield k rs m"
  using parseTLVLoop_known [OF assms, of Map.empty k m]
  by (simp add: parseV2TLVs_def records_yield_def list_all_iff)

lemma parseV2TLVs_iff:
  "parseV2TLVs body (Some k) = Inr m \<longleftrightarrow> (\<exists>rs. encodeV2TLVs rs = Inr body \<and> records_yield k rs m)"
  using parseTLVLoop_complete [of "Some k" body Map.empty m] parseV2TLVs_concat [of _ k m]
  unfolding encodeV2TLVs_Inr parseV2TLVs_def by auto

lemma parse_encoded [codec]:
  assumes "encodeV2TLVs rs = Inr body" "list_all (\<lambda>r. k (tlvType r)) rs" "distinct (map tlvType rs)"
  shows "parseV2TLVs body (Some k) = Inr (map_of (map (\<lambda>r. (tlvType r, r)) rs))"
proof -
  have "filter (\<lambda>r. k (tlvType r)) rs = rs" using assms(2) by (simp add: list_all_iff)
  then have "records_yield k rs (map_of (map (\<lambda>r. (tlvType r, r)) rs))"
    using assms(2,3) by (simp add: records_yield_def list_all_iff)
  then show ?thesis
    using assms(1) parseV2TLVs_iff by blast
qed

section \<open>Messages\<close>

definition ChannelInit0 :: ChannelInit where
  "ChannelInit0 = \<lparr>SessionID = [], ChannelID = 0, ClientNonce = [], Timestamp = 0, Capabilities = 0,
     AuthProof = [], CipherPref = [], ClientEphPK = [], TAI64N = [], Padding = []\<rparr>"

definition ChannelAccept0 :: ChannelAccept where
  "ChannelAccept0 = \<lparr>accCapabilities = 0, ServerNonce = [], ServerTime = 0, MaxFrameSize = 0,
     MaxStreams = 0, accMessage = [], Cipher = 0, ServerEphPK = [], ServerProof = []\<rparr>"

definition ChannelReject0 :: ChannelReject where
  "ChannelReject0 = \<lparr>rejCode = 0, rejMessage = []\<rparr>"

definition encodeChannelInit :: "ChannelInit \<Rightarrow> bytes result" where
  "encodeChannelInit init =
    (if length (SessionID init) \<noteq> 16 then Inl (Errorf ''session id must be 16 bytes'')
     else if ChannelID init = 0 then Inl (Errorf ''channel id must be positive'')
     else if length (ClientNonce init) \<noteq> 32 then Inl (Errorf ''client nonce must be 32 bytes'')
     else encodeV2TLVs
       [tlv v2RecordSessionID (SessionID init),
        tlv v2RecordChannelID (put32 (ChannelID init)),
        tlv v2RecordClientNonce (ClientNonce init),
        tlv v2RecordTimestamp (put64 (Timestamp init)),
        tlv v2RecordCapabilities (put64 (Capabilities init)),
        tlv v2RecordAuthProof (AuthProof init)])"

text \<open>The closure \<open>get\<close> of the decoders: a required record, of a given size unless negative.\<close>

definition getRecord :: "(u16 \<rightharpoonup> V2TLV) \<Rightarrow> u16 \<Rightarrow> int \<Rightarrow> bytes result" where
  "getRecord records typ sz =
    (case records typ of
       None \<Rightarrow> Inl (Errorf ''missing required record'')
     | Some record \<Rightarrow>
         if sz \<ge> 0 \<and> int (length (tlvValue record)) \<noteq> sz
         then Inl (Errorf ''invalid record length'') else Inr (tlvValue record))"

definition decodeChannelInit :: "bytes \<Rightarrow> ChannelInit result" where
  "decodeChannelInit body =
    rbind (parseV2TLVs body (Some (\<lambda>t. t \<in> set
        [v2RecordSessionID, v2RecordChannelID, v2RecordClientNonce, v2RecordTimestamp,
         v2RecordCapabilities, v2RecordAuthProof, v2RecordClientName, v2RecordBuildInfo,
         v2RecordDesiredChannelCount, v2RecordTransportHints, v2RecordPadding]))) (\<lambda>records.
    rbind (getRecord records v2RecordSessionID 16) (\<lambda>sessionID.
    rbind (getRecord records v2RecordChannelID 4) (\<lambda>channelIDRaw.
    rbind (getRecord records v2RecordClientNonce 32) (\<lambda>nonce.
    rbind (getRecord records v2RecordTimestamp 8) (\<lambda>timestampRaw.
    rbind (getRecord records v2RecordCapabilities 8) (\<lambda>capsRaw.
    rbind (getRecord records v2RecordAuthProof (-1)) (\<lambda>proof.
      let channelID = get32 channelIDRaw in
      if channelID = 0 then Inl (Errorf ''channel id must be positive'')
      else Inr (ChannelInit0\<lparr>SessionID := sessionID, ChannelID := channelID, ClientNonce := nonce,
                  Timestamp := get64 timestampRaw, Capabilities := get64 capsRaw,
                  AuthProof := proof\<rparr>))))))))"

definition encodeChannelAccept :: "ChannelAccept \<Rightarrow> bytes result" where
  "encodeChannelAccept accept =
    (if length (ServerNonce accept) \<noteq> 32 then Inl (Errorf ''server nonce must be 32 bytes'')
     else
       encodeV2TLVs
         ([tlv v2RecordCapabilities (put64 (accCapabilities accept)),
           tlv v2RecordServerNonce (ServerNonce accept),
           tlv v2RecordServerTime (put64 (ServerTime accept))]
          @ (if MaxFrameSize accept \<noteq> 0 then [tlv v2RecordMaxFrameSize (put32 (MaxFrameSize accept))] else [])
          @ (if MaxStreams accept \<noteq> 0 then [tlv v2RecordMaxStreams (put32 (MaxStreams accept))] else [])
          @ (if accMessage accept \<noteq> [] then [tlv v2RecordMessage (bytes_of (accMessage accept))] else [])))"

text \<open>An optional 4-byte record overrides a field; the three optional fields of an accept.\<close>

definition optU32 :: "(u16 \<rightharpoonup> V2TLV) \<Rightarrow> u16 \<Rightarrow> string \<Rightarrow> (u32 \<Rightarrow> 'a \<Rightarrow> 'a) \<Rightarrow> 'a \<Rightarrow> 'a result" where
  "optU32 records typ msg upd x =
    (case records typ of
       None \<Rightarrow> Inr x
     | Some record \<Rightarrow>
         if length (tlvValue record) \<noteq> 4 then Inl (Errorf msg)
         else Inr (upd (get32 (tlvValue record)) x))"

definition decodeChannelAccept :: "bytes \<Rightarrow> ChannelAccept result" where
  "decodeChannelAccept body =
    rbind (parseV2TLVs body (Some (\<lambda>t. t \<in> set
        [v2RecordCapabilities, v2RecordServerNonce, v2RecordServerTime, v2RecordMaxFrameSize,
         v2RecordMaxStreams, v2RecordMessage, v2RecordPadding]))) (\<lambda>records.
    rbind (case getRecord records v2RecordCapabilities 8 of
             Inl _ \<Rightarrow> Inl (Errorf ''invalid channel accept capabilities'') | Inr v \<Rightarrow> Inr v) (\<lambda>caps.
    rbind (case getRecord records v2RecordServerNonce 32 of
             Inl _ \<Rightarrow> Inl (Errorf ''invalid channel accept server nonce'') | Inr v \<Rightarrow> Inr v) (\<lambda>nonce.
    rbind (case getRecord records v2RecordServerTime 8 of
             Inl _ \<Rightarrow> Inl (Errorf ''invalid channel accept server time'') | Inr v \<Rightarrow> Inr v) (\<lambda>time.
    rbind (optU32 records v2RecordMaxFrameSize ''invalid max frame size length''
             (\<lambda>v a. a\<lparr>MaxFrameSize := v\<rparr>)
             (ChannelAccept0\<lparr>accCapabilities := get64 caps, ServerNonce := nonce, ServerTime := get64 time\<rparr>)) (\<lambda>accept.
    rbind (optU32 records v2RecordMaxStreams ''invalid max streams length''
             (\<lambda>v a. a\<lparr>MaxStreams := v\<rparr>) accept) (\<lambda>accept.
      Inr (case records v2RecordMessage of
             None \<Rightarrow> accept
           | Some record \<Rightarrow> accept\<lparr>accMessage := str_of (tlvValue record)\<rparr>)))))))"

definition encodeChannelReject :: "ChannelReject \<Rightarrow> bytes result" where
  "encodeChannelReject reject0 =
    (let reject = (if rejCode reject0 = 0 then reject0\<lparr>rejCode := v2RejectMalformedFrame\<rparr> else reject0) in
     encodeV2TLVs
       ([tlv v2RecordRejectCode (put16 (ucast (rejCode reject)))]
        @ (if rejMessage reject \<noteq> [] then [tlv v2RecordRejectReason (bytes_of (rejMessage reject))] else [])))"

definition decodeChannelReject :: "bytes \<Rightarrow> ChannelReject result" where
  "decodeChannelReject body =
    rbind (parseV2TLVs body (Some (\<lambda>t. t \<in> set
        [v2RecordRejectCode, v2RecordRejectReason, v2RecordPadding]))) (\<lambda>records.
    rbind (case getRecord records v2RecordRejectCode 2 of
             Inl _ \<Rightarrow> Inl (Errorf ''invalid channel reject code'') | Inr v \<Rightarrow> Inr v) (\<lambda>code.
      Inr \<lparr>rejCode = ucast (get16 code),
           rejMessage = (case records v2RecordRejectReason of
                           None \<Rightarrow> [] | Some record \<Rightarrow> str_of (tlvValue record))\<rparr>))"

definition writeChannelInit :: "'w io_writer \<Rightarrow> 'w \<Rightarrow> ChannelInit \<Rightarrow> go_error option \<times> 'w" where
  "writeChannelInit W w init =
    (case encodeChannelInit init of
       Inl e \<Rightarrow> (Some e, w)
     | Inr body \<Rightarrow> writeV2Frame W w \<lparr>frType = v2FrameTypeChannelInit, frVersion = protocolV2Version,
                                     frFlags = 0, frBody = body\<rparr>)"

definition readChannelInit :: "reader \<Rightarrow> int \<Rightarrow> (ChannelInit \<times> reader) result" where
  "readChannelInit r maxSize =
    rbind (readV2Frame r maxSize) (\<lambda>(frame, r).
      if frType frame \<noteq> v2FrameTypeChannelInit then Inl (Errorf ''unexpected v2 frame type'')
      else rbind (decodeChannelInit (frBody frame)) (\<lambda>init. Inr (init, r)))"

definition writeChannelAccept :: "'w io_writer \<Rightarrow> 'w \<Rightarrow> ChannelAccept \<Rightarrow> go_error option \<times> 'w" where
  "writeChannelAccept W w accept =
    (case encodeChannelAccept accept of
       Inl e \<Rightarrow> (Some e, w)
     | Inr body \<Rightarrow> writeV2Frame W w \<lparr>frType = v2FrameTypeChannelAccept, frVersion = protocolV2Version,
                                     frFlags = 0, frBody = body\<rparr>)"

definition writeChannelReject :: "'w io_writer \<Rightarrow> 'w \<Rightarrow> ChannelReject \<Rightarrow> go_error option \<times> 'w" where
  "writeChannelReject W w reject =
    (case encodeChannelReject reject of
       Inl e \<Rightarrow> (Some e, w)
     | Inr body \<Rightarrow> writeV2Frame W w \<lparr>frType = v2FrameTypeChannelReject, frVersion = protocolV2Version,
                                     frFlags = 0, frBody = body\<rparr>)"

definition readChannelAcceptOrReject ::
  "reader \<Rightarrow> int \<Rightarrow> ((ChannelAccept \<times> ChannelReject) \<times> reader) result" where
  "readChannelAcceptOrReject r maxSize =
    rbind (readV2Frame r maxSize) (\<lambda>(frame, r).
      if frType frame = v2FrameTypeChannelAccept then
        rbind (decodeChannelAccept (frBody frame)) (\<lambda>accept. Inr ((accept, ChannelReject0), r))
      else if frType frame = v2FrameTypeChannelReject then
        rbind (decodeChannelReject (frBody frame)) (\<lambda>reject. Inr ((ChannelAccept0, reject), r))
      else Inl (Errorf ''unexpected v2 frame type''))"

section \<open>Authentication and negotiation\<close>

definition appendTranscriptString :: "bytes \<Rightarrow> string \<Rightarrow> bytes result" where
  "appendTranscriptString dst val =
    (if length val > maxProtocolFieldLen then Inl (Errorf ''transcript string too long'')
     else Inr ((dst @ put16 (word_of_nat (length val))) @ bytes_of val))"

definition channelInitTranscript :: "string \<Rightarrow> string \<Rightarrow> ChannelInit \<Rightarrow> bytes result" where
  "channelInitTranscript serverName path init =
    (if length (SessionID init) \<noteq> 16 then Inl (Errorf ''session id must be 16 bytes'')
     else if length (ClientNonce init) \<noteq> 32 then Inl (Errorf ''client nonce must be 32 bytes'')
     else
       (let transcript = [v2FrameTypeChannelInit, protocolV2Version, 0, 0] @ SessionID init @
              put32 (ChannelID init) @ ClientNonce init @ put64 (Timestamp init) @
              put64 (Capabilities init)
        in rbind (appendTranscriptString transcript serverName) (\<lambda>transcript.
             appendTranscriptString transcript path)))"

definition computeV2AuthProof :: "crypto \<Rightarrow> string \<Rightarrow> string \<Rightarrow> string \<Rightarrow> ChannelInit \<Rightarrow> bytes result" where
  "computeV2AuthProof C token serverName path init =
    rbind (hkdf_New C (bytes_of token) (bytes_of ''x-tunnel-v2-auth'') (bytes_of serverName) 32) (\<lambda>authKey.
    rbind (channelInitTranscript serverName path init) (\<lambda>transcript.
      Inr (hmac_SHA256 C authKey transcript)))"

definition verifyV2AuthProof :: "crypto \<Rightarrow> string \<Rightarrow> string \<Rightarrow> string \<Rightarrow> ChannelInit \<Rightarrow> bool" where
  "verifyV2AuthProof C token serverName path init =
    (case computeV2AuthProof C token serverName path
        (ChannelInit0\<lparr>SessionID := SessionID init, ChannelID := ChannelID init,
           ClientNonce := ClientNonce init, Timestamp := Timestamp init,
           Capabilities := Capabilities init\<rparr>) of
       Inl _ \<Rightarrow> False
     | Inr want \<Rightarrow> want = AuthProof init)"

definition negotiateProtocolCapabilitiesV2 :: "u64 \<Rightarrow> u64 \<times> byte \<times> string" where
  "negotiateProtocolCapabilitiesV2 clientCaps =
    (let caps = clientCaps AND currentProtocolCapabilitiesV2;
         required = requiredProtocolCapabilitiesV2
     in if caps AND required \<noteq> required
        then (0, v2RejectMissingRequiredCapability, ''missing required protocol capabilities'')
        else (caps, 0, []))"

definition validateChannelInitTimestamp :: "gotime \<Rightarrow> u64 \<Rightarrow> duration \<Rightarrow> bool" where
  "validateChannelInitTimestamp now timestamp skew =
    (if skew \<le> 0 then True
     else
       (let thn = time_of_unix (sint timestamp) 0 in
        if thn > now + skew then False else \<not> thn < now - skew))"

section \<open>Round trips\<close>

definition frame_bytes :: "byte \<Rightarrow> V2Frame \<Rightarrow> bytes" where
  "frame_bytes v fr = ([frType fr, v] @ put16 (frFlags fr) @
     put32 (word_of_nat (length (frBody fr)))) @ frBody fr"

context reliable_writer
begin

lemma writeFrame_emits:
  assumes "ok w" "frVersion fr = v \<or> frVersion fr = 0" "length (frBody fr) \<le> 16384"
  shows "emits (writeFrame v W w fr) w (frame_bytes v fr)"
  using assms unfolding writeFrame_def frame_bytes_def maxV2FrameSize_def
  by (auto simp del: append_Cons append_assoc simp: Let_def intro!: emits_intros)

end

lemma readFrame_frame_bytes:
  assumes "length (frBody fr) \<le> 16384"
  shows "readFrame v (Reader (frame_bytes v fr @ rest) e) 0 =
    Inr (fr\<lparr>frVersion := v\<rparr>, Reader rest e)"
proof -
  let ?h = "[frType fr, v] @ put16 (frFlags fr) @ put32 (word_of_nat (length (frBody fr)))"
  have "read_full 8 (Reader (frame_bytes v fr @ rest) e) = Inr (?h, Reader (frBody fr @ rest) e)"
    unfolding frame_bytes_def append_assoc [of _ _ rest] by (rule read_full_append) simp
  moreover have "unat (word_of_nat (length (frBody fr)) :: u32) = length (frBody fr)"
    using assms by (simp add: unsigned_of_nat take_bit_nat_eq_self)
  moreover have "slice 4 8 ?h = put32 (word_of_nat (length (frBody fr)))" "slice 2 4 ?h = put16 (frFlags fr)"
    by (simp_all add: slice_def)
  ultimately show ?thesis
    using assms by (simp add: readFrame_def maxV2FrameSize_def Let_def)
qed

lemma readFrame_limit:
  "readFrame v r n = Inr (fr, r') \<Longrightarrow> int (length (frBody fr)) \<le> (if n \<le> 0 then 16384 else n)"
  by (auto simp: readFrame_def maxV2FrameSize_def Let_def rbind_eq_Inr readExactPayload_Inr split: if_splits)

definition msg_bytes :: "byte \<Rightarrow> byte \<Rightarrow> bytes \<Rightarrow> bytes" where
  "msg_bytes v typ body = frame_bytes v \<lparr>frType = typ, frVersion = v, frFlags = 0, frBody = body\<rparr>"

lemma readFrame_msg_bytes:
  "length body \<le> 16384 \<Longrightarrow> readFrame v (Reader (msg_bytes v typ body @ rest) e) 0 =
    Inr (\<lparr>frType = typ, frVersion = v, frFlags = 0, frBody = body\<rparr>, Reader rest e)"
  unfolding msg_bytes_def by (subst readFrame_frame_bytes) simp_all

text \<open>
  A message writer that encodes, then frames: it succeeds exactly on messages that encode
  to at most 16384 bytes, and emits nothing otherwise.
\<close>

lemma write_msg_iff:
  assumes "reliable_writer W ok sink" "ok w"
    and "wr = (case enc of Inl e \<Rightarrow> (Some e, w)
       | Inr body \<Rightarrow> writeFrame v W w \<lparr>frType = typ, frVersion = v, frFlags = 0, frBody = body\<rparr>)"
    and "v \<noteq> 0"
  shows "case enc of
      Inl e \<Rightarrow> wr = (Some e, w)
    | Inr body \<Rightarrow>
        if length body \<le> 16384
        then fst wr = None \<and> sink (snd wr) = sink w @ msg_bytes v typ body
        else wr = (Some (Errorf ''frame body too large''), w)"
proof (cases enc)
  case (Inl e)
  with assms show ?thesis by simp
next
  case (Inr body)
  let ?f = "\<lparr>frType = typ, frVersion = v, frFlags = 0, frBody = body\<rparr>"
  have "reliable_writer.emits ok sink (writeFrame v W w ?f) w (msg_bytes v typ body)"
    if "length body \<le> 16384"
    unfolding msg_bytes_def using that by (intro reliable_writer.writeFrame_emits [OF assms(1,2)]) simp_all
  with Inr assms show ?thesis
    by (auto simp: reliable_writer.emits_def [OF assms(1)] writeFrame_def maxV2FrameSize_def)
qed

lemmas record_lookup = getRecord_def optU32_def Let_def

lemma decode_encode_ChannelInit:
  assumes "encodeChannelInit init = Inr body"
  shows "decodeChannelInit body =
    Inr (init\<lparr>CipherPref := [], ClientEphPK := [], TAI64N := [], Padding := []\<rparr>)"
proof -
  let ?rs = "[tlv v2RecordSessionID (SessionID init), tlv v2RecordChannelID (put32 (ChannelID init)),
        tlv v2RecordClientNonce (ClientNonce init), tlv v2RecordTimestamp (put64 (Timestamp init)),
        tlv v2RecordCapabilities (put64 (Capabilities init)), tlv v2RecordAuthProof (AuthProof init)]"
  have g: "length (SessionID init) = 16" "ChannelID init \<noteq> 0" "length (ClientNonce init) = 32"
    and "encodeV2TLVs ?rs = Inr body"
    using assms by (auto simp: encodeChannelInit_def split: if_splits)
  then have "parseV2TLVs body (Some k) = Inr (map_of (map (\<lambda>r. (tlvType r, r)) ?rs))"
    if "list_all (\<lambda>r. k (tlvType r)) ?rs" for k
    using that by (intro parse_encoded) simp_all
  then show ?thesis
    using g by (simp add: decodeChannelInit_def record_lookup ChannelInit0_def)
qed

lemma decode_encode_ChannelAccept:
  assumes "encodeChannelAccept accept = Inr body"
  shows "decodeChannelAccept body =
    Inr (accept\<lparr>Cipher := 0, ServerEphPK := [], ServerProof := []\<rparr>)"
proof -
  let ?rs = "[tlv v2RecordCapabilities (put64 (accCapabilities accept)),
           tlv v2RecordServerNonce (ServerNonce accept),
           tlv v2RecordServerTime (put64 (ServerTime accept))]
          @ (if MaxFrameSize accept \<noteq> 0 then [tlv v2RecordMaxFrameSize (put32 (MaxFrameSize accept))] else [])
          @ (if MaxStreams accept \<noteq> 0 then [tlv v2RecordMaxStreams (put32 (MaxStreams accept))] else [])
          @ (if accMessage accept \<noteq> [] then [tlv v2RecordMessage (bytes_of (accMessage accept))] else [])"
  have g: "length (ServerNonce accept) = 32" and e: "encodeV2TLVs ?rs = Inr body"
    using assms by (auto simp: encodeChannelAccept_def split: if_splits)
  have "parseV2TLVs body (Some k) = Inr (map_of (map (\<lambda>r. (tlvType r, r)) ?rs))"
    if "list_all (\<lambda>r. k (tlvType r)) ?rs" for k
    by (rule parse_encoded [OF e that]) simp
  then show ?thesis
    using g by (simp add: decodeChannelAccept_def record_lookup ChannelAccept0_def)
qed

lemma decode_encode_ChannelReject:
  assumes "encodeChannelReject reject = Inr body"
  shows "decodeChannelReject body =
    Inr (reject\<lparr>rejCode := if rejCode reject = 0 then v2RejectMalformedFrame else rejCode reject\<rparr>)"
proof -
  define code where "code = (if rejCode reject = 0 then v2RejectMalformedFrame else rejCode reject)"
  let ?rs = "[tlv v2RecordRejectCode (put16 (ucast code))]
        @ (if rejMessage reject \<noteq> [] then [tlv v2RecordRejectReason (bytes_of (rejMessage reject))] else [])"
  have e: "encodeV2TLVs ?rs = Inr body"
    using assms by (simp add: encodeChannelReject_def code_def Let_def split: if_splits)
  have "parseV2TLVs body (Some k) = Inr (map_of (map (\<lambda>r. (tlvType r, r)) ?rs))"
    if "list_all (\<lambda>r. k (tlvType r)) ?rs" for k
    by (rule parse_encoded [OF e that]) simp
  moreover have "ucast (ucast code :: u16) = code"
    by (rule bit_word_eqI) (auto simp: bit_simps)
  ultimately show ?thesis
    by (simp add: decodeChannelReject_def record_lookup code_def [symmetric])
qed

lemma encodeV2TLVs_length:
  "encodeV2TLVs rs = Inr body \<Longrightarrow> length body = sum_list (map (\<lambda>r. 4 + length (tlvValue r)) rs)"
  by (simp add: encodeV2TLVs_Inr length_concat o_def)

lemma encodeV2TLVs_ok:
  "list_all (\<lambda>r. length (tlvValue r) \<le> 65535) rs \<Longrightarrow> \<exists>body. encodeV2TLVs rs = Inr body"
  by (simp add: encodeV2TLVs_Inr small_records_def list_all_iff)

text \<open>\<open>delivers\<close>: a write succeeds, and what it emits is read back as \<open>y\<close>, nothing more consumed.\<close>

definition delivers ::
  "('w \<Rightarrow> bytes) \<Rightarrow> 'w \<Rightarrow> go_error option \<times> 'w \<Rightarrow> (reader \<Rightarrow> ('a \<times> reader) result) \<Rightarrow> 'a \<Rightarrow> bool" where
  "delivers sink w wr rd y \<longleftrightarrow>
    (\<exists>w' f. wr = (None, w') \<and> sink w' = sink w @ f \<and>
      (\<forall>rest e. rd (Reader (f @ rest) e) = Inr (y, Reader rest e)))"

lemma delivers_msg:
  assumes "reliable_writer W ok sink" "ok w"
    and "wr = (case enc of Inl e \<Rightarrow> (Some e, w)
       | Inr body \<Rightarrow> writeFrame v W w \<lparr>frType = typ, frVersion = v, frFlags = 0, frBody = body\<rparr>)"
    and "v \<noteq> 0" and "enc = Inr body" and "length body \<le> 16384"
    and "\<And>rest e. readFrame v (Reader (msg_bytes v typ body @ rest) e) 0 =
        Inr (\<lparr>frType = typ, frVersion = v, frFlags = 0, frBody = body\<rparr>, Reader rest e) \<Longrightarrow>
      rd (Reader (msg_bytes v typ body @ rest) e) = Inr (y, Reader rest e)"
  shows "delivers sink w wr rd y"
proof -
  have "fst wr = None \<and> sink (snd wr) = sink w @ msg_bytes v typ body"
    using write_msg_iff [OF assms(1-4)] assms(5,6) by simp
  with assms(7) [OF readFrame_msg_bytes [OF assms(6)]] show ?thesis
    unfolding delivers_def by (cases wr) auto
qed

lemma encodeChannelInit_ok:
  assumes "length (SessionID i) = 16" "ChannelID i \<noteq> 0" "length (ClientNonce i) = 32"
    "length (AuthProof i) \<le> 65535"
  shows "\<exists>body. encodeChannelInit i = Inr body \<and> length body = 92 + length (AuthProof i)"
  using assms by (auto simp: encodeChannelInit_def encodeV2TLVs_Inr small_records_def)

lemma encodeChannelAccept_ok:
  assumes "length (ServerNonce a) = 32" "length (accMessage a) \<le> 65535"
  shows "\<exists>body. encodeChannelAccept a = Inr body \<and> length body \<le> 80 + length (accMessage a)"
  using assms by (auto simp: encodeChannelAccept_def encodeV2TLVs_Inr small_records_def)

lemma encodeChannelReject_ok:
  "length (rejMessage r) \<le> 65535 \<Longrightarrow>
   \<exists>body. encodeChannelReject r = Inr body \<and> length body \<le> 10 + length (rejMessage r)"
  by (auto simp: encodeChannelReject_def encodeV2TLVs_Inr small_records_def Let_def)

section \<open>Properties\<close>


text \<open>
  Protocol v2 messages round-trip over any reliable writer: a well-formed
  \<open>ChannelInit\<close>, \<open>ChannelAccept\<close> or \<open>ChannelReject\<close> is written without error and read
  back with every v2 field unchanged (a reject code of zero becomes "malformed frame"); an
  init with a wrong session id, channel id or nonce is refused with nothing written.
\<close>

lemma v2_messages_roundtrip:
  assumes W: "reliable_writer W ok sink" "ok w"
    and small: "length (AuthProof i) \<le> 16292" "length (accMessage a) \<le> 16304" "length (rejMessage r) \<le> 16374"
    and nonce: "length (ServerNonce a) = 32"
  shows "(if length (SessionID i) = 16 \<and> ChannelID i \<noteq> 0 \<and> length (ClientNonce i) = 32
       then delivers sink w (writeChannelInit W w i) (\<lambda>r. readChannelInit r 0)
              (i\<lparr>CipherPref := [], ClientEphPK := [], TAI64N := [], Padding := []\<rparr>)
       else \<exists>e. writeChannelInit W w i = (Some e, w)) \<and>
     delivers sink w (writeChannelAccept W w a) (\<lambda>r. readChannelAcceptOrReject r 0)
       (a\<lparr>Cipher := 0, ServerEphPK := [], ServerProof := []\<rparr>, ChannelReject0) \<and>
     delivers sink w (writeChannelReject W w r) (\<lambda>r. readChannelAcceptOrReject r 0)
       (ChannelAccept0, r\<lparr>rejCode := if rejCode r = 0 then v2RejectMalformedFrame else rejCode r\<rparr>)"
proof -
  have v: "protocolV2Version \<noteq> 0" by (simp add: protocolV2Version_def)
  obtain ba where ba: "encodeChannelAccept a = Inr ba" "length ba \<le> 16384"
    using encodeChannelAccept_ok [OF nonce] small by fastforce
  obtain br where br: "encodeChannelReject r = Inr br" "length br \<le> 16384"
    using encodeChannelReject_ok [of r] small by fastforce
  have i: "delivers sink w (writeChannelInit W w i) (\<lambda>r. readChannelInit r 0)
              (i\<lparr>CipherPref := [], ClientEphPK := [], TAI64N := [], Padding := []\<rparr>)"
    if wf: "length (SessionID i) = 16" "ChannelID i \<noteq> 0" "length (ClientNonce i) = 32"
  proof -
    obtain bi where bi: "encodeChannelInit i = Inr bi" "length bi \<le> 16384"
      using encodeChannelInit_ok [OF wf] small by fastforce
    show ?thesis
      by (rule delivers_msg [OF W writeChannelInit_def [unfolded writeV2Frame_def] v bi])
        (simp add: readChannelInit_def readV2Frame_def decode_encode_ChannelInit [OF bi(1)])
  qed
  have "\<exists>e. writeChannelInit W w i = (Some e, w)"
    if "\<not> (length (SessionID i) = 16 \<and> ChannelID i \<noteq> 0 \<and> length (ClientNonce i) = 32)"
    using that by (auto simp: writeChannelInit_def encodeChannelInit_def)
  moreover have "delivers sink w (writeChannelAccept W w a) (\<lambda>r. readChannelAcceptOrReject r 0)
       (a\<lparr>Cipher := 0, ServerEphPK := [], ServerProof := []\<rparr>, ChannelReject0)"
    by (rule delivers_msg [OF W writeChannelAccept_def [unfolded writeV2Frame_def] v ba])
      (simp add: readChannelAcceptOrReject_def readV2Frame_def decode_encode_ChannelAccept [OF ba(1)])
  moreover have "delivers sink w (writeChannelReject W w r) (\<lambda>r. readChannelAcceptOrReject r 0)
       (ChannelAccept0, r\<lparr>rejCode := if rejCode r = 0 then v2RejectMalformedFrame else rejCode r\<rparr>)"
    by (rule delivers_msg [OF W writeChannelReject_def [unfolded writeV2Frame_def] v br])
      (simp add: readChannelAcceptOrReject_def readV2Frame_def decode_encode_ChannelReject [OF br(1)]
        v2FrameTypeChannelAccept_def v2FrameTypeChannelReject_def)
  ultimately show ?thesis using i by simp
qed

theorem v2_messages_roundtrip_witness:
  "delivers (\<lambda>b. b) [] (writeChannelReject buffer_writer [] \<lparr>rejCode = 5, rejMessage = ''replay''\<rparr>)
     (\<lambda>r. readChannelAcceptOrReject r 0) (ChannelAccept0, \<lparr>rejCode = 5, rejMessage = ''replay''\<rparr>)"
  using v2_messages_roundtrip [OF buf.reliable_writer_axioms, where w = "[]" and i = ChannelInit0
      and a = "ChannelAccept0\<lparr>ServerNonce := replicate 32 0\<rparr>" and r = "\<lparr>rejCode = 5, rejMessage = ''replay''\<rparr>"]
  by (simp add: ChannelInit0_def ChannelAccept0_def)

end
