(* ===== verification/Wire_V3.thy ===== *)
theory Wire_V3
  imports Wire_V2
begin

text \<open>
  \<open>internal/wire/protocol_v3.go\<close>: cipher negotiation, the X25519 key agreement, the v3
  messages, the handshake transcript with the client and server proofs, and the key
  schedule. The transcript is built at byte offsets as in the source and proved equal to
  a concatenation of its fields, from which it is shown to determine every field.
\<close>

section \<open>Ciphers\<close>

definition protocolV3Version :: byte where "protocolV3Version = 3"
definition v3FrameTypeChannelInit :: byte where "v3FrameTypeChannelInit = 1"
definition v3FrameTypeChannelAccept :: byte where "v3FrameTypeChannelAccept = 2"
definition v3FrameTypeChannelReject :: byte where "v3FrameTypeChannelReject = 3"

abbreviation v3RecordCipherPref :: u16 where "v3RecordCipherPref \<equiv> 0x8030"
abbreviation v3RecordCipher :: u16 where "v3RecordCipher \<equiv> 0x8031"
abbreviation v3RecordClientEphPK :: u16 where "v3RecordClientEphPK \<equiv> 0x8032"
abbreviation v3RecordServerEphPK :: u16 where "v3RecordServerEphPK \<equiv> 0x8033"
abbreviation v3RecordServerProof :: u16 where "v3RecordServerProof \<equiv> 0x8034"
abbreviation v3RecordTAI64N :: u16 where "v3RecordTAI64N \<equiv> 0x8035"

definition v3RejectUnsupportedCipher :: byte where "v3RejectUnsupportedCipher = 9"

definition ProtocolCipherChaCha20Poly1305 :: byte where "ProtocolCipherChaCha20Poly1305 = 1"
definition ProtocolCipherAES256GCM :: byte where "ProtocolCipherAES256GCM = 2"
definition ProtocolCipherAES128GCM :: byte where "ProtocolCipherAES128GCM = 3"

definition isSupportedCipherV3 :: "byte \<Rightarrow> bool" where
  "isSupportedCipherV3 c \<longleftrightarrow>
     c \<in> {ProtocolCipherChaCha20Poly1305, ProtocolCipherAES256GCM, ProtocolCipherAES128GCM}"

definition V3SupportedCiphers :: bytes where
  "V3SupportedCiphers =
     [ProtocolCipherChaCha20Poly1305, ProtocolCipherAES256GCM, ProtocolCipherAES128GCM]"

definition V3CipherKeyLen :: "byte \<Rightarrow> nat" where
  "V3CipherKeyLen c =
    (if c = ProtocolCipherChaCha20Poly1305 then 32
     else if c = ProtocolCipherAES256GCM then 32
     else if c = ProtocolCipherAES128GCM then 16
     else 0)"

fun NegotiateCipherLoop :: "bytes \<Rightarrow> byte \<times> byte \<times> string" where
  "NegotiateCipherLoop [] = (0, v3RejectUnsupportedCipher, ''no supported cipher in preference'')"
| "NegotiateCipherLoop (c # cs) = (if isSupportedCipherV3 c then (c, 0, []) else NegotiateCipherLoop cs)"

definition NegotiateCipherV3 :: "bytes \<Rightarrow> byte \<times> byte \<times> string" where
  "NegotiateCipherV3 pref =
    (if length pref = 0 then (0, v3RejectUnsupportedCipher, ''empty cipher preference'')
     else NegotiateCipherLoop pref)"

definition isZeroBytesV3 :: "bytes \<Rightarrow> bool" where
  "isZeroBytesV3 b \<longleftrightarrow> fold (\<lambda>v acc. acc OR v) b 0 = 0"

text \<open>The 32 random bytes and \<open>curve25519.Basepoint\<close> are arguments.\<close>

definition NewV3ClientEphemeralKey :: "crypto \<Rightarrow> bytes \<Rightarrow> bytes result \<Rightarrow> (bytes \<times> bytes) result" where
  "NewV3ClientEphemeralKey C base rnd =
    rbind rnd (\<lambda>ephSk. rbind (x25519 C ephSk base) (\<lambda>ephPk. Inr (ephSk, ephPk)))"

definition ComputeV3SharedSecret :: "crypto \<Rightarrow> bytes \<Rightarrow> bytes \<Rightarrow> bytes result" where
  "ComputeV3SharedSecret C ephSk peerPk =
    (if length ephSk \<noteq> 32 then Inl (Errorf ''ephemeral secret key must be 32 bytes'')
     else if length peerPk \<noteq> 32 then Inl (Errorf ''peer public key must be 32 bytes'')
     else
       (case x25519 C ephSk peerPk of
          Inl _ \<Rightarrow> Inl (Errorf ''x25519 computation failed'')
        | Inr shared \<Rightarrow>
            if fold (\<lambda>b allZero. allZero OR b) shared 0 = 0
            then Inl (Errorf ''computed shared secret is all zeros (low-order point)'')
            else Inr shared))"

section \<open>Messages\<close>

type_synonym V3Frame = V2Frame

definition writeV3Frame :: "'w io_writer \<Rightarrow> 'w \<Rightarrow> V3Frame \<Rightarrow> go_error option \<times> 'w" where
  "writeV3Frame W w frame = writeFrame protocolV3Version W w frame"

definition readV3Frame :: "reader \<Rightarrow> int \<Rightarrow> (V3Frame \<times> reader) result" where
  "readV3Frame r maxSize = readFrame protocolV3Version r maxSize"

definition encodeChannelInitV3 :: "ChannelInit \<Rightarrow> bytes result" where
  "encodeChannelInitV3 init =
    (if length (SessionID init) \<noteq> 16 then Inl (Errorf ''session id must be 16 bytes'')
     else if ChannelID init = 0 then Inl (Errorf ''channel id must be positive'')
     else if length (ClientNonce init) \<noteq> 32 then Inl (Errorf ''client nonce must be 32 bytes'')
     else if length (AuthProof init) \<noteq> 32 then Inl (Errorf ''auth proof must be 32 bytes'')
     else if length (CipherPref init) < 1 \<or> length (CipherPref init) > 8
     then Inl (Errorf ''cipher preference count must be between 1 and 8'')
     else if \<not> list_all isSupportedCipherV3 (CipherPref init)
     then Inl (Errorf ''unsupported cipher in preference'')
     else if length (ClientEphPK init) \<noteq> 32
     then Inl (Errorf ''client ephemeral public key must be 32 bytes'')
     else if length (TAI64N init) \<noteq> 12 then Inl (Errorf ''tai64n timestamp must be 12 bytes'')
     else
       encodeV2TLVs
         ([tlv v2RecordSessionID (SessionID init),
           tlv v2RecordChannelID (put32 (ChannelID init)),
           tlv v2RecordClientNonce (ClientNonce init),
           tlv v2RecordTimestamp (put64 (Timestamp init)),
           tlv v2RecordCapabilities (put64 (Capabilities init)),
           tlv v2RecordAuthProof (AuthProof init),
           tlv v3RecordCipherPref (CipherPref init),
           tlv v3RecordClientEphPK (ClientEphPK init),
           tlv v3RecordTAI64N (TAI64N init)]
          @ (if length (Padding init) > 0 then [tlv v2RecordPadding (Padding init)] else [])))"

text \<open>The v3 closure \<open>get\<close> checks the size when it is positive.\<close>

definition getRecordV3 :: "(u16 \<rightharpoonup> V2TLV) \<Rightarrow> u16 \<Rightarrow> nat \<Rightarrow> bytes result" where
  "getRecordV3 records typ sz =
    (case records typ of
       None \<Rightarrow> Inl (Errorf ''missing required v3 record'')
     | Some record \<Rightarrow>
         if sz > 0 \<and> length (tlvValue record) \<noteq> sz
         then Inl (Errorf ''invalid v3 record length'') else Inr (tlvValue record))"

definition decodeChannelInitV3 :: "bytes \<Rightarrow> ChannelInit result" where
  "decodeChannelInitV3 body =
    rbind (parseV2TLVs body (Some (\<lambda>t. t \<in> set
        [v2RecordSessionID, v2RecordChannelID, v2RecordClientNonce, v2RecordTimestamp,
         v2RecordCapabilities, v2RecordAuthProof, v2RecordClientName, v2RecordBuildInfo,
         v2RecordDesiredChannelCount, v2RecordTransportHints, v2RecordPadding,
         v3RecordCipherPref, v3RecordClientEphPK, v3RecordTAI64N]))) (\<lambda>records.
    rbind (getRecordV3 records v2RecordSessionID 16) (\<lambda>sessionID.
    rbind (getRecordV3 records v2RecordChannelID 4) (\<lambda>channelIDRaw.
    rbind (getRecordV3 records v2RecordClientNonce 32) (\<lambda>clientNonce.
    rbind (getRecordV3 records v2RecordTimestamp 8) (\<lambda>clientTimeRaw.
    rbind (getRecordV3 records v2RecordCapabilities 8) (\<lambda>capsRaw.
    rbind (getRecordV3 records v2RecordAuthProof 32) (\<lambda>authProof.
    rbind (getRecordV3 records v3RecordCipherPref 0) (\<lambda>cipherPrefRaw.
      if length cipherPrefRaw < 1 \<or> length cipherPrefRaw > 8
      then Inl (Errorf ''invalid cipher preference length'')
      else if \<not> list_all isSupportedCipherV3 cipherPrefRaw
      then Inl (Errorf ''unsupported cipher in preference'')
      else
        rbind (getRecordV3 records v3RecordClientEphPK 32) (\<lambda>clientEphPK.
        rbind (getRecordV3 records v3RecordTAI64N 12) (\<lambda>tai64n.
          let channelID = get32 channelIDRaw in
          if channelID = 0 then Inl (Errorf ''channel id must be positive'')
          else
            Inr \<lparr>SessionID = sessionID, ChannelID = channelID, ClientNonce = clientNonce,
                 Timestamp = get64 clientTimeRaw, Capabilities = get64 capsRaw,
                 AuthProof = authProof, CipherPref = cipherPrefRaw, ClientEphPK = clientEphPK,
                 TAI64N = tai64n,
                 Padding = (case records v2RecordPadding of None \<Rightarrow> [] | Some p \<Rightarrow> tlvValue p)\<rparr>))))))))))"

definition encodeChannelAcceptV3 :: "ChannelAccept \<Rightarrow> bytes result" where
  "encodeChannelAcceptV3 accept =
    (if length (ServerNonce accept) \<noteq> 32 then Inl (Errorf ''server nonce must be 32 bytes'')
     else if \<not> isSupportedCipherV3 (Cipher accept) then Inl (Errorf ''unsupported cipher in accept'')
     else if length (ServerEphPK accept) \<noteq> 32
     then Inl (Errorf ''server ephemeral public key must be 32 bytes'')
     else if length (ServerProof accept) \<noteq> 32 then Inl (Errorf ''server proof must be 32 bytes'')
     else
       encodeV2TLVs
         ([tlv v2RecordCapabilities (put64 (accCapabilities accept)),
           tlv v2RecordServerNonce (ServerNonce accept),
           tlv v2RecordServerTime (put64 (ServerTime accept))]
          @ (if MaxFrameSize accept > 0 then [tlv v2RecordMaxFrameSize (put32 (MaxFrameSize accept))] else [])
          @ (if MaxStreams accept > 0 then [tlv v2RecordMaxStreams (put32 (MaxStreams accept))] else [])
          @ (if length (accMessage accept) > 0 then [tlv v2RecordMessage (bytes_of (accMessage accept))] else [])
          @ [tlv v3RecordCipher [Cipher accept],
             tlv v3RecordServerEphPK (ServerEphPK accept),
             tlv v3RecordServerProof (ServerProof accept)]))"

text \<open>A required record of exact size, with the caller's own error message.\<close>

definition needRecord :: "(u16 \<rightharpoonup> V2TLV) \<Rightarrow> u16 \<Rightarrow> nat \<Rightarrow> string \<Rightarrow> bytes result" where
  "needRecord records typ sz msg =
    (case records typ of
       None \<Rightarrow> Inl (Errorf msg)
     | Some record \<Rightarrow> if length (tlvValue record) \<noteq> sz then Inl (Errorf msg) else Inr (tlvValue record))"

definition decodeChannelAcceptV3 :: "bytes \<Rightarrow> ChannelAccept result" where
  "decodeChannelAcceptV3 body =
    rbind (parseV2TLVs body (Some (\<lambda>t. t \<in> set
        [v2RecordCapabilities, v2RecordServerNonce, v2RecordServerTime, v2RecordMaxFrameSize,
         v2RecordMaxStreams, v2RecordMessage, v2RecordPadding, v3RecordCipher,
         v3RecordServerEphPK, v3RecordServerProof]))) (\<lambda>records.
    rbind (needRecord records v2RecordCapabilities 8 ''invalid channel accept capabilities'') (\<lambda>caps.
    rbind (needRecord records v2RecordServerNonce 32 ''invalid channel accept server nonce'') (\<lambda>nonce.
    rbind (needRecord records v2RecordServerTime 8 ''invalid channel accept server time'') (\<lambda>time.
    rbind (needRecord records v3RecordCipher 1 ''invalid channel accept cipher'') (\<lambda>cipher.
      if \<not> isSupportedCipherV3 (cipher ! 0) then Inl (Errorf ''unsupported cipher in accept'')
      else
        rbind (needRecord records v3RecordServerEphPK 32
                 ''invalid channel accept server ephemeral public key'') (\<lambda>pk.
        rbind (needRecord records v3RecordServerProof 32 ''invalid channel accept server proof'') (\<lambda>proof.
        rbind (optU32 records v2RecordMaxFrameSize ''invalid max frame size length''
                 (\<lambda>v a. a\<lparr>MaxFrameSize := v\<rparr>)
                 (ChannelAccept0\<lparr>accCapabilities := get64 caps, ServerNonce := nonce,
                    ServerTime := get64 time, Cipher := cipher ! 0, ServerEphPK := pk,
                    ServerProof := proof\<rparr>)) (\<lambda>accept.
        rbind (optU32 records v2RecordMaxStreams ''invalid max streams length''
                 (\<lambda>v a. a\<lparr>MaxStreams := v\<rparr>) accept) (\<lambda>accept.
          Inr (case records v2RecordMessage of
                 None \<Rightarrow> accept
               | Some record \<Rightarrow> accept\<lparr>accMessage := str_of (tlvValue record)\<rparr>))))))))))"

definition writeChannelInitV3 :: "'w io_writer \<Rightarrow> 'w \<Rightarrow> ChannelInit \<Rightarrow> go_error option \<times> 'w" where
  "writeChannelInitV3 W w init =
    (case encodeChannelInitV3 init of
       Inl e \<Rightarrow> (Some e, w)
     | Inr body \<Rightarrow> writeV3Frame W w \<lparr>frType = v3FrameTypeChannelInit, frVersion = protocolV3Version,
                                     frFlags = 0, frBody = body\<rparr>)"

definition readChannelInitV3 :: "reader \<Rightarrow> int \<Rightarrow> (ChannelInit \<times> reader) result" where
  "readChannelInitV3 r maxSize =
    rbind (readV3Frame r maxSize) (\<lambda>(frame, r).
      if frType frame \<noteq> v3FrameTypeChannelInit then Inl (Errorf ''unexpected v3 frame type'')
      else rbind (decodeChannelInitV3 (frBody frame)) (\<lambda>init. Inr (init, r)))"

definition writeChannelAcceptV3 :: "'w io_writer \<Rightarrow> 'w \<Rightarrow> ChannelAccept \<Rightarrow> go_error option \<times> 'w" where
  "writeChannelAcceptV3 W w accept =
    (case encodeChannelAcceptV3 accept of
       Inl e \<Rightarrow> (Some e, w)
     | Inr body \<Rightarrow> writeV3Frame W w \<lparr>frType = v3FrameTypeChannelAccept, frVersion = protocolV3Version,
                                     frFlags = 0, frBody = body\<rparr>)"

definition writeChannelRejectV3 :: "'w io_writer \<Rightarrow> 'w \<Rightarrow> ChannelReject \<Rightarrow> go_error option \<times> 'w" where
  "writeChannelRejectV3 W w reject =
    (case encodeChannelReject reject of
       Inl e \<Rightarrow> (Some e, w)
     | Inr body \<Rightarrow> writeV3Frame W w \<lparr>frType = v3FrameTypeChannelReject, frVersion = protocolV3Version,
                                     frFlags = 0, frBody = body\<rparr>)"

definition readChannelAcceptOrRejectV3 ::
  "reader \<Rightarrow> int \<Rightarrow> ((ChannelAccept \<times> ChannelReject) \<times> reader) result" where
  "readChannelAcceptOrRejectV3 r maxSize =
    rbind (readV3Frame r maxSize) (\<lambda>(frame, r).
      if frType frame = v3FrameTypeChannelAccept then
        rbind (decodeChannelAcceptV3 (frBody frame)) (\<lambda>accept. Inr ((accept, ChannelReject0), r))
      else if frType frame = v3FrameTypeChannelReject then
        rbind (decodeChannelReject (frBody frame)) (\<lambda>reject. Inr ((ChannelAccept0, reject), r))
      else Inl (Errorf ''unexpected v3 frame type''))"

section \<open>Transcript and proofs\<close>

text \<open>The checks of \<open>channelInitTranscriptV3\<close>, in order; \<open>None\<close> means all pass.\<close>

definition transcriptChecksV3 ::
  "string \<Rightarrow> string \<Rightarrow> ChannelInit \<Rightarrow> bytes \<Rightarrow> bytes \<Rightarrow> byte \<Rightarrow> bool \<Rightarrow> go_error option" where
  "transcriptChecksV3 serverName path init serverEphPK serverNonce negotiatedCipher full =
    (if length (SessionID init) \<noteq> 16 then Some (Errorf ''session id must be 16 bytes'')
     else if ChannelID init = 0 then Some (Errorf ''channel id must be positive'')
     else if length (ClientNonce init) \<noteq> 32 then Some (Errorf ''client nonce must be 32 bytes'')
     else if length (ClientEphPK init) \<noteq> 32
     then Some (Errorf ''client ephemeral public key must be 32 bytes'')
     else if length (TAI64N init) \<noteq> 12 then Some (Errorf ''tai64n timestamp must be 12 bytes'')
     else if full \<and> length serverEphPK \<noteq> 32
     then Some (Errorf ''server ephemeral public key must be 32 bytes'')
     else if full \<and> length serverNonce \<noteq> 32 then Some (Errorf ''server nonce must be 32 bytes'')
     else if full \<and> \<not> isSupportedCipherV3 negotiatedCipher
     then Some (Errorf ''unsupported cipher in transcript'')
     else if length (CipherPref init) < 1 \<or> length (CipherPref init) > 8
     then Some (Errorf ''cipher preference count must be between 1 and 8'')
     else if \<not> list_all isSupportedCipherV3 (CipherPref init)
     then Some (Errorf ''unsupported cipher in preference'')
     else if length serverName > 65535 then Some (Errorf ''server name too long'')
     else if length path > 65535 then Some (Errorf ''path too long'')
     else None)"

definition transcriptBufV3 ::
  "string \<Rightarrow> string \<Rightarrow> ChannelInit \<Rightarrow> bytes \<Rightarrow> bytes \<Rightarrow> byte \<Rightarrow> bool \<Rightarrow> bytes" where
  "transcriptBufV3 serverName path init serverEphPK serverNonce negotiatedCipher full =
    (let np = length (CipherPref init); ns = length serverName; nq = length path;
         total = 137 + np + 2 + ns + 2 + nq + 12 + (if full then 1 + 32 else 0);
         buf = replicate total 0;
         buf = buf_copy 0 4 [0x01, 0x03, 0x00, 0x00] buf;
         buf = buf_copy 4 20 (SessionID init) buf;
         buf = buf_copy 20 24 (put32 (ChannelID init)) buf;
         buf = buf_copy 24 56 (ClientNonce init) buf;
         buf = buf_copy 56 64 (put64 (Timestamp init)) buf;
         buf = buf_copy 64 72 (put64 (Capabilities init)) buf;
         buf = buf_copy 72 104 (ClientEphPK init) buf;
         buf = (if full then buf_copy 104 136 serverEphPK buf else buf);
         buf = buf_copy 136 137 [word_of_nat np] buf;
         buf = buf_copy 137 (137 + np) (CipherPref init) buf;
         off = 137 + np;
         buf = buf_copy off (off + 2) (put16 (word_of_nat ns)) buf;
         off = off + 2;
         buf = buf_copy off (off + ns) (bytes_of serverName) buf;
         off = off + ns;
         buf = buf_copy off (off + 2) (put16 (word_of_nat nq)) buf;
         off = off + 2;
         buf = buf_copy off (off + nq) (bytes_of path) buf;
         off = off + nq;
         buf = buf_copy off (off + 12) (TAI64N init) buf;
         off = off + 12
     in if full
        then buf_copy (off + 1) (off + 1 + 32) serverNonce (buf_copy off (off + 1) [negotiatedCipher] buf)
        else buf)"

definition channelInitTranscriptV3 ::
  "string \<Rightarrow> string \<Rightarrow> ChannelInit \<Rightarrow> bytes \<Rightarrow> bytes \<Rightarrow> byte \<Rightarrow> bool \<Rightarrow> bytes result" where
  "channelInitTranscriptV3 serverName path init serverEphPK serverNonce negotiatedCipher full =
    (case transcriptChecksV3 serverName path init serverEphPK serverNonce negotiatedCipher full of
       Some e \<Rightarrow> Inl e
     | None \<Rightarrow> Inr (transcriptBufV3 serverName path init serverEphPK serverNonce negotiatedCipher full))"

definition ComputeV3TranscriptHash ::
  "crypto \<Rightarrow> string \<Rightarrow> string \<Rightarrow> ChannelInit \<Rightarrow> bytes \<Rightarrow> bytes \<Rightarrow> byte \<Rightarrow> bool \<Rightarrow> bytes result" where
  "ComputeV3TranscriptHash C serverName path init serverEphPK serverNonce negotiatedCipher full =
    rbind (channelInitTranscriptV3 serverName path init serverEphPK serverNonce negotiatedCipher full)
      (\<lambda>transcript. Inr (sha256_Sum C transcript))"

definition ComputeV3TranscriptHashInit ::
  "crypto \<Rightarrow> string \<Rightarrow> string \<Rightarrow> ChannelInit \<Rightarrow> bytes result" where
  "ComputeV3TranscriptHashInit C serverName path init =
    ComputeV3TranscriptHash C serverName path init [] [] 0 False"

definition ComputeV3TranscriptHashFull ::
  "crypto \<Rightarrow> string \<Rightarrow> string \<Rightarrow> ChannelInit \<Rightarrow> bytes \<Rightarrow> bytes \<Rightarrow> byte \<Rightarrow> bytes result" where
  "ComputeV3TranscriptHashFull C serverName path init serverEphPK serverNonce negotiatedCipher =
    ComputeV3TranscriptHash C serverName path init serverEphPK serverNonce negotiatedCipher True"

definition ComputeV3AuthProof :: "crypto \<Rightarrow> string \<Rightarrow> string \<Rightarrow> string \<Rightarrow> ChannelInit \<Rightarrow> bytes result" where
  "ComputeV3AuthProof C token serverName path init =
    rbind (ComputeV3TranscriptHashInit C serverName path init) (\<lambda>transcriptHash.
    rbind (hkdf_New C (bytes_of token) (bytes_of ''x-tunnel-v3-auth'') (bytes_of serverName) 32) (\<lambda>authKey.
      Inr (hmac_SHA256 C authKey transcriptHash)))"

definition VerifyV3AuthProof :: "crypto \<Rightarrow> string \<Rightarrow> string \<Rightarrow> string \<Rightarrow> ChannelInit \<Rightarrow> bool" where
  "VerifyV3AuthProof C token serverName path init =
    (case ComputeV3AuthProof C token serverName path init of
       Inl _ \<Rightarrow> False
     | Inr expected \<Rightarrow>
         if length (AuthProof init) \<noteq> length expected then False else AuthProof init = expected)"

definition ComputeV3ServerProof ::
  "crypto \<Rightarrow> string \<Rightarrow> string \<Rightarrow> string \<Rightarrow> ChannelInit \<Rightarrow> bytes \<Rightarrow> bytes \<Rightarrow> byte \<Rightarrow> bytes result" where
  "ComputeV3ServerProof C token serverName path init serverEphPK serverNonce negotiatedCipher =
    rbind (ComputeV3TranscriptHashFull C serverName path init serverEphPK serverNonce negotiatedCipher)
      (\<lambda>transcriptHash.
    rbind (hkdf_New C (bytes_of token) (bytes_of ''x-tunnel-v3-auth'') (bytes_of serverName) 32) (\<lambda>authKey.
      Inr (hmac_SHA256 C authKey transcriptHash)))"

definition VerifyV3ServerProof ::
  "crypto \<Rightarrow> string \<Rightarrow> string \<Rightarrow> string \<Rightarrow> ChannelInit \<Rightarrow> ChannelAccept \<Rightarrow> bool" where
  "VerifyV3ServerProof C token serverName path init accept =
    (case ComputeV3ServerProof C token serverName path init
        (ServerEphPK accept) (ServerNonce accept) (Cipher accept) of
       Inl _ \<Rightarrow> False
     | Inr expected \<Rightarrow>
         if length (ServerProof accept) \<noteq> length expected then False else ServerProof accept = expected)"

section \<open>Key schedule\<close>

record V3SessionKeys =
  Seed :: bytes
  C2SNoncePrefix :: bytes
  S2CNoncePrefix :: bytes

definition DeriveV3SessionSeed :: "crypto \<Rightarrow> string \<Rightarrow> bytes \<Rightarrow> bytes \<Rightarrow> V3SessionKeys result" where
  "DeriveV3SessionSeed C token transcriptHashFull shared =
    (if length token = 0 then Inl (Errorf ''empty token'')
     else if length transcriptHashFull \<noteq> 32 then Inl (Errorf ''transcript hash must be 32 bytes'')
     else if length shared \<noteq> 32 then Inl (Errorf ''shared secret must be 32 bytes'')
     else if isZeroBytesV3 shared then Inl (Errorf ''shared secret must not be all zero'')
     else
       (let ikm = shared @ bytes_of token;
            prk = hkdf_Extract C ikm (bytes_of ''xtunnel-v3-kdf'')
        in
        rbind (hkdf_Expand C prk transcriptHashFull 32) (\<lambda>seed.
        rbind (hkdf_Expand C seed (bytes_of ''xtunnel-v3 fs mix'') 32) (\<lambda>sessionSeed.
        rbind (hkdf_Expand C sessionSeed (bytes_of ''xtunnel-v3 c2s nonce'') 4) (\<lambda>c2sNoncePrefix.
        rbind (hkdf_Expand C sessionSeed (bytes_of ''xtunnel-v3 s2c nonce'') 4) (\<lambda>s2cNoncePrefix.
          Inr \<lparr>Seed = sessionSeed, C2SNoncePrefix = c2sNoncePrefix, S2CNoncePrefix = s2cNoncePrefix\<rparr>))))))"

definition DeriveV3SessionKeys :: "string \<Rightarrow> bytes \<Rightarrow> V3SessionKeys result" where
  "DeriveV3SessionKeys token transcriptHash = Inl (Errorf ''DeriveV3SessionKeys is disabled'')"

definition streamKeyInfo :: "byte \<Rightarrow> bool \<Rightarrow> u32 \<Rightarrow> u64 \<Rightarrow> bytes" where
  "streamKeyInfo cipherID clientToServer streamID gen =
    (let label = (if clientToServer then ''xtunnel-v3 c2s key'' else ''xtunnel-v3 s2c key'');
         info = replicate (length label + 1 + 4 + 8) 0;
         info = buf_copy 0 (length info) (bytes_of label) info;
         off = length label;
         info = buf_copy off (off + 1) [cipherID] info;
         info = buf_copy (off + 1) (off + 5) (put32 streamID) info
     in buf_copy (off + 5) (off + 13) (put64 gen) info)"

definition StreamKey :: "crypto \<Rightarrow> V3SessionKeys \<Rightarrow> byte \<Rightarrow> bool \<Rightarrow> u32 \<Rightarrow> u64 \<Rightarrow> bytes result" where
  "StreamKey C k cipherID clientToServer streamID gen =
    (let keyLen = V3CipherKeyLen cipherID in
     if keyLen \<le> 0 then Inl (Errorf ''unsupported cipher ID'')
     else if length (Seed k) \<noteq> 32 then Inl (Errorf ''invalid session seed length'')
     else hkdf_Expand C (Seed k) (streamKeyInfo cipherID clientToServer streamID gen) keyLen)"

section \<open>Lemmas on ciphers and messages\<close>

lemma fold_or_zero: "fold (\<lambda>v acc. acc OR v) b (a :: byte) = 0 \<longleftrightarrow> a = 0 \<and> (\<forall>x\<in>set b. x = 0)"
  by (induction b arbitrary: a) (auto simp: or_eq_0_iff)

lemma isZeroBytesV3_iff: "isZeroBytesV3 b \<longleftrightarrow> (\<forall>x\<in>set b. x = 0)"
  by (simp add: isZeroBytesV3_def fold_or_zero)

lemma NegotiateCipherLoop_find:
  "NegotiateCipherLoop pref =
    (case find isSupportedCipherV3 pref of
       Some c \<Rightarrow> (c, 0, []) | None \<Rightarrow> (0, v3RejectUnsupportedCipher, ''no supported cipher in preference''))"
  by (induction pref) auto

definition wf_init_v3 :: "ChannelInit \<Rightarrow> bool" where
  "wf_init_v3 i \<longleftrightarrow>
    length (SessionID i) = 16 \<and> ChannelID i \<noteq> 0 \<and> length (ClientNonce i) = 32 \<and>
    length (AuthProof i) = 32 \<and> CipherPref i \<noteq> [] \<and> length (CipherPref i) \<le> 8 \<and>
    list_all isSupportedCipherV3 (CipherPref i) \<and> length (ClientEphPK i) = 32 \<and>
    length (TAI64N i) = 12"

definition wf_accept_v3 :: "ChannelAccept \<Rightarrow> bool" where
  "wf_accept_v3 a \<longleftrightarrow>
    length (ServerNonce a) = 32 \<and> isSupportedCipherV3 (Cipher a) \<and>
    length (ServerEphPK a) = 32 \<and> length (ServerProof a) = 32"

definition init_records_v3 :: "ChannelInit \<Rightarrow> V2TLV list" where
  "init_records_v3 init =
    [tlv v2RecordSessionID (SessionID init), tlv v2RecordChannelID (put32 (ChannelID init)),
     tlv v2RecordClientNonce (ClientNonce init), tlv v2RecordTimestamp (put64 (Timestamp init)),
     tlv v2RecordCapabilities (put64 (Capabilities init)), tlv v2RecordAuthProof (AuthProof init),
     tlv v3RecordCipherPref (CipherPref init), tlv v3RecordClientEphPK (ClientEphPK init),
     tlv v3RecordTAI64N (TAI64N init)]
    @ (if length (Padding init) > 0 then [tlv v2RecordPadding (Padding init)] else [])"

definition accept_records_v3 :: "ChannelAccept \<Rightarrow> V2TLV list" where
  "accept_records_v3 a =
    [tlv v2RecordCapabilities (put64 (accCapabilities a)), tlv v2RecordServerNonce (ServerNonce a),
     tlv v2RecordServerTime (put64 (ServerTime a))]
    @ (if MaxFrameSize a > 0 then [tlv v2RecordMaxFrameSize (put32 (MaxFrameSize a))] else [])
    @ (if MaxStreams a > 0 then [tlv v2RecordMaxStreams (put32 (MaxStreams a))] else [])
    @ (if length (accMessage a) > 0 then [tlv v2RecordMessage (bytes_of (accMessage a))] else [])
    @ [tlv v3RecordCipher [Cipher a], tlv v3RecordServerEphPK (ServerEphPK a),
       tlv v3RecordServerProof (ServerProof a)]"

lemma encodeChannelInitV3_iff:
  "encodeChannelInitV3 i = Inr body \<longleftrightarrow> wf_init_v3 i \<and> encodeV2TLVs (init_records_v3 i) = Inr body"
  by (auto simp: encodeChannelInitV3_def wf_init_v3_def init_records_v3_def not_le not_less)

lemma encodeChannelAcceptV3_iff:
  "encodeChannelAcceptV3 a = Inr body \<longleftrightarrow> wf_accept_v3 a \<and> encodeV2TLVs (accept_records_v3 a) = Inr body"
  by (auto simp: encodeChannelAcceptV3_def wf_accept_v3_def accept_records_v3_def)

lemma encodeChannelInitV3_ok:
  assumes "wf_init_v3 i" "length (Padding i) \<le> 65535"
  shows "\<exists>body. encodeChannelInitV3 i = Inr body \<and> length body \<le> 192 + length (Padding i)"
  using assms by (auto simp: encodeChannelInitV3_iff init_records_v3_def encodeV2TLVs_Inr
      small_records_def wf_init_v3_def)

lemma encodeChannelAcceptV3_ok:
  assumes "wf_accept_v3 a" "length (accMessage a) \<le> 65535"
  shows "\<exists>body. encodeChannelAcceptV3 a = Inr body \<and> length body \<le> 157 + length (accMessage a)"
  using assms by (auto simp: encodeChannelAcceptV3_iff accept_records_v3_def encodeV2TLVs_Inr
      small_records_def wf_accept_v3_def)

lemma decode_encode_ChannelInitV3:
  assumes "encodeChannelInitV3 i = Inr body"
  shows "decodeChannelInitV3 body = Inr i"
proof -
  have wf: "wf_init_v3 i" and e: "encodeV2TLVs (init_records_v3 i) = Inr body"
    using assms by (simp_all add: encodeChannelInitV3_iff)
  have "parseV2TLVs body (Some k) = Inr (map_of (map (\<lambda>r. (tlvType r, r)) (init_records_v3 i)))"
    if "list_all (\<lambda>r. k (tlvType r)) (init_records_v3 i)" for k
    by (rule parse_encoded [OF e that]) (simp add: init_records_v3_def)
  then show ?thesis
    using wf by (simp add: decodeChannelInitV3_def init_records_v3_def getRecordV3_def Let_def wf_init_v3_def)
qed

lemma decode_encode_ChannelAcceptV3:
  assumes "encodeChannelAcceptV3 a = Inr body"
  shows "decodeChannelAcceptV3 body = Inr a"
proof -
  have wf: "wf_accept_v3 a" and e: "encodeV2TLVs (accept_records_v3 a) = Inr body"
    using assms by (simp_all add: encodeChannelAcceptV3_iff)
  have "parseV2TLVs body (Some k) = Inr (map_of (map (\<lambda>r. (tlvType r, r)) (accept_records_v3 a)))"
    if "list_all (\<lambda>r. k (tlvType r)) (accept_records_v3 a)" for k
    by (rule parse_encoded [OF e that]) (simp add: accept_records_v3_def)
  then show ?thesis
    using wf
    by (cases "MaxFrameSize a = 0"; cases "MaxStreams a = 0"; cases "accMessage a = []")
      (simp_all add: decodeChannelAcceptV3_def accept_records_v3_def needRecord_def optU32_def
        wf_accept_v3_def ChannelAccept0_def word_greater_zero_iff)
qed

lemma getRecordV3_Inr: "getRecordV3 records t sz = Inr v \<Longrightarrow> sz = 0 \<or> length v = sz"
  by (auto simp: getRecordV3_def split: option.splits if_splits)

lemma decodeChannelInitV3_wf: "decodeChannelInitV3 body = Inr i \<Longrightarrow> wf_init_v3 i"
  unfolding decodeChannelInitV3_def Let_def
  by (elim result_elims) ((drule getRecordV3_Inr)+, simp add: wf_init_v3_def)

section \<open>Lemmas on the transcript\<close>

definition transcript_layout_v3 ::
  "string \<Rightarrow> string \<Rightarrow> ChannelInit \<Rightarrow> bytes \<Rightarrow> bytes \<Rightarrow> byte \<Rightarrow> bool \<Rightarrow> bytes" where
  "transcript_layout_v3 sn path i spk snonce c full =
    [1, 3, 0, 0] @ SessionID i @ put32 (ChannelID i) @ ClientNonce i @ put64 (Timestamp i) @
    put64 (Capabilities i) @ ClientEphPK i @ (if full then spk else replicate 32 0) @
    [word_of_nat (length (CipherPref i))] @ CipherPref i @
    put16 (word_of_nat (length sn)) @ bytes_of sn @
    put16 (word_of_nat (length path)) @ bytes_of path @ TAI64N i @
    (if full then c # snonce else [])"

definition transcript_ok_v3 ::
  "string \<Rightarrow> string \<Rightarrow> ChannelInit \<Rightarrow> bytes \<Rightarrow> bytes \<Rightarrow> byte \<Rightarrow> bool \<Rightarrow> bool" where
  "transcript_ok_v3 sn path i spk snonce c full \<longleftrightarrow>
    length (SessionID i) = 16 \<and> ChannelID i \<noteq> 0 \<and> length (ClientNonce i) = 32 \<and>
    length (ClientEphPK i) = 32 \<and> length (TAI64N i) = 12 \<and>
    (full \<longrightarrow> length spk = 32 \<and> length snonce = 32 \<and> isSupportedCipherV3 c) \<and>
    CipherPref i \<noteq> [] \<and> length (CipherPref i) \<le> 8 \<and> list_all isSupportedCipherV3 (CipherPref i) \<and>
    length sn \<le> 65535 \<and> length path \<le> 65535"

lemma transcriptChecksV3_None:
  "transcriptChecksV3 sn path i spk snonce c full = None \<longleftrightarrow> transcript_ok_v3 sn path i spk snonce c full"
  unfolding transcriptChecksV3_def transcript_ok_v3_def
  by (simp split: if_split add: not_less)

lemma transcriptBufV3_layout:
  assumes ok: "transcript_ok_v3 sn path i spk snonce c full"
  shows "transcriptBufV3 sn path i spk snonce c full = transcript_layout_v3 sn path i spk snonce c full"
proof (rule filled_all)
  let ?N = "137 + length (CipherPref i) + 2 + length sn + 2 + length path + 12 + (if full then 1 + 32 else 0)"
  let ?p = "((((((((((((((([] @ [1, 3, 0, 0]) @ SessionID i) @ put32 (ChannelID i)) @ ClientNonce i) @
    put64 (Timestamp i)) @ put64 (Capabilities i)) @ ClientEphPK i) @ (if full then spk else replicate 32 0)) @
    [word_of_nat (length (CipherPref i))]) @ CipherPref i) @ put16 (word_of_nat (length sn))) @ bytes_of sn) @
    put16 (word_of_nat (length path))) @ bytes_of path) @ TAI64N i)"
  note len = ok [unfolded transcript_ok_v3_def]
  show "length (transcript_layout_v3 sn path i spk snonce c full) = ?N"
    using len by (auto simp: transcript_layout_v3_def)
  show "filled (transcript_layout_v3 sn path i spk snonce c full) ?N
      (transcriptBufV3 sn path i spk snonce c full)"
  proof (cases full)
    case True
    have "transcript_layout_v3 sn path i spk snonce c full = (?p @ [c]) @ snonce"
      using True by (simp add: transcript_layout_v3_def)
    then show ?thesis
      using True len unfolding transcriptBufV3_def Let_def
      by (simp only: if_True) (intro filled_copy filled_init, simp_all)
  next
    case False
    have "transcript_layout_v3 sn path i spk snonce c full = ?p"
      using False by (simp add: transcript_layout_v3_def)
    then show ?thesis
      using False len unfolding transcriptBufV3_def Let_def
      by (simp only: if_False) (intro filled_copy filled_zeros filled_init, simp_all)
  qed
qed

lemma channelInitTranscriptV3_iff:
  "channelInitTranscriptV3 sn path i spk snonce c full = Inr t \<longleftrightarrow>
    transcript_ok_v3 sn path i spk snonce c full \<and> t = transcript_layout_v3 sn path i spk snonce c full"
  by (cases "transcriptChecksV3 sn path i spk snonce c full")
    (auto simp: channelInitTranscriptV3_def transcriptBufV3_layout transcriptChecksV3_None [symmetric])

lemma prefixed_string_inject:
  assumes "put16 (word_of_nat (length s)) @ bytes_of s @ r = put16 (word_of_nat (length s')) @ bytes_of s' @ r'"
    "length s \<le> 65535" "length s' \<le> 65535"
  shows "s = s' \<and> r = r'"
proof -
  have "(word_of_nat (length s) :: u16) = word_of_nat (length s')" "bytes_of s @ r = bytes_of s' @ r'"
    using assms(1) by simp_all
  then have "length s = length s'" using assms(2,3) unat_u16 by metis
  then show ?thesis using \<open>bytes_of s @ r = bytes_of s' @ r'\<close> by simp
qed

lemma prefixed_ciphers_inject:
  assumes "[word_of_nat (length p) :: byte] @ p @ r = [word_of_nat (length p')] @ p' @ r'"
    "length p \<le> 8" "length p' \<le> 8"
  shows "p = p' \<and> r = r'"
proof -
  have "(word_of_nat (length p) :: byte) = word_of_nat (length p')" using assms(1) by simp
  then have "length p mod 256 = length p' mod 256" by (metis unat_word_of_nat_byte)
  then have "length p = length p'" using assms(2,3) by simp
  then show ?thesis using assms(1) by simp
qed

lemma transcript_layout_inject:
  assumes ok: "transcript_ok_v3 sn path i spk snonce c full" "transcript_ok_v3 sn' path' i' spk' snonce' c' full'"
    and eq: "transcript_layout_v3 sn path i spk snonce c full = transcript_layout_v3 sn' path' i' spk' snonce' c' full'"
  shows "i'\<lparr>AuthProof := AuthProof i, Padding := Padding i\<rparr> = i \<and> sn = sn' \<and> path = path' \<and> full = full' \<and>
    (full \<longrightarrow> spk = spk' \<and> snonce = snonce' \<and> c = c')"
proof -
  note len = ok [unfolded transcript_ok_v3_def]
  let ?pk = "if full then spk else replicate 32 0" and ?pk' = "if full' then spk' else replicate 32 0"
  let ?e = "if full then c # snonce else []" and ?e' = "if full' then c' # snonce' else []"
  have pk: "length ?pk = 32" "length ?pk' = 32" using len by auto
  have fixed: "SessionID i = SessionID i' \<and> ChannelID i = ChannelID i' \<and> ClientNonce i = ClientNonce i' \<and>
      Timestamp i = Timestamp i' \<and> Capabilities i = Capabilities i' \<and> ClientEphPK i = ClientEphPK i' \<and> ?pk = ?pk'"
    and r1: "[word_of_nat (length (CipherPref i))] @ CipherPref i @
      put16 (word_of_nat (length sn)) @ bytes_of sn @ put16 (word_of_nat (length path)) @ bytes_of path @ TAI64N i @ ?e =
      [word_of_nat (length (CipherPref i'))] @ CipherPref i' @
      put16 (word_of_nat (length sn')) @ bytes_of sn' @ put16 (word_of_nat (length path')) @ bytes_of path' @ TAI64N i' @ ?e'"
    using eq len pk by (simp_all add: transcript_layout_v3_def del: if_split)
  have pref: "CipherPref i = CipherPref i'"
    and r2: "put16 (word_of_nat (length sn)) @ bytes_of sn @ put16 (word_of_nat (length path)) @ bytes_of path @ TAI64N i @ ?e =
      put16 (word_of_nat (length sn')) @ bytes_of sn' @ put16 (word_of_nat (length path')) @ bytes_of path' @ TAI64N i' @ ?e'"
    using prefixed_ciphers_inject [OF r1] len by simp_all
  have sn: "sn = sn'"
    and r3: "put16 (word_of_nat (length path)) @ bytes_of path @ TAI64N i @ ?e =
      put16 (word_of_nat (length path')) @ bytes_of path' @ TAI64N i' @ ?e'"
    using prefixed_string_inject [OF r2] len by blast+
  have path: "path = path'" and r4: "TAI64N i @ ?e = TAI64N i' @ ?e'"
    using prefixed_string_inject [OF r3] len by blast+
  have tai: "TAI64N i = TAI64N i'" and e: "?e = ?e'" using r4 len by (simp_all del: if_split)
  have "full = full' \<and> (full \<longrightarrow> snonce = snonce' \<and> c = c')"
    using e by (auto split: if_splits)
  then show ?thesis using fixed pref sn path tai by (auto intro: ChannelInit.equality)
qed

lemma streamKeyInfo_layout:
  "streamKeyInfo cid d sid gen =
    bytes_of (if d then ''xtunnel-v3 c2s key'' else ''xtunnel-v3 s2c key'') @ [cid] @ put32 sid @ put64 gen"
proof -
  let ?l = "if d then ''xtunnel-v3 c2s key'' else ''xtunnel-v3 s2c key''"
  have l: "length ?l = 18" by simp
  have "filled (((([] @ bytes_of ?l) @ [cid]) @ put32 sid) @ put64 gen) 31
     (buf_copy 23 31 (put64 gen) (buf_copy 19 23 (put32 sid) (buf_copy 18 19 [cid]
       (buf_copy 0 18 (bytes_of ?l) (replicate 31 0)))))"
    by (intro filled_copy filled_init) (simp_all del: if_split add: l)
  moreover have "buf_copy 0 31 (bytes_of ?l) (replicate 31 0) = buf_copy 0 18 (bytes_of ?l) (replicate 31 0)"
    by (simp add: buf_copy_def l del: if_split)
  ultimately show ?thesis
    using filled_all [of "((([] @ bytes_of ?l) @ [cid]) @ put32 sid) @ put64 gen" 31] l
    unfolding streamKeyInfo_def Let_def by simp
qed

lemma V3CipherKeyLen_pos: "0 < V3CipherKeyLen c \<longleftrightarrow> isSupportedCipherV3 c"
  by (auto simp: V3CipherKeyLen_def isSupportedCipherV3_def)

lemma V3CipherKeyLen_le: "V3CipherKeyLen c \<le> 32"
  by (simp add: V3CipherKeyLen_def)

lemma DeriveV3SessionSeed_ok:
  assumes "hkdf_total C" "token \<noteq> []" "length h = 32" "length shared = 32" "\<not> isZeroBytesV3 shared"
  shows "\<exists>k. DeriveV3SessionSeed C token h shared = Inr k \<and> length (Seed k) = 32 \<and>
    length (C2SNoncePrefix k) = 4 \<and> length (S2CNoncePrefix k) = 4"
proof -
  have x: "n \<le> 8160 \<Longrightarrow> \<exists>k. hkdf_Expand C prk info n = Inr k \<and> length k = n" for prk info n
    using assms(1) by (simp add: hkdf_total_def)
  obtain seed where 1: "hkdf_Expand C (hkdf_Extract C (shared @ bytes_of token) (bytes_of ''xtunnel-v3-kdf'')) h 32 = Inr seed"
    using x [of 32] by fastforce
  obtain ss where 2: "hkdf_Expand C seed (bytes_of ''xtunnel-v3 fs mix'') 32 = Inr ss" "length ss = 32"
    using x [of 32] by fastforce
  obtain c where 3: "hkdf_Expand C ss (bytes_of ''xtunnel-v3 c2s nonce'') 4 = Inr c" "length c = 4"
    using x [of 4] by fastforce
  obtain d where 4: "hkdf_Expand C ss (bytes_of ''xtunnel-v3 s2c nonce'') 4 = Inr d" "length d = 4"
    using x [of 4] by fastforce
  show ?thesis using assms 1 2 3 4 by (simp add: DeriveV3SessionSeed_def Let_def)
qed

lemma v3_version_nonzero: "protocolV3Version \<noteq> 0"
  by (simp add: protocolV3Version_def)

lemma init_v3_delivers:
  assumes W: "reliable_writer W ok sink" "ok w" and wf: "wf_init_v3 i" and small: "length (Padding i) \<le> 16192"
  shows "delivers sink w (writeChannelInitV3 W w i) (\<lambda>r. readChannelInitV3 r 0) i"
proof -
  obtain bi where bi: "encodeChannelInitV3 i = Inr bi" "length bi \<le> 16384"
    using encodeChannelInitV3_ok [OF wf] small by fastforce
  show ?thesis
    by (rule delivers_msg [OF W writeChannelInitV3_def [unfolded writeV3Frame_def] v3_version_nonzero bi])
      (simp add: readChannelInitV3_def readV3Frame_def decode_encode_ChannelInitV3 [OF bi(1)])
qed

lemma accept_v3_delivers:
  assumes W: "reliable_writer W ok sink" "ok w" and wf: "wf_accept_v3 a" and small: "length (accMessage a) \<le> 16227"
  shows "delivers sink w (writeChannelAcceptV3 W w a) (\<lambda>r. readChannelAcceptOrRejectV3 r 0) (a, ChannelReject0)"
proof -
  obtain ba where ba: "encodeChannelAcceptV3 a = Inr ba" "length ba \<le> 16384"
    using encodeChannelAcceptV3_ok [OF wf] small by fastforce
  show ?thesis
    by (rule delivers_msg [OF W writeChannelAcceptV3_def [unfolded writeV3Frame_def] v3_version_nonzero ba])
      (simp add: readChannelAcceptOrRejectV3_def readV3Frame_def decode_encode_ChannelAcceptV3 [OF ba(1)])
qed

lemma readChannelInitV3_wf: "readChannelInitV3 rd n = Inr (j, rd') \<Longrightarrow> wf_init_v3 j"
  using decodeChannelInitV3_wf unfolding readChannelInitV3_def
  by (auto simp: rbind_eq_Inr split: if_splits)

section \<open>Properties\<close>

text \<open>
  C14. Protocol v3 messages over any reliable writer: a well-formed \<open>ChannelInit\<close> is
  delivered with every field unchanged, an ill-formed one is refused with nothing written;
  accepts and rejects are delivered likewise. Whatever bytes a peer sends, an init that
  \<open>readChannelInitV3\<close> accepts is well-formed.
\<close>

lemma v3_messages_roundtrip:
  assumes W: "reliable_writer W ok sink" "ok w"
    and small: "length (Padding i) \<le> 16192" "length (accMessage a) \<le> 16227" "length (rejMessage r) \<le> 16374"
    and wfa: "wf_accept_v3 a"
  shows "(if wf_init_v3 i
       then delivers sink w (writeChannelInitV3 W w i) (\<lambda>r. readChannelInitV3 r 0) i
       else \<exists>e. writeChannelInitV3 W w i = (Some e, w)) \<and>
     delivers sink w (writeChannelAcceptV3 W w a) (\<lambda>r. readChannelAcceptOrRejectV3 r 0) (a, ChannelReject0) \<and>
     delivers sink w (writeChannelRejectV3 W w r) (\<lambda>r. readChannelAcceptOrRejectV3 r 0)
       (ChannelAccept0, r\<lparr>rejCode := if rejCode r = 0 then v2RejectMalformedFrame else rejCode r\<rparr>) \<and>
     (\<forall>rd n j rd'. readChannelInitV3 rd n = Inr (j, rd') \<longrightarrow> wf_init_v3 j)"
proof -
  obtain br where br: "encodeChannelReject r = Inr br" "length br \<le> 16384"
    using encodeChannelReject_ok [of r] small by fastforce
  have "\<exists>e. writeChannelInitV3 W w i = (Some e, w)" if "\<not> wf_init_v3 i"
    using that encodeChannelInitV3_iff [of i]
    by (cases "encodeChannelInitV3 i") (auto simp: writeChannelInitV3_def)
  moreover have "delivers sink w (writeChannelRejectV3 W w r) (\<lambda>r. readChannelAcceptOrRejectV3 r 0)
       (ChannelAccept0, r\<lparr>rejCode := if rejCode r = 0 then v2RejectMalformedFrame else rejCode r\<rparr>)"
    by (rule delivers_msg [OF W writeChannelRejectV3_def [unfolded writeV3Frame_def] v3_version_nonzero br])
      (simp add: readChannelAcceptOrRejectV3_def readV3Frame_def decode_encode_ChannelReject [OF br(1)]
        v3FrameTypeChannelAccept_def v3FrameTypeChannelReject_def)
  ultimately show ?thesis
    using init_v3_delivers [OF W _ small(1)] accept_v3_delivers [OF W wfa small(2)] readChannelInitV3_wf by auto
qed

definition sample_init :: ChannelInit where
  "sample_init = \<lparr>SessionID = replicate 16 7, ChannelID = 1, ClientNonce = replicate 32 8, Timestamp = 5,
     Capabilities = 0xff, AuthProof = replicate 32 9, CipherPref = [1, 2], ClientEphPK = replicate 32 3,
     TAI64N = replicate 12 4, Padding = [0, 1]\<rparr>"

definition sample_accept :: ChannelAccept where
  "sample_accept = \<lparr>accCapabilities = 0xff, ServerNonce = replicate 32 1, ServerTime = 6, MaxFrameSize = 16384,
     MaxStreams = 0, accMessage = [], Cipher = 1, ServerEphPK = replicate 32 2, ServerProof = replicate 32 3\<rparr>"

lemma sample_messages_wf: "wf_init_v3 sample_init" "wf_accept_v3 sample_accept"
  by (simp_all add: wf_init_v3_def wf_accept_v3_def sample_init_def sample_accept_def isSupportedCipherV3_def
      ProtocolCipherChaCha20Poly1305_def ProtocolCipherAES256GCM_def ProtocolCipherAES128GCM_def)

theorem v3_messages_roundtrip_witness:
  "delivers (\<lambda>b. b) [] (writeChannelInitV3 buffer_writer [] sample_init) (\<lambda>r. readChannelInitV3 r 0) sample_init"
  using v3_messages_roundtrip [OF buf.reliable_writer_axioms, where w = "[]" and i = sample_init
      and a = sample_accept and r = ChannelReject0] sample_messages_wf
  by (simp add: ChannelReject0_def sample_accept_def sample_init_def)


lemma sample_transcript:
  "channelInitTranscriptV3 ''s'' ''/p'' sample_init (replicate 32 1) (replicate 32 2) 3 True =
    Inr (transcript_layout_v3 ''s'' ''/p'' sample_init (replicate 32 1) (replicate 32 2) 3 True)"
  "channelInitTranscriptV3 ''s'' ''/p'' (sample_init\<lparr>AuthProof := [7], Padding := [8, 9]\<rparr>) (replicate 32 1) (replicate 32 2) 3 True =
    Inr (transcript_layout_v3 ''s'' ''/p'' sample_init (replicate 32 1) (replicate 32 2) 3 True)"
  using sample_messages_wf(1)
  by (simp_all add: channelInitTranscriptV3_iff transcript_ok_v3_def wf_init_v3_def transcript_layout_v3_def isSupportedCipherV3_def
      ProtocolCipherChaCha20Poly1305_def ProtocolCipherAES256GCM_def ProtocolCipherAES128GCM_def)


text \<open>
  Cipher negotiation: \<open>NegotiateCipherV3\<close> picks the first supported cipher of the
  client's preference list, every earlier entry being unsupported, and rejects with the
  code for unsupported ciphers exactly when the list has no supported entry.
\<close>

lemma NegotiateCipherV3_first:
  "(\<exists>c. NegotiateCipherV3 pref = (c, 0, []) \<and> isSupportedCipherV3 c \<and>
      (\<exists>pre post. pref = pre @ c # post \<and> list_all (\<lambda>x. \<not> isSupportedCipherV3 x) pre)) \<or>
   (\<exists>msg. NegotiateCipherV3 pref = (0, v3RejectUnsupportedCipher, msg) \<and>
      list_all (\<lambda>x. \<not> isSupportedCipherV3 x) pref)"
proof (cases "find isSupportedCipherV3 pref")
  case None
  then have "list_all (\<lambda>x. \<not> isSupportedCipherV3 x) pref"
    by (simp add: find_None_iff list_all_iff)
  with None show ?thesis
    by (simp add: NegotiateCipherV3_def NegotiateCipherLoop_find)
next
  case (Some c)
  then obtain n where "n < length pref" "isSupportedCipherV3 (pref ! n)" "c = pref ! n"
    "\<forall>j<n. \<not> isSupportedCipherV3 (pref ! j)"
    by (auto simp: find_Some_iff)
  then have "pref = take n pref @ c # drop (Suc n) pref \<and>
      list_all (\<lambda>x. \<not> isSupportedCipherV3 x) (take n pref) \<and> isSupportedCipherV3 c"
    by (auto simp: id_take_nth_drop list_all_length)
  then show ?thesis
    using Some by (auto simp: NegotiateCipherV3_def NegotiateCipherLoop_find)
qed

text \<open>
  The v3 key schedule: seed derivation succeeds exactly on a non-empty token, a
  32-byte transcript hash and a 32-byte shared secret that is not all zero, and gives a
  32-byte seed with 4-byte nonce prefixes. From such a seed a stream key of the cipher's
  length exists for each supported cipher, and the derivation labels are pairwise distinct
  for distinct cipher, direction, stream and generation, and distinct from the nonce labels.
\<close>

lemma v3_key_schedule:
  assumes "hkdf_total C"
  shows "((\<exists>k. DeriveV3SessionSeed C token h shared = Inr k) \<longleftrightarrow>
       token \<noteq> [] \<and> length h = 32 \<and> length shared = 32 \<and> (\<exists>x\<in>set shared. x \<noteq> 0)) \<and>
     (\<forall>k. DeriveV3SessionSeed C token h shared = Inr k \<longrightarrow>
        length (Seed k) = 32 \<and> length (C2SNoncePrefix k) = 4 \<and> length (S2CNoncePrefix k) = 4 \<and>
        (\<forall>c d s g. if isSupportedCipherV3 c
           then \<exists>key. StreamKey C k c d s g = Inr key \<and> length key = V3CipherKeyLen c
           else \<exists>e. StreamKey C k c d s g = Inl e)) \<and>
     (streamKeyInfo c1 d1 s1 g1 = streamKeyInfo c2 d2 s2 g2 \<longleftrightarrow> c1 = c2 \<and> d1 = d2 \<and> s1 = s2 \<and> g1 = g2) \<and>
     streamKeyInfo c1 d1 s1 g1 \<notin> {bytes_of ''xtunnel-v3 c2s nonce'', bytes_of ''xtunnel-v3 s2c nonce''}"
proof (intro conjI)
  show derive: "(\<exists>k. DeriveV3SessionSeed C token h shared = Inr k) \<longleftrightarrow>
      token \<noteq> [] \<and> length h = 32 \<and> length shared = 32 \<and> (\<exists>x\<in>set shared. x \<noteq> 0)"
  proof
    assume "\<exists>k. DeriveV3SessionSeed C token h shared = Inr k"
    then show "token \<noteq> [] \<and> length h = 32 \<and> length shared = 32 \<and> (\<exists>x\<in>set shared. x \<noteq> 0)"
      by (auto simp: DeriveV3SessionSeed_def isZeroBytesV3_iff split: if_splits)
  qed (use DeriveV3SessionSeed_ok [OF assms, unfolded isZeroBytesV3_iff] in blast)
  show "\<forall>k. DeriveV3SessionSeed C token h shared = Inr k \<longrightarrow>
        length (Seed k) = 32 \<and> length (C2SNoncePrefix k) = 4 \<and> length (S2CNoncePrefix k) = 4 \<and>
        (\<forall>c d s g. if isSupportedCipherV3 c
           then \<exists>key. StreamKey C k c d s g = Inr key \<and> length key = V3CipherKeyLen c
           else \<exists>e. StreamKey C k c d s g = Inl e)"
  proof (intro allI impI)
    fix k assume k: "DeriveV3SessionSeed C token h shared = Inr k"
    then have "token \<noteq> [] \<and> length h = 32 \<and> length shared = 32 \<and> \<not> isZeroBytesV3 shared"
      using derive by (auto simp: isZeroBytesV3_iff)
    then have l: "length (Seed k) = 32 \<and> length (C2SNoncePrefix k) = 4 \<and> length (S2CNoncePrefix k) = 4"
      using DeriveV3SessionSeed_ok [OF assms, of token h shared] k by auto
    moreover have "\<exists>key. StreamKey C k c d s g = Inr key \<and> length key = V3CipherKeyLen c"
      if "isSupportedCipherV3 c" for c d s g
      using l that assms V3CipherKeyLen_pos [of c] V3CipherKeyLen_le [of c]
      by (simp add: StreamKey_def hkdf_total_def)
    moreover have "\<exists>e. StreamKey C k c d s g = Inl e" if "\<not> isSupportedCipherV3 c" for c d s g
      using that V3CipherKeyLen_pos [of c] by (simp add: StreamKey_def)
    ultimately show "length (Seed k) = 32 \<and> length (C2SNoncePrefix k) = 4 \<and> length (S2CNoncePrefix k) = 4 \<and>
        (\<forall>c d s g. if isSupportedCipherV3 c
           then \<exists>key. StreamKey C k c d s g = Inr key \<and> length key = V3CipherKeyLen c
           else \<exists>e. StreamKey C k c d s g = Inl e)"
      by simp
  qed
  show "streamKeyInfo c1 d1 s1 g1 = streamKeyInfo c2 d2 s2 g2 \<longleftrightarrow> c1 = c2 \<and> d1 = d2 \<and> s1 = s2 \<and> g1 = g2"
    by (auto simp: streamKeyInfo_layout split: if_splits)
  have "length (streamKeyInfo c1 d1 s1 g1) = 31" by (simp add: streamKeyInfo_layout)
  moreover have "length (bytes_of ''xtunnel-v3 c2s nonce'') = 20" "length (bytes_of ''xtunnel-v3 s2c nonce'') = 20"
    by simp_all
  ultimately show "streamKeyInfo c1 d1 s1 g1 \<notin> {bytes_of ''xtunnel-v3 c2s nonce'', bytes_of ''xtunnel-v3 s2c nonce''}"
    by auto
qed

theorem v3_key_schedule_witness:
  "\<exists>k. DeriveV3SessionSeed plain_crypto ''tok'' (replicate 32 1) (replicate 32 2) = Inr k"
  using v3_key_schedule [OF plain_crypto_laws(2), of "''tok''" "replicate 32 1" "replicate 32 2" 1 True 1 0 1 True 1 0]
  by simp

end
