(* ===== verification/Replay_Window.thy ===== *)
theory Replay_Window
  imports Prelude
begin

text \<open>
  The replay window of \<open>internal/wire/cipher_stream.go\<close>: a 2048-bit ring of accepted record
  counters. The loop that clears the bits between the old and the new maximum runs on
  wrapping 64-bit counters and is a \<open>partial_function\<close> in the option monad, so that a run
  that does not return is the value \<open>None\<close>. The window is shown to implement an abstract
  set of accepted counters.
\<close>

section \<open>The window\<close>

definition replayWindowSize :: u64 where "replayWindowSize = 2048"
definition replayWindowWords :: nat where "replayWindowWords = 32"

record replayWindow =
  maxSeq :: u64
  bitmap :: "u64 list"

definition newReplayWindow :: replayWindow where
  "newReplayWindow = \<lparr>maxSeq = 0, bitmap = replicate replayWindowWords 0\<rparr>"

definition bitmapTest :: "u64 list \<Rightarrow> u64 \<Rightarrow> bool" where
  "bitmapTest bm idx \<longleftrightarrow>
     (bm ! unat (idx div 64)) AND push_bit (unat (idx mod 64)) 1 \<noteq> 0"

definition bitmapSet :: "u64 list \<Rightarrow> u64 \<Rightarrow> u64 list" where
  "bitmapSet bm idx =
    (let wordIdx = unat (idx div 64) in
     bm[wordIdx := bm ! wordIdx OR push_bit (unat (idx mod 64)) 1])"

definition bitmapClear :: "u64 list \<Rightarrow> u64 \<Rightarrow> u64 list" where
  "bitmapClear bm idx =
    (let wordIdx = unat (idx div 64) in
     bm[wordIdx := bm ! wordIdx AND NOT (push_bit (unat (idx mod 64)) 1)])"

partial_function (option) clearLoop :: "u64 \<Rightarrow> u64 \<Rightarrow> u64 list \<Rightarrow> u64 list option" where
  "clearLoop s seq bm =
    (if s \<le> seq then clearLoop (s + 1) seq (bitmapClear bm ((s - 1) mod replayWindowSize))
     else Some bm)"

definition checkAndAdd :: "replayWindow \<Rightarrow> u64 \<Rightarrow> (bool \<times> replayWindow) option" where
  "checkAndAdd w seq =
    (if seq = 0 then Some (False, w)
     else if seq > maxSeq w then
       (let diff = seq - maxSeq w in
        case (if diff \<ge> replayWindowSize then Some (map (\<lambda>_. 0) (bitmap w))
              else clearLoop (maxSeq w + 1) seq (bitmap w)) of
          None \<Rightarrow> None
        | Some bm \<Rightarrow>
            Some (True, \<lparr>maxSeq = seq, bitmap = bitmapSet bm ((seq - 1) mod replayWindowSize)\<rparr>))
     else if maxSeq w - seq \<ge> replayWindowSize then Some (False, w)
     else
       (let idx = (seq - 1) mod replayWindowSize in
        if bitmapTest (bitmap w) idx then Some (False, w)
        else Some (True, w\<lparr>bitmap := bitmapSet (bitmap w) idx\<rparr>)))"

text \<open>A sequence of calls, with the verdict of each.\<close>

fun checkAll :: "replayWindow \<Rightarrow> u64 list \<Rightarrow> (bool list \<times> replayWindow) option" where
  "checkAll w [] = Some ([], w)"
| "checkAll w (q # qs) =
    (case checkAndAdd w q of
       None \<Rightarrow> None
     | Some (b, w') \<Rightarrow>
         (case checkAll w' qs of None \<Rightarrow> None | Some (bs, w'') \<Rightarrow> Some (b # bs, w'')))"

section \<open>The abstract window\<close>

text \<open>
  The specification keeps the set of all accepted counters. A counter is accepted when it
  is positive, new, and less than 2048 behind the largest one accepted.
\<close>

definition spec_accepts :: "nat set \<Rightarrow> nat \<Rightarrow> bool" where
  "spec_accepts S q \<longleftrightarrow> 0 < q \<and> q \<notin> S \<and> Max (insert 0 S) < q + 2048"

fun spec_run :: "nat set \<Rightarrow> nat list \<Rightarrow> bool list" where
  "spec_run S [] = []"
| "spec_run S (q # qs) =
    spec_accepts S q # spec_run (if spec_accepts S q then insert q S else S) qs"

section \<open>Bits of the ring\<close>

definition ring_bit :: "u64 list \<Rightarrow> nat \<Rightarrow> bool" where
  "ring_bit bm i \<longleftrightarrow> bit (bm ! (i div 64)) (i mod 64)"

lemma unat_ring_index:
  "s \<noteq> 0 \<Longrightarrow> unat ((s - 1) mod replayWindowSize) = (unat s - 1) mod 2048"
  by (simp add: replayWindowSize_def unat_mod_distrib unat_minus_one)

lemma unat_div_mod: "unat (idx div 64 :: u64) = unat idx div 64" "unat (idx mod 64 :: u64) = unat idx mod 64"
  by (simp_all add: unat_div_distrib unat_mod_distrib)

lemma bitmapTest_ring: "bitmapTest bm idx \<longleftrightarrow> ring_bit bm (unat idx)"
proof -
  have "w AND push_bit n 1 \<noteq> 0 \<longleftrightarrow> bit w n" if "n < 64" for w :: u64 and n
    using that by (metis bit_iff_and_push_bit_not_eq_0)
  then show ?thesis by (simp add: bitmapTest_def ring_bit_def unat_div_mod)
qed

lemma ring_bit_set:
  assumes "length bm = 32" "unat idx < 2048" "j < 2048"
  shows "ring_bit (bitmapSet bm idx) j \<longleftrightarrow> j = unat idx \<or> ring_bit bm j"
proof -
  have "j = unat idx \<longleftrightarrow> j div 64 = unat idx div 64 \<and> j mod 64 = unat idx mod 64"
    by (metis div_mult_mod_eq)
  then show ?thesis
    using assms by (auto simp: bitmapSet_def ring_bit_def unat_div_mod Let_def nth_list_update bit_simps)
qed

lemma ring_bit_clear:
  assumes "length bm = 32" "unat idx < 2048" "j < 2048"
  shows "ring_bit (bitmapClear bm idx) j \<longleftrightarrow> j \<noteq> unat idx \<and> ring_bit bm j"
proof -
  have "j = unat idx \<longleftrightarrow> j div 64 = unat idx div 64 \<and> j mod 64 = unat idx mod 64"
    by (metis div_mult_mod_eq)
  then show ?thesis
    using assms by (auto simp: bitmapClear_def ring_bit_def unat_div_mod Let_def nth_list_update bit_simps)
qed

lemma length_bitmap_ops [simp]:
  "length (bitmapSet bm i) = length bm" "length (bitmapClear bm i) = length bm"
  by (simp_all add: bitmapSet_def bitmapClear_def Let_def)

lemma ring_inj:
  fixes s t :: nat
  assumes "0 < s" "0 < t" "s < t + 2048" "t < s + 2048"
  shows "(s - 1) mod 2048 = (t - 1) mod 2048 \<longleftrightarrow> s = t"
proof
  assume eq: "(s - 1) mod 2048 = (t - 1) mod 2048"
  show "s = t"
  proof (rule ccontr)
    assume "s \<noteq> t"
    moreover have "(s - t) mod 2048 = 0" if "t \<le> s"
      using that eq assms mod_eq_dvd_iff_nat [of "t - 1" "s - 1" 2048] by simp
    moreover have "(t - s) mod 2048 = 0" if "s \<le> t"
      using that eq assms mod_eq_dvd_iff_nat [of "s - 1" "t - 1" 2048] by simp
    ultimately show False using assms by (cases "s \<le> t") auto
  qed
qed simp

lemma ring_bit_zero: "length bm = 32 \<Longrightarrow> j < 2048 \<Longrightarrow> \<not> ring_bit (map (\<lambda>_. 0) bm) j"
  by (simp add: ring_bit_def)

section \<open>The clearing loop\<close>

lemma interval_step:
  assumes "a \<le> (b :: nat)"
  shows "(\<forall>t. a \<le> t \<and> t \<le> b \<longrightarrow> P t) \<longleftrightarrow> P a \<and> (\<forall>t. a + 1 \<le> t \<and> t \<le> b \<longrightarrow> P t)"
proof -
  have "(\<forall>t\<in>{a..b}. P t) \<longleftrightarrow> P a \<and> (\<forall>t\<in>{Suc a..b}. P t)"
    unfolding atLeastAtMost_insertL [OF assms, symmetric] by simp
  then show ?thesis by (simp add: Ball_def)
qed

lemma clearLoop_returns:
  assumes "unat seq + 1 < 2 ^ 64" "s \<noteq> 0" "unat s \<le> unat seq + 1" "length bm = 32"
  shows "\<exists>bm'. clearLoop s seq bm = Some bm' \<and> length bm' = 32 \<and>
    (\<forall>j<2048. ring_bit bm' j \<longleftrightarrow>
       ring_bit bm j \<and> (\<forall>t. unat s \<le> t \<and> t \<le> unat seq \<longrightarrow> (t - 1) mod 2048 \<noteq> j))"
  using assms
proof (induction "unat seq + 1 - unat s" arbitrary: s bm)
  case 0
  then have "\<not> s \<le> seq" by (simp add: word_le_nat_alt)
  with 0 show ?case by (subst clearLoop.simps) auto
next
  case (Suc d)
  then have le: "unat s \<le> unat seq" by simp
  let ?c = "bitmapClear bm ((s - 1) mod replayWindowSize)"
  have "unat s + 1 < 2 ^ 64" using le Suc.prems(1) by simp
  then have s1: "unat (s + 1) = unat s + 1" by (simp add: unat_word_ariths)
  have nz: "s + 1 \<noteq> 0" using s1 by auto
  obtain bm' where rec: "clearLoop (s + 1) seq ?c = Some bm'" "length bm' = 32"
    and bits: "\<forall>j<2048. ring_bit bm' j \<longleftrightarrow>
       ring_bit ?c j \<and> (\<forall>t. unat (s + 1) \<le> t \<and> t \<le> unat seq \<longrightarrow> (t - 1) mod 2048 \<noteq> j)"
  proof -
    have "d = unat seq + 1 - unat (s + 1)" "unat (s + 1) \<le> unat seq + 1" "length ?c = 32"
      using Suc.hyps(2) Suc.prems(4) le s1 by simp_all
    then show ?thesis using Suc.hyps(1) [of "s + 1" ?c] Suc.prems(1) nz that by blast
  qed
  have c: "ring_bit ?c j \<longleftrightarrow> j \<noteq> (unat s - 1) mod 2048 \<and> ring_bit bm j" if "j < 2048" for j
    using ring_bit_clear [OF Suc.prems(4) _ that, of "(s - 1) mod replayWindowSize"]
    by (simp add: unat_ring_index [OF Suc.prems(2)])
  have "s \<le> seq" using le by (simp add: word_le_nat_alt)
  then have "clearLoop s seq bm = Some bm'"
    using rec(1) by (subst clearLoop.simps) (simp only: if_True)
  moreover have "\<forall>j<2048. ring_bit bm' j \<longleftrightarrow>
       ring_bit bm j \<and> (\<forall>t. unat s \<le> t \<and> t \<le> unat seq \<longrightarrow> (t - 1) mod 2048 \<noteq> j)"
    unfolding interval_step [OF le] using bits c s1 by auto
  ultimately show ?case using rec(2) by blast
qed

lemma clearLoop_Some: "clearLoop s seq bm = Some y \<Longrightarrow> seq \<noteq> - 1"
  by (erule clearLoop.raw_induct [rotated]) (auto split: if_splits)

lemma clearLoop_max_diverges: "clearLoop s (- 1) bm = None"
  using clearLoop_Some by (cases "clearLoop s (- 1) bm") auto

section \<open>Refinement\<close>

definition window_rel :: "replayWindow \<Rightarrow> nat set \<Rightarrow> bool" where
  "window_rel w S \<longleftrightarrow>
    length (bitmap w) = 32 \<and> finite S \<and> 0 \<notin> S \<and> unat (maxSeq w) = Max (insert 0 S) \<and>
    (\<forall>s. 0 < s \<and> s \<le> unat (maxSeq w) \<and> unat (maxSeq w) < s + 2048 \<longrightarrow>
       (ring_bit (bitmap w) ((s - 1) mod 2048) \<longleftrightarrow> s \<in> S))"

lemma window_rel_new: "window_rel newReplayWindow {}"
  by (simp add: window_rel_def newReplayWindow_def replayWindowWords_def)

lemma window_rel_le: "window_rel w S \<Longrightarrow> s \<in> S \<Longrightarrow> s \<le> unat (maxSeq w)"
  by (simp add: window_rel_def)

lemma window_rel_bit:
  "window_rel w S \<Longrightarrow> 0 < s \<Longrightarrow> s \<le> unat (maxSeq w) \<Longrightarrow> unat (maxSeq w) < s + 2048 \<Longrightarrow>
   ring_bit (bitmap w) ((s - 1) mod 2048) \<longleftrightarrow> s \<in> S"
  by (simp add: window_rel_def)

lemma ring_bit_set_seq:
  assumes "length bm = 32" "q \<noteq> 0" "0 < s" "s < unat q + 2048" "unat q < s + 2048"
  shows "ring_bit (bitmapSet bm ((q - 1) mod replayWindowSize)) ((s - 1) mod 2048) \<longleftrightarrow>
    s = unat q \<or> ring_bit bm ((s - 1) mod 2048)"
  using assms ring_inj [of s "unat q"]
  by (subst ring_bit_set) (auto simp: unat_ring_index unat_gt_0)

text \<open>Moving the maximum forward: the ring after clearing and setting the new bit.\<close>

lemma window_rel_advance:
  assumes rel: "window_rel w S" and q: "maxSeq w < q"
    and bm: "length bm = 32"
    and old: "\<And>s. 0 < s \<Longrightarrow> s < unat q \<Longrightarrow> unat q < s + 2048 \<Longrightarrow>
      ring_bit bm ((s - 1) mod 2048) \<longleftrightarrow> s \<in> S"
  shows "window_rel \<lparr>maxSeq = q, bitmap = bitmapSet bm ((q - 1) mod replayWindowSize)\<rparr> (insert (unat q) S)"
proof -
  have q0: "q \<noteq> 0" using q by auto
  have mx: "unat (maxSeq w) < unat q" using q by (simp add: word_less_nat_alt)
  have "Max (insert 0 (insert (unat q) S)) = unat q"
    using rel mx window_rel_le [OF rel] by (intro Max_eqI) (auto simp: window_rel_def intro: less_imp_le le_less_trans)
  moreover have "ring_bit (bitmapSet bm ((q - 1) mod replayWindowSize)) ((s - 1) mod 2048) \<longleftrightarrow>
      s = unat q \<or> s \<in> S" if "0 < s" "s \<le> unat q" "unat q < s + 2048" for s
    using ring_bit_set_seq [OF bm q0, of s] that old [of s] by (cases "s = unat q") auto
  ultimately show ?thesis
    using rel bm q0 by (auto simp: window_rel_def unat_eq_zero)
qed

lemma cleared_above:
  assumes "0 < s" "s < n" "n < s + 2048" "m < n"
  shows "(\<forall>t. m + 1 \<le> t \<and> t \<le> n \<longrightarrow> (t - 1) mod 2048 \<noteq> (s - 1) mod 2048) \<longleftrightarrow> s \<le> (m :: nat)"
proof
  assume "\<forall>t. m + 1 \<le> t \<and> t \<le> n \<longrightarrow> (t - 1) mod 2048 \<noteq> (s - 1) mod 2048"
  then show "s \<le> m" using assms by (metis Suc_eq_plus1 less_imp_le not_less_eq_eq)
next
  assume le: "s \<le> m"
  show "\<forall>t. m + 1 \<le> t \<and> t \<le> n \<longrightarrow> (t - 1) mod 2048 \<noteq> (s - 1) mod 2048"
  proof (intro allI impI)
    fix t assume "m + 1 \<le> t \<and> t \<le> n"
    then show "(t - 1) mod 2048 \<noteq> (s - 1) mod 2048"
      using ring_inj [of t s] assms le by simp
  qed
qed

lemma clearLoop_window:
  assumes rel: "window_rel w S" and lt: "maxSeq w < q" and q: "unat q + 1 < 2 ^ 64"
  shows "\<exists>bm. clearLoop (maxSeq w + 1) q (bitmap w) = Some bm \<and> length bm = 32 \<and>
    (\<forall>s. 0 < s \<and> s < unat q \<and> unat q < s + 2048 \<longrightarrow> (ring_bit bm ((s - 1) mod 2048) \<longleftrightarrow> s \<in> S))"
proof -
  have lt': "unat (maxSeq w) < unat q" using lt by (simp add: word_less_nat_alt)
  then have "unat (maxSeq w) + 1 < 2 ^ 64" using q by simp
  then have s1: "unat (maxSeq w + 1) = unat (maxSeq w) + 1" by (simp add: unat_word_ariths)
  have "maxSeq w + 1 \<noteq> 0" using s1 by auto
  then obtain bm where bm: "clearLoop (maxSeq w + 1) q (bitmap w) = Some bm" "length bm = 32"
    and bits: "\<forall>j<2048. ring_bit bm j \<longleftrightarrow> ring_bit (bitmap w) j \<and>
       (\<forall>t. unat (maxSeq w + 1) \<le> t \<and> t \<le> unat q \<longrightarrow> (t - 1) mod 2048 \<noteq> j)"
    using clearLoop_returns [OF q, of "maxSeq w + 1" "bitmap w"] s1 lt' rel by (auto simp: window_rel_def)
  have "ring_bit bm ((s - 1) mod 2048) \<longleftrightarrow> s \<in> S" if s: "0 < s" "s < unat q" "unat q < s + 2048" for s
  proof -
    have "ring_bit bm ((s - 1) mod 2048) \<longleftrightarrow>
        ring_bit (bitmap w) ((s - 1) mod 2048) \<and> s \<le> unat (maxSeq w)"
      using bits [rule_format, of "(s - 1) mod 2048"] unfolding s1 cleared_above [OF s lt'] by simp
    moreover have "ring_bit (bitmap w) ((s - 1) mod 2048) \<longleftrightarrow> s \<in> S" if "s \<le> unat (maxSeq w)"
      using s(3) lt' by (intro window_rel_bit [OF rel s(1) that]) linarith
    ultimately show ?thesis using window_rel_le [OF rel, of s] by blast
  qed
  with bm show ?thesis by blast
qed

lemma checkAndAdd_ahead:
  assumes rel: "window_rel w S" and lt: "maxSeq w < q" and q: "unat q + 1 < 2 ^ 64"
  shows "\<exists>w'. checkAndAdd w q = Some (True, w') \<and> window_rel w' (insert (unat q) S)"
proof -
  have lt': "unat (maxSeq w) < unat q" using lt by (simp add: word_less_nat_alt)
  have len: "length (bitmap w) = 32" using rel by (simp add: window_rel_def)
  obtain bm where bm: "(if q - maxSeq w \<ge> replayWindowSize then Some (map (\<lambda>_. 0) (bitmap w))
      else clearLoop (maxSeq w + 1) q (bitmap w)) = Some bm" "length bm = 32"
    and old: "\<And>s. 0 < s \<Longrightarrow> s < unat q \<Longrightarrow> unat q < s + 2048 \<Longrightarrow>
      ring_bit bm ((s - 1) mod 2048) \<longleftrightarrow> s \<in> S"
  proof (cases "q - maxSeq w \<ge> replayWindowSize")
    case True
    then have far: "unat (maxSeq w) + 2048 \<le> unat q"
      using lt' by (simp add: word_le_nat_alt replayWindowSize_def unat_sub)
    show ?thesis
    proof (rule that)
      fix s :: nat assume "0 < s" "s < unat q" "unat q < s + 2048"
      then have "s \<notin> S" using far window_rel_le [OF rel, of s] by auto
      then show "ring_bit (map (\<lambda>_. 0) (bitmap w)) ((s - 1) mod 2048) \<longleftrightarrow> s \<in> S"
        using ring_bit_zero [OF len] by simp
    qed (use True len in simp_all)
  next
    case False
    then show ?thesis using clearLoop_window [OF assms] that by auto
  qed
  moreover have "q \<noteq> 0" using lt by auto
  ultimately show ?thesis
    using lt window_rel_advance [OF rel lt bm(2) old] by (simp add: checkAndAdd_def Let_def)
qed

lemma checkAndAdd_inside:
  assumes rel: "window_rel w S" and q: "q \<noteq> 0" "q \<le> maxSeq w" "unat (maxSeq w) - unat q < 2048"
  shows "\<exists>w'. checkAndAdd w q = Some (unat q \<notin> S, w') \<and> window_rel w' (insert (unat q) S)"
proof -
  have len: "length (bitmap w) = 32" and fin: "finite S" "0 \<notin> S"
    and mx: "unat (maxSeq w) = Max (insert 0 S)"
    using rel by (simp_all add: window_rel_def)
  have near: "\<not> maxSeq w - q \<ge> replayWindowSize"
    using q by (simp add: unat_sub word_le_nat_alt replayWindowSize_def)
  have le: "unat q \<le> unat (maxSeq w)" "0 < unat q" "unat (maxSeq w) < unat q + 2048"
    using q by (simp_all add: word_le_nat_alt unat_gt_0)
  have test: "bitmapTest (bitmap w) ((q - 1) mod replayWindowSize) \<longleftrightarrow> unat q \<in> S"
    using window_rel_bit [OF rel le(2,1,3)] by (simp add: bitmapTest_ring unat_ring_index [OF q(1)])
  have "Max (insert 0 (insert (unat q) S)) = Max (insert 0 S)"
    using le mx fin by (simp add: insert_commute [of 0] max_def)
  moreover have "ring_bit (bitmapSet (bitmap w) ((q - 1) mod replayWindowSize)) ((s - 1) mod 2048) \<longleftrightarrow>
      s \<in> insert (unat q) S"
    if "0 < s" "s \<le> unat (maxSeq w)" "unat (maxSeq w) < s + 2048" for s
    using ring_bit_set_seq [OF len q(1), of s] window_rel_bit [OF rel that] that le by simp
  ultimately have "window_rel (w\<lparr>bitmap := bitmapSet (bitmap w) ((q - 1) mod replayWindowSize)\<rparr>) (insert (unat q) S)"
    using rel le by (simp add: window_rel_def)
  then show ?thesis
    using q near test rel by (auto simp: checkAndAdd_def Let_def not_less insert_absorb)
qed

lemma checkAndAdd_refines:
  assumes rel: "window_rel w S" and q: "unat q + 1 < 2 ^ 64"
  shows "\<exists>w'. checkAndAdd w q = Some (spec_accepts S (unat q), w') \<and>
    window_rel w' (if spec_accepts S (unat q) then insert (unat q) S else S)"
proof -
  have mx: "unat (maxSeq w) = Max (insert 0 S)" using rel by (simp add: window_rel_def)
  consider (zero) "q = 0" | (ahead) "maxSeq w < q"
    | (behind) "q \<noteq> 0" "q \<le> maxSeq w" "2048 \<le> unat (maxSeq w) - unat q"
    | (inside) "q \<noteq> 0" "q \<le> maxSeq w" "unat (maxSeq w) - unat q < 2048"
    by force
  then show ?thesis
  proof cases
    case zero
    with rel show ?thesis by (simp add: checkAndAdd_def spec_accepts_def)
  next
    case ahead
    then have lt: "unat (maxSeq w) < unat q" by (simp add: word_less_nat_alt)
    then have "spec_accepts S (unat q)"
      using mx window_rel_le [OF rel, of "unat q"] by (auto simp: spec_accepts_def)
    with checkAndAdd_ahead [OF rel ahead q] show ?thesis by simp
  next
    case behind
    then have far: "maxSeq w - q \<ge> replayWindowSize" "\<not> maxSeq w < q"
      by (simp_all add: unat_sub word_le_nat_alt replayWindowSize_def not_less)
    have "\<not> spec_accepts S (unat q)"
      using behind(3) mx unfolding spec_accepts_def by linarith
    then show ?thesis
      using behind rel far by (simp add: checkAndAdd_def)
  next
    case inside
    have "spec_accepts S (unat q) \<longleftrightarrow> unat q \<notin> S"
      using inside mx unfolding spec_accepts_def word_le_nat_alt by (auto simp: unat_gt_0)
    with checkAndAdd_inside [OF rel inside] show ?thesis by (auto simp: insert_absorb)
  qed
qed

section \<open>Sequences of calls\<close>

lemma checkAll_refines:
  "window_rel w S \<Longrightarrow> list_all (\<lambda>q. unat q + 1 < 2 ^ 64) qs \<Longrightarrow>
   \<exists>w'. checkAll w qs = Some (spec_run S (map unat qs), w')"
proof (induction qs arbitrary: w S)
  case Nil
  then show ?case by simp
next
  case (Cons q qs)
  obtain w1 where c: "checkAndAdd w q = Some (spec_accepts S (unat q), w1)"
    and r: "window_rel w1 (if spec_accepts S (unat q) then insert (unat q) S else S)"
    using checkAndAdd_refines [OF Cons.prems(1)] Cons.prems(2) by (auto simp del: One_nat_def)
  obtain w' where "checkAll w1 qs =
      Some (spec_run (if spec_accepts S (unat q) then insert (unat q) S else S) (map unat qs), w')"
    using Cons.IH [OF r] Cons.prems(2) by auto
  with c show ?case by simp
qed

text \<open>The calls of a run that were answered with acceptance.\<close>

definition accepted :: "'a list \<Rightarrow> bool list \<Rightarrow> 'a list" where
  "accepted qs bs = map fst (filter snd (zip qs bs))"

lemma accepted_simps [simp]:
  "accepted [] bs = []" "accepted (q # qs) (b # bs) = (if b then q # accepted qs bs else accepted qs bs)"
  by (simp_all add: accepted_def)

lemma spec_run_distinct:
  "distinct (accepted qs (spec_run S qs)) \<and> set (accepted qs (spec_run S qs)) \<inter> S = {} \<and>
   0 \<notin> set (accepted qs (spec_run S qs))"
proof (induction qs arbitrary: S)
  case Nil
  then show ?case by simp
next
  case (Cons q qs)
  show ?case
    using Cons.IH [of S] Cons.IH [of "insert q S"] by (auto simp: spec_accepts_def)
qed

lemma accepted_map: "accepted (map f qs) bs = map f (accepted qs bs)"
  unfolding accepted_def zip_map1 filter_map map_map by (simp add: o_def case_prod_unfold)

section \<open>Properties\<close>

text \<open>
  C4. Replay protection: for every sequence of record counters below the largest 64-bit
  value, a fresh window answers every call, its verdicts are those of the abstract window
  (accept exactly the positive counters that are new and less than 2048 behind the largest
  accepted one), and therefore no counter is accepted twice.
\<close>

lemma replay_window_correct:
  assumes "list_all (\<lambda>q. q \<noteq> - 1) qs"
  shows "\<exists>bs w. checkAll newReplayWindow qs = Some (bs, w) \<and>
    bs = spec_run {} (map unat qs) \<and> distinct (accepted qs bs)"
proof -
  have "list_all (\<lambda>q. unat q + 1 < 2 ^ 64) qs" using assms u64_below_max by (auto simp: list_all_iff simp del: One_nat_def)
  then obtain w where w: "checkAll newReplayWindow qs = Some (spec_run {} (map unat qs), w)"
    using checkAll_refines [OF window_rel_new] by blast
  have "distinct (map unat (accepted qs (spec_run {} (map unat qs))))"
    using spec_run_distinct [of "map unat qs" "{}"] by (simp add: accepted_map)
  then have "distinct (accepted qs (spec_run {} (map unat qs)))" by (simp add: distinct_map)
  with w show ?thesis by blast
qed

theorem replay_window_correct_witness:
  "\<exists>bs w. checkAll newReplayWindow [1, 3, 1, 3000, 2] = Some (bs, w) \<and>
    bs = [True, True, False, True, False] \<and> distinct (accepted [1, 3, 1, 3000, 2 :: u64] bs)"
proof -
  have "spec_run {} (map unat [1, 3, 1, 3000, 2 :: u64]) = [True, True, False, True, False]"
    by (simp add: spec_accepts_def)
  then show ?thesis
    using replay_window_correct [of "[1, 3, 1, 3000, 2]"] by (simp del: checkAll.simps spec_run.simps)
qed

text \<open>
  C37. The clearing loop does not return when the counter is the largest 64-bit value and
  less than 2048 ahead of the window: the loop condition is then always true, so the call
  that checks a record with that counter never ends.
\<close>

lemma checkAndAdd_max_diverges:
  assumes "maxSeq w < - 1" and "- 1 - maxSeq w < replayWindowSize"
  shows "checkAndAdd w (- 1) = None"
  using assms by (simp add: checkAndAdd_def clearLoop_max_diverges not_le)

theorem checkAndAdd_max_diverges_witness:
  "checkAndAdd (newReplayWindow\<lparr>maxSeq := - 2\<rparr>) (- 1) = None"
  by (rule checkAndAdd_max_diverges) (simp_all add: newReplayWindow_def replayWindowSize_def)

end
