(* ===== verification/Cipher_Stream.thy ===== *)
theory Cipher_Stream
  imports Wire_V3 Replay_Window
begin

text \<open>
  \<open>V3CipherStream\<close> of \<open>internal/wire/cipher_stream.go\<close>: the AEAD record layer with rekeying,
  random padding and write coalescing. The struct is one record; the inner stream is a
  writer state and a reader. The random numbers a record draws are an argument, indexed
  by the record counter, and what \<open>crypto/rand\<close> promises of them is the predicate
  \<open>rand_ok\<close>. \<open>Read\<close> is a value of option type because the replay window may fail to return.
  The buffers that the code reuses between calls to save allocations are not state here:
  every call overwrites the part it reads.
\<close>

section \<open>State\<close>

definition defaultRekeyInterval :: u64 where "defaultRekeyInterval = push_bit 32 1"
definition maxV3RecordPayload :: nat where "maxV3RecordPayload = 1400"
definition coalesceFlushThreshold :: nat where "coalesceFlushThreshold = 1024"
definition v3RecordHeaderSize :: nat where "v3RecordHeaderSize = 12"
definition v3PlainLenSize :: nat where "v3PlainLenSize = 2"
definition maxV3RecordPlaintext :: nat where "maxV3RecordPlaintext = maxV3RecordPayload - v3PlainLenSize"

lemmas record_sizes = maxV3RecordPayload_def v3RecordHeaderSize_def v3PlainLenSize_def
  maxV3RecordPlaintext_def coalesceFlushThreshold_def

record 'w V3CipherStream =
  innerW :: 'w
  innerR :: reader
  keys :: V3SessionKeys
  cipherID :: byte
  streamID :: u32
  RekeyInterval :: u64
  PadRecords :: bool
  CoalesceDelay :: duration
  writeCounter :: u64
  writeC2S :: bool
  writeNoncePrefix :: bytes
  writeAEAD :: "bytes option"
  writeGen :: u64
  coalesceBuf :: bytes
  coalesceTimer :: bool
  closed :: bool
  readC2S :: bool
  readNoncePrefix :: bytes
  readAEAD :: "bytes option"
  readGen :: u64
  readWindow :: replayWindow
  readPlainBuf :: bytes

text \<open>What one record draws from \<open>crypto/rand\<close>: \<open>rand.Int\<close> below a bound and \<open>rand.Read\<close>.\<close>

record record_rand =
  rand_Int :: "nat \<Rightarrow> nat option"
  rand_Read :: "nat \<Rightarrow> bytes option"

definition rand_ok :: "record_rand \<Rightarrow> bool" where
  "rand_ok R \<longleftrightarrow>
    (\<forall>n k. rand_Int R n = Some k \<longrightarrow> k < n) \<and> (\<forall>n b. rand_Read R n = Some b \<longrightarrow> length b = n)"

definition sampleRecordPadLen :: "record_rand \<Rightarrow> nat \<Rightarrow> nat" where
  "sampleRecordPadLen R maxPad =
    (if maxPad \<le> 0 then 0 else (case rand_Int R (maxPad + 1) of None \<Rightarrow> 0 | Some n \<Rightarrow> n))"

lemma sampleRecordPadLen_le:
  assumes "rand_ok R"
  shows "sampleRecordPadLen R m \<le> m"
proof (cases "rand_Int R (m + 1)")
  case (Some k)
  then have "k < m + 1" using assms by (auto simp: rand_ok_def simp del: One_nat_def)
  with Some show ?thesis by (simp add: sampleRecordPadLen_def)
qed (simp add: sampleRecordPadLen_def)

text \<open>An AEAD instance is its key; the constructors refuse keys of a wrong size.\<close>

definition newAEAD :: "byte \<Rightarrow> bytes \<Rightarrow> bytes result" where
  "newAEAD cid key =
    (if cid = ProtocolCipherChaCha20Poly1305 then
       (if length key = 32 then Inr key else Inl (Errorf ''chacha20poly1305: bad key length''))
     else if cid = ProtocolCipherAES256GCM \<or> cid = ProtocolCipherAES128GCM then
       (if length key \<in> {16, 24, 32} then Inr key else Inl (Errorf ''crypto/aes: invalid key size''))
     else Inl (Errorf ''unsupported cipher''))"

definition NewV3CipherStream ::
  "'w \<Rightarrow> reader \<Rightarrow> V3SessionKeys \<Rightarrow> byte \<Rightarrow> u32 \<Rightarrow> bool \<Rightarrow> 'w V3CipherStream result" where
  "NewV3CipherStream w r ks cid sid clientSide =
    (if \<not> isSupportedCipherV3 cid then Inl (Errorf ''unsupported cipher'')
     else if length (C2SNoncePrefix ks) \<noteq> 4 \<or> length (S2CNoncePrefix ks) \<noteq> 4
     then Inl (Errorf ''invalid nonce prefix in session keys'')
     else
       Inr \<lparr>innerW = w, innerR = r, keys = ks, cipherID = cid, streamID = sid,
            RekeyInterval = defaultRekeyInterval, PadRecords = True, CoalesceDelay = 0,
            writeCounter = 0, writeC2S = clientSide,
            writeNoncePrefix = (if clientSide then C2SNoncePrefix ks else S2CNoncePrefix ks),
            writeAEAD = None, writeGen = 0, coalesceBuf = [], coalesceTimer = False, closed = False,
            readC2S = (\<not> clientSide),
            readNoncePrefix = (if clientSide then S2CNoncePrefix ks else C2SNoncePrefix ks),
            readAEAD = None, readGen = 0, readWindow = newReplayWindow, readPlainBuf = []\<rparr>)"

section \<open>Records\<close>

definition recordGen :: "u64 \<Rightarrow> u64 \<Rightarrow> u64" where
  "recordGen rekey counter =
    (let interval = (if rekey = 0 then defaultRekeyInterval else rekey) in (counter - 1) div interval)"

text \<open>The cached AEAD when its generation is current, else a new one for the generation.\<close>

definition aeadFor ::
  "crypto \<Rightarrow> V3SessionKeys \<Rightarrow> byte \<Rightarrow> bool \<Rightarrow> u32 \<Rightarrow> u64 \<Rightarrow> bytes option \<Rightarrow> u64 \<Rightarrow> bytes result" where
  "aeadFor C ks cid c2s sid gen aead curGen =
    (case aead of
       Some a \<Rightarrow>
         if gen \<noteq> curGen then rbind (StreamKey C ks cid c2s sid gen) (\<lambda>key. newAEAD cid key) else Inr a
     | None \<Rightarrow> rbind (StreamKey C ks cid c2s sid gen) (\<lambda>key. newAEAD cid key))"

definition recordNonce :: "bytes \<Rightarrow> u64 \<Rightarrow> bytes" where
  "recordNonce prefix counter =
    buf_copy 4 12 (put64 counter) (buf_copy 0 4 prefix (replicate 12 0))"

definition recordHeader :: "u64 \<Rightarrow> nat \<Rightarrow> bytes" where
  "recordHeader counter payloadLen =
    put64 counter @ put16 (word_of_nat payloadLen) @ put16 0"

definition recordPayload :: "record_rand \<Rightarrow> bytes \<Rightarrow> nat \<Rightarrow> bytes" where
  "recordPayload R plain padLen =
    put16 (word_of_nat (length plain)) @ plain @
    (if padLen > 0
     then (case rand_Read R padLen of Some b \<Rightarrow> b | None \<Rightarrow> replicate padLen 0)
     else [])"

definition writeRecordLocked ::
  "crypto \<Rightarrow> 'w io_writer \<Rightarrow> (u64 \<Rightarrow> record_rand) \<Rightarrow> 'w V3CipherStream \<Rightarrow> bytes \<Rightarrow>
   go_error option \<times> 'w V3CipherStream" where
  "writeRecordLocked C W R s plain =
    (let plainLen = length plain in
     if plainLen = 0 then (None, s)
     else if plainLen > maxV3RecordPlaintext
     then (Some (Errorf ''plaintext length exceeds maximum record plaintext''), s)
     else if writeCounter s = - 1 then (Some (Errorf ''write counter overflow''), s)
     else
       (let counter = writeCounter s + 1;
            s = s\<lparr>writeCounter := counter\<rparr>;
            gen = recordGen (RekeyInterval s) counter
        in
        case aeadFor C (keys s) (cipherID s) (writeC2S s) (streamID s) gen (writeAEAD s) (writeGen s) of
          Inl e \<Rightarrow> (Some e, s)
        | Inr aead \<Rightarrow>
            (let s = s\<lparr>writeAEAD := Some aead, writeGen := gen\<rparr>;
                 padLen = (if PadRecords s
                   then sampleRecordPadLen (R counter) (maxV3RecordPayload - v3PlainLenSize - plainLen) else 0);
                 payloadLen = v3PlainLenSize + plainLen + padLen;
                 head = recordHeader counter payloadLen;
                 sealed = aead_Seal C (cipherID s) aead (recordNonce (writeNoncePrefix s) counter)
                   (recordPayload (R counter) plain padLen) head
             in
             case io_Write W (innerW s) (head @ sealed) of
               (_, err, w') \<Rightarrow> (err, s\<lparr>innerW := w'\<rparr>))))"

function flushLoop ::
  "crypto \<Rightarrow> 'w io_writer \<Rightarrow> (u64 \<Rightarrow> record_rand) \<Rightarrow> bytes \<Rightarrow> 'w V3CipherStream \<Rightarrow>
   go_error option \<times> 'w V3CipherStream" where
  "flushLoop C W R buf s =
    (if length buf > 0 then
       (let chunkSize = min (length buf) maxV3RecordPlaintext in
        case writeRecordLocked C W R s (take chunkSize buf) of
          (Some e, s') \<Rightarrow> (Some e, s'\<lparr>coalesceBuf := buf\<rparr>)
        | (None, s') \<Rightarrow> flushLoop C W R (drop chunkSize buf) s')
     else (None, s\<lparr>coalesceBuf := []\<rparr>))"
  by pat_completeness auto
termination
  by (relation "measure (\<lambda>(C, W, R, buf, s). length buf)") (auto simp: record_sizes)

declare flushLoop.simps [simp del]

definition flushCoalesceBufLocked ::
  "crypto \<Rightarrow> 'w io_writer \<Rightarrow> (u64 \<Rightarrow> record_rand) \<Rightarrow> 'w V3CipherStream \<Rightarrow>
   go_error option \<times> 'w V3CipherStream" where
  "flushCoalesceBufLocked C W R s = flushLoop C W R (coalesceBuf s) s"

definition onCoalesceTimer ::
  "crypto \<Rightarrow> 'w io_writer \<Rightarrow> (u64 \<Rightarrow> record_rand) \<Rightarrow> 'w V3CipherStream \<Rightarrow> 'w V3CipherStream" where
  "onCoalesceTimer C W R s =
    (if closed s \<or> length (coalesceBuf s) = 0 then s\<lparr>coalesceTimer := False\<rparr>
     else (snd (flushCoalesceBufLocked C W R s))\<lparr>coalesceTimer := False\<rparr>)"

function writeLoop ::
  "crypto \<Rightarrow> 'w io_writer \<Rightarrow> (u64 \<Rightarrow> record_rand) \<Rightarrow> bytes \<Rightarrow> nat \<Rightarrow> 'w V3CipherStream \<Rightarrow>
   (nat \<times> go_error option) \<times> 'w V3CipherStream" where
  "writeLoop C W R p totalWritten s =
    (if length p > 0 then
       (let chunkSize = min (length p) maxV3RecordPlaintext in
        case writeRecordLocked C W R s (take chunkSize p) of
          (Some e, s') \<Rightarrow> ((totalWritten, Some e), s')
        | (None, s') \<Rightarrow> writeLoop C W R (drop chunkSize p) (totalWritten + chunkSize) s')
     else ((totalWritten, None), s))"
  by pat_completeness auto
termination
  by (relation "measure (\<lambda>(C, W, R, p, n, s). length p)") (auto simp: record_sizes)

declare writeLoop.simps [simp del]

function coalesceLoop ::
  "crypto \<Rightarrow> 'w io_writer \<Rightarrow> (u64 \<Rightarrow> record_rand) \<Rightarrow> bytes \<Rightarrow> 'w V3CipherStream \<Rightarrow>
   go_error option \<times> 'w V3CipherStream" where
  "coalesceLoop C W R buf s =
    (if length buf \<ge> coalesceFlushThreshold then
       (let chunkSize = min (length buf) maxV3RecordPlaintext in
        case writeRecordLocked C W R s (take chunkSize buf) of
          (Some e, s') \<Rightarrow> (Some e, s'\<lparr>coalesceBuf := buf\<rparr>)
        | (None, s') \<Rightarrow> coalesceLoop C W R (drop chunkSize buf) s')
     else (None, s\<lparr>coalesceBuf := buf\<rparr>))"
  by pat_completeness auto
termination
  by (relation "measure (\<lambda>(C, W, R, buf, s). length buf)") (auto simp: record_sizes)

declare coalesceLoop.simps [simp del]

definition Write ::
  "crypto \<Rightarrow> 'w io_writer \<Rightarrow> (u64 \<Rightarrow> record_rand) \<Rightarrow> 'w V3CipherStream \<Rightarrow> bytes \<Rightarrow>
   (nat \<times> go_error option) \<times> 'w V3CipherStream" where
  "Write C W R s p =
    (if length p = 0 then ((0, None), s)
     else if closed s then ((0, Some ErrClosedPipe), s)
     else if CoalesceDelay s \<le> 0 then
       (if length (coalesceBuf s) > 0 then
          (case flushCoalesceBufLocked C W R s of
             (Some e, s') \<Rightarrow> ((0, Some e), s')
           | (None, s') \<Rightarrow> writeLoop C W R p 0 s')
        else writeLoop C W R p 0 s)
     else
       (case coalesceLoop C W R (coalesceBuf s @ p) s of
          (Some e, s') \<Rightarrow> ((0, Some e), s')
        | (None, s') \<Rightarrow> ((length p, None), s'\<lparr>coalesceTimer := (coalesceBuf s' \<noteq> [])\<rparr>)))"

definition Close ::
  "crypto \<Rightarrow> 'w io_writer \<Rightarrow> (u64 \<Rightarrow> record_rand) \<Rightarrow> ('w \<Rightarrow> go_error option \<times> 'w) \<Rightarrow>
   'w V3CipherStream \<Rightarrow> go_error option \<times> 'w V3CipherStream" where
  "Close C W R innerClose s =
    (let s = s\<lparr>coalesceTimer := False\<rparr>;
         s = (if length (coalesceBuf s) > 0 then snd (flushCoalesceBufLocked C W R s) else s);
         s = s\<lparr>closed := True\<rparr>
     in case innerClose (innerW s) of (err, w') \<Rightarrow> (err, s\<lparr>innerW := w'\<rparr>))"

text \<open>
  \<open>Read\<close> into a buffer of \<open>n\<close> bytes: the bytes copied and the error or none. A failed
  \<open>io.ReadFull\<close> has consumed what was left of the inner stream.
\<close>

definition drained :: "reader \<Rightarrow> reader" where
  "drained r = Reader [] (rerr r)"

definition openRecord ::
  "crypto \<Rightarrow> 'w V3CipherStream \<Rightarrow> nat \<Rightarrow> bytes \<Rightarrow> bytes \<Rightarrow>
   ((bytes \<times> go_error option) \<times> 'w V3CipherStream) option" where
  "openRecord C s n head cipherBuf =
    (let counter = get64 (slice 0 8 head); payloadLen = unat (get16 (slice 8 10 head)) in
     case aead_Open C (cipherID s) (the (readAEAD s)) (recordNonce (readNoncePrefix s) counter) cipherBuf head of
       None \<Rightarrow> Some (([], Some (Errorf ''record decryption failed'')), s)
     | Some decrypted \<Rightarrow>
         if length decrypted \<noteq> payloadLen then Some (([], Some (Errorf ''decrypted length mismatch'')), s)
         else
           (case checkAndAdd (readWindow s) counter of
              None \<Rightarrow> None
            | Some (fresh, win) \<Rightarrow>
                (let s = s\<lparr>readWindow := win\<rparr> in
                 if \<not> fresh then Some (([], Some (Errorf ''record counter rejected (replay or out of window)'')), s)
                 else
                   (let plainLen = unat (get16 (slice 0 2 decrypted)) in
                    if plainLen < 1 \<or> v3PlainLenSize + plainLen > payloadLen
                    then Some (([], Some (Errorf ''invalid inner plaintext length'')), s)
                    else
                      (let plain = slice v3PlainLenSize (v3PlainLenSize + plainLen) decrypted in
                       Some ((take n plain, None), s\<lparr>readPlainBuf := drop n plain\<rparr>))))))"

definition Read ::
  "crypto \<Rightarrow> 'w V3CipherStream \<Rightarrow> nat \<Rightarrow> ((bytes \<times> go_error option) \<times> 'w V3CipherStream) option" where
  "Read C s n =
    (if n = 0 then Some (([], None), s)
     else if length (readPlainBuf s) > 0 then
       Some ((take n (readPlainBuf s), None), s\<lparr>readPlainBuf := drop n (readPlainBuf s)\<rparr>)
     else
       (case read_full v3RecordHeaderSize (innerR s) of
          Inl e \<Rightarrow> Some (([], Some e), s\<lparr>innerR := drained (innerR s)\<rparr>)
        | Inr (head, r) \<Rightarrow>
            (let s = s\<lparr>innerR := r\<rparr>;
                 counter = get64 (slice 0 8 head); payloadLen = unat (get16 (slice 8 10 head)) in
             if counter < 1 then Some (([], Some (Errorf ''invalid record counter'')), s)
             else if payloadLen < v3PlainLenSize + 1
             then Some (([], Some (Errorf ''invalid record payload length'')), s)
             else if payloadLen > maxV3RecordPayload
             then Some (([], Some (Errorf ''record payload length exceeds maximum'')), s)
             else
               (let gen = recordGen (RekeyInterval s) counter in
                case aeadFor C (keys s) (cipherID s) (readC2S s) (streamID s) gen (readAEAD s) (readGen s) of
                  Inl e \<Rightarrow> Some (([], Some e), s)
                | Inr aead \<Rightarrow>
                    (let s = s\<lparr>readAEAD := Some aead, readGen := gen\<rparr> in
                     case read_full (payloadLen + 16) (innerR s) of
                       Inl e \<Rightarrow> Some (([], Some e), s\<lparr>innerR := drained (innerR s)\<rparr>)
                     | Inr (cipherBuf, r) \<Rightarrow> openRecord C (s\<lparr>innerR := r\<rparr>) n head cipherBuf)))))"

section \<open>One direction of a stream\<close>

text \<open>What fixes the keys, nonces and generations of one direction.\<close>

record chan =
  chKeys :: V3SessionKeys
  chCipher :: byte
  chC2S :: bool
  chStream :: u32
  chRekey :: u64
  chPrefix :: bytes

definition wchan :: "'w V3CipherStream \<Rightarrow> chan" where
  "wchan s = \<lparr>chKeys = keys s, chCipher = cipherID s, chC2S = writeC2S s, chStream = streamID s,
     chRekey = RekeyInterval s, chPrefix = writeNoncePrefix s\<rparr>"

definition rchan :: "'w V3CipherStream \<Rightarrow> chan" where
  "rchan s = \<lparr>chKeys = keys s, chCipher = cipherID s, chC2S = readC2S s, chStream = streamID s,
     chRekey = RekeyInterval s, chPrefix = readNoncePrefix s\<rparr>"

definition chan_ok :: "chan \<Rightarrow> bool" where
  "chan_ok ch \<longleftrightarrow> isSupportedCipherV3 (chCipher ch) \<and> length (Seed (chKeys ch)) = 32 \<and> length (chPrefix ch) = 4"

definition genKey :: "crypto \<Rightarrow> chan \<Rightarrow> u64 \<Rightarrow> bytes result" where
  "genKey C ch gen =
    rbind (StreamKey C (chKeys ch) (chCipher ch) (chC2S ch) (chStream ch) gen) (\<lambda>key. newAEAD (chCipher ch) key)"

definition cache_ok :: "crypto \<Rightarrow> chan \<Rightarrow> bytes option \<Rightarrow> u64 \<Rightarrow> bool" where
  "cache_ok C ch aead gen \<longleftrightarrow> (\<forall>a. aead = Some a \<longrightarrow> genKey C ch gen = Inr a)"

lemma aeadFor_genKey:
  assumes "cache_ok C ch aead cur"
  shows "aeadFor C (chKeys ch) (chCipher ch) (chC2S ch) (chStream ch) gen aead cur = genKey C ch gen"
  using assms by (auto simp: aeadFor_def genKey_def cache_ok_def split: option.splits)

lemma genKey_ok:
  assumes "hkdf_total C" "chan_ok ch"
  shows "\<exists>a. genKey C ch gen = Inr a"
proof -
  have "\<exists>key. StreamKey C (chKeys ch) (chCipher ch) (chC2S ch) (chStream ch) gen = Inr key \<and>
      length key = V3CipherKeyLen (chCipher ch)"
    using assms V3CipherKeyLen_pos [of "chCipher ch"] V3CipherKeyLen_le [of "chCipher ch"]
    by (simp add: StreamKey_def hkdf_total_def chan_ok_def)
  moreover have "length key = V3CipherKeyLen (chCipher ch) \<Longrightarrow> newAEAD (chCipher ch) key = Inr key" for key
    using assms(2) by (auto simp: newAEAD_def V3CipherKeyLen_def chan_ok_def isSupportedCipherV3_def)
  ultimately show ?thesis by (auto simp: genKey_def)
qed

lemma recordNonce_layout: "length prefix = 4 \<Longrightarrow> recordNonce prefix c = prefix @ put64 c"
  by (simp add: recordNonce_def buf_copy_def)

text \<open>The bytes of a record with a given counter and plaintext, for some padding.\<close>

definition sealed :: "crypto \<Rightarrow> chan \<Rightarrow> u64 \<Rightarrow> bytes \<Rightarrow> bytes \<Rightarrow> bool" where
  "sealed C ch counter plain rec \<longleftrightarrow>
    (\<exists>a pad. genKey C ch (recordGen (chRekey ch) counter) = Inr a \<and>
      0 < length plain \<and> 2 + length plain + length pad \<le> 1400 \<and>
      (let payload = put16 (word_of_nat (length plain)) @ plain @ pad;
           head = recordHeader counter (length payload)
       in rec = head @ aead_Seal C (chCipher ch) a (recordNonce (chPrefix ch) counter) payload head))"

fun sealed_seq :: "crypto \<Rightarrow> chan \<Rightarrow> u64 \<Rightarrow> (bytes \<times> bytes) list \<Rightarrow> bool" where
  "sealed_seq C ch c [] = True"
| "sealed_seq C ch c ((p, r) # prs) = (sealed C ch (c + 1) p r \<and> sealed_seq C ch (c + 1) prs)"

lemma sealed_seq_append:
  "sealed_seq C ch c (xs @ ys) \<longleftrightarrow> sealed_seq C ch c xs \<and> sealed_seq C ch (c + word_of_nat (length xs)) ys"
  by (induction xs arbitrary: c) (auto simp: add.assoc)

section \<open>Writing\<close>

text \<open>A writer that takes all bytes of a call, as the multiplexed streams of the program do.\<close>

locale full_writer = contract_writer +
  assumes write_full: "ok w \<Longrightarrow> b \<noteq> [] \<Longrightarrow> io_Write W w b = (n, e, w') \<Longrightarrow> n = length b \<and> e = None"
begin

definition wf_write :: "crypto \<Rightarrow> 'a V3CipherStream \<Rightarrow> bool" where
  "wf_write C s \<longleftrightarrow> chan_ok (wchan s) \<and> cache_ok C (wchan s) (writeAEAD s) (writeGen s) \<and> ok (innerW s)"

text \<open>\<open>wrote C s s' prs\<close>: going from \<open>s\<close> to \<open>s'\<close> emitted the plaintext/record pairs \<open>prs\<close>.\<close>

definition wrote ::
  "crypto \<Rightarrow> 'a V3CipherStream \<Rightarrow> 'a V3CipherStream \<Rightarrow> (bytes \<times> bytes) list \<Rightarrow> bool" where
  "wrote C s s' prs \<longleftrightarrow>
    sink (innerW s') = sink (innerW s) @ concat (map snd prs) \<and>
    sealed_seq C (wchan s) (writeCounter s) prs \<and> list_all (\<lambda>pr. fst pr \<noteq> []) prs \<and>
    writeCounter s' = writeCounter s + word_of_nat (length prs) \<and>
    wchan s' = wchan s \<and> wf_write C s' \<and> closed s' = closed s \<and> CoalesceDelay s' = CoalesceDelay s"

lemma wrote_refl: "wf_write C s \<Longrightarrow> wrote C s s []"
  by (simp add: wrote_def)

lemma wrote_trans: "wrote C s s' xs \<Longrightarrow> wrote C s' s'' ys \<Longrightarrow> wrote C s s'' (xs @ ys)"
  by (auto simp: wrote_def sealed_seq_append add.assoc)

lemma wrote_upd [simp]:
  "wf_write C (s\<lparr>coalesceBuf := b\<rparr>) = wf_write C s"
  "wf_write C (s\<lparr>coalesceTimer := t\<rparr>) = wf_write C s"
  "wrote C s (s'\<lparr>coalesceBuf := b\<rparr>) prs = wrote C s s' prs"
  "wrote C s (s'\<lparr>coalesceTimer := t\<rparr>) prs = wrote C s s' prs"
  "wrote C (s\<lparr>coalesceTimer := t\<rparr>) s' prs = wrote C s s' prs"
  by (simp_all add: wrote_def wf_write_def wchan_def)

lemma pad_bounds:
  assumes "rand_ok R" "n \<le> 1398"
  shows "length (case rand_Read R k of Some b \<Rightarrow> b | None \<Rightarrow> replicate k 0) = k"
    and "2 + n + sampleRecordPadLen R (1398 - n) \<le> 1400"
proof -
  show "length (case rand_Read R k of Some b \<Rightarrow> b | None \<Rightarrow> replicate k 0) = k"
    using assms by (auto simp: rand_ok_def split: option.splits)
  have "sampleRecordPadLen R (1398 - n) \<le> 1398 - n"
    by (rule sampleRecordPadLen_le [OF assms(1)])
  then show "2 + n + sampleRecordPadLen R (1398 - n) \<le> 1400" using assms(2) by simp
qed

lemma writeRecordLocked_wrote:
  assumes C: "hkdf_total C" and R: "\<forall>c. rand_ok (R c)" and s: "wf_write C s"
    and p: "0 < length plain" "length plain \<le> 1398" and cnt: "writeCounter s \<noteq> - 1"
  shows "\<exists>s' rec. writeRecordLocked C W R s plain = (None, s') \<and> wrote C s s' [(plain, rec)] \<and>
    coalesceBuf s' = coalesceBuf s"
proof -
  let ?c = "writeCounter s + 1" and ?ch = "wchan s"
  let ?gen = "recordGen (RekeyInterval s) ?c"
  obtain a where a: "genKey C ?ch ?gen = Inr a"
    using genKey_ok [OF C] s by (auto simp: wf_write_def)
  have af: "aeadFor C (keys s) (cipherID s) (writeC2S s) (streamID s) ?gen (writeAEAD s) (writeGen s) = Inr a"
    using aeadFor_genKey [of C ?ch "writeAEAD s" "writeGen s" ?gen] s a by (simp add: wf_write_def wchan_def)
  define padLen where "padLen = (if PadRecords s
      then sampleRecordPadLen (R ?c) (maxV3RecordPayload - v3PlainLenSize - length plain) else 0)"
  define pad where "pad = (if padLen > 0
      then (case rand_Read (R ?c) padLen of Some b \<Rightarrow> b | None \<Rightarrow> replicate padLen 0) else [])"
  define head where "head = recordHeader ?c (v3PlainLenSize + length plain + padLen)"
  define rec where "rec = head @ aead_Seal C (cipherID s) a (recordNonce (writeNoncePrefix s) ?c)
      (recordPayload (R ?c) plain padLen) head"
  have lp: "length pad = padLen" using pad_bounds(1) [OF R [rule_format] p(2)] by (auto simp: pad_def)
  have bound: "2 + length plain + padLen \<le> 1400"
    using pad_bounds(2) [OF R [rule_format] p(2), of ?c] p by (simp add: padLen_def record_sizes)
  have "rec \<noteq> []" by (simp add: rec_def head_def recordHeader_def)
  then obtain n w' where wr: "io_Write W (innerW s) rec = (n, None, w')" "ok w'"
    "sink w' = sink (innerW s) @ rec"
    using write_full [of "innerW s" rec] write_ok [of "innerW s" rec] s
    by (cases "io_Write W (innerW s) rec") (auto simp: wf_write_def)
  have pl: "recordPayload (R ?c) plain padLen = put16 (word_of_nat (length plain)) @ plain @ pad"
    by (simp add: recordPayload_def pad_def)
  have "sealed C ?ch ?c plain rec"
    unfolding sealed_def using a p bound lp
    by (intro exI [of _ a] exI [of _ pad])
      (simp add: rec_def head_def pl record_sizes wchan_def add.assoc)
  moreover have "writeRecordLocked C W R s plain =
      (None, s\<lparr>writeCounter := ?c, writeAEAD := Some a, writeGen := ?gen, innerW := w'\<rparr>)"
    using p cnt af wr(1) unfolding rec_def head_def padLen_def
    by (simp add: writeRecordLocked_def Let_def record_sizes)
  ultimately show ?thesis
    using s wr a p by (auto simp: wrote_def wf_write_def wchan_def cache_ok_def)
qed

text \<open>
  Budget: the record counter cannot overflow while fewer than \<open>2 ^ 64 - 1\<close> bytes are
  written in all, since every record carries at least one.
\<close>

definition room :: "'a V3CipherStream \<Rightarrow> nat \<Rightarrow> bool" where
  "room s k \<longleftrightarrow> unat (writeCounter s) + k < 2 ^ 64"

lemma room_next:
  assumes "wrote C s s' [(p, r)]" "room s k" "0 < n" "n \<le> k"
  shows "room s' (k - n)" "writeCounter s \<noteq> - 1"
proof -
  have b: "unat (writeCounter s) + 1 < 2 ^ 64" using assms(2-4) by (simp add: room_def)
  then show "writeCounter s \<noteq> - 1"
    by (auto simp: unsigned_minus_1_eq_mask mask_eq_exp_minus_1)
  have "writeCounter s' = writeCounter s + 1" using assms(1) by (simp add: wrote_def)
  then have "unat (writeCounter s') = unat (writeCounter s) + 1"
    using b by (simp add: unat_word_ariths)
  then show "room s' (k - n)" using assms(2-4) by (simp add: room_def)
qed

lemma room_pos: "room s k \<Longrightarrow> 0 < k \<Longrightarrow> writeCounter s \<noteq> - 1"
  by (auto simp: room_def unsigned_minus_1_eq_mask mask_eq_exp_minus_1)

lemma chunk_bounds:
  "0 < length buf \<Longrightarrow> 0 < length (take (min (length buf) maxV3RecordPlaintext) buf) \<and>
   length (take (min (length buf) maxV3RecordPlaintext) buf) \<le> 1398"
  by (simp add: record_sizes min_def)

text \<open>One round of the three chunking loops.\<close>

lemma write_chunk:
  assumes C: "hkdf_total C" and R: "\<forall>c. rand_ok (R c)" and s: "wf_write C s"
    and room: "room s (length buf)" and buf: "0 < length buf"
  defines "n \<equiv> min (length buf) maxV3RecordPlaintext"
  obtains s1 rec where "writeRecordLocked C W R s (take n buf) = (None, s1)"
    "wrote C s s1 [(take n buf, rec)]" "coalesceBuf s1 = coalesceBuf s" "wf_write C s1"
    "room s1 (length (drop n buf))" "length (drop n buf) < length buf"
proof -
  have b: "0 < length (take n buf)" "length (take n buf) \<le> 1398"
    using chunk_bounds [OF buf] by (simp_all add: n_def)
  obtain s1 rec where w: "writeRecordLocked C W R s (take n buf) = (None, s1)"
    "wrote C s s1 [(take n buf, rec)]" "coalesceBuf s1 = coalesceBuf s"
    using writeRecordLocked_wrote [OF C R s b room_pos [OF room buf]] by blast
  have "0 < n" "n \<le> length buf" using buf by (simp_all add: n_def record_sizes)
  then have "room s1 (length buf - n)" by (rule room_next [OF w(2) room])
  moreover have "wf_write C s1" using w(2) by (simp add: wrote_def)
  ultimately show thesis using that [OF w] \<open>0 < n\<close> buf by simp
qed

lemma flushLoop_wrote:
  assumes C: "hkdf_total C" and R: "\<forall>c. rand_ok (R c)"
  shows "wf_write C s \<Longrightarrow> room s (length buf) \<Longrightarrow>
    \<exists>s' prs. flushLoop C W R buf s = (None, s') \<and> wrote C s s' prs \<and>
      concat (map fst prs) = buf \<and> coalesceBuf s' = []"
proof (induction buf arbitrary: s rule: length_induct)
  case (1 buf)
  show ?case
  proof (cases "0 < length buf")
    case False
    with 1 wrote_refl [of C s] show ?thesis
      by (intro exI [of _ "s\<lparr>coalesceBuf := []\<rparr>"] exI [of _ "[]"]) (simp add: flushLoop.simps)
  next
    case True
    let ?n = "min (length buf) maxV3RecordPlaintext"
    obtain s1 rec where w: "writeRecordLocked C W R s (take ?n buf) = (None, s1)"
      "wrote C s s1 [(take ?n buf, rec)]" "wf_write C s1"
      "room s1 (length (drop ?n buf))" "length (drop ?n buf) < length buf"
      by (rule write_chunk [OF C R "1.prems" True]) blast
    then obtain s' prs where rec: "flushLoop C W R (drop ?n buf) s1 = (None, s')" "wrote C s1 s' prs"
      "concat (map fst prs) = drop ?n buf" "coalesceBuf s' = []"
      using "1.IH" by blast
    have "flushLoop C W R buf s = (None, s')"
      using True w(1) rec(1) by (subst flushLoop.simps) (simp add: Let_def)
    moreover have "concat (map fst ((take ?n buf, rec) # prs)) = buf" using rec(3) by simp
    ultimately show ?thesis using wrote_trans [OF w(2) rec(2)] rec(4)
      by (intro exI [of _ s'] exI [of _ "(take ?n buf, rec) # prs"]) simp
  qed
qed

lemma writeLoop_wrote:
  assumes C: "hkdf_total C" and R: "\<forall>c. rand_ok (R c)"
  shows "wf_write C s \<Longrightarrow> room s (length p) \<Longrightarrow>
    \<exists>s' prs. writeLoop C W R p k s = ((k + length p, None), s') \<and> wrote C s s' prs \<and>
      concat (map fst prs) = p \<and> coalesceBuf s' = coalesceBuf s"
proof (induction p arbitrary: s k rule: length_induct)
  case (1 p)
  show ?case
  proof (cases "0 < length p")
    case False
    with 1 wrote_refl [of C s] show ?thesis
      by (intro exI [of _ s] exI [of _ "[]"]) (simp add: writeLoop.simps)
  next
    case True
    let ?n = "min (length p) maxV3RecordPlaintext"
    obtain s1 rec where w: "writeRecordLocked C W R s (take ?n p) = (None, s1)"
      "wrote C s s1 [(take ?n p, rec)]" "coalesceBuf s1 = coalesceBuf s" "wf_write C s1"
      "room s1 (length (drop ?n p))" "length (drop ?n p) < length p"
      by (rule write_chunk [OF C R "1.prems" True]) blast
    then obtain s' prs where rec: "writeLoop C W R (drop ?n p) (k + ?n) s1 = ((k + ?n + length (drop ?n p), None), s')"
      "wrote C s1 s' prs" "concat (map fst prs) = drop ?n p" "coalesceBuf s' = coalesceBuf s1"
      using "1.IH" by blast
    have "k + ?n + length (drop ?n p) = k + length p" by simp
    then have "writeLoop C W R p k s = ((k + length p, None), s')"
      using True w(1) rec(1) by (subst writeLoop.simps) (simp add: Let_def)
    moreover have "concat (map fst ((take ?n p, rec) # prs)) = p" using rec(3) by simp
    ultimately show ?thesis using wrote_trans [OF w(2) rec(2)] rec(4) w(3)
      by (intro exI [of _ s'] exI [of _ "(take ?n p, rec) # prs"]) simp
  qed
qed

lemma coalesceLoop_wrote:
  assumes C: "hkdf_total C" and R: "\<forall>c. rand_ok (R c)"
  shows "wf_write C s \<Longrightarrow> room s (length buf) \<Longrightarrow>
    \<exists>s' prs. coalesceLoop C W R buf s = (None, s') \<and> wrote C s s' prs \<and>
      concat (map fst prs) @ coalesceBuf s' = buf \<and> length (coalesceBuf s') < 1024"
proof (induction buf arbitrary: s rule: length_induct)
  case (1 buf)
  show ?case
  proof (cases "length buf \<ge> coalesceFlushThreshold")
    case False
    with 1 wrote_refl [of C s] show ?thesis
      by (intro exI [of _ "s\<lparr>coalesceBuf := buf\<rparr>"] exI [of _ "[]"])
        (simp add: coalesceLoop.simps [of C W R buf s] record_sizes)
  next
    case True
    then have pos: "0 < length buf" by (auto simp: record_sizes)
    let ?n = "min (length buf) maxV3RecordPlaintext"
    obtain s1 rec where w: "writeRecordLocked C W R s (take ?n buf) = (None, s1)"
      "wrote C s s1 [(take ?n buf, rec)]" "wf_write C s1"
      "room s1 (length (drop ?n buf))" "length (drop ?n buf) < length buf"
      by (rule write_chunk [OF C R "1.prems" pos]) blast
    then obtain s' prs where rec: "coalesceLoop C W R (drop ?n buf) s1 = (None, s')" "wrote C s1 s' prs"
      "concat (map fst prs) @ coalesceBuf s' = drop ?n buf" "length (coalesceBuf s') < 1024"
      using "1.IH" by blast
    have "coalesceLoop C W R buf s = (None, s')"
      using True w(1) rec(1) by (subst coalesceLoop.simps) (simp add: Let_def)
    moreover have "concat (map fst ((take ?n buf, rec) # prs)) @ coalesceBuf s' = buf" using rec(3) by simp
    ultimately show ?thesis using wrote_trans [OF w(2) rec(2)] rec(4)
      by (intro exI [of _ s'] exI [of _ "(take ?n buf, rec) # prs"]) simp
  qed
qed

lemma wrote_room:
  assumes w: "wrote C s s' prs" and room: "room s (length (concat (map fst prs)) + k)"
  shows "room s' k"
proof -
  have "list_all (\<lambda>pr. fst pr \<noteq> []) prs" using w by (simp add: wrote_def)
  then have le: "length prs \<le> length (concat (map fst prs))"
    by (induction prs) (auto simp: Suc_le_eq length_greater_0_conv [symmetric] simp del: length_greater_0_conv)
  have "writeCounter s' = writeCounter s + word_of_nat (length prs)" using w by (simp add: wrote_def)
  moreover have "unat (writeCounter s) + length prs < 2 ^ 64" using le room by (simp add: room_def)
  ultimately have "unat (writeCounter s') = unat (writeCounter s) + length prs"
    by (simp add: unat_word_ariths unsigned_of_nat take_bit_eq_mod)
  with le room show ?thesis by (simp add: room_def)
qed

lemma Write_wrote:
  assumes C: "hkdf_total C" and R: "\<forall>c. rand_ok (R c)" and s: "wf_write C s" "\<not> closed s"
    and room: "room s (length (coalesceBuf s) + length p)"
  shows "\<exists>s' prs. Write C W R s p = ((length p, None), s') \<and> wrote C s s' prs \<and>
    concat (map fst prs) @ coalesceBuf s' = coalesceBuf s @ p"
proof (cases "p = []")
  case True
  with s wrote_refl [of C s] show ?thesis
    by (intro exI [of _ s] exI [of _ "[]"]) (simp add: Write_def)
next
  case p: False
  show ?thesis
  proof (cases "CoalesceDelay s \<le> 0")
    case False
    obtain s' prs where c: "coalesceLoop C W R (coalesceBuf s @ p) s = (None, s')" "wrote C s s' prs"
      "concat (map fst prs) @ coalesceBuf s' = coalesceBuf s @ p"
      using coalesceLoop_wrote [OF C R s(1), of "coalesceBuf s @ p"] room by auto
    with p s False show ?thesis
      by (intro exI [of _ "s'\<lparr>coalesceTimer := (coalesceBuf s' \<noteq> [])\<rparr>"] exI [of _ prs]) (simp add: Write_def)
  next
    case direct: True
    obtain s1 xs where f: "(if length (coalesceBuf s) > 0 then flushCoalesceBufLocked C W R s else (None, s)) = (None, s1)"
      "wrote C s s1 xs" "concat (map fst xs) = coalesceBuf s" "coalesceBuf s1 = []"
    proof (cases "length (coalesceBuf s) > 0")
      case True
      moreover have "room s (length (coalesceBuf s))" using room by (simp add: room_def)
      ultimately show ?thesis
        using flushLoop_wrote [OF C R s(1)] that by (fastforce simp: flushCoalesceBufLocked_def)
    next
      case False
      with s that [of s "[]"] wrote_refl [of C s] show ?thesis by simp
    qed
    have "room s1 (length p)" using wrote_room [OF f(2)] f(3) room by simp
    then obtain s' ys where l: "writeLoop C W R p 0 s1 = ((length p, None), s')" "wrote C s1 s' ys"
      "concat (map fst ys) = p" "coalesceBuf s' = coalesceBuf s1"
      using writeLoop_wrote [OF C R, of s1 p 0] f(2) by (auto simp: wrote_def)
    have "Write C W R s p = ((length p, None), s')"
      using p s direct f(1) l(1) by (auto simp: Write_def split: if_splits)
    with wrote_trans [OF f(2) l(2)] f l show ?thesis
      by (intro exI [of _ s'] exI [of _ "xs @ ys"]) simp
  qed
qed

lemma flush_wrote:
  assumes "hkdf_total C" "\<forall>c. rand_ok (R c)" "wf_write C s" "room s (length (coalesceBuf s))"
  shows "\<exists>s' prs. flushCoalesceBufLocked C W R s = (None, s') \<and> wrote C s s' prs \<and>
      concat (map fst prs) = coalesceBuf s \<and> coalesceBuf s' = []"
  using flushLoop_wrote [OF assms] by (simp add: flushCoalesceBufLocked_def)

end

text \<open>A sequence of writes, and a sequence of writes followed by the flush of \<open>Close\<close>.\<close>

fun Writes ::
  "crypto \<Rightarrow> 'w io_writer \<Rightarrow> (u64 \<Rightarrow> record_rand) \<Rightarrow> 'w V3CipherStream \<Rightarrow> bytes list \<Rightarrow>
   go_error option \<times> 'w V3CipherStream" where
  "Writes C W R s [] = (None, s)"
| "Writes C W R s (p # ps) =
    (case Write C W R s p of
       ((_, Some e), s') \<Rightarrow> (Some e, s')
     | ((_, None), s') \<Rightarrow> Writes C W R s' ps)"

context full_writer
begin

lemma Writes_wrote:
  assumes C: "hkdf_total C" and R: "\<forall>c. rand_ok (R c)"
  shows "wf_write C s \<Longrightarrow> \<not> closed s \<Longrightarrow> room s (length (coalesceBuf s) + length (concat ps)) \<Longrightarrow>
    \<exists>s' prs. Writes C W R s ps = (None, s') \<and> wrote C s s' prs \<and>
      concat (map fst prs) @ coalesceBuf s' = coalesceBuf s @ concat ps"
proof (induction ps arbitrary: s)
  case Nil
  with wrote_refl [of C s] show ?case by (intro exI [of _ s] exI [of _ "[]"]) simp
next
  case (Cons p ps)
  have "room s (length (coalesceBuf s) + length p)" using Cons.prems(3) by (simp add: room_def)
  then obtain s1 xs where w: "Write C W R s p = ((length p, None), s1)" "wrote C s s1 xs"
    "concat (map fst xs) @ coalesceBuf s1 = coalesceBuf s @ p"
    using Write_wrote [OF C R Cons.prems(1,2)] by blast
  have "length (concat (map fst xs)) + length (coalesceBuf s1) = length (coalesceBuf s) + length p"
    using arg_cong [OF w(3), of length] by simp
  then have "room s1 (length (coalesceBuf s1) + length (concat ps))"
    using wrote_room [OF w(2), of "length (coalesceBuf s1) + length (concat ps)"] Cons.prems(3)
    by (simp add: add.assoc [symmetric])
  then obtain s' ys where r: "Writes C W R s1 ps = (None, s')" "wrote C s1 s' ys"
    "concat (map fst ys) @ coalesceBuf s' = coalesceBuf s1 @ concat ps"
    using Cons.IH [of s1] w(2) Cons.prems(2) by (auto simp: wrote_def)
  have "concat (map fst (xs @ ys)) @ coalesceBuf s' = coalesceBuf s @ concat (p # ps)"
    using w(3) r(3) by (metis append_assoc concat.simps(2) concat_append map_append)
  with w(1) r(1) wrote_trans [OF w(2) r(2)] show ?case
    by (intro exI [of _ s'] exI [of _ "xs @ ys"]) simp
qed

lemma Writes_Close_wrote:
  assumes C: "hkdf_total C" and R: "\<forall>c. rand_ok (R c)" and s: "wf_write C s" "\<not> closed s"
    and room: "room s (length (coalesceBuf s) + length (concat ps))"
    and cl: "\<And>w. sink (snd (innerClose w)) = sink w"
  shows "\<exists>s1 prs. Writes C W R s ps = (None, s1) \<and>
    sink (innerW (snd (Close C W R innerClose s1))) = sink (innerW s) @ concat (map snd prs) \<and>
    sealed_seq C (wchan s) (writeCounter s) prs \<and> concat (map fst prs) = coalesceBuf s @ concat ps"
proof -
  obtain s1 xs where w: "Writes C W R s ps = (None, s1)" "wrote C s s1 xs"
    "concat (map fst xs) @ coalesceBuf s1 = coalesceBuf s @ concat ps"
    using Writes_wrote [OF C R s room] by blast
  have "length (concat (map fst xs)) + length (coalesceBuf s1) = length (coalesceBuf s) + length (concat ps)"
    using arg_cong [OF w(3), of length] by simp
  then have r: "room s1 (length (coalesceBuf s1))" using wrote_room [OF w(2)] room by simp
  let ?s1 = "s1\<lparr>coalesceTimer := False\<rparr>"
  have "wf_write C ?s1" "room ?s1 (length (coalesceBuf ?s1))"
    using w(2) r by (simp_all add: wrote_def room_def)
  then obtain s2 ys where f: "flushCoalesceBufLocked C W R ?s1 = (None, s2)" "wrote C s1 s2 ys"
    "concat (map fst ys) = coalesceBuf s1"
    using flush_wrote [OF C R, of ?s1] by auto
  let ?ys = "if length (coalesceBuf s1) > 0 then ys else []"
  have "sink (innerW (snd (Close C W R innerClose s1))) = sink (innerW s1) @ concat (map snd ?ys)"
    using f(2) cl unfolding wrote_def
    by (simp add: Close_def Let_def f(1) case_prod_unfold)
  moreover have "wrote C s s1 xs \<and> sealed_seq C (wchan s1) (writeCounter s1) ?ys"
    using w(2) f(2) by (simp add: wrote_def)
  moreover have "concat (map fst (xs @ ?ys)) = coalesceBuf s @ concat ps"
    using w(3) f(3) by auto
  ultimately show ?thesis
    using w(1) by (intro exI [of _ s1] exI [of _ "xs @ ?ys"]) (auto simp: wrote_def sealed_seq_append)
qed

end

interpretation bufs: full_writer buffer_writer "\<lambda>_. True" "\<lambda>b. b"
  by unfold_locales (auto simp: buffer_writer_def)

section \<open>Reading\<close>

definition wf_read :: "crypto \<Rightarrow> 'w V3CipherStream \<Rightarrow> bool" where
  "wf_read C s \<longleftrightarrow> chan_ok (rchan s) \<and> cache_ok C (rchan s) (readAEAD s) (readGen s)"

text \<open>A reader positioned before the records \<open>prs\<close>, the first of which has counter \<open>c + 1\<close>.\<close>

definition at_records :: "crypto \<Rightarrow> 'w V3CipherStream \<Rightarrow> u64 \<Rightarrow> (bytes \<times> bytes) list \<Rightarrow> bool" where
  "at_records C s c prs \<longleftrightarrow>
    innerR s = Reader (concat (map snd prs)) EOF \<and> sealed_seq C (rchan s) c prs \<and>
    window_rel (readWindow s) {1..unat c} \<and> wf_read C s \<and> unat c + length prs + 1 < 2 ^ 64"

lemma recordHeader_fields:
  "length (recordHeader c n) = 12" "get64 (slice 0 8 (recordHeader c n)) = c"
  "n \<le> 1400 \<Longrightarrow> unat (get16 (slice 8 10 (recordHeader c n))) = n"
  by (simp_all add: recordHeader_def slice_def)

lemma openRecord_sealed:
  assumes "aead_correct C" and "0 < length plain" "2 + length plain + length pad \<le> 1400"
    and "payload = put16 (word_of_nat (length plain)) @ plain @ pad"
    and "head = recordHeader c (length payload)"
    and "readAEAD s = Some a" and "checkAndAdd (readWindow s) c = Some (True, win)"
  shows "openRecord C s n head (aead_Seal C (cipherID s) a (recordNonce (readNoncePrefix s) c) payload head) =
    Some ((take n plain, None), s\<lparr>readWindow := win, readPlainBuf := drop n plain\<rparr>)"
proof -
  have lp: "length payload = 2 + length plain + length pad" by (simp add: assms(4))
  have hf: "get64 (slice 0 8 head) = c" "unat (get16 (slice 8 10 head)) = length payload"
    using assms(3) lp by (simp_all add: assms(5) recordHeader_fields)
  have "get16 (slice 0 2 payload) = word_of_nat (length plain)"
    by (simp add: assms(4))
  moreover have "unat (word_of_nat (length plain) :: u16) = length plain" using assms(3) by simp
  moreover have "slice 2 (2 + length plain) payload = plain"
    by (simp add: assms(4) slice_def)
  ultimately show ?thesis
    using assms(1,2,6,7) lp hf by (simp add: openRecord_def aead_correct_def v3PlainLenSize_def Let_def)
qed

lemma Read_record:
  assumes C: "hkdf_total C" "aead_correct C" and n: "0 < n" and s: "at_records C s c ((plain, rec) # prs)"
    and buf: "readPlainBuf s = []"
  shows "\<exists>s'. Read C s n = Some ((take n plain, None), s') \<and> at_records C s' (c + 1) prs \<and>
    readPlainBuf s' = drop n plain"
proof -
  let ?ch = "rchan s" and ?c = "c + 1"
  obtain a pad where a: "genKey C ?ch (recordGen (RekeyInterval s) ?c) = Inr a"
    and b: "0 < length plain" "2 + length plain + length pad \<le> 1400"
    and rec: "rec = recordHeader ?c (length (put16 (word_of_nat (length plain)) @ plain @ pad)) @
      aead_Seal C (cipherID s) a (recordNonce (readNoncePrefix s) ?c)
        (put16 (word_of_nat (length plain)) @ plain @ pad)
        (recordHeader ?c (length (put16 (word_of_nat (length plain)) @ plain @ pad)))"
    using s by (auto simp: at_records_def sealed_def rchan_def Let_def)
  define payload where "payload = put16 (word_of_nat (length plain)) @ plain @ pad"
  define head where "head = recordHeader ?c (length payload)"
  define body where "body = aead_Seal C (cipherID s) a (recordNonce (readNoncePrefix s) ?c) payload head"
  have rec': "rec = head @ body" by (simp add: rec body_def head_def payload_def)
  have lp: "length payload = 2 + length plain + length pad" by (simp add: payload_def)
  have lb: "length body = length payload + 16" using C(2) by (simp add: body_def aead_correct_def)
  have inR: "innerR s = Reader (head @ (body @ concat (map snd prs))) EOF"
    using s rec' by (simp add: at_records_def)
  have hf: "length head = 12" "get64 (slice 0 8 head) = ?c" "unat (get16 (slice 8 10 head)) = length payload"
    using b(2) lp by (simp_all add: head_def recordHeader_fields)
  have cnt: "unat c + 2 < 2 ^ 64" using s by (simp add: at_records_def)
  then have uc: "unat ?c = unat c + 1" by (simp add: unat_word_ariths)
  then have "?c \<noteq> 0" by (metis add_is_0 one_neq_zero unsigned_0)
  then have c1: "\<not> ?c < 1" by (simp add: word_less_nat_alt unat_gt_0 not_less Suc_le_eq)
  have win: "window_rel (readWindow s) {1..unat c}" using s by (simp add: at_records_def)
  have "Max (insert 0 {1..unat c}) = unat c" by (cases "unat c = 0") (auto intro!: Max_eqI)
  then have acc: "spec_accepts {1..unat c} (unat ?c)" by (simp add: spec_accepts_def uc)
  obtain win' where w': "checkAndAdd (readWindow s) ?c = Some (True, win')" "window_rel win' (insert (unat ?c) {1..unat c})"
    using checkAndAdd_refines [OF win, of ?c] acc cnt uc by auto
  have ins: "insert (unat ?c) {1..unat c} = {1..unat ?c}" by (auto simp: uc)
  let ?gen = "recordGen (RekeyInterval s) ?c"
  have af: "aeadFor C (keys s) (cipherID s) (readC2S s) (streamID s) ?gen (readAEAD s) (readGen s) = Inr a"
    using aeadFor_genKey [of C ?ch "readAEAD s" "readGen s" ?gen] s a
    by (simp add: at_records_def wf_read_def rchan_def)
  let ?s1 = "s\<lparr>readAEAD := Some a, readGen := ?gen, innerR := Reader (concat (map snd prs)) EOF\<rparr>"
  have "Read C s n = openRecord C ?s1 n head body"
    using n buf c1 b lp lb hf inR af
    by (simp add: Read_def record_sizes Let_def)
  also have "\<dots> = Some ((take n plain, None), ?s1\<lparr>readWindow := win', readPlainBuf := drop n plain\<rparr>)"
    using openRecord_sealed [OF C(2) b payload_def head_def, of ?s1 a win' n] w'(1) by (simp add: body_def)
  finally show ?thesis
    using s a w'(2) ins uc
    by (auto simp: at_records_def wf_read_def rchan_def cache_ok_def)
qed

lemma Read_buffered:
  assumes "at_records C s c prs" "readPlainBuf s \<noteq> []" "0 < n"
  shows "\<exists>s'. Read C s n = Some ((take n (readPlainBuf s), None), s') \<and> at_records C s' c prs \<and>
    readPlainBuf s' = drop n (readPlainBuf s)"
  using assms by (auto simp: Read_def at_records_def wf_read_def rchan_def)

lemma Read_end:
  assumes "at_records C s c []" "readPlainBuf s = []" "0 < n"
  shows "\<exists>s'. Read C s n = Some (([], Some EOF), s')"
  using assms by (auto simp: Read_def at_records_def read_full_def v3RecordHeaderSize_def)

text \<open>A sequence of reads with the given buffer sizes, up to the first error.\<close>

fun Reads :: "crypto \<Rightarrow> 'w V3CipherStream \<Rightarrow> nat list \<Rightarrow> (bytes \<times> go_error option \<times> 'w V3CipherStream) option" where
  "Reads C s [] = Some ([], None, s)"
| "Reads C s (n # ns) =
    (case Read C s n of
       None \<Rightarrow> None
     | Some ((out, Some e), s') \<Rightarrow> Some (out, Some e, s')
     | Some ((out, None), s') \<Rightarrow>
         (case Reads C s' ns of
            None \<Rightarrow> None
          | Some (rest, e, s'') \<Rightarrow> Some (out @ rest, e, s'')))"

lemma Reads_all:
  assumes C: "hkdf_total C" "aead_correct C"
  shows "at_records C s c prs \<Longrightarrow> list_all (\<lambda>pr. fst pr \<noteq> []) prs \<Longrightarrow> list_all (\<lambda>n. 0 < n) ns \<Longrightarrow>
    length (readPlainBuf s @ concat (map fst prs)) < length ns \<Longrightarrow>
    \<exists>s'. Reads C s ns = Some (readPlainBuf s @ concat (map fst prs), Some EOF, s')"
proof (induction ns arbitrary: s c prs)
  case Nil
  then show ?case by simp
next
  case (Cons n ns)
  have n: "0 < n" using Cons.prems(3) by simp
  show ?case
  proof (cases "readPlainBuf s = []")
    case buf: False
    obtain s1 where r: "Read C s n = Some ((take n (readPlainBuf s), None), s1)" "at_records C s1 c prs"
      "readPlainBuf s1 = drop n (readPlainBuf s)"
      using Read_buffered [OF Cons.prems(1) buf n] by blast
    have "length (drop n (readPlainBuf s)) < length (readPlainBuf s)" using buf n by simp
    then have "length (readPlainBuf s1 @ concat (map fst prs)) < length ns"
      using Cons.prems(4) r(3) by simp
    then obtain s' where "Reads C s1 ns = Some (readPlainBuf s1 @ concat (map fst prs), Some EOF, s')"
      using Cons.IH [OF r(2) Cons.prems(2)] Cons.prems(3) by auto
    with r show ?thesis by (simp flip: append_assoc)
  next
    case empty: True
    show ?thesis
    proof (cases prs)
      case Nil
      with Read_end [of C s c n] Cons.prems(1) empty n show ?thesis by fastforce
    next
      case (Cons pr prs')
      obtain plain rec where pr: "pr = (plain, rec)" by (cases pr)
      have at: "at_records C s c ((plain, rec) # prs')" using Cons.prems(1) Cons pr by simp
      obtain s1 where r: "Read C s n = Some ((take n plain, None), s1)" "at_records C s1 (c + 1) prs'"
        "readPlainBuf s1 = drop n plain"
        using Read_record [OF C n at empty] by blast
      have ne: "plain \<noteq> []" "list_all (\<lambda>pr. fst pr \<noteq> []) prs'" using Cons.prems(2) Cons pr by simp_all
      then have "length (drop n plain) < length plain" using n by simp
      then have "length (readPlainBuf s1 @ concat (map fst prs')) < length ns"
        using Cons.prems(4) Cons pr r(3) by simp
      then obtain s' where "Reads C s1 ns = Some (readPlainBuf s1 @ concat (map fst prs'), Some EOF, s')"
        using Cons.IH [OF r(2) ne(2)] Cons.prems(3) by auto
      with r Cons pr empty show ?thesis by (simp flip: append_assoc)
    qed
  qed
qed

lemma sealed_seq_nonempty: "sealed_seq C ch c prs \<Longrightarrow> list_all (\<lambda>pr. fst pr \<noteq> []) prs"
  by (induction prs arbitrary: c) (auto simp: sealed_def)

lemma nonempty_count:
  "list_all (\<lambda>pr. fst pr \<noteq> []) prs \<Longrightarrow> length prs \<le> length (concat (map fst prs))"
  by (induction prs) (auto simp: Suc_le_eq length_greater_0_conv [symmetric] simp del: length_greater_0_conv)

lemma sealed_shape:
  assumes "aead_correct C" "sealed C ch c p r"
  shows "take 8 r = put64 c \<and> 31 \<le> length r \<and> length r \<le> 1428"
  using assms by (auto simp: sealed_def aead_correct_def recordHeader_def Let_def Suc_le_eq)

lemma sealed_seq_nth:
  "sealed_seq C ch c prs \<Longrightarrow> i < length prs \<Longrightarrow> sealed C ch (c + 1 + word_of_nat i) (fst (prs ! i)) (snd (prs ! i))"
proof (induction prs arbitrary: c i)
  case (Cons pr prs)
  obtain p r where pr: "pr = (p, r)" by (cases pr)
  show ?case
  proof (cases i)
    case (Suc j)
    have "c + 1 + 1 + word_of_nat j = c + 1 + word_of_nat i" by (simp add: Suc add.assoc)
    with Suc Cons.IH [of "c + 1" j] Cons.prems pr show ?thesis by (simp add: add.assoc)
  qed (use Cons pr in simp)
qed simp

lemma NewV3CipherStream_Inr:
  "NewV3CipherStream w r ks cid sid client = Inr s \<Longrightarrow> length (Seed ks) = 32 \<Longrightarrow>
   innerW s = w \<and> innerR s = r \<and> writeCounter s = 0 \<and> coalesceBuf s = [] \<and> \<not> closed s \<and> writeAEAD s = None \<and>
   readAEAD s = None \<and> readPlainBuf s = [] \<and> readWindow s = newReplayWindow \<and> keys s = ks \<and> cipherID s = cid \<and>
   streamID s = sid \<and> writeC2S s = client \<and> readC2S s = (\<not> client) \<and>
   writeNoncePrefix s = (if client then C2SNoncePrefix ks else S2CNoncePrefix ks) \<and>
   readNoncePrefix s = (if client then S2CNoncePrefix ks else C2SNoncePrefix ks) \<and>
   isSupportedCipherV3 cid \<and> length (C2SNoncePrefix ks) = 4 \<and> length (S2CNoncePrefix ks) = 4"
  by (auto simp: NewV3CipherStream_def split: if_splits)

lemma written_records:
  assumes W: "full_writer W ok sink" "ok w" "\<forall>w. sink (snd (innerClose w)) = sink w"
    and C: "hkdf_total C" and R: "\<forall>c. rand_ok (R c)"
    and new: "NewV3CipherStream w r ks cid sid client = Inr s0" "length (Seed ks) = 32"
    and s: "s = s0\<lparr>RekeyInterval := k, PadRecords := pd, CoalesceDelay := d\<rparr>"
    and len: "length (concat ps) + 1 < 2 ^ 64"
  shows "\<exists>s1 prs. Writes C W R s ps = (None, s1) \<and>
    sink (innerW (snd (Close C W R innerClose s1))) = sink w @ concat (map snd prs) \<and>
    sealed_seq C (wchan s) 0 prs \<and> concat (map fst prs) = concat ps"
proof -
  note init = NewV3CipherStream_Inr [OF new]
  have wf: "full_writer.wf_write ok C s" "\<not> closed s" "innerW s = w" "writeCounter s = 0" "coalesceBuf s = []"
    using init W(2) new(2) by (auto simp: full_writer.wf_write_def [OF W(1)] s chan_ok_def wchan_def cache_ok_def)
  have room: "full_writer.room s (length (coalesceBuf s) + length (concat ps))"
    using len wf by (simp add: full_writer.room_def [OF W(1)])
  show ?thesis
    using full_writer.Writes_Close_wrote [OF W(1) C R wf(1,2) room, of innerClose] W(3) wf by simp
qed

section \<open>Properties\<close>

text \<open>
  C1. The encrypted stream is a reliable byte stream: for any sequence of writes (any
  sizes, with or without padding and coalescing, across rekeying) followed by \<open>Close\<close>, all
  writes succeed, and the peer stream, with the same keys and the other role, reading the
  emitted bytes with any buffer sizes, gets exactly the written bytes and then end of file.
\<close>

lemma cipher_stream_roundtrip:
  assumes W: "full_writer W ok sink" "ok w" "\<forall>w. sink (snd (innerClose w)) = sink w"
    and C: "hkdf_total C" "aead_correct C" and R: "\<forall>c. rand_ok (R c)"
    and new: "NewV3CipherStream w r ks cid sid client = Inr s0" "length (Seed ks) = 32"
    and s: "s = s0\<lparr>RekeyInterval := k, PadRecords := pd, CoalesceDelay := d\<rparr>"
    and len: "length (concat ps) + 1 < 2 ^ 64"
  shows "\<exists>s1 bs. Writes C W R s ps = (None, s1) \<and>
    sink (innerW (snd (Close C W R innerClose s1))) = sink w @ bs \<and>
    (\<forall>w' t0 ns. NewV3CipherStream w' (Reader bs EOF) ks cid sid (\<not> client) = Inr t0 \<longrightarrow>
       list_all (\<lambda>n. 0 < n) ns \<longrightarrow> length (concat ps) < length ns \<longrightarrow>
       (\<exists>t. Reads C (t0\<lparr>RekeyInterval := k\<rparr>) ns = Some (concat ps, Some EOF, t)))"
proof -
  note init = NewV3CipherStream_Inr [OF new]
  obtain s1 prs where w1: "Writes C W R s ps = (None, s1)"
    "sink (innerW (snd (Close C W R innerClose s1))) = sink w @ concat (map snd prs)"
    and seq: "sealed_seq C (wchan s) 0 prs" and plain: "concat (map fst prs) = concat ps"
    using written_records [OF assms(1-4,6-10)] by blast
  have ne: "list_all (\<lambda>pr. fst pr \<noteq> []) prs" by (rule sealed_seq_nonempty [OF seq])
  have "\<exists>t. Reads C (t0\<lparr>RekeyInterval := k\<rparr>) ns = Some (concat ps, Some EOF, t)"
    if t0: "NewV3CipherStream w' (Reader (concat (map snd prs)) EOF) ks cid sid (\<not> client) = Inr t0"
      and ns: "list_all (\<lambda>n. 0 < n) ns" "length (concat ps) < length ns" for w' t0 ns
  proof -
    note it = NewV3CipherStream_Inr [OF t0 new(2)]
    let ?t = "t0\<lparr>RekeyInterval := k\<rparr>"
    have same: "rchan ?t = wchan s" using it init by (simp add: rchan_def wchan_def s)
    have "at_records C ?t 0 prs"
      using it init seq window_rel_new len nonempty_count [OF ne] plain
      unfolding at_records_def wf_read_def same
      by (auto simp: cache_ok_def chan_ok_def wchan_def s new(2))
    moreover have "length (readPlainBuf ?t @ concat (map fst prs)) < length ns" using it plain ns by simp
    ultimately show ?thesis
      using Reads_all [OF C _ ne ns(1), of ?t 0] plain it by simp
  qed
  with w1 show ?thesis by blast
qed

definition fixed_rand :: record_rand where
  "fixed_rand = \<lparr>rand_Int = (\<lambda>n. if n = 0 then None else Some (n - 1)), rand_Read = (\<lambda>n. Some (replicate n 5))\<rparr>"

definition sample_keys :: V3SessionKeys where
  "sample_keys = \<lparr>Seed = replicate 32 1, C2SNoncePrefix = [1, 2, 3, 4], S2CNoncePrefix = [5, 6, 7, 8]\<rparr>"

lemma sample_stream:
  "\<exists>s. NewV3CipherStream w r sample_keys 1 sid client = Inr s" "rand_ok fixed_rand" "length (Seed sample_keys) = 32"
  by (auto simp: NewV3CipherStream_def sample_keys_def isSupportedCipherV3_def ProtocolCipherChaCha20Poly1305_def
      fixed_rand_def rand_ok_def split: if_splits)

theorem cipher_stream_roundtrip_witness:
  "\<exists>s0. NewV3CipherStream [] (Reader [] EOF) sample_keys 1 1 True = Inr s0 \<and>
    (\<exists>s1 bs. Writes plain_crypto buffer_writer (\<lambda>_. fixed_rand)
        (s0\<lparr>RekeyInterval := 2, PadRecords := True, CoalesceDelay := 0\<rparr>) [[1, 2, 3], [4]] = (None, s1) \<and>
      innerW (snd (Close plain_crypto buffer_writer (\<lambda>_. fixed_rand) (\<lambda>w. (None, w)) s1)) = [] @ bs \<and>
      (\<exists>t0 t. NewV3CipherStream ([] :: bytes) (Reader bs EOF) sample_keys 1 1 (\<not> True) = Inr t0 \<and>
        Reads plain_crypto (t0\<lparr>RekeyInterval := 2\<rparr>) [2, 9, 9, 9, 9] =
          Some (concat [[1, 2, 3], [4]], Some EOF, t)))"
proof -
  obtain s0 where s0: "NewV3CipherStream ([] :: bytes) (Reader [] EOF) sample_keys 1 1 True = Inr s0"
    using sample_stream(1) [of "[]" "Reader [] EOF" 1 True] by blast
  have R: "\<forall>c :: u64. rand_ok fixed_rand" using sample_stream(2) by simp
  have "\<exists>s1 bs. Writes plain_crypto buffer_writer (\<lambda>_. fixed_rand)
      (s0\<lparr>RekeyInterval := 2, PadRecords := True, CoalesceDelay := 0\<rparr>) [[1, 2, 3], [4]] = (None, s1) \<and>
    innerW (snd (Close plain_crypto buffer_writer (\<lambda>_. fixed_rand) (\<lambda>w. (None, w)) s1)) = [] @ bs \<and>
    (\<forall>(w' :: bytes) t0 ns. NewV3CipherStream w' (Reader bs EOF) sample_keys 1 1 (\<not> True) = Inr t0 \<longrightarrow>
       list_all (\<lambda>n. 0 < n) ns \<longrightarrow> length (concat [[1, 2, 3], [4 :: byte]]) < length ns \<longrightarrow>
       (\<exists>t. Reads plain_crypto (t0\<lparr>RekeyInterval := 2\<rparr>) ns = Some (concat [[1, 2, 3], [4]], Some EOF, t)))"
    by (rule cipher_stream_roundtrip [OF bufs.full_writer_axioms TrueI _ plain_crypto_laws(2,3) R s0 sample_stream(3) refl])
      simp_all
  then show ?thesis
  proof (elim exE conjE)
    fix s1 bs
    assume r: "Writes plain_crypto buffer_writer (\<lambda>_. fixed_rand)
        (s0\<lparr>RekeyInterval := 2, PadRecords := True, CoalesceDelay := 0\<rparr>) [[1, 2, 3], [4]] = (None, s1)"
      "innerW (snd (Close plain_crypto buffer_writer (\<lambda>_. fixed_rand) (\<lambda>w. (None, w)) s1)) = [] @ bs"
      and rd: "\<forall>(w' :: bytes) t0 ns. NewV3CipherStream w' (Reader bs EOF) sample_keys 1 1 (\<not> True) = Inr t0 \<longrightarrow>
        list_all (\<lambda>n. 0 < n) ns \<longrightarrow> length (concat [[1, 2, 3], [4 :: byte]]) < length ns \<longrightarrow>
        (\<exists>t. Reads plain_crypto (t0\<lparr>RekeyInterval := 2\<rparr>) ns = Some (concat [[1, 2, 3], [4]], Some EOF, t))"
    obtain t0 where t0: "NewV3CipherStream ([] :: bytes) (Reader bs EOF) sample_keys 1 1 (\<not> True) = Inr t0"
      using sample_stream(1) [of "[]" "Reader bs EOF" 1 "\<not> True"] by blast
    have "list_all (\<lambda>n. 0 < n) [2, 9, 9, 9, 9 :: nat]"
      "length (concat [[1, 2, 3], [4 :: byte]]) < length [2, 9, 9, 9, 9 :: nat]" by simp_all
    then obtain t where "Reads plain_crypto (t0\<lparr>RekeyInterval := 2\<rparr>) [2, 9, 9, 9, 9] =
        Some (concat [[1, 2, 3], [4]], Some EOF, t)"
      using rd [rule_format, OF t0] by blast
    with s0 r t0 show ?thesis by (intro exI conjI)
  qed
qed

text \<open>
  C11. Nonces are never reused: for any sequence of writes and \<open>Close\<close>, the emitted
  bytes are records numbered 1, 2, 3 and so on, each sealed under the nonce made of the
  direction's prefix and its number, these nonces are pairwise distinct, and each record has
  between 31 and 1428 bytes; a stream whose counter is exhausted refuses to write.
\<close>

lemma record_counters_unique:
  assumes W: "full_writer W ok sink" "ok w" "\<forall>w. sink (snd (innerClose w)) = sink w"
    and C: "hkdf_total C" "aead_correct C" and R: "\<forall>c. rand_ok (R c)"
    and new: "NewV3CipherStream w r ks cid sid client = Inr s0" "length (Seed ks) = 32"
    and s: "s = s0\<lparr>RekeyInterval := k, PadRecords := pd, CoalesceDelay := d\<rparr>"
    and len: "length (concat ps) + 1 < 2 ^ 64"
  shows "(\<exists>s1 recs. Writes C W R s ps = (None, s1) \<and>
      sink (innerW (snd (Close C W R innerClose s1))) = sink w @ concat recs \<and>
      (\<forall>i<length recs. take 8 (recs ! i) = put64 (word_of_nat (i + 1)) \<and>
         31 \<le> length (recs ! i) \<and> length (recs ! i) \<le> 1428 \<and>
         (\<exists>p. sealed C (wchan s) (word_of_nat (i + 1)) p (recs ! i))) \<and>
      distinct (map (\<lambda>i. recordNonce (writeNoncePrefix s) (word_of_nat (i + 1))) [0..<length recs])) \<and>
    (\<forall>t p. writeCounter t = - 1 \<longrightarrow> 0 < length p \<longrightarrow> length p \<le> maxV3RecordPlaintext \<longrightarrow>
      writeRecordLocked C W R t p = (Some (Errorf ''write counter overflow''), t))"
proof -
  note init = NewV3CipherStream_Inr [OF new]
  obtain s1 prs where w1: "Writes C W R s ps = (None, s1)"
    "sink (innerW (snd (Close C W R innerClose s1))) = sink w @ concat (map snd prs)"
    and seq: "sealed_seq C (wchan s) 0 prs" and plain: "concat (map fst prs) = concat ps"
    using written_records [OF assms(1-4,6-10)] by blast
  have few: "length prs + 1 < 2 ^ 64"
    using nonempty_count [OF sealed_seq_nonempty [OF seq]] len plain by simp
  have shape: "sealed C (wchan s) (word_of_nat (i + 1)) (fst (prs ! i)) (map snd prs ! i)"
    if "i < length prs" for i
    using sealed_seq_nth [OF seq that] that by (simp add: add.commute)
  have "inj_on (\<lambda>i. recordNonce (writeNoncePrefix s) (word_of_nat (i + 1))) {0..<length prs}"
  proof (rule inj_onI)
    fix i j assume ij: "i \<in> {0..<length prs}" "j \<in> {0..<length prs}"
      and eq: "recordNonce (writeNoncePrefix s) (word_of_nat (i + 1)) = recordNonce (writeNoncePrefix s) (word_of_nat (j + 1))"
    have "length (writeNoncePrefix s) = 4" using init by (auto simp: s)
    then have "unat (word_of_nat (i + 1) :: u64) = unat (word_of_nat (j + 1) :: u64)"
      using eq by (simp add: recordNonce_layout del: of_nat_add of_nat_Suc)
    then show "i = j" using ij few by (simp add: unsigned_of_nat take_bit_nat_eq_self del: of_nat_add of_nat_Suc)
  qed
  then have "distinct (map (\<lambda>i. recordNonce (writeNoncePrefix s) (word_of_nat (i + 1))) [0..<length (map snd prs)])"
    by (simp add: distinct_map del: of_nat_add of_nat_Suc)
  moreover have "\<forall>i<length (map snd prs). take 8 (map snd prs ! i) = put64 (word_of_nat (i + 1)) \<and>
      31 \<le> length (map snd prs ! i) \<and> length (map snd prs ! i) \<le> 1428 \<and>
      (\<exists>p. sealed C (wchan s) (word_of_nat (i + 1)) p (map snd prs ! i))"
    using shape sealed_shape [OF C(2) shape] by (metis length_map)
  moreover have "writeRecordLocked C W R t p = (Some (Errorf ''write counter overflow''), t)"
    if "writeCounter t = - 1" "0 < length p" "length p \<le> maxV3RecordPlaintext" for t p
    using that by (simp add: writeRecordLocked_def)
  ultimately show ?thesis using w1 by blast
qed

lemmas sample_rand = allI [of "\<lambda>c :: u64. rand_ok fixed_rand", OF sample_stream(2)]

theorem record_counters_unique_witness:
  "\<exists>s0. NewV3CipherStream [] (Reader [] EOF) sample_keys 1 1 True = Inr s0 \<and>
    (\<exists>s1 recs. Writes plain_crypto buffer_writer (\<lambda>_. fixed_rand)
        (s0\<lparr>RekeyInterval := 2, PadRecords := True, CoalesceDelay := 0\<rparr>) [[1, 2, 3], [4]] = (None, s1) \<and>
      innerW (snd (Close plain_crypto buffer_writer (\<lambda>_. fixed_rand) (\<lambda>w. (None, w)) s1)) = [] @ concat recs)"
proof -
  obtain s0 where s0: "NewV3CipherStream ([] :: bytes) (Reader [] EOF) sample_keys 1 1 True = Inr s0"
    using sample_stream(1) [of "[]" "Reader [] EOF" 1 True] by blast
  note c = record_counters_unique [OF bufs.full_writer_axioms TrueI _ plain_crypto_laws(2,3) sample_rand s0
      sample_stream(3) refl, where innerClose = "\<lambda>w. (None, w)" and ps = "[[1, 2, 3], [4]]"
      and k = 2 and pd = True and d = 0, THEN conjunct1]
  have pre: "\<forall>w. snd (None :: go_error option, w) = (w :: bytes)" "length (concat [[1, 2, 3], [4 :: byte]]) + 1 < 2 ^ 64"
    by simp_all
  from c [OF pre] s0 show ?thesis by (elim exE conjE) (intro exI conjI)
qed

definition authentic :: "crypto \<Rightarrow> 'w V3CipherStream \<Rightarrow> bytes \<Rightarrow> bytes \<Rightarrow> bytes \<Rightarrow> bool" where
  "authentic C s head body payload \<longleftrightarrow>
    (\<exists>a. genKey C (rchan s) (recordGen (RekeyInterval s) (get64 (take 8 head))) = Inr a \<and>
      aead_Open C (cipherID s) a (recordNonce (readNoncePrefix s) (get64 (take 8 head))) body head = Some payload)"

definition read_outcome ::
  "crypto \<Rightarrow> 'w V3CipherStream \<Rightarrow> nat set \<Rightarrow> bytes \<Rightarrow> go_error option \<Rightarrow> 'w V3CipherStream \<Rightarrow> bool" where
  "read_outcome C s S out err s' \<longleftrightarrow>
    (case err of
       None \<Rightarrow>
         (\<exists>head body payload c. rdata (innerR s) = head @ body @ rdata (innerR s') \<and> length head = 12 \<and>
           c = unat (get64 (take 8 head)) \<and> 0 < c \<and> c \<notin> S \<and> window_rel (readWindow s') (insert c S) \<and>
           authentic C s head body payload \<and> out \<noteq> [] \<and>
           out @ readPlainBuf s' = take (unat (get16 (take 2 payload))) (drop 2 payload))
     | Some e \<Rightarrow>
         out = [] \<and> readPlainBuf s' = [] \<and>
         (window_rel (readWindow s') S \<or>
          (\<exists>head body payload. authentic C s head body payload \<and>
             window_rel (readWindow s') (insert (unat (get64 (take 8 head))) S))))"

lemma openRecord_outcome:
  assumes win: "window_rel (readWindow s) S" and buf: "readPlainBuf s = []" and n: "0 < n"
    and key: "readAEAD s = Some a" "genKey C (rchan s) (recordGen (RekeyInterval s) (get64 (take 8 head))) = Inr a"
    and c: "get64 (take 8 head) \<noteq> - 1" and h: "length head = 12"
    and run: "openRecord C s n head body = Some ((out, err), s')"
    and t: "rdata (innerR t) = head @ body @ rdata (innerR s)" "rchan t = rchan s" "RekeyInterval t = RekeyInterval s"
      "cipherID t = cipherID s" "readNoncePrefix t = readNoncePrefix s"
  shows "read_outcome C t S out err s'"
proof (cases "aead_Open C (cipherID s) a (recordNonce (readNoncePrefix s) (get64 (take 8 head))) body head")
  case None
  with run key win buf show ?thesis by (auto simp: openRecord_def slice_def read_outcome_def Let_def)
next
  case (Some payload)
  have au: "authentic C t head body payload" using Some key t by (auto simp: authentic_def)
  let ?c = "get64 (take 8 head)"
  have "unat ?c + 1 < 2 ^ 64" by (rule u64_below_max [OF c])
  then obtain win' where chk: "checkAndAdd (readWindow s) ?c = Some (spec_accepts S (unat ?c), win')"
    and rel: "window_rel win' (if spec_accepts S (unat ?c) then insert (unat ?c) S else S)"
    using checkAndAdd_refines [OF win] by blast
  show ?thesis
  proof (cases err)
    case err: (Some e)
    have "out = [] \<and> readPlainBuf s' = [] \<and> (readWindow s' = readWindow s \<or> readWindow s' = win')"
      using run Some key chk buf err by (auto simp: openRecord_def slice_def Let_def split: if_splits)
    moreover have "window_rel win' S \<or> window_rel win' (insert (unat ?c) S)"
      using rel by (simp split: if_splits)
    ultimately show ?thesis
      using au win err unfolding read_outcome_def by auto
  next
    case err: None
    have acc: "spec_accepts S (unat ?c)"
      and len: "1 \<le> unat (get16 (take 2 payload))" "2 + unat (get16 (take 2 payload)) \<le> length payload"
      and res: "out = take n (take (unat (get16 (take 2 payload))) (drop 2 payload))"
        "readPlainBuf s' = drop n (take (unat (get16 (take 2 payload))) (drop 2 payload))"
        "innerR s' = innerR s" "readWindow s' = win'"
      using run Some key chk err
      by (auto simp: openRecord_def slice_def Let_def v3PlainLenSize_def split: if_splits)
    have "out \<noteq> []" using res(1) len n by (auto simp: take_eq_Nil)
    moreover have "out @ readPlainBuf s' = take (unat (get16 (take 2 payload))) (drop 2 payload)"
      unfolding res by (rule append_take_drop_id)
    moreover have "0 < unat ?c" "unat ?c \<notin> S" "window_rel (readWindow s') (insert (unat ?c) S)"
      using acc rel res(4) by (simp_all add: spec_accepts_def)
    ultimately show ?thesis
      unfolding read_outcome_def err option.case
      using h au t(1) res(3) by (intro exI [of _ head] exI [of _ body] exI [of _ payload] exI) simp_all
  qed
qed

text \<open>
  C12. Reading arbitrary bytes: when the window holds the set \<open>S\<close> of counters accepted so
  far, a \<open>Read\<close> of a new record either delivers plaintext of a ciphertext that authenticated
  under the key of its counter's generation, whose counter is positive and not in \<open>S\<close> and is
  then added to it; or it returns an error with no plaintext, and the window still holds \<open>S\<close>
  unless the record authenticated. No record is delivered twice and forged headers do not
  move the window.
\<close>

lemma Read_arbitrary_input:
  assumes win: "window_rel (readWindow s) S" and buf: "readPlainBuf s = []" and n: "0 < n"
    and key: "cache_ok C (rchan s) (readAEAD s) (readGen s)"
    and c: "get64 (take 8 (rdata (innerR s))) \<noteq> - 1"
    and run: "Read C s n = Some ((out, err), s')"
  shows "read_outcome C s S out err s'"
proof (cases "read_full v3RecordHeaderSize (innerR s)")
  case (Inl e)
  with run buf n win show ?thesis by (auto simp: Read_def read_outcome_def)
next
  case (Inr hr)
  obtain head r where hr: "hr = (head, r)" by (cases hr)
  have h: "length head = 12" "rdata (innerR s) = head @ rdata r"
    using Inr hr by (auto simp: read_full_Inr v3RecordHeaderSize_def)
  have ch: "get64 (take 8 head) \<noteq> - 1" using c h by simp
  let ?c = "get64 (take 8 head)" and ?n = "unat (get16 (slice 8 10 head))"
  let ?gen = "recordGen (RekeyInterval s) ?c"
  have af: "aeadFor C (keys s) (cipherID s) (readC2S s) (streamID s) ?gen (readAEAD s) (readGen s) = genKey C (rchan s) ?gen"
    using aeadFor_genKey [OF key, of ?gen] by (simp add: rchan_def)
  show ?thesis
  proof (cases "\<not> ?c < 1 \<and> \<not> ?n < v3PlainLenSize + 1 \<and> \<not> ?n > maxV3RecordPayload")
    case False
    with run buf n win Inr hr show ?thesis
      by (auto simp: Read_def read_outcome_def Let_def slice_def split: if_splits)
  next
    case ok: True
    show ?thesis
    proof (cases "genKey C (rchan s) ?gen")
      case (Inl e)
      with run buf n win Inr hr ok af show ?thesis
        by (auto simp: Read_def read_outcome_def Let_def slice_def split: if_splits)
    next
      case key': (Inr a)
      show ?thesis
      proof (cases "read_full (?n + 16) r")
        case (Inl e)
        with run buf n win Inr hr ok af key' show ?thesis
          by (auto simp: Read_def read_outcome_def Let_def slice_def split: if_splits)
      next
        case body: (Inr br)
        obtain b r' where br: "br = (b, r')" by (cases br)
        let ?t = "s\<lparr>innerR := r, readAEAD := Some a, readGen := ?gen, innerR := r'\<rparr>"
        have "openRecord C ?t n head b = Some ((out, err), s')"
          using run buf n Inr hr ok af key' body br
          by (auto simp: Read_def Let_def slice_def split: if_splits)
        then show ?thesis
          by (rule openRecord_outcome [where a = a, rotated 7])
            (use win buf n ch h key' body br in \<open>simp_all add: rchan_def read_full_Inr\<close>)
      qed
    qed
  qed
qed

theorem Read_arbitrary_input_witness:
  "\<exists>t :: bytes V3CipherStream. \<exists>t'. Read plain_crypto t 5 = Some (([7], None), t') \<and>
    read_outcome plain_crypto t {} [7] None t'"
proof -
  obtain t0 :: "bytes V3CipherStream" where t0: "NewV3CipherStream [] (Reader [] EOF) sample_keys 1 1 True = Inr t0"
    using sample_stream(1) [of "[]" "Reader [] EOF" 1 True] by blast
  note it = NewV3CipherStream_Inr [OF t0 sample_stream(3)]
  have ok: "chan_ok (rchan t0)" using it sample_stream(3) by (simp add: chan_ok_def rchan_def)
  obtain a where a: "genKey plain_crypto (rchan t0) (recordGen (chRekey (rchan t0)) (0 + 1)) = Inr a"
    using genKey_ok [OF plain_crypto_laws(2) ok] by blast
  define payload where "payload = put16 (word_of_nat (length [7 :: byte])) @ [7] @ []"
  define rec where "rec = recordHeader (0 + 1) (length payload) @ aead_Seal plain_crypto (chCipher (rchan t0)) a
    (recordNonce (chPrefix (rchan t0)) (0 + 1)) payload (recordHeader (0 + 1) (length payload))"
  have rec: "sealed plain_crypto (rchan t0) (0 + 1) [7] rec"
    unfolding sealed_def rec_def payload_def
    by (intro exI [of _ a] exI [of _ "[]"]) (use a in simp)
  let ?t = "t0\<lparr>innerR := Reader rec EOF\<rparr>"
  have ch: "rchan ?t = rchan t0" by (simp add: rchan_def)
  have at: "at_records plain_crypto ?t 0 [([7], rec)]"
    using it rec window_rel_new ok unfolding at_records_def wf_read_def ch by (simp add: cache_ok_def)
  obtain t' where r: "Read plain_crypto ?t 5 = Some ((take 5 [7], None), t')"
    using Read_record [OF plain_crypto_laws(2,3) _ at, of 5] it by auto
  have "get64 (take 8 (rdata (innerR ?t))) \<noteq> - 1"
    using sealed_shape [OF plain_crypto_laws(3) rec] by simp
  then have "read_outcome plain_crypto ?t {} (take 5 [7]) None t'"
    by (intro Read_arbitrary_input [OF _ _ _ _ _ r]) (use it window_rel_new in \<open>simp_all add: cache_ok_def\<close>)
  with r show ?thesis by auto
qed

end
