(* ===== verification/Wire_Tai64n.thy ===== *)
theory Wire_Tai64n
  imports Prelude
begin

text \<open>
  \<open>internal/wire/protocol_tai64n.go\<close>: the 12-byte TAI64N timestamp. Seconds are kept at 64
  bits with the wrap-around of the source. The properties: decoding inverts encoding for
  every time from 1970 on, encoding inverts decoding on every accepted label, and the
  byte-wise comparison of labels is the comparison of the times.
\<close>

section \<open>Model\<close>

definition tai64Base :: u64 where
  "tai64Base = push_bit 62 1"

definition EncodeTAI64N :: "gotime \<Rightarrow> bytes" where
  "EncodeTAI64N t =
    (let sec = word_of_int (time_Unix t) + tai64Base;
         nanos = word_of_int (time_Nanosecond t)
     in put64 sec @ put32 nanos)"

definition DecodeTAI64N :: "bytes \<Rightarrow> gotime result" where
  "DecodeTAI64N b =
    (if length b \<noteq> 12 then Inl (Errorf ''tai64n timestamp must be 12 bytes'')
     else
       (let sec = get64 (take 8 b) in
        if sec < tai64Base then Inl (Errorf ''invalid tai64n seconds'')
        else
          (let nanos = get32 (slice 8 12 b) in
           if unat nanos \<ge> 1000000000 then Inl (Errorf ''invalid tai64n nanoseconds'')
           else
             (let unixSec = sint (sec - tai64Base) in
              Inr (time_of_unix unixSec (int (unat nanos)))))))"

fun bytes_Compare :: "bytes \<Rightarrow> bytes \<Rightarrow> int" where
  "bytes_Compare [] [] = 0"
| "bytes_Compare [] (_ # _) = -1"
| "bytes_Compare (_ # _) [] = 1"
| "bytes_Compare (a # x) (b # y) = (if a < b then -1 else if b < a then 1 else bytes_Compare x y)"

definition CompareTAI64N :: "bytes \<Rightarrow> bytes \<Rightarrow> int" where
  "CompareTAI64N a b = bytes_Compare a b"

section \<open>Lemmas\<close>

lemma unat_tai64Base [simp]: "unat tai64Base = 2 ^ 62"
  by (simp add: tai64Base_def)

lemma bytes_Compare_be_nat:
  "length x = length y \<Longrightarrow> bytes_Compare x y = sgn (int (be_nat x) - int (be_nat y))"
proof (induction x y rule: bytes_Compare.induct)
  case (4 a x b y)
  let ?P = "256 ^ length x :: nat"
  have l: "length y = length x" using "4.prems" by simp
  have bx: "be_nat x < ?P" "be_nat y < ?P"
    using be_nat_less [of x] be_nat_less [of y] by (simp_all add: l)
  have gap: "be_nat (c # u) < be_nat (d # v)"
    if "c < d" "length u = length x" "length v = length x" for c d :: byte and u v
  proof -
    have "unat c + 1 \<le> unat d" using that(1) by (simp add: word_less_nat_alt)
    then have "(unat c + 1) * ?P \<le> unat d * ?P" by (rule mult_le_mono1)
    then show ?thesis using be_nat_less [of u] that by (simp add: add_mult_distrib)
  qed
  consider "a < b" | "b < a" | "a = b" by fastforce
  then show ?case
  proof cases
    case 1
    then show ?thesis using gap [of a b x y] l by (simp del: be_nat.simps)
  next
    case 2
    then show ?thesis using gap [of b a y x] l by (simp del: be_nat.simps)
  next
    case 3
    then show ?thesis using "4.IH" l by simp
  qed
qed auto

lemma be_nat_append: "be_nat (x @ y) = be_nat x * 256 ^ length y + be_nat y"
  by (induction x) (simp_all add: power_add algebra_simps)

lemma be_nat_put [simp]: "be_nat (put32 v) = unat v" "be_nat (put64 u) = unat u"
  using unsigned_less [of v, where ?'a = nat] unsigned_less [of u, where ?'a = nat]
  by (simp_all add: put32_def put64_def be_nat_be_put)

lemma nanos_word:
  "unat (word_of_int (time_Nanosecond t) :: u32) = nat (time_Nanosecond t)" "time_Nanosecond t < 1000000000"
  "0 \<le> time_Nanosecond t"
proof -
  have b: "0 \<le> time_Nanosecond t" "time_Nanosecond t < 1000000000"
    by (simp_all add: time_Nanosecond_def second_def)
  then show "time_Nanosecond t < 1000000000" "0 \<le> time_Nanosecond t" by auto
  have "uint (word_of_int (time_Nanosecond t) :: u32) = time_Nanosecond t"
    using b by (simp add: unsigned_of_int take_bit_int_eq_self)
  then show "unat (word_of_int (time_Nanosecond t) :: u32) = nat (time_Nanosecond t)"
    by (metis nat_uint_eq)
qed

text \<open>The times the theorems range over: from 1970 on, with seconds that \<open>time.Time\<close> can hold.\<close>

definition unix_time :: "gotime \<Rightarrow> bool" where
  "unix_time t \<longleftrightarrow> unixToInternal \<le> t div second \<and> t div second < 2 ^ 63"

lemma unix_time_Unix:
  assumes "unix_time t"
  shows "time_Unix t = t div second - unixToInternal" "0 \<le> time_Unix t" "time_Unix t < 2 ^ 63"
    "t = (time_Unix t + unixToInternal) * second + time_Nanosecond t"
    "time_of_unix (time_Unix t) (time_Nanosecond t) = t"
proof -
  have b: "unixToInternal \<le> t div second" "t div second < 2 ^ 63" "0 \<le> unixToInternal"
    using assms by (auto simp: unix_time_def unixToInternal_def)
  then show u: "time_Unix t = t div second - unixToInternal"
    unfolding time_Unix_def by (intro int64_ident) auto
  then show "0 \<le> time_Unix t" "time_Unix t < 2 ^ 63" using b by auto
  show e: "t = (time_Unix t + unixToInternal) * second + time_Nanosecond t"
    by (simp add: u time_Nanosecond_def second_def)
  have "int64 (time_Unix t + unixToInternal) = time_Unix t + unixToInternal"
    using b by (intro int64_ident) (auto simp: u)
  then show "time_of_unix (time_Unix t) (time_Nanosecond t) = t"
    unfolding time_of_unix_def using e by simp
qed

lemma encode_sec:
  assumes "unix_time t"
  shows "unat (word_of_int (time_Unix t) + tai64Base :: u64) = nat (time_Unix t) + 2 ^ 62"
proof -
  have "uint (word_of_int (time_Unix t) :: u64) = time_Unix t"
    using unix_time_Unix(2,3) [OF assms] by (simp add: unsigned_of_int take_bit_int_eq_self)
  then have "unat (word_of_int (time_Unix t) :: u64) = nat (time_Unix t)"
    by (metis nat_uint_eq)
  moreover have "nat (time_Unix t) < 2 ^ 63"
    using unix_time_Unix(3) [OF assms] by simp
  ultimately show ?thesis
    by (simp add: unat_word_ariths)
qed

lemma decode_encode:
  assumes t: "unix_time t"
  shows "DecodeTAI64N (EncodeTAI64N t) = Inr t"
proof -
  let ?s = "word_of_int (time_Unix t) + tai64Base :: u64"
  have ge: "\<not> ?s < tai64Base" using encode_sec [OF t] by (simp add: word_less_nat_alt)
  have sint: "sint (?s - tai64Base) = time_Unix t"
    using int64_ident [of "time_Unix t"] unix_time_Unix(2,3) [OF t] by (simp add: int64_def)
  have "\<not> unat (word_of_int (time_Nanosecond t) :: u32) \<ge> 1000000000"
    using nanos_word [of t] by simp
  then show ?thesis
    using ge sint nanos_word [of t] unix_time_Unix(5) [OF t]
    by (simp add: DecodeTAI64N_def EncodeTAI64N_def Let_def slice_def)
qed

lemma encode_decode:
  assumes d: "DecodeTAI64N b = Inr u"
  shows "EncodeTAI64N u = b"
proof -
  let ?sec = "get64 (take 8 b)" and ?ns = "get32 (slice 8 12 b)"
  have l: "length b = 12" and ns: "unat ?ns < 1000000000"
    and u: "u = time_of_unix (sint (?sec - tai64Base)) (int (unat ?ns))"
    using d by (auto simp: DecodeTAI64N_def Let_def split: if_splits)
  have n: "0 \<le> int (unat ?ns)" "int (unat ?ns) < second"
    using ns by (simp_all only: second_def of_nat_less_numeral_iff of_nat_0_le_iff)
  have "word_of_int (time_Unix u) + tai64Base = ?sec"
    using time_Unix_of_unix [OF n] by (simp add: u)
  moreover have "(word_of_int (time_Nanosecond u) :: u32) = ?ns"
    using time_Nanosecond_of_unix [OF n] by (simp add: u)
  moreover have "put64 ?sec = take 8 b" "put32 ?ns = drop 8 b"
    using l by (simp_all add: slice_def)
  ultimately show ?thesis
    by (simp add: EncodeTAI64N_def Let_def)
qed

section \<open>Properties\<close>

text \<open>
  TAI64N round trip. Every time from 1970 on that fits Go's range decodes from its own
  encoding, and every 12-byte label that \<open>DecodeTAI64N\<close> accepts (also one whose seconds
  wrap to a time before 1970) is reproduced exactly by \<open>EncodeTAI64N\<close> of the decoded time.
\<close>

lemma tai64n_roundtrip:
  "(unix_time t \<longrightarrow> DecodeTAI64N (EncodeTAI64N t) = Inr t) \<and>
   (DecodeTAI64N b = Inr u \<longrightarrow> EncodeTAI64N u = b)"
  using decode_encode encode_decode by blast

theorem tai64n_roundtrip_witness:
  "DecodeTAI64N (EncodeTAI64N (unixToInternal * second + 7)) = Inr (unixToInternal * second + 7) \<and>
   EncodeTAI64N (unixToInternal * second + 7) = EncodeTAI64N (unixToInternal * second + 7)"
proof -
  have t: "unix_time (unixToInternal * second + 7)"
    by (simp add: unix_time_def unixToInternal_def second_def)
  show ?thesis using tai64n_roundtrip t by blast
qed

text \<open>
  Comparing two TAI64N labels byte by byte is comparing the times they stand for: the
  result is -1, 0 or 1 as the first time is before, equal to or after the second.
\<close>

lemma CompareTAI64N_order:
  assumes "unix_time s" and "unix_time t"
  shows "CompareTAI64N (EncodeTAI64N s) (EncodeTAI64N t) = sgn (s - t)"
proof -
  have be: "int (be_nat (EncodeTAI64N v)) = (time_Unix v + 2 ^ 62) * 2 ^ 32 + time_Nanosecond v"
    if "unix_time v" for v
    using encode_sec [OF that] nanos_word [of v] unix_time_Unix(2) [OF that]
    by (simp add: EncodeTAI64N_def Let_def be_nat_append)
  have lin: "(time_Unix v + 2 ^ 62) * 2 ^ 32 + time_Nanosecond v
      < (time_Unix w + 2 ^ 62) * 2 ^ 32 + time_Nanosecond w \<longleftrightarrow> v < w"
    if "unix_time v" "unix_time w" for v w
  proof -
    note ev = unix_time_Unix(4) [OF that(1)] and ew = unix_time_Unix(4) [OF that(2)]
    have "v < w \<longleftrightarrow> time_Unix v * 1000000000 + time_Nanosecond v < time_Unix w * 1000000000 + time_Nanosecond w"
      by (subst ev, subst ew) (simp add: second_def algebra_simps)
    then show ?thesis
      using nanos_word(2,3) [of v] nanos_word(2,3) [of w]
      by (cases "time_Unix v" "time_Unix w" rule: linorder_cases) auto
  qed
  have "length (EncodeTAI64N s) = length (EncodeTAI64N t)" by (simp add: EncodeTAI64N_def Let_def)
  then show ?thesis
    using lin [OF assms] lin [OF assms(2,1)] bytes_Compare_be_nat [of "EncodeTAI64N s" "EncodeTAI64N t"]
    by (auto simp: CompareTAI64N_def be assms sgn_if)
qed

theorem CompareTAI64N_order_witness:
  "CompareTAI64N (EncodeTAI64N (unixToInternal * second)) (EncodeTAI64N (unixToInternal * second + 7)) =
     sgn (unixToInternal * second - (unixToInternal * second + 7))"
  by (rule CompareTAI64N_order) (simp_all add: unix_time_def unixToInternal_def second_def)

end
