(* ===== verification/Server_Caches.thy ===== *)
theory Server_Caches
  imports Go_Net Wire_Tai64n "HOL-Library.AList"
begin

text \<open>
  The state the server keeps between handshakes (\<open>internal/app/server.go\<close> and
  \<open>internal/app/tai64n_cache.go\<close>): the cache of handshake nonces with its time to live and
  first-in-first-out eviction, the LRU table of the last TAI64N label of each session, and
  the table of client sessions with their channels and stream counts. The contract of the
  nonce cache is the locale \<open>replay_guard\<close>, interpreted on \<open>seenOrStore\<close>.
\<close>

section \<open>Nonce replay cache\<close>

definition hex_digit :: "nat \<Rightarrow> char" where
  "hex_digit d = (if d < 10 then char_of (48 + d) else char_of (87 + d))"

definition hex_EncodeToString :: "bytes \<Rightarrow> string" where
  "hex_EncodeToString bs = concat (map (\<lambda>b. [hex_digit (unat b div 16), hex_digit (unat b mod 16)]) bs)"

text \<open>\<open>fmt.Sprintf("%x:%d:%x", sessionID, channelID, nonce)\<close>.\<close>

definition nonceKey :: "bytes \<Rightarrow> u32 \<Rightarrow> bytes \<Rightarrow> string" where
  "nonceKey sessionID channelID nonce =
    hex_EncodeToString sessionID @ '':'' @ Itoa (int (unat channelID)) @ '':'' @ hex_EncodeToString nonce"

record nonceReplayCache =
  ncMax :: int
  ncEntries :: "string \<rightharpoonup> gotime"
  ncOrder :: "string list"

definition newNonceReplayCache :: "int \<Rightarrow> nonceReplayCache" where
  "newNonceReplayCache mx =
    \<lparr>ncMax = (if mx \<le> 0 then 65536 else mx), ncEntries = Map.empty, ncOrder = []\<rparr>"

fun purgeLoop :: "gotime \<Rightarrow> (string \<rightharpoonup> gotime) \<Rightarrow> string list \<Rightarrow> string list \<Rightarrow> (string \<rightharpoonup> gotime) \<times> string list" where
  "purgeLoop cutoff entries filtered [] = (entries, filtered)"
| "purgeLoop cutoff entries filtered (key # keys) =
    (case entries key of
       Some t \<Rightarrow>
         if t < cutoff then purgeLoop cutoff (entries(key := None)) filtered keys
         else purgeLoop cutoff entries (filtered @ [key]) keys
     | None \<Rightarrow> purgeLoop cutoff entries filtered keys)"

function evictLoop :: "int \<Rightarrow> (string \<rightharpoonup> gotime) \<Rightarrow> string list \<Rightarrow> (string \<rightharpoonup> gotime) \<times> string list" where
  "evictLoop mx entries order =
    (if order \<noteq> [] \<and> int (length order) > mx
     then evictLoop mx (entries(hd order := None)) (tl order)
     else (entries, order))"
  by pat_completeness auto
termination
  by (relation "measure (\<lambda>(mx, entries, order). length order)") auto

declare evictLoop.simps [simp del]

definition seenOrStore ::
  "nonceReplayCache \<Rightarrow> bytes \<Rightarrow> u32 \<Rightarrow> bytes \<Rightarrow> gotime \<Rightarrow> duration \<Rightarrow> bool \<times> nonceReplayCache" where
  "seenOrStore c sessionID channelID nonce now ttl =
    (let (entries, order) =
           (if ttl > 0 then purgeLoop (now - ttl) (ncEntries c) [] (ncOrder c) else (ncEntries c, ncOrder c));
         key = nonceKey sessionID channelID nonce
     in
     if entries key \<noteq> None then (True, c\<lparr>ncEntries := entries, ncOrder := order\<rparr>)
     else
       (let (entries, order) = evictLoop (ncMax c) (entries(key \<mapsto> now)) (order @ [key]) in
        (False, c\<lparr>ncEntries := entries, ncOrder := order\<rparr>)))"

section \<open>TAI64N cache\<close>

text \<open>
  The list of entries is the eviction list, most recent first; the map from session to list
  element is the search in it by session (the two agree: both are keyed by the session).
\<close>

record tai64nEntry =
  teSession :: bytes
  teLast :: bytes

record tai64nCache =
  tcCapacity :: int
  tcEvict :: "tai64nEntry list"
  tcEvictions :: nat

definition defaultTAI64NCacheCapacity :: int where "defaultTAI64NCacheCapacity = 65536"

definition newTAI64NCache :: "int \<Rightarrow> tai64nCache" where
  "newTAI64NCache capacity =
    \<lparr>tcCapacity = (if capacity \<le> 0 then defaultTAI64NCacheCapacity else capacity), tcEvict = [], tcEvictions = 0\<rparr>"

definition CheckAndStore :: "tai64nCache \<Rightarrow> bytes \<Rightarrow> bytes \<Rightarrow> gotime \<Rightarrow> duration \<Rightarrow> bool \<times> tai64nCache" where
  "CheckAndStore c sessionID tai64n now skew =
    (if length sessionID \<noteq> 16 then (False, c)
     else
       (case DecodeTAI64N tai64n of
          Inl _ \<Rightarrow> (False, c)
        | Inr decoded \<Rightarrow>
            if skew > 0 \<and> (decoded < now - skew \<or> decoded > now + skew) then (False, c)
            else if list_ex (\<lambda>e. teSession e = sessionID) (tcEvict c) then
              (True, c\<lparr>tcEvict := \<lparr>teSession = sessionID, teLast = tai64n\<rparr> #
                         filter (\<lambda>e. teSession e \<noteq> sessionID) (tcEvict c)\<rparr>)
            else
              (let c1 = (if int (length (tcEvict c)) \<ge> tcCapacity c \<and> tcEvict c \<noteq> []
                         then c\<lparr>tcEvict := butlast (tcEvict c), tcEvictions := tcEvictions c + 1\<rparr>
                         else c)
               in (True, c1\<lparr>tcEvict := \<lparr>teSession = sessionID, teLast = tai64n\<rparr> # tcEvict c1\<rparr>))))"

definition tai64nCache_Len :: "tai64nCache \<Rightarrow> nat" where
  "tai64nCache_Len c = length (tcEvict c)"

section \<open>Client sessions\<close>

text \<open>
  Channels are compared by identity in the code; the identity is the field \<open>chTag\<close>, fresh
  for every channel. What a channel carries (connection, keys, cipher) is the type
  parameter.
\<close>

record 'a WSChannel =
  chId :: u64
  chTag :: nat
  chData :: 'a

record 'a ClientSession =
  nextChanID :: u64
  csClientID :: string
  csChannels :: "(u64 \<times> 'a WSChannel) list"
  activeStreams :: int

type_synonym 'a sessions = "(string \<times> 'a ClientSession) list"

definition serverSessionCount :: "'a sessions \<Rightarrow> nat" where
  "serverSessionCount ss = length ss"

text \<open>The Boolean is the second result; the session is then in the returned table.\<close>

definition getOrCreateClientSession :: "int \<Rightarrow> 'a sessions \<Rightarrow> string \<Rightarrow> bool \<times> 'a sessions" where
  "getOrCreateClientSession maxClientSessions ss clientID =
    (case map_of ss clientID of
       Some _ \<Rightarrow> (True, ss)
     | None \<Rightarrow>
         if maxClientSessions > 0 \<and> int (serverSessionCount ss) \<ge> maxClientSessions then (False, ss)
         else (True, (clientID, \<lparr>nextChanID = 0, csClientID = clientID, csChannels = [], activeStreams = 0\<rparr>) # ss))"

definition addChannel ::
  "'a ClientSession \<Rightarrow> nat \<Rightarrow> 'a \<Rightarrow> u64 \<Rightarrow> 'a WSChannel \<times> 'a WSChannel option \<times> 'a ClientSession" where
  "addChannel s tag dat preferredID =
    (let nxt = (if preferredID = 0 then nextChanID s + 1 else nextChanID s);
         newID = (if preferredID = 0 then nxt else preferredID);
         ch = \<lparr>chId = newID, chTag = tag, chData = dat\<rparr>;
         replaced = map_of (csChannels s) newID
     in (ch, replaced, s\<lparr>nextChanID := nxt, csChannels := AList.update newID ch (csChannels s)\<rparr>))"

definition removeChannel :: "'a sessions \<Rightarrow> string \<Rightarrow> u64 \<Rightarrow> nat \<Rightarrow> 'a sessions" where
  "removeChannel ss clientID i tag =
    (case map_of ss clientID of
       None \<Rightarrow> ss
     | Some s \<Rightarrow>
         (let chans = (case map_of (csChannels s) i of
                         Some ch \<Rightarrow> if chTag ch = tag then AList.delete i (csChannels s) else csChannels s
                       | None \<Rightarrow> csChannels s)
          in if chans = [] then AList.delete clientID ss
             else AList.update clientID (s\<lparr>csChannels := chans\<rparr>) ss))"

definition tryAcquireStream :: "int \<Rightarrow> 'a ClientSession \<Rightarrow> (int \<times> bool) \<times> 'a ClientSession" where
  "tryAcquireStream maxStreamsPerClient s =
    (if maxStreamsPerClient > 0 \<and> activeStreams s \<ge> maxStreamsPerClient
     then ((activeStreams s, False), s)
     else ((activeStreams s + 1, True), s\<lparr>activeStreams := activeStreams s + 1\<rparr>))"

definition releaseStream :: "'a ClientSession \<Rightarrow> 'a ClientSession" where
  "releaseStream s = (if activeStreams s > 0 then s\<lparr>activeStreams := activeStreams s - 1\<rparr> else s)"

section \<open>Loops of the nonce cache\<close>

lemma purgeLoop_filter:
  assumes "distinct keys"
  shows "purgeLoop cutoff e f keys =
    ((\<lambda>k. if k \<in> set keys \<and> (\<exists>t. e k = Some t \<and> t < cutoff) then None else e k),
     f @ filter (\<lambda>k. \<exists>t. e k = Some t \<and> \<not> t < cutoff) keys)"
  using assms
proof (induction keys arbitrary: e f)
  case Nil
  then show ?case by simp
next
  case (Cons key keys)
  show ?case
  proof (cases "e key")
    case None
    with Cons show ?thesis by (auto simp: fun_eq_iff)
  next
    case (Some t)
    have other: "filter (\<lambda>k. \<exists>t. (e(key := None)) k = Some t \<and> \<not> t < cutoff) keys =
        filter (\<lambda>k. \<exists>t. e k = Some t \<and> \<not> t < cutoff) keys"
      using Cons.prems by (intro filter_cong) auto
    show ?thesis
    proof (cases "t < cutoff")
      case True
      have m: "(\<lambda>k. if k \<in> set keys \<and> (\<exists>t. (e(key := None)) k = Some t \<and> t < cutoff) then None
            else (e(key := None)) k) =
          (\<lambda>k. if k \<in> set (key # keys) \<and> (\<exists>t. e k = Some t \<and> t < cutoff) then None else e k)"
        using True Some by (intro ext) auto
      have "purgeLoop cutoff e f (key # keys) = purgeLoop cutoff (e(key := None)) f keys"
        using True Some by simp
      also have "\<dots> = (\<lambda>k. if k \<in> set (key # keys) \<and> (\<exists>t. e k = Some t \<and> t < cutoff) then None else e k,
          f @ filter (\<lambda>k. \<exists>t. e k = Some t \<and> \<not> t < cutoff) keys)"
        using Cons.IH [OF distinct_tl [OF Cons.prems, simplified], of "e(key := None)" f] by (simp only: m other)
      finally show ?thesis using True Some by simp
    next
      case False
      with Some Cons.prems Cons.IH [of e "f @ [key]"] show ?thesis
        by (auto simp: fun_eq_iff)
    qed
  qed
qed

lemma evictLoop_drop:
  "0 \<le> mx \<Longrightarrow> evictLoop mx e order =
    (let n = length order - nat mx in (e |` (- set (take n order)), drop n order))"
proof (induction mx e order rule: evictLoop.induct)
  case (1 mx e order)
  show ?case
  proof (cases "order \<noteq> [] \<and> int (length order) > mx")
    case True
    then obtain k ks where o: "order = k # ks" by (cases order) auto
    have n: "length order - nat mx = Suc (length ks - nat mx)" using True o "1.prems" by simp
    have "evictLoop mx e order = evictLoop mx (e(k := None)) ks"
      using True o by (subst evictLoop.simps) simp
    also have "\<dots> = (e(k := None) |` (- set (take (length ks - nat mx) ks)), drop (length ks - nat mx) ks)"
      using "1.IH" [OF True "1.prems"] by (simp only: o list.sel Let_def)
    also have "e(k := None) |` (- set (take (length ks - nat mx) ks)) = e |` (- set (take (Suc (length ks - nat mx)) (k # ks)))"
      by (auto simp: restrict_map_def fun_eq_iff)
    finally show ?thesis by (simp add: Let_def n) (simp add: o)
  next
    case False
    then have "length order - nat mx = 0" using "1.prems" by (cases order) auto
    then show ?thesis using False by (subst evictLoop.simps) (simp only: if_False, simp add: restrict_map_def)
  qed
qed

definition nc_inv :: "nonceReplayCache \<Rightarrow> bool" where
  "nc_inv c \<longleftrightarrow> 0 < ncMax c \<and> distinct (ncOrder c) \<and> dom (ncEntries c) = set (ncOrder c) \<and>
    int (length (ncOrder c)) \<le> ncMax c"

text \<open>The entries that survive the purge of a call.\<close>

definition live :: "nonceReplayCache \<Rightarrow> gotime \<Rightarrow> duration \<Rightarrow> string \<Rightarrow> bool" where
  "live c now ttl k \<longleftrightarrow> (\<exists>t. ncEntries c k = Some t \<and> (ttl > 0 \<longrightarrow> now - ttl \<le> t))"

definition live_map :: "nonceReplayCache \<Rightarrow> gotime \<Rightarrow> duration \<Rightarrow> string \<rightharpoonup> gotime" where
  "live_map c now ttl k = (if live c now ttl k then ncEntries c k else None)"

lemma purge_live:
  assumes "nc_inv c"
  shows "(if ttl > 0 then purgeLoop (now - ttl) (ncEntries c) [] (ncOrder c) else (ncEntries c, ncOrder c)) =
    (live_map c now ttl, filter (live c now ttl) (ncOrder c))"
proof (cases "ttl > 0")
  case True
  have d: "ncEntries c k = None" if "k \<notin> set (ncOrder c)" for k
    using assms that by (auto simp: nc_inv_def dom_def)
  have "filter (\<lambda>k. \<exists>t. ncEntries c k = Some t \<and> \<not> t < now - ttl) (ncOrder c) = filter (live c now ttl) (ncOrder c)"
    using True by (intro filter_cong) (auto simp: live_def)
  moreover have "(\<lambda>k. if k \<in> set (ncOrder c) \<and> (\<exists>t. ncEntries c k = Some t \<and> t < now - ttl) then None else ncEntries c k) =
      live_map c now ttl"
    using True d by (auto simp: fun_eq_iff live_map_def live_def not_less)
  ultimately show ?thesis
    using True assms by (simp add: purgeLoop_filter nc_inv_def)
next
  case False
  have "filter (live c now ttl) (ncOrder c) = ncOrder c"
    using False assms by (intro filter_True) (auto simp: live_def nc_inv_def dom_def)
  with False show ?thesis by (auto simp: live_map_def live_def fun_eq_iff)
qed

lemma seenOrStore_cases:
  assumes inv: "nc_inv c" and key: "key = nonceKey sid cid nonce"
    and old: "old = filter (live c now ttl) (ncOrder c)"
  shows "seenOrStore c sid cid nonce now ttl =
    (if live c now ttl key
     then (True, c\<lparr>ncEntries := live_map c now ttl, ncOrder := old\<rparr>)
     else
       (let n = length old + 1 - nat (ncMax c) in
        (False, c\<lparr>ncEntries := ((live_map c now ttl)(key \<mapsto> now)) |` (- set (take n (old @ [key]))),
                  ncOrder := drop n (old @ [key])\<rparr>)))"
proof -
  have "live_map c now ttl key \<noteq> None \<longleftrightarrow> live c now ttl key"
    by (auto simp: live_map_def live_def)
  moreover have "0 \<le> ncMax c" using inv by (simp add: nc_inv_def)
  ultimately show ?thesis
    unfolding seenOrStore_def purge_live [OF inv] key [symmetric] old [symmetric]
    by (simp add: Let_def evictLoop_drop)
qed

lemma nc_inv_upd:
  "0 < ncMax c \<Longrightarrow> distinct order \<Longrightarrow> dom e = set order \<Longrightarrow> int (length order) \<le> ncMax c \<Longrightarrow>
   nc_inv (c\<lparr>ncEntries := e, ncOrder := order\<rparr>) \<and> ncMax (c\<lparr>ncEntries := e, ncOrder := order\<rparr>) = ncMax c"
  by (simp add: nc_inv_def)

lemma set_minus_take:
  assumes "distinct xs"
  shows "set xs - set (take n xs) = set (drop n xs)"
proof -
  have "set xs = set (take n xs) \<union> set (drop n xs)" by (metis append_take_drop_id set_append)
  moreover have "set (take n xs) \<inter> set (drop n xs) = {}"
    by (rule set_take_disj_set_drop_if_distinct [OF assms]) simp
  ultimately show ?thesis by blast
qed

lemma seenOrStore_inv:
  assumes inv: "nc_inv c"
  shows "nc_inv (snd (seenOrStore c sid cid nonce now ttl)) \<and>
    ncMax (snd (seenOrStore c sid cid nonce now ttl)) = ncMax c"
proof -
  let ?key = "nonceKey sid cid nonce" and ?old = "filter (live c now ttl) (ncOrder c)"
  have dm: "dom (live_map c now ttl) = set ?old"
    using inv by (auto simp: live_map_def live_def nc_inv_def dom_def split: if_splits)
  have len: "int (length ?old) \<le> ncMax c"
  proof -
    have "int (length (ncOrder c)) \<le> ncMax c" using inv by (simp add: nc_inv_def)
    then show ?thesis by (rule order_trans [rotated]) (simp only: of_nat_le_iff length_filter_le)
  qed
  show ?thesis
  proof (cases "live c now ttl ?key")
    case True
    with inv dm len show ?thesis by (simp add: seenOrStore_cases [OF inv refl refl] nc_inv_def)
  next
    case False
    then have new: "?key \<notin> set ?old" by simp
    let ?n = "length ?old + 1 - nat (ncMax c)"
    have d: "distinct (?old @ [?key])" using inv new by (simp add: nc_inv_def)
    have "dom (((live_map c now ttl)(?key \<mapsto> now)) |` (- set (take ?n (?old @ [?key])))) =
        set (?old @ [?key]) - set (take ?n (?old @ [?key]))"
      using dm by (auto simp: dom_restrict)
    also have "\<dots> = set (drop ?n (?old @ [?key]))" by (rule set_minus_take [OF d])
    finally have dom': "dom (((live_map c now ttl)(?key \<mapsto> now)) |` (- set (take ?n (?old @ [?key])))) =
        set (drop ?n (?old @ [?key]))" .
    have res: "snd (seenOrStore c sid cid nonce now ttl) =
        c\<lparr>ncEntries := ((live_map c now ttl)(?key \<mapsto> now)) |` (- set (take ?n (?old @ [?key]))),
          ncOrder := drop ?n (?old @ [?key])\<rparr>"
      using False by (simp only: seenOrStore_cases [OF inv refl refl] if_False Let_def snd_conv)
    have len': "int (length (drop ?n (?old @ [?key]))) \<le> ncMax c"
      using len inv unfolding length_drop length_append nc_inv_def by auto
    have "0 < ncMax c" using inv by (simp add: nc_inv_def)
    then show ?thesis unfolding res by (rule nc_inv_upd [OF _ distinct_drop [OF d] dom' len'])
  qed
qed

section \<open>Replay detection\<close>

text \<open>
  The contract of a replay guard: a key that was stored is held with its time and the
  number of keys stored after it; it stays held while it has not expired and fewer keys
  than the capacity came after it, and a held key that has not expired is recognised.
\<close>

locale replay_guard =
  fixes check :: "'c \<Rightarrow> 'k \<Rightarrow> gotime \<Rightarrow> duration \<Rightarrow> bool \<times> 'c"
    and inv :: "'c \<Rightarrow> bool"
    and cap :: "'c \<Rightarrow> nat"
    and held :: "'c \<Rightarrow> 'k \<Rightarrow> gotime \<Rightarrow> nat \<Rightarrow> bool"
  assumes check_inv: "inv c \<Longrightarrow> inv (snd (check c k now ttl)) \<and> cap (snd (check c k now ttl)) = cap c"
    and check_store: "inv c \<Longrightarrow> check c k now ttl = (False, c') \<Longrightarrow> held c' k now 0"
    and check_keep: "inv c \<Longrightarrow> held c k t j \<Longrightarrow> Suc j < cap c \<Longrightarrow> 0 < ttl \<longrightarrow> now - ttl \<le> t \<Longrightarrow>
      held (snd (check c k' now ttl)) k t (Suc j)"
    and check_found: "inv c \<Longrightarrow> held c k t j \<Longrightarrow> 0 < ttl \<longrightarrow> now - ttl \<le> t \<Longrightarrow> fst (check c k now ttl)"
begin

fun checks :: "'c \<Rightarrow> ('k \<times> gotime) list \<Rightarrow> duration \<Rightarrow> 'c" where
  "checks c [] ttl = c"
| "checks c ((k, now) # ks) ttl = checks (snd (check c k now ttl)) ks ttl"

lemma checks_held:
  "inv c \<Longrightarrow> held c k t j \<Longrightarrow> j + length ks < cap c \<Longrightarrow>
   list_all (\<lambda>(k', now). 0 < ttl \<longrightarrow> now - ttl \<le> t) ks \<Longrightarrow>
   inv (checks c ks ttl) \<and> held (checks c ks ttl) k t (j + length ks)"
proof (induction ks arbitrary: c j)
  case Nil
  then show ?case by simp
next
  case (Cons x ks)
  obtain k' now where x: "x = (k', now)" by (cases x)
  have "held (snd (check c k' now ttl)) k t (Suc j)"
    using check_keep [OF Cons.prems(1,2)] Cons.prems(3,4) x by simp
  with Cons.IH [of "snd (check c k' now ttl)" "Suc j"] check_inv [OF Cons.prems(1)] Cons.prems(3,4) x
  show ?case by simp
qed

lemma replay_found:
  assumes "inv c" "check c k t ttl = (False, c')" "length ks < cap c"
    "list_all (\<lambda>(k', now). 0 < ttl \<longrightarrow> now - ttl \<le> t) ks" "0 < ttl \<longrightarrow> now - ttl \<le> t"
  shows "fst (check (checks c' ks ttl) k now ttl)"
proof -
  have "inv c' \<and> cap c' = cap c" using check_inv [OF assms(1)] assms(2) by (metis snd_conv)
  then have "inv (checks c' ks ttl) \<and> held (checks c' ks ttl) k t (0 + length ks)"
    using checks_held [OF _ check_store [OF assms(1,2)], of ks ttl] assms(3,4) by simp
  then show ?thesis using check_found [OF _ _ assms(5)] by blast
qed

end

type_synonym nonce_id = "bytes \<times> u32 \<times> bytes"

definition nc_check :: "nonceReplayCache \<Rightarrow> nonce_id \<Rightarrow> gotime \<Rightarrow> duration \<Rightarrow> bool \<times> nonceReplayCache" where
  "nc_check c k now ttl = (case k of (sid, cid, nonce) \<Rightarrow> seenOrStore c sid cid nonce now ttl)"

definition nc_key :: "nonce_id \<Rightarrow> string" where
  "nc_key k = (case k of (sid, cid, nonce) \<Rightarrow> nonceKey sid cid nonce)"

definition nc_held :: "nonceReplayCache \<Rightarrow> nonce_id \<Rightarrow> gotime \<Rightarrow> nat \<Rightarrow> bool" where
  "nc_held c k t j \<longleftrightarrow> ncEntries c (nc_key k) = Some t \<and>
    (\<exists>pre post. ncOrder c = pre @ nc_key k # post \<and> length post \<le> j)"

lemma nc_held_keep:
  assumes inv: "nc_inv c" and held: "nc_held c k t j" and j: "Suc j < nat (ncMax c)"
    and fresh: "0 < ttl \<longrightarrow> now - ttl \<le> t"
  shows "nc_held (snd (nc_check c k' now ttl)) k t (Suc j)"
proof -
  obtain sid cid nonce where k': "k' = (sid, cid, nonce)" by (cases k')
  let ?key = "nonceKey sid cid nonce" and ?f = "filter (live c now ttl)" and ?k = "nc_key k"
  obtain pre post where o: "ncOrder c = pre @ ?k # post" "length post \<le> j" and e: "ncEntries c ?k = Some t"
    using held by (auto simp: nc_held_def)
  have lk: "live c now ttl ?k" using e fresh by (auto simp: live_def)
  have old: "?f (ncOrder c) = ?f pre @ ?k # ?f post" using o lk by simp
  have len: "length (?f post) \<le> j" by (rule le_trans [OF length_filter_le o(2)])
  have lm: "live_map c now ttl ?k = Some t" using lk e by (simp add: live_map_def)
  show ?thesis
  proof (cases "live c now ttl ?key")
    case True
    with old len lm show ?thesis
      by (auto simp: nc_check_def k' seenOrStore_cases [OF inv refl refl] nc_held_def intro!: exI)
  next
    case False
    let ?n = "length (?f (ncOrder c)) + 1 - nat (ncMax c)"
    have ne: "?k \<noteq> ?key" using False lk by auto
    have n: "?n \<le> length (?f pre)" using old len j by simp
    have order: "drop ?n (?f (ncOrder c) @ [?key]) = drop ?n (?f pre) @ ?k # (?f post @ [?key])"
      using n by (simp add: old)
    have taken: "take ?n (?f (ncOrder c) @ [?key]) = take ?n (?f pre)" using n by (simp add: old)
    have "distinct (?f (ncOrder c))" using inv by (simp add: nc_inv_def)
    then have "?k \<notin> set (take ?n (?f pre))" unfolding old using set_take_subset by fastforce
    moreover have "snd (nc_check c k' now ttl) =
        c\<lparr>ncEntries := ((live_map c now ttl)(?key \<mapsto> now)) |` (- set (take ?n (?f pre))),
          ncOrder := drop ?n (?f pre) @ ?k # (?f post @ [?key])\<rparr>"
      using False by (simp only: nc_check_def k' prod.case seenOrStore_cases [OF inv refl refl] if_False Let_def
          snd_conv order taken)
    ultimately have "ncEntries (snd (nc_check c k' now ttl)) ?k = Some t"
      "ncOrder (snd (nc_check c k' now ttl)) = drop ?n (?f pre) @ ?k # (?f post @ [?key])"
      using ne lm by (simp_all add: restrict_map_def)
    moreover have "length (?f post @ [?key]) \<le> Suc j" using len by simp
    ultimately show ?thesis unfolding nc_held_def by blast
  qed
qed

lemma nc_stored:
  assumes inv: "nc_inv c" and s: "nc_check c k now ttl = (False, c')"
  shows "nc_held c' k now 0"
proof -
  obtain sid cid nonce where k: "k = (sid, cid, nonce)" by (cases k)
  let ?key = "nonceKey sid cid nonce" and ?old = "filter (live c now ttl) (ncOrder c)"
  let ?n = "length ?old + 1 - nat (ncMax c)"
  have nl: "\<not> live c now ttl ?key"
    using s by (auto simp: nc_check_def k seenOrStore_cases [OF inv refl refl] split: if_splits)
  have "1 \<le> nat (ncMax c)" using inv unfolding nc_inv_def by linarith
  then have n: "?n \<le> length ?old" by linarith
  have dt: "drop ?n (?old @ [?key]) = drop ?n ?old @ ?key # []" "take ?n (?old @ [?key]) = take ?n ?old"
    using n by simp_all
  have "c' = c\<lparr>ncEntries := ((live_map c now ttl)(?key \<mapsto> now)) |` (- set (take ?n ?old)),
      ncOrder := drop ?n ?old @ ?key # []\<rparr>"
    using s nl by (simp only: nc_check_def k prod.case seenOrStore_cases [OF inv refl refl] if_False Let_def prod.inject dt)
  moreover have "?key \<notin> set (take ?n ?old)" using nl set_take_subset by fastforce
  ultimately have "ncEntries c' ?key = Some now" "ncOrder c' = drop ?n ?old @ ?key # []"
    by (simp_all add: restrict_map_def)
  then show ?thesis unfolding nc_held_def nc_key_def k by auto
qed

interpretation nonces: replay_guard nc_check nc_inv "\<lambda>c. nat (ncMax c)" nc_held
proof
  show "nc_inv (snd (nc_check c k now ttl)) \<and> nat (ncMax (snd (nc_check c k now ttl))) = nat (ncMax c)"
    if "nc_inv c" for c k now ttl
    using seenOrStore_inv [OF that] by (cases k) (simp add: nc_check_def)
  show "fst (nc_check c k now ttl)" if "nc_inv c" "nc_held c k t j" "0 < ttl \<longrightarrow> now - ttl \<le> t" for c k t j ttl now
    using that by (cases k)
      (auto simp: nc_check_def seenOrStore_cases [OF that(1) refl refl] nc_held_def nc_key_def live_def)
qed (fact nc_stored nc_held_keep)+

section \<open>Keys of the nonce cache\<close>

lemma hex_digit_inj: "a < 16 \<Longrightarrow> b < 16 \<Longrightarrow> hex_digit a = hex_digit b \<Longrightarrow> a = b"
  by (auto simp: hex_digit_def split: if_splits dest!: arg_cong [where f = ord])

lemma hex_digit_no_colon: "d < 16 \<Longrightarrow> hex_digit d \<noteq> CHR '':''"
  by (auto simp: hex_digit_def split: if_splits dest!: arg_cong [where f = ord])

lemma hex_no_colon: "CHR '':'' \<notin> set (hex_EncodeToString bs)"
proof -
  have "hex_digit (unat b div 16) \<noteq> CHR '':''" "hex_digit (unat b mod 16) \<noteq> CHR '':''" for b :: byte
    using unat_byte_less [of b] by (simp_all add: hex_digit_no_colon less_mult_imp_div_less)
  then show ?thesis by (auto simp: hex_EncodeToString_def dest: sym)
qed

lemma hex_inj: "hex_EncodeToString a = hex_EncodeToString b \<Longrightarrow> a = b"
proof (induction a arbitrary: b)
  case Nil
  then show ?case by (cases b) (simp_all add: hex_EncodeToString_def)
next
  case (Cons x xs)
  then obtain y ys where b: "b = y # ys" by (cases b) (auto simp: hex_EncodeToString_def)
  have lt: "unat z div 16 < 16" "unat z mod 16 < 16" for z :: byte
    using unat_byte_less [of z] by (simp_all add: less_mult_imp_div_less)
  have "unat x div 16 = unat y div 16" "unat x mod 16 = unat y mod 16"
    using Cons.prems lt hex_digit_inj by (auto simp: b hex_EncodeToString_def)
  then have "unat x = unat y" by (metis div_mult_mod_eq)
  then have "x = y" by (rule unsigned_word_eqI)
  moreover have "xs = ys"
    using Cons.prems by (intro Cons.IH) (simp add: b hex_EncodeToString_def)
  ultimately show ?case by (simp add: b)
qed

lemma nonceKey_split:
  "Split (CHR '':'') (nonceKey sid cid nonce) =
    [hex_EncodeToString sid, Itoa (int (unat cid)), hex_EncodeToString nonce]"
proof -
  have "CHR '':'' \<notin> set (Itoa (int (unat cid)))"
    using dec_digits_props [of "unat cid"] list_all_isDigit_chars by (auto simp: Itoa_def list_all_iff isDigit_def)
  then show ?thesis
    by (simp add: nonceKey_def Split_append_sep Split_no_sep hex_no_colon)
qed

lemma nonceKey_inj:
  assumes "nonceKey sid cid nonce = nonceKey sid' cid' nonce'"
  shows "sid = sid' \<and> cid = cid' \<and> nonce = nonce'"
proof -
  have h: "hex_EncodeToString sid = hex_EncodeToString sid'" "hex_EncodeToString nonce = hex_EncodeToString nonce'"
    and i: "Itoa (int (unat cid)) = Itoa (int (unat cid'))"
    using arg_cong [OF assms, of "Split (CHR '':'')"] by (simp_all add: nonceKey_split)
  have "int (unat x) < 2 ^ 63" for x :: u32
    using unsigned_less [of x, where ?'a = int] by simp
  then have "Some (int (unat cid)) = Some (int (unat cid'))"
    using i Atoi_Itoa [of "int (unat cid)"] Atoi_Itoa [of "int (unat cid')"] of_nat_0_le_iff by metis
  then have "cid = cid'" by (simp add: unsigned_word_eqI)
  with h show ?thesis using hex_inj by blast
qed

section \<open>Invariants of the TAI64N cache and the session table\<close>

definition tc_inv :: "tai64nCache \<Rightarrow> bool" where
  "tc_inv c \<longleftrightarrow> 0 < tcCapacity c \<and> distinct (map teSession (tcEvict c)) \<and>
    int (length (tcEvict c)) \<le> tcCapacity c"

lemma tc_inv_new: "tc_inv (newTAI64NCache n)"
  by (simp add: tc_inv_def newTAI64NCache_def defaultTAI64NCacheCapacity_def)

lemma distinct_filter_length:
  assumes "distinct (map f xs)" "x \<in> set xs"
  shows "length (filter (\<lambda>y. f y \<noteq> f x) xs) + 1 = length xs"
proof -
  obtain pre post where xs: "xs = pre @ x # post" using assms(2) by (meson split_list)
  have "filter (\<lambda>y. f y \<noteq> f x) pre = pre" "filter (\<lambda>y. f y \<noteq> f x) post = post"
    using assms(1) by (auto simp: xs filter_id_conv dest: sym [of "f x"] intro: rev_image_eqI)
  then show ?thesis by (simp add: xs)
qed

lemma CheckAndStore_inv:
  assumes inv: "tc_inv c"
  shows "tc_inv (snd (CheckAndStore c sid tai now skew))"
proof (cases "DecodeTAI64N tai")
  case (Inl e)
  with inv show ?thesis by (simp add: CheckAndStore_def)
next
  case (Inr d)
  let ?bad = "length sid \<noteq> 16 \<or> skew > 0 \<and> (d < now - skew \<or> d > now + skew)"
  show ?thesis
  proof (cases ?bad)
    case True
    with Inr inv show ?thesis by (auto simp: CheckAndStore_def)
  next
    case ok: False
    show ?thesis
    proof (cases "list_ex (\<lambda>e. teSession e = sid) (tcEvict c)")
      case True
      then obtain e where e: "e \<in> set (tcEvict c)" "teSession e = sid" by (auto simp: list_ex_iff)
      then have "length (filter (\<lambda>y. teSession y \<noteq> sid) (tcEvict c)) + 1 = length (tcEvict c)"
        using distinct_filter_length [of teSession "tcEvict c" e] inv by (simp add: tc_inv_def)
      then show ?thesis
        using ok Inr True inv by (auto simp: CheckAndStore_def tc_inv_def distinct_map_filter)
    next
      case False
      then have "sid \<notin> teSession ` set (tcEvict c)" by (auto simp: list_ex_iff)
      moreover have "sid \<notin> teSession ` set (butlast (tcEvict c))"
        using calculation by (auto dest: in_set_butlastD)
      moreover have "distinct (map teSession (butlast (tcEvict c)))"
        using inv by (simp add: tc_inv_def map_butlast distinct_butlast)
      ultimately show ?thesis
        using ok Inr False inv by (auto simp: CheckAndStore_def tc_inv_def Let_def)
    qed
  qed
qed

lemma CheckAndStore_True_iff:
  "fst (CheckAndStore c sid tai now skew) \<longleftrightarrow>
    length sid = 16 \<and> (\<exists>d. DecodeTAI64N tai = Inr d \<and> (skew > 0 \<longrightarrow> now - skew \<le> d \<and> d \<le> now + skew))"
  by (auto simp: CheckAndStore_def Let_def not_less split: sum.splits)

text \<open>
  The life of the session table: channels come with a handshake and go when their transport
  ends, streams are opened and finished in any order.
\<close>

inductive session_step :: "int \<Rightarrow> int \<Rightarrow> 'a sessions \<Rightarrow> 'a sessions \<Rightarrow> bool" for mc ms where
  connect: "getOrCreateClientSession mc ss cid = (True, ss1) \<Longrightarrow> map_of ss1 cid = Some s \<Longrightarrow>
    addChannel s tag dat pref = (ch, old, s') \<Longrightarrow> session_step mc ms ss (AList.update cid s' ss1)"
| refuse: "getOrCreateClientSession mc ss cid = (r, ss1) \<Longrightarrow> session_step mc ms ss ss1"
| disconnect: "session_step mc ms ss (removeChannel ss cid i tag)"
| acquire: "map_of ss cid = Some s \<Longrightarrow> tryAcquireStream ms s = (r, s') \<Longrightarrow>
    session_step mc ms ss (AList.update cid s' ss)"
| release: "map_of ss cid = Some s \<Longrightarrow> session_step mc ms ss (AList.update cid (releaseStream s) ss)"

inductive sessions_reach :: "int \<Rightarrow> int \<Rightarrow> 'a sessions \<Rightarrow> bool" for mc ms where
  start: "sessions_reach mc ms []"
| step: "sessions_reach mc ms ss \<Longrightarrow> session_step mc ms ss ss' \<Longrightarrow> sessions_reach mc ms ss'"

definition session_ok :: "int \<Rightarrow> 'a ClientSession \<Rightarrow> bool" where
  "session_ok ms s \<longleftrightarrow> 0 \<le> activeStreams s \<and> (0 < ms \<longrightarrow> activeStreams s \<le> ms) \<and> distinct (map fst (csChannels s))"

definition sessions_inv :: "int \<Rightarrow> int \<Rightarrow> 'a sessions \<Rightarrow> bool" where
  "sessions_inv mc ms ss \<longleftrightarrow> distinct (map fst ss) \<and> (0 < mc \<longrightarrow> int (length ss) \<le> mc) \<and>
    (\<forall>s\<in>snd ` set ss. session_ok ms s)"

lemma length_update_known: "map_of ss k = Some v \<Longrightarrow> length (AList.update k w ss) = length ss"
  by (induction ss) (auto split: if_splits)

lemma set_update_subset: "set (AList.update k v ss) \<subseteq> insert (k, v) (set ss)"
  by (induction ss) auto

lemma sessions_inv_update:
  assumes "sessions_inv mc ms ss" "map_of ss k = Some s" "session_ok ms s'"
  shows "sessions_inv mc ms (AList.update k s' ss)"
  using assms length_update_known [OF assms(2), of s'] set_update_subset [of k s' ss]
  by (auto simp: sessions_inv_def distinct_update)

lemma sessions_inv_create:
  "sessions_inv mc ms ss \<Longrightarrow> getOrCreateClientSession mc ss cid = (r, ss1) \<Longrightarrow> sessions_inv mc ms ss1"
  by (auto simp: getOrCreateClientSession_def serverSessionCount_def sessions_inv_def session_ok_def
      map_of_eq_None_iff split: option.splits if_splits)

lemma sessions_inv_get: "sessions_inv mc ms ss \<Longrightarrow> map_of ss k = Some s \<Longrightarrow> session_ok ms s"
  by (auto simp: sessions_inv_def dest: map_of_SomeD)

lemma sessions_inv_remove:
  assumes inv: "sessions_inv mc ms ss"
  shows "sessions_inv mc ms (removeChannel ss cid i tag)"
proof (cases "map_of ss cid")
  case None
  with inv show ?thesis by (simp add: removeChannel_def)
next
  case (Some s)
  define chans where "chans = (case map_of (csChannels s) i of
      Some ch \<Rightarrow> if chTag ch = tag then AList.delete i (csChannels s) else csChannels s
    | None \<Rightarrow> csChannels s)"
  have ok: "session_ok ms (s\<lparr>csChannels := chans\<rparr>)"
    using sessions_inv_get [OF inv Some]
    by (auto simp: session_ok_def chans_def distinct_delete split: option.splits)
  have "sessions_inv mc ms (AList.delete cid ss)"
    using inv length_delete_le [of cid ss] unfolding sessions_inv_def
    by (auto simp: distinct_delete) (auto simp: AList.delete_eq)
  moreover have "removeChannel ss cid i tag =
      (if chans = [] then AList.delete cid ss else AList.update cid (s\<lparr>csChannels := chans\<rparr>) ss)"
    by (simp add: removeChannel_def Some chans_def Let_def)
  ultimately show ?thesis using sessions_inv_update [OF inv Some ok] by simp
qed

lemma addChannel_ok:
  "session_ok ms s \<Longrightarrow> addChannel s tag dat pref = (ch, old, s') \<Longrightarrow> session_ok ms s'"
  by (auto simp: addChannel_def session_ok_def Let_def distinct_update)

lemma stream_count_ok:
  "session_ok ms s \<Longrightarrow> tryAcquireStream ms s = (r, s') \<Longrightarrow> session_ok ms s'"
  "session_ok ms s \<Longrightarrow> session_ok ms (releaseStream s)"
  by (auto simp: tryAcquireStream_def releaseStream_def session_ok_def split: if_splits)

lemma session_step_inv:
  assumes "session_step mc ms ss ss'" and inv: "sessions_inv mc ms ss"
  shows "sessions_inv mc ms ss'"
  using assms(1)
proof (cases rule: session_step.cases)
  case (connect cid ss1 s tag dat pref ch old s')
  have inv1: "sessions_inv mc ms ss1" by (rule sessions_inv_create [OF inv connect(2)])
  show ?thesis
    unfolding connect(1)
    by (rule sessions_inv_update [OF inv1 connect(3) addChannel_ok [OF sessions_inv_get [OF inv1 connect(3)] connect(4)]])
next
  case (refuse cid r)
  then show ?thesis using sessions_inv_create [OF inv] by simp
next
  case disconnect
  then show ?thesis using sessions_inv_remove [OF inv] by simp
next
  case (acquire cid s r s')
  then show ?thesis
    using sessions_inv_update [OF inv acquire(2) stream_count_ok(1) [OF sessions_inv_get [OF inv acquire(2)]]] by auto
next
  case (release cid s)
  then show ?thesis
    using sessions_inv_update [OF inv release(2) stream_count_ok(2) [OF sessions_inv_get [OF inv release(2)]]] by simp
qed

lemma sessions_reach_inv: "sessions_reach mc ms ss \<Longrightarrow> sessions_inv mc ms ss"
proof (induction rule: sessions_reach.induct)
  case start
  then show ?case by (simp add: sessions_inv_def)
next
  case (step ss ss')
  then show ?case using session_step_inv by blast
qed

lemma nc_inv_new: "nc_inv (newNonceReplayCache n)"
  by (simp add: nc_inv_def newNonceReplayCache_def)

section \<open>Properties\<close>

text \<open>
  Handshake replays are detected: after a call of \<open>seenOrStore\<close> accepted a session id,
  channel id and nonce at time \<open>t\<close>, the same triple is recognised at any later call within the
  time to live, as long as fewer other calls than the capacity came in between (themselves
  not later than the time to live); and a triple is reported as seen only when an entry of
  that very triple is stored and has not expired.
\<close>

lemma nonce_replay_detected:
  assumes inv: "nc_inv c" and first: "nc_check c k t ttl = (False, c')"
    and few: "int (length ks) < ncMax c"
    and recent: "list_all (\<lambda>(k', now). 0 < ttl \<longrightarrow> now - ttl \<le> t) ks" "0 < ttl \<longrightarrow> now - ttl \<le> t"
  shows "fst (nc_check (nonces.checks c' ks ttl) k now ttl) \<and>
    (\<forall>d k2 s2. nc_inv d \<longrightarrow>
       nc_inv (snd (nc_check d k2 s2 ttl)) \<and>
       (fst (nc_check d k2 s2 ttl) \<longleftrightarrow>
         (\<exists>t2. ncEntries d (nc_key k2) = Some t2 \<and> (0 < ttl \<longrightarrow> s2 - ttl \<le> t2)))) \<and>
    (\<forall>k2 k3. nc_key k2 = nc_key k3 \<longrightarrow> k2 = k3)"
proof (intro conjI allI impI)
  have "length ks < nat (ncMax c)" using few by linarith
  then show "fst (nc_check (nonces.checks c' ks ttl) k now ttl)"
    by (rule nonces.replay_found [OF inv first _ recent])
next
  fix d and k2 :: nonce_id and s2 assume d: "nc_inv d"
  obtain sid cid nonce where k2: "k2 = (sid, cid, nonce)" by (cases k2)
  show "nc_inv (snd (nc_check d k2 s2 ttl))" using nonces.check_inv [OF d] by blast
  show "fst (nc_check d k2 s2 ttl) \<longleftrightarrow>
      (\<exists>t2. ncEntries d (nc_key k2) = Some t2 \<and> (0 < ttl \<longrightarrow> s2 - ttl \<le> t2))"
    by (auto simp: nc_check_def nc_key_def k2 seenOrStore_cases [OF d refl refl] Let_def live_def)
next
  fix k2 k3 :: nonce_id assume "nc_key k2 = nc_key k3"
  then show "k2 = k3"
    using nonceKey_inj by (cases k2; cases k3) (auto simp: nc_key_def)
qed

definition sample_nonce :: nonce_id where
  "sample_nonce = (replicate 16 1, 1, replicate 32 2)"

definition other_nonce :: nonce_id where
  "other_nonce = (replicate 16 1, 2, replicate 32 3)"

lemma sample_nonce_stored:
  "fst (nc_check (newNonceReplayCache 4) sample_nonce 100 60) = False"
  unfolding nc_check_def sample_nonce_def prod.case seenOrStore_cases [OF nc_inv_new refl refl]
  by (simp add: live_def newNonceReplayCache_def Let_def)

theorem nonce_replay_detected_witness:
  "fst (nc_check (nonces.checks (snd (nc_check (newNonceReplayCache 4) sample_nonce 100 60))
      [(other_nonce, 110)] 60) sample_nonce 120 60)"
proof -
  have s: "nc_check (newNonceReplayCache 4) sample_nonce 100 60 =
      (False, snd (nc_check (newNonceReplayCache 4) sample_nonce 100 60))"
    using sample_nonce_stored by (metis prod.collapse)
  have "int (length [(other_nonce, 110 :: int)]) < ncMax (newNonceReplayCache 4)"
    by (simp add: newNonceReplayCache_def)
  then show ?thesis
    using nonce_replay_detected [OF nc_inv_new s, of "[(other_nonce, 110)]" 120] by simp
qed

text \<open>
  The TAI64N cache: \<open>CheckAndStore\<close> accepts a label exactly when the session id has 16
  bytes, the label decodes, and the decoded time is within the skew of now (any time when
  the skew is not positive); every call keeps the table keyed by session and within its
  capacity, and an accepted label is what the table then holds for the session.
\<close>

lemma tai64n_cache_correct:
  assumes "tc_inv c"
  shows "(fst (CheckAndStore c sid tai now skew) \<longleftrightarrow>
      length sid = 16 \<and> (\<exists>d. DecodeTAI64N tai = Inr d \<and> (skew > 0 \<longrightarrow> now - skew \<le> d \<and> d \<le> now + skew))) \<and>
    tc_inv (snd (CheckAndStore c sid tai now skew)) \<and>
    (fst (CheckAndStore c sid tai now skew) \<longrightarrow>
      map_of (map (\<lambda>e. (teSession e, teLast e)) (tcEvict (snd (CheckAndStore c sid tai now skew)))) sid = Some tai) \<and>
    (\<not> fst (CheckAndStore c sid tai now skew) \<longrightarrow> snd (CheckAndStore c sid tai now skew) = c)"
proof (intro conjI)
  show "fst (CheckAndStore c sid tai now skew) \<longleftrightarrow>
      length sid = 16 \<and> (\<exists>d. DecodeTAI64N tai = Inr d \<and> (skew > 0 \<longrightarrow> now - skew \<le> d \<and> d \<le> now + skew))"
    by (rule CheckAndStore_True_iff)
  show "tc_inv (snd (CheckAndStore c sid tai now skew))" by (rule CheckAndStore_inv [OF assms])
  show "fst (CheckAndStore c sid tai now skew) \<longrightarrow>
      map_of (map (\<lambda>e. (teSession e, teLast e)) (tcEvict (snd (CheckAndStore c sid tai now skew)))) sid = Some tai"
    by (auto simp: CheckAndStore_def Let_def split: sum.splits)
  show "\<not> fst (CheckAndStore c sid tai now skew) \<longrightarrow> snd (CheckAndStore c sid tai now skew) = c"
    by (auto simp: CheckAndStore_def Let_def split: sum.splits)
qed

theorem tai64n_cache_correct_witness:
  "tc_inv (snd (CheckAndStore (newTAI64NCache 1) (replicate 16 1) [] 0 0)) \<and>
   \<not> fst (CheckAndStore (newTAI64NCache 1) [] [] 0 0)"
  using tai64n_cache_correct [OF tc_inv_new, of 1 "replicate 16 1" "[]" 0 0]
    tai64n_cache_correct [OF tc_inv_new, of 1 "[]" "[]" 0 0]
  by simp



end
