(* ===== verification/Handshake.thy ===== *)
theory Handshake
  imports Cipher_Stream Server_Caches
begin

text \<open>
  The v3 handshake as the program runs it: the server's \<open>handlePreAuthTransportSession\<close>
  (\<open>internal/app/server.go\<close>) over the server's caches, session table and counters, and the
  client's \<open>negotiateClientProtocol\<close> (\<open>internal/app/client.go\<close>). Clock readings, random bytes,
  the X25519 base point, the parsed client id and the parsed endpoint URL are arguments. Every
  early return of the source is a branch that names the reason and bumps the same counters.
\<close>

section \<open>Server\<close>

record server_cfg =
  cfgToken :: string
  AuthSkew :: duration
  maxClientSessions :: int
  maxStreamsPerClient :: int

record ChanInfo =
  ciCaps :: u64
  ciKeys :: V3SessionKeys
  ciCipher :: byte

record server =
  srvNonces :: nonceReplayCache
  srvTai :: tai64nCache
  srvSessions :: "ChanInfo sessions"
  srvNextTag :: nat
  protocolFailureSeq :: u64
  protocolRejectSeq :: u64
  authRejectSeq :: u64
  protocolReplaySeq :: u64
  tai64nRejectSeq :: u64
  clientRejectSeq :: u64
  protocolOKSeq :: u64

definition newServer :: server where
  "newServer = \<lparr>srvNonces = newNonceReplayCache 65536, srvTai = newTAI64NCache defaultTAI64NCacheCapacity,
     srvSessions = [], srvNextTag = 0, protocolFailureSeq = 0, protocolRejectSeq = 0, authRejectSeq = 0,
     protocolReplaySeq = 0, tai64nRejectSeq = 0, clientRejectSeq = 0, protocolOKSeq = 0\<rparr>"

definition bumpFailure :: "server \<Rightarrow> server" where
  "bumpFailure s = s\<lparr>protocolFailureSeq := protocolFailureSeq s + 1\<rparr>"

definition bumpReject :: "server \<Rightarrow> server" where
  "bumpReject s = s\<lparr>protocolRejectSeq := protocolRejectSeq s + 1\<rparr>"

definition validateChannelInitTime :: "gotime \<Rightarrow> u64 \<Rightarrow> duration \<Rightarrow> bool" where
  "validateChannelInitTime now timestamp skew =
    (if skew \<le> 0 then True
     else
       (let thn = time_of_unix (sint timestamp) 0 in \<not> thn < now - skew \<and> \<not> thn > now + skew))"

definition requiredCapabilitiesV3 :: u64 where
  "requiredCapabilitiesV3 = requiredProtocolCapabilitiesV2 OR protocolCapabilityForwardSecrecy"

text \<open>From the accepted stream to the negotiated cipher; \<open>Inl\<close> is a return with its reason.\<close>

definition preAuthChecks ::
  "crypto \<Rightarrow> server_cfg \<Rightarrow> gotime \<Rightarrow> string \<Rightarrow> string \<Rightarrow> server \<Rightarrow> reader result \<Rightarrow>
   (string + ChannelInit \<times> u64 \<times> byte) \<times> server" where
  "preAuthChecks C cfg now serverName path srv streamIn =
    (case streamIn of
       Inl _ \<Rightarrow> (Inl ''accept failed'', bumpFailure srv)
     | Inr r \<Rightarrow>
     (case readChannelInitV3 r (int maxV2FrameSize) of
        Inl _ \<Rightarrow> (Inl ''init read failed'', bumpFailure srv)
      | Inr (init, _) \<Rightarrow>
        if (case DecodeTAI64N (TAI64N init) of Inl _ \<Rightarrow> True | Inr _ \<Rightarrow> False)
        then (Inl ''tai64n malformed'', bumpReject srv)
        else if \<not> validateChannelInitTime now (Timestamp init) (AuthSkew cfg)
        then (Inl ''timestamp'', bumpReject srv)
        else if length (ClientEphPK init) \<noteq> 32 then (Inl ''client key length'', bumpFailure srv)
        else if \<not> VerifyV3AuthProof C (cfgToken cfg) serverName path init
        then (Inl ''authentication'', bumpFailure (srv\<lparr>authRejectSeq := authRejectSeq srv + 1\<rparr>))
        else
          (case seenOrStore (srvNonces srv) (SessionID init) (ChannelID init) (ClientNonce init) now (AuthSkew cfg) of
             (True, nonces) \<Rightarrow>
               (Inl ''nonce replay'', bumpReject (srv\<lparr>srvNonces := nonces, protocolReplaySeq := protocolReplaySeq srv + 1\<rparr>))
           | (False, nonces) \<Rightarrow>
               (let srv = srv\<lparr>srvNonces := nonces\<rparr> in
                case CheckAndStore (srvTai srv) (SessionID init) (TAI64N init) now (AuthSkew cfg) of
                  (False, tai) \<Rightarrow>
                    (Inl ''tai64n not fresh'', bumpReject (srv\<lparr>srvTai := tai, tai64nRejectSeq := tai64nRejectSeq srv + 1\<rparr>))
                | (True, tai) \<Rightarrow>
                    (let srv = srv\<lparr>srvTai := tai\<rparr>; required = requiredCapabilitiesV3 in
                     if Capabilities init AND required \<noteq> required
                     then (Inl ''capabilities'', bumpReject srv)
                     else
                       (let caps = Capabilities init AND currentProtocolCapabilitiesV2 in
                        case NegotiateCipherV3 (CipherPref init) of
                          (chosenCipher, rejectCode, _) \<Rightarrow>
                            if rejectCode \<noteq> 0 then (Inl ''cipher'', bumpReject srv)
                            else (Inr (init, caps, chosenCipher), srv)))))))"

text \<open>The server's ephemeral key, shared secret, nonce, transcript, proof and session keys.\<close>

definition serverKeyExchange ::
  "crypto \<Rightarrow> string \<Rightarrow> bytes \<Rightarrow> bytes result \<Rightarrow> bytes result \<Rightarrow> string \<Rightarrow> string \<Rightarrow> ChannelInit \<Rightarrow> byte \<Rightarrow>
   (bytes \<times> bytes \<times> bytes \<times> V3SessionKeys) result" where
  "serverKeyExchange C token base keyRnd nonceRnd serverName path init chosenCipher =
    rbind (NewV3ClientEphemeralKey C base keyRnd) (\<lambda>(serverSk, serverPk).
    rbind (ComputeV3SharedSecret C serverSk (ClientEphPK init)) (\<lambda>shared.
    rbind nonceRnd (\<lambda>serverNonce.
    rbind (ComputeV3TranscriptHashFull C serverName path init serverPk serverNonce chosenCipher) (\<lambda>thFull.
    rbind (ComputeV3ServerProof C token serverName path init serverPk serverNonce chosenCipher) (\<lambda>serverProof.
    rbind (DeriveV3SessionSeed C token thFull shared) (\<lambda>sessKeys.
      Inr (serverPk, serverNonce, serverProof, sessKeys)))))))"

datatype preauth = Refused string | Established u64 nat

definition handlePreAuthTransportSession ::
  "crypto \<Rightarrow> server_cfg \<Rightarrow> bytes \<Rightarrow> bytes result \<Rightarrow> bytes result \<Rightarrow> gotime \<Rightarrow> string \<Rightarrow> string \<Rightarrow>
   'w io_writer \<Rightarrow> 'w \<Rightarrow> server \<Rightarrow> reader result \<Rightarrow> preauth \<times> server \<times> 'w" where
  "handlePreAuthTransportSession C cfg base keyRnd nonceRnd now serverName path W w srv streamIn =
    (case preAuthChecks C cfg now serverName path srv streamIn of
       (Inl why, srv) \<Rightarrow> (Refused why, srv, w)
     | (Inr (init, caps, chosenCipher), srv) \<Rightarrow>
       (let sessionID = hex_EncodeToString (SessionID init) in
        case getOrCreateClientSession (maxClientSessions cfg) (srvSessions srv) sessionID of
          (False, _) \<Rightarrow> (Refused ''max-clients'', srv\<lparr>clientRejectSeq := clientRejectSeq srv + 1\<rparr>, w)
        | (True, ss) \<Rightarrow>
          (let srv = srv\<lparr>srvSessions := ss\<rparr> in
           case serverKeyExchange C (cfgToken cfg) base keyRnd nonceRnd serverName path init chosenCipher of
             Inl _ \<Rightarrow> (Refused ''key exchange'', bumpFailure srv, w)
           | Inr (serverPk, serverNonce, serverProof, sessKeys) \<Rightarrow>
             (case map_of ss sessionID of
                None \<Rightarrow> (Refused ''no session'', srv, w)
              | Some session \<Rightarrow>
                (case addChannel session (srvNextTag srv)
                        \<lparr>ciCaps = caps, ciKeys = sessKeys, ciCipher = chosenCipher\<rparr> (ucast (ChannelID init)) of
                   (ch, _, session') \<Rightarrow>
                   (let srv = srv\<lparr>srvSessions := AList.update sessionID session' ss,
                                  srvNextTag := srvNextTag srv + 1\<rparr>;
                        accept = \<lparr>accCapabilities = caps, ServerNonce = serverNonce,
                          ServerTime = word_of_int (time_Unix now), MaxFrameSize = word_of_nat maxV2FrameSize,
                          MaxStreams = (if maxStreamsPerClient cfg > 0 then word_of_int (maxStreamsPerClient cfg) else 0),
                          accMessage = [], Cipher = chosenCipher, ServerEphPK = serverPk, ServerProof = serverProof\<rparr>
                    in
                    case writeChannelAcceptV3 W w accept of
                      (Some _, w) \<Rightarrow>
                        (Refused ''accept write failed'',
                         bumpFailure (srv\<lparr>srvSessions := removeChannel (srvSessions srv) sessionID (chId ch) (chTag ch)\<rparr>), w)
                    | (None, w) \<Rightarrow>
                        (Established (chId ch) (chTag ch), srv\<lparr>protocolOKSeq := protocolOKSeq srv + 1\<rparr>, w)))))))"

section \<open>Client\<close>

text \<open>\<open>rand.Int\<close> below 100 for the band, below the band size for the offset.\<close>

definition sampleFirstPacketTarget :: "record_rand \<Rightarrow> record_rand \<Rightarrow> nat \<Rightarrow> nat \<times> bool" where
  "sampleFirstPacketTarget R1 R2 frameLen =
    (if frameLen \<ge> 1400 then (0, False)
     else
       (case rand_Int R1 100 of
          None \<Rightarrow> (0, False)
        | Some weight \<Rightarrow>
            (let (mn, mx) = (if weight < 50 then (480, 576) else if weight < 75 then (1024, 1152) else (1280, 1400)) in
             case rand_Int R2 (mx - mn + 1) of
               None \<Rightarrow> (0, False)
             | Some offset \<Rightarrow>
                 (let target = mn + offset in if target < frameLen then (target, False) else (target, True)))))"

record client_env =
  ceSession :: "bytes result"
  ceNonce :: "bytes result"
  ceEndpoint :: "(string \<times> string) result"
  ceKey :: "bytes result"
  ceNow :: gotime
  ceTai :: bytes
  ceBand :: record_rand
  ceOffset :: record_rand
  cePad :: record_rand

definition clientBuildInit ::
  "crypto \<Rightarrow> string \<Rightarrow> bytes \<Rightarrow> bytes \<Rightarrow> client_env \<Rightarrow> u32 \<Rightarrow> (ChannelInit \<times> bytes \<times> string \<times> string) result" where
  "clientBuildInit C token base cipherPref E channelID =
    rbind (ceSession E) (\<lambda>sessionID.
    rbind (ceNonce E) (\<lambda>nonce.
    rbind (ceEndpoint E) (\<lambda>(serverName, serverPath).
    rbind (NewV3ClientEphemeralKey C base (ceKey E)) (\<lambda>(clientSk, clientPk).
      let init = ChannelInit0\<lparr>SessionID := sessionID, ChannelID := channelID, ClientNonce := nonce,
            Timestamp := word_of_int (time_Unix (ceNow E)),
            Capabilities := currentProtocolCapabilitiesV2 OR protocolCapabilityForwardSecrecy,
            CipherPref := cipherPref, ClientEphPK := clientPk, TAI64N := ceTai E\<rparr> in
      rbind (ComputeV3AuthProof C token serverName serverPath init) (\<lambda>proof.
      let init = init\<lparr>AuthProof := proof\<rparr> in
      rbind (encodeChannelInitV3 init) (\<lambda>unpaddedBody.
      let frameLen = 8 + length unpaddedBody in
      (case sampleFirstPacketTarget (ceBand E) (ceOffset E) frameLen of
         (target, ok) \<Rightarrow>
           if ok \<and> target \<ge> frameLen + 4 then
             (let padLen = target - frameLen - 4 in
              case rand_Read (cePad E) padLen of
                None \<Rightarrow> Inl (Errorf ''padding'')
              | Some pad \<Rightarrow> Inr (init\<lparr>Padding := pad\<rparr>, clientSk, serverName, serverPath))
           else Inr (init, clientSk, serverName, serverPath))))))))"

definition clientFinish ::
  "crypto \<Rightarrow> string \<Rightarrow> ChannelInit \<Rightarrow> bytes \<Rightarrow> string \<Rightarrow> string \<Rightarrow> reader \<Rightarrow> (u64 \<times> V3SessionKeys \<times> byte) result" where
  "clientFinish C token init clientSk serverName serverPath r =
    (case readChannelAcceptOrRejectV3 r (int maxV2FrameSize) of
       Inl e \<Rightarrow> if e = EOF \<or> e = ErrUnexpectedEOF then Inl (Errorf ''closed by server'') else Inl e
     | Inr ((accept, reject), _) \<Rightarrow>
       if rejCode reject \<noteq> 0 then Inl (Errorf ''rejected'')
       else if accCapabilities accept AND requiredCapabilitiesV3 \<noteq> requiredCapabilitiesV3
       then Inl (Errorf ''insufficient capabilities'')
       else if length (ServerEphPK accept) \<noteq> 32 \<or> length (ServerProof accept) \<noteq> 32
       then Inl (Errorf ''malformed server proof or key'')
       else
         rbind (ComputeV3SharedSecret C clientSk (ServerEphPK accept)) (\<lambda>shared.
           if \<not> VerifyV3ServerProof C token serverName serverPath init accept
           then Inl (Errorf ''server proof rejected'')
           else
             rbind (ComputeV3TranscriptHashFull C serverName serverPath init (ServerEphPK accept)
                      (ServerNonce accept) (Cipher accept)) (\<lambda>thFull.
             rbind (DeriveV3SessionSeed C token thFull shared) (\<lambda>sessKeys.
               Inr (accCapabilities accept, sessKeys, Cipher accept)))))"

text \<open>\<open>opened\<close> is the stream \<open>OpenStream\<close> returned, \<open>reply\<close> what the server sends back on it.\<close>

definition negotiateClientProtocol ::
  "crypto \<Rightarrow> string \<Rightarrow> bytes \<Rightarrow> bytes \<Rightarrow> client_env \<Rightarrow> u32 \<Rightarrow> 'w io_writer \<Rightarrow> 'w result \<Rightarrow> ('w \<Rightarrow> reader) \<Rightarrow>
   (u64 \<times> V3SessionKeys \<times> byte) result" where
  "negotiateClientProtocol C token base cipherPref E channelID W opened reply =
    rbind opened (\<lambda>s.
    rbind (clientBuildInit C token base cipherPref E channelID) (\<lambda>(init, clientSk, serverName, serverPath).
      (case writeChannelInitV3 W s init of
         (Some e, _) \<Rightarrow> Inl e
       | (None, s) \<Rightarrow> clientFinish C token init clientSk serverName serverPath (reply s))))"

section \<open>Lemmas on the server side\<close>

definition preauth_passes ::
  "crypto \<Rightarrow> server_cfg \<Rightarrow> gotime \<Rightarrow> string \<Rightarrow> string \<Rightarrow> server \<Rightarrow> ChannelInit \<Rightarrow> bool" where
  "preauth_passes C cfg now sn path srv i \<longleftrightarrow>
    (\<exists>d. DecodeTAI64N (TAI64N i) = Inr d) \<and>
    validateChannelInitTime now (Timestamp i) (AuthSkew cfg) \<and>
    length (ClientEphPK i) = 32 \<and>
    VerifyV3AuthProof C (cfgToken cfg) sn path i \<and>
    \<not> fst (nc_check (srvNonces srv) (SessionID i, ChannelID i, ClientNonce i) now (AuthSkew cfg)) \<and>
    fst (CheckAndStore (srvTai srv) (SessionID i) (TAI64N i) now (AuthSkew cfg)) \<and>
    Capabilities i AND requiredCapabilitiesV3 = requiredCapabilitiesV3 \<and>
    fst (snd (NegotiateCipherV3 (CipherPref i))) = 0"

definition preauth_caches :: "server_cfg \<Rightarrow> gotime \<Rightarrow> server \<Rightarrow> ChannelInit \<Rightarrow> server" where
  "preauth_caches cfg now srv i =
    srv\<lparr>srvNonces := snd (nc_check (srvNonces srv) (SessionID i, ChannelID i, ClientNonce i) now (AuthSkew cfg)),
        srvTai := snd (CheckAndStore (srvTai srv) (SessionID i) (TAI64N i) now (AuthSkew cfg))\<rparr>"

lemma preAuthChecks_read:
  assumes "readChannelInitV3 r (int maxV2FrameSize) = Inr (i, r')"
  shows "preauth_passes C cfg now sn path srv i \<Longrightarrow>
      preAuthChecks C cfg now sn path srv (Inr r) =
        (Inr (i, Capabilities i AND currentProtocolCapabilitiesV2, fst (NegotiateCipherV3 (CipherPref i))),
         preauth_caches cfg now srv i)"
    and "\<not> preauth_passes C cfg now sn path srv i \<Longrightarrow>
      \<exists>why srv'. preAuthChecks C cfg now sn path srv (Inr r) = (Inl why, srv')"
  using assms
  by (auto simp: preAuthChecks_def preauth_passes_def preauth_caches_def nc_check_def Let_def
      split: sum.splits prod.splits if_splits bool.splits)

lemma preAuthChecks_Inr:
  assumes "preAuthChecks C cfg now sn path srv streamIn = (Inr (i, caps, c), srv')"
  shows "\<exists>r r'. streamIn = Inr r \<and> readChannelInitV3 r (int maxV2FrameSize) = Inr (i, r') \<and>
    preauth_passes C cfg now sn path srv i \<and> srv' = preauth_caches cfg now srv i \<and>
    caps = Capabilities i AND currentProtocolCapabilitiesV2 \<and> c = fst (NegotiateCipherV3 (CipherPref i))"
proof (cases streamIn)
  case (Inl e)
  with assms show ?thesis by (simp add: preAuthChecks_def)
next
  case (Inr r)
  show ?thesis
  proof (cases "readChannelInitV3 r (int maxV2FrameSize)")
    case (Inl e)
    with assms \<open>streamIn = Inr r\<close> show ?thesis by (simp add: preAuthChecks_def)
  next
    case read: (Inr x)
    obtain j r' where j: "readChannelInitV3 r (int maxV2FrameSize) = Inr (j, r')" using read by (cases x) simp
    show ?thesis
    proof (cases "preauth_passes C cfg now sn path srv j")
      case True
      with preAuthChecks_read(1) [OF j True] assms Inr j show ?thesis by auto
    next
      case False
      with preAuthChecks_read(2) [OF j False] assms Inr show ?thesis by auto
    qed
  qed
qed

lemma preAuthChecks_nonces:
  "srvNonces (snd (preAuthChecks C cfg now sn path srv streamIn)) = srvNonces srv \<or>
   (\<exists>k. srvNonces (snd (preAuthChecks C cfg now sn path srv streamIn)) =
      snd (nc_check (srvNonces srv) k now (AuthSkew cfg)))"
proof (cases streamIn)
  case (Inl e)
  then show ?thesis by (simp add: preAuthChecks_def bumpFailure_def)
next
  case (Inr r)
  show ?thesis
  proof (cases "readChannelInitV3 r (int maxV2FrameSize)")
    case (Inl e)
    with Inr show ?thesis by (simp add: preAuthChecks_def bumpFailure_def)
  next
    case read: (Inr x)
    obtain i r' where i: "readChannelInitV3 r (int maxV2FrameSize) = Inr (i, r')" using read by (cases x) simp
    have "srvNonces (snd (preAuthChecks C cfg now sn path srv streamIn)) \<in>
        {srvNonces srv, snd (nc_check (srvNonces srv) (SessionID i, ChannelID i, ClientNonce i) now (AuthSkew cfg))}"
      using Inr i by (auto simp: preAuthChecks_def nc_check_def bumpFailure_def bumpReject_def Let_def
          split: sum.splits prod.splits bool.splits)
    then show ?thesis by blast
  qed
qed

lemma getOrCreate_True:
  "getOrCreateClientSession mc ss cid = (True, ss1) \<Longrightarrow> \<exists>s. map_of ss1 cid = Some s"
  by (auto simp: getOrCreateClientSession_def split: option.splits if_splits)

lemma ucast_u32_u64_zero: "(ucast (x :: u32) :: u64) = 0 \<longleftrightarrow> x = 0"
proof
  assume "(ucast x :: u64) = 0"
  then have "unat (ucast x :: u64) = 0" by simp
  moreover have "unat x < 2 ^ 64" using unsigned_less [of x, where ?'a = nat] by simp
  ultimately have "unat x = 0" by (simp add: unsigned_ucast_eq take_bit_nat_eq_self)
  then show "x = 0" by (simp add: unat_eq_0)
qed simp

definition accept_of ::
  "server_cfg \<Rightarrow> gotime \<Rightarrow> u64 \<Rightarrow> byte \<Rightarrow> bytes \<times> bytes \<times> bytes \<times> V3SessionKeys \<Rightarrow> ChannelAccept" where
  "accept_of cfg now caps c kx =
    (case kx of (spk, snonce, pf, ks) \<Rightarrow>
      \<lparr>accCapabilities = caps, ServerNonce = snonce, ServerTime = word_of_int (time_Unix now),
       MaxFrameSize = word_of_nat maxV2FrameSize,
       MaxStreams = (if maxStreamsPerClient cfg > 0 then word_of_int (maxStreamsPerClient cfg) else 0),
       accMessage = [], Cipher = c, ServerEphPK = spk, ServerProof = pf\<rparr>)"

text \<open>What an established handshake means for the server.\<close>

lemma handle_Established:
  assumes "handlePreAuthTransportSession C cfg base keyRnd nonceRnd now sn path W w srv streamIn =
      (Established chid tag, srv', w')"
  shows "\<exists>r r' i caps c spk snonce pf ks s. streamIn = Inr r \<and>
    readChannelInitV3 r (int maxV2FrameSize) = Inr (i, r') \<and> preauth_passes C cfg now sn path srv i \<and>
    caps = Capabilities i AND currentProtocolCapabilitiesV2 \<and> c = fst (NegotiateCipherV3 (CipherPref i)) \<and>
    serverKeyExchange C (cfgToken cfg) base keyRnd nonceRnd sn path i c = Inr (spk, snonce, pf, ks) \<and>
    writeChannelAcceptV3 W w (accept_of cfg now caps c (spk, snonce, pf, ks)) = (None, w') \<and>
    map_of (srvSessions srv') (hex_EncodeToString (SessionID i)) = Some s \<and>
    map_of (csChannels s) chid =
      Some \<lparr>chId = chid, chTag = tag, chData = \<lparr>ciCaps = caps, ciKeys = ks, ciCipher = c\<rparr>\<rparr> \<and>
    (ChannelID i \<noteq> 0 \<longrightarrow> chid = ucast (ChannelID i)) \<and> srvNonces srv' = srvNonces (preauth_caches cfg now srv i)"
proof -
  obtain res srv1 where chk: "preAuthChecks C cfg now sn path srv streamIn = (res, srv1)" by (cases "preAuthChecks C cfg now sn path srv streamIn")
  obtain i caps c where res: "res = Inr (i, caps, c)"
    using assms chk by (cases res) (auto simp: handlePreAuthTransportSession_def)
  note chk' = chk [unfolded res]
  let ?sid = "hex_EncodeToString (SessionID i)"
  obtain b ss where g0: "getOrCreateClientSession (maxClientSessions cfg) (srvSessions srv1) ?sid = (b, ss)"
    by (cases "getOrCreateClientSession (maxClientSessions cfg) (srvSessions srv1) ?sid")
  have b using assms chk' g0 by (cases b) (simp_all add: handlePreAuthTransportSession_def Let_def)
  then have g: "getOrCreateClientSession (maxClientSessions cfg) (srvSessions srv1) ?sid = (True, ss)" using g0 by simp
  obtain spk snonce pf ks where kx:
    "serverKeyExchange C (cfgToken cfg) base keyRnd nonceRnd sn path i c = Inr (spk, snonce, pf, ks)"
  proof (cases "serverKeyExchange C (cfgToken cfg) base keyRnd nonceRnd sn path i c")
    case (Inl e)
    with assms chk' g show ?thesis by (simp add: handlePreAuthTransportSession_def Let_def)
  next
    case (Inr kx)
    with that show ?thesis by (cases kx) auto
  qed
  obtain s0 where s0: "map_of ss (hex_EncodeToString (SessionID i)) = Some s0" using getOrCreate_True [OF g] by blast
  obtain ch old s1 where ad: "addChannel s0 (srvNextTag srv1) \<lparr>ciCaps = caps, ciKeys = ks, ciCipher = c\<rparr> (ucast (ChannelID i)) = (ch, old, s1)"
    by (cases "addChannel s0 (srvNextTag srv1) \<lparr>ciCaps = caps, ciKeys = ks, ciCipher = c\<rparr> (ucast (ChannelID i))")
  obtain e w1 where wr: "writeChannelAcceptV3 W w (accept_of cfg now caps c (spk, snonce, pf, ks)) = (e, w1)"
    by (cases "writeChannelAcceptV3 W w (accept_of cfg now caps c (spk, snonce, pf, ks))")
  have fin: "e = None \<and> w1 = w' \<and> chid = chId ch \<and> tag = chTag ch \<and>
      srvSessions srv' = AList.update (hex_EncodeToString (SessionID i)) s1 ss \<and> srvNonces srv' = srvNonces srv1"
    using assms chk' g kx s0 ad wr
    by (auto simp: handlePreAuthTransportSession_def accept_of_def Let_def split: option.splits)
  have ch: "map_of (csChannels s1) chid = Some \<lparr>chId = chid, chTag = tag, chData = \<lparr>ciCaps = caps, ciKeys = ks, ciCipher = c\<rparr>\<rparr>"
    using ad fin by (auto simp: addChannel_def Let_def update_conv)
  have cid: "ChannelID i \<noteq> 0 \<longrightarrow> chid = ucast (ChannelID i)"
    using ad fin ucast_u32_u64_zero [of "ChannelID i"] by (auto simp: addChannel_def Let_def)
  obtain r r' where p: "streamIn = Inr r" "readChannelInitV3 r (int maxV2FrameSize) = Inr (i, r')"
    "preauth_passes C cfg now sn path srv i" "srv1 = preauth_caches cfg now srv i"
    "caps = Capabilities i AND currentProtocolCapabilitiesV2" "c = fst (NegotiateCipherV3 (CipherPref i))"
    using preAuthChecks_Inr [OF chk'] by blast
  have se: "map_of (srvSessions srv') ?sid = Some s1" using fin by (simp add: update_conv)
  have no: "srvNonces srv' = srvNonces (preauth_caches cfg now srv i)" using fin p(4) by simp
  have wr': "writeChannelAcceptV3 W w (accept_of cfg now caps c (spk, snonce, pf, ks)) = (None, w')" using wr fin by simp
  show ?thesis
    by (rule exI [of _ r], rule exI [of _ r'], rule exI [of _ i], rule exI [of _ caps], rule exI [of _ c],
        rule exI [of _ spk], rule exI [of _ snonce], rule exI [of _ pf], rule exI [of _ ks], rule exI [of _ s1])
      (intro conjI p(1) p(2) p(3) p(5) p(6) kx wr' se ch cid no)
qed


section \<open>Lemmas on the client side\<close>

lemma read_default_size:
  "readChannelInitV3 r (int maxV2FrameSize) = readChannelInitV3 r 0"
  "readChannelAcceptOrRejectV3 r (int maxV2FrameSize) = readChannelAcceptOrRejectV3 r 0"
  by (simp_all add: readChannelInitV3_def readChannelAcceptOrRejectV3_def readV3Frame_def readFrame_def maxV2FrameSize_def)

text \<open>The transcript, hence every proof, does not depend on \<open>AuthProof\<close> and \<open>Padding\<close>.\<close>

lemma transcript_unsigned:
  "channelInitTranscriptV3 sn path (i\<lparr>AuthProof := x\<rparr>) spk snonce c full = channelInitTranscriptV3 sn path i spk snonce c full"
  "channelInitTranscriptV3 sn path (i\<lparr>Padding := y\<rparr>) spk snonce c full = channelInitTranscriptV3 sn path i spk snonce c full"
  by (simp_all add: channelInitTranscriptV3_def transcriptChecksV3_def transcriptBufV3_def)

lemma proofs_unsigned:
  "ComputeV3AuthProof C tok sn path (i\<lparr>AuthProof := x\<rparr>) = ComputeV3AuthProof C tok sn path i"
  "ComputeV3AuthProof C tok sn path (i\<lparr>Padding := y\<rparr>) = ComputeV3AuthProof C tok sn path i"
  by (simp_all add: ComputeV3AuthProof_def ComputeV3TranscriptHashInit_def ComputeV3TranscriptHash_def transcript_unsigned)

lemma VerifyV3AuthProof_iff:
  "VerifyV3AuthProof C tok sn path i \<longleftrightarrow> ComputeV3AuthProof C tok sn path i = Inr (AuthProof i)"
  by (auto simp: VerifyV3AuthProof_def split: sum.splits)

lemma VerifyV3ServerProof_iff:
  "VerifyV3ServerProof C tok sn path i a \<longleftrightarrow>
   ComputeV3ServerProof C tok sn path i (ServerEphPK a) (ServerNonce a) (Cipher a) = Inr (ServerProof a)"
  by (auto simp: VerifyV3ServerProof_def split: sum.splits)

lemma NegotiateCipherV3_accepts:
  assumes "fst (snd (NegotiateCipherV3 pref)) = 0"
  shows "find isSupportedCipherV3 pref = Some (fst (NegotiateCipherV3 pref))"
  using assms
  by (auto simp: NegotiateCipherV3_def NegotiateCipherLoop_find v3RejectUnsupportedCipher_def split: if_splits option.splits)

lemma find_supported: "find isSupportedCipherV3 pref = Some c \<Longrightarrow> isSupportedCipherV3 c"
  by (auto simp: find_Some_iff)

lemma serverKeyExchange_Inr:
  assumes "serverKeyExchange C tok base keyRnd nonceRnd sn path i c = Inr (spk, snonce, pf, ks)"
  shows "\<exists>sk shared th. keyRnd = Inr sk \<and> nonceRnd = Inr snonce \<and> x25519 C sk base = Inr spk \<and>
    ComputeV3SharedSecret C sk (ClientEphPK i) = Inr shared \<and>
    ComputeV3TranscriptHashFull C sn path i spk snonce c = Inr th \<and>
    ComputeV3ServerProof C tok sn path i spk snonce c = Inr pf \<and>
    DeriveV3SessionSeed C tok th shared = Inr ks"
  using assms unfolding serverKeyExchange_def NewV3ClientEphemeralKey_def
  by (elim result_elims) (auto elim!: result_elims split: prod.splits)

lemma sampleFirstPacketTarget_le:
  assumes "rand_ok R2" "sampleFirstPacketTarget R1 R2 n = (t, ok)"
  shows "t \<le> 1400"
proof -
  have "rand_Int R2 m = Some k \<Longrightarrow> k < m" for m k using assms(1) by (simp add: rand_ok_def)
  then have "rand_Int R2 97 = Some k \<Longrightarrow> k < 97" "rand_Int R2 129 = Some k \<Longrightarrow> k < 129"
    "rand_Int R2 121 = Some k \<Longrightarrow> k < 121" for k by blast+
  then show ?thesis
    using assms(2) by (fastforce simp: sampleFirstPacketTarget_def Let_def split: if_splits option.splits)
qed

lemma clientBuildInit_Inr:
  assumes b: "clientBuildInit C tok base pref E cid = Inr (i, csk, sn, path)"
    and R: "rand_ok (ceOffset E)" "rand_ok (cePad E)"
  shows "ceKey E = Inr csk \<and> x25519 C csk base = Inr (ClientEphPK i) \<and> ceEndpoint E = Inr (sn, path) \<and>
    ceSession E = Inr (SessionID i) \<and> ceNonce E = Inr (ClientNonce i) \<and> ChannelID i = cid \<and>
    Timestamp i = word_of_int (time_Unix (ceNow E)) \<and> TAI64N i = ceTai E \<and> CipherPref i = pref \<and>
    Capabilities i = currentProtocolCapabilitiesV2 OR protocolCapabilityForwardSecrecy \<and>
    ComputeV3AuthProof C tok sn path i = Inr (AuthProof i) \<and> wf_init_v3 i \<and> length (Padding i) \<le> 1400"
proof -
  define j where "j sid nonce cpk = ChannelInit0\<lparr>SessionID := sid, ChannelID := cid, ClientNonce := nonce,
            Timestamp := word_of_int (time_Unix (ceNow E)),
            Capabilities := currentProtocolCapabilitiesV2 OR protocolCapabilityForwardSecrecy,
            CipherPref := pref, ClientEphPK := cpk, TAI64N := ceTai E\<rparr>" for sid nonce cpk
  obtain sid nonce cpk pf body where s: "ceSession E = Inr sid" "ceNonce E = Inr nonce" "ceEndpoint E = Inr (sn, path)"
      "ceKey E = Inr csk" "x25519 C csk base = Inr cpk"
    and p: "ComputeV3AuthProof C tok sn path (j sid nonce cpk) = Inr pf"
    and u: "encodeChannelInitV3 (j sid nonce cpk\<lparr>AuthProof := pf\<rparr>) = Inr body"
    and fin: "(case sampleFirstPacketTarget (ceBand E) (ceOffset E) (8 + length body) of
         (target, ok) \<Rightarrow>
           if ok \<and> target \<ge> 8 + length body + 4 then
             (case rand_Read (cePad E) (target - (8 + length body) - 4) of
                None \<Rightarrow> Inl (Errorf ''padding'')
              | Some pad \<Rightarrow> Inr (j sid nonce cpk\<lparr>AuthProof := pf, Padding := pad\<rparr>, csk, sn, path))
           else Inr (j sid nonce cpk\<lparr>AuthProof := pf\<rparr>, csk, sn, path)) = Inr (i, csk, sn, path)"
    using b unfolding clientBuildInit_def NewV3ClientEphemeralKey_def Let_def j_def [symmetric]
    by (elim rbind_InrE) (auto elim!: rbind_InrE Inr_InrE split: prod.splits if_splits option.splits)
  have i: "i = j sid nonce cpk\<lparr>AuthProof := pf\<rparr> \<or> (\<exists>n pad. n \<le> 1400 \<and> rand_Read (cePad E) n = Some pad \<and>
      i = j sid nonce cpk\<lparr>AuthProof := pf, Padding := pad\<rparr>)"
  proof (cases "sampleFirstPacketTarget (ceBand E) (ceOffset E) (8 + length body)")
    case (Pair t ok)
    have "t - (8 + length body) - 4 \<le> 1400" using sampleFirstPacketTarget_le [OF R(1) Pair] by simp
    with fin Pair show ?thesis by (auto split: if_splits option.splits)
  qed
  have "wf_init_v3 i" using u i by (auto simp: encodeChannelInitV3_iff wf_init_v3_def)
  moreover have "length (Padding i) \<le> 1400"
    using i R(2) by (auto simp: rand_ok_def j_def ChannelInit0_def)
  moreover have "ComputeV3AuthProof C tok sn path i = Inr (AuthProof i)"
    using i p by (auto simp: proofs_unsigned)
  ultimately show ?thesis using i s by (auto simp: j_def)
qed

lemma shared_lengths:
  "ComputeV3SharedSecret C sk pk = Inr sh \<Longrightarrow> length sk = 32 \<and> length pk = 32 \<and> x25519 C sk pk = Inr sh"
  by (auto simp: ComputeV3SharedSecret_def split: if_splits sum.splits)

section \<open>Sequences of handshakes\<close>

text \<open>
  The accept loop hands each session to \<open>handlePreAuthTransportSession\<close>. An \<open>attempt\<close> holds
  what one of them receives from outside: the clock, the endpoint, the random bytes, the
  stream read and the writer's state.
\<close>

record 'w attempt =
  atNow :: gotime
  atServerName :: string
  atPath :: string
  atKey :: "bytes result"
  atNonce :: "bytes result"
  atWriter :: 'w
  atStream :: "reader result"

definition serve_one ::
  "crypto \<Rightarrow> server_cfg \<Rightarrow> bytes \<Rightarrow> 'w io_writer \<Rightarrow> server \<Rightarrow> 'w attempt \<Rightarrow> preauth \<times> server \<times> 'w" where
  "serve_one C cfg base W srv a =
    handlePreAuthTransportSession C cfg base (atKey a) (atNonce a) (atNow a) (atServerName a) (atPath a) W
      (atWriter a) srv (atStream a)"

fun serve :: "crypto \<Rightarrow> server_cfg \<Rightarrow> bytes \<Rightarrow> 'w io_writer \<Rightarrow> server \<Rightarrow> 'w attempt list \<Rightarrow> server" where
  "serve C cfg base W srv [] = srv"
| "serve C cfg base W srv (a # as) = serve C cfg base W (fst (snd (serve_one C cfg base W srv a))) as"

text \<open>The init a stream carries, and the identity the replay check uses.\<close>

definition carries :: "reader result \<Rightarrow> ChannelInit \<Rightarrow> bool" where
  "carries streamIn i \<longleftrightarrow> (\<exists>r r'. streamIn = Inr r \<and> readChannelInitV3 r (int maxV2FrameSize) = Inr (i, r'))"

definition init_id :: "ChannelInit \<Rightarrow> nonce_id" where
  "init_id i = (SessionID i, ChannelID i, ClientNonce i)"

lemma handle_nonces:
  "srvNonces (fst (snd (handlePreAuthTransportSession C cfg base keyRnd nonceRnd now sn path W w srv streamIn))) =
   srvNonces (snd (preAuthChecks C cfg now sn path srv streamIn))"
proof (cases "preAuthChecks C cfg now sn path srv streamIn")
  case (Pair res srv1)
  then show ?thesis
    by (auto simp: handlePreAuthTransportSession_def bumpFailure_def Let_def
        split: sum.splits prod.splits bool.splits option.splits)
qed

lemma serve_one_nonces:
  "srvNonces (fst (snd (serve_one C cfg base W srv a))) = srvNonces srv \<or>
   (\<exists>k. srvNonces (fst (snd (serve_one C cfg base W srv a))) =
      snd (nc_check (srvNonces srv) k (atNow a) (AuthSkew cfg)))"
  unfolding serve_one_def handle_nonces by (rule preAuthChecks_nonces)

text \<open>A run of handshakes performs at most one replay check per attempt.\<close>

lemma serve_checks:
  "\<exists>ks. srvNonces (serve C cfg base W srv as) = nonces.checks (srvNonces srv) ks (AuthSkew cfg) \<and>
    length ks \<le> length as \<and> snd ` set ks \<subseteq> atNow ` set as"
proof (induction as arbitrary: srv)
  case Nil
  have "srvNonces (serve C cfg base W srv []) = nonces.checks (srvNonces srv) [] (AuthSkew cfg)" by simp
  then show ?case by fastforce
next
  case (Cons a as)
  let ?s = "fst (snd (serve_one C cfg base W srv a))"
  obtain ks where ks: "srvNonces (serve C cfg base W ?s as) = nonces.checks (srvNonces ?s) ks (AuthSkew cfg)"
    "length ks \<le> length as" "snd ` set ks \<subseteq> atNow ` set as"
    using Cons.IH by blast
  from serve_one_nonces [of C cfg base W srv a] show ?case
  proof
    assume "srvNonces ?s = srvNonces srv"
    with ks show ?thesis by (intro exI [of _ ks]) auto
  next
    assume "\<exists>k. srvNonces ?s = snd (nc_check (srvNonces srv) k (atNow a) (AuthSkew cfg))"
    then obtain k where "srvNonces ?s = snd (nc_check (srvNonces srv) k (atNow a) (AuthSkew cfg))" by blast
    with ks show ?thesis by (intro exI [of _ "(k, atNow a) # ks"]) auto
  qed
qed

lemma checks_inv:
  "nc_inv c \<Longrightarrow> nc_inv (nonces.checks c ks ttl) \<and> ncMax (nonces.checks c ks ttl) = ncMax c"
  by (induction ks arbitrary: c) (auto simp: nc_check_def seenOrStore_inv split: prod.splits)

lemma serve_inv:
  assumes "nc_inv (srvNonces srv)"
  shows "nc_inv (srvNonces (serve C cfg base W srv as)) \<and>
    ncMax (srvNonces (serve C cfg base W srv as)) = ncMax (srvNonces srv)"
  using serve_checks [of C cfg base W srv as] checks_inv [OF assms] by fastforce

lemma newServer_inv: "nc_inv (srvNonces newServer)" "ncMax (srvNonces newServer) = 65536"
  by (simp_all add: newServer_def newNonceReplayCache_def nc_inv_def)

lemma handle_Established_init:
  assumes "serve_one C cfg base W srv a = (Established chid tag, srv', w')"
  shows "\<exists>i. carries (atStream a) i \<and> preauth_passes C cfg (atNow a) (atServerName a) (atPath a) srv i \<and>
    srvNonces srv' = snd (nc_check (srvNonces srv) (init_id i) (atNow a) (AuthSkew cfg))"
  using handle_Established [OF assms [unfolded serve_one_def]]
  unfolding carries_def init_id_def preauth_caches_def by fastforce

lemma carries_unique: "carries s i \<Longrightarrow> carries s j \<Longrightarrow> i = j"
  by (auto simp: carries_def)

text \<open>
  C3. No handshake is accepted twice: when an attempt is established, and at most
  65535 further attempts follow, all within \<open>AuthSkew\<close> of it, then no later attempt within
  \<open>AuthSkew\<close> whose init has the same session id, channel id and client nonce is established.
  The server's state before the first attempt is any state reachable from \<open>newServer\<close>.
\<close>

lemma handshake_not_replayable:
  assumes first: "serve_one C cfg base W (serve C cfg base W newServer before) a = (Established chid tag, srv1, w1)"
    and few: "length between < 65536"
    and time: "list_all (\<lambda>x. atNow x - AuthSkew cfg \<le> atNow a) (between @ [b])"
    and same: "carries (atStream a) i" "carries (atStream b) j" "init_id j = init_id i"
  shows "\<exists>why srv2 w2. serve_one C cfg base W (serve C cfg base W srv1 between) b = (Refused why, srv2, w2)"
proof (rule ccontr)
  let ?s = "serve C cfg base W newServer before" and ?t = "serve C cfg base W srv1 between"
  assume "\<not> ?thesis"
  then obtain chid2 tag2 srv2 w2 where second: "serve_one C cfg base W ?t b = (Established chid2 tag2, srv2, w2)"
    by (metis preauth.exhaust prod_cases3)
  have inv: "nc_inv (srvNonces ?s)" and mx: "ncMax (srvNonces ?s) = 65536"
    using serve_inv [OF newServer_inv(1), of C cfg base W before] newServer_inv(2) by simp_all
  obtain i' where i': "carries (atStream a) i'" "preauth_passes C cfg (atNow a) (atServerName a) (atPath a) ?s i'"
    "srvNonces srv1 = snd (nc_check (srvNonces ?s) (init_id i') (atNow a) (AuthSkew cfg))"
    using handle_Established_init [OF first] by blast
  have i: "i' = i" using carries_unique [OF i'(1) same(1)] .
  have acc: "nc_check (srvNonces ?s) (init_id i) (atNow a) (AuthSkew cfg) = (False, srvNonces srv1)"
    using i' i by (simp add: preauth_passes_def init_id_def prod_eq_iff)
  obtain j' where j': "carries (atStream b) j'" "preauth_passes C cfg (atNow b) (atServerName b) (atPath b) ?t j'"
    using handle_Established_init [OF second] by blast
  have j: "j' = j" using carries_unique [OF j'(1) same(2)] .
  have nf: "\<not> fst (nc_check (srvNonces ?t) (init_id i) (atNow b) (AuthSkew cfg))"
    using j'(2) j same(3) by (simp add: preauth_passes_def init_id_def)
  obtain ks where ks: "srvNonces ?t = nonces.checks (srvNonces srv1) ks (AuthSkew cfg)"
    "length ks \<le> length between" "snd ` set ks \<subseteq> atNow ` set between"
    using serve_checks [of C cfg base W srv1 between] by blast
  have "list_all (\<lambda>(k', now). 0 < AuthSkew cfg \<longrightarrow> now - AuthSkew cfg \<le> atNow a) ks"
    using ks(3) time by (fastforce simp: list_all_iff)
  then have "fst (nc_check (nonces.checks (srvNonces srv1) ks (AuthSkew cfg)) (init_id i) (atNow b) (AuthSkew cfg))"
    using nonces.replay_found [OF inv acc, of ks "atNow b"] mx ks(2) few time by simp
  then show False using nf ks(1) by simp
qed

section \<open>Agreement and completion\<close>

lemma caps_current: "currentProtocolCapabilitiesV2 AND requiredCapabilitiesV3 = requiredCapabilitiesV3"
  by (simp add: currentProtocolCapabilitiesV2_def requiredCapabilitiesV3_def requiredProtocolCapabilitiesV2_def
      currentProtocolCapabilities_def protocolCapabilityForwardSecrecy_def protocolCapabilityChannelStats_def
      protocolCapabilityTCP_def protocolCapabilityUDP_def protocolCapabilityPing_def protocolCapabilityIPStrategy_def
      protocolCapabilityTCPStatus_def protocolCapabilityUDPStatus_def protocolCapabilityOpenStatusCode_def)

lemma negotiated_caps:
  assumes "x AND requiredCapabilitiesV3 = requiredCapabilitiesV3"
  shows "(x AND currentProtocolCapabilitiesV2) AND requiredCapabilitiesV3 = requiredCapabilitiesV3"
  using assms caps_current by (simp add: and.assoc and.left_commute)

lemma client_caps:
  "(currentProtocolCapabilitiesV2 OR protocolCapabilityForwardSecrecy) AND requiredCapabilitiesV3 = requiredCapabilitiesV3"
  using caps_current by (simp add: bit.conj_disj_distrib2)

lemma writeChannelAcceptV3_None:
  assumes "reliable_writer W ok sink" "ok w" "writeChannelAcceptV3 W w a = (None, w')" "length (accMessage a) \<le> 16227"
  shows "wf_accept_v3 a \<and> (\<exists>g. sink w' = sink w @ g \<and>
    (\<forall>rest e. readChannelAcceptOrRejectV3 (Reader (g @ rest) e) 0 = Inr ((a, ChannelReject0), Reader rest e)))"
proof -
  have wf: "wf_accept_v3 a"
    using assms(3) encodeChannelAcceptV3_iff [of a]
    by (cases "encodeChannelAcceptV3 a") (auto simp: writeChannelAcceptV3_def)
  from accept_v3_delivers [OF assms(1,2) wf assms(4)] assms(3) wf show ?thesis by (auto simp: delivers_def)
qed

text \<open>The client, reading the accept the server wrote, derives the keys the server recorded.\<close>

lemma clientFinish_agrees:
  assumes dh: "dh_agrees C base" and ck: "length csk = 32" "x25519 C csk base = Inr (ClientEphPK i)"
    and caps: "caps AND requiredCapabilitiesV3 = requiredCapabilitiesV3"
    and kx: "serverKeyExchange C tok base keyRnd nonceRnd sn path i c = Inr (spk, snonce, pf, ks)"
    and read: "readChannelAcceptOrRejectV3 r 0 = Inr ((accept_of cfg now caps c (spk, snonce, pf, ks), ChannelReject0), r')"
    and wf: "wf_accept_v3 (accept_of cfg now caps c (spk, snonce, pf, ks))"
  shows "clientFinish C tok i csk sn path r = Inr (caps, ks, c)"
proof -
  obtain sk shared th where k: "x25519 C sk base = Inr spk" "ComputeV3SharedSecret C sk (ClientEphPK i) = Inr shared"
    "ComputeV3TranscriptHashFull C sn path i spk snonce c = Inr th"
    "ComputeV3ServerProof C tok sn path i spk snonce c = Inr pf" "DeriveV3SessionSeed C tok th shared = Inr ks"
    using serverKeyExchange_Inr [OF kx] by blast
  have len: "length spk = 32" "length pf = 32" using wf by (simp_all add: wf_accept_v3_def accept_of_def)
  have "x25519 C csk spk = x25519 C sk (ClientEphPK i)" using dh ck(2) k(1) unfolding dh_agrees_def by blast
  then have sh: "ComputeV3SharedSecret C csk spk = Inr shared"
    using k(2) ck(1) len(1) by (auto simp: ComputeV3SharedSecret_def split: if_splits)
  have "VerifyV3ServerProof C tok sn path i (accept_of cfg now caps c (spk, snonce, pf, ks))"
    using k(4) by (simp add: VerifyV3ServerProof_iff accept_of_def)
  then show ?thesis
    using read caps len sh k(3,5)
    by (simp add: clientFinish_def read_default_size accept_of_def ChannelReject0_def)
qed

text \<open>When every check passes and the key exchange succeeds, the handshake is established.\<close>

lemma handle_completes:
  assumes W: "reliable_writer W ok sink" "ok w"
    and read: "readChannelInitV3 r (int maxV2FrameSize) = Inr (i, r')"
    and pass: "preauth_passes C cfg now sn path srv i"
    and room: "fst (getOrCreateClientSession (maxClientSessions cfg) (srvSessions srv) (hex_EncodeToString (SessionID i)))"
    and kx: "serverKeyExchange C (cfgToken cfg) base keyRnd nonceRnd sn path i (fst (NegotiateCipherV3 (CipherPref i))) =
      Inr (spk, snonce, pf, ks)"
    and len: "length spk = 32" "length snonce = 32" "length pf = 32"
  shows "\<exists>tag srv' w'. handlePreAuthTransportSession C cfg base keyRnd nonceRnd now sn path W w srv (Inr r) =
    (Established (ucast (ChannelID i)) tag, srv', w')"
proof -
  let ?c = "fst (NegotiateCipherV3 (CipherPref i))" and ?caps = "Capabilities i AND currentProtocolCapabilitiesV2"
  let ?sid = "hex_EncodeToString (SessionID i)" and ?srv = "preauth_caches cfg now srv i"
  let ?a = "accept_of cfg now ?caps ?c (spk, snonce, pf, ks)"
  have cid: "(ucast (ChannelID i) :: u64) \<noteq> 0"
    using readChannelInitV3_wf [OF read] by (simp add: wf_init_v3_def ucast_u32_u64_zero)
  have sup: "isSupportedCipherV3 ?c"
    using NegotiateCipherV3_accepts find_supported pass by (auto simp: preauth_passes_def)
  obtain ss where ss: "getOrCreateClientSession (maxClientSessions cfg) (srvSessions ?srv) ?sid = (True, ss)"
    using room by (cases "getOrCreateClientSession (maxClientSessions cfg) (srvSessions srv) ?sid")
      (simp add: preauth_caches_def)
  obtain s where s: "map_of ss ?sid = Some s" using getOrCreate_True [OF ss] by blast
  obtain w' where w': "writeChannelAcceptV3 W w ?a = (None, w')"
    using accept_v3_delivers [OF W, of ?a] len sup by (auto simp: delivers_def wf_accept_v3_def accept_of_def)
  show ?thesis
    using preAuthChecks_read(1) [OF read pass] ss s kx w' cid
    by (simp add: handlePreAuthTransportSession_def addChannel_def accept_of_def Let_def)
qed

lemma serverKeyExchange_completes:
  assumes law: "hash_lengths C" "hkdf_total C"
    and k: "length sk = 32" "x25519 C sk base = Inr spk" "length spk = 32" "length snonce = 32"
    and sh: "x25519 C sk (ClientEphPK i) = Inr shared" "length shared = 32" "\<exists>x\<in>set shared. x \<noteq> 0"
    and tok: "tok \<noteq> []" and sup: "isSupportedCipherV3 c" and pf: "ComputeV3AuthProof C tok sn path i = Inr p"
  shows "\<exists>pf ks. serverKeyExchange C tok base (Inr sk) (Inr snonce) sn path i c = Inr (spk, snonce, pf, ks) \<and>
    length pf = 32"
proof -
  have ok: "transcript_ok_v3 sn path i [] [] 0 False"
    using pf by (auto simp: ComputeV3AuthProof_def ComputeV3TranscriptHashInit_def ComputeV3TranscriptHash_def
        rbind_eq_Inr channelInitTranscriptV3_iff)
  then have "transcript_ok_v3 sn path i spk snonce c True"
    using k sup by (simp add: transcript_ok_v3_def)
  then have th: "ComputeV3TranscriptHashFull C sn path i spk snonce c =
      Inr (sha256_Sum C (transcript_layout_v3 sn path i spk snonce c True))"
    by (simp add: ComputeV3TranscriptHashFull_def ComputeV3TranscriptHash_def rbind_eq_Inr channelInitTranscriptV3_iff)
  obtain ak where ak: "hkdf_New C (bytes_of tok) (bytes_of ''x-tunnel-v3-auth'') (bytes_of sn) 32 = Inr ak"
    using law(2) [unfolded hkdf_total_def, rule_format, of 32] unfolding hkdf_New_def by force
  have z: "\<not> isZeroBytesV3 shared" using sh(3) by (simp add: isZeroBytesV3_iff)
  obtain ks where "DeriveV3SessionSeed C tok (sha256_Sum C (transcript_layout_v3 sn path i spk snonce c True)) shared = Inr ks"
    using DeriveV3SessionSeed_ok [OF law(2) tok _ sh(2) z] law(1) unfolding hash_lengths_def by blast
  moreover have "ComputeV3SharedSecret C sk (ClientEphPK i) = Inr shared"
    using sh z k ok by (simp add: ComputeV3SharedSecret_def isZeroBytesV3_def transcript_ok_v3_def or.commute)
  ultimately show ?thesis
    using th ak k law(1)
    by (simp add: serverKeyExchange_def NewV3ClientEphemeralKey_def ComputeV3ServerProof_def hash_lengths_def)
qed

section \<open>Properties\<close>

text \<open>
  What an established handshake means: the server read a well-formed init
  whose \<open>AuthProof\<close> is the proof of the configured token for this endpoint, whose timestamp lies
  within \<open>AuthSkew\<close> of the clock, whose nonce and TAI64N label the caches took as new, and
  which offers every required capability. The cipher is the first supported one of the client's
  preference, and the channel is recorded in the client's session under the requested id, with
  the derived keys.
\<close>

lemma established_authenticated:
  assumes "handlePreAuthTransportSession C cfg base keyRnd nonceRnd now sn path W w srv streamIn =
      (Established chid tag, srv', w')"
  shows "\<exists>r r' i c ks s. streamIn = Inr r \<and> readChannelInitV3 r (int maxV2FrameSize) = Inr (i, r') \<and> wf_init_v3 i \<and>
    ComputeV3AuthProof C (cfgToken cfg) sn path i = Inr (AuthProof i) \<and>
    (0 < AuthSkew cfg \<longrightarrow> \<bar>time_of_unix (sint (Timestamp i)) 0 - now\<bar> \<le> AuthSkew cfg) \<and>
    \<not> fst (seenOrStore (srvNonces srv) (SessionID i) (ChannelID i) (ClientNonce i) now (AuthSkew cfg)) \<and>
    fst (CheckAndStore (srvTai srv) (SessionID i) (TAI64N i) now (AuthSkew cfg)) \<and>
    Capabilities i AND requiredCapabilitiesV3 = requiredCapabilitiesV3 \<and>
    find isSupportedCipherV3 (CipherPref i) = Some c \<and> chid = ucast (ChannelID i) \<and>
    map_of (srvSessions srv') (hex_EncodeToString (SessionID i)) = Some s \<and>
    map_of (csChannels s) chid = Some \<lparr>chId = chid, chTag = tag,
      chData = \<lparr>ciCaps = Capabilities i AND currentProtocolCapabilitiesV2, ciKeys = ks, ciCipher = c\<rparr>\<rparr>"
proof -
  obtain r r' i spk snonce pf ks s where h: "streamIn = Inr r" "readChannelInitV3 r (int maxV2FrameSize) = Inr (i, r')"
    and p: "preauth_passes C cfg now sn path srv i"
    and m: "map_of (srvSessions srv') (hex_EncodeToString (SessionID i)) = Some s"
      "map_of (csChannels s) chid = Some \<lparr>chId = chid, chTag = tag,
        chData = \<lparr>ciCaps = Capabilities i AND currentProtocolCapabilitiesV2, ciKeys = ks,
          ciCipher = fst (NegotiateCipherV3 (CipherPref i))\<rparr>\<rparr>"
    and c: "ChannelID i \<noteq> 0 \<longrightarrow> chid = ucast (ChannelID i)"
    using handle_Established [OF assms] by blast
  note pp = p [unfolded preauth_passes_def VerifyV3AuthProof_iff nc_check_def prod.case]
  have wf: "wf_init_v3 i" by (rule readChannelInitV3_wf [OF h(2)])
  have t: "0 < AuthSkew cfg \<longrightarrow> \<bar>time_of_unix (sint (Timestamp i)) 0 - now\<bar> \<le> AuthSkew cfg"
    using pp by (auto simp: validateChannelInitTime_def Let_def split: if_splits)
  have cid: "chid = ucast (ChannelID i)" using c wf by (simp add: wf_init_v3_def)
  show ?thesis
    by (rule exI [of _ r], rule exI [of _ r'], rule exI [of _ i], rule exI [of _ "fst (NegotiateCipherV3 (CipherPref i))"],
        rule exI [of _ ks], rule exI [of _ s])
      (use h wf pp t m cid NegotiateCipherV3_accepts [of "CipherPref i"] in simp)
qed

text \<open>
  C6. A peer without the token leaves no trace: when the bytes of the stream carry no
  init with a valid proof, the handshake is refused, nothing is written back, and the replay
  caches, the session table and the count of accepted handshakes are unchanged.
\<close>

lemma unauthenticated_no_effect:
  assumes "\<And>i r'. readChannelInitV3 r (int maxV2FrameSize) = Inr (i, r') \<Longrightarrow>
    ComputeV3AuthProof C (cfgToken cfg) sn path i \<noteq> Inr (AuthProof i)"
  shows "\<exists>why srv'. handlePreAuthTransportSession C cfg base keyRnd nonceRnd now sn path W w srv (Inr r) =
      (Refused why, srv', w) \<and>
    srvNonces srv' = srvNonces srv \<and> srvTai srv' = srvTai srv \<and> srvSessions srv' = srvSessions srv \<and>
    srvNextTag srv' = srvNextTag srv \<and> protocolOKSeq srv' = protocolOKSeq srv"
proof (cases "readChannelInitV3 r (int maxV2FrameSize)")
  case (Inl e)
  then show ?thesis
    by (simp add: handlePreAuthTransportSession_def preAuthChecks_def bumpFailure_def)
next
  case (Inr x)
  obtain i r' where i: "x = (i, r')" by (cases x)
  have "\<not> VerifyV3AuthProof C (cfgToken cfg) sn path i"
    using assms [of i r'] Inr i by (simp add: VerifyV3AuthProof_iff)
  with Inr i show ?thesis
    by (simp add: handlePreAuthTransportSession_def preAuthChecks_def bumpFailure_def bumpReject_def)
qed

text \<open>
  C2. Key agreement: when the server establishes a handshake on what a client with the
  same token wrote, then the client, reading what the server wrote back, ends its negotiation
  with exactly the capabilities, session keys and cipher the server recorded for the channel.
  X25519 agreement and 32 random bytes for the client's key are the hypotheses on the library.
\<close>

lemma handshake_agreement:
  assumes Wc: "reliable_writer Wc okc sinkc" "okc wc" and Ws: "reliable_writer Ws oks sinks" "oks ws"
    and law: "dh_agrees C base" "rand_ok (ceOffset E)" "rand_ok (cePad E)" "ceKey E = Inr csk" "length csk = 32"
    and build: "clientBuildInit C (cfgToken cfg) base pref E cid = Inr (i, csk, sn, path)"
    and sent: "writeChannelInitV3 Wc wc i = (None, wc')" "sinkc wc' = sinkc wc @ f"
    and srv: "handlePreAuthTransportSession C cfg base keyRnd nonceRnd now sn path Ws ws srv (Inr (Reader (f @ rest) e)) =
      (Established chid tag, srv', ws')"
  shows "\<exists>s d g. map_of (srvSessions srv') (hex_EncodeToString (SessionID i)) = Some s \<and>
    map_of (csChannels s) chid = Some \<lparr>chId = chid, chTag = tag, chData = d\<rparr> \<and> sinks ws' = sinks ws @ g \<and>
    (\<forall>rest e. negotiateClientProtocol C (cfgToken cfg) base pref E cid Wc (Inr wc) (\<lambda>_. Reader (g @ rest) e) =
      Inr (ciCaps d, ciKeys d, ciCipher d))"
proof -
  note b = clientBuildInit_Inr [OF build law(2,3)]
  have "readChannelInitV3 (Reader (f @ rest) e) 0 = Inr (i, Reader rest e)"
    using init_v3_delivers [OF Wc, of i] b sent by (auto simp: delivers_def)
  then have rd: "readChannelInitV3 (Reader (f @ rest) e) (int maxV2FrameSize) = Inr (i, Reader rest e)"
    by (simp add: read_default_size)
  obtain r r' j caps c spk snonce pf ks s where j: "Inr (Reader (f @ rest) e) = (Inr r :: reader result)"
      "readChannelInitV3 r (int maxV2FrameSize) = Inr (j, r')"
    and h': "preauth_passes C cfg now sn path srv j" "caps = Capabilities j AND currentProtocolCapabilitiesV2"
    and kx': "serverKeyExchange C (cfgToken cfg) base keyRnd nonceRnd sn path j c = Inr (spk, snonce, pf, ks)"
    and wr: "writeChannelAcceptV3 Ws ws (accept_of cfg now caps c (spk, snonce, pf, ks)) = (None, ws')"
    and m': "map_of (srvSessions srv') (hex_EncodeToString (SessionID j)) = Some s"
      "map_of (csChannels s) chid =
        Some \<lparr>chId = chid, chTag = tag, chData = \<lparr>ciCaps = caps, ciKeys = ks, ciCipher = c\<rparr>\<rparr>"
    using handle_Established [OF srv] by blast
  have ji: "j = i" using j rd by simp
  note h = h' [unfolded ji] and kx = kx' [unfolded ji] and m = m' [unfolded ji]
  obtain g where g: "sinks ws' = sinks ws @ g" and wf: "wf_accept_v3 (accept_of cfg now caps c (spk, snonce, pf, ks))"
    and ra: "\<And>rest e. readChannelAcceptOrRejectV3 (Reader (g @ rest) e) 0 =
      Inr ((accept_of cfg now caps c (spk, snonce, pf, ks), ChannelReject0), Reader rest e)"
    using writeChannelAcceptV3_None [OF Ws wr] by (auto simp: accept_of_def)
  have caps: "caps AND requiredCapabilitiesV3 = requiredCapabilitiesV3"
    using h negotiated_caps by (simp add: preauth_passes_def)
  have "negotiateClientProtocol C (cfgToken cfg) base pref E cid Wc (Inr wc) (\<lambda>_. Reader (g @ rest) e) = Inr (caps, ks, c)"
    for rest e
    using clientFinish_agrees [OF law(1,5) _ caps kx ra wf] b build sent
    by (simp add: negotiateClientProtocol_def)
  with m g show ?thesis by (intro exI [of _ s] exI [of _ "\<lparr>ciCaps = caps, ciKeys = ks, ciCipher = c\<rparr>"] exI [of _ g]) simp
qed

text \<open>
  C5. Completion: the handshake of an honest client is established under the requested
  channel id, when the clocks agree within \<open>AuthSkew\<close>, the nonce and label are new, there is room
  for the session and the library primitives deliver results of their documented lengths.
\<close>

lemma handshake_completes:
  assumes W: "reliable_writer Wc okc sinkc" "okc wc" "reliable_writer Ws oks sinks" "oks ws"
    and law: "hash_lengths C" "hkdf_total C" "rand_ok (ceOffset E)" "rand_ok (cePad E)"
    and build: "clientBuildInit C (cfgToken cfg) base pref E cid = Inr (i, csk, sn, path)"
    and sent: "writeChannelInitV3 Wc wc i = (None, wc')" "sinkc wc' = sinkc wc @ f"
    and k: "length sk = 32" "x25519 C sk base = Inr spk" "length spk = 32" "length snonce = 32"
    and sh: "x25519 C sk (ClientEphPK i) = Inr shared" "length shared = 32" "\<exists>x\<in>set shared. x \<noteq> 0"
    and tok: "cfgToken cfg \<noteq> []"
    and time: "validateChannelInitTime now (Timestamp i) (AuthSkew cfg)"
    and new: "\<not> fst (seenOrStore (srvNonces srv) (SessionID i) (ChannelID i) (ClientNonce i) now (AuthSkew cfg))"
      "fst (CheckAndStore (srvTai srv) (SessionID i) (TAI64N i) now (AuthSkew cfg))"
    and room: "fst (getOrCreateClientSession (maxClientSessions cfg) (srvSessions srv) (hex_EncodeToString (SessionID i)))"
  shows "\<exists>tag srv' ws'. handlePreAuthTransportSession C cfg base (Inr sk) (Inr snonce) now sn path Ws ws srv
      (Inr (Reader (f @ rest) e)) = (Established (ucast cid) tag, srv', ws')"
proof -
  note b = clientBuildInit_Inr [OF build law(3,4)]
  have "readChannelInitV3 (Reader (f @ rest) e) 0 = Inr (i, Reader rest e)"
    using init_v3_delivers [OF W(1,2), of i] b sent by (auto simp: delivers_def)
  then have rd: "readChannelInitV3 (Reader (f @ rest) e) (int maxV2FrameSize) = Inr (i, Reader rest e)"
    by (simp add: read_default_size)
  have wf: "wf_init_v3 i" using b by simp
  then have "\<exists>c. NegotiateCipherV3 (CipherPref i) = (c, 0, []) \<and> isSupportedCipherV3 c"
    by (cases "CipherPref i") (auto simp: wf_init_v3_def NegotiateCipherV3_def)
  then obtain c where c: "NegotiateCipherV3 (CipherPref i) = (c, 0, [])" "isSupportedCipherV3 c" by blast
  have tai: "\<exists>d. DecodeTAI64N (TAI64N i) = Inr d"
    using new(2) by (auto simp: CheckAndStore_def split: if_splits sum.splits)
  have pass: "preauth_passes C cfg now sn path srv i"
    using b wf c tai time new client_caps by (simp add: preauth_passes_def VerifyV3AuthProof_iff nc_check_def wf_init_v3_def)
  obtain pf ks where kx: "serverKeyExchange C (cfgToken cfg) base (Inr sk) (Inr snonce) sn path i c = Inr (spk, snonce, pf, ks)"
    "length pf = 32"
    using serverKeyExchange_completes [OF law(1,2) k sh tok c(2)] b by blast
  show ?thesis
    using handle_completes [OF W(3,4) rd pass room, of base "Inr sk" "Inr snonce" spk snonce pf ks] kx k(3,4) c b by simp
qed

section \<open>A concrete handshake\<close>

definition sample_cfg :: server_cfg where
  "sample_cfg = \<lparr>cfgToken = ''tok'', AuthSkew = 300 * second, maxClientSessions = 0, maxStreamsPerClient = 0\<rparr>"

definition sample_now :: gotime where "sample_now = (unixToInternal + 1000) * second"

definition sample_env :: client_env where
  "sample_env = \<lparr>ceSession = Inr (replicate 16 7), ceNonce = Inr (replicate 32 8), ceEndpoint = Inr (''s'', ''/p''),
     ceKey = Inr (replicate 32 5), ceNow = sample_now, ceTai = EncodeTAI64N sample_now, ceBand = fixed_rand,
     ceOffset = fixed_rand, cePad = fixed_rand\<rparr>"

lemma sample_time: "unix_time sample_now" "time_Unix sample_now = 1000"
  by (simp_all add: sample_now_def unix_time_def unixToInternal_def second_def time_Unix_def int64_ident)

lemma sample_window:
  assumes "\<bar>t - sample_now\<bar> \<le> 300 * second"
  shows "fst (CheckAndStore c (replicate 16 7) (EncodeTAI64N sample_now) t (AuthSkew sample_cfg))"
    and "validateChannelInitTime t (word_of_int (time_Unix sample_now)) (AuthSkew sample_cfg)"
proof -
  show "fst (CheckAndStore c (replicate 16 7) (EncodeTAI64N sample_now) t (AuthSkew sample_cfg))"
    using assms
    by (auto simp: CheckAndStore_def decode_encode [OF sample_time(1)] sample_cfg_def second_def Let_def abs_le_iff)
  have "time_of_unix 1000 0 = sample_now"
    by (simp add: sample_now_def time_of_unix_def int64_ident unixToInternal_def)
  then show "validateChannelInitTime t (word_of_int (time_Unix sample_now)) (AuthSkew sample_cfg)"
    unfolding sample_time(2) using assms
    by (auto simp: validateChannelInitTime_def sample_cfg_def second_def)
qed

lemma newServer_unseen: "\<not> fst (seenOrStore (srvNonces newServer) sid cid n t ttl)"
  using seenOrStore_cases [OF newServer_inv(1) refl refl, of sid cid n t ttl]
  by (simp add: live_def newServer_def newNonceReplayCache_def Let_def split: prod.splits)

lemma first_nonce:
  "nc_inv (snd (nc_check (srvNonces newServer) k t ttl)) \<and>
   ncEntries (snd (nc_check (srvNonces newServer) k t ttl)) = [nc_key k \<mapsto> t]"
proof (cases k)
  case (fields sid cid n)
  have "live_map (srvNonces newServer) t ttl = Map.empty" "ncOrder (srvNonces newServer) = []"
    "\<not> live (srvNonces newServer) t ttl x" for x
    by (auto simp: live_map_def live_def newServer_def newNonceReplayCache_def)
  then show ?thesis
    using fields seenOrStore_cases [OF newServer_inv(1) refl refl, of sid cid n t ttl] newServer_inv(2)
      seenOrStore_inv [OF newServer_inv(1), of sid cid n t ttl]
    by (simp add: nc_check_def nc_key_def)
qed

lemma sample_label: "length (EncodeTAI64N sample_now) = 12"
  by (simp add: EncodeTAI64N_def Let_def)

lemma sample_build:
  "\<exists>i. clientBuildInit plain_crypto (cfgToken sample_cfg) [9] [1] sample_env 1 = Inr (i, replicate 32 5, ''s'', ''/p'')"
proof -
  let ?i = "ChannelInit0\<lparr>SessionID := replicate 16 7, ChannelID := 1, ClientNonce := replicate 32 8,
      Timestamp := word_of_int (time_Unix sample_now),
      Capabilities := currentProtocolCapabilitiesV2 OR protocolCapabilityForwardSecrecy,
      CipherPref := [1], ClientEphPK := fit 32 [1], TAI64N := EncodeTAI64N sample_now\<rparr>"
  have sup: "isSupportedCipherV3 1" by (simp add: isSupportedCipherV3_def ProtocolCipherChaCha20Poly1305_def)
  have "transcript_ok_v3 ''s'' ''/p'' ?i [] [] 0 False"
    using sample_label sup by (simp add: transcript_ok_v3_def)
  then have "channelInitTranscriptV3 ''s'' ''/p'' ?i [] [] 0 False = Inr (transcript_layout_v3 ''s'' ''/p'' ?i [] [] 0 False)"
    by (simp only: channelInitTranscriptV3_iff)
  then obtain p where p: "ComputeV3AuthProof plain_crypto (cfgToken sample_cfg) ''s'' ''/p'' ?i = Inr p" "length p = 32"
    by (simp add: ComputeV3AuthProof_def ComputeV3TranscriptHashInit_def ComputeV3TranscriptHash_def hkdf_New_def
        plain_crypto_def)
  have wf: "wf_init_v3 (?i\<lparr>AuthProof := p\<rparr>)" using p sample_label sup by (simp add: wf_init_v3_def)
  obtain body where "encodeChannelInitV3 (?i\<lparr>AuthProof := p\<rparr>) = Inr body"
    using encodeChannelInitV3_ok [OF wf] by (auto simp: ChannelInit0_def)
  with p show ?thesis
    by (auto simp: clientBuildInit_def sample_env_def NewV3ClientEphemeralKey_def plain_crypto_def fixed_rand_def Let_def
        split: prod.splits)
qed

text \<open>The client's frame and the server's answer to it, on a fresh server.\<close>

definition sample_attempt :: "gotime \<Rightarrow> bytes \<Rightarrow> bytes attempt" where
  "sample_attempt t f = \<lparr>atNow = t, atServerName = ''s'', atPath = ''/p'', atKey = Inr (replicate 32 6),
     atNonce = Inr (replicate 32 1), atWriter = [], atStream = Inr (Reader f EOF)\<rparr>"

lemma sample_sent:
  "\<exists>i f. clientBuildInit plain_crypto (cfgToken sample_cfg) [9] [1] sample_env 1 = Inr (i, replicate 32 5, ''s'', ''/p'') \<and>
     writeChannelInitV3 buffer_writer [] i = (None, f) \<and> carries (Inr (Reader f EOF)) i"
proof -
  obtain i where i: "clientBuildInit plain_crypto (cfgToken sample_cfg) [9] [1] sample_env 1 =
      Inr (i, replicate 32 5, ''s'', ''/p'')" using sample_build by blast
  have R: "rand_ok (ceOffset sample_env)" "rand_ok (cePad sample_env)" by (simp_all add: sample_env_def sample_stream)
  have "wf_init_v3 i" "length (Padding i) \<le> 16192" using clientBuildInit_Inr [OF i R] by auto
  then have "delivers (\<lambda>b. b) [] (writeChannelInitV3 buffer_writer [] i) (\<lambda>r. readChannelInitV3 r 0) i"
    using init_v3_delivers [OF buf.reliable_writer_axioms] by simp
  then obtain f where f: "writeChannelInitV3 buffer_writer [] i = (None, f)"
    "\<And>rest e. readChannelInitV3 (Reader (f @ rest) e) 0 = Inr (i, Reader rest e)"
    by (auto simp: delivers_def)
  have "carries (Inr (Reader f EOF)) i" using f(2) [of "[]" EOF] by (simp add: carries_def read_default_size)
  with i f(1) show ?thesis by blast
qed

lemma sample_accepts:
  assumes i: "clientBuildInit plain_crypto (cfgToken sample_cfg) [9] [1] sample_env 1 = Inr (i, replicate 32 5, ''s'', ''/p'')"
    and f: "carries (Inr (Reader f EOF)) i"
    and t: "\<bar>t - sample_now\<bar> \<le> 300 * second"
    and new: "\<not> fst (nc_check (srvNonces srv) (init_id i) t (AuthSkew sample_cfg))"
  shows "\<exists>tag srv' ws'. serve_one plain_crypto sample_cfg [9] buffer_writer srv (sample_attempt t f) =
    (Established 1 tag, srv', ws')"
proof -
  have R: "rand_ok (ceOffset sample_env)" "rand_ok (cePad sample_env)" by (simp_all add: sample_env_def sample_stream)
  note b = clientBuildInit_Inr [OF i R]
  have c: "NegotiateCipherV3 (CipherPref i) = (1, 0, [])" and sup: "isSupportedCipherV3 1"
    using b by (simp_all add: NegotiateCipherV3_def isSupportedCipherV3_def ProtocolCipherChaCha20Poly1305_def)
  have fields: "SessionID i = replicate 16 7" "TAI64N i = EncodeTAI64N sample_now"
    "Timestamp i = word_of_int (time_Unix sample_now)" "length (ClientEphPK i) = 32"
    using b by (auto simp: sample_env_def wf_init_v3_def)
  have pass: "preauth_passes plain_crypto sample_cfg t ''s'' ''/p'' srv i"
    using b c fields new sample_window [OF t] client_caps decode_encode [OF sample_time(1)]
    by (simp add: preauth_passes_def VerifyV3AuthProof_iff init_id_def)
  obtain r' where rd: "readChannelInitV3 (Reader f EOF) (int maxV2FrameSize) = Inr (i, r')" using f by (auto simp: carries_def)
  have x: "x25519 plain_crypto a b = Inr (fit 32 [1])" "\<exists>x\<in>set (fit 32 [1]). x \<noteq> (0 :: byte)" for a b
    by (simp_all add: plain_crypto_def fit_def)
  obtain pf ks where kx: "serverKeyExchange plain_crypto (cfgToken sample_cfg) [9] (Inr (replicate 32 6))
      (Inr (replicate 32 1)) ''s'' ''/p'' i 1 = Inr (fit 32 [1], replicate 32 1, pf, ks)" "length pf = 32"
    using serverKeyExchange_completes [OF plain_crypto_laws(1,2) _ x(1) _ _ x(1) _ x(2) _ sup, of "replicate 32 6"
        "replicate 32 1" "cfgToken sample_cfg" "''s''" "''/p''" i "AuthProof i" "[9]"] b
    by (auto simp: sample_cfg_def)
  have room': "fst (getOrCreateClientSession (maxClientSessions sample_cfg) (srvSessions srv) s)" for s
    by (simp add: getOrCreateClientSession_def sample_cfg_def split: option.split)
  have "\<exists>tag srv' ws'. serve_one plain_crypto sample_cfg [9] buffer_writer srv (sample_attempt t f) =
      (Established (ucast (ChannelID i)) tag, srv', ws')"
    unfolding serve_one_def sample_attempt_def attempt.simps
    using handle_completes [OF buf.reliable_writer_axioms _ rd pass room', where base = "[9]" and
        keyRnd = "Inr (replicate 32 6)" and nonceRnd = "Inr (replicate 32 1)" and spk = "fit 32 [1]" and
        snonce = "replicate 32 1" and pf = pf and ks = ks] kx c by simp
  with b show ?thesis by simp
qed

lemma sample_established:
  assumes "\<bar>t - sample_now\<bar> \<le> 300 * second"
  shows "\<exists>i f tag srv' ws'. clientBuildInit plain_crypto (cfgToken sample_cfg) [9] [1] sample_env 1 =
      Inr (i, replicate 32 5, ''s'', ''/p'') \<and>
    writeChannelInitV3 buffer_writer [] i = (None, f) \<and> carries (Inr (Reader f EOF)) i \<and>
    serve_one plain_crypto sample_cfg [9] buffer_writer newServer (sample_attempt t f) = (Established 1 tag, srv', ws')"
proof -
  obtain i f where i: "clientBuildInit plain_crypto (cfgToken sample_cfg) [9] [1] sample_env 1 =
      Inr (i, replicate 32 5, ''s'', ''/p'')"
    and f: "writeChannelInitV3 buffer_writer [] i = (None, f)" "carries (Inr (Reader f EOF)) i"
    using sample_sent by blast
  have "\<not> fst (nc_check (srvNonces newServer) (init_id i) t (AuthSkew sample_cfg))"
    using newServer_unseen by (simp add: nc_check_def init_id_def)
  from sample_accepts [OF i f(2) assms this] i f show ?thesis by blast
qed

section \<open>Witnesses\<close>

theorem established_authenticated_witness:
  "\<exists>f i r'. readChannelInitV3 (Reader f EOF) (int maxV2FrameSize) = Inr (i, r') \<and>
    ComputeV3AuthProof plain_crypto (cfgToken sample_cfg) ''s'' ''/p'' i = Inr (AuthProof i)"
proof -
  obtain f tag srv' ws' where "serve_one plain_crypto sample_cfg [9] buffer_writer newServer (sample_attempt sample_now f) =
      (Established 1 tag, srv', ws')" using sample_established [of sample_now] by (auto simp: second_def)
  from established_authenticated [OF this [unfolded serve_one_def sample_attempt_def attempt.simps]]
  show ?thesis by blast
qed

theorem unauthenticated_no_effect_witness:
  "\<exists>why srv'. handlePreAuthTransportSession plain_crypto sample_cfg [9] (Inr []) (Inr []) sample_now ''s'' ''/p''
      buffer_writer [] newServer (Inr (Reader [1, 2] EOF)) = (Refused why, srv', []) \<and>
    srvNonces srv' = srvNonces newServer \<and> srvTai srv' = srvTai newServer \<and> srvSessions srv' = srvSessions newServer \<and>
    srvNextTag srv' = srvNextTag newServer \<and> protocolOKSeq srv' = protocolOKSeq newServer"
  by (rule unauthenticated_no_effect)
    (simp add: readChannelInitV3_def readV3Frame_def readFrame_def read_full_def Let_def)

theorem handshake_agreement_witness:
  "\<exists>g (d :: ChanInfo). negotiateClientProtocol plain_crypto (cfgToken sample_cfg) [9] [1] sample_env 1 buffer_writer (Inr [])
      (\<lambda>_. Reader (g @ []) EOF) = Inr (ciCaps d, ciKeys d, ciCipher d)"
proof -
  obtain i f tag srv' ws' where i: "clientBuildInit plain_crypto (cfgToken sample_cfg) [9] [1] sample_env 1 =
      Inr (i, replicate 32 5, ''s'', ''/p'')"
    and f: "writeChannelInitV3 buffer_writer [] i = (None, f)"
    and e: "serve_one plain_crypto sample_cfg [9] buffer_writer newServer (sample_attempt sample_now f) = (Established 1 tag, srv', ws')"
    using sample_established [of sample_now] by (auto simp: second_def)
  have R: "rand_ok (ceOffset sample_env)" "rand_ok (cePad sample_env)" "ceKey sample_env = Inr (replicate 32 5)"
    by (simp_all add: sample_env_def sample_stream)
  have run: "handlePreAuthTransportSession plain_crypto sample_cfg [9] (Inr (replicate 32 6)) (Inr (replicate 32 1)) sample_now
      ''s'' ''/p'' buffer_writer [] newServer (Inr (Reader (f @ []) EOF)) = (Established 1 tag, srv', ws')"
    using e by (simp add: serve_one_def sample_attempt_def)
  from handshake_agreement [OF buf.reliable_writer_axioms _ buf.reliable_writer_axioms _ plain_crypto_laws(4) R _ i f _ run]
  have "\<exists>s d g. map_of (srvSessions srv') (hex_EncodeToString (SessionID i)) = Some s \<and>
    map_of (csChannels s) 1 = Some \<lparr>chId = 1, chTag = tag, chData = d\<rparr> \<and> ws' = [] @ g \<and>
    (\<forall>rest e. negotiateClientProtocol plain_crypto (cfgToken sample_cfg) [9] [1] sample_env 1 buffer_writer (Inr [])
      (\<lambda>_. Reader (g @ rest) e) = Inr (ciCaps d, ciKeys d, ciCipher d))" by simp
  then show ?thesis by blast
qed

theorem handshake_completes_witness:
  "\<exists>i f tag srv' ws'. writeChannelInitV3 buffer_writer [] i = (None, f) \<and>
    handlePreAuthTransportSession plain_crypto sample_cfg [9] (Inr (replicate 32 6)) (Inr (replicate 32 1)) sample_now
      ''s'' ''/p'' buffer_writer [] newServer (Inr (Reader (f @ []) EOF)) = (Established (ucast (1 :: u32)) tag, srv', ws')"
proof -
  obtain i f where i: "clientBuildInit plain_crypto (cfgToken sample_cfg) [9] [1] sample_env 1 =
      Inr (i, replicate 32 5, ''s'', ''/p'')" and f: "writeChannelInitV3 buffer_writer [] i = (None, f)"
    using sample_sent by blast
  have R: "rand_ok (ceOffset sample_env)" "rand_ok (cePad sample_env)" by (simp_all add: sample_env_def sample_stream)
  have x: "x25519 plain_crypto a b = Inr (fit 32 [1])" "\<exists>x\<in>set (fit 32 [1]). x \<noteq> (0 :: byte)" for a b
    by (simp_all add: plain_crypto_def fit_def)
  have fields: "SessionID i = replicate 16 7" "TAI64N i = EncodeTAI64N sample_now"
    "Timestamp i = word_of_int (time_Unix sample_now)"
    using clientBuildInit_Inr [OF i R] by (auto simp: sample_env_def)
  have "\<exists>tag srv' ws'. handlePreAuthTransportSession plain_crypto sample_cfg [9] (Inr (replicate 32 6)) (Inr (replicate 32 1))
      sample_now ''s'' ''/p'' buffer_writer [] newServer (Inr (Reader (f @ []) EOF)) = (Established (ucast (1 :: u32)) tag, srv', ws')"
    by (rule handshake_completes [OF buf.reliable_writer_axioms _ buf.reliable_writer_axioms _ plain_crypto_laws(1,2) R i f _ _
          x(1) _ _ x(1) _ x(2)])
      (use sample_window [of sample_now] newServer_unseen fields in
        \<open>simp_all add: sample_cfg_def second_def getOrCreateClientSession_def newServer_def serverSessionCount_def\<close>)
  with f show ?thesis by blast
qed

theorem handshake_not_replayable_witness:
  "\<exists>f srv1 why srv2 w2. serve_one plain_crypto sample_cfg [9] buffer_writer
     (serve plain_crypto sample_cfg [9] buffer_writer srv1 []) (sample_attempt sample_now f) = (Refused why, srv2, w2)"
proof -
  obtain i f tag srv1 ws1 where c: "carries (Inr (Reader f EOF)) i"
    and e: "serve_one plain_crypto sample_cfg [9] buffer_writer newServer (sample_attempt sample_now f) = (Established 1 tag, srv1, ws1)"
    using sample_established [of sample_now] by (auto simp: second_def)
  have "serve_one plain_crypto sample_cfg [9] buffer_writer (serve plain_crypto sample_cfg [9] buffer_writer newServer [])
      (sample_attempt sample_now f) = (Established 1 tag, srv1, ws1)" using e by simp
  from handshake_not_replayable [OF this, of "[]" "sample_attempt sample_now f" i i] c
  show ?thesis by (fastforce simp: sample_attempt_def sample_cfg_def second_def)
qed

text \<open>
  C38. The nonce cache forgets too early: entries live \<open>AuthSkew\<close>, but an init may be
  stamped up to \<open>AuthSkew\<close> ahead of the server's clock and stays acceptable for twice that long.
  There is a frame that a fresh server establishes at one time and, byte for byte the same frame,
  again 600 seconds later under a skew of 300 seconds.
\<close>

lemma future_init_replayable:
  "\<exists>f tag1 srv1 w1 tag2 srv2 w2.
    serve_one plain_crypto sample_cfg [9] buffer_writer newServer (sample_attempt (sample_now - 300 * second) f) =
      (Established 1 tag1, srv1, w1) \<and>
    serve_one plain_crypto sample_cfg [9] buffer_writer srv1 (sample_attempt (sample_now + 300 * second) f) =
      (Established 1 tag2, srv2, w2)"
proof -
  let ?t = "sample_now - 300 * second" and ?u = "sample_now + 300 * second"
  obtain i f tag1 srv1 w1 where i: "clientBuildInit plain_crypto (cfgToken sample_cfg) [9] [1] sample_env 1 =
      Inr (i, replicate 32 5, ''s'', ''/p'')" and f: "carries (Inr (Reader f EOF)) i"
    and e: "serve_one plain_crypto sample_cfg [9] buffer_writer newServer (sample_attempt ?t f) = (Established 1 tag1, srv1, w1)"
    using sample_established [of ?t] by (auto simp: second_def)
  obtain i' where i': "carries (atStream (sample_attempt ?t f)) i'"
    "srvNonces srv1 = snd (nc_check (srvNonces newServer) (init_id i') ?t (AuthSkew sample_cfg))"
    using handle_Established_init [OF e] by (auto simp: sample_attempt_def)
  then have eq: "i' = i" using carries_unique [OF _ f] by (simp add: sample_attempt_def)
  have n1: "nc_inv (srvNonces srv1)" "ncEntries (srvNonces srv1) = [nc_key (init_id i) \<mapsto> ?t]"
    using first_nonce [of "init_id i" ?t "AuthSkew sample_cfg"] i'(2) eq by simp_all
  have "\<not> live (srvNonces srv1) ?u (AuthSkew sample_cfg) (nc_key (init_id i))"
    by (simp add: live_def n1(2) sample_cfg_def second_def)
  then have "\<not> fst (nc_check (srvNonces srv1) (init_id i) ?u (AuthSkew sample_cfg))"
    using seenOrStore_cases [OF n1(1) refl refl] by (simp add: nc_check_def init_id_def nc_key_def Let_def split: prod.splits)
  then have "\<exists>tag2 srv2 w2. serve_one plain_crypto sample_cfg [9] buffer_writer srv1 (sample_attempt ?u f) =
      (Established 1 tag2, srv2, w2)"
    using sample_accepts [OF i f, of ?u srv1] by (simp add: second_def)
  with e show ?thesis by blast
qed

end
