(* ===== verification/Datagram.thy ===== *)
theory Datagram
  imports Go_Net "HOL-Library.AList" "HOL-Library.Multiset"
begin

text \<open>
  UDP datagrams over QUIC (\<open>internal/transport/datagram.go\<close>): the wire format, fragmentation
  and the reassembler. The reassembler's maps are association lists with distinct keys; its two
  clock readings per call are arguments of \<open>Add\<close>.
\<close>

section \<open>Addresses as text\<close>

text \<open>\<open>net.IP.String\<close>: dotted decimal for IPv4 (and mapped IPv4), RFC 5952 text for IPv6.\<close>

definition ipv4_String :: "bytes \<Rightarrow> string" where
  "ipv4_String b = Join (CHR ''.'') (map (\<lambda>x. dec_digits (unat x)) b)"

definition hex_digit_lower :: "nat \<Rightarrow> char" where
  "hex_digit_lower d = (if d < 10 then char_of (48 + d) else char_of (87 + d))"

fun hex_digits :: "nat \<Rightarrow> string" where
  "hex_digits n = (if n < 16 then [hex_digit_lower n] else hex_digits (n div 16) @ [hex_digit_lower (n mod 16)])"

declare hex_digits.simps [simp del]

fun ip_groups :: "bytes \<Rightarrow> nat list" where
  "ip_groups (a # b # r) = (unat a * 256 + unat b) # ip_groups r"
| "ip_groups _ = []"

text \<open>The first longest run of at least two zero groups: its start and end.\<close>

fun zero_run :: "nat list \<Rightarrow> nat \<Rightarrow> nat \<times> nat \<Rightarrow> nat \<times> nat" where
  "zero_run [] i best = best"
| "zero_run (g # gs) i best =
    (let l = length (takeWhile (\<lambda>x. x = 0) (g # gs)) in
     zero_run gs (i + 1) (if l \<ge> 2 \<and> l > snd best - fst best then (i, i + l) else best))"

definition ipv6_String :: "bytes \<Rightarrow> string" where
  "ipv6_String b =
    (let gs = ip_groups b; (z0, z1) = zero_run gs 0 (0, 0) in
     if z0 < z1
     then Join (CHR '':'') (map hex_digits (take z0 gs)) @ ''::'' @ Join (CHR '':'') (map hex_digits (drop z1 gs))
     else Join (CHR '':'') (map hex_digits gs))"

definition IP_String :: "bytes \<Rightarrow> string" where
  "IP_String b = (case To4 b of Some p \<Rightarrow> ipv4_String p | None \<Rightarrow> ipv6_String b)"

section \<open>Frames\<close>

definition AddrTypeIPv4 :: byte where "AddrTypeIPv4 = 0x01"
definition AddrTypeDomain :: byte where "AddrTypeDomain = 0x03"
definition AddrTypeIPv6 :: byte where "AddrTypeIPv6 = 0x04"

lemmas addr_types = AddrTypeIPv4_def AddrTypeDomain_def AddrTypeIPv6_def

record DatagramFrame =
  AssocID :: u16
  PktID :: u16
  FragTotal :: byte
  FragID :: byte
  PayloadLen :: u16
  AddrType :: byte
  TargetAddr :: string
  TargetPort :: u16
  Payload :: bytes

definition encodeAddr :: "DatagramFrame \<Rightarrow> bytes result" where
  "encodeAddr frame =
    (if AddrType frame = AddrTypeIPv4 then
       (case Option.bind (ParseIP (TargetAddr frame)) To4 of
          None \<Rightarrow> Inl ErrInvalidDatagram | Some ip \<Rightarrow> Inr ip)
     else if AddrType frame = AddrTypeDomain then
       (if length (TargetAddr frame) > 255 then Inl ErrInvalidDatagram
        else Inr (word_of_nat (length (TargetAddr frame)) # bytes_of (TargetAddr frame)))
     else if AddrType frame = AddrTypeIPv6 then
       (case ParseIP (TargetAddr frame) of None \<Rightarrow> Inl ErrInvalidDatagram | Some ip \<Rightarrow> Inr ip)
     else Inl ErrUnsupportedAddrType)"

definition EncodeDatagram :: "DatagramFrame \<Rightarrow> bytes result" where
  "EncodeDatagram frame0 =
    (let frame = (if unat (PayloadLen frame0) \<noteq> length (Payload frame0)
                  then frame0\<lparr>PayloadLen := word_of_nat (length (Payload frame0))\<rparr> else frame0)
     in rbind (encodeAddr frame) (\<lambda>addrBytes.
       let totalLen = 8 + 1 + length addrBytes + 2 + length (Payload frame);
           buf = replicate totalLen 0;
           buf = buf_copy 0 2 (put16 (AssocID frame)) buf;
           buf = buf_copy 2 4 (put16 (PktID frame)) buf;
           buf = buf[4 := FragTotal frame];
           buf = buf[5 := FragID frame];
           buf = buf_copy 6 8 (put16 (PayloadLen frame)) buf;
           buf = buf[8 := AddrType frame];
           offset = 9;
           buf = buf_copy offset totalLen addrBytes buf;
           offset = offset + length addrBytes;
           buf = buf_copy offset (offset + 2) (put16 (TargetPort frame)) buf;
           offset = offset + 2;
           buf = buf_copy offset totalLen (Payload frame) buf
       in Inr buf))"

text \<open>The address switch of \<open>DecodeDatagram\<close>: the text and the offset behind it.\<close>

definition decodeAddr :: "bytes \<Rightarrow> byte \<Rightarrow> (string \<times> nat) result" where
  "decodeAddr b addrType =
    (let offset = 9 in
     if addrType = AddrTypeIPv4 then
       (if length b < offset + 4 + 2 then Inl ErrInvalidDatagram
        else Inr (IP_String (slice offset (offset + 4) b), offset + 4))
     else if addrType = AddrTypeDomain then
       (if length b < offset + 1 then Inl ErrInvalidDatagram
        else
          (let domainLen = unat (b ! offset); offset = offset + 1 in
           if length b < offset + domainLen + 2 then Inl ErrInvalidDatagram
           else Inr (str_of (slice offset (offset + domainLen) b), offset + domainLen)))
     else if addrType = AddrTypeIPv6 then
       (if length b < offset + 16 + 2 then Inl ErrInvalidDatagram
        else Inr (IP_String (slice offset (offset + 16) b), offset + 16))
     else Inl ErrUnsupportedAddrType)"

definition DecodeDatagram :: "bytes \<Rightarrow> DatagramFrame result" where
  "DecodeDatagram b =
    (if length b < 11 then Inl ErrInvalidDatagram
     else
       rbind (decodeAddr b (b ! 8)) (\<lambda>(addr, offset).
         let port = get16 (slice offset (offset + 2) b); offset = offset + 2;
             payloadLen = get16 (slice 6 8 b)
         in if length b < offset + unat payloadLen then Inl ErrInvalidDatagram
            else Inr \<lparr>AssocID = get16 (slice 0 2 b), PktID = get16 (slice 2 4 b),
                      FragTotal = (if b ! 4 = 0 then 1 else b ! 4), FragID = b ! 5,
                      PayloadLen = payloadLen, AddrType = b ! 8, TargetAddr = addr, TargetPort = port,
                      Payload = slice offset (offset + unat payloadLen) b\<rparr>))"

section \<open>Fragmentation\<close>

definition FragmentDatagram :: "DatagramFrame \<Rightarrow> int \<Rightarrow> DatagramFrame list" where
  "FragmentDatagram frame maxPayloadSize =
    (if maxPayloadSize \<le> 0 \<or> int (length (Payload frame)) \<le> maxPayloadSize
     then [frame\<lparr>FragTotal := 1, FragID := 0, PayloadLen := word_of_nat (length (Payload frame))\<rparr>]
     else
       (let m = nat maxPayloadSize;
            totalFrags = (length (Payload frame) + m - 1) div m;
            totalFrags = (if totalFrags > 255 then 255 else totalFrags)
        in map (\<lambda>i.
             let start = i * m; end = start + m;
                 end = (if end > length (Payload frame) then length (Payload frame) else end);
                 p = slice start end (Payload frame)
             in frame\<lparr>FragTotal := word_of_nat totalFrags, FragID := word_of_nat i, Payload := p,
                      PayloadLen := word_of_nat (length p)\<rparr>) [0..<totalFrags]))"

section \<open>Reassembly\<close>

record fragmentEntry =
  feFragments :: "(byte \<times> bytes) list"
  feTotal :: byte
  feFrame :: DatagramFrame
  feCreatedAt :: gotime

record DatagramReassembler =
  raEntries :: "(u32 \<times> fragmentEntry) list"
  raTtl :: duration
  raMaxQueued :: int

definition NewDatagramReassembler :: "duration \<Rightarrow> int \<Rightarrow> DatagramReassembler" where
  "NewDatagramReassembler ttl maxQueued =
    \<lparr>raEntries = [], raTtl = (if ttl \<le> 0 then 5 * second else ttl),
     raMaxQueued = (if maxQueued \<le> 0 then 1024 else maxQueued)\<rparr>"

definition cleanupExpiredLocked :: "gotime \<Rightarrow> DatagramReassembler \<Rightarrow> DatagramReassembler" where
  "cleanupExpiredLocked now r =
    r\<lparr>raEntries := filter (\<lambda>(k, v). \<not> now - feCreatedAt v > raTtl r) (raEntries r)\<rparr>"

definition fragKey :: "DatagramFrame \<Rightarrow> u32" where
  "fragKey f = push_bit 16 (ucast (AssocID f)) OR ucast (PktID f)"

text \<open>A missing fragment reads as the empty slice, as a Go map does.\<close>

definition stitch :: "fragmentEntry \<Rightarrow> bytes" where
  "stitch entry =
    concat (map (\<lambda>i. case map_of (feFragments entry) (word_of_nat i) of Some p \<Rightarrow> p | None \<Rightarrow> [])
      [0..<unat (feTotal entry)])"

definition Add ::
  "gotime \<Rightarrow> gotime \<Rightarrow> DatagramReassembler \<Rightarrow> DatagramFrame \<Rightarrow>
   (DatagramFrame option) result \<times> DatagramReassembler" where
  "Add now1 now2 r f =
    (if FragTotal f \<le> 1 then (Inr (Some f), r)
     else
       (let r = cleanupExpiredLocked now1 r; key = fragKey f in
        case (case map_of (raEntries r) key of
                Some entry \<Rightarrow> Inr entry
              | None \<Rightarrow>
                  if int (length (raEntries r)) \<ge> raMaxQueued r then Inl ErrReassemblerQueueFull
                  else Inr \<lparr>feFragments = [], feTotal = FragTotal f, feFrame = f, feCreatedAt = now2\<rparr>) of
          Inl e \<Rightarrow> (Inl e, r)
        | Inr entry \<Rightarrow>
            (let entry = entry\<lparr>feFragments := AList.update (FragID f) (Payload f) (feFragments entry)\<rparr> in
             if length (feFragments entry) = unat (feTotal entry)
             then
               (let combined = stitch entry in
                (Inr (Some ((feFrame entry)\<lparr>FragTotal := 1, FragID := 0, Payload := combined,
                              PayloadLen := word_of_nat (length combined)\<rparr>)),
                 r\<lparr>raEntries := AList.delete key (raEntries r)\<rparr>))
             else (Inr None, r\<lparr>raEntries := AList.update key entry (raEntries r)\<rparr>))))"

section \<open>Lemmas on the wire format\<close>

definition datagram_layout :: "DatagramFrame \<Rightarrow> bytes \<Rightarrow> bytes" where
  "datagram_layout f addr =
    put16 (AssocID f) @ put16 (PktID f) @ [FragTotal f, FragID f] @ put16 (word_of_nat (length (Payload f))) @
    [AddrType f] @ addr @ put16 (TargetPort f) @ Payload f"

lemma encodeAddr_PayloadLen [simp]: "encodeAddr (f\<lparr>PayloadLen := x\<rparr>) = encodeAddr f"
  by (simp add: encodeAddr_def)

lemma PayloadLen_fixed:
  "(if unat (PayloadLen f) \<noteq> length (Payload f) then f\<lparr>PayloadLen := word_of_nat (length (Payload f))\<rparr> else f) =
   f\<lparr>PayloadLen := word_of_nat (length (Payload f))\<rparr>"
proof (cases "unat (PayloadLen f) = length (Payload f)")
  case True
  then have "word_of_nat (length (Payload f)) = PayloadLen f" by (simp flip: True)
  with True show ?thesis by simp
qed simp

lemma EncodeDatagram_layout:
  "EncodeDatagram f = rbind (encodeAddr f) (\<lambda>addr. Inr (datagram_layout f addr))"
proof -
  let ?g = "f\<lparr>PayloadLen := word_of_nat (length (Payload f))\<rparr>"
  let ?N = "\<lambda>addr. 8 + 1 + length addr + 2 + length (Payload f)"
  let ?b = "\<lambda>addr. buf_copy (9 + length addr + 2) (?N addr) (Payload f)
      (buf_copy (9 + length addr) (9 + length addr + 2) (put16 (TargetPort f))
      (buf_copy 9 (?N addr) addr
      ((buf_copy 6 8 (put16 (PayloadLen ?g))
      (((buf_copy 2 4 (put16 (PktID f)) (buf_copy 0 2 (put16 (AssocID f)) (replicate (?N addr) 0)))
        [4 := FragTotal f])[5 := FragID f]))[8 := AddrType f])))"
  have "filled ((((((((([] @ put16 (AssocID f)) @ put16 (PktID f)) @ [FragTotal f]) @ [FragID f]) @
      put16 (PayloadLen ?g)) @ [AddrType f]) @ addr) @ put16 (TargetPort f)) @ Payload f) (?N addr) (?b addr)" for addr
    by (intro filled_copy_open filled_upd filled_init) (simp_all add: length_put)
  then have "?b addr = datagram_layout f addr" for addr
    by (rule filled_all [THEN trans]) (simp_all add: datagram_layout_def)
  then show ?thesis
    unfolding EncodeDatagram_def PayloadLen_fixed by (simp add: Let_def)
qed

text \<open>The address text a peer sees: the canonical text of the parsed address, or the domain itself.\<close>

definition canonicalAddr :: "DatagramFrame \<Rightarrow> string" where
  "canonicalAddr f =
    (if AddrType f = AddrTypeDomain then TargetAddr f
     else (case encodeAddr f of Inr ip \<Rightarrow> IP_String ip | Inl _ \<Rightarrow> []))"

lemma encodeAddr_length:
  assumes "encodeAddr f = Inr a"
  shows "(AddrType f = AddrTypeIPv4 \<and> length a = 4) \<or>
    (AddrType f = AddrTypeDomain \<and> length (TargetAddr f) \<le> 255 \<and>
      a = word_of_nat (length (TargetAddr f)) # bytes_of (TargetAddr f)) \<or>
    (AddrType f = AddrTypeIPv6 \<and> length a = 16)"
  using assms ParseIP_length To4_length
  by (auto simp: encodeAddr_def bind_eq_Some_conv split: if_splits option.splits)

lemma decodeAddr_layout:
  assumes e: "encodeAddr f = Inr a"
  shows "decodeAddr (datagram_layout f a @ rest) (AddrType f) = Inr (canonicalAddr f, 9 + length a)"
proof -
  have d: "drop 9 (datagram_layout f a @ rest) = a @ put16 (TargetPort f) @ Payload f @ rest"
    by (simp add: datagram_layout_def)
  have n: "(datagram_layout f a @ rest) ! 9 = hd (a @ put16 (TargetPort f) @ Payload f @ rest)" if "a \<noteq> []"
    using d that by (metis append_is_Nil_conv hd_drop_conv_nth drop_eq_Nil not_le_imp_less)
  have s: "slice 9 (9 + length a) (datagram_layout f a @ rest) = a" unfolding slice_def d by simp
  have l: "9 + length a + 2 \<le> length (datagram_layout f a @ rest)" by (simp add: datagram_layout_def)
  from encodeAddr_length [OF e] show ?thesis
  proof (elim disjE conjE)
    assume "AddrType f = AddrTypeIPv4" "length a = 4"
    with s l e show ?thesis by (simp add: decodeAddr_def canonicalAddr_def Let_def addr_types)
  next
    assume t: "AddrType f = AddrTypeDomain" and len: "length (TargetAddr f) \<le> 255"
      and a: "a = word_of_nat (length (TargetAddr f)) # bytes_of (TargetAddr f)"
    have h: "unat ((datagram_layout f a @ rest) ! 9) = length (TargetAddr f)"
      using n a len by simp
    have "slice 10 (10 + length (TargetAddr f)) (datagram_layout f a @ rest) = bytes_of (TargetAddr f)"
      using arg_cong [OF d, of "drop 1"] unfolding slice_def drop_drop by (simp add: a)
    with t h l a show ?thesis by (simp add: decodeAddr_def canonicalAddr_def Let_def addr_types)
  next
    assume "AddrType f = AddrTypeIPv6" "length a = 16"
    with s l e show ?thesis by (simp add: decodeAddr_def canonicalAddr_def Let_def addr_types)
  qed
qed

lemma DecodeDatagram_layout:
  assumes e: "encodeAddr f = Inr a" and p: "length (Payload f) \<le> 65535"
  shows "DecodeDatagram (datagram_layout f a @ rest) =
    Inr (f\<lparr>FragTotal := (if FragTotal f = 0 then 1 else FragTotal f),
           PayloadLen := word_of_nat (length (Payload f)), TargetAddr := canonicalAddr f\<rparr>)"
proof -
  let ?b = "datagram_layout f a @ rest"
  have "drop (9 + length a) ?b = drop (length a) (drop 9 ?b)" by (simp only: drop_drop add.commute)
  also have "drop 9 ?b = a @ put16 (TargetPort f) @ Payload f @ rest" by (simp add: datagram_layout_def)
  finally have d: "drop (9 + length a) ?b = put16 (TargetPort f) @ Payload f @ rest" by simp
  have port: "slice (9 + length a) (9 + length a + 2) ?b = put16 (TargetPort f)" unfolding slice_def d by simp
  have pl: "unat (word_of_nat (length (Payload f)) :: u16) = length (Payload f)" using p by (rule unat_u16)
  have pay: "slice (9 + length a + 2) (9 + length a + 2 + length (Payload f)) ?b = Payload f"
    using arg_cong [OF d, of "drop 2"] unfolding slice_def drop_drop by (simp only: add.commute) simp
  have heads: "slice 0 2 ?b = put16 (AssocID f)" "slice 2 4 ?b = put16 (PktID f)" "?b ! 4 = FragTotal f" "?b ! 5 = FragID f"
      "slice 6 8 ?b = put16 (word_of_nat (length (Payload f)))" "?b ! 8 = AddrType f"
    by (simp_all add: datagram_layout_def slice_def nth_append)
  have l: "11 \<le> length ?b" "9 + length a + 2 + length (Payload f) \<le> length ?b"
    by (simp_all add: datagram_layout_def)
  have off: "9 + length a + 2 = 11 + length a" by simp
  show ?thesis
    using l unfolding DecodeDatagram_def heads decodeAddr_layout [OF e]
    by (simp add: Let_def port [unfolded off] pay [unfolded off] pl)
qed

section \<open>IPv4 text\<close>

lemma ipv4_fields_digits:
  assumes "n < 256"
  shows "\<exists>d k. isDigit d \<and> ipv4_fields prev (dec_digits n @ cs) 0 0 fs = ipv4_fields (Some d) cs n (Suc k) fs"
proof -
  consider "n < 10" | "10 \<le> n" "n < 100" | "100 \<le> n" by linarith
  then show ?thesis
  proof cases
    case 1
    then have "dec_digits n = [digit_char n]" by (simp add: dec_digits.simps)
    with 1 show ?thesis by (intro exI [of _ "digit_char n"] exI [of _ 0]) (simp add: Let_def)
  next
    case 2
    then have "dec_digits n = [digit_char (n div 10), digit_char (n mod 10)]"
      by (subst dec_digits.simps) (simp add: dec_digits.simps)
    with 2 show ?thesis
      by (intro exI [of _ "digit_char (n mod 10)"] exI [of _ 1]) (auto simp: Let_def)
  next
    case 3
    have "n div 10 div 10 < 10" "\<not> n div 10 < 10" using 3 assms by auto
    then have "dec_digits n = [digit_char (n div 10 div 10), digit_char (n div 10 mod 10), digit_char (n mod 10)]"
      using 3 assms by (subst dec_digits.simps, simp, subst dec_digits.simps, simp add: dec_digits.simps)
    moreover have "n div 10 div 10 * 10 + n div 10 mod 10 = n div 10" "n div 10 * 10 + n mod 10 = n" by simp_all
    ultimately show ?thesis
      using 3 assms
      by (intro exI [of _ "digit_char (n mod 10)"] exI [of _ 2]) (auto simp: Let_def numeral_3_eq_3)
  qed
qed

lemma ipv4_fields_field:
  assumes "n < 256" "length fs < 3" "rest \<noteq> []"
  shows "ipv4_fields prev (dec_digits n @ CHR ''.'' # rest) 0 0 fs = ipv4_fields (Some (CHR ''.'')) rest 0 0 (fs @ [word_of_nat n])"
proof -
  obtain d k where "isDigit d" "ipv4_fields prev (dec_digits n @ CHR ''.'' # rest) 0 0 fs =
      ipv4_fields (Some d) (CHR ''.'' # rest) n (Suc k) fs"
    using ipv4_fields_digits [OF assms(1)] by blast
  with assms(2,3) show ?thesis by (auto simp: isDigit_def)
qed

lemma ipv4_fields_last:
  assumes "n < 256" "length fs = 3"
  shows "ipv4_fields prev (dec_digits n) 0 0 fs = Some (fs @ [word_of_nat n])"
  using ipv4_fields_digits [OF assms(1), of prev "[]" fs] assms(2) by auto

lemma dec_digits_plain: "set (dec_digits n) \<inter> {CHR ''.'', CHR '':'', CHR ''%''} = {}"
  using dec_digits_props(1) [of n] by (auto simp: list_all_iff isDigit_def)

lemma ParseAddr_at_skip:
  "set p \<inter> {CHR ''.'', CHR '':'', CHR ''%''} = {} \<Longrightarrow> ParseAddr_at t (p @ cs) = ParseAddr_at t cs"
  by (induction p) auto

lemma ParseIP_ipv4_String:
  assumes "length b = 4"
  shows "ParseIP (ipv4_String b) = Some (v4_mapped b)"
proof -
  obtain w x y z where b: "b = [w, x, y, z]"
    using assms by (auto simp: numeral_eq_Suc length_Suc_conv)
  let ?d = "\<lambda>v :: byte. dec_digits (unat v)"
  have s: "ipv4_String b = ?d w @ CHR ''.'' # ?d x @ CHR ''.'' # ?d y @ CHR ''.'' # ?d z"
    by (simp add: ipv4_String_def b)
  have "parseIPv4 (ipv4_String b) = Some [w, x, y, z]"
    unfolding parseIPv4_def s by (simp add: ipv4_fields_field ipv4_fields_last dec_digits_props)
  then show ?thesis
    using ParseAddr_at_skip [OF dec_digits_plain, of "ipv4_String b" "unat w" "CHR ''.'' # ?d x @ CHR ''.'' # ?d y @ CHR ''.'' # ?d z"]
    by (simp add: ParseIP_def ParseAddr_def s [unfolded b] b)
qed

section \<open>Lemmas on fragmentation\<close>

definition chunk :: "nat \<Rightarrow> bytes \<Rightarrow> nat \<Rightarrow> bytes" where
  "chunk m p i = take m (drop (i * m) p)"

lemma chunks_concat: "concat (map (chunk m p) [0..<n]) = take (n * m) p"
  by (induction n) (simp_all add: chunk_def add.commute flip: take_add)

definition fragment :: "DatagramFrame \<Rightarrow> nat \<Rightarrow> nat \<Rightarrow> nat \<Rightarrow> DatagramFrame" where
  "fragment f m n i = f\<lparr>FragTotal := word_of_nat n, FragID := word_of_nat i, Payload := chunk m (Payload f) i,
     PayloadLen := word_of_nat (length (chunk m (Payload f) i))\<rparr>"

lemma FragmentDatagram_split:
  assumes "0 < m" "m < length (Payload f)"
  shows "FragmentDatagram f (int m) =
    (let n = min 255 ((length (Payload f) + m - 1) div m) in map (fragment f m n) [0..<n])"
proof -
  let ?t = "(length (Payload f) + m - 1) div m"
  have sl: "slice (i * m) (if i * m + m > length (Payload f) then length (Payload f) else i * m + m) (Payload f) =
      chunk m (Payload f) i" for i
    by (simp add: slice_def chunk_def)
  have big: "\<not> (int m \<le> 0 \<or> int (length (Payload f)) \<le> int m)" and t: "(if 255 < ?t then 255 else ?t) = min 255 ?t"
    using assms by simp_all
  show ?thesis
    unfolding FragmentDatagram_def Let_def nat_int if_not_P [OF big] t sl fragment_def ..
qed

lemma frag_count_covers: "0 < (m :: nat) \<Longrightarrow> l \<le> ((l + m - 1) div m) * m"
proof -
  assume "0 < m"
  then have "(l + m - 1) mod m < m" by simp
  moreover have "(l + m - 1) div m * m + (l + m - 1) mod m = l + m - 1" by (rule div_mult_mod_eq)
  ultimately show "l \<le> ((l + m - 1) div m) * m" using \<open>0 < m\<close> by linarith
qed

lemma fragment_key [simp]: "fragKey (fragment f m n i) = fragKey f"
  by (simp add: fragKey_def fragment_def)

section \<open>The reassembler's invariant\<close>

definition entry_inv :: "fragmentEntry \<Rightarrow> bool" where
  "entry_inv e \<longleftrightarrow> distinct (map fst (feFragments e)) \<and> feFragments e \<noteq> [] \<and>
    length (feFragments e) \<noteq> unat (feTotal e) \<and> 1 < feTotal e"

definition ra_inv :: "DatagramReassembler \<Rightarrow> bool" where
  "ra_inv r \<longleftrightarrow> distinct (map fst (raEntries r)) \<and> int (length (raEntries r)) \<le> raMaxQueued r \<and>
    list_all (\<lambda>(k, e). entry_inv e) (raEntries r)"

lemma map_of_filter_distinct:
  "distinct (map fst al) \<Longrightarrow>
   map_of (filter P al) k = (case map_of al k of Some v \<Rightarrow> if P (k, v) then Some v else None | None \<Rightarrow> None)"
proof (induction al)
  case (Cons x al)
  have "k \<notin> fst ` set al \<Longrightarrow> map_of (filter P al) k = None" by (auto simp: map_of_eq_None_iff)
  with Cons show ?case by (cases x) (auto split: option.split)
qed simp

lemma length_alist_update:
  "length (AList.update k v al) = (if k \<in> fst ` set al then length al else Suc (length al))"
  using arg_cong [OF update_keys [of k v al], of length] by auto

lemma cleanup_inv: "ra_inv r \<Longrightarrow> ra_inv (cleanupExpiredLocked now r)"
  by (auto simp: ra_inv_def cleanupExpiredLocked_def list_all_iff distinct_map_filter
      intro: order_trans [OF iffD2 [OF of_nat_le_iff, OF length_filter_le]])

lemma list_all_update:
  "list_all (\<lambda>(k, e). P e) al \<Longrightarrow> P v \<Longrightarrow> list_all (\<lambda>(k, e). P e) (AList.update k v al)"
  by (induction al) auto

lemma list_all_delete: "list_all Q al \<Longrightarrow> list_all Q (AList.delete k al)"
  by (auto simp: list_all_iff AList.delete_eq)

text \<open>The entry an \<open>Add\<close> works on, and its state after the fragment is stored.\<close>

definition add_entry :: "gotime \<Rightarrow> DatagramReassembler \<Rightarrow> DatagramFrame \<Rightarrow> fragmentEntry" where
  "add_entry now2 r f =
    (let e = (case map_of (raEntries r) (fragKey f) of
                Some e \<Rightarrow> e
              | None \<Rightarrow> \<lparr>feFragments = [], feTotal = FragTotal f, feFrame = f, feCreatedAt = now2\<rparr>)
     in e\<lparr>feFragments := AList.update (FragID f) (Payload f) (feFragments e)\<rparr>)"

lemma Add_cases:
  assumes "\<not> FragTotal f \<le> 1" and c: "c = cleanupExpiredLocked now1 r" and e: "e = add_entry now2 c f"
  shows "Add now1 now2 r f =
    (if map_of (raEntries c) (fragKey f) = None \<and> int (length (raEntries c)) \<ge> raMaxQueued c
     then (Inl ErrReassemblerQueueFull, c)
     else if length (feFragments e) = unat (feTotal e)
     then (Inr (Some ((feFrame e)\<lparr>FragTotal := 1, FragID := 0, Payload := stitch e,
                        PayloadLen := word_of_nat (length (stitch e))\<rparr>)),
           c\<lparr>raEntries := AList.delete (fragKey f) (raEntries c)\<rparr>)
     else (Inr None, c\<lparr>raEntries := AList.update (fragKey f) e (raEntries c)\<rparr>))"
  using assms(1) unfolding Add_def e add_entry_def c [symmetric]
  by (cases "map_of (raEntries c) (fragKey f)") (simp_all add: Let_def)

lemma add_entry_inv:
  assumes "ra_inv c" "\<not> FragTotal f \<le> 1"
  shows "distinct (map fst (feFragments (add_entry now2 c f)))" "feFragments (add_entry now2 c f) \<noteq> []"
    "1 < feTotal (add_entry now2 c f)"
proof -
  have "entry_inv e" if "map_of (raEntries c) (fragKey f) = Some e" for e
    using map_of_SomeD [OF that] assms(1) by (auto simp: ra_inv_def list_all_iff)
  then show "distinct (map fst (feFragments (add_entry now2 c f)))" "1 < feTotal (add_entry now2 c f)"
    using assms(2) by (auto simp: add_entry_def entry_inv_def Let_def not_le distinct_update split: option.split)
  show "feFragments (add_entry now2 c f) \<noteq> []"
    by (simp add: add_entry_def Let_def update_nonempty)
qed

lemma Add_inv:
  assumes "ra_inv r"
  shows "ra_inv (snd (Add now1 now2 r f)) \<and> raMaxQueued (snd (Add now1 now2 r f)) = raMaxQueued r \<and>
    raTtl (snd (Add now1 now2 r f)) = raTtl r"
proof (cases "FragTotal f \<le> 1")
  case True
  with assms show ?thesis by (simp add: Add_def)
next
  case False
  define c where "c = cleanupExpiredLocked now1 r"
  define e where "e = add_entry now2 c f"
  have c: "ra_inv c" "raMaxQueued c = raMaxQueued r" "raTtl c = raTtl r"
    using cleanup_inv [OF assms] by (simp_all add: c_def cleanupExpiredLocked_def)
  note ei = add_entry_inv [OF c(1) False, of now2, folded e_def]
  have del: "ra_inv (c\<lparr>raEntries := AList.delete (fragKey f) (raEntries c)\<rparr>)"
    using c(1) length_delete_le [of "fragKey f" "raEntries c"]
    by (auto simp: ra_inv_def distinct_delete list_all_delete)
  have upd: "ra_inv (c\<lparr>raEntries := AList.update (fragKey f) e (raEntries c)\<rparr>)"
    if "length (feFragments e) \<noteq> unat (feTotal e)"
      "\<not> (map_of (raEntries c) (fragKey f) = None \<and> int (length (raEntries c)) \<ge> raMaxQueued c)"
    using that c(1) ei
    by (auto simp: ra_inv_def distinct_update length_alist_update map_of_eq_None_iff entry_inv_def intro!: list_all_update)
  show ?thesis
    unfolding Add_cases [OF False c_def e_def] using c del upd by auto
qed

lemma cleanup_lookup:
  assumes "ra_inv r" "map_of (raEntries r) k = Some e" "now - feCreatedAt e \<le> raTtl r"
  shows "map_of (raEntries (cleanupExpiredLocked now r)) k = Some e"
  using assms by (simp add: cleanupExpiredLocked_def map_of_filter_distinct ra_inv_def)

text \<open>Frames of other datagrams leave the entry of a key alone while it is not expired.\<close>

lemma Add_other:
  assumes inv: "ra_inv r" and e: "map_of (raEntries r) k = Some e" "now1 - feCreatedAt e \<le> raTtl r"
    and other: "FragTotal f \<le> 1 \<or> fragKey f \<noteq> k"
  shows "map_of (raEntries (snd (Add now1 now2 r f))) k = Some e"
proof (cases "FragTotal f \<le> 1")
  case True
  with e show ?thesis by (simp add: Add_def)
next
  case False
  have c: "map_of (raEntries (cleanupExpiredLocked now1 r)) k = Some e" by (rule cleanup_lookup [OF inv e])
  have ne: "k \<noteq> fragKey f" using other False by auto
  show ?thesis
    unfolding Add_cases [OF False refl refl]
    using c ne by (auto simp: update_conv delete_conv')
qed

text \<open>
  \<open>collecting\<close>: the reassembler holds, for the datagram \<open>f\<close> cut into \<open>n\<close> pieces of size \<open>m\<close>, the
  pieces with the indices in \<open>D\<close>, first seen at time \<open>t0\<close>.
\<close>

definition collecting :: "DatagramFrame \<Rightarrow> nat \<Rightarrow> nat \<Rightarrow> gotime \<Rightarrow> nat set \<Rightarrow> DatagramReassembler \<Rightarrow> bool" where
  "collecting f m n t0 D r \<longleftrightarrow> ra_inv r \<and> D \<subseteq> {..<n} \<and>
    (\<exists>e j. map_of (raEntries r) (fragKey f) = Some e \<and> feTotal e = word_of_nat n \<and> feCreatedAt e = t0 \<and>
      feFrame e = fragment f m n j \<and> distinct (map fst (feFragments e)) \<and>
      map_of (feFragments e) = (\<lambda>k. if unat k \<in> D then Some (chunk m (Payload f) (unat k)) else None))"

lemma card_frag_keys:
  assumes "distinct (map fst al)" "D \<subseteq> {..<n}" "n \<le> 255"
    "map_of al = (\<lambda>k :: byte. if unat k \<in> D then Some (g (unat k)) else None)"
  shows "length al = card D"
proof -
  have "length al = card (dom (map_of al))"
    using assms(1) by (metis distinct_card dom_map_of_conv_image_fst length_map set_map)
  also have "dom (map_of al) = word_of_nat ` D"
  proof
    show "dom (map_of al) \<subseteq> word_of_nat ` D"
    proof
      fix k assume "k \<in> dom (map_of al)"
      then have "unat k \<in> D" unfolding assms(4) by (auto split: if_splits)
      then show "k \<in> word_of_nat ` D" by (intro image_eqI [of _ _ "unat k"]) simp_all
    qed
    show "word_of_nat ` D \<subseteq> dom (map_of al)"
      using assms(2,3) unfolding assms(4) by (force simp: dom_def)
  qed
  also have "card ((word_of_nat :: nat \<Rightarrow> byte) ` D) = card D"
  proof (intro card_image inj_onI)
    fix i j assume "i \<in> D" "j \<in> D" and eq: "(word_of_nat i :: byte) = word_of_nat j"
    then have "i < 256" "j < 256" using assms(2,3) by fastforce+
    with arg_cong [OF eq, of unat] show "i = j" by simp
  qed
  finally show ?thesis .
qed

lemma stitch_all:
  assumes "feTotal e = word_of_nat n" "n \<le> 255"
    "map_of (feFragments e) = (\<lambda>k. if unat k \<in> {..<n} then Some (chunk m p (unat k)) else None)"
  shows "stitch e = take (n * m) p"
proof -
  have "stitch e = concat (map (chunk m p) [0..<n])"
    unfolding stitch_def assms(1,3) using assms(2) by (auto intro!: arg_cong [of _ _ concat])
  then show ?thesis by (simp add: chunks_concat)
qed

lemma fragment_fields [simp]:
  "FragTotal (fragment f m n i) = word_of_nat n" "FragID (fragment f m n i) = word_of_nat i"
  "Payload (fragment f m n i) = chunk m (Payload f) i"
  by (simp_all add: fragment_def)

lemma fragment_total:
  assumes "1 < n" "n \<le> 255"
  shows "\<not> FragTotal (fragment f m n i) \<le> 1" "unat (word_of_nat n :: byte) = n"
  using assms by (simp_all add: word_le_nat_alt)

lemma fragment_inject:
  assumes "fragment f m n i = fragment f m n j" "i < n" "j < n" "n \<le> 255"
  shows "i = j"
  using arg_cong [OF assms(1), of "\<lambda>g. unat (FragID g)"] assms(2-4) by simp

definition reassembled :: "DatagramFrame \<Rightarrow> DatagramFrame" where
  "reassembled f = f\<lparr>FragTotal := 1, FragID := 0, PayloadLen := word_of_nat (length (Payload f))\<rparr>"

text \<open>Storing piece \<open>i\<close> (again): complete when it was the last one missing.\<close>

lemma Add_piece:
  assumes inv: "ra_inv r" and n: "1 < n" "n \<le> 255" "length (Payload f) \<le> n * m" and i: "i < n" "D \<subseteq> {..<n}"
    and c: "c = cleanupExpiredLocked now1 r" and e: "e = add_entry now2 c (fragment f m n i)"
    and room: "map_of (raEntries c) (fragKey f) \<noteq> None \<or> int (length (raEntries c)) < raMaxQueued c"
    and ent: "feTotal e = word_of_nat n" "feCreatedAt e = t0" "feFrame e = fragment f m n j"
      "map_of (feFragments e) = (\<lambda>k. if unat k \<in> insert i D then Some (chunk m (Payload f) (unat k)) else None)"
  shows "if insert i D = {..<n}
    then fst (Add now1 now2 r (fragment f m n i)) = Inr (Some (reassembled f)) \<and>
      map_of (raEntries (snd (Add now1 now2 r (fragment f m n i)))) (fragKey f) = None
    else fst (Add now1 now2 r (fragment f m n i)) = Inr None \<and>
      collecting f m n t0 (insert i D) (snd (Add now1 now2 r (fragment f m n i)))"
proof -
  note total = fragment_total [OF n(1,2)]
  have ci: "ra_inv c" unfolding c by (rule cleanup_inv [OF inv])
  have dist: "distinct (map fst (feFragments e))" unfolding e by (rule add_entry_inv(1) [OF ci total(1)])
  have sub: "insert i D \<subseteq> {..<n}" using i by auto
  have len: "length (feFragments e) = card (insert i D)"
    by (rule card_frag_keys [OF dist sub n(2) ent(4)])
  have full: "card (insert i D) = n \<longleftrightarrow> insert i D = {..<n}"
    by (metis card_lessThan card_subset_eq finite_lessThan sub)
  note A = Add_cases [OF total(1) c e]
  have nf: "\<not> (map_of (raEntries c) (fragKey f) = None \<and> int (length (raEntries c)) \<ge> raMaxQueued c)" using room by auto
  show ?thesis
  proof (cases "insert i D = {..<n}")
    case True
    have "stitch e = Payload f" using stitch_all [OF ent(1) n(2)] ent(4) True n(3) by simp
    then have "fst (Add now1 now2 r (fragment f m n i)) = Inr (Some (reassembled f))"
      "raEntries (snd (Add now1 now2 r (fragment f m n i))) = AList.delete (fragKey f) (raEntries c)"
      unfolding A if_not_P [OF nf [folded fragment_key [of f m n i]]] using len full total(2) ent(1,3) True
      by (simp_all add: reassembled_def) (simp add: fragment_def)
    with True show ?thesis by (simp add: delete_conv')
  next
    case False
    have "ra_inv (snd (Add now1 now2 r (fragment f m n i)))" using Add_inv [OF inv] by blast
    moreover have "fst (Add now1 now2 r (fragment f m n i)) = Inr None"
      "raEntries (snd (Add now1 now2 r (fragment f m n i))) = AList.update (fragKey f) e (raEntries c)"
      unfolding A if_not_P [OF nf [folded fragment_key [of f m n i]]] using len full total(2) ent(1) False by simp_all
    moreover have "map_of (AList.update (fragKey f) e (raEntries c)) (fragKey f) = Some e" by (simp add: update_conv)
    ultimately show ?thesis
      unfolding collecting_def using False sub ent dist by auto
  qed
qed

lemma Add_first:
  assumes inv: "ra_inv r" and n: "1 < n" "n \<le> 255" "length (Payload f) \<le> n * m" and i: "i < n"
    and new: "map_of (raEntries r) (fragKey f) = None" "int (length (raEntries r)) < raMaxQueued r"
  shows "fst (Add now1 now2 r (fragment f m n i)) = Inr None \<and>
    collecting f m n now2 {i} (snd (Add now1 now2 r (fragment f m n i)))"
proof -
  let ?c = "cleanupExpiredLocked now1 r"
  have c: "map_of (raEntries ?c) (fragKey f) = None"
    using new(1) inv by (simp add: cleanupExpiredLocked_def map_of_filter_distinct ra_inv_def)
  have l: "int (length (raEntries ?c)) < raMaxQueued ?c"
    using new(2) order_le_less_trans [OF iffD2 [OF of_nat_le_iff, OF length_filter_le]]
    by (simp add: cleanupExpiredLocked_def)
  have ne: "{i} \<noteq> {..<n}" using n(1) by (metis card_lessThan card.empty card_insert_if finite.emptyI empty_iff One_nat_def less_irrefl)
  have i8: "unat (word_of_nat i :: byte) = i" using i n(2) by simp
  have "map_of (feFragments (add_entry now2 ?c (fragment f m n i))) =
      (\<lambda>k. if unat k \<in> insert i {} then Some (chunk m (Payload f) (unat k)) else None)"
    using c i8 by (auto simp: add_entry_def Let_def fun_eq_iff)
  from Add_piece [OF inv n i _ refl refl _ _ _ _ this, of now2 i] c l ne show ?thesis
    by (simp add: add_entry_def Let_def)
qed

lemma Add_next:
  assumes col: "collecting f m n t0 D r" and n: "1 < n" "n \<le> 255" "length (Payload f) \<le> n * m" and i: "i < n"
    and t: "now1 - t0 \<le> raTtl r"
  shows "if insert i D = {..<n}
    then fst (Add now1 now2 r (fragment f m n i)) = Inr (Some (reassembled f)) \<and>
      map_of (raEntries (snd (Add now1 now2 r (fragment f m n i)))) (fragKey f) = None
    else fst (Add now1 now2 r (fragment f m n i)) = Inr None \<and>
      collecting f m n t0 (insert i D) (snd (Add now1 now2 r (fragment f m n i)))"
proof -
  obtain e j where e: "map_of (raEntries r) (fragKey f) = Some e" "feTotal e = word_of_nat n" "feCreatedAt e = t0"
    "feFrame e = fragment f m n j"
    "map_of (feFragments e) = (\<lambda>k. if unat k \<in> D then Some (chunk m (Payload f) (unat k)) else None)"
    and inv: "ra_inv r" and D: "D \<subseteq> {..<n}"
    using col by (auto simp: collecting_def)
  let ?c = "cleanupExpiredLocked now1 r"
  have c: "map_of (raEntries ?c) (fragKey f) = Some e" using cleanup_lookup [OF inv e(1)] e(3) t by simp
  have i8: "unat (word_of_nat i :: byte) = i" using i n(2) by simp
  have "map_of (feFragments (add_entry now2 ?c (fragment f m n i))) =
      (\<lambda>k. if unat k \<in> insert i D then Some (chunk m (Payload f) (unat k)) else None)"
    using c i8 e(5) by (auto simp: add_entry_def Let_def fun_eq_iff update_conv)
  from Add_piece [OF inv n i D refl refl _ _ _ _ this, of t0 j] c e show ?thesis
    by (simp add: add_entry_def Let_def)
qed

lemma collecting_other:
  assumes "collecting f m n t0 D r" "now1 - t0 \<le> raTtl r" "FragTotal g \<le> 1 \<or> fragKey g \<noteq> fragKey f"
  shows "collecting f m n t0 D (snd (Add now1 now2 r g))"
  using assms Add_other [of r "fragKey f" _ now1 g now2] Add_inv [of r now1 now2 g]
  unfolding collecting_def by fastforce

text \<open>A sequence of calls of \<open>Add\<close>, each with its two clock readings.\<close>

type_synonym arrival = "gotime \<times> gotime \<times> DatagramFrame"

fun Adds :: "DatagramReassembler \<Rightarrow> arrival list \<Rightarrow> (DatagramFrame option) result list \<times> DatagramReassembler" where
  "Adds r [] = ([], r)"
| "Adds r ((now1, now2, f) # es) =
    (let (x, r) = Add now1 now2 r f; (xs, r) = Adds r es in (x # xs, r))"

lemma Adds_Cons:
  "fst (Adds r ((a, b, g) # es)) = fst (Add a b r g) # fst (Adds (snd (Add a b r g)) es)"
  "snd (Adds r ((a, b, g) # es)) = snd (Adds (snd (Add a b r g)) es)"
  by (simp_all add: Let_def split: prod.split)

definition frames :: "arrival list \<Rightarrow> DatagramFrame set" where
  "frames es = set (map (\<lambda>x. snd (snd x)) es)"

text \<open>Arrivals for \<open>f\<close>: pieces of \<open>f\<close>, or frames of other datagrams; none later than the time to live.\<close>

definition arrivals :: "DatagramFrame \<Rightarrow> DatagramFrame set \<Rightarrow> gotime \<Rightarrow> duration \<Rightarrow> arrival list \<Rightarrow> bool" where
  "arrivals f fs t0 ttl es \<longleftrightarrow>
    (\<forall>(a, b, g) \<in> set es. a - t0 \<le> ttl \<and> (g \<in> fs \<or> FragTotal g \<le> 1 \<or> fragKey g \<noteq> fragKey f))"

definition indices :: "DatagramFrame \<Rightarrow> nat \<Rightarrow> nat \<Rightarrow> arrival list \<Rightarrow> nat set" where
  "indices f m n es = {i. i < n \<and> fragment f m n i \<in> frames es}"

lemma indices_Cons: "indices f m n (x # es) = indices f m n [x] \<union> indices f m n es"
  by (auto simp: indices_def frames_def)

lemma Add_arrival:
  assumes n: "1 < n" "n \<le> 255" "length (Payload f) \<le> n * m" and col: "collecting f m n t0 D r"
    and arr: "arrivals f (fragment f m n ` {..<n}) t0 (raTtl r) [(a, b, g)]"
    and D': "D' = D \<union> indices f m n [(a, b, g)]"
  shows "D' \<noteq> {..<n} \<Longrightarrow> collecting f m n t0 D' (snd (Add a b r g))"
    and "D' = {..<n} \<Longrightarrow> D \<noteq> {..<n} \<Longrightarrow> fst (Add a b r g) = Inr (Some (reassembled f)) \<and>
      map_of (raEntries (snd (Add a b r g))) (fragKey f) = None"
proof -
  have t: "a - t0 \<le> raTtl r" using arr by (simp add: arrivals_def)
  consider (piece) i where "i < n" "g = fragment f m n i" | (other) "FragTotal g \<le> 1 \<or> fragKey g \<noteq> fragKey f"
    using arr by (auto simp: arrivals_def)
  then have "(D' \<noteq> {..<n} \<longrightarrow> collecting f m n t0 D' (snd (Add a b r g))) \<and>
    (D' = {..<n} \<and> D \<noteq> {..<n} \<longrightarrow> fst (Add a b r g) = Inr (Some (reassembled f)) \<and>
      map_of (raEntries (snd (Add a b r g))) (fragKey f) = None)"
  proof cases
    case piece
    have "indices f m n [(a, b, g)] = {i}"
      using piece fragment_inject [of f m n _ i] n(2) by (auto simp: indices_def frames_def)
    then have "D' = insert i D" using D' by simp
    with Add_next [OF col n piece(1) t, of b] piece(2) show ?thesis by (simp split: if_splits)
  next
    case other
    have "indices f m n [(a, b, g)] = {}"
      using other fragment_total(1) [OF n(1,2)] by (auto simp: indices_def frames_def)
    then have "D' = D" using D' by simp
    with collecting_other [OF col t other, of b] show ?thesis by simp
  qed
  then show "D' \<noteq> {..<n} \<Longrightarrow> collecting f m n t0 D' (snd (Add a b r g))"
    and "D' = {..<n} \<Longrightarrow> D \<noteq> {..<n} \<Longrightarrow> fst (Add a b r g) = Inr (Some (reassembled f)) \<and>
      map_of (raEntries (snd (Add a b r g))) (fragKey f) = None"
    by blast+
qed

lemma Adds_nonempty: "es \<noteq> [] \<Longrightarrow> fst (Adds r es) \<noteq> []"
  by (cases es) (auto simp: Let_def split: prod.splits)

lemma Adds_collecting:
  assumes n: "1 < n" "n \<le> 255" "length (Payload f) \<le> n * m"
  shows "collecting f m n t0 D r \<Longrightarrow> arrivals f (fragment f m n ` {..<n}) t0 (raTtl r) es \<Longrightarrow> es \<noteq> [] \<Longrightarrow>
    D \<union> indices f m n es = {..<n} \<Longrightarrow> D \<union> indices f m n (butlast es) \<noteq> {..<n} \<Longrightarrow>
    last (fst (Adds r es)) = Inr (Some (reassembled f)) \<and>
    map_of (raEntries (snd (Adds r es))) (fragKey f) = None"
proof (induction es arbitrary: D r)
  case (Cons x es)
  obtain a b g where x: "x = (a, b, g)" by (cases x)
  let ?A = "Add a b r g" and ?D = "D \<union> indices f m n [(a, b, g)]"
  have arr: "arrivals f (fragment f m n ` {..<n}) t0 (raTtl r) [(a, b, g)]"
    using Cons.prems(2) by (simp add: arrivals_def x)
  have "raTtl (snd ?A) = raTtl r" using Add_inv Cons.prems(1) by (simp add: collecting_def)
  then have arrs: "arrivals f (fragment f m n ` {..<n}) t0 (raTtl (snd ?A)) es"
    using Cons.prems(2) by (auto simp: arrivals_def)
  have un: "fst (Adds r (x # es)) = fst ?A # fst (Adds (snd ?A) es)" "snd (Adds r (x # es)) = snd (Adds (snd ?A) es)"
    by (simp_all only: x Adds_Cons)
  show ?case
  proof (cases "es = []")
    case True
    have "?D = {..<n}" "D \<noteq> {..<n}" using Cons.prems(4,5) True x by (simp_all add: indices_def frames_def)
    with Add_arrival(2) [OF n Cons.prems(1) arr refl] un True show ?thesis by simp
  next
    case False
    have ix: "indices f m n (x # zs) = indices f m n [(a, b, g)] \<union> indices f m n zs" for zs
      unfolding x by (rule indices_Cons)
    have bl: "butlast (x # es) = x # butlast es" using False by simp
    have all: "?D \<union> indices f m n es = {..<n}" and part: "?D \<union> indices f m n (butlast es) \<noteq> {..<n}"
      using Cons.prems(4,5) unfolding bl ix Un_assoc by blast+
    have "indices f m n (butlast es) \<subseteq> {..<n}" by (auto simp: indices_def)
    then have "?D \<noteq> {..<n}" using part Un_absorb2 by metis
    then have "collecting f m n t0 ?D (snd ?A)" by (rule Add_arrival(1) [OF n Cons.prems(1) arr refl])
    from Cons.IH [OF this arrs False all part] Adds_nonempty [OF False] un show ?thesis by simp
  qed
qed simp

section \<open>Properties\<close>

text \<open>
  Datagram round trip: a frame with a valid address and a payload of at most 65535 bytes
  decodes from its encoding to itself, trailing bytes ignored, with \<open>PayloadLen\<close> the length of the
  payload, a zero \<open>FragTotal\<close> read as one, a domain unchanged and an IP address in canonical text,
  which for IPv4 parses to the same address. Every other frame is refused.
\<close>

lemma datagram_roundtrip:
  "case encodeAddr f of
     Inl e \<Rightarrow> EncodeDatagram f = Inl e \<and> e \<in> {ErrInvalidDatagram, ErrUnsupportedAddrType}
   | Inr a \<Rightarrow>
       \<exists>b. EncodeDatagram f = Inr b \<and> length b = 11 + length a + length (Payload f) \<and>
         (length (Payload f) \<le> 65535 \<longrightarrow>
           (\<forall>rest. DecodeDatagram (b @ rest) =
             Inr (f\<lparr>FragTotal := (if FragTotal f = 0 then 1 else FragTotal f),
                    PayloadLen := word_of_nat (length (Payload f)), TargetAddr := canonicalAddr f\<rparr>))) \<and>
         (AddrType f = AddrTypeDomain \<longrightarrow> canonicalAddr f = TargetAddr f) \<and>
         (AddrType f = AddrTypeIPv4 \<longrightarrow> ParseIP (canonicalAddr f) = ParseIP (TargetAddr f))"
proof (cases "encodeAddr f")
  case (Inl e)
  then show ?thesis by (auto simp: EncodeDatagram_layout) (auto simp: encodeAddr_def split: if_splits option.splits)
next
  case (Inr a)
  have v4: "ParseIP (canonicalAddr f) = ParseIP (TargetAddr f)" if t4: "AddrType f = AddrTypeIPv4"
  proof -
    obtain ip where ip: "ParseIP (TargetAddr f) = Some ip" "To4 ip = Some a"
      using Inr t4 by (auto simp: encodeAddr_def bind_eq_Some_conv split: option.splits)
    have l: "length ip = 16" "length a = 4" using ParseIP_length [OF ip(1)] To4_length [OF ip(2)] by simp_all
    then have "ip = v4_mapped a"
      using ip(2) by (auto simp: To4_def v4_mapped_def split: if_splits) (metis append_Cons append_assoc append_take_drop_id append_Nil)
    moreover have "canonicalAddr f = ipv4_String a"
      using Inr t4 l by (simp add: canonicalAddr_def addr_types IP_String_def To4_def)
    ultimately show ?thesis using ParseIP_ipv4_String [OF l(2)] ip(1) by simp
  qed
  show ?thesis
    using Inr DecodeDatagram_layout [OF Inr] v4
    by (auto simp: EncodeDatagram_layout canonicalAddr_def) (simp add: datagram_layout_def)
qed

theorem datagram_roundtrip_witness:
  "\<exists>b. EncodeDatagram \<lparr>AssocID = 1, PktID = 2, FragTotal = 0, FragID = 0, PayloadLen = 0, AddrType = AddrTypeDomain,
      TargetAddr = ''ab'', TargetPort = 53, Payload = [7, 8]\<rparr> = Inr b \<and>
    DecodeDatagram (b @ [9]) = Inr \<lparr>AssocID = 1, PktID = 2, FragTotal = 1, FragID = 0, PayloadLen = 2,
      AddrType = AddrTypeDomain, TargetAddr = ''ab'', TargetPort = 53, Payload = [7, 8]\<rparr>"
  using datagram_roundtrip [of "\<lparr>AssocID = 1, PktID = 2, FragTotal = 0, FragID = 0, PayloadLen = 0,
      AddrType = AddrTypeDomain, TargetAddr = ''ab'', TargetPort = 53, Payload = [7, 8]\<rparr>"]
  by (auto simp: encodeAddr_def addr_types)



text \<open>
  The reassembler's invariant and its bound: from \<open>NewDatagramReassembler\<close> on, under any
  sequence of arrivals, every datagram has one entry, the number of entries never exceeds
  \<open>maxQueued\<close>, and every entry waits for a fragment; a full queue refuses a new datagram with
  \<open>ErrReassemblerQueueFull\<close>.
\<close>

lemma reassembler_invariant:
  "ra_inv (snd (Adds (NewDatagramReassembler ttl mx) es)) \<and>
   raMaxQueued (snd (Adds (NewDatagramReassembler ttl mx) es)) = (if mx \<le> 0 then 1024 else mx) \<and>
   (ra_inv r \<longrightarrow> fst (Add now1 now2 r f) = Inl e \<longrightarrow> e = ErrReassemblerQueueFull \<and> 1 < FragTotal f \<and>
     raMaxQueued r \<le> int (length (raEntries (cleanupExpiredLocked now1 r))))"
proof -
  have run: "ra_inv r \<Longrightarrow> ra_inv (snd (Adds r es)) \<and> raMaxQueued (snd (Adds r es)) = raMaxQueued r" for r es
  proof (induction es arbitrary: r)
    case (Cons x es)
    obtain a b g where x: "x = (a, b, g)" by (cases x)
    have "snd (Adds r (x # es)) = snd (Adds (snd (Add a b r g)) es)" unfolding x by (rule Adds_Cons)
    with Cons.IH [of "snd (Add a b r g)"] Add_inv [OF Cons.prems, of a b g] show ?case by simp
  qed simp
  have new: "ra_inv (NewDatagramReassembler ttl mx)" by (simp add: NewDatagramReassembler_def ra_inv_def)
  have err: "e = ErrReassemblerQueueFull \<and> 1 < FragTotal f \<and>
      raMaxQueued r \<le> int (length (raEntries (cleanupExpiredLocked now1 r)))" if "fst (Add now1 now2 r f) = Inl e"
  proof (cases "FragTotal f \<le> 1")
    case True
    with that show ?thesis by (simp add: Add_def)
  next
    case False
    with that show ?thesis unfolding Add_cases [OF False refl refl] by (simp add: cleanupExpiredLocked_def split: if_splits)
  qed
  from run [OF new, of es] err show ?thesis by (simp add: NewDatagramReassembler_def)
qed

theorem reassembler_invariant_witness:
  "ra_inv (snd (Adds (NewDatagramReassembler 0 1) [])) \<and> raMaxQueued (snd (Adds (NewDatagramReassembler 0 1) [])) = 1"
  using reassembler_invariant [of 0 1 "[]"] by simp

text \<open>
  The reassembler counts fragments instead of checking which ones it has: a datagram of
  two fragments for which fragment 0 and a fragment with any identifier from 2 on arrive is reported
  complete, with the payload of fragment 0 only.
\<close>

lemma reassembly_wrong_FragID:
  assumes "ra_inv r" "map_of (raEntries r) (fragKey f) = None" "int (length (raEntries r)) < raMaxQueued r" "0 \<le> raTtl r"
    and "FragTotal f = 2" "FragID f = 0" "fragKey g = fragKey f" "FragTotal g = 2" "2 \<le> FragID g"
  shows "\<exists>r'. Adds r [(now, now, f), (now, now, g)] =
    ([Inr None, Inr (Some (f\<lparr>FragTotal := 1, PayloadLen := word_of_nat (length (Payload f))\<rparr>))], r')"
proof -
  let ?c = "cleanupExpiredLocked now r" and ?k = "fragKey f"
  let ?e = "\<lparr>feFragments = [(0, Payload f)], feTotal = 2, feFrame = f, feCreatedAt = now\<rparr>"
  have tf: "\<not> FragTotal f \<le> 1" "\<not> FragTotal g \<le> 1" using assms by (simp_all add: word_le_nat_alt)
  have c: "map_of (raEntries ?c) ?k = None"
    using assms(1,2) by (simp add: cleanupExpiredLocked_def map_of_filter_distinct ra_inv_def)
  have l: "int (length (raEntries ?c)) < raMaxQueued ?c"
    using assms(3) order_le_less_trans [OF iffD2 [OF of_nat_le_iff, OF length_filter_le]]
    by (simp add: cleanupExpiredLocked_def)
  have e1: "add_entry now ?c f = ?e" using c assms(5,6) by (simp add: add_entry_def Let_def)
  let ?r1 = "?c\<lparr>raEntries := AList.update ?k ?e (raEntries ?c)\<rparr>"
  have A1: "Add now now r f = (Inr None, ?r1)"
    unfolding Add_cases [OF tf(1) refl refl] using c l e1 by simp
  have inv1: "ra_inv ?r1" using Add_inv [OF assms(1), of now now f] A1 by simp
  let ?c2 = "cleanupExpiredLocked now ?r1"
  have c2: "map_of (raEntries ?c2) ?k = Some ?e"
    using cleanup_lookup [OF inv1, of ?k ?e now] assms(4) by (simp add: update_conv cleanupExpiredLocked_def)
  have ids: "FragID g \<noteq> 0" "FragID g \<noteq> 1" using assms(9) by (auto simp: word_le_nat_alt)
  have e2: "add_entry now ?c2 g = ?e\<lparr>feFragments := [(0, Payload f), (FragID g, Payload g)]\<rparr>"
    unfolding add_entry_def assms(7) c2 Let_def option.case using ids by simp
  have u: "[0..<unat (2 :: byte)] = [0, 1]" by (simp add: upt_rec)
  have st: "stitch (?e\<lparr>feFragments := [(0, Payload f), (FragID g, Payload g)]\<rparr>) = Payload f"
    unfolding stitch_def fragmentEntry.simps u using ids by simp
  have "fst (Add now now ?r1 g) = Inr (Some (f\<lparr>FragTotal := 1, FragID := 0, Payload := Payload f,
      PayloadLen := word_of_nat (length (Payload f))\<rparr>))"
    unfolding Add_cases [OF tf(2) refl refl] e2 assms(7) c2 st by simp
  with A1 assms(6) show ?thesis by (cases "Add now now ?r1 g") (simp add: Let_def)
qed

theorem reassembly_wrong_FragID_witness:
  "\<exists>r'. Adds (NewDatagramReassembler 0 0)
     [(0, 0, \<lparr>AssocID = 1, PktID = 2, FragTotal = 2, FragID = 0, PayloadLen = 0, AddrType = AddrTypeDomain,
        TargetAddr = ''ab'', TargetPort = 53, Payload = [7]\<rparr>),
      (0, 0, \<lparr>AssocID = 1, PktID = 2, FragTotal = 2, FragID = 9, PayloadLen = 0, AddrType = AddrTypeDomain,
        TargetAddr = ''ab'', TargetPort = 53, Payload = [8]\<rparr>)] =
    ([Inr None, Inr (Some (\<lparr>AssocID = 1, PktID = 2, FragTotal = 2, FragID = 0, PayloadLen = 0, AddrType = AddrTypeDomain,
        TargetAddr = ''ab'', TargetPort = 53, Payload = [7]\<rparr>\<lparr>FragTotal := 1, PayloadLen := word_of_nat (length [7 :: byte])\<rparr>))], r')"
  using reassembly_wrong_FragID [of "NewDatagramReassembler 0 0"
      "\<lparr>AssocID = 1, PktID = 2, FragTotal = 2, FragID = 0, PayloadLen = 0, AddrType = AddrTypeDomain,
        TargetAddr = ''ab'', TargetPort = 53, Payload = [7]\<rparr>"
      "\<lparr>AssocID = 1, PktID = 2, FragTotal = 2, FragID = 9, PayloadLen = 0, AddrType = AddrTypeDomain,
        TargetAddr = ''ab'', TargetPort = 53, Payload = [8]\<rparr>" 0]
  by (simp add: NewDatagramReassembler_def ra_inv_def fragKey_def second_def)

end
