(* ===== verification/Rotation.thy ===== *)
theory Rotation
  imports Prelude
begin

text \<open>
  The pool of server endpoints (\<open>internal/transport/rotation.go\<close>): round-robin selection with
  failure counting, a cooldown and half-open probation. Clock readings are arguments. The
  mutex makes each operation atomic, so the pool is a state machine whose steps are the calls.
\<close>

section \<open>Model\<close>

text \<open>\<open>Time.Sub\<close> saturates at the ends of the range of \<open>time.Duration\<close>.\<close>

definition time_Sub :: "gotime \<Rightarrow> gotime \<Rightarrow> duration" where
  "time_Sub t u = max (- (2 ^ 63)) (min (2 ^ 63 - 1) (t - u))"

record Endpoint =
  Address :: string
  ConsecutiveFails :: int
  TotalSuccesses :: int
  TotalFails :: int
  LastFailTime :: gotime
  LastRTT :: duration
  Healthy :: bool

definition newEndpoint :: "string \<Rightarrow> Endpoint" where
  "newEndpoint addr = \<lparr>Address = addr, ConsecutiveFails = 0, TotalSuccesses = 0, TotalFails = 0,
     LastFailTime = 0, LastRTT = 0, Healthy = True\<rparr>"

record EndpointPool =
  endpoints :: "Endpoint list"
  currentIndex :: nat
  failThreshold :: int
  cooldownPeriod :: duration

definition NewEndpointPool :: "string list \<Rightarrow> int \<Rightarrow> duration \<Rightarrow> EndpointPool" where
  "NewEndpointPool addrs threshold cooldown =
    \<lparr>endpoints = map newEndpoint (filter (\<lambda>a. a \<noteq> []) addrs), currentIndex = 0,
     failThreshold = (if threshold \<le> 0 then 3 else threshold),
     cooldownPeriod = (if cooldown \<le> 0 then 60 * second else cooldown)\<rparr>"

definition AddEndpoint :: "EndpointPool \<Rightarrow> string \<Rightarrow> EndpointPool" where
  "AddEndpoint p addr =
    (if addr = [] then p
     else if list_ex (\<lambda>ep. Address ep = addr) (endpoints p) then p
     else p\<lparr>endpoints := endpoints p @ [newEndpoint addr]\<rparr>)"

text \<open>The first pass of \<open>SelectNext\<close>: \<open>i\<close> runs from 0 to the number of endpoints.\<close>

function selectLoop :: "EndpointPool \<Rightarrow> gotime \<Rightarrow> nat \<Rightarrow> (string \<times> EndpointPool) option" where
  "selectLoop p now i =
    (let n = length (endpoints p) in
     if i < n then
       (let idx = (currentIndex p + i) mod n; ep = endpoints p ! idx in
        if \<not> Healthy ep \<and> time_Sub now (LastFailTime ep) > cooldownPeriod p
        then Some (Address ep, p\<lparr>endpoints := (endpoints p)[idx := ep\<lparr>Healthy := True\<rparr>],
                                 currentIndex := (idx + 1) mod n\<rparr>)
        else if Healthy ep then Some (Address ep, p\<lparr>currentIndex := (idx + 1) mod n\<rparr>)
        else selectLoop p now (i + 1))
     else None)"
  by pat_completeness auto
termination
  by (relation "measure (\<lambda>(p, now, i). length (endpoints p) - i)") auto

declare selectLoop.simps [simp del]

definition oldestFail :: "Endpoint list \<Rightarrow> Endpoint option" where
  "oldestFail eps =
    foldl (\<lambda>oldest ep. case oldest of
        None \<Rightarrow> Some ep
      | Some o' \<Rightarrow> if LastFailTime ep < LastFailTime o' then Some ep else oldest) None eps"

definition SelectNext :: "EndpointPool \<Rightarrow> gotime \<Rightarrow> string result \<times> EndpointPool" where
  "SelectNext p now =
    (if length (endpoints p) = 0 then (Inl ErrNoAvailableEndpoints, p)
     else
       (case selectLoop p now 0 of
          Some (addr, p') \<Rightarrow> (Inr addr, p')
        | None \<Rightarrow>
            (case oldestFail (endpoints p) of
               Some ep \<Rightarrow> (Inr (Address ep), p)
             | None \<Rightarrow> (Inl ErrNoAvailableEndpoints, p))))"

definition updateEndpoint :: "int \<Rightarrow> bool \<Rightarrow> duration \<Rightarrow> gotime \<Rightarrow> Endpoint \<Rightarrow> Endpoint" where
  "updateEndpoint threshold success rtt now ep =
    (if success then
       (let ep = ep\<lparr>TotalSuccesses := TotalSuccesses ep + 1, ConsecutiveFails := 0, Healthy := True\<rparr> in
        if rtt > 0 then ep\<lparr>LastRTT := rtt\<rparr> else ep)
     else
       (let ep = ep\<lparr>TotalFails := TotalFails ep + 1, ConsecutiveFails := ConsecutiveFails ep + 1, LastFailTime := now\<rparr> in
        if ConsecutiveFails ep \<ge> threshold then ep\<lparr>Healthy := False\<rparr> else ep))"

fun recordLoop :: "string \<Rightarrow> (Endpoint \<Rightarrow> Endpoint) \<Rightarrow> Endpoint list \<Rightarrow> Endpoint list" where
  "recordLoop addr upd [] = []"
| "recordLoop addr upd (ep # eps) = (if Address ep = addr then upd ep # eps else ep # recordLoop addr upd eps)"

definition RecordResult :: "EndpointPool \<Rightarrow> string \<Rightarrow> bool \<Rightarrow> duration \<Rightarrow> gotime \<Rightarrow> EndpointPool" where
  "RecordResult p addr success rtt now =
    p\<lparr>endpoints := recordLoop addr (updateEndpoint (failThreshold p) success rtt now) (endpoints p)\<rparr>"

definition HealthyCount :: "EndpointPool \<Rightarrow> gotime \<Rightarrow> nat" where
  "HealthyCount p now =
    length (filter (\<lambda>ep. Healthy ep \<or> time_Sub now (LastFailTime ep) > cooldownPeriod p) (endpoints p))"

definition Endpoints :: "EndpointPool \<Rightarrow> Endpoint list" where
  "Endpoints p = endpoints p"

section \<open>The pool as a state machine\<close>

inductive pool_step :: "EndpointPool \<Rightarrow> EndpointPool \<Rightarrow> bool" where
  add: "pool_step p (AddEndpoint p addr)"
| select: "pool_step p (snd (SelectNext p now))"
| result: "pool_step p (RecordResult p addr success rtt now)"

inductive pool_reachable :: "EndpointPool \<Rightarrow> bool" where
  start: "pool_reachable (NewEndpointPool addrs threshold cooldown)"
| step: "pool_reachable p \<Longrightarrow> pool_step p q \<Longrightarrow> pool_reachable q"

definition pool_inv :: "EndpointPool \<Rightarrow> bool" where
  "pool_inv p \<longleftrightarrow> 0 < failThreshold p \<and> 0 < cooldownPeriod p \<and>
    (endpoints p = [] \<and> currentIndex p = 0 \<or> currentIndex p < length (endpoints p)) \<and>
    list_all (\<lambda>ep. Address ep \<noteq> [] \<and> 0 \<le> ConsecutiveFails ep \<and> ConsecutiveFails ep \<le> TotalFails ep \<and>
      (\<not> Healthy ep \<longrightarrow> failThreshold p \<le> ConsecutiveFails ep)) (endpoints p)"

section \<open>Lemmas\<close>

definition available :: "EndpointPool \<Rightarrow> gotime \<Rightarrow> Endpoint \<Rightarrow> bool" where
  "available p now ep \<longleftrightarrow> Healthy ep \<or> time_Sub now (LastFailTime ep) > cooldownPeriod p"

text \<open>The endpoint \<open>i\<close> places after the current index, in cyclic order.\<close>

definition cyc :: "EndpointPool \<Rightarrow> nat \<Rightarrow> nat" where
  "cyc p i = (currentIndex p + i) mod length (endpoints p)"

definition chosen :: "EndpointPool \<Rightarrow> nat \<Rightarrow> EndpointPool" where
  "chosen p i = p\<lparr>endpoints := (endpoints p)[cyc p i := (endpoints p ! cyc p i)\<lparr>Healthy := True\<rparr>],
     currentIndex := (cyc p i + 1) mod length (endpoints p)\<rparr>"

lemma set_healthy: "Healthy ep \<Longrightarrow> ep\<lparr>Healthy := True\<rparr> = ep"
  by (cases ep) simp

lemma selectLoop_Some:
  assumes "i \<le> k" "k < length (endpoints p)" "available p now (endpoints p ! cyc p k)"
    "\<And>j. i \<le> j \<Longrightarrow> j < k \<Longrightarrow> \<not> available p now (endpoints p ! cyc p j)"
  shows "selectLoop p now i = Some (Address (endpoints p ! cyc p k), chosen p k)"
  using assms
proof (induction "k - i" arbitrary: i)
  case 0
  then have k: "i = k" by simp
  let ?ep = "endpoints p ! cyc p k"
  have same: "Healthy ?ep \<Longrightarrow> (endpoints p)[cyc p k := ?ep\<lparr>Healthy := True\<rparr>] = endpoints p"
    by (simp add: set_healthy)
  show ?case
    unfolding k selectLoop.simps [of p now k] Let_def cyc_def [symmetric]
    using 0 same by (auto simp: chosen_def available_def)
next
  case (Suc d)
  then have na: "\<not> available p now (endpoints p ! cyc p i)" and "i < length (endpoints p)" by simp_all
  moreover have "selectLoop p now (i + 1) = Some (Address (endpoints p ! cyc p k), chosen p k)"
    using Suc by simp
  ultimately show ?case
    unfolding selectLoop.simps [of p now i] Let_def cyc_def [symmetric] by (simp add: available_def)
qed

lemma selectLoop_None:
  "(\<And>j. i \<le> j \<Longrightarrow> j < length (endpoints p) \<Longrightarrow> \<not> available p now (endpoints p ! cyc p j)) \<Longrightarrow> selectLoop p now i = None"
proof (induction p now i rule: selectLoop.induct)
  case (1 p now i)
  then show ?case
    unfolding selectLoop.simps [of p now i] Let_def cyc_def [symmetric]
    by (auto simp: available_def cyc_def)
qed

lemma cyc_onto:
  assumes "k < length (endpoints p)" "currentIndex p < length (endpoints p)"
  shows "\<exists>i<length (endpoints p). cyc p i = k"
proof (cases "currentIndex p \<le> k")
  case True
  then show ?thesis using assms by (intro exI [of _ "k - currentIndex p"]) (auto simp: cyc_def)
next
  case False
  then show ?thesis
    using assms by (intro exI [of _ "k + length (endpoints p) - currentIndex p"]) (auto simp: cyc_def)
qed

lemma oldestFail_min:
  assumes "eps \<noteq> []"
  shows "\<exists>ep\<in>set eps. oldestFail eps = Some ep \<and> (\<forall>e\<in>set eps. LastFailTime ep \<le> LastFailTime e)"
  using assms
proof (induction eps rule: rev_induct)
  case (snoc x xs)
  show ?case
  proof (cases "xs = []")
    case True
    then show ?thesis by (simp add: oldestFail_def)
  next
    case False
    then obtain ep where "ep \<in> set xs" "oldestFail xs = Some ep" "\<forall>e\<in>set xs. LastFailTime ep \<le> LastFailTime e"
      using snoc.IH by blast
    then show ?thesis by (auto simp: oldestFail_def)
  qed
qed simp

lemma SelectNext_available:
  assumes cur: "currentIndex p < length (endpoints p)" and ex: "ep \<in> set (endpoints p)" "available p now ep"
  shows "\<exists>k<length (endpoints p). available p now (endpoints p ! cyc p k) \<and>
    (\<forall>j<k. \<not> available p now (endpoints p ! cyc p j)) \<and>
    SelectNext p now = (Inr (Address (endpoints p ! cyc p k)), chosen p k)"
proof -
  let ?P = "\<lambda>k. k < length (endpoints p) \<and> available p now (endpoints p ! cyc p k)"
  obtain i where "i < length (endpoints p)" "endpoints p ! i = ep" using ex(1) by (auto simp: in_set_conv_nth)
  then have "\<exists>k. ?P k" using cyc_onto [OF _ cur, of i] ex(2) by auto
  then obtain k where k: "?P k" "\<And>j. j < k \<Longrightarrow> \<not> ?P j" using exists_least_iff [of ?P] by blast
  then have "selectLoop p now 0 = Some (Address (endpoints p ! cyc p k), chosen p k)"
    by (intro selectLoop_Some) auto
  then have "SelectNext p now = (Inr (Address (endpoints p ! cyc p k)), chosen p k)"
    using cur by (auto simp: SelectNext_def)
  with k show ?thesis by fastforce
qed

lemma SelectNext_none:
  assumes "endpoints p \<noteq> []" "\<And>ep. ep \<in> set (endpoints p) \<Longrightarrow> \<not> available p now ep"
  shows "\<exists>ep\<in>set (endpoints p). SelectNext p now = (Inr (Address ep), p) \<and>
    (\<forall>e\<in>set (endpoints p). LastFailTime ep \<le> LastFailTime e)"
proof -
  have "selectLoop p now 0 = None"
    using assms by (intro selectLoop_None) (auto simp: cyc_def)
  then show ?thesis using oldestFail_min [OF assms(1)] assms(1) by (auto simp: SelectNext_def)
qed

lemma SelectNext_empty: "endpoints p = [] \<Longrightarrow> SelectNext p now = (Inl ErrNoAvailableEndpoints, p)"
  by (simp add: SelectNext_def)

lemma chosen_inv:
  assumes "pool_inv p" "k < length (endpoints p)"
  shows "pool_inv (chosen p k)"
proof -
  have "cyc p k < length (endpoints p)" using assms(2) by (simp add: cyc_def) (metis gr_implies_not0 mod_less_divisor neq0_conv)
  moreover have "Suc (cyc p k) mod length (endpoints p) < length (endpoints p)" using assms(2) by (intro mod_less_divisor) linarith
  ultimately show ?thesis
    using assms by (auto simp: pool_inv_def chosen_def list_all_length nth_list_update)
qed

lemma recordLoop_all: "list_all P eps \<Longrightarrow> (\<And>e. P e \<Longrightarrow> P (upd e)) \<Longrightarrow> list_all P (recordLoop addr upd eps)"
  by (induction eps) auto

lemma length_recordLoop [simp]: "length (recordLoop addr upd eps) = length eps"
  by (induction eps) auto

lemma pool_inv_step:
  assumes "pool_inv p" "pool_step p q"
  shows "pool_inv q"
  using assms(2)
proof cases
  case (add addr)
  with assms(1) show ?thesis by (auto simp: AddEndpoint_def pool_inv_def newEndpoint_def)
next
  case (select now)
  show ?thesis
  proof (cases "endpoints p = []")
    case True
    with select assms(1) show ?thesis by (simp add: SelectNext_empty)
  next
    case False
    then have cur: "currentIndex p < length (endpoints p)" using assms(1) by (auto simp: pool_inv_def)
    show ?thesis
    proof (cases "\<exists>ep\<in>set (endpoints p). available p now ep")
      case True
      then show ?thesis
        using SelectNext_available [OF cur] chosen_inv [OF assms(1)] select by fastforce
    next
      case none: False
      then show ?thesis using SelectNext_none [OF False, of now] assms(1) select by fastforce
    qed
  qed
next
  case (result addr success rtt now)
  let ?P = "\<lambda>ep. Address ep \<noteq> [] \<and> 0 \<le> ConsecutiveFails ep \<and> ConsecutiveFails ep \<le> TotalFails ep \<and>
      (\<not> Healthy ep \<longrightarrow> failThreshold p \<le> ConsecutiveFails ep)"
  have "list_all ?P (recordLoop addr (updateEndpoint (failThreshold p) success rtt now) (endpoints p))"
    using assms(1) by (intro recordLoop_all) (auto simp: pool_inv_def updateEndpoint_def Let_def)
  moreover have "recordLoop addr u (endpoints p) = [] \<longleftrightarrow> endpoints p = []" for u
    by (metis length_0_conv length_recordLoop)
  ultimately show ?thesis using assms(1) result by (simp add: RecordResult_def pool_inv_def)
qed

lemma pool_reachable_inv: "pool_reachable p \<Longrightarrow> pool_inv p"
proof (induction rule: pool_reachable.induct)
  case (start addrs threshold cooldown)
  then show ?case
    by (auto simp: pool_inv_def NewEndpointPool_def newEndpoint_def list_all_iff second_def)
next
  case (step p q)
  then show ?case using pool_inv_step by blast
qed

section \<open>Properties\<close>

text \<open>
  Selection in every reachable pool: an empty pool gives \<open>ErrNoAvailableEndpoints\<close>; when some
  endpoint is healthy or has cooled down, \<open>SelectNext\<close> returns the first such endpoint in cyclic
  order from the current index, marks it healthy and moves the index behind it; otherwise it
  returns an endpoint whose last failure is the earliest and changes nothing.
\<close>

lemma SelectNext_correct:
  assumes "pool_reachable p"
  shows "if endpoints p = [] then SelectNext p now = (Inl ErrNoAvailableEndpoints, p)
    else if \<exists>ep\<in>set (endpoints p). available p now ep
    then \<exists>k<length (endpoints p). available p now (endpoints p ! cyc p k) \<and>
      (\<forall>j<k. \<not> available p now (endpoints p ! cyc p j)) \<and>
      SelectNext p now = (Inr (Address (endpoints p ! cyc p k)), chosen p k)
    else \<exists>ep\<in>set (endpoints p). SelectNext p now = (Inr (Address ep), p) \<and>
      (\<forall>e\<in>set (endpoints p). LastFailTime ep \<le> LastFailTime e)"
proof -
  have "currentIndex p < length (endpoints p)" if "endpoints p \<noteq> []"
    using pool_reachable_inv [OF assms] that by (auto simp: pool_inv_def)
  then show ?thesis
    using SelectNext_available [of p _ now] SelectNext_none [of p now] SelectNext_empty by auto
qed

theorem SelectNext_correct_witness:
  "let p = NewEndpointPool [''a'', [], ''b''] 0 0 in
   \<exists>k<length (endpoints p). available p 5 (endpoints p ! cyc p k) \<and>
      (\<forall>j<k. \<not> available p 5 (endpoints p ! cyc p j)) \<and>
      SelectNext p 5 = (Inr (Address (endpoints p ! cyc p k)), chosen p k)"
proof -
  have "endpoints (NewEndpointPool [''a'', [], ''b''] 0 0) \<noteq> []"
    "\<exists>ep\<in>set (endpoints (NewEndpointPool [''a'', [], ''b''] 0 0)). available (NewEndpointPool [''a'', [], ''b''] 0 0) 5 ep"
    by (simp_all add: NewEndpointPool_def newEndpoint_def available_def)
  with SelectNext_correct [OF pool_reachable.start [of "[''a'', [], ''b'']" 0 0], of 5]
  show ?thesis unfolding Let_def by simp
qed

text \<open>
  In every reachable pool an endpoint is out of rotation only after at least the threshold
  of consecutive failures, the counters are consistent, and the current index lies in the pool.
\<close>

lemma pool_invariant:
  assumes "pool_reachable p"
  shows "0 < failThreshold p \<and> (endpoints p \<noteq> [] \<longrightarrow> currentIndex p < length (endpoints p)) \<and>
    (\<forall>ep\<in>set (endpoints p). Address ep \<noteq> [] \<and> 0 \<le> ConsecutiveFails ep \<and> ConsecutiveFails ep \<le> TotalFails ep \<and>
      (\<not> Healthy ep \<longrightarrow> failThreshold p \<le> ConsecutiveFails ep))"
  using pool_reachable_inv [OF assms] by (auto simp: pool_inv_def list_all_iff)

theorem pool_invariant_witness:
  "0 < failThreshold (RecordResult (NewEndpointPool [''a''] 2 0) ''a'' False 0 7)"
  using pool_invariant [OF pool_reachable.step [OF pool_reachable.start [of "[''a'']" 2 0] pool_step.result]] by blast

fun selections :: "EndpointPool \<Rightarrow> gotime list \<Rightarrow> string result list" where
  "selections p [] = []"
| "selections p (now # nows) = (let (x, q) = SelectNext p now in x # selections q nows)"

lemma round_robin:
  assumes "pool_inv p" "endpoints p \<noteq> []" "list_all Healthy (endpoints p)"
  shows "selections p nows =
    map (\<lambda>j. Inr (Address (endpoints p ! ((currentIndex p + j) mod length (endpoints p))))) [0..<length nows]"
  using assms
proof (induction nows arbitrary: p)
  case (Cons now nows)
  let ?n = "length (endpoints p)" and ?c = "currentIndex p"
  have cur: "?c < ?n" using Cons.prems by (auto simp: pool_inv_def)
  have all: "available p now (endpoints p ! j)" if "j < ?n" for j
    using Cons.prems(3) that by (auto simp: list_all_length available_def)
  have c0: "cyc p 0 = ?c" using cur by (simp add: cyc_def)
  have h: "Healthy (endpoints p ! ?c)" using Cons.prems(3) cur by (simp add: list_all_length)
  have ch: "chosen p 0 = p\<lparr>currentIndex := (?c + 1) mod ?n\<rparr>" by (simp add: chosen_def c0 set_healthy [OF h])
  have "selectLoop p now 0 = Some (Address (endpoints p ! cyc p 0), chosen p 0)"
    using cur all c0 by (intro selectLoop_Some) auto
  then have sel: "SelectNext p now = (Inr (Address (endpoints p ! ?c)), p\<lparr>currentIndex := (?c + 1) mod ?n\<rparr>)"
    using Cons.prems(2) by (simp add: SelectNext_def c0 ch)
  have "pool_inv (p\<lparr>currentIndex := (?c + 1) mod ?n\<rparr>)" using chosen_inv [OF Cons.prems(1), of 0] Cons.prems(2) ch by simp
  then have "selections (p\<lparr>currentIndex := (?c + 1) mod ?n\<rparr>) nows =
      map (\<lambda>j. Inr (Address (endpoints p ! (((?c + 1) mod ?n + j) mod ?n)))) [0..<length nows]"
    using Cons.IH [of "p\<lparr>currentIndex := (?c + 1) mod ?n\<rparr>"] Cons.prems by simp
  also have "\<dots> = map (\<lambda>j. Inr (Address (endpoints p ! ((?c + Suc j) mod ?n)))) [0..<length nows]"
    by (simp add: mod_add_left_eq)
  finally show ?case
    using sel cur by (simp add: upt_conv_Cons map_Suc_upt [symmetric] del: upt_Suc)
qed simp

text \<open>
  Fair rotation: while every endpoint is healthy, successive selections run through the
  pool in order, so any \<open>n\<close> consecutive ones on a pool of \<open>n\<close> use every endpoint exactly once.
\<close>

lemma round_robin_covers:
  assumes "pool_inv p" "list_all Healthy (endpoints p)" "length nows = length (endpoints p)"
  shows "selections p nows = map (\<lambda>ep. Inr (Address ep)) (rotate (currentIndex p) (endpoints p))"
proof (cases "endpoints p = []")
  case True
  with assms(3) show ?thesis by simp
next
  case False
  from round_robin [OF assms(1) False assms(2), of nows] show ?thesis
    by (intro nth_equalityI) (simp_all add: assms(3) nth_rotate)
qed

theorem round_robin_covers_witness:
  "selections (NewEndpointPool [''a'', ''b''] 0 0) [1, 1] =
    map (\<lambda>ep. Inr (Address ep)) (rotate (currentIndex (NewEndpointPool [''a'', ''b''] 0 0)) (endpoints (NewEndpointPool [''a'', ''b''] 0 0)))"
  by (rule round_robin_covers) (simp_all add: pool_reachable_inv pool_reachable.start NewEndpointPool_def newEndpoint_def
      pool_inv_def second_def)

end
