(* ===== verification/Selector.thy ===== *)
theory Selector
  imports Go_Net Rotation
begin

text \<open>
  Transport selection (\<open>internal/transport/selector.go\<close>): the per-host memory of QUIC failures and
  the dialer that tries QUIC first and falls back to TCP. The two transports' \<open>DialSession\<close>, which
  open sockets, are the fields of the record \<open>dialers\<close>; each takes the address and the timeout it is
  given. \<open>urlHost\<close> is the \<open>Host\<close> field \<open>url.Parse\<close> returns, or \<open>None\<close> when it fails.
\<close>

section \<open>Host memory\<close>

type_synonym TransportType = string

definition TransportTypeTCP :: TransportType where "TransportTypeTCP = ''tcp''"
definition TransportTypeQUIC :: TransportType where "TransportTypeQUIC = ''quic''"
definition TransportTypeAuto :: TransportType where "TransportTypeAuto = ''auto''"

lemmas transport_types = TransportTypeTCP_def TransportTypeQUIC_def TransportTypeAuto_def

definition DefaultQUICFallbackTimeout :: duration where "DefaultQUICFallbackTimeout = 1500 * 1000000"
definition DefaultHostCooldown :: duration where "DefaultHostCooldown = 5 * 60 * second"
definition MaxConsecutiveFails :: int where "MaxConsecutiveFails = 2"

record HostStatus =
  hsLastFailTime :: gotime
  hsConsecutiveFails :: int
  hsPreferred :: TransportType

definition HostStatus0 :: HostStatus where
  "HostStatus0 = \<lparr>hsLastFailTime = 0, hsConsecutiveFails = 0, hsPreferred = []\<rparr>"

record HostMemoryCache =
  hcHosts :: "string \<rightharpoonup> HostStatus"
  hcCooldown :: duration

definition NewHostMemoryCache :: "duration \<Rightarrow> HostMemoryCache" where
  "NewHostMemoryCache cooldown =
    \<lparr>hcHosts = Map.empty, hcCooldown = (if cooldown \<le> 0 then DefaultHostCooldown else cooldown)\<rparr>"

fun containsScheme :: "string \<Rightarrow> bool" where
  "containsScheme [] = False"
| "containsScheme (c # s) = (take 3 (c # s) = ''://'' \<or> containsScheme s)"

definition extractHost :: "(string \<Rightarrow> string option) \<Rightarrow> string \<Rightarrow> string" where
  "extractHost urlHost rawAddr =
    (let target = (if containsScheme rawAddr
                   then (case urlHost rawAddr of Some h \<Rightarrow> if h \<noteq> [] then h else rawAddr | None \<Rightarrow> rawAddr)
                   else rawAddr)
     in case SplitHostPort target of Inr (host, _) \<Rightarrow> host | Inl _ \<Rightarrow> target)"

definition ShouldTryQUIC :: "(string \<Rightarrow> string option) \<Rightarrow> HostMemoryCache \<Rightarrow> gotime \<Rightarrow> string \<Rightarrow> bool" where
  "ShouldTryQUIC urlHost c now rawAddr =
    (case hcHosts c (extractHost urlHost rawAddr) of
       None \<Rightarrow> True
     | Some status \<Rightarrow>
         \<not> (hsConsecutiveFails status \<ge> MaxConsecutiveFails \<and> time_Sub now (hsLastFailTime status) < hcCooldown c))"

definition RecordSuccess :: "(string \<Rightarrow> string option) \<Rightarrow> HostMemoryCache \<Rightarrow> string \<Rightarrow> TransportType \<Rightarrow> HostMemoryCache" where
  "RecordSuccess urlHost c rawAddr t =
    (let host = extractHost urlHost rawAddr;
         status = (case hcHosts c host of None \<Rightarrow> HostStatus0 | Some s \<Rightarrow> s)
     in c\<lparr>hcHosts := (hcHosts c)(host \<mapsto> status\<lparr>hsConsecutiveFails := 0, hsPreferred := t\<rparr>)\<rparr>)"

definition RecordFailure ::
  "(string \<Rightarrow> string option) \<Rightarrow> HostMemoryCache \<Rightarrow> gotime \<Rightarrow> string \<Rightarrow> TransportType \<Rightarrow> HostMemoryCache" where
  "RecordFailure urlHost c now rawAddr t =
    (let host = extractHost urlHost rawAddr;
         status = (case hcHosts c host of None \<Rightarrow> HostStatus0 | Some s \<Rightarrow> s);
         status = status\<lparr>hsConsecutiveFails := hsConsecutiveFails status + 1, hsLastFailTime := now\<rparr>;
         status = (if hsConsecutiveFails status \<ge> MaxConsecutiveFails
                   then status\<lparr>hsPreferred := TransportTypeTCP\<rparr> else status)
     in c\<lparr>hcHosts := (hcHosts c)(host \<mapsto> status)\<rparr>)"

section \<open>Dialing\<close>

record 's dialers =
  tcp_DialSession :: "string \<Rightarrow> duration \<Rightarrow> 's result"
  quic_DialSession :: "string \<Rightarrow> duration \<Rightarrow> 's result"

record TransportSelector =
  selMode :: TransportType
  selCache :: HostMemoryCache
  fallbackTimeout :: duration

definition NewTransportSelector :: "TransportType \<Rightarrow> TransportSelector" where
  "NewTransportSelector mode =
    \<lparr>selMode = (if mode = [] then TransportTypeAuto else mode),
     selCache = NewHostMemoryCache DefaultHostCooldown, fallbackTimeout = DefaultQUICFallbackTimeout\<rparr>"

definition SetMode :: "TransportSelector \<Rightarrow> TransportType \<Rightarrow> TransportSelector" where
  "SetMode s mode = s\<lparr>selMode := mode\<rparr>"

definition SetFallbackTimeout :: "TransportSelector \<Rightarrow> duration \<Rightarrow> TransportSelector" where
  "SetFallbackTimeout s d = (if d > 0 then s\<lparr>fallbackTimeout := d\<rparr> else s)"

text \<open>\<open>now1\<close> is the clock at the look-up, \<open>now2\<close> after the QUIC attempt.\<close>

definition dialAuto ::
  "(string \<Rightarrow> string option) \<Rightarrow> 's dialers \<Rightarrow> TransportSelector \<Rightarrow> gotime \<Rightarrow> gotime \<Rightarrow> string \<Rightarrow> duration \<Rightarrow>
   's result \<times> TransportSelector" where
  "dialAuto urlHost D s now1 now2 addr timeout =
    (if \<not> ShouldTryQUIC urlHost (selCache s) now1 addr then (tcp_DialSession D addr timeout, s)
     else
       (let quicTimeout = (if timeout > 0 \<and> timeout < fallbackTimeout s then timeout else fallbackTimeout s) in
        case quic_DialSession D addr quicTimeout of
          Inr sess \<Rightarrow> (Inr sess, s\<lparr>selCache := RecordSuccess urlHost (selCache s) addr TransportTypeQUIC\<rparr>)
        | Inl _ \<Rightarrow>
            (tcp_DialSession D addr timeout,
             s\<lparr>selCache := RecordFailure urlHost (selCache s) now2 addr TransportTypeQUIC\<rparr>)))"

definition DialSession ::
  "(string \<Rightarrow> string option) \<Rightarrow> 's dialers \<Rightarrow> TransportSelector \<Rightarrow> gotime \<Rightarrow> gotime \<Rightarrow> string \<Rightarrow> duration \<Rightarrow>
   's result \<times> TransportSelector" where
  "DialSession urlHost D s now1 now2 addr timeout =
    (if selMode s = TransportTypeTCP then (tcp_DialSession D addr timeout, s)
     else if selMode s = TransportTypeQUIC then (quic_DialSession D addr timeout, s)
     else if selMode s = TransportTypeAuto then dialAuto urlHost D s now1 now2 addr timeout
     else (Inl ErrUnsupportedType, s))"

section \<open>The contract of the host memory\<close>

text \<open>
  What the dialer relies on: a memory that says whether to try QUIC, forgets failures at a success,
  and after \<open>lim\<close> failures in a row refuses QUIC for a cooldown period. \<open>fails\<close> counts the failures in a
  row a host has.
\<close>

locale host_memory =
  fixes attempt :: "'c \<Rightarrow> gotime \<Rightarrow> 'h \<Rightarrow> bool"
    and success :: "'c \<Rightarrow> 'h \<Rightarrow> 'c"
    and failure :: "'c \<Rightarrow> gotime \<Rightarrow> 'h \<Rightarrow> 'c"
    and fails :: "'c \<Rightarrow> 'h \<Rightarrow> int"
    and cooldown :: "'c \<Rightarrow> duration"
    and lim :: int
    and same :: "'h \<Rightarrow> 'h \<Rightarrow> bool"
  assumes success_resets: "same h h' \<Longrightarrow> fails (success c h) h' = 0"
    and failure_counts: "same h h' \<Longrightarrow> fails (failure c now h) h' = fails c h + 1"
    and others_kept: "\<not> same h h' \<Longrightarrow> fails (success c h) h' = fails c h' \<and> fails (failure c now h) h' = fails c h' \<and>
      (attempt (success c h) t h' \<longleftrightarrow> attempt c t h') \<and> (attempt (failure c now h) t h' \<longleftrightarrow> attempt c t h')"
    and few_fails: "fails c h < lim \<Longrightarrow> attempt c now h"
    and blocked: "same h h' \<Longrightarrow> lim \<le> fails (failure c t h) h' \<Longrightarrow>
      attempt (failure c t h) now h' \<longleftrightarrow> cooldown c \<le> time_Sub now t"
    and cooldown_kept: "cooldown (success c h) = cooldown c" "cooldown (failure c t h) = cooldown c"
    and same_refl: "same h h"
begin

lemma failures_count:
  "fails (fold (\<lambda>t c. failure c t h) ts c) h = fails c h + int (length ts)"
  by (induction ts arbitrary: c) (simp_all add: failure_counts same_refl)

lemma cooldown_fold: "cooldown (fold (\<lambda>t c. failure c t h) ts c) = cooldown c"
  by (induction ts arbitrary: c) (simp_all add: cooldown_kept)

text \<open>After \<open>lim\<close> failures in a row the host is blocked for exactly the cooldown after the last of them.\<close>

lemma blocked_after:
  assumes "lim \<le> fails c h + int (length ts) + 1"
  shows "attempt (fold (\<lambda>t c. failure c t h) (ts @ [t]) c) now h \<longleftrightarrow> cooldown c \<le> time_Sub now t"
proof -
  let ?c = "fold (\<lambda>t c. failure c t h) ts c"
  have "lim \<le> fails (failure ?c t h) h" using assms by (simp add: failures_count failure_counts same_refl)
  then show ?thesis using blocked [OF same_refl] by (simp add: cooldown_fold)
qed

lemma success_unblocks: "0 < lim \<Longrightarrow> same h h' \<Longrightarrow> attempt (success c h) now h'"
  by (rule few_fails) (simp add: success_resets)

end

definition hostFails :: "(string \<Rightarrow> string option) \<Rightarrow> HostMemoryCache \<Rightarrow> string \<Rightarrow> int" where
  "hostFails urlHost c addr = (case hcHosts c (extractHost urlHost addr) of None \<Rightarrow> 0 | Some s \<Rightarrow> hsConsecutiveFails s)"

definition sameHost :: "(string \<Rightarrow> string option) \<Rightarrow> string \<Rightarrow> string \<Rightarrow> bool" where
  "sameHost urlHost a b \<longleftrightarrow> extractHost urlHost a = extractHost urlHost b"

interpretation hosts: host_memory "ShouldTryQUIC urlHost" "\<lambda>c a. RecordSuccess urlHost c a TransportTypeQUIC"
  "\<lambda>c now a. RecordFailure urlHost c now a TransportTypeQUIC" "hostFails urlHost" hcCooldown MaxConsecutiveFails
  "sameHost urlHost"
  by unfold_locales
    (auto simp: ShouldTryQUIC_def RecordSuccess_def RecordFailure_def hostFails_def sameHost_def HostStatus0_def
      MaxConsecutiveFails_def Let_def not_less split: option.splits)

section \<open>Properties\<close>

text \<open>
  What a dial does, by mode: \<open>tcp\<close> and \<open>quic\<close> use their transport alone, an unknown mode is an
  error. In \<open>auto\<close> mode the result is QUIC's when QUIC is tried and succeeds within the smaller of the
  caller's and the fallback timeout, and TCP's result in every other case; a QUIC failure never
  reaches the caller.
\<close>

lemma DialSession_result:
  "fst (DialSession urlHost D s now1 now2 addr timeout) =
    (if selMode s = TransportTypeTCP then tcp_DialSession D addr timeout
     else if selMode s = TransportTypeQUIC then quic_DialSession D addr timeout
     else if selMode s \<noteq> TransportTypeAuto then Inl ErrUnsupportedType
     else
       (case (if ShouldTryQUIC urlHost (selCache s) now1 addr
              then quic_DialSession D addr (if timeout > 0 then min timeout (fallbackTimeout s) else fallbackTimeout s)
              else Inl ErrUnsupportedType) of
          Inr sess \<Rightarrow> Inr sess
        | Inl _ \<Rightarrow> tcp_DialSession D addr timeout)) \<and>
   selMode (snd (DialSession urlHost D s now1 now2 addr timeout)) = selMode s \<and>
   (selMode s \<noteq> TransportTypeAuto \<longrightarrow> snd (DialSession urlHost D s now1 now2 addr timeout) = s)"
proof -
  have "(if timeout > 0 then min timeout (fallbackTimeout s) else fallbackTimeout s) =
      (if timeout > 0 \<and> timeout < fallbackTimeout s then timeout else fallbackTimeout s)" by simp
  then show ?thesis
    by (auto simp: DialSession_def dialAuto_def transport_types Let_def split: sum.split)
qed

theorem DialSession_result_witness:
  "fst (DialSession (\<lambda>_. None) \<lparr>tcp_DialSession = (\<lambda>a t. Inr ''tcp session''), quic_DialSession = (\<lambda>a t. Inl EOF)\<rparr>
     (NewTransportSelector []) 0 0 ''h:443'' 0) = Inr ''tcp session'' \<and>
   selMode (snd (DialSession (\<lambda>_. None) \<lparr>tcp_DialSession = (\<lambda>a t. Inr ''tcp session''), quic_DialSession = (\<lambda>a t. Inl EOF)\<rparr>
     (NewTransportSelector []) 0 0 ''h:443'' 0)) = ''auto''"
  using DialSession_result [of "\<lambda>_. None" "\<lparr>tcp_DialSession = (\<lambda>a t. Inr ''tcp session''), quic_DialSession = (\<lambda>a t. Inl EOF)\<rparr>"
      "NewTransportSelector []" 0 0 "''h:443''" 0]
  by (auto simp: NewTransportSelector_def transport_types)

text \<open>
  QUIC cooldown: two failed QUIC attempts in a row at a host, the second at time \<open>t\<close>, leave
  a state in which every dial to that host before \<open>t\<close> plus the cooldown goes straight to TCP and
  changes nothing, after which QUIC is tried again; other hosts are treated as before.
\<close>

lemma quic_cooldown:
  assumes mode: "selMode s = TransportTypeAuto" and zero: "hostFails urlHost (selCache s) addr = 0"
    and fail: "\<And>x. \<exists>e. quic_DialSession D addr x = Inl e"
    and s2: "s2 = snd (DialSession urlHost D (snd (DialSession urlHost D s a1 t1 addr timeout)) a2 t addr timeout)"
  shows "(if sameHost urlHost addr addr'
      then (if time_Sub now t < hcCooldown (selCache s)
            then DialSession urlHost D' s2 now now' addr' timeout' = (tcp_DialSession D' addr' timeout', s2)
            else ShouldTryQUIC urlHost (selCache s2) now addr')
      else ShouldTryQUIC urlHost (selCache s2) now addr' = ShouldTryQUIC urlHost (selCache s) now addr')"
proof -
  let ?fail = "\<lambda>c t. RecordFailure urlHost c t addr TransportTypeQUIC"
  have one: "snd (DialSession urlHost D u x y addr timeout) = u\<lparr>selCache := ?fail (selCache u) y\<rparr>"
    if "selMode u = TransportTypeAuto" "hostFails urlHost (selCache u) addr < MaxConsecutiveFails" for u x y
  proof -
    have "ShouldTryQUIC urlHost (selCache u) x addr" by (rule hosts.few_fails [OF that(2)])
    moreover obtain e where "quic_DialSession D addr
        (if timeout > 0 \<and> timeout < fallbackTimeout u then timeout else fallbackTimeout u) = Inl e" using fail by blast
    ultimately show ?thesis using that(1) by (simp add: DialSession_def dialAuto_def transport_types Let_def)
  qed
  define s1 where "s1 = s\<lparr>selCache := ?fail (selCache s) t1\<rparr>"
  have f1: "hostFails urlHost (selCache s1) addr = 1" using zero hosts.failure_counts [OF hosts.same_refl] by (simp add: s1_def)
  have "s2 = s1\<lparr>selCache := ?fail (selCache s1) t\<rparr>"
    using one [OF mode] one [of s1] mode zero f1 by (simp add: s2 s1_def MaxConsecutiveFails_def)
  then have c2: "selCache s2 = ?fail (selCache s1) t" and m2: "selMode s2 = TransportTypeAuto"
    using mode by (simp_all add: s1_def)
  show ?thesis
  proof (cases "sameHost urlHost addr addr'")
    case True
    have "hostFails urlHost (selCache s2) addr' = 2"
      using hosts.failure_counts [OF True, of "selCache s1" t] f1 by (simp add: c2)
    then have "ShouldTryQUIC urlHost (selCache s2) now addr' \<longleftrightarrow> hcCooldown (selCache s) \<le> time_Sub now t"
      using hosts.blocked [OF True, of "selCache s1" t now]
      by (simp add: c2 MaxConsecutiveFails_def s1_def hosts.cooldown_kept)
    with True m2 show ?thesis by (simp add: DialSession_def dialAuto_def transport_types)
  next
    case False
    then show ?thesis using hosts.others_kept [OF False] by (simp add: c2 s1_def)
  qed
qed

theorem quic_cooldown_witness:
  "let D = \<lparr>tcp_DialSession = (\<lambda>a t. Inr ''tcp''), quic_DialSession = (\<lambda>a t. Inl EOF)\<rparr>;
    s = NewTransportSelector []; u = (\<lambda>_. None);
    s2 = snd (DialSession u D (snd (DialSession u D s 0 1 ''h:443'' 0)) 2 3 ''h:443'' 0)
   in DialSession u D s2 4 5 ''h:444'' 0 = (tcp_DialSession D ''h:444'' 0, s2)"
proof -
  let ?D = "\<lparr>tcp_DialSession = (\<lambda>a t. Inr ''tcp''), quic_DialSession = (\<lambda>a t. Inl EOF)\<rparr> :: string dialers"
  have h: "sameHost (\<lambda>_. None) ''h:443'' ''h:444''"
    by (simp add: sameHost_def extractHost_def SplitHostPort_def LastIndexByte_def)
  have "time_Sub 4 3 < hcCooldown (selCache (NewTransportSelector []))"
    by (simp add: time_Sub_def NewTransportSelector_def NewHostMemoryCache_def DefaultHostCooldown_def second_def)
  with quic_cooldown [of "NewTransportSelector []" "\<lambda>_. None" "''h:443''" ?D _ 0 1 0 2 3 "''h:444''" 4 ?D 5 0] h
  show ?thesis
    by (simp add: Let_def NewTransportSelector_def NewHostMemoryCache_def hostFails_def transport_types)
qed

end
