(* ===== verification/Sni_Sniff.thy ===== *)
theory Sni_Sniff
  imports Netaddr "HOL-Library.Sublist"
begin

text \<open>
  The server name of a TLS ClientHello, read from the first bytes of a proxied connection
  (\<open>internal/app/snisniff.go\<close>). \<open>None\<close> stands for the result \<open>("", false)\<close>. Offsets are kept as in
  the code; the two loops run on offsets that grow.
\<close>

section \<open>Model\<close>

definition tlsRecordHandshake :: byte where "tlsRecordHandshake = 0x16"
definition tlsHandshakeClientHello :: byte where "tlsHandshakeClientHello = 0x01"
definition tlsExtServerName :: u16 where "tlsExtServerName = 0x0000"
definition tlsSNIHostName :: byte where "tlsSNIHostName = 0x00"

lemmas tls_consts = tlsRecordHandshake_def tlsHandshakeClientHello_def tlsExtServerName_def tlsSNIHostName_def

definition isLetter :: "char \<Rightarrow> bool" where
  "isLetter c \<longleftrightarrow> isLower c \<or> isUpper c"

fun sniLabels :: "string list \<Rightarrow> bool \<Rightarrow> bool" where
  "sniLabels [] hasLetter = hasLetter"
| "sniLabels (label # labels) hasLetter =
    (if label = [] \<or> length label > 63 then False
     else if hd label = CHR ''-'' \<or> last label = CHR ''-'' then False
     else if \<not> list_all (\<lambda>c. isLetter c \<or> isDigit c \<or> c = CHR ''-'') label then False
     else sniLabels labels (hasLetter \<or> list_ex isLetter label))"

definition isValidSNIHostname :: "string \<Rightarrow> bool" where
  "isValidSNIHostname host =
    (if host = [] \<or> length host > 253 then False
     else if last host = CHR ''.'' then False
     else sniLabels (Split (CHR ''.'') host) False)"

function serverNameLoop :: "bytes \<Rightarrow> nat \<Rightarrow> string option" where
  "serverNameLoop list off =
    (if off < length list then
       (if off + 3 > length list then None
        else
          (let nameType = list ! off;
               nameLen = unat (get16 (slice (off + 1) (off + 3) list));
               off = off + 3
           in if off + nameLen > length list then None
              else if nameType = tlsSNIHostName then
                (let host = str_of (slice off (off + nameLen) list) in
                 if isValidSNIHostname host then Some host else None)
              else serverNameLoop list (off + nameLen)))
     else None)"
  by pat_completeness auto
termination
  by (relation "measure (\<lambda>(list, off). length list - off)") auto

declare serverNameLoop.simps [simp del]

definition parseServerNameExt :: "bytes \<Rightarrow> string option" where
  "parseServerNameExt data =
    (if length data < 2 then None
     else
       (let listLen = unat (get16 (take 2 data)) in
        if length data < 2 + listLen then None
        else serverNameLoop (slice 2 (2 + listLen) data) 0))"

function extensionLoop :: "bytes \<Rightarrow> nat \<Rightarrow> nat \<Rightarrow> string option" where
  "extensionLoop body extEnd off =
    (if off + 4 \<le> extEnd then
       (let extType = get16 (slice off (off + 2) body);
            extLen = unat (get16 (slice (off + 2) (off + 4) body));
            off = off + 4
        in if off + extLen > extEnd then None
           else if extType = tlsExtServerName then parseServerNameExt (slice off (off + extLen) body)
           else extensionLoop body extEnd (off + extLen))
     else None)"
  by pat_completeness auto
termination
  by (relation "measure (\<lambda>(body, extEnd, off). extEnd - off)") auto

declare extensionLoop.simps [simp del]

definition parseClientHelloSNI :: "bytes \<Rightarrow> string option" where
  "parseClientHelloSNI body =
    (let off = 2 + 32 in
     if off > length body then None
     else if off + 1 > length body then None
     else
       (let sidLen = unat (body ! off); off = off + (1 + sidLen) in
        if off > length body then None
        else if off + 2 > length body then None
        else
          (let csLen = unat (get16 (slice off (off + 2) body)); off = off + (2 + csLen) in
           if off > length body then None
           else if off + 1 > length body then None
           else
             (let cmLen = unat (body ! off); off = off + (1 + cmLen) in
              if off > length body then None
              else if off + 2 > length body then None
              else
                (let extTotal = unat (get16 (slice off (off + 2) body)); off = off + 2 in
                 if off + extTotal > length body then None
                 else extensionLoop body (off + extTotal) off)))))"

definition sniffSNI :: "bytes \<Rightarrow> string option" where
  "sniffSNI payload =
    (if length payload < 5 then None
     else if payload ! 0 \<noteq> tlsRecordHandshake then None
     else if payload ! 1 \<noteq> 0x03 then None
     else if length payload < 9 then None
     else if payload ! 5 \<noteq> tlsHandshakeClientHello then None
     else
       (let hsLen = (unat (payload ! 6) * 2 ^ 16) OR (unat (payload ! 7) * 2 ^ 8) OR unat (payload ! 8) in
        if length payload < 5 + 4 + hsLen then None
        else parseClientHelloSNI (slice 9 (9 + hsLen) payload)))"

section \<open>Lemmas\<close>

text \<open>The messages the sniffer is meant for, in the layout of RFC 8446 and RFC 6066.\<close>

definition vec8 :: "bytes \<Rightarrow> bytes" where
  "vec8 b = word_of_nat (length b) # b"

definition vec16 :: "bytes \<Rightarrow> bytes" where
  "vec16 b = put16 (word_of_nat (length b)) @ b"

definition name_entry :: "byte \<times> bytes \<Rightarrow> bytes" where
  "name_entry e = fst e # vec16 (snd e)"

definition extension :: "u16 \<times> bytes \<Rightarrow> bytes" where
  "extension e = put16 (fst e) @ vec16 (snd e)"

definition client_hello :: "bytes \<Rightarrow> bytes \<Rightarrow> bytes \<Rightarrow> bytes \<Rightarrow> (u16 \<times> bytes) list \<Rightarrow> bytes" where
  "client_hello ver_random sid suites methods exts =
    ver_random @ vec8 sid @ vec16 suites @ vec8 methods @ vec16 (concat (map extension exts))"

definition tls_record :: "byte \<Rightarrow> bytes \<Rightarrow> bytes \<Rightarrow> bytes" where
  "tls_record minor len hello =
    [tlsRecordHandshake, 3, minor] @ len @ [tlsHandshakeClientHello] @ be_put 3 (length hello) @ hello"

lemma slice_append_mid: "slice (length pre) (length pre + length x) (pre @ x @ post) = x"
  by (simp add: slice_def)

lemma slice_mid:
  "length pre = a \<Longrightarrow> a + length x = b \<Longrightarrow> slice a b (pre @ x @ post) = x"
  using slice_append_mid [of pre x post] by auto

lemma serverNameLoop_skip:
  assumes "list = pre @ name_entry (t, nm) @ post" "length nm \<le> 65535"
  shows "serverNameLoop list (length pre) =
    (if t = tlsSNIHostName then (if isValidSNIHostname (str_of nm) then Some (str_of nm) else None)
     else serverNameLoop list (length (pre @ name_entry (t, nm))))"
proof -
  have l: "list = (pre @ [t]) @ put16 (word_of_nat (length nm)) @ (nm @ post)"
    "list = (pre @ [t] @ put16 (word_of_nat (length nm))) @ nm @ post"
    using assms(1) by (simp_all add: name_entry_def vec16_def)
  have s: "slice (length pre + 1) (length pre + 3) list = put16 (word_of_nat (length nm))"
    unfolding l(1) by (rule slice_mid) simp_all
  have n: "slice (length pre + 3) (length pre + 3 + length nm) list = nm"
    unfolding l(2) by (rule slice_mid) simp_all
  have t: "list ! length pre = t" "length pre + 3 + length nm \<le> length list" "length pre < length list"
    using assms(1) by (simp_all add: name_entry_def vec16_def nth_append)
  have o: "length (pre @ name_entry (t, nm)) = length pre + 3 + length nm" by (simp add: name_entry_def vec16_def)
  show ?thesis
    unfolding serverNameLoop.simps [of list "length pre"] o Let_def s t(1)
    using t(2,3) assms(2) n by simp
qed

lemma extensionLoop_skip:
  assumes "body = pre @ extension (t, d) @ post" "length d \<le> 65535" "length (pre @ extension (t, d)) \<le> extEnd"
  shows "extensionLoop body extEnd (length pre) =
    (if t = tlsExtServerName then parseServerNameExt d
     else extensionLoop body extEnd (length (pre @ extension (t, d))))"
proof -
  have l: "body = pre @ put16 t @ (vec16 d @ post)"
    "body = (pre @ put16 t) @ put16 (word_of_nat (length d)) @ (d @ post)"
    "body = (pre @ put16 t @ put16 (word_of_nat (length d))) @ d @ post"
    using assms(1) by (simp_all add: extension_def vec16_def)
  have s: "slice (length pre) (length pre + 2) body = put16 t" unfolding l(1) by (rule slice_mid) simp_all
  have s2: "slice (length pre + 2) (length pre + 4) body = put16 (word_of_nat (length d))"
    unfolding l(2) by (rule slice_mid) simp_all
  have s3: "slice (length pre + 4) (length pre + 4 + length d) body = d" unfolding l(3) by (rule slice_mid) simp_all
  have o: "length (pre @ extension (t, d)) = length pre + 4 + length d" by (simp add: extension_def vec16_def)
  show ?thesis
    unfolding extensionLoop.simps [of body extEnd "length pre"] o Let_def s s2
    using assms(2,3) s3 o by simp
qed

lemma serverNameLoop_find:
  "list = b @ concat (map name_entry es) \<Longrightarrow> list_all (\<lambda>e. length (snd e) \<le> 65535) es \<Longrightarrow>
   serverNameLoop list (length b) =
    (case find (\<lambda>e. fst e = tlsSNIHostName) es of
       None \<Rightarrow> None
     | Some e \<Rightarrow> if isValidSNIHostname (str_of (snd e)) then Some (str_of (snd e)) else None)"
proof (induction es arbitrary: b)
  case Nil
  then show ?case by (simp add: serverNameLoop.simps)
next
  case (Cons e es)
  obtain t nm where e: "e = (t, nm)" by (cases e)
  have "serverNameLoop list (length (b @ name_entry (t, nm))) = (case find (\<lambda>e. fst e = tlsSNIHostName) es of
       None \<Rightarrow> None
     | Some e \<Rightarrow> if isValidSNIHostname (str_of (snd e)) then Some (str_of (snd e)) else None)"
    by (rule Cons.IH) (use Cons.prems e in simp_all)
  with serverNameLoop_skip [of list b t nm "concat (map name_entry es)"] Cons.prems e show ?case by simp
qed

lemma extensionLoop_find:
  "body = b @ concat (map extension es) \<Longrightarrow> list_all (\<lambda>e. length (snd e) \<le> 65535) es \<Longrightarrow>
   extensionLoop body (length body) (length b) =
    (case find (\<lambda>e. fst e = tlsExtServerName) es of None \<Rightarrow> None | Some e \<Rightarrow> parseServerNameExt (snd e))"
proof (induction es arbitrary: b)
  case Nil
  then show ?case by (simp add: extensionLoop.simps)
next
  case (Cons e es)
  obtain t d where e: "e = (t, d)" by (cases e)
  have "extensionLoop body (length body) (length (b @ extension (t, d))) =
      (case find (\<lambda>e. fst e = tlsExtServerName) es of None \<Rightarrow> None | Some e \<Rightarrow> parseServerNameExt (snd e))"
    by (rule Cons.IH) (use Cons.prems e in simp_all)
  with extensionLoop_skip [of body b t d "concat (map extension es)" "length body"] Cons.prems e show ?case by simp
qed

lemma parseServerNameExt_vec:
  assumes "length l \<le> 65535"
  shows "parseServerNameExt (vec16 l) = serverNameLoop l 0"
proof -
  have "slice 2 (2 + length l) (put16 (word_of_nat (length l)) @ l) = l"
    using slice_mid [of "put16 (word_of_nat (length l))" 2 l "2 + length l" "[]"] by simp
  with assms show ?thesis by (simp add: parseServerNameExt_def vec16_def)
qed

lemma parseClientHelloSNI_hello:
  assumes "length vr = 34" "length sid \<le> 255" "length suites \<le> 65535" "length methods \<le> 255"
    "length (concat (map extension exts)) \<le> 65535"
  shows "parseClientHelloSNI (client_hello vr sid suites methods exts) =
    extensionLoop (client_hello vr sid suites methods exts) (length (client_hello vr sid suites methods exts))
      (length (vr @ vec8 sid @ vec16 suites @ vec8 methods) + 2)"
proof -
  let ?b = "client_hello vr sid suites methods exts" and ?x = "concat (map extension exts)"
  let ?o1 = "34 + (1 + length sid)" and ?o2 = "34 + (1 + length sid) + (2 + length suites)"
  let ?o3 = "34 + (1 + length sid) + (2 + length suites) + (1 + length methods)"
  have p: "?b = vr @ [word_of_nat (length sid)] @ (sid @ vec16 suites @ vec8 methods @ vec16 ?x)"
    "?b = (vr @ vec8 sid) @ put16 (word_of_nat (length suites)) @ (suites @ vec8 methods @ vec16 ?x)"
    "?b = (vr @ vec8 sid @ vec16 suites) @ [word_of_nat (length methods)] @ (methods @ vec16 ?x)"
    "?b = (vr @ vec8 sid @ vec16 suites @ vec8 methods) @ put16 (word_of_nat (length ?x)) @ ?x"
    by (simp_all add: client_hello_def vec8_def vec16_def)
  have n1: "?b ! 34 = word_of_nat (length sid)" unfolding p(1) using assms(1) by (simp add: nth_append)
  have s2: "slice ?o1 (?o1 + 2) ?b = put16 (word_of_nat (length suites))"
    unfolding p(2) by (rule slice_mid) (simp_all add: vec8_def assms(1))
  have n3: "?b ! ?o2 = word_of_nat (length methods)"
    unfolding p(3) using assms(1) nth_append_length [of "vr @ vec8 sid @ vec16 suites" "word_of_nat (length methods)"]
    by (simp add: vec8_def vec16_def add.assoc)
  have s4: "slice ?o3 (?o3 + 2) ?b = put16 (word_of_nat (length ?x))"
    unfolding p(4) by (rule slice_mid) (simp_all add: vec8_def vec16_def assms(1))
  have len: "length ?b = ?o3 + 2 + length ?x" by (simp add: client_hello_def vec8_def vec16_def assms(1))
  have o: "length (vr @ vec8 sid @ vec16 suites @ vec8 methods) + 2 = ?o3 + 2"
    by (simp add: vec8_def vec16_def assms(1))
  have u: "unat (word_of_nat (length sid) :: byte) = length sid" "unat (word_of_nat (length methods) :: byte) = length methods"
    using assms(2,4) by simp_all
  show ?thesis
    unfolding parseClientHelloSNI_def Let_def o
    using n1 s2 n3 s4 u len assms(3,5) by simp
qed

lemma or_shift_add:
  fixes a b :: nat
  assumes "b < 2 ^ n"
  shows "(a * 2 ^ n) OR b = a * 2 ^ n + b"
proof -
  have "\<not> bit (a * 2 ^ n) i \<or> \<not> bit b i" for i
  proof (cases "i < n")
    case True
    have "\<not> bit (push_bit n a) i" using True by (simp add: bit_push_bit_iff)
    then show ?thesis by (simp add: push_bit_eq_mult)
  next
    case False
    have "take_bit n b = b" using assms by (simp add: take_bit_nat_eq_self)
    then have "\<not> bit b i" using False by (metis bit_take_bit_iff)
    then show ?thesis by simp
  qed
  then have "(a * 2 ^ n) AND b = 0" by (intro bit_eqI) (simp add: bit_and_iff)
  then show ?thesis by (simp add: disjunctive_add_eq_or)
qed

lemma hs_len_be:
  "(unat (a :: byte) * 2 ^ 16) OR (unat (b :: byte) * 2 ^ 8) OR unat (c :: byte) = be_nat [a, b, c]"
proof -
  have "(unat a * 2 ^ 16) OR (unat b * 2 ^ 8) OR unat c = (unat a * 2 ^ 16) OR (unat b * 2 ^ 8 + unat c)"
    using or_shift_add [of "unat c" 8 "unat b"] by (simp add: or.assoc)
  also have "\<dots> = unat a * 2 ^ 16 + (unat b * 2 ^ 8 + unat c)"
  proof (rule or_shift_add)
    have "unat b \<le> 255" "unat c \<le> 255" using unat_byte_less [of b] unat_byte_less [of c] by linarith+
    then show "unat b * 2 ^ 8 + unat c < 2 ^ 16" by simp
  qed
  finally show ?thesis by (simp add: power2_eq_square)
qed

lemma sniffSNI_record:
  assumes "length len = 2" "length hello < 2 ^ 24"
  shows "sniffSNI (tls_record minor len hello @ rest) = parseClientHelloSNI hello"
proof -
  let ?p = "tls_record minor len hello @ rest"
  obtain l1 l2 where l: "len = [l1, l2]" using assms(1) by (auto simp: length_Suc_conv numeral_2_eq_2)
  obtain a b c where abc: "be_put 3 (length hello) = [a, b, c]"
    using length_be_put [of 3 "length hello"] by (auto simp: length_Suc_conv numeral_3_eq_3 simp del: length_be_put be_put.simps)
  have p: "?p = [tlsRecordHandshake, 3, minor, l1, l2, tlsHandshakeClientHello, a, b, c] @ hello @ rest"
    by (simp add: tls_record_def l abc)
  have "be_nat [a, b, c] = length hello" using be_nat_be_put [of 3 "length hello"] abc assms(2) by simp
  then have "unat a * 65536 OR unat b * 256 OR unat c = length hello" using hs_len_be [of a b c] by simp
  moreover have "slice 9 (9 + length hello) ?p = hello" unfolding p by (rule slice_mid) simp_all
  moreover have "?p ! 0 = tlsRecordHandshake" "?p ! 1 = 3" "?p ! 5 = tlsHandshakeClientHello" "?p ! 6 = a" "?p ! 7 = b" "?p ! 8 = c"
    unfolding p by (simp_all add: nth_append)
  moreover have "9 + length hello \<le> length ?p" unfolding p by simp
  ultimately show ?thesis unfolding sniffSNI_def by (simp add: Let_def)
qed

lemma sniLabels_iff:
  "sniLabels ls h \<longleftrightarrow> list_all (\<lambda>l. l \<noteq> [] \<and> length l \<le> 63 \<and> hd l \<noteq> CHR ''-'' \<and> last l \<noteq> CHR ''-'' \<and>
      list_all (\<lambda>c. isLetter c \<or> isDigit c \<or> c = CHR ''-'') l) ls \<and> (h \<or> list_ex (list_ex isLetter) ls)"
  by (induction ls h rule: sniLabels.induct) (auto simp: not_less)

lemma lower_label:
  "valid_label (map lower_char l) \<longleftrightarrow> l \<noteq> [] \<and> length l \<le> 63 \<and> hd l \<noteq> CHR ''-'' \<and> last l \<noteq> CHR ''-'' \<and>
      list_all (\<lambda>c. isLetter c \<or> isDigit c \<or> c = CHR ''-'') l"
proof (cases "l = []")
  case False
  have lc: "label_char (lower_char c) \<longleftrightarrow> isLetter c \<or> isDigit c \<or> c = CHR ''-''"
    and ld: "lower_char c = CHR ''-'' \<longleftrightarrow> c = CHR ''-''" for c
  proof -
    have d: "c = CHR ''-'' \<longleftrightarrow> ord c = (45 :: nat)" using of_char_eq_iff [of c "CHR ''-''", where ?'a = nat] by simp
    have u: "isUpper c \<Longrightarrow> ord (lower_char c) = ord c + 32" by (simp add: lower_char_def isUpper_def)
    have e: "lower_char c = CHR ''-'' \<longleftrightarrow> ord (lower_char c) = (45 :: nat)"
      using of_char_eq_iff [of "lower_char c" "CHR ''-''", where ?'a = nat] by simp
    show "lower_char c = CHR ''-'' \<longleftrightarrow> c = CHR ''-''"
      unfolding d e using u by (cases "isUpper c") (auto simp: isUpper_def lower_char_def)
    then show "label_char (lower_char c) \<longleftrightarrow> isLetter c \<or> isDigit c \<or> c = CHR ''-''"
      using u by (cases "isUpper c") (auto simp: label_char_def isLetter_def isLower_def isDigit_def isUpper_def lower_char_def)
  qed
  show ?thesis
    using False by (simp add: valid_label_def hd_map last_map ld list_all_iff lc)
qed (simp add: valid_label_def)

lemma Split_map_lower: "Split (CHR ''.'') (map lower_char s) = map (map lower_char) (Split (CHR ''.'') s)"
proof (induction s)
  case (Cons c s)
  have e: "lower_char c = CHR ''.'' \<longleftrightarrow> c = CHR ''.''"
  proof -
    have d: "c = CHR ''.'' \<longleftrightarrow> ord c = (46 :: nat)" using of_char_eq_iff [of c "CHR ''.''", where ?'a = nat] by simp
    have e: "lower_char c = CHR ''.'' \<longleftrightarrow> ord (lower_char c) = (46 :: nat)"
      using of_char_eq_iff [of "lower_char c" "CHR ''.''", where ?'a = nat] by simp
    show ?thesis unfolding d e by (cases "isUpper c") (auto simp: isUpper_def lower_char_def)
  qed
  show ?case using Cons by (simp add: e split: list.split)
qed simp

lemma sni_hostname_ascii: "isValidSNIHostname h \<Longrightarrow> list_all isAscii h"
proof -
  assume "isValidSNIHostname h"
  then have "\<forall>l\<in>set (Split (CHR ''.'') h). \<forall>c\<in>set l. isLetter c \<or> isDigit c \<or> c = CHR ''-''"
    by (auto simp: isValidSNIHostname_def sniLabels_iff list_all_iff split: if_splits)
  then have "\<forall>c\<in>set h. isLetter c \<or> isDigit c \<or> c = CHR ''-'' \<or> c = CHR ''.''"
    using set_Split [of "CHR ''.''" h] by blast
  then show ?thesis by (auto simp: list_all_iff isAscii_def isLetter_def isLower_def isUpper_def isDigit_def)
qed

text \<open>What an accepted name is: a contiguous part of the bytes read, and a valid host name.\<close>

lemma sublist_slice: "sublist (slice a b xs) xs"
  unfolding slice_def by (meson sublist_drop sublist_order.order.trans sublist_take)

lemma serverNameLoop_result:
  "serverNameLoop list off = Some h \<Longrightarrow> isValidSNIHostname h \<and> sublist (bytes_of h) list"
proof (induction list off rule: serverNameLoop.induct)
  case (1 list off)
  note e = trans [OF 1(2) [symmetric] serverNameLoop.simps [of list off]]
  let ?n = "unat (get16 (slice (off + 1) (off + 3) list))"
  from e have g: "off < length list" "\<not> length list < off + 3" "\<not> length list < off + 3 + ?n"
    by (simp_all add: Let_def split: if_splits)
  show ?case
  proof (cases "list ! off = tlsSNIHostName")
    case True
    then show ?thesis using e g by (auto simp: Let_def sublist_slice split: if_splits)
  next
    case False
    then have "serverNameLoop list (off + 3 + ?n) = Some h" using e g by (simp add: Let_def)
    with 1(1) [OF g(1,2) refl refl refl g(3) False] show ?thesis .
  qed
qed

lemma parseServerNameExt_result:
  assumes "parseServerNameExt d = Some h"
  shows "isValidSNIHostname h \<and> sublist (bytes_of h) d"
  using assms sublist_order.order.trans [OF _ sublist_slice [of 2 "2 + unat (get16 (take 2 d))" d]]
  by (auto simp: parseServerNameExt_def Let_def dest: serverNameLoop_result split: if_splits)

lemma extensionLoop_result:
  "extensionLoop body extEnd off = Some h \<Longrightarrow> isValidSNIHostname h \<and> sublist (bytes_of h) body"
proof (induction body extEnd off rule: extensionLoop.induct)
  case (1 body extEnd off)
  note e = trans [OF 1(2) [symmetric] extensionLoop.simps [of body extEnd off]]
  let ?n = "unat (get16 (slice (off + 2) (off + 4) body))"
  from e have g: "off + 4 \<le> extEnd" "\<not> extEnd < off + 4 + ?n"
    by (simp_all add: Let_def split: if_splits)
  show ?case
  proof (cases "get16 (slice off (off + 2) body) = tlsExtServerName")
    case True
    then have "parseServerNameExt (slice (off + 4) (off + 4 + ?n) body) = Some h" using e g by (simp add: Let_def)
    from parseServerNameExt_result [OF this] show ?thesis
      using sublist_order.order.trans sublist_slice by blast
  next
    case False
    then have "extensionLoop body extEnd (off + 4 + ?n) = Some h" using e g by (simp add: Let_def)
    with 1(1) [OF g(1) refl refl refl g(2) False] show ?thesis .
  qed
qed

lemma parseClientHelloSNI_result:
  "parseClientHelloSNI body = Some h \<Longrightarrow> isValidSNIHostname h \<and> sublist (bytes_of h) body"
  by (auto simp: parseClientHelloSNI_def Let_def dest: extensionLoop_result split: if_splits)

lemma isValidSNIHostname_ValidHostname:
  assumes "isValidSNIHostname h"
  shows "ValidHostname U h \<and> last h \<noteq> CHR ''.'' \<and> list_ex isLetter h"
proof -
  have h: "h \<noteq> []" "length h \<le> 253" "last h \<noteq> CHR ''.''" "sniLabels (Split (CHR ''.'') h) False"
    using assms by (auto simp: isValidSNIHostname_def split: if_splits)
  have lab: "list_all valid_label (map (map lower_char) (Split (CHR ''.'') h))"
    using h(4) by (simp add: sniLabels_iff list_all_iff lower_label)
  have lo: "ToLower U (TrimSuffix h ''.'') = map lower_char h"
    using sni_hostname_ascii [OF assms] h(1,3) by (simp add: TrimSuffix_def HasSuffix_dot ToLower_def)
  obtain l where l: "l \<in> set (Split (CHR ''.'') h)" "list_ex isLetter l"
    using h(4) by (auto simp: sniLabels_iff list_ex_iff)
  then obtain c where c: "c \<in> set l" "isLetter c" by (auto simp: list_ex_iff)
  have "c \<noteq> CHR ''.''" using c(2) by (auto simp: isLetter_def isLower_def isUpper_def)
  with c l(1) have "c \<in> set h" using set_Split [of "CHR ''.''" h] by blast
  with c(2) have "list_ex isLetter h" unfolding list_ex_iff by blast
  with lab lo h show ?thesis by (simp add: ValidHostname_def Split_map_lower)
qed

text \<open>
  Whatever bytes the first packet holds, a server name the sniffer returns is a
  contiguous part of that packet and a host name that \<open>netaddr.ValidHostname\<close> accepts for the
  rewritten target; it has a letter (so it is no IPv4 literal) and no trailing dot.
\<close>

lemma sniffSNI_safe:
  assumes "sniffSNI payload = Some h"
  shows "sublist (bytes_of h) payload \<and> ValidHostname U h \<and> last h \<noteq> CHR ''.'' \<and> list_ex isLetter h"
proof -
  obtain n where "parseClientHelloSNI (slice 9 (9 + n) payload) = Some h"
    using assms by (auto simp: sniffSNI_def Let_def split: if_splits)
  note r = parseClientHelloSNI_result [OF this]
  have "sublist (bytes_of h) payload" using r sublist_slice sublist_order.order.trans by blast
  with r isValidSNIHostname_ValidHostname show ?thesis by blast
qed

lemma sniffSNI_hello:
  assumes "length len = 2" "length vr = 34" "length sid \<le> 255" "length suites \<le> 65535" "length methods \<le> 255"
    "length (concat (map extension exts)) \<le> 65535"
    "find (\<lambda>e. fst e = tlsExtServerName) exts = Some (tlsExtServerName, vec16 (concat (map name_entry names)))"
  shows "sniffSNI (tls_record minor len (client_hello vr sid suites methods exts) @ rest) =
    (case find (\<lambda>e. fst e = tlsSNIHostName) names of
       None \<Rightarrow> None
     | Some e \<Rightarrow> if isValidSNIHostname (str_of (snd e)) then Some (str_of (snd e)) else None)"
proof -
  let ?b = "client_hello vr sid suites methods exts" and ?ns = "concat (map name_entry names)"
  let ?pre = "vr @ vec8 sid @ vec16 suites @ vec8 methods @ put16 (word_of_nat (length (concat (map extension exts))))"
  have es: "list_all (\<lambda>e. length (snd e) \<le> 65535) exts"
  proof (clarsimp simp: list_all_iff)
    fix t d assume "(t, d) \<in> set exts"
    then have "length (extension (t, d)) \<le> length (concat (map extension exts))"
      by (induction exts) auto
    then show "length d \<le> 65535" using assms(6) by (simp add: extension_def vec16_def)
  qed
  have ns: "length ?ns \<le> 65535"
  proof -
    have "(tlsExtServerName, vec16 ?ns) \<in> set exts" using assms(7) unfolding find_Some_iff by (metis nth_mem)
    with es have "length (vec16 ?ns) \<le> 65535" by (auto simp: list_all_iff)
    then show ?thesis by (simp add: vec16_def)
  qed
  have nm: "list_all (\<lambda>e. length (snd e) \<le> 65535) names"
  proof (clarsimp simp: list_all_iff)
    fix t d assume "(t, d) \<in> set names"
    then have "length (name_entry (t, d)) \<le> length ?ns" by (induction names) auto
    then show "length d \<le> 65535" using ns by (simp add: name_entry_def vec16_def)
  qed
  have "length ?b < 2 ^ 24" using assms(2-6) by (simp add: client_hello_def vec8_def vec16_def)
  then have "sniffSNI (tls_record minor len ?b @ rest) = parseClientHelloSNI ?b"
    by (rule sniffSNI_record [OF assms(1)])
  also have "\<dots> = extensionLoop ?b (length ?b) (length ?pre)"
    using parseClientHelloSNI_hello [OF assms(2-6)] by simp
  also have "\<dots> = parseServerNameExt (vec16 ?ns)"
    using extensionLoop_find [of ?b ?pre exts] es assms(7) by (simp add: client_hello_def vec16_def)
  also have "\<dots> = serverNameLoop ?ns 0" by (rule parseServerNameExt_vec [OF ns])
  also have "\<dots> = (case find (\<lambda>e. fst e = tlsSNIHostName) names of None \<Rightarrow> None
     | Some e \<Rightarrow> if isValidSNIHostname (str_of (snd e)) then Some (str_of (snd e)) else None)"
    using serverNameLoop_find [of ?ns "[]" names] nm by simp
  finally show ?thesis .
qed

text \<open>
  On every well-formed first packet (a ClientHello in a TLS record, whatever the session
  id, the cipher suites, the extensions before the server name and the bytes after the record)
  the sniffer returns exactly the first \<open>host_name\<close> of the first \<open>server_name\<close> extension when
  that is a valid host name, and nothing otherwise.
\<close>

lemma sniffSNI_exact:
  assumes "length len = 2" "length vr = 34" "length sid \<le> 255" "length suites \<le> 65535" "length methods \<le> 255"
    "length (concat (map extension exts)) \<le> 65535"
    "find (\<lambda>e. fst e = tlsExtServerName) exts = Some (tlsExtServerName, vec16 (concat (map name_entry names)))"
  shows "sniffSNI (tls_record minor len (client_hello vr sid suites methods exts) @ rest) =
    (case find (\<lambda>e. fst e = tlsSNIHostName) names of
       None \<Rightarrow> None
     | Some e \<Rightarrow> if isValidSNIHostname (str_of (snd e)) then Some (str_of (snd e)) else None)"
  by (rule sniffSNI_hello [OF assms])

section \<open>Witnesses\<close>

definition wit_names :: "(byte \<times> bytes) list" where
  "wit_names = [(1, [9]), (0, bytes_of ''Ex-a.io'')]"

definition wit_hello :: bytes where
  "wit_hello = tls_record 1 [0, 90] (client_hello (replicate 34 7) [1, 2] [0x13, 1] [0]
     [(0x2b, [2, 3, 4]), (0, vec16 (concat (map name_entry wit_names))), (0x10, [])]) @ [5, 5]"

lemma wit_host: "(case find (\<lambda>e. fst e = tlsSNIHostName) wit_names of None \<Rightarrow> None
     | Some e \<Rightarrow> if isValidSNIHostname (str_of (snd e)) then Some (str_of (snd e)) else None) = Some ''Ex-a.io''"
proof -
  have "find (\<lambda>e. fst e = tlsSNIHostName) wit_names = Some (0, bytes_of ''Ex-a.io'')"
    by (simp add: wit_names_def tls_consts)
  moreover have "isValidSNIHostname ''Ex-a.io''"
    by (simp add: isValidSNIHostname_def isLetter_def isLower_def isUpper_def isDigit_def)
  ultimately show ?thesis by simp
qed

lemma wit_hello_shape: "length (concat (map extension
     [(0x2b, [2, 3, 4]), (0, vec16 (concat (map name_entry wit_names))), (0x10, [])])) \<le> 65535"
  by (simp add: extension_def vec16_def name_entry_def wit_names_def)

lemma sniffSNI_exact_witness: "sniffSNI wit_hello = Some ''Ex-a.io''"
  unfolding wit_hello_def wit_host [symmetric]
  by (rule sniffSNI_exact [OF _ _ _ _ _ wit_hello_shape]) (simp_all add: tls_consts)

lemma sniffSNI_safe_witness:
  "sublist (bytes_of ''Ex-a.io'') wit_hello \<and>
   ValidHostname \<lparr>uc_ToLower = id, uc_ToUpper = id, uc_TrimSpace = id, uc_TrimRightSpace = id\<rparr> ''Ex-a.io''"
proof -
  have "sniffSNI wit_hello = Some ''Ex-a.io''"
    unfolding wit_hello_def wit_host [symmetric]
    by (rule sniffSNI_hello [OF _ _ _ _ _ wit_hello_shape]) (simp_all add: tls_consts)
  from sniffSNI_safe [OF this] show ?thesis by blast
qed

end
