(* ===== verification/Go_Netip.thy ===== *)
theory Go_Netip
  imports Go_Net
begin

text \<open>
  The parts of Go's \<open>net/netip\<close> that the routing code uses: comparison of addresses, prefixes, and
  the address classes. Go stores an address as a 128-bit number; here it is the number of its bytes,
  32 or 128 bits wide. An IPv4-mapped IPv6 address is unmapped first by the class tests, as since Go 1.22.
\<close>

section \<open>Model\<close>

fun BitLen :: "addr \<Rightarrow> nat" where
  "BitLen (V4 _) = 32"
| "BitLen (V6 _ _) = 128"

fun addr_val :: "addr \<Rightarrow> nat" where
  "addr_val (V4 b) = be_nat b"
| "addr_val (V6 b _) = be_nat b"

fun addr_zone :: "addr \<Rightarrow> string" where
  "addr_zone (V4 _) = []"
| "addr_zone (V6 _ z) = z"

fun WithoutZone :: "addr \<Rightarrow> addr" where
  "WithoutZone (V4 b) = V4 b"
| "WithoutZone (V6 b _) = V6 b []"

definition AddrFromSlice :: "bytes \<Rightarrow> addr option" where
  "AddrFromSlice b = (if length b = 4 then Some (V4 b) else if length b = 16 then Some (V6 b []) else None)"

fun Is4In6 :: "addr \<Rightarrow> bool" where
  "Is4In6 (V4 _) = False"
| "Is4In6 (V6 b _) \<longleftrightarrow> take 12 b = replicate 10 0 @ [255, 255]"

fun Unmap :: "addr \<Rightarrow> addr" where
  "Unmap (V4 b) = V4 b"
| "Unmap (V6 b z) = (if Is4In6 (V6 b z) then V4 (drop 12 b) else V6 b z)"

text \<open>Go compares strings byte by byte.\<close>

fun str_less :: "string \<Rightarrow> string \<Rightarrow> bool" where
  "str_less _ [] = False"
| "str_less [] (_ # _) = True"
| "str_less (c # cs) (d # ds) = (if ord c = ord d then str_less cs ds else ord c < ord d)"

definition addr_Compare :: "addr \<Rightarrow> addr \<Rightarrow> int" where
  "addr_Compare a b =
    (if BitLen a < BitLen b then - 1
     else if BitLen a > BitLen b then 1
     else if addr_val a < addr_val b then - 1
     else if addr_val a > addr_val b then 1
     else if str_less (addr_zone a) (addr_zone b) then - 1
     else if str_less (addr_zone b) (addr_zone a) then 1
     else 0)"

definition addr_Less :: "addr \<Rightarrow> addr \<Rightarrow> bool" where
  "addr_Less a b \<longleftrightarrow> addr_Compare a b = - 1"

record Prefix =
  pfAddr :: addr
  bitsPlusOne :: nat

definition PrefixFrom :: "addr \<Rightarrow> int \<Rightarrow> Prefix" where
  "PrefixFrom ip bits =
    \<lparr>pfAddr = WithoutZone ip, bitsPlusOne = (if 0 \<le> bits \<and> bits \<le> int (BitLen ip) then nat bits + 1 else 0)\<rparr>"

definition Prefix_IsValid :: "Prefix \<Rightarrow> bool" where
  "Prefix_IsValid p \<longleftrightarrow> bitsPlusOne p > 0"

abbreviation pfBits :: "Prefix \<Rightarrow> nat" where
  "pfBits p \<equiv> bitsPlusOne p - 1"

definition topMask :: "nat \<Rightarrow> nat \<Rightarrow> nat" where
  "topMask W n = (2 ^ n - 1) * 2 ^ (W - n)"

fun maskAddr :: "nat \<Rightarrow> addr \<Rightarrow> addr" where
  "maskAddr n (V4 b) = V4 (be_put 4 (be_nat b AND topMask 32 n))"
| "maskAddr n (V6 b z) = V6 (be_put 16 (be_nat b AND topMask 128 n)) z"

definition Masked :: "Prefix \<Rightarrow> Prefix" where
  "Masked p = p\<lparr>pfAddr := maskAddr (pfBits p) (pfAddr p)\<rparr>"

definition Prefix_Contains :: "Prefix \<Rightarrow> addr \<Rightarrow> bool" where
  "Prefix_Contains p ip =
    (if \<not> Prefix_IsValid p \<or> addr_zone ip \<noteq> [] then False
     else if BitLen (pfAddr p) \<noteq> BitLen ip then False
     else if BitLen ip = 32 then drop_bit (32 - pfBits p) (addr_val ip XOR addr_val (pfAddr p)) = 0
     else (addr_val ip XOR addr_val (pfAddr p)) AND topMask 128 (pfBits p) = 0)"

definition ParsePrefix :: "string \<Rightarrow> Prefix option" where
  "ParsePrefix s =
    (case LastIndexByte (CHR ''/'') s of
       None \<Rightarrow> None
     | Some i \<Rightarrow>
       (case ParseAddr (take i s) of
          None \<Rightarrow> None
        | Some ip \<Rightarrow>
          if addr_zone ip \<noteq> [] then None
          else
            (let bitsStr = drop (i + 1) s in
             if length bitsStr > 1 \<and> (ord (hd bitsStr) < 49 \<or> ord (hd bitsStr) > 57) then None
             else
               (case Atoi bitsStr of
                  None \<Rightarrow> None
                | Some bits \<Rightarrow> if bits < 0 \<or> bits > int (BitLen ip) then None else Some (PrefixFrom ip bits)))))"

text \<open>The address classes.\<close>

fun class_of_bytes :: "(bytes \<Rightarrow> bool) \<Rightarrow> (bytes \<Rightarrow> bool) \<Rightarrow> addr \<Rightarrow> bool" where
  "class_of_bytes P Q (V4 b) = P b"
| "class_of_bytes P Q (V6 b _) = Q b"

definition IsPrivate :: "addr \<Rightarrow> bool" where
  "IsPrivate ip = class_of_bytes
    (\<lambda>b. b ! 0 = 10 \<or> (b ! 0 = 172 \<and> b ! 1 AND 0xf0 = 16) \<or> (b ! 0 = 192 \<and> b ! 1 = 168))
    (\<lambda>b. b ! 0 AND 0xfe = 0xfc) (Unmap ip)"

definition IsLoopback :: "addr \<Rightarrow> bool" where
  "IsLoopback ip = class_of_bytes (\<lambda>b. b ! 0 = 127) (\<lambda>b. b = replicate 15 0 @ [1]) (Unmap ip)"

definition IsMulticast :: "addr \<Rightarrow> bool" where
  "IsMulticast ip = class_of_bytes (\<lambda>b. b ! 0 AND 0xf0 = 0xe0) (\<lambda>b. b ! 0 = 0xff) (Unmap ip)"

definition IsLinkLocalUnicast :: "addr \<Rightarrow> bool" where
  "IsLinkLocalUnicast ip = class_of_bytes (\<lambda>b. b ! 0 = 169 \<and> b ! 1 = 254)
    (\<lambda>b. b ! 0 = 0xfe \<and> b ! 1 AND 0xc0 = 0x80) (Unmap ip)"

definition IsUnspecified :: "addr \<Rightarrow> bool" where
  "IsUnspecified ip \<longleftrightarrow> ip = V4 (replicate 4 0) \<or> ip = V6 (replicate 16 0) []"

section \<open>Lemmas\<close>

fun addr_wf :: "addr \<Rightarrow> bool" where
  "addr_wf (V4 b) \<longleftrightarrow> length b = 4"
| "addr_wf (V6 b _) \<longleftrightarrow> length b = 16"

lemma AddrFromSlice_wf: "AddrFromSlice b = Some a \<Longrightarrow> addr_wf a"
  by (auto simp: AddrFromSlice_def split: if_splits)

lemma addr_val_less: "addr_wf a \<Longrightarrow> addr_val a < 2 ^ BitLen a"
proof (cases a)
  case (V4 b)
  moreover assume "addr_wf a"
  ultimately show ?thesis using be_nat_less [of b] by simp
next
  case (V6 b z)
  moreover assume "addr_wf a"
  ultimately show ?thesis using be_nat_less [of b] by simp
qed

lemma and_topMask:
  fixes x :: nat
  assumes "x < 2 ^ W" "n \<le> W"
  shows "x AND topMask W n = push_bit (W - n) (drop_bit (W - n) x)"
proof (rule bit_eqI)
  fix i
  have tm: "topMask W n = push_bit (W - n) (mask n)"
    by (simp add: topMask_def push_bit_eq_mult mask_eq_exp_minus_1)
  have "take_bit W x = x" using assms(1) by (simp add: take_bit_nat_eq_self)
  then have hi: "\<not> bit x i" if "W \<le> i" using that by (metis bit_take_bit_iff not_less)
  show "bit (x AND topMask W n) i = bit (push_bit (W - n) (drop_bit (W - n) x)) i"
  proof (cases "i < W")
    case True
    then show ?thesis
      unfolding tm using assms(2) by (auto simp: bit_and_iff bit_push_bit_iff bit_mask_iff bit_drop_bit_eq less_diff_conv)
  next
    case False
    then show ?thesis using hi assms(2) by (auto simp: bit_and_iff bit_push_bit_iff bit_drop_bit_eq)
  qed
qed

lemma push_drop_le: "push_bit k (drop_bit k x) \<le> (x :: nat)"
  by (simp add: push_bit_eq_mult drop_bit_eq_div)

lemma xor_zero_iff: "(a :: nat) XOR b = 0 \<longleftrightarrow> a = b"
  by (metis xor.assoc xor.left_neutral xor.right_neutral xor_self_eq)

lemma xor_less: "(x :: nat) < 2 ^ W \<Longrightarrow> y < 2 ^ W \<Longrightarrow> x XOR y < 2 ^ W"
  by (metis take_bit_nat_eq_self take_bit_nat_less_exp take_bit_xor)

definition prefix_wf :: "Prefix \<Rightarrow> bool" where
  "prefix_wf p \<longleftrightarrow> addr_wf (pfAddr p) \<and> addr_zone (pfAddr p) = [] \<and> pfBits p \<le> BitLen (pfAddr p) \<and> Prefix_IsValid p"

text \<open>A prefix contains the addresses of its family, without a zone, that share its leading bits.\<close>

lemma Prefix_Contains_iff:
  assumes "prefix_wf p" "addr_wf ip"
  shows "Prefix_Contains p ip \<longleftrightarrow> addr_zone ip = [] \<and> BitLen (pfAddr p) = BitLen ip \<and>
    drop_bit (BitLen ip - pfBits p) (addr_val ip) = drop_bit (BitLen ip - pfBits p) (addr_val (pfAddr p))"
proof (cases "BitLen (pfAddr p) = BitLen ip")
  case True
  let ?x = "addr_val ip" and ?y = "addr_val (pfAddr p)" and ?n = "pfBits p"
  have v: "Prefix_IsValid p" "?n \<le> BitLen ip" using assms(1) True by (simp_all add: prefix_wf_def)
  have "?x XOR ?y < 2 ^ BitLen ip"
    using addr_val_less [OF assms(2)] addr_val_less [of "pfAddr p"] assms(1) True by (intro xor_less) (simp_all add: prefix_wf_def)
  then have "(?x XOR ?y) AND topMask (BitLen ip) ?n = 0 \<longleftrightarrow> drop_bit (BitLen ip - ?n) (?x XOR ?y) = 0"
    using v(2) and_topMask [of "?x XOR ?y"] push_bit_eq_mult [of "BitLen ip - ?n" "drop_bit (BitLen ip - ?n) (?x XOR ?y)"]
    by (simp del: drop_bit_xor push_bit_xor)
  moreover have "BitLen ip = 32 \<or> BitLen ip = 128" by (cases ip) simp_all
  ultimately show ?thesis using True v(1) by (auto simp: Prefix_Contains_def xor_zero_iff)
qed (simp add: Prefix_Contains_def)

lemma and_le: "(x :: nat) AND y \<le> x"
proof -
  have "int (x AND y) \<le> int x" by (simp add: of_nat_and_eq)
  then show ?thesis by simp
qed

lemma be_nat_be_put_and:
  "length b = k \<Longrightarrow> be_nat (be_put k (be_nat b AND m)) = be_nat b AND m"
proof -
  assume "length b = k"
  then have "be_nat b < 256 ^ k" using be_nat_less by blast
  then have "be_nat b AND m < 256 ^ k" using and_le le_less_trans by blast
  then show ?thesis by (simp add: be_nat_be_put)
qed

lemma maskAddr_props:
  assumes "addr_wf a"
  shows "addr_wf (maskAddr n a)" "BitLen (maskAddr n a) = BitLen a" "addr_zone (maskAddr n a) = addr_zone a"
    "addr_val (maskAddr n a) = addr_val a AND topMask (BitLen a) n"
  using assms by (cases a; simp add: be_nat_be_put_and)+

text \<open>The masked prefix starts at or before every address it contains.\<close>

lemma Masked_wf: "prefix_wf p \<Longrightarrow> prefix_wf (Masked p)"
  by (simp add: prefix_wf_def Masked_def maskAddr_props Prefix_IsValid_def)

lemma Masked_start_le:
  assumes "prefix_wf p" "addr_wf ip" "Prefix_Contains (Masked p) ip"
  shows "addr_val (pfAddr (Masked p)) \<le> addr_val ip \<and> BitLen (pfAddr (Masked p)) = BitLen ip"
proof -
  let ?q = "Masked p" and ?k = "BitLen ip - pfBits p"
  have w: "addr_wf (pfAddr p)" "pfBits p \<le> BitLen (pfAddr p)" using assms(1) by (simp_all add: prefix_wf_def)
  have b: "pfBits ?q = pfBits p" "BitLen (pfAddr ?q) = BitLen (pfAddr p)" by (simp_all add: Masked_def maskAddr_props w)
  note c = assms(3) [unfolded Prefix_Contains_iff [OF Masked_wf [OF assms(1)] assms(2)] b]
  have "addr_val (pfAddr ?q) = push_bit ?k (drop_bit ?k (addr_val (pfAddr p)))"
    using and_topMask [OF addr_val_less [OF w(1)] w(2)] c by (simp add: Masked_def maskAddr_props w)
  then have "addr_val (pfAddr ?q) = push_bit ?k (drop_bit ?k (addr_val (pfAddr ?q)))"
    by (simp add: drop_bit_push_bit)
  also have "\<dots> = push_bit ?k (drop_bit ?k (addr_val ip))" using c by simp
  also have "\<dots> \<le> addr_val ip" by (rule push_drop_le)
  finally show ?thesis using c b by simp
qed

lemma Masked_Contains:
  assumes "prefix_wf p" "addr_wf ip"
  shows "Prefix_Contains (Masked p) ip \<longleftrightarrow> Prefix_Contains p ip"
proof -
  have w: "addr_wf (pfAddr p)" "pfBits p \<le> BitLen (pfAddr p)" using assms(1) by (simp_all add: prefix_wf_def)
  have a: "pfAddr (Masked p) = maskAddr (pfBits p) (pfAddr p)" "bitsPlusOne (Masked p) = bitsPlusOne p"
    by (simp_all add: Masked_def)
  have q: "pfBits (Masked p) = pfBits p" "BitLen (pfAddr (Masked p)) = BitLen (pfAddr p)"
    "addr_val (pfAddr (Masked p)) =
      push_bit (BitLen (pfAddr p) - pfBits p) (drop_bit (BitLen (pfAddr p) - pfBits p) (addr_val (pfAddr p)))"
    using maskAddr_props [OF w(1), of "pfBits p"] and_topMask [OF addr_val_less [OF w(1)] w(2)] a by (simp_all only:)
  have d: "drop_bit k (push_bit k z) = z" for k and z :: nat by (simp add: drop_bit_push_bit)
  show ?thesis
    unfolding Prefix_Contains_iff [OF assms] Prefix_Contains_iff [OF Masked_wf [OF assms(1)] assms(2)] q
    by (cases "BitLen (pfAddr p) = BitLen ip") (simp_all only: d simp_thms)
qed

end
