(* ===== verification/Policy.thy ===== *)
theory Policy
  imports Netaddr Go_Netip
begin

text \<open>
  Server-side access control (\<open>internal/app/policy.go\<close>): the lists of CIDRs and host patterns the
  operator configures, their parsing and validation, and the decision \<open>Allows\<close> for a target, with
  the parts of Go's \<open>net\<close> package it rests on (\<open>ParseCIDR\<close>, \<open>CIDRMask\<close>, \<open>IPNet.Contains\<close>).
\<close>

section \<open>CIDR blocks\<close>

record IPNet =
  netIP :: bytes
  netMask :: bytes

text \<open>\<open>net.CIDRMask\<close>: \<open>l\<close> bytes, of which the first \<open>n\<close> bits are set.\<close>

fun cidrLoop :: "nat \<Rightarrow> nat \<Rightarrow> bytes" where
  "cidrLoop 0 n = []"
| "cidrLoop (Suc l) n = (if n \<ge> 8 then 255 # cidrLoop l (n - 8) else NOT (drop_bit n 255) # cidrLoop l 0)"

definition CIDRMask :: "nat \<Rightarrow> nat \<Rightarrow> bytes" where
  "CIDRMask ones bits = cidrLoop (bits div 8) ones"

definition IP_Mask :: "bytes \<Rightarrow> bytes \<Rightarrow> bytes" where
  "IP_Mask ip msk =
    (let ip = (if length msk = 4 \<and> length ip = 16 \<and> take 12 ip = replicate 10 0 @ [255, 255] then drop 12 ip else ip) in
     if length ip \<noteq> length msk then [] else map2 (AND) ip msk)"

definition As16 :: "addr \<Rightarrow> bytes" where
  "As16 a = (case a of V4 b \<Rightarrow> v4_mapped b | V6 b _ \<Rightarrow> b)"

definition dtoi :: "string \<Rightarrow> nat option" where
  "dtoi s = (if s = [] \<or> \<not> list_all isDigit s \<or> digits_value s \<ge> 0xFFFFFF then None else Some (digits_value s))"

definition ParseCIDR :: "string \<Rightarrow> IPNet option" where
  "ParseCIDR s =
    (case Cut (CHR ''/'') s of
       None \<Rightarrow> None
     | Some (addr, msk) \<Rightarrow>
         (case ParseAddr addr of
            None \<Rightarrow> None
          | Some ipAddr \<Rightarrow>
              if (case ipAddr of V4 _ \<Rightarrow> False | V6 _ zone \<Rightarrow> zone \<noteq> []) then None
              else
                (case dtoi msk of
                   None \<Rightarrow> None
                 | Some n \<Rightarrow>
                     if n > BitLen ipAddr then None
                     else
                       (let m = CIDRMask n (BitLen ipAddr) in
                        Some \<lparr>netIP = IP_Mask (As16 ipAddr) m, netMask = m\<rparr>))))"

definition networkNumberAndMask :: "IPNet \<Rightarrow> (bytes \<times> bytes) option" where
  "networkNumberAndMask n =
    (case (case To4 (netIP n) of Some ip \<Rightarrow> Some ip | None \<Rightarrow> if length (netIP n) \<noteq> 16 then None else Some (netIP n)) of
       None \<Rightarrow> None
     | Some ip \<Rightarrow>
         (let m = netMask n in
          if length m = 4 then (if length ip \<noteq> 4 then None else Some (ip, m))
          else if length m = 16 then Some (ip, if length ip = 4 then drop 12 m else m)
          else None))"

definition IPNet_Contains :: "IPNet \<Rightarrow> bytes \<Rightarrow> bool" where
  "IPNet_Contains n ip0 =
    (case networkNumberAndMask n of
       None \<Rightarrow> (case To4 ip0 of Some x \<Rightarrow> length x = 0 | None \<Rightarrow> length ip0 = 0)
     | Some (nn, m) \<Rightarrow>
         (let ip = (case To4 ip0 of Some x \<Rightarrow> x | None \<Rightarrow> ip0) in
          length ip = length nn \<and> map2 (AND) nn m = map2 (AND) ip m))"

section \<open>Lists in the configuration\<close>

record TargetPolicy =
  Allow :: "IPNet list"
  Deny :: "IPNet list"
  AllowHosts :: "string list"
  DenyHosts :: "string list"

fun cidrItems :: "unicode_lib \<Rightarrow> string list \<Rightarrow> IPNet list result" where
  "cidrItems U [] = Inr []"
| "cidrItems U (part # parts) =
    (let item = TrimSpace U part in
     if item = [] then cidrItems U parts
     else
       (case ParseCIDR item of
          None \<Rightarrow> Inl (Errorf ''invalid CIDR'')
        | Some n \<Rightarrow> rbind (cidrItems U parts) (\<lambda>nets. Inr (n # nets))))"

definition parseCIDRList :: "unicode_lib \<Rightarrow> string \<Rightarrow> IPNet list result" where
  "parseCIDRList U raw = (if TrimSpace U raw = [] then Inr [] else cidrItems U (Split (CHR '','') raw))"

fun sourceItems :: "unicode_lib \<Rightarrow> string list \<Rightarrow> IPNet list result" where
  "sourceItems U [] = Inr []"
| "sourceItems U (part # parts) =
    (let item = TrimSpace U part in
     if item = [] then Inl (Errorf ''empty CIDR'')
     else
       (case ParseCIDR item of
          None \<Rightarrow> Inl (Errorf ''invalid CIDR'')
        | Some n \<Rightarrow> rbind (sourceItems U parts) (\<lambda>nets. Inr (n # nets))))"

definition parseSourceCIDRs :: "unicode_lib \<Rightarrow> string \<Rightarrow> IPNet list result" where
  "parseSourceCIDRs U raw =
    (if TrimSpace U raw = [] then Inl (Errorf ''at least one CIDR is required'')
     else sourceItems U (Split (CHR '','') raw))"

definition validateHostPattern :: "unicode_lib \<Rightarrow> string \<Rightarrow> go_error option" where
  "validateHostPattern U pattern0 =
    (if CHR '':'' \<in> set pattern0 then Some (Errorf ''pattern with port'')
     else if CHR ''*'' \<in> set pattern0 \<and> (\<not> HasPrefix pattern0 ''*.'' \<or> count_list pattern0 (CHR ''*'') \<noteq> 1)
     then Some (Errorf ''only the prefix wildcard is supported'')
     else
       (let pattern = (if CHR ''*'' \<in> set pattern0 then TrimPrefix pattern0 ''*.'' else pattern0) in
        if ParseIP pattern \<noteq> None then Some (Errorf ''pattern is an IP address'')
        else if \<not> ValidHostname U pattern then Some (Errorf ''pattern is not a host name'')
        else None))"

fun patternItems :: "unicode_lib \<Rightarrow> string list \<Rightarrow> string list result" where
  "patternItems U [] = Inr []"
| "patternItems U (part # parts) =
    (let item = NormalizeTargetHost U part in
     if item = [] then patternItems U parts
     else
       (case validateHostPattern U item of
          Some e \<Rightarrow> Inl e
        | None \<Rightarrow> rbind (patternItems U parts) (\<lambda>ps. Inr (item # ps))))"

definition parseHostPatternList :: "unicode_lib \<Rightarrow> string \<Rightarrow> string list result" where
  "parseHostPatternList U raw = (if TrimSpace U raw = [] then Inr [] else patternItems U (Split (CHR '','') raw))"

definition parseTargetPolicy :: "unicode_lib \<Rightarrow> string \<Rightarrow> string \<Rightarrow> string \<Rightarrow> string \<Rightarrow> TargetPolicy result" where
  "parseTargetPolicy U allowRaw denyRaw allowHostRaw denyHostRaw =
    rbind (parseCIDRList U allowRaw) (\<lambda>allow.
    rbind (parseCIDRList U denyRaw) (\<lambda>deny.
    rbind (parseHostPatternList U allowHostRaw) (\<lambda>allowHosts.
    rbind (parseHostPatternList U denyHostRaw) (\<lambda>denyHosts.
      Inr \<lparr>Allow = allow, Deny = deny, AllowHosts = allowHosts, DenyHosts = denyHosts\<rparr>))))"

section \<open>IP strategy\<close>

definition IPStrategyDefault :: byte where "IPStrategyDefault = 0"
definition IPStrategyIPv4Only :: byte where "IPStrategyIPv4Only = 1"
definition IPStrategyIPv6Only :: byte where "IPStrategyIPv6Only = 2"
definition IPStrategyPv4Pv6 :: byte where "IPStrategyPv4Pv6 = 3"
definition IPStrategyPv6Pv4 :: byte where "IPStrategyPv6Pv4 = 4"

definition parseIPStrategyStrict :: "unicode_lib \<Rightarrow> string \<Rightarrow> byte result" where
  "parseIPStrategyStrict U s0 =
    (let s = filter (\<lambda>c. c \<noteq> CHR '' '') (TrimSpace U s0) in
     if s = [] then Inr IPStrategyDefault
     else if s = ''4'' then Inr IPStrategyIPv4Only
     else if s = ''6'' then Inr IPStrategyIPv6Only
     else if s = ''4,6'' then Inr IPStrategyPv4Pv6
     else if s = ''6,4'' then Inr IPStrategyPv6Pv4
     else Inl (Errorf ''unsupported IP strategy''))"

definition parseIPStrategy :: "unicode_lib \<Rightarrow> string \<Rightarrow> byte" where
  "parseIPStrategy U s = (case parseIPStrategyStrict U s of Inl _ \<Rightarrow> IPStrategyDefault | Inr st \<Rightarrow> st)"

definition validateIPStrategyValue :: "byte \<Rightarrow> bool" where
  "validateIPStrategyValue strategy \<longleftrightarrow> strategy \<in>
    {IPStrategyDefault, IPStrategyIPv4Only, IPStrategyIPv6Only, IPStrategyPv4Pv6, IPStrategyPv6Pv4}"

section \<open>The decision\<close>

definition hostPatternMatches :: "string \<Rightarrow> string \<Rightarrow> bool" where
  "hostPatternMatches pattern host =
    (if HasPrefix pattern ''*.'' then HasSuffix host (CHR ''.'' # TrimPrefix pattern ''*.'') else host = pattern)"

text \<open>A nil policy is \<open>None\<close>. The reason text is not modelled; \<open>Allows\<close> is its first result.\<close>

definition Allows :: "unicode_lib \<Rightarrow> TargetPolicy option \<Rightarrow> string \<Rightarrow> bool" where
  "Allows U policy target =
    (case policy of
       None \<Rightarrow> True
     | Some p \<Rightarrow>
         if Allow p = [] \<and> Deny p = [] \<and> AllowHosts p = [] \<and> DenyHosts p = [] then True
         else
           (case SplitHostPort target of
              Inl _ \<Rightarrow> False
            | Inr (host0, _) \<Rightarrow>
                (let host = NormalizeTargetHost U host0 in
                 case ParseIP host of
                   None \<Rightarrow>
                     if list_ex (\<lambda>pat. hostPatternMatches pat host) (DenyHosts p) then False
                     else if AllowHosts p = [] then (if Allow p \<noteq> [] then False else True)
                     else list_ex (\<lambda>pat. hostPatternMatches pat host) (AllowHosts p)
                 | Some ip \<Rightarrow>
                     if list_ex (\<lambda>n. IPNet_Contains n ip) (Deny p) then False
                     else if Allow p = [] then (if AllowHosts p \<noteq> [] then False else True)
                     else list_ex (\<lambda>n. IPNet_Contains n ip) (Allow p))))"

definition ensureTargetAllowed :: "unicode_lib \<Rightarrow> TargetPolicy option \<Rightarrow> string \<Rightarrow> unit result" where
  "ensureTargetAllowed U policy target =
    (if Allows U policy target then Inr () else Inl (Errorf ''target not allowed''))"

definition validateSmuxStreamTarget :: "unicode_lib \<Rightarrow> string \<Rightarrow> unit result" where
  "validateSmuxStreamTarget U target =
    (case ValidateHostPort U target of Inl _ \<Rightarrow> Inl (Errorf ''invalid target'') | Inr u \<Rightarrow> Inr u)"

section \<open>Lemmas on masks\<close>

lemma mask_8: "(255 :: byte) = mask 8"
  by (simp add: mask_eq_exp_minus_1)

lemma bit_255: "bit (255 :: byte) j \<longleftrightarrow> j < 8"
  unfolding mask_8 bit_mask_iff by auto

lemma and_255: "(x :: byte) AND 255 = x"
  unfolding mask_8 take_bit_eq_mask [symmetric] by (rule take_bit_word_eq_self) simp

lemma neg_256: "(- 256 :: byte) = 0"
  by simp

lemma byte_mask_eq:
  fixes x y :: byte
  assumes "n < 8"
  shows "x AND NOT (drop_bit n 255) = y AND NOT (drop_bit n 255) \<longleftrightarrow> drop_bit (8 - n) x = drop_bit (8 - n) y"
proof -
  have b: "bit (NOT (drop_bit n 255) :: byte) i \<longleftrightarrow> 8 - n \<le> i" if "i < 8" for i
    unfolding bit_not_iff bit_drop_bit_eq comp_def bit_255 using that assms by auto
  show ?thesis
  proof
    assume *: "x AND NOT (drop_bit n 255) = y AND NOT (drop_bit n 255)"
    show "drop_bit (8 - n) x = drop_bit (8 - n) y"
    proof (rule bit_word_eqI)
      fix i :: nat
      assume "i < LENGTH(8)"
      show "bit (drop_bit (8 - n) x) i = bit (drop_bit (8 - n) y) i"
      proof (cases "8 - n + i < 8")
        case True
        have "bit (x AND NOT (drop_bit n 255)) (8 - n + i) = bit (y AND NOT (drop_bit n 255)) (8 - n + i)" using * by simp
        with b [OF True] show ?thesis by (simp add: bit_and_iff bit_drop_bit_eq)
      next
        case False
        then show ?thesis by (auto simp: bit_drop_bit_eq dest!: bit_imp_le_length)
      qed
    qed
  next
    assume *: "drop_bit (8 - n) x = drop_bit (8 - n) y"
    show "x AND NOT (drop_bit n 255) = y AND NOT (drop_bit n 255)"
    proof (rule bit_word_eqI)
      fix i :: nat
      assume "i < LENGTH(8)"
      then have i: "i < 8" by simp
      show "bit (x AND NOT (drop_bit n 255)) i = bit (y AND NOT (drop_bit n 255)) i"
      proof (cases "8 - n \<le> i")
        case True
        then obtain k where k: "i = 8 - n + k" by (metis le_Suc_ex)
        have "bit (drop_bit (8 - n) x) k = bit (drop_bit (8 - n) y) k" using * by simp
        then show ?thesis by (simp add: bit_and_iff bit_drop_bit_eq k)
      next
        case False
        with b [OF i] show ?thesis by (simp add: bit_and_iff)
      qed
    qed
  qed
qed

lemma length_cidrLoop [simp]: "length (cidrLoop l n) = l"
  by (induction l n rule: cidrLoop.induct) simp_all

lemma cidrLoop_0: "length a = l \<Longrightarrow> length b = l \<Longrightarrow> map2 (AND) a (cidrLoop l 0) = map2 (AND) b (cidrLoop l 0)"
proof (induction l arbitrary: a b)
  case (Suc l)
  obtain x xs y ys where "a = x # xs" "b = y # ys" "length xs = l" "length ys = l"
    using Suc.prems by (cases a; cases b) auto
  with Suc.IH [of xs ys] show ?case by (simp add: neg_256)
qed simp

lemma split_div_eq:
  fixes x y r s :: nat
  assumes "r < 2 ^ (e + d)" "s < 2 ^ (e + d)"
  shows "(x * 2 ^ (e + d) + r) div 2 ^ d = (y * 2 ^ (e + d) + s) div 2 ^ d \<longleftrightarrow> x = y \<and> r div 2 ^ d = s div 2 ^ d"
proof -
  have q: "(z * 2 ^ (e + d) + t) div 2 ^ d = z * 2 ^ e + t div 2 ^ d" for z t :: nat
    by (simp add: power_add mult.assoc [symmetric] div_mult_self3)
  have small: "t < 2 ^ (e + d) \<Longrightarrow> t div 2 ^ d < 2 ^ e" for t :: nat
    by (simp add: power_add less_mult_imp_div_less)
  have u: "z = w \<and> t = u" if e: "z * 2 ^ e + t = w * 2 ^ e + u" and lt: "t < 2 ^ e" "u < 2 ^ e" for z t w u :: nat
  proof -
    have "(z * 2 ^ e + t) div 2 ^ e = z" "(w * 2 ^ e + u) div 2 ^ e = w" using lt by simp_all
    with e show ?thesis by simp
  qed
  show ?thesis unfolding q using u [OF _ small [OF assms(1)] small [OF assms(2)], of x y] by auto
qed

text \<open>Masking byte by byte compares exactly the first \<open>n\<close> bits of the addresses.\<close>

lemma masked_eq_prefix:
  assumes "length a = l" "length b = l" "n \<le> 8 * l"
  shows "map2 (AND) a (cidrLoop l n) = map2 (AND) b (cidrLoop l n) \<longleftrightarrow>
    be_nat a div 2 ^ (8 * l - n) = be_nat b div 2 ^ (8 * l - n)"
  using assms
proof (induction l arbitrary: a b n)
  case (Suc l)
  obtain x xs y ys where ab: "a = x # xs" "b = y # ys" "length xs = l" "length ys = l"
    using Suc.prems(1,2) by (cases a; cases b) auto
  have pow: "256 ^ l = (2 :: nat) ^ (8 * l)" by (simp add: power_mult)
  have lt: "be_nat xs < 2 ^ (8 * l)" "be_nat ys < 2 ^ (8 * l)"
    using be_nat_less [of xs] be_nat_less [of ys] ab pow by simp_all
  show ?case
  proof (cases "n \<ge> 8")
    case True
    have d: "8 * Suc l - n = 8 * l - (n - 8)" and e: "8 * l = (n - 8) + (8 * l - (n - 8))" using True Suc.prems(3) by simp_all
    have "map2 (AND) xs (cidrLoop l (n - 8)) = map2 (AND) ys (cidrLoop l (n - 8)) \<longleftrightarrow>
        be_nat xs div 2 ^ (8 * l - (n - 8)) = be_nat ys div 2 ^ (8 * l - (n - 8))"
      using Suc.IH [of xs ys "n - 8"] ab Suc.prems(3) by simp
    moreover have "(unat x * 2 ^ (8 * l) + be_nat xs) div 2 ^ (8 * l - (n - 8)) =
        (unat y * 2 ^ (8 * l) + be_nat ys) div 2 ^ (8 * l - (n - 8)) \<longleftrightarrow>
        unat x = unat y \<and> be_nat xs div 2 ^ (8 * l - (n - 8)) = be_nat ys div 2 ^ (8 * l - (n - 8))"
      using lt split_div_eq [of "be_nat xs" "n - 8" "8 * l - (n - 8)" "be_nat ys" "unat x" "unat y"]
      unfolding e [symmetric] by blast
    moreover have "unat x = unat y \<longleftrightarrow> x = y" using unsigned_word_eqI by blast
    ultimately show ?thesis
      unfolding d ab be_nat.simps ab(3,4) pow using True by (simp add: and_255)
  next
    case False
    have d: "8 * Suc l - n = 8 * l + (8 - n)" using False by simp
    have q: "(unat z * 2 ^ (8 * l) + t) div 2 ^ (8 * l + (8 - n)) = unat (drop_bit (8 - n) z)"
      if "t < 2 ^ (8 * l)" for z :: byte and t
    proof -
      have "unat (drop_bit (8 - n) z) = unat z div 2 ^ (8 - n)" by (subst unat_drop_bit_eq) (simp add: drop_bit_eq_div)
      then show ?thesis using that by (simp add: power_add div_mult2_eq)
    qed
    show ?thesis
      unfolding d ab be_nat.simps ab(3,4) pow q [OF lt(1)] q [OF lt(2)]
      using False byte_mask_eq [of n x y] cidrLoop_0 [OF ab(3,4)] unsigned_word_eqI [of "drop_bit (8 - n) x" "drop_bit (8 - n) y"]
      by auto
  qed
qed simp

text \<open>\<open>prefix_of\<close>: the first \<open>n\<close> of the \<open>8 * l\<close> bits of an address.\<close>

definition prefix_of :: "nat \<Rightarrow> bytes \<Rightarrow> nat" where
  "prefix_of n b = be_nat b div 2 ^ (8 * length b - n)"

lemma v4_mapped_simps [simp]:
  "length b = 4 \<Longrightarrow> length (v4_mapped b) = 16" "length b = 4 \<Longrightarrow> To4 (v4_mapped b) = Some b"
  by (simp_all add: v4_mapped_def To4_def)

lemma map2_and_idem: "length a = length m \<Longrightarrow> map2 (AND) (map2 (AND) a m) m = map2 (AND) a (m :: bytes)"
  by (induction a m rule: list_induct2) (simp_all add: and.assoc)

lemma To4_idem: "length b = 4 \<Longrightarrow> To4 b = Some b"
  by (simp add: To4_def)

lemma ParseCIDR_v4:
  assumes "ParseAddr s = Some (V4 b)" "length b = 4" "dtoi t = Some n" "n \<le> 32" "CHR ''/'' \<notin> set s"
  shows "ParseCIDR (s @ ''/'' @ t) = Some \<lparr>netIP = map2 (AND) b (cidrLoop 4 n), netMask = cidrLoop 4 n\<rparr>"
  using assms by (simp add: ParseCIDR_def Cut_def As16_def CIDRMask_def IP_Mask_def v4_mapped_def Let_def)

lemma IPNet_Contains_v4:
  assumes "length b = 4" "n \<le> 32" "length ip = 16 \<or> length ip = 4"
  shows "IPNet_Contains \<lparr>netIP = map2 (AND) b (cidrLoop 4 n), netMask = cidrLoop 4 n\<rparr> ip \<longleftrightarrow>
    (\<exists>x. To4 ip = Some x \<and> prefix_of n x = prefix_of n b)"
proof (cases "To4 ip")
  case None
  then have "length ip = 16" using assms(3) by (auto simp: To4_def)
  with None assms(1) show ?thesis by (simp add: IPNet_Contains_def networkNumberAndMask_def To4_idem Let_def)
next
  case (Some x)
  have l: "length x = 4" by (rule To4_length [OF Some])
  have "map2 (AND) b (cidrLoop 4 n) = map2 (AND) x (cidrLoop 4 n) \<longleftrightarrow> prefix_of n x = prefix_of n b"
    using masked_eq_prefix [of b 4 x n] assms(1,2) l by (auto simp: prefix_of_def)
  with Some l assms(1) show ?thesis
    by (simp add: IPNet_Contains_def networkNumberAndMask_def To4_idem map2_and_idem Let_def)
qed

section \<open>Lemmas on host patterns\<close>

lemma HasSuffix_iff: "HasSuffix s p \<longleftrightarrow> (\<exists>pre. s = pre @ p)"
proof
  assume "HasSuffix s p"
  then have "s = take (length s - length p) s @ p" by (metis HasSuffix_def append_take_drop_id)
  then show "\<exists>pre. s = pre @ p" by blast
qed (auto simp: HasSuffix_def)

lemma HasPrefix_iff: "HasPrefix s p \<longleftrightarrow> (\<exists>post. s = p @ post)"
  by (metis HasPrefix_def append_take_drop_id append_eq_conv_conj)

lemma ValidHostname_nonempty: "ValidHostname U h \<Longrightarrow> h \<noteq> []"
  by (auto simp: ValidHostname_def TrimSuffix_def HasSuffix_def ToLower_def Let_def)

lemma patternItems_valid: "patternItems U parts = Inr ps \<Longrightarrow> list_all (\<lambda>p. validateHostPattern U p = None) ps"
  by (induction parts arbitrary: ps) (auto simp: Let_def rbind_eq_Inr split: if_splits option.splits)

section \<open>Properties\<close>

text \<open>
  The access decision: with no rules everything is allowed. Otherwise a target that is not
  \<open>host:port\<close> is denied; a deny rule of the target's kind (host pattern for a name, CIDR for an
  address) always wins; then, when allow rules of that kind exist, one of them must match, and when
  only allow rules of the other kind exist the target is denied.
\<close>

lemma Allows_decision:
  "Allows U (Some p) target \<longleftrightarrow>
    p = \<lparr>Allow = [], Deny = [], AllowHosts = [], DenyHosts = []\<rparr> \<or>
    (\<exists>host port. SplitHostPort target = Inr (host, port) \<and>
      (case ParseIP (NormalizeTargetHost U host) of
         None \<Rightarrow>
           (\<forall>pat\<in>set (DenyHosts p). \<not> hostPatternMatches pat (NormalizeTargetHost U host)) \<and>
           ((AllowHosts p = [] \<and> Allow p = []) \<or>
            (\<exists>pat\<in>set (AllowHosts p). hostPatternMatches pat (NormalizeTargetHost U host)))
       | Some ip \<Rightarrow>
           (\<forall>n\<in>set (Deny p). \<not> IPNet_Contains n ip) \<and>
           ((Allow p = [] \<and> AllowHosts p = []) \<or> (\<exists>n\<in>set (Allow p). IPNet_Contains n ip))))"
proof -
  have e: "p = \<lparr>Allow = [], Deny = [], AllowHosts = [], DenyHosts = []\<rparr> \<longleftrightarrow>
      Allow p = [] \<and> Deny p = [] \<and> AllowHosts p = [] \<and> DenyHosts p = []" by (cases p) auto
  show ?thesis
    unfolding e Allows_def by (auto simp: Let_def list_ex_iff split: sum.split option.split)
qed

theorem Allows_decision_witness:
  "\<not> Allows \<lparr>uc_ToLower = id, uc_ToUpper = id, uc_TrimSpace = id, uc_TrimRightSpace = id\<rparr>
     (Some \<lparr>Allow = [], Deny = [], AllowHosts = [''*.ok''], DenyHosts = [''bad'']\<rparr>) ''nocolon''"
  using Allows_decision [of "\<lparr>uc_ToLower = id, uc_ToUpper = id, uc_TrimSpace = id, uc_TrimRightSpace = id\<rparr>"
      "\<lparr>Allow = [], Deny = [], AllowHosts = [''*.ok''], DenyHosts = [''bad'']\<rparr>" "''nocolon''"]
  by (simp add: SplitHostPort_def LastIndexByte_def)

text \<open>
  A configured IPv4 block \<open>a.b.c.d/n\<close> contains exactly the addresses that agree with it in the
  first \<open>n\<close> bits: the byte-wise masks of \<open>ParseCIDR\<close> and \<open>IPNet.Contains\<close> compute the bit prefix, for
  plain and for IPv4-mapped addresses; IPv6 addresses are never inside.
\<close>

lemma cidr_contains_prefix:
  assumes "ParseAddr s = Some (V4 b)" "dtoi t = Some n" "n \<le> 32" "CHR ''/'' \<notin> set s" "length ip = 16 \<or> length ip = 4"
  shows "\<exists>net. ParseCIDR (s @ ''/'' @ t) = Some net \<and>
    (IPNet_Contains net ip \<longleftrightarrow> (\<exists>x. To4 ip = Some x \<and> prefix_of n x = prefix_of n b))"
proof -
  have "ParseIP s = Some (v4_mapped b)" using assms(1) by (simp add: ParseIP_def)
  then have l: "length b = 4" using ParseIP_length [of s "v4_mapped b"] by (simp add: v4_mapped_def)
  from ParseCIDR_v4 [OF assms(1) l assms(2-4)] IPNet_Contains_v4 [OF l assms(3,5)] show ?thesis by blast
qed

theorem cidr_contains_prefix_witness:
  "\<exists>net. ParseCIDR (''10.0.0.0'' @ ''/'' @ ''8'') = Some net \<and>
    (IPNet_Contains net [10, 1, 2, 3] \<longleftrightarrow> (\<exists>x. To4 [10, 1, 2, 3] = Some x \<and> prefix_of 8 x = prefix_of 8 [10, 0, 0, 0]))"
  by (rule cidr_contains_prefix)
    (simp_all add: ParseAddr_def parseIPv4_def dtoi_def digits_value_def isDigit_def Let_def)

text \<open>
  Every pattern that passes validation is a host name, matched literally, or \<open>*.\<close> before a
  host name, which matches the names below it and not the name itself.
\<close>

lemma host_pattern_semantics:
  assumes "parseHostPatternList U raw = Inr ps" "pat \<in> set ps"
  shows "(ValidHostname U pat \<and> (\<forall>host. hostPatternMatches pat host \<longleftrightarrow> host = pat)) \<or>
    (\<exists>suf. pat = ''*.'' @ suf \<and> ValidHostname U suf \<and> ParseIP suf = None \<and>
      (\<forall>host. hostPatternMatches pat host \<longleftrightarrow> (\<exists>pre. host = pre @ ''.'' @ suf)) \<and> \<not> hostPatternMatches pat suf)"
proof -
  have v: "validateHostPattern U pat = None"
    using assms patternItems_valid [of U "Split (CHR '','') raw" ps]
    by (auto simp: parseHostPatternList_def list_all_iff split: if_splits)
  show ?thesis
  proof (cases "CHR ''*'' \<in> set pat")
    case False
    then have "\<not> HasPrefix pat ''*.''" by (auto simp: HasPrefix_iff)
    with v False show ?thesis by (auto simp: validateHostPattern_def hostPatternMatches_def Let_def split: if_splits)
  next
    case True
    then obtain suf where s: "pat = ''*.'' @ suf"
      using v by (auto simp: validateHostPattern_def HasPrefix_iff split: if_splits)
    then have t: "TrimPrefix pat ''*.'' = suf" "HasPrefix pat ''*.''" by (simp_all add: TrimPrefix_def HasPrefix_iff)
    have "ValidHostname U suf" "ParseIP suf = None"
      using v True t by (auto simp: validateHostPattern_def Let_def split: if_splits)
    moreover have "hostPatternMatches pat host \<longleftrightarrow> (\<exists>pre. host = pre @ ''.'' @ suf)" for host
      using t by (simp add: hostPatternMatches_def HasSuffix_iff)
    moreover have "\<not> hostPatternMatches pat suf"
      using t by (auto simp: hostPatternMatches_def HasSuffix_def)
    ultimately show ?thesis using s by blast
  qed
qed

theorem host_pattern_semantics_witness:
  "let U = \<lparr>uc_ToLower = id, uc_ToUpper = id, uc_TrimSpace = id, uc_TrimRightSpace = id\<rparr> in
   parseHostPatternList U ''*.ok'' = Inr [''*.ok''] \<and>
   ((ValidHostname U ''*.ok'' \<and> (\<forall>host. hostPatternMatches ''*.ok'' host \<longleftrightarrow> host = ''*.ok'')) \<or>
    (\<exists>suf. ''*.ok'' = ''*.'' @ suf \<and> ValidHostname U suf \<and> ParseIP suf = None \<and>
      (\<forall>host. hostPatternMatches ''*.ok'' host \<longleftrightarrow> (\<exists>pre. host = pre @ ''.'' @ suf)) \<and> \<not> hostPatternMatches ''*.ok'' suf))"
proof -
  let ?U = "\<lparr>uc_ToLower = id, uc_ToUpper = id, uc_TrimSpace = id, uc_TrimRightSpace = id\<rparr>"
  have "parseHostPatternList ?U ''*.ok'' = Inr [''*.ok'']" by code_simp
  then show ?thesis using host_pattern_semantics [of ?U "''*.ok''" "[''*.ok'']" "''*.ok''"] by (simp add: Let_def)
qed

end
