(* ===== verification/Socks5.thy ===== *)
theory Socks5
  imports Datagram Policy Sni_Sniff Wire_Protocol
begin

text \<open>
  SOCKS5: the client's local proxy (\<open>internal/app/local_socks5.go\<close>), the address and UDP frame codec
  both sides share, and the server's dialer through an upstream SOCKS5 proxy
  (\<open>internal/app/upstream_socks5.go\<close>). A connection is the stream of bytes still to be read and the
  state of a writer; an operation returns both. What a finished request leads to (dialling, relaying)
  is a plan. Deadlines and the closing of connections are not modelled.
\<close>

section \<open>Addresses and UDP frames\<close>

definition port_of :: "byte \<Rightarrow> byte \<Rightarrow> nat" where
  "port_of a b = (unat a * 2 ^ 8) OR unat b"

definition port_bytes :: "int \<Rightarrow> bytes" where
  "port_bytes p = [word_of_int (p div 2 ^ 8), word_of_int p]"

definition parseSOCKS5AddrBytes :: "bytes \<Rightarrow> byte \<Rightarrow> nat \<Rightarrow> (string \<times> nat) result" where
  "parseSOCKS5AddrBytes packet atyp offset =
    (if atyp = 0x01 then
       (if offset + 4 > length packet then Inl (Errorf ''IPv4 address too short'')
        else Inr (IP_String (slice offset (offset + 4) packet), offset + 4))
     else if atyp = 0x03 then
       (if offset + 1 > length packet then Inl (Errorf ''domain length too short'')
        else
          (let l = unat (packet ! offset) in
           if l = 0 then Inl (Errorf ''empty domain'')
           else
             (let offset = offset + 1 in
              if offset + l > length packet then Inl (Errorf ''domain too short'')
              else Inr (str_of (slice offset (offset + l) packet), offset + l))))
     else if atyp = 0x04 then
       (if offset + 16 > length packet then Inl (Errorf ''IPv6 address too short'')
        else Inr (IP_String (slice offset (offset + 16) packet), offset + 16))
     else Inl (Errorf ''address type''))"

definition parseSOCKS5UDPFrameAddr :: "unicode_lib \<Rightarrow> bytes \<Rightarrow> (string \<times> nat) result" where
  "parseSOCKS5UDPFrameAddr U packet =
    (if length packet < 4 then Inl (Errorf ''packet too short'')
     else if packet ! 0 \<noteq> 0 \<or> packet ! 1 \<noteq> 0 \<or> packet ! 2 \<noteq> 0 then Inl (Errorf ''RSV or FRAG not 0'')
     else
       rbind (parseSOCKS5AddrBytes packet (packet ! 3) 4) (\<lambda>(host, offset).
         if offset + 2 > length packet then Inl (Errorf ''port too short'')
         else
           (let port = port_of (packet ! offset) (packet ! (offset + 1)) in
            if port = 0 then Inl (Errorf ''port range'')
            else
              (let offset = offset + 2; addr = JoinHostPort host (Itoa (int port)) in
               rbind (ValidateHostPort U addr) (\<lambda>_. Inr (addr, offset))))))"

definition parseSOCKS5UDPPacket :: "unicode_lib \<Rightarrow> bytes \<Rightarrow> (string \<times> bytes) result" where
  "parseSOCKS5UDPPacket U b =
    rbind (parseSOCKS5UDPFrameAddr U b) (\<lambda>(target, offset). Inr (target, drop offset b))"

definition parseSOCKS5UDPResp :: "unicode_lib \<Rightarrow> bytes \<Rightarrow> (string \<times> bytes) result" where
  "parseSOCKS5UDPResp U packet =
    rbind (parseSOCKS5UDPFrameAddr U packet) (\<lambda>(addr, offset). Inr (addr, drop offset packet))"

text \<open>\<open>net.ParseIP\<close> returns 16 bytes, so \<open>To16\<close> of its result is the result.\<close>

definition appendSOCKS5UDPAddr :: "bytes \<Rightarrow> string \<Rightarrow> int \<Rightarrow> bytes" where
  "appendSOCKS5UDPAddr buf h p =
    (let buf =
       (case ParseIP h of
          Some ip \<Rightarrow>
            (case To4 ip of Some ip4 \<Rightarrow> buf @ [0x01] @ ip4 | None \<Rightarrow> buf @ [0x04] @ ip)
        | None \<Rightarrow> buf @ [0x03, word_of_nat (length h)] @ bytes_of h)
     in buf @ port_bytes p)"

definition appendSOCKS5UDPAddrChecked :: "unicode_lib \<Rightarrow> bytes \<Rightarrow> string \<Rightarrow> int \<Rightarrow> bytes result" where
  "appendSOCKS5UDPAddrChecked U buf h p =
    (if h = [] then Inl (Errorf ''empty domain'')
     else if length h > 255 then Inl (Errorf ''domain too long'')
     else rbind (ValidateHostnameOrIP U h) (\<lambda>_. Inr (appendSOCKS5UDPAddr buf h p)))"

definition buildSOCKS5UDPPacket :: "unicode_lib \<Rightarrow> string \<Rightarrow> int \<Rightarrow> bytes \<Rightarrow> bytes result" where
  "buildSOCKS5UDPPacket U h p d =
    (if p \<le> 0 \<or> p > 65535 then Inl (Errorf ''port range'')
     else rbind (appendSOCKS5UDPAddrChecked U [0, 0, 0] h p) (\<lambda>buf. Inr (buf @ d)))"

record UDPAddr =
  uaIP :: bytes
  uaPort :: int

definition buildSOCKS5UDPPacketData :: "UDPAddr \<Rightarrow> bytes \<Rightarrow> bytes" where
  "buildSOCKS5UDPPacketData target d = appendSOCKS5UDPAddr [0, 0, 0] (IP_String (uaIP target)) (uaPort target) @ d"

section \<open>Configuration strings\<close>

definition cutAuth :: "unicode_lib \<Rightarrow> string \<Rightarrow> (string \<times> string \<times> string) result" where
  "cutAuth U full =
    (case Cut (CHR ''@'') full of
       None \<Rightarrow> Inr (full, [], [])
     | Some (auth, rest) \<Rightarrow>
         (let h = TrimSpace U rest in
          if auth = [] \<or> h = [] then Inl (Errorf ''user:pass@host:port expected'')
          else
            (case Cut (CHR '':'') auth of
               None \<Rightarrow> Inl (Errorf ''user:pass@host:port expected'')
             | Some (u, p) \<Rightarrow>
                 if u = [] \<or> p = [] then Inl (Errorf ''user and password must not be empty'')
                 else Inr (h, u, p))))"

definition parseAuthAndAddr :: "unicode_lib \<Rightarrow> string \<Rightarrow> (string \<times> string \<times> string) result" where
  "parseAuthAndAddr U full =
    rbind (cutAuth U full) (\<lambda>(h, u, p).
      if TrimSpace U h = [] then Inl (Errorf ''address must not be empty'') else Inr (h, u, p))"

record SOCKS5Config =
  s5Host :: string
  s5Username :: string
  s5Password :: string

definition validateSOCKS5AuthLength :: "string \<Rightarrow> string \<Rightarrow> unit result" where
  "validateSOCKS5AuthLength username password =
    (if length username > 255 \<or> length password > 255 then Inl (Errorf ''longer than 255 bytes'') else Inr ())"

definition parseSOCKS5Addr :: "unicode_lib \<Rightarrow> string \<Rightarrow> SOCKS5Config result" where
  "parseSOCKS5Addr U addr =
    (let addr = TrimPrefix addr ''socks5://'' in
     if CHR ''@'' \<in> set addr then
       rbind (cutAuth U addr) (\<lambda>(h, u, p).
         rbind (validateSOCKS5AuthLength u p) (\<lambda>_. Inr \<lparr>s5Host = h, s5Username = u, s5Password = p\<rparr>))
     else Inr \<lparr>s5Host = TrimSpace U addr, s5Username = [], s5Password = []\<rparr>)"

section \<open>Local server\<close>

record ProxyConfig =
  pcUsername :: string
  pcPassword :: string
  pcHost :: string

definition writeSOCKS5MethodSelection :: "'w io_writer \<Rightarrow> 'w \<Rightarrow> byte \<Rightarrow> go_error option \<times> 'w" where
  "writeSOCKS5MethodSelection W w m = writeAll W w [0x05, m]"

definition writeSOCKS5UserPassReply :: "'w io_writer \<Rightarrow> 'w \<Rightarrow> byte \<Rightarrow> go_error option \<times> 'w" where
  "writeSOCKS5UserPassReply W w status = writeAll W w [0x01, status]"

definition writeSOCKS5Reply :: "'w io_writer \<Rightarrow> 'w \<Rightarrow> byte \<Rightarrow> go_error option \<times> 'w" where
  "writeSOCKS5Reply W w status = writeAll W w [0x05, status, 0x00, 0x01, 0, 0, 0, 0, 0, 0]"

definition writeSOCKS5UDPAssociateReply :: "'w io_writer \<Rightarrow> 'w \<Rightarrow> UDPAddr option \<Rightarrow> go_error option \<times> 'w" where
  "writeSOCKS5UDPAssociateReply W w addr =
    (case addr of
       None \<Rightarrow> (Some (Errorf ''nil address''), w)
     | Some a \<Rightarrow>
         if uaPort a \<le> 0 \<or> uaPort a > 65535 then (Some (Errorf ''port range''), w)
         else
           (case To4 (uaIP a) of
              Some ip4 \<Rightarrow> writeAll W w ([0x05, 0x00, 0x00] @ [0x01] @ ip4 @ port_bytes (uaPort a))
            | None \<Rightarrow>
                if length (uaIP a) = 16
                then writeAll W w ([0x05, 0x00, 0x00] @ [0x04] @ uaIP a @ port_bytes (uaPort a))
                else (Some (Errorf ''invalid address''), w)))"

definition handleSOCKS5UserPassAuth ::
  "'w io_writer \<Rightarrow> ProxyConfig \<Rightarrow> reader \<Rightarrow> 'w \<Rightarrow> (go_error + reader) \<times> 'w" where
  "handleSOCKS5UserPassAuth W cfgp r w =
    (case read_full 2 r of
       Inl e \<Rightarrow> (Inl e, w)
     | Inr (b, r) \<Rightarrow>
       if b ! 0 \<noteq> 0x01 then
         (case writeSOCKS5UserPassReply W w 0x01 of
            (Some e, w) \<Rightarrow> (Inl e, w)
          | (None, w) \<Rightarrow> (Inl (Errorf ''auth version''), w))
       else
         (case read_full (unat (b ! 1)) r of
            Inl e \<Rightarrow> (Inl e, w)
          | Inr (u, r) \<Rightarrow>
            (case read_full 1 r of
               Inl e \<Rightarrow> (Inl e, w)
             | Inr (b0, r) \<Rightarrow>
               (case read_full (unat (b0 ! 0)) r of
                  Inl e \<Rightarrow> (Inl e, w)
                | Inr (p, r) \<Rightarrow>
                  if str_of u = pcUsername cfgp \<and> str_of p = pcPassword cfgp then
                    (case writeSOCKS5UserPassReply W w 0x00 of (Some e, w) \<Rightarrow> (Inl e, w) | (None, w) \<Rightarrow> (Inr r, w))
                  else
                    (case writeSOCKS5UserPassReply W w 0x01 of
                       (Some e, w) \<Rightarrow> (Inl e, w)
                     | (None, w) \<Rightarrow> (Inl (Errorf ''authentication failed''), w))))))"

record localSOCKS5Request =
  rqCommand :: byte
  rqAtyp :: byte
  rqTarget :: string

definition readLocalSOCKS5RequestHost :: "reader \<Rightarrow> byte \<Rightarrow> (string \<times> reader) result" where
  "readLocalSOCKS5RequestHost r atyp =
    (if atyp = 0x01 then rbind (read_full 4 r) (\<lambda>(b, r). Inr (IP_String b, r))
     else if atyp = 0x03 then
       rbind (read_full 1 r) (\<lambda>(b, r). rbind (read_full (unat (b ! 0)) r) (\<lambda>(addr, r). Inr (str_of addr, r)))
     else if atyp = 0x04 then rbind (read_full 16 r) (\<lambda>(b, r). Inr (IP_String b, r))
     else Inl (Errorf ''address type not supported''))"

text \<open>\<open>Inl\<close> holds the reply code to send (0 for none).\<close>

definition readLocalSOCKS5Request :: "unicode_lib \<Rightarrow> reader \<Rightarrow> byte + localSOCKS5Request \<times> reader" where
  "readLocalSOCKS5Request U r =
    (case read_full 4 r of
       Inl _ \<Rightarrow> Inl 0
     | Inr (head, r) \<Rightarrow>
       if head ! 2 \<noteq> 0x00 then Inl 0x01
       else
         (case readLocalSOCKS5RequestHost r (head ! 3) of
            Inl _ \<Rightarrow> if head ! 3 \<noteq> 0x01 \<and> head ! 3 \<noteq> 0x03 \<and> head ! 3 \<noteq> 0x04 then Inl 0x08 else Inl 0
          | Inr (host, r) \<Rightarrow>
            (case read_full 2 r of
               Inl _ \<Rightarrow> Inl 0
             | Inr (pb, r) \<Rightarrow>
               (let port = port_of (pb ! 0) (pb ! 1) in
                if head ! 1 = 0x01 \<and> port = 0 then Inl 0x04
                else
                  (let target = JoinHostPort host (Itoa (int port)) in
                   if head ! 1 = 0x01 \<and> (case ValidateHostPort U target of Inl _ \<Rightarrow> True | Inr _ \<Rightarrow> False) then Inl 0x04
                   else Inr (\<lparr>rqCommand = head ! 1, rqAtyp = head ! 3, rqTarget = target\<rparr>, r))))))"

definition hostOf :: "string \<Rightarrow> string" where
  "hostOf target = (case SplitHostPort target of Inr (host, _) \<Rightarrow> host | Inl _ \<Rightarrow> [])"

datatype socks_plan = PlanClosed | PlanConnect string reader | PlanUDP reader

definition socks5Request ::
  "unicode_lib \<Rightarrow> 'w io_writer \<Rightarrow> byte \<Rightarrow> reader \<Rightarrow> 'w \<Rightarrow> socks_plan \<times> 'w" where
  "socks5Request U W ipStrategy r w =
    (case readLocalSOCKS5Request U r of
       Inl reply \<Rightarrow> (PlanClosed, if reply \<noteq> 0 then snd (writeSOCKS5Reply W w reply) else w)
     | Inr (req, r) \<Rightarrow>
       (let ip = ParseIP (hostOf (rqTarget req)) in
        if rqCommand req = 0x01 \<and> ipStrategy = IPStrategyIPv4Only \<and>
           (rqAtyp req = 0x04 \<or> (case ip of Some a \<Rightarrow> To4 a = None | None \<Rightarrow> False))
        then (PlanClosed, snd (writeSOCKS5Reply W w 0x02))
        else if rqCommand req = 0x01 \<and> ipStrategy = IPStrategyIPv6Only \<and>
           (rqAtyp req = 0x01 \<or> (case ip of Some a \<Rightarrow> To4 a \<noteq> None | None \<Rightarrow> False))
        then (PlanClosed, snd (writeSOCKS5Reply W w 0x02))
        else if rqCommand req = 0x01 then (PlanConnect (rqTarget req) r, w)
        else if rqCommand req = 0x03 then (PlanUDP r, w)
        else (PlanClosed, snd (writeSOCKS5Reply W w 0x07))))"

definition handleSOCKS5 ::
  "unicode_lib \<Rightarrow> 'w io_writer \<Rightarrow> ProxyConfig \<Rightarrow> byte \<Rightarrow> reader \<Rightarrow> 'w \<Rightarrow> socks_plan \<times> 'w" where
  "handleSOCKS5 U W cfgp ipStrategy r w =
    (case read_full 2 r of
       Inl _ \<Rightarrow> (PlanClosed, w)
     | Inr (buf, r) \<Rightarrow>
       if buf ! 0 \<noteq> 0x05 then (PlanClosed, w)
       else
         (case read_full (unat (buf ! 1)) r of
            Inl _ \<Rightarrow> (PlanClosed, w)
          | Inr (methods, r) \<Rightarrow>
            if pcUsername cfgp \<noteq> [] then
              (if 0x02 \<notin> set methods then (PlanClosed, snd (writeSOCKS5MethodSelection W w 0xff))
               else
                 (case writeSOCKS5MethodSelection W w 0x02 of
                    (Some _, w) \<Rightarrow> (PlanClosed, w)
                  | (None, w) \<Rightarrow>
                    (case handleSOCKS5UserPassAuth W cfgp r w of
                       (Inl _, w) \<Rightarrow> (PlanClosed, w)
                     | (Inr r, w) \<Rightarrow> socks5Request U W ipStrategy r w)))
            else
              (if 0x00 \<notin> set methods then (PlanClosed, snd (writeSOCKS5MethodSelection W w 0xff))
               else
                 (case writeSOCKS5MethodSelection W w 0x00 of
                    (Some _, w) \<Rightarrow> (PlanClosed, w)
                  | (None, w) \<Rightarrow> socks5Request U W ipStrategy r w))))"

section \<open>Plan of a CONNECT\<close>

definition sniCandidate :: "string \<Rightarrow> bool" where
  "sniCandidate target =
    (case SplitHostPort target of
       Inl _ \<Rightarrow> False
     | Inr (host, portStr) \<Rightarrow> portStr = ''443'' \<and> ParseIP host \<noteq> None)"

text \<open>
  \<open>bufio.Reader.Peek n\<close> with the default buffer of 4096 bytes, when \<open>avail\<close> are the bytes that arrive
  before the read deadline: an error when \<open>n\<close> is more than the buffer holds or than arrives.
\<close>

definition Peek :: "nat \<Rightarrow> bytes \<Rightarrow> bytes option" where
  "Peek n avail = (if n > 4096 \<or> n > length avail then None else Some (take n avail))"

text \<open>
  The target after sniffing and the bytes the returned connection delivers before it reads on: those
  that \<open>Peek\<close> moved to the buffer are replayed, so the connection is again \<open>avail\<close> and what follows.
\<close>

definition sniffSNITarget :: "bytes \<Rightarrow> string \<Rightarrow> string \<times> bytes" where
  "sniffSNITarget avail target =
    (case SplitHostPort target of
       Inl _ \<Rightarrow> (target, avail)
     | Inr (host, portStr) \<Rightarrow>
       if ParseIP host = None \<or> portStr \<noteq> ''443'' then (target, avail)
       else
         (case Peek 5 avail of
            None \<Rightarrow> (target, avail)
          | Some head \<Rightarrow>
            if head ! 0 \<noteq> 0x16 then (target, avail)
            else
              (let recLen = (unat (head ! 3) * 2 ^ 8) OR unat (head ! 4) in
               if recLen \<le> 0 \<or> recLen \<ge> 64 * 1024 then (target, avail)
               else
                 (case Peek (5 + recLen) avail of
                    None \<Rightarrow> (target, avail)
                  | Some payload \<Rightarrow>
                    (case sniffSNI payload of
                       None \<Rightarrow> (target, avail)
                     | Some sni \<Rightarrow> if sni \<noteq> host then (JoinHostPort sni ''443'', avail) else (target, avail))))))"

section \<open>Upstream client\<close>

definition socks5UserPassAuthSrv :: "'w io_writer \<Rightarrow> string \<Rightarrow> string \<Rightarrow> reader \<Rightarrow> 'w \<Rightarrow> (go_error + reader) \<times> 'w" where
  "socks5UserPassAuthSrv W username password r w =
    (case validateSOCKS5AuthLength username password of
       Inl e \<Rightarrow> (Inl e, w)
     | Inr _ \<Rightarrow>
       (case writeAll W w ([0x01, word_of_nat (length username)] @ bytes_of username @
               [word_of_nat (length password)] @ bytes_of password) of
          (Some e, w) \<Rightarrow> (Inl e, w)
        | (None, w) \<Rightarrow>
          (case read_full 2 r of
             Inl e \<Rightarrow> (Inl e, w)
           | Inr (response, r) \<Rightarrow>
               if response ! 0 \<noteq> 0x01 then (Inl (Errorf ''auth response version''), w)
               else if response ! 1 \<noteq> 0x00 then (Inl (Errorf ''authentication failed''), w)
               else (Inr r, w))))"

definition socks5Handshake :: "'w io_writer \<Rightarrow> SOCKS5Config \<Rightarrow> reader \<Rightarrow> 'w \<Rightarrow> (go_error + reader) \<times> 'w" where
  "socks5Handshake W config r w =
    (let methods = (if s5Username config \<noteq> [] \<and> s5Password config \<noteq> [] then [0x02] else [0x00 :: byte]) in
     case writeAll W w ([0x05, word_of_nat (length methods)] @ methods) of
       (Some e, w) \<Rightarrow> (Inl e, w)
     | (None, w) \<Rightarrow>
       (case read_full 2 r of
          Inl e \<Rightarrow> (Inl e, w)
        | Inr (response, r) \<Rightarrow>
          if response ! 0 \<noteq> 0x05 then (Inl (Errorf ''version''), w)
          else if response ! 1 = 0x00 then
            (if 0x00 \<notin> set methods then (Inl (Errorf ''method not offered''), w) else (Inr r, w))
          else if response ! 1 = 0x02 then
            (if 0x02 \<notin> set methods then (Inl (Errorf ''method not offered''), w)
             else socks5UserPassAuthSrv W (s5Username config) (s5Password config) r w)
          else if response ! 1 = 0xFF then (Inl (Errorf ''no acceptable method''), w)
          else (Inl (Errorf ''method''), w)))"

definition connectRequest :: "string \<Rightarrow> int \<Rightarrow> bytes result" where
  "connectRequest host port =
    (case ParseIP host of
       Some ip \<Rightarrow>
         (case To4 ip of
            Some ip4 \<Rightarrow> Inr ([0x05, 0x01, 0x00, 0x01] @ ip4 @ port_bytes port)
          | None \<Rightarrow> Inr ([0x05, 0x01, 0x00, 0x04] @ ip @ port_bytes port))
     | None \<Rightarrow>
         if length host > 255 then Inl (Errorf ''domain too long'')
         else Inr ([0x05, 0x01, 0x00, 0x03, word_of_nat (length host)] @ bytes_of host @ port_bytes port))"

text \<open>The bound address of a reply is read and dropped.\<close>

definition skipBoundAddr :: "byte \<Rightarrow> reader \<Rightarrow> reader result" where
  "skipBoundAddr atyp r =
    (if atyp = 0x01 then rbind (read_full 6 r) (\<lambda>(_, r). Inr r)
     else if atyp = 0x03 then
       rbind (read_full 1 r) (\<lambda>(b, r). rbind (read_full (unat (b ! 0) + 2) r) (\<lambda>(_, r). Inr r))
     else if atyp = 0x04 then rbind (read_full 18 r) (\<lambda>(_, r). Inr r)
     else Inl (Errorf ''address type''))"

definition socks5Connect :: "unicode_lib \<Rightarrow> 'w io_writer \<Rightarrow> string \<Rightarrow> reader \<Rightarrow> 'w \<Rightarrow> (go_error + reader) \<times> 'w" where
  "socks5Connect U W addr r w =
    (case rbind (ValidateHostPort U addr) (\<lambda>_. rbind (SplitHostPort addr) (\<lambda>(host, portStr).
        (case Atoi portStr of None \<Rightarrow> Inl (Errorf ''port'') | Some port \<Rightarrow> connectRequest host port))) of
       Inl e \<Rightarrow> (Inl e, w)
     | Inr request \<Rightarrow>
       (case writeAll W w request of
          (Some e, w) \<Rightarrow> (Inl e, w)
        | (None, w) \<Rightarrow>
          (case read_full 4 r of
             Inl e \<Rightarrow> (Inl e, w)
           | Inr (response, r) \<Rightarrow>
               if response ! 0 \<noteq> 0x05 then (Inl (Errorf ''version''), w)
               else if response ! 2 \<noteq> 0x00 then (Inl (Errorf ''RSV''), w)
               else if response ! 1 \<noteq> 0x00 then (Inl (Errorf ''status''), w)
               else (skipBoundAddr (response ! 3) r, w))))"

text \<open>\<open>dialed\<close> is what \<open>net.DialTimeout\<close> to the proxy, or to the address itself without one, returned.\<close>

definition dialViaSocks5 ::
  "unicode_lib \<Rightarrow> 'w io_writer \<Rightarrow> SOCKS5Config option \<Rightarrow> (reader \<times> 'w) result \<Rightarrow> string \<Rightarrow> (reader \<times> 'w) result" where
  "dialViaSocks5 U W socks5Config dialed addr =
    (case socks5Config of
       None \<Rightarrow> dialed
     | Some config \<Rightarrow>
       rbind dialed (\<lambda>(r, w).
         (case socks5Handshake W config r w of
            (Inl e, w) \<Rightarrow> Inl e
          | (Inr r, w) \<Rightarrow>
            (case socks5Connect U W addr r w of (Inl e, w) \<Rightarrow> Inl e | (Inr r, w) \<Rightarrow> Inr (r, w)))))"

definition writeSOCKS5UDPAssociate :: "'w io_writer \<Rightarrow> 'w \<Rightarrow> go_error option \<times> 'w" where
  "writeSOCKS5UDPAssociate W w = writeAll W w [0x05, 0x03, 0x00, 0x01, 0, 0, 0, 0, 0, 0]"

definition readRelayHost :: "byte \<Rightarrow> reader \<Rightarrow> (string \<times> reader) result" where
  "readRelayHost atyp r =
    (if atyp = 0x01 then rbind (read_full 4 r) (\<lambda>(b, r). Inr (IP_String b, r))
     else if atyp = 0x03 then
       rbind (read_full 1 r) (\<lambda>(b, r).
         if b ! 0 = 0 then Inl (Errorf ''empty domain'')
         else rbind (read_full (unat (b ! 0)) r) (\<lambda>(d, r). Inr (str_of d, r)))
     else if atyp = 0x04 then rbind (read_full 16 r) (\<lambda>(b, r). Inr (IP_String b, r))
     else Inl (Errorf ''address type''))"

text \<open>
  \<open>newSOCKS5UDPRelay\<close> up to the address of the relay; resolving it and opening the local socket follow.
\<close>

definition socks5RelayAddr ::
  "'w io_writer \<Rightarrow> SOCKS5Config option \<Rightarrow> (reader \<times> 'w) result \<Rightarrow> string result" where
  "socks5RelayAddr W socks5Config dialed =
    (case socks5Config of
       None \<Rightarrow> Inl (Errorf ''no SOCKS5 configuration'')
     | Some config \<Rightarrow>
       rbind dialed (\<lambda>(r, w).
         (case socks5Handshake W config r w of
            (Inl e, w) \<Rightarrow> Inl e
          | (Inr r, w) \<Rightarrow>
            (case writeSOCKS5UDPAssociate W w of
               (Some e, w) \<Rightarrow> Inl e
             | (None, w) \<Rightarrow>
               rbind (read_full 4 r) (\<lambda>(resp, r).
                 if resp ! 0 \<noteq> 0x05 then Inl (Errorf ''version'')
                 else if resp ! 2 \<noteq> 0x00 then Inl (Errorf ''RSV'')
                 else if resp ! 1 \<noteq> 0x00 then Inl (Errorf ''refused'')
                 else
                   rbind (readRelayHost (resp ! 3) r) (\<lambda>(relayHost, r).
                   rbind (read_full 2 r) (\<lambda>(pb, r).
                     let relayPort = port_of (pb ! 0) (pb ! 1) in
                     if relayPort = 0 then Inl (Errorf ''port range'')
                     else
                       (let relayHost = (if relayHost = ''0.0.0.0'' \<or> relayHost = ''::''
                              then hostOf (s5Host config) else relayHost)
                        in Inr (JoinHostPort relayHost (Itoa (int relayPort)))))))))))"

text \<open>\<open>WriteToUDP\<close> is the argument: its count and error for a datagram.\<close>

definition writeUDPDatagram ::
  "(bytes \<Rightarrow> UDPAddr \<Rightarrow> int \<times> go_error option) option \<Rightarrow> bytes \<Rightarrow> UDPAddr option \<Rightarrow> int \<times> go_error option" where
  "writeUDPDatagram wr d addr =
    (case wr of
       None \<Rightarrow> (0, Some (Errorf ''UDP writer not initialised''))
     | Some WriteToUDP \<Rightarrow>
       (case addr of
          None \<Rightarrow> (0, Some (Errorf ''nil UDP address''))
        | Some a \<Rightarrow>
          (case WriteToUDP d a of
             (n, err) \<Rightarrow>
               if n > int (length d) then (n, Some ErrShortWrite)
               else if err \<noteq> None then (n, err)
               else if n \<noteq> int (length d) then (n, Some ErrShortWrite)
               else (n, None))))"

record SOCKS5UDPRelay =
  srRelayAddr :: UDPAddr
  srTargetAddr :: UDPAddr
  srClosed :: bool

definition relay_Write ::
  "(bytes \<Rightarrow> UDPAddr \<Rightarrow> int \<times> go_error option) \<Rightarrow> SOCKS5UDPRelay \<Rightarrow> bytes \<Rightarrow> int \<times> go_error option" where
  "relay_Write wr r d =
    (if srClosed r then (0, Some (Errorf ''closed''))
     else writeUDPDatagram (Some wr) (buildSOCKS5UDPPacketData (srTargetAddr r) d) (Some (srRelayAddr r)))"

definition relay_Read :: "unicode_lib \<Rightarrow> SOCKS5UDPRelay \<Rightarrow> bytes result \<Rightarrow> nat \<Rightarrow> (string \<times> bytes) result" where
  "relay_Read U r received bufferLen =
    (if srClosed r then Inl (Errorf ''closed'')
     else
       rbind received (\<lambda>pkt.
       rbind (parseSOCKS5UDPResp U pkt) (\<lambda>(srcAddr, payload).
         if length payload > bufferLen then Inl (Errorf ''payload exceeds buffer'') else Inr (srcAddr, payload))))"

definition relay_Close :: "SOCKS5UDPRelay \<Rightarrow> SOCKS5UDPRelay" where
  "relay_Close r = (if srClosed r then r else r\<lparr>srClosed := True\<rparr>)"

section \<open>Lemmas\<close>

lemma port_of_bytes:
  assumes "0 \<le> p" "p \<le> 65535"
  shows "port_of (hd (port_bytes p)) (port_bytes p ! 1) = nat p" "length (port_bytes p) = 2"
proof -
  have u: "unat (word_of_int (p div 2 ^ 8) :: byte) = nat (p div 256)" "unat (word_of_int p :: byte) = nat (p mod 256)"
    using assms by (simp_all add: unat_eq_nat_uint uint_word_of_int)
  have "port_of (word_of_int (p div 2 ^ 8)) (word_of_int p) = nat (p div 256) * 2 ^ 8 + nat (p mod 256)"
    unfolding port_of_def u by (rule or_shift_add) simp
  also have "\<dots> = nat p div 256 * 256 + nat p mod 256"
    using assms(1) by (simp add: nat_div_distrib nat_mod_distrib)
  also have "\<dots> = nat p" by simp
  finally show "port_of (hd (port_bytes p)) (port_bytes p ! 1) = nat p" by (simp add: port_bytes_def)
qed (simp add: port_bytes_def)

text \<open>The host a peer sees, and the hosts whose frames are accepted: names and IPv4 addresses.\<close>

definition canonical_host :: "string \<Rightarrow> string" where
  "canonical_host h =
    (case ParseIP h of
       None \<Rightarrow> h
     | Some ip \<Rightarrow> (case To4 ip of Some ip4 \<Rightarrow> IP_String ip4 | None \<Rightarrow> IP_String ip))"

definition good_host :: "string \<Rightarrow> bool" where
  "good_host h \<longleftrightarrow> (case ParseIP h of None \<Rightarrow> plain_hostname h | Some ip \<Rightarrow> To4 ip \<noteq> None)"

lemma dec_digits_byte: "n < 256 \<Longrightarrow> valid_label (dec_digits n) \<and> length (dec_digits n) \<le> 3"
proof -
  assume n: "n < 256"
  have l3: "length (dec_digits n) \<le> 3"
    using n by (simp add: dec_digits.simps [of n] dec_digits.simps [of "n div 10"] dec_digits.simps [of "n div 10 div 10"])
  note l3
  moreover have d: "list_all isDigit (dec_digits n)" "dec_digits n \<noteq> []" using dec_digits_props [of n] by auto
  moreover have "c \<noteq> CHR ''-''" if "isDigit c" for c using that by (auto simp: isDigit_def)
  ultimately show ?thesis
    unfolding valid_label_def label_char_def by (auto simp: list_all_iff)
qed

lemma plain_ipv4_String: "length b = 4 \<Longrightarrow> plain_hostname (ipv4_String b)"
proof -
  assume "length b = 4"
  then obtain w x y z where b: "b = [w, x, y, z]" by (auto simp: numeral_eq_Suc length_Suc_conv)
  let ?ls = "map (\<lambda>v :: byte. dec_digits (unat v)) b"
  have v: "\<forall>l\<in>set ?ls. valid_label l" "\<forall>l\<in>set ?ls. length l \<le> 3" using dec_digits_byte unat_byte_less by auto
  have s: "ipv4_String b = Join (CHR ''.'') ?ls" by (simp add: ipv4_String_def b)
  have "length (ipv4_String b) \<le> 253"
    using v(2) unfolding s by (simp add: b)
  then show ?thesis unfolding plain_hostname_def using v(1) s b by blast
qed

lemma To4_IP_String:
  assumes "To4 ip = Some ip4"
  shows "IP_String ip4 = ipv4_String ip4" "length ip4 = 4"
  using assms To4_length [OF assms] by (auto simp: IP_String_def To4_def split: if_splits)

lemma canonical_plain: "good_host h \<Longrightarrow> plain_hostname (canonical_host h)"
  by (auto simp: good_host_def canonical_host_def To4_IP_String plain_ipv4_String split: option.splits)

text \<open>An IP address written without a colon is an IPv4 address.\<close>

lemma ParseIP_no_colon:
  assumes "ParseIP h = Some ip" "CHR '':'' \<notin> set h"
  shows "To4 ip \<noteq> None"
proof -
  have "ParseAddr_at t s = Some (V6 b z) \<Longrightarrow> CHR '':'' \<in> set s" for t s b z
    by (induction t s rule: ParseAddr_at.induct) (auto split: if_splits)
  then obtain b where b: "ip = v4_mapped b" "ParseAddr h = Some (V4 b)"
    using assms by (auto simp: ParseIP_def ParseAddr_def split: option.splits addr.splits if_splits)
  have "length b = 4" using ParseIP_length [OF assms(1)] b(1) by (simp add: v4_mapped_def)
  then show ?thesis using b(1) by (simp add: To4_def v4_mapped_def)
qed

text \<open>The address part of a frame, by kind.\<close>

definition addr_part :: "string \<Rightarrow> bytes" where
  "addr_part h =
    (case ParseIP h of
       Some ip \<Rightarrow> (case To4 ip of Some ip4 \<Rightarrow> 0x01 # ip4 | None \<Rightarrow> 0x04 # ip)
     | None \<Rightarrow> 0x03 # word_of_nat (length h) # bytes_of h)"

lemma append_addr_part: "appendSOCKS5UDPAddr buf h p = buf @ addr_part h @ port_bytes p"
  by (simp add: appendSOCKS5UDPAddr_def addr_part_def split: option.split)

lemma connectRequest_part:
  "length h \<le> 255 \<Longrightarrow> connectRequest h p = Inr ([0x05, 0x01, 0x00] @ addr_part h @ port_bytes p)"
  by (simp add: connectRequest_def addr_part_def split: option.split)

lemma parse_addr_part:
  assumes "h \<noteq> []" "length h \<le> 255"
  shows "parseSOCKS5AddrBytes (pre @ addr_part h @ rest) (hd (addr_part h)) (Suc (length pre)) =
    Inr (canonical_host h, length pre + length (addr_part h))"
proof (cases "ParseIP h")
  case None
  have u: "unat (word_of_nat (length h) :: byte) = length h" using assms(2) by simp
  have "slice (Suc (Suc (length pre))) (Suc (Suc (length pre + length h))) (pre @ 0x03 # word_of_nat (length h) # bytes_of h @ rest) = bytes_of h"
    by (simp add: slice_def)
  then show ?thesis
    using None u assms(1) by (simp add: parseSOCKS5AddrBytes_def addr_part_def canonical_host_def nth_append Let_def)
next
  case (Some ip)
  have l: "length ip = 16" using ParseIP_length [OF Some] .
  show ?thesis
  proof (cases "To4 ip")
    case None
    have "slice (Suc (length pre)) (Suc (length pre + 16)) (pre @ 0x04 # ip @ rest) = ip" using l by (simp add: slice_def)
    then show ?thesis using Some None l by (simp add: parseSOCKS5AddrBytes_def addr_part_def canonical_host_def)
  next
    case t: (Some ip4)
    have l4: "length ip4 = 4" using To4_IP_String [OF t] by simp
    have "slice (Suc (length pre)) (Suc (length pre + 4)) (pre @ 0x01 # ip4 @ rest) = ip4" using l4 by (simp add: slice_def)
    then show ?thesis using Some t l4 by (simp add: parseSOCKS5AddrBytes_def addr_part_def canonical_host_def)
  qed
qed

lemma read_addr_part:
  assumes "h \<noteq> []" "length h \<le> 255"
  shows "readLocalSOCKS5RequestHost (Reader (tl (addr_part h) @ rest) e) (hd (addr_part h)) =
      Inr (canonical_host h, Reader rest e)"
    and "hd (addr_part h) \<in> {1, 3, 4}"
proof -
  have "readLocalSOCKS5RequestHost (Reader (tl (addr_part h) @ rest) e) (hd (addr_part h)) =
      Inr (canonical_host h, Reader rest e) \<and> hd (addr_part h) \<in> {1, 3, 4}"
  proof (cases "ParseIP h")
    case None
    have u: "unat (word_of_nat (length h) :: byte) = length h" using assms(2) by simp
    have r: "read_full 1 (Reader (word_of_nat (length h) # bytes_of h @ rest) e) =
        Inr ([word_of_nat (length h)], Reader (bytes_of h @ rest) e)" by (simp add: read_full_def)
    show ?thesis using None u r by (simp add: readLocalSOCKS5RequestHost_def addr_part_def canonical_host_def)
  next
    case (Some ip)
    then show ?thesis
      using ParseIP_length [OF Some] To4_IP_String
      by (cases "To4 ip") (auto simp: readLocalSOCKS5RequestHost_def addr_part_def canonical_host_def)
  qed
  then show "readLocalSOCKS5RequestHost (Reader (tl (addr_part h) @ rest) e) (hd (addr_part h)) =
      Inr (canonical_host h, Reader rest e)" "hd (addr_part h) \<in> {1, 3, 4}" by blast+
qed

lemma addr_part_nonempty: "addr_part h = hd (addr_part h) # tl (addr_part h)" "addr_part h \<noteq> []"
  by (auto simp: addr_part_def split: option.split)

lemma plain_hostname_length: "plain_hostname h \<Longrightarrow> h \<noteq> [] \<and> length h \<le> 253"
  using plain_hostname_last by (auto simp: plain_hostname_def)

lemma good_host_valid: "good_host h \<Longrightarrow> ValidateHostnameOrIP U h = Inr ()"
  by (auto simp: good_host_def ValidateHostnameOrIP_def NormalizeTargetHost_plain ValidHostname_plain split: option.splits)

lemma parseFrame_build:
  assumes "good_host h" "h \<noteq> []" "length h \<le> 255" "1 \<le> p" "p \<le> 65535"
  shows "parseSOCKS5UDPFrameAddr U (appendSOCKS5UDPAddr [0, 0, 0] h p @ d) =
    Inr (JoinHostPort (canonical_host h) (Itoa p), length (appendSOCKS5UDPAddr [0, 0, 0] h p))"
proof -
  let ?pk = "[0, 0, 0] @ addr_part h @ port_bytes p @ d" and ?o = "3 + length (addr_part h)"
  have pb: "port_bytes p = [hd (port_bytes p), port_bytes p ! 1]" by (simp add: port_bytes_def)
  have at: "?pk ! 3 = hd (addr_part h)" using addr_part_nonempty(2) by (simp add: nth_append hd_conv_nth)
  have po: "?pk ! ?o = hd (port_bytes p)" "?pk ! (?o + 1) = port_bytes p ! 1"
    using port_of_bytes(2) [of p] assms(4,5) by (simp_all add: nth_append hd_conv_nth port_bytes_def)
  have a: "parseSOCKS5AddrBytes ?pk (hd (addr_part h)) 4 = Inr (canonical_host h, ?o)"
    using parse_addr_part [OF assms(2,3), of "[0, 0, 0]" "port_bytes p @ d"] by (simp add: numeral_eq_Suc)
  have v: "ValidateHostPort U (JoinHostPort (canonical_host h) (Itoa p)) = Inr ()"
    using ValidateHostPort_JoinHostPort [OF canonical_plain [OF assms(1)] assms(4,5)] .
  have l: "length ?pk \<ge> ?o + 2" using port_of_bytes(2) [of p] assms(4,5) by simp
  show ?thesis
    unfolding parseSOCKS5UDPFrameAddr_def append_addr_part
    using at a po v l port_of_bytes [of p] assms(4,5) addr_part_nonempty(2)
    by (simp add: Let_def nth_Cons')
qed

lemma buffer_writeAll: "writeAll buffer_writer w b = (None, w @ b)"
  by (simp add: writeAll_def buffer_writeAllCount)

lemma read_full_Cons2 [simp]: "read_full 2 (Reader (a # b # xs) e) = Inr ([a, b], Reader xs e)"
  using read_full_append [of "[a, b]" 2 xs e] by simp

lemma read_full_Cons1 [simp]: "read_full (Suc 0) (Reader (a # xs) e) = Inr ([a], Reader xs e)"
  using read_full_append [of "[a]" 1 xs e] by simp

lemma read_full_Cons4 [simp]: "read_full 4 (Reader (a # b # c # d # xs) e) = Inr ([a, b, c, d], Reader xs e)"
  using read_full_append [of "[a, b, c, d]" 4 xs e] by simp

text \<open>The two messages of the username and password method.\<close>

definition auth_bytes :: "string \<Rightarrow> string \<Rightarrow> bytes" where
  "auth_bytes u p = [0x01, word_of_nat (length u)] @ bytes_of u @ [word_of_nat (length p)] @ bytes_of p"

lemma server_auth:
  assumes "length (pcUsername cfgp) \<le> 255" "length (pcPassword cfgp) \<le> 255"
  shows "handleSOCKS5UserPassAuth buffer_writer cfgp
      (Reader (auth_bytes (pcUsername cfgp) (pcPassword cfgp) @ rest) e) w = (Inr (Reader rest e), w @ [0x01, 0x00])"
  using assms by (simp add: handleSOCKS5UserPassAuth_def auth_bytes_def writeSOCKS5UserPassReply_def buffer_writeAll)

lemma client_auth:
  assumes "length u \<le> 255" "length p \<le> 255"
  shows "socks5UserPassAuthSrv buffer_writer u p (Reader ([0x01, 0x00] @ rest) e) w = (Inr (Reader rest e), w @ auth_bytes u p)"
  using assms by (simp add: socks5UserPassAuthSrv_def validateSOCKS5AuthLength_def auth_bytes_def buffer_writeAll)

lemma server_request:
  assumes "good_host h" "h \<noteq> []" "length h \<le> 255" "1 \<le> p" "p \<le> 65535"
  shows "socks5Request U buffer_writer IPStrategyDefault
      (Reader ([0x05, 0x01, 0x00] @ addr_part h @ port_bytes p @ rest) e) w =
    (PlanConnect (JoinHostPort (canonical_host h) (Itoa p)) (Reader rest e), w)"
proof -
  note pb = port_of_bytes [of p]
  have b: "port_bytes p @ rest = hd (port_bytes p) # port_bytes p ! 1 # rest" by (simp add: port_bytes_def)
  have r: "read_full 4 (Reader ([0x05, 0x01, 0x00] @ addr_part h @ port_bytes p @ rest) e) =
      Inr ([0x05, 0x01, 0x00, hd (addr_part h)], Reader (tl (addr_part h) @ port_bytes p @ rest) e)"
    by (subst addr_part_nonempty(1)) simp
  have n: "\<not> (hd (addr_part h) \<noteq> 1 \<and> hd (addr_part h) \<noteq> 3 \<and> hd (addr_part h) \<noteq> 4)"
    using read_addr_part(2) [OF assms(2,3)] by auto
  have v: "ValidateHostPort U (JoinHostPort (canonical_host h) (Itoa p)) = Inr ()"
    using ValidateHostPort_JoinHostPort [OF canonical_plain [OF assms(1)] assms(4,5)] .
  have "readLocalSOCKS5Request U (Reader ([0x05, 0x01, 0x00] @ addr_part h @ port_bytes p @ rest) e) =
      Inr (\<lparr>rqCommand = 0x01, rqAtyp = hd (addr_part h), rqTarget = JoinHostPort (canonical_host h) (Itoa p)\<rparr>, Reader rest e)"
    unfolding readLocalSOCKS5Request_def r
    using read_addr_part(1) [OF assms(2,3), of "port_bytes p @ rest" e] n pb assms(4,5) v
    by (simp add: b Let_def)
  then show ?thesis by (simp add: socks5Request_def Let_def IPStrategyDefault_def IPStrategyIPv4Only_def IPStrategyIPv6Only_def)
qed

text \<open>What a client that connects to \<open>h:p\<close> writes, and the server's answers before its reply.\<close>

definition client_bytes :: "string \<Rightarrow> string \<Rightarrow> string \<Rightarrow> int \<Rightarrow> bytes" where
  "client_bytes u pw h p =
    (if u \<noteq> [] then [0x05, 0x01, 0x02] @ auth_bytes u pw else [0x05, 0x01, 0x00]) @
    [0x05, 0x01, 0x00] @ addr_part h @ port_bytes p"

definition server_bytes :: "string \<Rightarrow> bytes" where
  "server_bytes u = (if u \<noteq> [] then [0x05, 0x02, 0x01, 0x00] else [0x05, 0x00])"

lemma server_handles:
  assumes "length (pcUsername cfgp) \<le> 255" "length (pcPassword cfgp) \<le> 255"
    "good_host h" "h \<noteq> []" "length h \<le> 255" "1 \<le> p" "p \<le> 65535"
  shows "handleSOCKS5 U buffer_writer cfgp IPStrategyDefault
      (Reader (client_bytes (pcUsername cfgp) (pcPassword cfgp) h p @ rest) e) w =
    (PlanConnect (JoinHostPort (canonical_host h) (Itoa p)) (Reader rest e), w @ server_bytes (pcUsername cfgp))"
proof (cases "pcUsername cfgp = []")
  case True
  then show ?thesis
    using server_request [OF assms(3-7), of U rest e]
    by (simp add: handleSOCKS5_def client_bytes_def server_bytes_def writeSOCKS5MethodSelection_def buffer_writeAll)
next
  case False
  then show ?thesis
    using server_request [OF assms(3-7), of U rest e] server_auth [OF assms(1,2)]
    by (simp add: handleSOCKS5_def client_bytes_def server_bytes_def writeSOCKS5MethodSelection_def buffer_writeAll)
qed

lemma client_dials:
  assumes "u = [] \<longleftrightarrow> pw = []" "length u \<le> 255" "length pw \<le> 255" "plain_hostname h" "1 \<le> p" "p \<le> 65535"
  shows "dialViaSocks5 U buffer_writer (Some \<lparr>s5Host = ph, s5Username = u, s5Password = pw\<rparr>)
      (Inr (Reader (server_bytes u @ [0x05, 0x00, 0x00, 0x01, 0, 0, 0, 0, 0, 0] @ rest) e, w)) (JoinHostPort h (Itoa p)) =
    Inr (Reader rest e, w @ client_bytes u pw h p)"
proof -
  let ?c = "\<lparr>s5Host = ph, s5Username = u, s5Password = pw\<rparr>" and ?rep = "[0x05, 0x00, 0x00, 0x01, 0, 0, 0, 0, 0, 0 :: byte]"
  have h: "length h \<le> 255" using plain_hostname_length [OF assms(4)] by simp
  have hs: "socks5Handshake buffer_writer ?c (Reader (server_bytes u @ ?rep @ rest) e) w =
      (Inr (Reader (?rep @ rest) e), w @ (if u \<noteq> [] then [0x05, 0x01, 0x02] @ auth_bytes u pw else [0x05, 0x01, 0x00]))"
  proof (cases "u = []")
    case True
    then show ?thesis using assms(1) by (simp add: socks5Handshake_def server_bytes_def buffer_writeAll)
  next
    case False
    then show ?thesis
      using assms(1) client_auth [OF assms(2,3), of "?rep @ rest" e]
      by (simp add: socks5Handshake_def server_bytes_def buffer_writeAll)
  qed
  have "read_full 6 (Reader (0 # 0 # 0 # 0 # 0 # 0 # rest) e) = Inr ([0, 0, 0, 0, 0, 0], Reader rest e)"
    using read_full_append [of "[0, 0, 0, 0, 0, 0]" 6 rest e] by simp
  then have cn: "socks5Connect U buffer_writer (JoinHostPort h (Itoa p)) (Reader (?rep @ rest) e) w' =
      (Inr (Reader rest e), w' @ [0x05, 0x01, 0x00] @ addr_part h @ port_bytes p)" for w'
    using ValidateHostPort_JoinHostPort [OF assms(4-6)] SplitHostPort_plain [OF assms(4,5)] Atoi_Itoa [of p] assms(5,6)
      connectRequest_part [OF h]
    by (simp add: socks5Connect_def buffer_writeAll skipBoundAddr_def)
  show ?thesis using hs cn by (simp add: dialViaSocks5_def client_bytes_def)
qed

text \<open>What the server has read when it goes on to a request.\<close>

lemma auth_accepts:
  assumes "handleSOCKS5UserPassAuth W cfgp r w = (Inr r', w')"
  shows "\<exists>nu np. unat nu = length (pcUsername cfgp) \<and> unat np = length (pcPassword cfgp) \<and>
    rdata r = [0x01, nu] @ bytes_of (pcUsername cfgp) @ [np] @ bytes_of (pcPassword cfgp) @ rdata r'"
proof -
  obtain b r1 u r2 b0 r3 pw r4 where st: "read_full 2 r = Inr (b, r1)" "b ! 0 = 1"
    "read_full (unat (b ! 1)) r1 = Inr (u, r2)" "read_full 1 r2 = Inr (b0, r3)"
    "read_full (unat (b0 ! 0)) r3 = Inr (pw, r4)" "str_of u = pcUsername cfgp" "str_of pw = pcPassword cfgp" "r' = r4"
    using assms
    by (auto simp: handleSOCKS5UserPassAuth_def split: sum.splits prod.splits option.splits if_splits)
  have uu: "u = bytes_of (pcUsername cfgp)" "pw = bytes_of (pcPassword cfgp)"
    using arg_cong [OF st(6), of bytes_of] arg_cong [OF st(7), of bytes_of] by simp_all
  have "b = [1, b ! 1]" "b0 = [b0 ! 0]"
    using st(1,2,4) by (auto simp: read_full_Inr length_Suc_conv numeral_2_eq_2)
  then have "rdata r = [1, b ! 1] @ u @ [b0 ! 0] @ pw @ rdata r'" "unat (b ! 1) = length u" "unat (b0 ! 0) = length pw"
    using st by (auto simp: read_full_Inr)
  then show ?thesis unfolding uu by auto
qed

lemma request_connect_valid:
  assumes "socks5Request U W strategy r w = (PlanConnect target r', w')"
  shows "ValidateHostPort U target = Inr ()"
proof -
  obtain req where req: "readLocalSOCKS5Request U r = Inr (req, r')" "rqTarget req = target" "rqCommand req = 1"
    using assms by (auto simp: socks5Request_def Let_def split: sum.splits if_splits)
  from req(1) show ?thesis
    using req(2,3) by (auto simp: readLocalSOCKS5Request_def Let_def split: sum.splits if_splits)
qed

section \<open>Properties\<close>


text \<open>A concrete library of Unicode functions, for the witnesses: every string is its own case folding.\<close>

definition wit_lib :: unicode_lib where
  "wit_lib = \<lparr>uc_ToLower = id, uc_ToUpper = id, uc_TrimSpace = id, uc_TrimRightSpace = id\<rparr>"

lemma plain_wit: "plain_hostname ''a.io''"
proof -
  have "valid_label ''a''" "valid_label ''io''" by (simp_all add: valid_label_def label_char_def isDigit_def isLetter_def isLower_def)
  then show ?thesis unfolding plain_hostname_def by (intro conjI exI [of _ "[''a'', ''io'']"]) auto
qed


text \<open>
  The SOCKS5 UDP frame is a round trip: for every valid host that is a name or an IPv4
  address and every port, the frame built for a datagram parses, on the local server and on the
  upstream relay alike, to the target in canonical text and to the same payload.
\<close>

lemma socks5_udp_roundtrip:
  assumes "good_host h" "h \<noteq> []" "length h \<le> 255" "1 \<le> p" "p \<le> 65535"
  shows "\<exists>frame. buildSOCKS5UDPPacket U h p d = Inr frame \<and>
    parseSOCKS5UDPPacket U frame = Inr (JoinHostPort (canonical_host h) (Itoa p), d) \<and>
    parseSOCKS5UDPResp U frame = Inr (JoinHostPort (canonical_host h) (Itoa p), d)"
  using parseFrame_build [OF assms, of U d] good_host_valid [OF assms(1), of U] assms(2-5)
  by (simp add: buildSOCKS5UDPPacket_def appendSOCKS5UDPAddrChecked_def parseSOCKS5UDPPacket_def parseSOCKS5UDPResp_def)

lemma socks5_udp_roundtrip_witness:
  "\<exists>frame. buildSOCKS5UDPPacket wit_lib ''a.io'' 53 [1, 2] = Inr frame \<and>
    parseSOCKS5UDPPacket wit_lib frame = Inr (JoinHostPort (canonical_host ''a.io'') (Itoa 53), [1, 2]) \<and>
    parseSOCKS5UDPResp wit_lib frame = Inr (JoinHostPort (canonical_host ''a.io'') (Itoa 53), [1, 2])"
proof -
  have "ParseIP ''a.io'' = None" by code_simp
  then have "good_host ''a.io''" by (simp add: good_host_def plain_wit)
  from socks5_udp_roundtrip [OF this, of 53 wit_lib "[1, 2]"] show ?thesis by simp
qed

text \<open>
  C21. When the listener has a user name configured, nothing but a client that offered the
  user name and password method and then sent exactly the configured credentials gets past the
  negotiation, whatever the connection's writes do; and a CONNECT goes on only with a target that
  passes address validation.
\<close>

lemma socks5_auth_required:
  assumes "pcUsername cfgp \<noteq> []" "handleSOCKS5 U W cfgp strategy r w = (plan, w')" "plan \<noteq> PlanClosed"
  shows "(\<exists>n methods nu np rest.
      rdata r = [0x05, n] @ methods @
        [0x01, nu] @ bytes_of (pcUsername cfgp) @ [np] @ bytes_of (pcPassword cfgp) @ rest \<and>
      unat n = length methods \<and> 0x02 \<in> set methods \<and>
      unat nu = length (pcUsername cfgp) \<and> unat np = length (pcPassword cfgp)) \<and>
    (\<forall>target r'. plan = PlanConnect target r' \<longrightarrow> ValidateHostPort U target = Inr ())"
proof -
  obtain b r1 ms r2 w1 r3 w2 where st: "read_full 2 r = Inr (b, r1)" "b ! 0 = 5" "read_full (unat (b ! 1)) r1 = Inr (ms, r2)"
    "2 \<in> set ms" "handleSOCKS5UserPassAuth W cfgp r2 w1 = (Inr r3, w2)" "socks5Request U W strategy r3 w2 = (plan, w')"
    using assms by (auto simp: handleSOCKS5_def split: sum.splits prod.splits option.splits if_splits)
  obtain nu np where au: "unat nu = length (pcUsername cfgp)" "unat np = length (pcPassword cfgp)"
    "rdata r2 = [0x01, nu] @ bytes_of (pcUsername cfgp) @ [np] @ bytes_of (pcPassword cfgp) @ rdata r3"
    using auth_accepts [OF st(5)] by blast
  have "b = [5, b ! 1]" using st(1,2) by (auto simp: read_full_Inr length_Suc_conv numeral_2_eq_2)
  then have "rdata r = [5, b ! 1] @ ms @ rdata r2" "unat (b ! 1) = length ms"
    using st(1,3) by (auto simp: read_full_Inr)
  then have "\<exists>n methods nu np rest.
      rdata r = [0x05, n] @ methods @
        [0x01, nu] @ bytes_of (pcUsername cfgp) @ [np] @ bytes_of (pcPassword cfgp) @ rest \<and>
      unat n = length methods \<and> 0x02 \<in> set methods \<and>
      unat nu = length (pcUsername cfgp) \<and> unat np = length (pcPassword cfgp)"
    using au st(4) by (intro exI [of _ "b ! 1"] exI [of _ ms] exI [of _ nu] exI [of _ np] exI [of _ "rdata r3"]) simp
  moreover have "ValidateHostPort U target = Inr ()" if "plan = PlanConnect target r'" for target r'
    using request_connect_valid [OF st(6) [unfolded that]] .
  ultimately show ?thesis by blast
qed

lemma socks5_auth_required_witness:
  "fst (handleSOCKS5 wit_lib buffer_writer \<lparr>pcUsername = ''u'', pcPassword = ''p'', pcHost = ''''\<rparr> IPStrategyDefault
      (Reader (client_bytes ''u'' ''p'' ''a.io'' 443) EOF) []) \<noteq> PlanClosed \<and>
   (\<exists>n methods nu np rest. client_bytes ''u'' ''p'' ''a.io'' 443 =
      [0x05, n] @ methods @ [0x01, nu] @ bytes_of ''u'' @ [np] @ bytes_of ''p'' @ rest \<and> 0x02 \<in> set methods)"
proof -
  let ?c = "\<lparr>pcUsername = ''u'', pcPassword = ''p'', pcHost = ''''\<rparr>"
  let ?r = "Reader (client_bytes ''u'' ''p'' ''a.io'' 443) EOF"
  have "ParseIP ''a.io'' = None" by code_simp
  then have "good_host ''a.io''" by (simp add: good_host_def plain_wit)
  from server_handles [of ?c, OF _ _ this, of 443 wit_lib "[]" EOF "[]"]
  have h: "handleSOCKS5 wit_lib buffer_writer ?c IPStrategyDefault ?r [] =
      (PlanConnect (JoinHostPort (canonical_host ''a.io'') (Itoa 443)) (Reader [] EOF), server_bytes ''u'')"
    by simp
  from socks5_auth_required [of ?c, OF _ h] show ?thesis by (simp add: h) blast
qed

end
