(* ===== verification/Route_Geo.thy ===== *)
theory Route_Geo
  imports Go_Netip "HOL-Library.Multiset" "HOL-Library.Product_Lexorder"
begin

text \<open>
  The GEO databases of the routing engine (\<open>internal/route/geoindex.go\<close>, \<open>geodata.go\<close>,
  \<open>builtin_cn.go\<close>). The protobuf message of a database is a parameter in decoded form (\<open>None\<close> when
  \<open>proto.Unmarshal\<close> fails), and so are the regular expression compiler and \<open>sort.Slice\<close>, which may
  order prefixes with equal start addresses as it likes. The read locks are not modelled: a database
  is built once and only read afterwards. Path and load time, which are only displayed, are left out.
\<close>

section \<open>Index of a geosite category\<close>

datatype Domain_Type = Domain_Plain | Domain_Regex | Domain_RootDomain | Domain_Full | Domain_Other int

record GeoSiteDomain =
  gdType :: Domain_Type
  gdValue :: string

record geoIndex =
  suffixes :: "string set"
  exact :: "string set"
  plains :: "string list"
  regexes :: "(string \<Rightarrow> bool) list"

fun indexLoop :: "(string \<Rightarrow> (string \<Rightarrow> bool) option) \<Rightarrow> GeoSiteDomain list \<Rightarrow> geoIndex \<Rightarrow> geoIndex" where
  "indexLoop compile [] idx = idx"
| "indexLoop compile (d # ds) idx = indexLoop compile ds
    (case gdType d of
       Domain_RootDomain \<Rightarrow> idx\<lparr>suffixes := insert (gdValue d) (suffixes idx)\<rparr>
     | Domain_Full \<Rightarrow> idx\<lparr>exact := insert (gdValue d) (exact idx)\<rparr>
     | Domain_Plain \<Rightarrow> idx\<lparr>plains := plains idx @ [gdValue d]\<rparr>
     | Domain_Regex \<Rightarrow>
         (case compile (gdValue d) of Some re \<Rightarrow> idx\<lparr>regexes := regexes idx @ [re]\<rparr> | None \<Rightarrow> idx)
     | Domain_Other _ \<Rightarrow> idx)"

definition buildGeoIndex :: "(string \<Rightarrow> (string \<Rightarrow> bool) option) \<Rightarrow> GeoSiteDomain list \<Rightarrow> geoIndex" where
  "buildGeoIndex compile domains =
    indexLoop compile domains \<lparr>suffixes = {}, exact = {}, plains = [], regexes = []\<rparr>"

fun suffixLoop :: "string set \<Rightarrow> string \<Rightarrow> bool" where
  "suffixLoop S [] = False"
| "suffixLoop S (c # cs) = (if c = CHR ''.'' \<and> cs \<in> S then True else suffixLoop S cs)"

fun str_Contains :: "string \<Rightarrow> string \<Rightarrow> bool" where
  "str_Contains [] p = HasPrefix [] p"
| "str_Contains (c # cs) p = (HasPrefix (c # cs) p \<or> str_Contains cs p)"

definition geoIndex_match :: "geoIndex \<Rightarrow> string \<Rightarrow> bool" where
  "geoIndex_match idx host =
    (if host \<in> exact idx then True
     else if host \<in> suffixes idx then True
     else if suffixLoop (suffixes idx) host then True
     else if list_ex (str_Contains host) (plains idx) then True
     else list_ex (\<lambda>re. re host) (regexes idx))"

definition domainSuffixMatch :: "string \<Rightarrow> string \<Rightarrow> bool" where
  "domainSuffixMatch suffix host =
    (if length host < length suffix then False
     else if host = suffix then True
     else if \<not> HasSuffix host suffix then False
     else host ! (length host - length suffix - 1) = CHR ''.'')"

section \<open>Geosite database\<close>

record GeoSite =
  gsCountryCode :: string
  gsDomain :: "GeoSiteDomain option list"

type_synonym GeoSiteDB = "string \<rightharpoonup> geoIndex"

fun siteDomains :: "unicode_lib \<Rightarrow> GeoSiteDomain option list \<Rightarrow> GeoSiteDomain list" where
  "siteDomains U [] = []"
| "siteDomains U (None # ds) = siteDomains U ds"
| "siteDomains U (Some d # ds) =
    (if gdValue d = [] then siteDomains U ds
     else \<lparr>gdType = gdType d, gdValue = ToLower U (gdValue d)\<rparr> # siteDomains U ds)"

fun siteLoop ::
  "unicode_lib \<Rightarrow> (string \<Rightarrow> (string \<Rightarrow> bool) option) \<Rightarrow> GeoSite option list \<Rightarrow> GeoSiteDB \<Rightarrow> GeoSiteDB" where
  "siteLoop U compile [] db = db"
| "siteLoop U compile (None # es) db = siteLoop U compile es db"
| "siteLoop U compile (Some e # es) db =
    (if gsCountryCode e = [] then siteLoop U compile es db
     else
       (let key = ToUpper U (gsCountryCode e); domains = siteDomains U (gsDomain e) in
        siteLoop U compile es (if length domains > 0 then db(key \<mapsto> buildGeoIndex compile domains) else db)))"

definition geoSiteFromBytes ::
  "unicode_lib \<Rightarrow> (string \<Rightarrow> (string \<Rightarrow> bool) option) \<Rightarrow> GeoSite option list option \<Rightarrow> GeoSiteDB result" where
  "geoSiteFromBytes U compile decoded =
    (case decoded of
       None \<Rightarrow> Inl (Errorf ''not a GeoSiteList'')
     | Some list \<Rightarrow> Inr (siteLoop U compile list Map.empty))"

definition GeoSite_Lookup :: "unicode_lib \<Rightarrow> GeoSiteDB \<Rightarrow> string \<Rightarrow> geoIndex option" where
  "GeoSite_Lookup U db name = db (ToUpper U name)"

section \<open>Geoip database\<close>

record CIDR =
  cidrIp :: bytes
  cidrPrefix :: u32

record GeoIP =
  giCountryCode :: string
  giCidr :: "CIDR option list"

type_synonym GeoIPDB = "string \<rightharpoonup> Prefix list"

type_synonym slice_sort = "(Prefix \<Rightarrow> Prefix \<Rightarrow> bool) \<Rightarrow> Prefix list \<Rightarrow> Prefix list"

fun ipPrefixes :: "CIDR option list \<Rightarrow> Prefix list" where
  "ipPrefixes [] = []"
| "ipPrefixes (None # cs) = ipPrefixes cs"
| "ipPrefixes (Some c # cs) =
    (if length (cidrIp c) = 0 then ipPrefixes cs
     else
       (case AddrFromSlice (cidrIp c) of
          None \<Rightarrow> ipPrefixes cs
        | Some a \<Rightarrow>
            (let p = PrefixFrom a (int (unat (cidrPrefix c))) in
             if \<not> Prefix_IsValid p then ipPrefixes cs else Masked p # ipPrefixes cs)))"

definition startLess :: "Prefix \<Rightarrow> Prefix \<Rightarrow> bool" where
  "startLess p q \<longleftrightarrow> addr_Less (pfAddr p) (pfAddr q)"

fun ipLoop :: "unicode_lib \<Rightarrow> slice_sort \<Rightarrow> GeoIP option list \<Rightarrow> GeoIPDB \<Rightarrow> GeoIPDB" where
  "ipLoop U sort_Slice [] db = db"
| "ipLoop U sort_Slice (None # es) db = ipLoop U sort_Slice es db"
| "ipLoop U sort_Slice (Some e # es) db =
    (if giCountryCode e = [] then ipLoop U sort_Slice es db
     else
       (let key = ToUpper U (giCountryCode e); prefixes = ipPrefixes (giCidr e) in
        if length prefixes = 0 then ipLoop U sort_Slice es db
        else ipLoop U sort_Slice es (db(key \<mapsto> sort_Slice startLess prefixes))))"

definition geoIPFromBytes :: "unicode_lib \<Rightarrow> slice_sort \<Rightarrow> GeoIP option list option \<Rightarrow> GeoIPDB result" where
  "geoIPFromBytes U sort_Slice decoded =
    (case decoded of
       None \<Rightarrow> Inl (Errorf ''not a GeoIPList'')
     | Some list \<Rightarrow> Inr (ipLoop U sort_Slice list Map.empty))"

definition GeoIP_Lookup :: "unicode_lib \<Rightarrow> GeoIPDB \<Rightarrow> string \<Rightarrow> Prefix list option" where
  "GeoIP_Lookup U db name = db (ToUpper U name)"

text \<open>\<open>sort.Search\<close> and the backward scan of \<open>Contains\<close>.\<close>

function searchLoop :: "(nat \<Rightarrow> bool) \<Rightarrow> nat \<Rightarrow> nat \<Rightarrow> nat" where
  "searchLoop f i j =
    (if i < j then
       (let h = (i + j) div 2 in if \<not> f h then searchLoop f (h + 1) j else searchLoop f i h)
     else i)"
  by pat_completeness auto
termination
  by (relation "measure (\<lambda>(f, i, j). j - i)") auto

declare searchLoop.simps [simp del]

definition sort_Search :: "nat \<Rightarrow> (nat \<Rightarrow> bool) \<Rightarrow> nat" where
  "sort_Search n f = searchLoop f 0 n"

fun scanDown :: "Prefix list \<Rightarrow> addr \<Rightarrow> nat \<Rightarrow> bool" where
  "scanDown prefixes ip 0 = False"
| "scanDown prefixes ip (Suc j) = (if Prefix_Contains (prefixes ! j) ip then True else scanDown prefixes ip j)"

definition GeoIP_Contains :: "unicode_lib \<Rightarrow> GeoIPDB \<Rightarrow> string \<Rightarrow> addr \<Rightarrow> bool" where
  "GeoIP_Contains U db name ip =
    (case GeoIP_Lookup U db name of
       None \<Rightarrow> False
     | Some prefixes \<Rightarrow>
         (let i = sort_Search (length prefixes) (\<lambda>i. addr_Compare (pfAddr (prefixes ! i)) ip > 0) in
          scanDown prefixes ip i))"

section \<open>The built-in table\<close>

definition builtinCNCIDR :: "string list" where
  "builtinCNCIDR = [
    ''58.32.0.0/13'', ''58.48.0.0/13'', ''58.192.0.0/11'', ''59.32.0.0/13'', ''59.64.0.0/12'', ''60.0.0.0/11'',
    ''60.160.0.0/11'', ''60.208.0.0/12'', ''61.128.0.0/10'', ''61.232.0.0/14'', ''61.240.0.0/14'',
    ''60.8.0.0/13'', ''60.16.0.0/12'', ''60.100.0.0/13'', ''60.128.0.0/11'', ''101.64.0.0/12'',
    ''101.80.0.0/12'', ''101.132.0.0/14'', ''101.144.0.0/12'', ''106.16.0.0/12'', ''106.32.0.0/12'',
    ''110.64.0.0/10'', ''110.176.0.0/12'', ''110.192.0.0/11'', ''110.240.0.0/12'', ''111.0.0.0/10'',
    ''111.64.0.0/11'', ''111.128.0.0/11'', ''111.192.0.0/12'', ''112.0.0.0/10'', ''112.96.0.0/13'',
    ''112.128.0.0/9'', ''113.0.0.0/13'', ''113.64.0.0/10'', ''113.128.0.0/14'', ''113.136.0.0/13'',
    ''113.204.0.0/14'', ''113.224.0.0/12'', ''114.80.0.0/12'', ''114.104.0.0/13'', ''114.112.0.0/14'',
    ''114.216.0.0/13'', ''115.48.0.0/12'', ''115.192.0.0/11'', ''115.224.0.0/12'', ''116.16.0.0/12'',
    ''116.32.0.0/12'', ''116.128.0.0/10'', ''116.192.0.0/12'', ''116.248.0.0/13'', ''117.8.0.0/13'',
    ''117.32.0.0/11'', ''117.64.0.0/11'', ''117.80.0.0/12'', ''117.128.0.0/10'', ''118.64.0.0/12'',
    ''118.112.0.0/13'', ''118.192.0.0/12'', ''118.224.0.0/12'', ''119.32.0.0/12'', ''119.64.0.0/13'',
    ''119.88.0.0/13'', ''119.96.0.0/13'', ''119.128.0.0/12'', ''119.160.0.0/11'', ''120.0.0.0/12'',
    ''120.32.0.0/12'', ''120.64.0.0/11'', ''120.96.0.0/12'', ''120.128.0.0/11'', ''120.160.0.0/11'',
    ''120.192.0.0/10'', ''121.8.0.0/13'', ''121.32.0.0/12'', ''121.60.0.0/14'', ''121.64.0.0/12'',
    ''121.204.0.0/14'', ''121.224.0.0/12'', ''122.4.0.0/14'', ''122.64.0.0/11'', ''122.96.0.0/14'',
    ''122.112.0.0/13'', ''122.128.0.0/12'', ''122.192.0.0/12'', ''122.224.0.0/12'', ''123.4.0.0/14'',
    ''123.8.0.0/13'', ''123.64.0.0/11'', ''123.96.0.0/13'', ''123.112.0.0/12'', ''123.128.0.0/12'',
    ''123.144.0.0/12'', ''123.160.0.0/12'', ''123.184.0.0/13'', ''123.232.0.0/14'', ''124.20.0.0/14'',
    ''124.64.0.0/15'', ''124.68.0.0/14'', ''124.72.0.0/13'', ''124.88.0.0/13'', ''124.112.0.0/13'',
    ''124.128.0.0/12'', ''124.160.0.0/12'', ''124.172.0.0/14'', ''124.192.0.0/15'', ''124.200.0.0/13'',
    ''124.224.0.0/12'', ''125.32.0.0/12'', ''125.40.0.0/13'', ''125.64.0.0/11'', ''125.104.0.0/12'',
    ''125.112.0.0/12'', ''125.208.0.0/12'', ''39.64.0.0/11'', ''39.96.0.0/13'', ''39.104.0.0/14'',
    ''39.108.0.0/14'', ''36.0.0.0/11'', ''36.40.0.0/13'', ''36.48.0.0/13'', ''36.96.0.0/11'', ''36.128.0.0/10'',
    ''39.128.0.0/10'', ''39.192.0.0/11'', ''111.132.0.0/14'', ''112.64.0.0/11'', ''117.100.0.0/14'',
    ''117.120.0.0/13'', ''120.196.0.0/13'', ''120.208.0.0/13'', ''120.216.0.0/13'', ''134.96.0.0/15'',
    ''139.9.0.0/16'', ''139.196.0.0/14'', ''139.208.0.0/12'', ''139.224.0.0/12'', ''150.115.0.0/16'',
    ''150.120.0.0/14'', ''150.138.0.0/15'', ''182.32.0.0/12'', ''182.48.0.0/13'', ''182.88.0.0/13'',
    ''182.96.0.0/12'', ''182.112.0.0/12'', ''182.128.0.0/11'', ''182.144.0.0/12'', ''182.200.0.0/13'',
    ''182.240.0.0/13'', ''183.0.0.0/10'', ''183.64.0.0/13'', ''183.80.0.0/13'', ''183.84.0.0/14'',
    ''183.128.0.0/11'', ''183.160.0.0/11'', ''183.192.0.0/10'', ''211.136.0.0/13'', ''218.200.0.0/13'',
    ''218.204.0.0/14'', ''221.130.0.0/15'', ''221.176.0.0/13'', ''223.0.0.0/12'', ''223.64.0.0/11'',
    ''223.96.0.0/12'', ''223.112.0.0/12'', ''223.120.0.0/13'', ''223.128.0.0/12'', ''223.144.0.0/12'',
    ''223.160.0.0/12'', ''223.176.0.0/12'', ''223.192.0.0/12'', ''223.208.0.0/12'', ''223.224.0.0/12'',
    ''223.240.0.0/13'', ''223.248.0.0/14'', ''162.105.0.0/16'', ''166.111.0.0/16'', ''202.112.0.0/15'',
    ''202.114.0.0/15'', ''202.116.0.0/15'', ''202.118.0.0/15'', ''202.119.0.0/15'', ''202.120.0.0/13'',
    ''202.192.0.0/12'', ''210.28.0.0/14'', ''210.32.0.0/12'', ''100.64.0.0/10'', ''101.16.0.0/12'',
    ''101.192.0.0/13'', ''101.200.0.0/13'', ''101.224.0.0/12'', ''106.108.0.0/14'', ''106.112.0.0/13'',
    ''106.120.0.0/13'', ''116.24.0.0/13'', ''118.24.0.0/13'', ''118.80.0.0/13'', ''119.0.0.0/15'',
    ''119.144.0.0/13'', ''119.28.0.0/15'', ''119.29.0.0/16'', ''119.96.0.0/13'', ''171.8.0.0/13'',
    ''171.80.0.0/12'', ''171.104.0.0/13'', ''171.112.0.0/12'', ''171.208.0.0/12'', ''171.224.0.0/11'',
    ''175.16.0.0/13'', ''175.48.0.0/12'', ''175.64.0.0/11'', ''175.160.0.0/12'', ''175.188.0.0/14'',
    ''180.76.0.0/14'', ''180.96.0.0/11'', ''180.136.0.0/13'', ''180.160.0.0/12'', ''180.184.0.0/14'',
    ''180.200.0.0/13'', ''192.144.0.0/14'', ''202.96.0.0/16'', ''202.97.0.0/16'', ''202.98.0.0/16'',
    ''202.99.0.0/16'', ''202.100.0.0/15'', ''202.102.0.0/15'', ''202.104.0.0/15'', ''202.106.0.0/15'',
    ''202.108.0.0/15'', ''202.110.0.0/15'', ''203.86.0.0/16'', ''203.93.0.0/16'', ''203.135.96.0/19'',
    ''210.12.0.0/15'', ''210.21.0.0/16'', ''210.22.0.0/16'', ''210.51.0.0/16'', ''210.52.0.0/15'',
    ''210.72.0.0/14'', ''210.80.0.0/15'', ''211.64.0.0/13'', ''211.80.0.0/12'', ''211.96.0.0/13'',
    ''211.144.0.0/12'', ''218.0.0.0/14'', ''218.16.0.0/14'', ''218.56.0.0/13'', ''218.64.0.0/13'',
    ''218.88.0.0/13'', ''218.104.0.0/14'', ''218.192.0.0/12'', ''218.240.0.0/13'', ''219.128.0.0/12'',
    ''219.216.0.0/13'', ''219.232.0.0/13'', ''219.248.0.0/13'', ''220.112.0.0/13'', ''220.160.0.0/11'',
    ''220.192.0.0/12'', ''220.248.0.0/14'', ''221.0.0.0/13'', ''221.8.0.0/14'', ''221.12.0.0/14'',
    ''221.16.0.0/13'', ''221.128.0.0/13'', ''221.144.0.0/12'', ''221.192.0.0/13'', ''221.208.0.0/12'',
    ''221.224.0.0/12'', ''222.16.0.0/12'', ''222.32.0.0/11'', ''222.64.0.0/11'', ''222.126.0.0/15'',
    ''222.128.0.0/12'', ''222.168.0.0/13'', ''222.176.0.0/12'', ''222.192.0.0/11'']"

definition builtinCNPrefixes :: "Prefix list" where
  "builtinCNPrefixes = map Masked (List.map_filter ParsePrefix builtinCNCIDR)"

definition builtinCNContains :: "addr \<Rightarrow> bool" where
  "builtinCNContains ip =
    (case ip of
       V6 _ _ \<Rightarrow> False
     | V4 _ \<Rightarrow> list_ex (\<lambda>p. Prefix_Contains p ip) builtinCNPrefixes)"

section \<open>Lemmas\<close>

text \<open>The index against a scan of the category's rules.\<close>

fun domain_hit :: "(string \<Rightarrow> (string \<Rightarrow> bool) option) \<Rightarrow> string \<Rightarrow> GeoSiteDomain \<Rightarrow> bool" where
  "domain_hit compile host d =
    (case gdType d of
       Domain_Full \<Rightarrow> host = gdValue d
     | Domain_RootDomain \<Rightarrow> domainSuffixMatch (gdValue d) host
     | Domain_Plain \<Rightarrow> (\<exists>a b. host = a @ gdValue d @ b)
     | Domain_Regex \<Rightarrow> (case compile (gdValue d) of Some re \<Rightarrow> re host | None \<Rightarrow> False)
     | Domain_Other _ \<Rightarrow> False)"

lemma suffixLoop_iff: "suffixLoop S host \<longleftrightarrow> (\<exists>a v. v \<in> S \<and> host = a @ CHR ''.'' # v)"
proof (induction host)
  case (Cons c cs)
  show ?case
  proof
    assume "suffixLoop S (c # cs)"
    then show "\<exists>a v. v \<in> S \<and> c # cs = a @ CHR ''.'' # v"
      using Cons.IH by (fastforce split: if_splits intro: exI [of _ "[]"] exI [of _ "c # _"])
  next
    assume "\<exists>a v. v \<in> S \<and> c # cs = a @ CHR ''.'' # v"
    then obtain a v where v: "v \<in> S" "c # cs = a @ CHR ''.'' # v" by blast
    then show "suffixLoop S (c # cs)" using Cons.IH by (cases a) auto
  qed
qed simp

lemma str_Contains_iff: "str_Contains s p \<longleftrightarrow> (\<exists>a b. s = a @ p @ b)"
proof (induction s)
  case Nil
  then show ?case by (auto simp: HasPrefix_def)
next
  case (Cons c cs)
  have h: "HasPrefix (c # cs) p \<longleftrightarrow> (\<exists>b. c # cs = p @ b)"
    unfolding HasPrefix_def by (metis append_eq_conv_conj append_take_drop_id)
  show ?case
  proof
    assume "str_Contains (c # cs) p"
    then consider b where "c # cs = p @ b" | a b where "cs = a @ p @ b" using Cons.IH h by auto
    then show "\<exists>a b. c # cs = a @ p @ b"
    proof cases
      case (1 b)
      then show ?thesis by (intro exI [of _ "[]"] exI [of _ b]) simp
    next
      case (2 a b)
      then show ?thesis by (intro exI [of _ "c # a"] exI [of _ b]) simp
    qed
  next
    assume "\<exists>a b. c # cs = a @ p @ b"
    then obtain a b where "c # cs = a @ p @ b" by blast
    then consider "c # cs = p @ b" | a' where "cs = a' @ p @ b" by (cases a) auto
    then show "str_Contains (c # cs) p"
    proof cases
      case 1
      then have "HasPrefix (c # cs) p" using h by blast
      then show ?thesis by simp
    next
      case 2
      then have "str_Contains cs p" using Cons.IH by blast
      then show ?thesis by simp
    qed
  qed
qed

lemma domainSuffixMatch_iff:
  "domainSuffixMatch v host \<longleftrightarrow> host = v \<or> (\<exists>a. host = a @ CHR ''.'' # v)"
proof
  assume m: "domainSuffixMatch v host"
  show "host = v \<or> (\<exists>a. host = a @ CHR ''.'' # v)"
  proof (cases "host = v")
    case False
    then have h: "length v \<le> length host" "drop (length host - length v) host = v"
      "host ! (length host - length v - 1) = CHR ''.''"
      using m by (auto simp: domainSuffixMatch_def HasSuffix_def split: if_splits)
    then have "length v < length host" using False by (metis diff_self_eq_0 drop0 le_neq_implies_less)
    then have "drop (length host - length v - 1) host = CHR ''.'' # v"
      using h Cons_nth_drop_Suc [of "length host - length v - 1" host] by (simp add: Suc_diff_Suc)
    then show ?thesis by (metis append_take_drop_id)
  qed simp
next
  assume "host = v \<or> (\<exists>a. host = a @ CHR ''.'' # v)"
  then show "domainSuffixMatch v host" by (auto simp: domainSuffixMatch_def HasSuffix_def nth_append)
qed

lemma indexLoop_match:
  "geoIndex_match (indexLoop compile ds idx) host \<longleftrightarrow>
   geoIndex_match idx host \<or> (\<exists>d\<in>set ds. domain_hit compile host d)"
proof (induction ds arbitrary: idx)
  case (Cons d ds)
  show ?case
  proof (cases "gdType d")
    case Domain_RootDomain
    then show ?thesis using Cons.IH by (auto simp: geoIndex_match_def suffixLoop_iff domainSuffixMatch_iff)
  next
    case Domain_Plain
    then show ?thesis using Cons.IH by (auto simp: geoIndex_match_def str_Contains_iff)
  next
    case Domain_Regex
    then show ?thesis using Cons.IH by (auto simp: geoIndex_match_def split: option.split)
  qed (use Cons.IH in \<open>auto simp: geoIndex_match_def\<close>)
qed simp

text \<open>Binary search on a predicate that stays true once it is true.\<close>

lemma searchLoop_boundary:
  "\<forall>a b. a \<le> b \<longrightarrow> b < n \<longrightarrow> f a \<longrightarrow> f b \<Longrightarrow> i \<le> j \<Longrightarrow> j \<le> n \<Longrightarrow>
   \<forall>k<i. \<not> f k \<Longrightarrow> \<forall>k. j \<le> k \<longrightarrow> k < n \<longrightarrow> f k \<Longrightarrow>
   searchLoop f i j \<le> n \<and> (\<forall>k < searchLoop f i j. \<not> f k) \<and> (\<forall>k. searchLoop f i j \<le> k \<longrightarrow> k < n \<longrightarrow> f k)"
proof (induction f i j rule: searchLoop.induct)
  case (1 f i j)
  show ?case
  proof (cases "i < j")
    case True
    let ?h = "(i + j) div 2"
    have h: "i \<le> ?h" "?h < j" using True by auto
    show ?thesis
    proof (cases "f ?h")
      case False
      have lo: "\<forall>k < ?h + 1. \<not> f k"
      proof (intro allI impI notI)
        fix k assume "k < ?h + 1" "f k"
        then have "k \<le> ?h" "?h < n" using "1.prems"(3) h by simp_all
        with \<open>f k\<close> have "f ?h" using "1.prems"(1) by blast
        with False show False ..
      qed
      have e: "searchLoop f i j = searchLoop f (?h + 1) j" using True False by (simp add: searchLoop.simps [of f i j] Let_def)
      show ?thesis unfolding e
        by (rule "1.IH"(1) [OF True refl False "1.prems"(1) _ "1.prems"(3) lo "1.prems"(5)]) (use h in simp)
    next
      case fh: True
      have hi: "\<forall>k. ?h \<le> k \<longrightarrow> k < n \<longrightarrow> f k" using fh "1.prems"(1) by blast
      have e: "searchLoop f i j = searchLoop f i ?h" using True fh by (simp add: searchLoop.simps [of f i j] Let_def)
      show ?thesis unfolding e
        by (rule "1.IH"(2) [OF True refl _ "1.prems"(1) h(1) _ "1.prems"(4) hi]) (use h fh "1.prems"(3) in simp_all)
    qed
  next
    case False
    then have "searchLoop f i j = i" "i = j"
      using "1.prems"(2) searchLoop.simps [of f i j] by (simp_all del: searchLoop.simps)
    then show ?thesis using "1.prems"(3-5) by simp
  qed
qed

lemma scanDown_iff: "scanDown ps ip j \<longleftrightarrow> (\<exists>k<j. Prefix_Contains (ps ! k) ip)"
  by (induction j) (auto simp: less_Suc_eq)

text \<open>Addresses without a zone, as the start addresses are, are ordered by width, then by value.\<close>

lemma addr_Compare_start:
  assumes "addr_zone a = []"
  shows "addr_Compare a ip > 0 \<longleftrightarrow> (BitLen ip, addr_val ip) < (BitLen a, addr_val a)"
  using assms by (cases "addr_zone ip") (auto simp: addr_Compare_def)

lemma addr_Less_start:
  assumes "addr_zone a = []" "addr_zone b = []"
  shows "addr_Less a b \<longleftrightarrow> (BitLen a, addr_val a) < (BitLen b, addr_val b)"
  using assms by (auto simp: addr_Less_def addr_Compare_def)

text \<open>What \<open>sort.Slice\<close> promises for start addresses, which carry no zone.\<close>

definition sorts_starts :: "slice_sort \<Rightarrow> bool" where
  "sorts_starts S \<longleftrightarrow>
    (\<forall>ps. (\<forall>p\<in>set ps. addr_zone (pfAddr p) = []) \<longrightarrow>
       mset (S startLess ps) = mset ps \<and> sorted_wrt (\<lambda>p q. \<not> startLess q p) (S startLess ps))"

lemma PrefixFrom_wf: "AddrFromSlice b = Some a \<Longrightarrow> Prefix_IsValid (PrefixFrom a n) \<Longrightarrow> prefix_wf (PrefixFrom a n)"
  using AddrFromSlice_wf [of b a] by (cases a) (auto simp: prefix_wf_def PrefixFrom_def Prefix_IsValid_def split: if_splits)

lemma ipPrefixes_masked: "p \<in> set (ipPrefixes cs) \<Longrightarrow> \<exists>q. prefix_wf q \<and> p = Masked q"
  by (induction cs rule: ipPrefixes.induct) (auto simp: Let_def dest: PrefixFrom_wf split: if_splits option.splits)

text \<open>The invariant of a loaded database: every category is sorted and holds masked prefixes only.\<close>

definition geoip_inv :: "GeoIPDB \<Rightarrow> bool" where
  "geoip_inv db \<longleftrightarrow> (\<forall>ps\<in>ran db. sorted_wrt (\<lambda>p q. \<not> startLess q p) ps \<and>
     (\<forall>p\<in>set ps. \<exists>q. prefix_wf q \<and> p = Masked q))"

lemma ipLoop_inv: "sorts_starts S \<Longrightarrow> geoip_inv db \<Longrightarrow> geoip_inv (ipLoop U S es db)"
proof (induction U S es db rule: ipLoop.induct)
  case (3 U S e es db)
  have "geoip_inv (db(ToUpper U (giCountryCode e) \<mapsto> S startLess (ipPrefixes (giCidr e))))"
  proof -
    have "addr_zone (pfAddr p) = []" if "p \<in> set (ipPrefixes (giCidr e))" for p
      using ipPrefixes_masked [OF that] Masked_wf unfolding prefix_wf_def by metis
    then have m: "mset (S startLess (ipPrefixes (giCidr e))) = mset (ipPrefixes (giCidr e))"
      "sorted_wrt (\<lambda>p q. \<not> startLess q p) (S startLess (ipPrefixes (giCidr e)))"
      using 3(4) unfolding sorts_starts_def by blast+
    note m(2)
    moreover have "set (S startLess (ipPrefixes (giCidr e))) = set (ipPrefixes (giCidr e))"
      using m(1) by (rule mset_eq_setD)
    ultimately show ?thesis
      using 3(5) ipPrefixes_masked by (auto simp: geoip_inv_def ran_def)
  qed
  note new = 3(3) [OF _ refl refl _ 3(4) this] and old = 3(2) [OF _ refl refl _ 3(4,5)]
  show ?case
  proof (cases "giCountryCode e = []")
    case True
    then show ?thesis using 3(1) [OF True 3(4,5)] by simp
  next
    case False
    then show ?thesis
      using new [OF False] old [OF False]
      by (cases "length (ipPrefixes (giCidr e)) = 0") (simp_all add: Let_def del: fun_upd_apply)
  qed
qed auto

lemma sorted_starts_contains:
  assumes "sorted_wrt (\<lambda>p q. \<not> startLess q p) ps" "\<forall>p\<in>set ps. \<exists>q. prefix_wf q \<and> p = Masked q" "addr_wf ip"
  shows "scanDown ps ip (sort_Search (length ps) (\<lambda>i. addr_Compare (pfAddr (ps ! i)) ip > 0)) \<longleftrightarrow>
    (\<exists>p\<in>set ps. Prefix_Contains p ip)"
proof -
  let ?f = "\<lambda>i. addr_Compare (pfAddr (ps ! i)) ip > 0"
  let ?i = "sort_Search (length ps) ?f"
  have z: "addr_zone (pfAddr (ps ! k)) = []" if "k < length ps" for k
    using assms(2) Masked_wf nth_mem [OF that] unfolding prefix_wf_def by metis
  have "?f b" if "a \<le> b" "b < length ps" "?f a" for a b
  proof (cases "a = b")
    case False
    then have "\<not> addr_Less (pfAddr (ps ! b)) (pfAddr (ps ! a))"
      using assms(1) that by (simp add: sorted_wrt_iff_nth_less startLess_def)
    then have "(BitLen (pfAddr (ps ! a)), addr_val (pfAddr (ps ! a))) \<le> (BitLen (pfAddr (ps ! b)), addr_val (pfAddr (ps ! b)))"
      using that z by (simp only: addr_Less_start not_less)
    moreover have "(BitLen ip, addr_val ip) < (BitLen (pfAddr (ps ! a)), addr_val (pfAddr (ps ! a)))"
      using that z [of a] addr_Compare_start by simp
    ultimately have "(BitLen ip, addr_val ip) < (BitLen (pfAddr (ps ! b)), addr_val (pfAddr (ps ! b)))" by (rule less_le_trans [rotated])
    with that z [of b] addr_Compare_start show ?thesis by simp
  qed (use that in simp)
  then have mono: "\<forall>a b. a \<le> b \<longrightarrow> b < length ps \<longrightarrow> ?f a \<longrightarrow> ?f b" by blast
  have bd: "?i \<le> length ps \<and> (\<forall>k < ?i. \<not> ?f k) \<and> (\<forall>k. ?i \<le> k \<longrightarrow> k < length ps \<longrightarrow> ?f k)"
    unfolding sort_Search_def
  proof (rule searchLoop_boundary [OF mono le0 order_refl])
    show "\<forall>k. length ps \<le> k \<longrightarrow> k < length ps \<longrightarrow> ?f k" by (intro allI impI) linarith
  qed simp
  have s: "?i \<le> length ps" "\<forall>k. ?i \<le> k \<longrightarrow> k < length ps \<longrightarrow> ?f k"
    using bd by blast+
  have "k < ?i" if k: "k < length ps" "Prefix_Contains (ps ! k) ip" for k
  proof (rule ccontr)
    assume "\<not> k < ?i"
    then have "?f k" using s(2) k(1) by (meson not_le)
    moreover obtain q where q: "prefix_wf q" "ps ! k = Masked q" using assms(2) nth_mem [OF k(1)] by blast
    have "addr_val (pfAddr (ps ! k)) \<le> addr_val ip" "BitLen (pfAddr (ps ! k)) = BitLen ip"
      using Masked_start_le [OF q(1) assms(3)] k(2) unfolding q(2) by simp_all
    ultimately show False using z [OF k(1)] by (simp add: addr_Compare_start)
  qed
  then have "(\<exists>k < ?i. Prefix_Contains (ps ! k) ip) \<longleftrightarrow> (\<exists>k < length ps. Prefix_Contains (ps ! k) ip)"
    using s(1) by (meson less_le_trans)
  then show ?thesis unfolding scanDown_iff by (metis in_set_conv_nth)
qed

text \<open>
  The index of a geosite category answers as a scan of its rules does, for every host and
  every list of rules: an exact rule matches the host itself, a root domain matches the host and
  its subdomains at a label boundary (as \<open>domainSuffixMatch\<close> does for \<open>domain:\<close> rules), a plain rule
  matches a substring, and a regular expression that compiles is applied.
\<close>

lemma geoIndex_match_scan:
  "geoIndex_match (buildGeoIndex compile domains) host \<longleftrightarrow> (\<exists>d\<in>set domains. domain_hit compile host d)"
  by (simp add: buildGeoIndex_def indexLoop_match) (simp add: geoIndex_match_def suffixLoop_iff)

text \<open>
  C19. The binary search of \<open>GeoIPDB.Contains\<close> loses nothing: for every database built from a
  decoded file, an address is in a category exactly when some prefix of the category contains it,
  although only prefixes that start at or before the address are looked at. \<open>sort.Slice\<close> is any
  function that permutes its argument into an order without inversions.
\<close>

lemma GeoIP_Contains_scan:
  assumes "sorts_starts sort_Slice" "geoIPFromBytes U sort_Slice decoded = Inr db" "addr_wf ip"
  shows "GeoIP_Contains U db name ip \<longleftrightarrow>
    (\<exists>ps. GeoIP_Lookup U db name = Some ps \<and> (\<exists>p\<in>set ps. Prefix_Contains p ip))"
proof -
  have "geoip_inv db"
    using assms(2) ipLoop_inv [OF assms(1), of Map.empty U]
    by (auto simp: geoIPFromBytes_def geoip_inv_def split: option.splits)
  show ?thesis
  proof (cases "GeoIP_Lookup U db name")
    case (Some ps)
    then have "ps \<in> ran db" by (auto simp: GeoIP_Lookup_def ran_def)
    with \<open>geoip_inv db\<close> have "scanDown ps ip (sort_Search (length ps) (\<lambda>i. addr_Compare (pfAddr (ps ! i)) ip > 0)) \<longleftrightarrow>
        (\<exists>p\<in>set ps. Prefix_Contains p ip)"
      by (intro sorted_starts_contains [OF _ _ assms(3)]) (simp_all add: geoip_inv_def)
    then show ?thesis using Some by (simp add: GeoIP_Contains_def Let_def)
  qed (simp add: GeoIP_Contains_def)
qed

section \<open>Witnesses\<close>

definition sort_starts :: slice_sort where
  "sort_starts lt ps = sort_key (\<lambda>p. (BitLen (pfAddr p), addr_val (pfAddr p))) ps"

lemma sort_starts_sorts: "sorts_starts sort_starts"
proof -
  have "sorted_wrt (\<lambda>p q. \<not> startLess q p) (sort_starts startLess ps)"
    if "\<forall>p\<in>set ps. addr_zone (pfAddr p) = []" for ps
  proof -
    have "sorted_wrt (\<lambda>p q. (BitLen (pfAddr p), addr_val (pfAddr p)) \<le> (BitLen (pfAddr q), addr_val (pfAddr q)))
        (sort_starts startLess ps)"
      using sorted_sort_key [of "\<lambda>p. (BitLen (pfAddr p), addr_val (pfAddr p))" ps] unfolding sort_starts_def sorted_map .
    then show ?thesis
    proof (rule sorted_wrt_mono_rel [rotated])
      fix p q assume "p \<in> set (sort_starts startLess ps)" "q \<in> set (sort_starts startLess ps)"
      then have "addr_zone (pfAddr p) = []" "addr_zone (pfAddr q) = []" using that by (simp_all add: sort_starts_def)
      then show "(BitLen (pfAddr p), addr_val (pfAddr p)) \<le> (BitLen (pfAddr q), addr_val (pfAddr q)) \<Longrightarrow> \<not> startLess q p"
        unfolding startLess_def addr_Less_start [OF \<open>addr_zone (pfAddr q) = []\<close> \<open>addr_zone (pfAddr p) = []\<close>] by (simp only: not_less)
    qed
  qed
  then show ?thesis by (simp add: sorts_starts_def sort_starts_def)
qed

definition wit_geoip :: "GeoIP option list" where
  "wit_geoip = [None, Some \<lparr>giCountryCode = ''cn'',
     giCidr = [Some \<lparr>cidrIp = [36, 96, 7, 7], cidrPrefix = 11\<rparr>, Some \<lparr>cidrIp = [1, 2, 3], cidrPrefix = 8\<rparr>,
               Some \<lparr>cidrIp = [1, 0, 1, 0], cidrPrefix = 24\<rparr>]\<rparr>]"

definition wit_unicode :: unicode_lib where
  "wit_unicode = \<lparr>uc_ToLower = id, uc_ToUpper = id, uc_TrimSpace = id, uc_TrimRightSpace = id\<rparr>"

lemma GeoIP_Contains_scan_witness:
  "case geoIPFromBytes wit_unicode sort_starts (Some wit_geoip) of
     Inl _ \<Rightarrow> False
   | Inr db \<Rightarrow> GeoIP_Contains wit_unicode db ''CN'' (V4 [36, 100, 1, 2])"
proof -
  let ?ps = "sort_starts startLess (ipPrefixes (giCidr (the (wit_geoip ! 1))))"
  obtain db where db: "geoIPFromBytes wit_unicode sort_starts (Some wit_geoip) = Inr db" by (simp add: geoIPFromBytes_def)
  have u: "ToUpper wit_unicode ''cn'' = ''CN''" "ToUpper wit_unicode ''CN'' = ''CN''" by code_simp+
  let ?p = "PrefixFrom (V4 [36, 96, 7, 7]) 11" and ?ip = "V4 [36, 100, 1, 2]"
  have ne: "Masked ?p \<in> set ?ps" "ipPrefixes (giCidr (the (wit_geoip ! 1))) \<noteq> []"
    by (simp_all add: sort_starts_def wit_geoip_def AddrFromSlice_def PrefixFrom_def Prefix_IsValid_def Let_def del: be_nat.simps)
  have "GeoIP_Lookup wit_unicode db ''CN'' = Some ?ps"
    using db ne(2) u by (auto simp: GeoIP_Lookup_def geoIPFromBytes_def wit_geoip_def Let_def)
  moreover have "prefix_wf ?p" by (simp add: prefix_wf_def PrefixFrom_def Prefix_IsValid_def)
  then have "Prefix_Contains (Masked ?p) ?ip \<longleftrightarrow> Prefix_Contains ?p ?ip" by (rule Masked_Contains) simp
  moreover have "Prefix_Contains ?p ?ip" by (simp add: Prefix_Contains_def PrefixFrom_def Prefix_IsValid_def)
  ultimately have "GeoIP_Contains wit_unicode db ''CN'' ?ip"
    using GeoIP_Contains_scan [OF sort_starts_sorts db, of ?ip "''CN''"] ne(1) by auto
  then show ?thesis using db by simp
qed

end
