(* ===== verification/Route_Rules.thy ===== *)
theory Route_Rules
  imports Route_Geo Netaddr
begin

text \<open>
  The routing rules and the matching engine (\<open>internal/route/rules.go\<close>, \<open>matcher.go\<close>, \<open>engine.go\<close>).
  A rule file is a string; an error carries the line number the code reports and a short reason. The
  engine is a record of the rules, the fallback, the two databases (\<open>None\<close> when not loaded) and the
  four counters, 64 bits wide as in the code. Files, locks and the polling goroutine are not modelled:
  \<open>Reload\<close> takes the text that was read, \<open>loadGeoDBs\<close> the two databases that were loaded.

  \<open>strings.EqualFold\<close> is used with \<open>lan\<close> and \<open>cn\<close> only. No non-ASCII letter folds to one of their
  letters, so it is equality after lowering ASCII letters.
\<close>

section \<open>Rules\<close>

definition ActionProxy :: string where "ActionProxy = ''proxy''"
definition ActionDirect :: string where "ActionDirect = ''direct''"
definition ActionReject :: string where "ActionReject = ''reject''"
definition KindGeoSite :: string where "KindGeoSite = ''geosite''"
definition KindGeoIP :: string where "KindGeoIP = ''geoip''"
definition KindDomain :: string where "KindDomain = ''domain''"
definition KindDefault :: string where "KindDefault = ''default''"

lemmas route_consts = ActionProxy_def ActionDirect_def ActionReject_def
  KindGeoSite_def KindGeoIP_def KindDomain_def KindDefault_def

record Rule =
  rAction :: string
  rKind :: string
  rValue :: string

definition validAction :: "string \<Rightarrow> bool" where
  "validAction a \<longleftrightarrow> a \<in> {ActionProxy, ActionDirect, ActionReject}"

definition validKind :: "string \<Rightarrow> bool" where
  "validKind k \<longleftrightarrow> k \<in> {KindGeoSite, KindGeoIP, KindDomain}"

definition CutPrefix :: "string \<Rightarrow> string \<Rightarrow> string option" where
  "CutPrefix s p = (if HasPrefix s p then Some (drop (length p) s) else None)"

datatype rule_error = RuleError nat string

definition parseRule :: "unicode_lib \<Rightarrow> nat \<Rightarrow> string \<Rightarrow> rule_error + Rule" where
  "parseRule U lineNo line =
    (case Cut (CHR '','') line of
       None \<Rightarrow> Inl (RuleError lineNo ''comma'')
     | Some (actionPart, condPart) \<Rightarrow>
       (let action = ToLower U (TrimSpace U actionPart) in
        if \<not> validAction action then Inl (RuleError lineNo ''action'')
        else
          (let cond = TrimSpace U condPart in
           case Cut (CHR '':'') cond of
             None \<Rightarrow> Inl (RuleError lineNo ''condition'')
           | Some (kind, value) \<Rightarrow>
             (let kind = ToLower U (TrimSpace U kind) in
              if \<not> validKind kind then Inl (RuleError lineNo ''kind'')
              else
                (let value = TrimSpace U value in
                 if value = [] then Inl (RuleError lineNo ''empty value'')
                 else Inr \<lparr>rAction = action, rKind = kind, rValue = value\<rparr>)))))"

fun parseRulesLoop :: "unicode_lib \<Rightarrow> nat \<Rightarrow> string list \<Rightarrow> Rule list \<Rightarrow> rule_error + Rule list" where
  "parseRulesLoop U i [] rules = Inr rules"
| "parseRulesLoop U i (raw # lines) rules =
    (let lineNo = i + 1; line = TrimSpace U raw in
     if line = [] \<or> HasPrefix line ''#'' then parseRulesLoop U (i + 1) lines rules
     else
       (case CutPrefix (ToLower U line) ''default:'' of
          Some rest \<Rightarrow>
            (let action = ToLower U (TrimSpace U rest) in
             if \<not> validAction action then Inl (RuleError lineNo ''default action'')
             else if list_ex (\<lambda>r. rKind r = KindDefault) rules then Inl (RuleError lineNo ''second default'')
             else parseRulesLoop U (i + 1) lines (rules @ [\<lparr>rAction = action, rKind = KindDefault, rValue = []\<rparr>]))
        | None \<Rightarrow>
            (case parseRule U lineNo line of
               Inl e \<Rightarrow> Inl e
             | Inr r \<Rightarrow> parseRulesLoop U (i + 1) lines (rules @ [r]))))"

definition ParseRules :: "unicode_lib \<Rightarrow> string \<Rightarrow> rule_error + Rule list" where
  "ParseRules U rulesText = parseRulesLoop U 0 (Split (CHR 0x0A) rulesText) []"

section \<open>Engine\<close>

record Engine =
  eRules :: "Rule list"
  eFallback :: string
  eGeoSite :: "GeoSiteDB option"
  eGeoIP :: "GeoIPDB option"
  statsProxy :: u64
  statsDirect :: u64
  statsReject :: u64
  statsMiss :: u64

fun firstDefault :: "Rule list \<Rightarrow> string" where
  "firstDefault [] = []"
| "firstDefault (r # rs) = (if rKind r = KindDefault then rAction r else firstDefault rs)"

definition applyRules :: "Engine \<Rightarrow> Rule list \<Rightarrow> Engine" where
  "applyRules e rules = e\<lparr>eRules := rules, eFallback := firstDefault rules\<rparr>"

definition loadGeoDBs :: "Engine \<Rightarrow> GeoSiteDB result \<Rightarrow> GeoIPDB result \<Rightarrow> Engine" where
  "loadGeoDBs e site ipDB =
    e\<lparr>eGeoSite := (case site of Inr db \<Rightarrow> Some db | Inl _ \<Rightarrow> None),
      eGeoIP := (case ipDB of Inr db \<Rightarrow> Some db | Inl _ \<Rightarrow> None)\<rparr>"

definition NewEngine :: "unicode_lib \<Rightarrow> string \<Rightarrow> GeoSiteDB result \<Rightarrow> GeoIPDB result \<Rightarrow> rule_error + Engine" where
  "NewEngine U rulesText site ipDB =
    (case ParseRules U rulesText of
       Inl err \<Rightarrow> Inl err
     | Inr rules \<Rightarrow>
         Inr (loadGeoDBs (applyRules \<lparr>eRules = [], eFallback = [], eGeoSite = None, eGeoIP = None,
           statsProxy = 0, statsDirect = 0, statsReject = 0, statsMiss = 0\<rparr> rules) site ipDB))"

definition Reload :: "unicode_lib \<Rightarrow> Engine \<Rightarrow> string \<Rightarrow> rule_error option \<times> Engine" where
  "Reload U e rulesText =
    (case ParseRules U rulesText of Inl err \<Rightarrow> (Some err, e) | Inr rules \<Rightarrow> (None, applyRules e rules))"

definition isLANAddr :: "addr \<Rightarrow> bool" where
  "isLANAddr ip \<longleftrightarrow> IsPrivate ip \<or> IsUnspecified ip \<or> IsLoopback ip \<or> IsMulticast ip \<or> IsLinkLocalUnicast ip"

definition EqualFold :: "string \<Rightarrow> string \<Rightarrow> bool" where
  "EqualFold s t \<longleftrightarrow> map lower_char s = map lower_char t"

definition hit :: "Engine \<Rightarrow> Rule \<Rightarrow> (string \<times> Rule \<times> bool) \<times> Engine" where
  "hit e r =
    ((rAction r, r, True),
     if rAction r = ActionProxy then e\<lparr>statsProxy := statsProxy e + 1\<rparr>
     else if rAction r = ActionReject then e\<lparr>statsReject := statsReject e + 1\<rparr>
     else e\<lparr>statsDirect := statsDirect e + 1\<rparr>)"

text \<open>One round of the loop of \<open>Match\<close>: whether the rule returns.\<close>

definition ruleHits :: "unicode_lib \<Rightarrow> Engine \<Rightarrow> string \<Rightarrow> string \<Rightarrow> addr option \<Rightarrow> Rule \<Rightarrow> bool" where
  "ruleHits U e host lowerHost ip r =
    (if rKind r = KindGeoSite then
       (if host = [] then False
        else
          (case eGeoSite e of
             None \<Rightarrow> False
           | Some geoSite \<Rightarrow>
             (case GeoSite_Lookup U geoSite (rValue r) of
                None \<Rightarrow> False
              | Some idx \<Rightarrow> geoIndex_match idx lowerHost)))
     else if rKind r = KindDomain then
       (if host = [] then False else domainSuffixMatch (ToLower U (rValue r)) lowerHost)
     else if rKind r = KindGeoIP then
       (case ip of
          None \<Rightarrow> False
        | Some a \<Rightarrow>
            if EqualFold (rValue r) ''lan'' then isLANAddr a
            else
              (case eGeoIP e of
                 Some geoIP \<Rightarrow> GeoIP_Contains U geoIP (rValue r) a
               | None \<Rightarrow> EqualFold (rValue r) ''cn'' \<and> builtinCNContains a))
     else False)"

fun matchLoop :: "unicode_lib \<Rightarrow> Engine \<Rightarrow> string \<Rightarrow> string \<Rightarrow> addr option \<Rightarrow> Rule list \<Rightarrow> (string \<times> Rule \<times> bool) \<times> Engine" where
  "matchLoop U e host lowerHost ip [] =
    (let e = e\<lparr>statsMiss := statsMiss e + 1\<rparr> in
     if eFallback e \<noteq> [] then ((eFallback e, \<lparr>rAction = eFallback e, rKind = KindDefault, rValue = []\<rparr>, True), e)
     else ((ActionDirect, \<lparr>rAction = [], rKind = [], rValue = []\<rparr>, False), e))"
| "matchLoop U e host lowerHost ip (r # rs) =
    (if ruleHits U e host lowerHost ip r then hit e r else matchLoop U e host lowerHost ip rs)"

definition Match :: "unicode_lib \<Rightarrow> Engine \<Rightarrow> string \<Rightarrow> addr option \<Rightarrow> (string \<times> Rule \<times> bool) \<times> Engine" where
  "Match U e host ip =
    (let host = TrimSuffix host ''.'';
         (host, ip) = (case ParseAddr host of Some a \<Rightarrow> ([], Some a) | None \<Rightarrow> (host, ip));
         lowerHost = ToLower U host
     in matchLoop U e host lowerHost ip (eRules e))"

section \<open>Lemmas\<close>

definition rule_wf :: "Rule \<Rightarrow> bool" where
  "rule_wf r \<longleftrightarrow> validAction (rAction r) \<and>
    (if rKind r = KindDefault then rValue r = [] else validKind (rKind r) \<and> rValue r \<noteq> [])"

definition rules_wf :: "Rule list \<Rightarrow> bool" where
  "rules_wf rs \<longleftrightarrow> list_all rule_wf rs \<and> length (filter (\<lambda>r. rKind r = KindDefault) rs) \<le> 1"

lemma parseRule_wf: "parseRule U n line = Inr r \<Longrightarrow> rule_wf r \<and> rKind r \<noteq> KindDefault"
  by (auto simp: parseRule_def rule_wf_def validKind_def route_consts Let_def split: option.splits if_splits)

lemma parseRulesLoop_wf: "parseRulesLoop U i ls acc = Inr rs \<Longrightarrow> rules_wf acc \<Longrightarrow> rules_wf rs"
proof (induction U i ls acc rule: parseRulesLoop.induct)
  case (2 U i raw ls acc)
  let ?line = "TrimSpace U raw"
  note IH = 2(1) [OF refl refl] 2(2) [OF refl refl] 2(3) [OF refl refl]
  show ?case
  proof (cases "?line = [] \<or> HasPrefix ?line ''#''")
    case True
    then show ?thesis using 2(4,5) by (intro IH(1)) (simp_all add: Let_def)
  next
    case line: False
    show ?thesis
    proof (cases "CutPrefix (ToLower U ?line) ''default:''")
      case None
      then obtain r where r: "parseRule U (i + 1) ?line = Inr r" using 2(4) line by (auto simp: Let_def split: sum.splits)
      then have "rules_wf (acc @ [r])" using 2(5) parseRule_wf [OF r] by (simp add: rules_wf_def)
      then show ?thesis using 2(4) line None r by (intro IH(2) [OF line None r]) (simp_all add: Let_def)
    next
      case (Some rest)
      let ?a = "ToLower U (TrimSpace U rest)"
      have a: "validAction ?a" "\<not> list_ex (\<lambda>r. rKind r = KindDefault) acc"
        using 2(4) line Some by (auto simp: Let_def split: if_splits)
      then have "filter (\<lambda>r. rKind r = KindDefault) acc = []" by (simp add: list_ex_iff filter_empty_conv)
      then have "rules_wf (acc @ [\<lparr>rAction = ?a, rKind = KindDefault, rValue = []\<rparr>])"
        using 2(5) a(1) by (simp add: rules_wf_def rule_wf_def)
      then show ?thesis
        using 2(4) line Some a by (intro IH(3) [OF line Some refl]) (simp_all add: Let_def)
    qed
  qed
qed simp

text \<open>The text of a rule, as a user writes it.\<close>

definition print_rule :: "Rule \<Rightarrow> string" where
  "print_rule r = (if rKind r = KindDefault then ''default:'' @ rAction r
     else rAction r @ '','' @ rKind r @ '':'' @ rValue r)"

definition plain_text :: "string \<Rightarrow> bool" where
  "plain_text s \<longleftrightarrow> list_all isAscii s \<and> list_all (Not \<circ> asciiSpace) s"

lemma plain_text_append [simp]: "plain_text (s @ t) \<longleftrightarrow> plain_text s \<and> plain_text t"
  by (auto simp: plain_text_def)

lemma plain_text_TrimSpace: "plain_text s \<Longrightarrow> TrimSpace U s = s"
  by (simp add: plain_text_def TrimSpace_plain)

lemma plain_text_ToLower: "plain_text s \<Longrightarrow> ToLower U s = map lower_char s"
  by (simp add: plain_text_def ToLower_def)

lemma action_text:
  assumes "validAction a"
  shows "plain_text a" "map lower_char a = a" "CHR '','' \<notin> set a" "a \<noteq> []"
  using assms by (auto simp: validAction_def route_consts plain_text_def isAscii_def asciiSpace_def lower_char_def isUpper_def)

lemma kind_text:
  assumes "validKind k"
  shows "plain_text k" "map lower_char k = k" "CHR '':'' \<notin> set k" "k \<noteq> KindDefault"
  using assms by (auto simp: validKind_def route_consts plain_text_def isAscii_def asciiSpace_def lower_char_def isUpper_def)

lemma Cut_first: "c \<notin> set s \<Longrightarrow> Cut c (s @ c # t) = Some (s, t)"
  by (simp add: Cut_def)

lemma parseRule_print:
  assumes "rule_wf r" "rKind r \<noteq> KindDefault" "plain_text (rValue r)"
  shows "parseRule U n (print_rule r) = Inr r"
proof -
  have k: "validAction (rAction r)" "validKind (rKind r)" "rValue r \<noteq> []" using assms(1,2) by (auto simp: rule_wf_def)
  note a = action_text [OF k(1)] and kk = kind_text [OF k(2)]
  have t: "plain_text (rKind r @ '':'' @ rValue r)" using kk(1) assms(3) by (simp add: plain_text_def isAscii_def asciiSpace_def)
  have c: "Cut (CHR '','') (print_rule r) = Some (rAction r, rKind r @ '':'' @ rValue r)"
    using Cut_first [OF a(3)] assms(2) by (simp add: print_rule_def)
  have c2: "Cut (CHR '':'') (rKind r @ '':'' @ rValue r) = Some (rKind r, rValue r)"
    using Cut_first [OF kk(3)] by simp
  show ?thesis
    using a kk k c c2 assms(3) plain_text_TrimSpace [OF t]
    by (simp add: parseRule_def Let_def plain_text_TrimSpace plain_text_ToLower)
qed

lemma print_rule_text:
  assumes "rule_wf r" "plain_text (rValue r)"
  shows "plain_text (print_rule r)" "print_rule r \<noteq> []" "\<not> HasPrefix (print_rule r) ''#''" "CHR 0x0A \<notin> set (print_rule r)"
proof -
  have k: "validAction (rAction r)" using assms(1) by (simp add: rule_wf_def)
  note a = action_text [OF k]
  show p: "plain_text (print_rule r)"
    using assms a(1) kind_text(1) by (auto simp: print_rule_def rule_wf_def plain_text_def isAscii_def asciiSpace_def)
  show "print_rule r \<noteq> []" by (simp add: print_rule_def)
  show "\<not> HasPrefix (print_rule r) ''#''"
    using k by (auto simp: print_rule_def HasPrefix_def validAction_def route_consts)
  show "CHR 0x0A \<notin> set (print_rule r)"
    using p by (auto simp: plain_text_def list_all_iff asciiSpace_def)
qed

lemma print_rule_default:
  assumes "rule_wf r" "plain_text (rValue r)"
  shows "CutPrefix (ToLower U (print_rule r)) ''default:'' = (if rKind r = KindDefault then Some (rAction r) else None)"
proof -
  have k: "validAction (rAction r)" using assms(1) by (simp add: rule_wf_def)
  have "ToLower U (print_rule r) = map lower_char (print_rule r)"
    using print_rule_text(1) [OF assms] by (rule plain_text_ToLower)
  then show ?thesis
    using k action_text(2) [OF k]
    by (auto simp: print_rule_def CutPrefix_def HasPrefix_def validAction_def route_consts lower_char_def isUpper_def)
qed

lemma parseRulesLoop_print:
  "rules_wf (acc @ rs) \<Longrightarrow> list_all (plain_text \<circ> rValue) rs \<Longrightarrow>
   parseRulesLoop U i (map print_rule rs) acc = Inr (acc @ rs)"
proof (induction rs arbitrary: acc i)
  case (Cons r rs)
  have r: "rule_wf r" "plain_text (rValue r)" using Cons.prems by (simp_all add: rules_wf_def)
  note t = print_rule_text [OF r] and d = print_rule_default [OF r, of U]
  have IH: "parseRulesLoop U (i + 1) (map print_rule rs) (acc @ [r]) = Inr (acc @ r # rs)"
    using Cons.IH [of "acc @ [r]"] Cons.prems by simp
  show ?case
  proof (cases "rKind r = KindDefault")
    case True
    have "\<not> list_ex (\<lambda>r. rKind r = KindDefault) acc"
      using Cons.prems(1) True by (auto simp: rules_wf_def list_ex_iff filter_empty_conv)
    moreover have "\<lparr>rAction = rAction r, rKind = KindDefault, rValue = []\<rparr> = r"
      using r(1) True by (simp add: rule_wf_def)
    moreover have "validAction (rAction r)" using r(1) by (simp add: rule_wf_def)
    ultimately show ?thesis
      using t d True IH action_text [of "rAction r"]
      by (simp add: plain_text_TrimSpace plain_text_ToLower Let_def)
  next
    case False
    then show ?thesis
      using t d IH parseRule_print [OF r(1) False r(2), of U]
      by (simp add: plain_text_TrimSpace Let_def)
  qed
qed simp

text \<open>What a rule means for a target: its domain name (empty for an IP literal) and its address.\<close>

definition target_name :: "string \<Rightarrow> string" where
  "target_name host = (case ParseAddr (TrimSuffix host ''.'') of Some _ \<Rightarrow> [] | None \<Rightarrow> TrimSuffix host ''.'')"

definition target_addr :: "string \<Rightarrow> addr option \<Rightarrow> addr option" where
  "target_addr host ip = (case ParseAddr (TrimSuffix host ''.'') of Some a \<Rightarrow> Some a | None \<Rightarrow> ip)"

definition subdomain :: "string \<Rightarrow> string \<Rightarrow> bool" where
  "subdomain h d \<longleftrightarrow> h = d \<or> (\<exists>a. h = a @ CHR ''.'' # d)"

definition rule_means :: "unicode_lib \<Rightarrow> Engine \<Rightarrow> string \<Rightarrow> addr option \<Rightarrow> Rule \<Rightarrow> bool" where
  "rule_means U e name ip r \<longleftrightarrow>
    rKind r = KindDomain \<and> name \<noteq> [] \<and> subdomain (ToLower U name) (ToLower U (rValue r)) \<or>
    rKind r = KindGeoSite \<and> name \<noteq> [] \<and>
      (\<exists>db idx. eGeoSite e = Some db \<and> GeoSite_Lookup U db (rValue r) = Some idx \<and> geoIndex_match idx (ToLower U name)) \<or>
    rKind r = KindGeoIP \<and>
      (\<exists>a. ip = Some a \<and>
        (if map lower_char (rValue r) = ''lan'' then isLANAddr a
         else (\<exists>db ps p. eGeoIP e = Some db \<and> GeoIP_Lookup U db (rValue r) = Some ps \<and> p \<in> set ps \<and> Prefix_Contains p a) \<or>
              eGeoIP e = None \<and> map lower_char (rValue r) = ''cn'' \<and> builtinCNContains a))"

definition engine_inv :: "Engine \<Rightarrow> bool" where
  "engine_inv e \<longleftrightarrow> (\<forall>db. eGeoIP e = Some db \<longrightarrow> geoip_inv db) \<and> rules_wf (eRules e) \<and> eFallback e = firstDefault (eRules e)"

lemma GeoIP_Contains_inv:
  assumes "geoip_inv db" "addr_wf ip"
  shows "GeoIP_Contains U db name ip \<longleftrightarrow>
    (\<exists>ps. GeoIP_Lookup U db name = Some ps \<and> (\<exists>p\<in>set ps. Prefix_Contains p ip))"
proof (cases "GeoIP_Lookup U db name")
  case (Some ps)
  then have "ps \<in> ran db" by (auto simp: GeoIP_Lookup_def ran_def)
  with assms(1) have "scanDown ps ip (sort_Search (length ps) (\<lambda>i. addr_Compare (pfAddr (ps ! i)) ip > 0)) \<longleftrightarrow>
      (\<exists>p\<in>set ps. Prefix_Contains p ip)"
    by (intro sorted_starts_contains [OF _ _ assms(2)]) (simp_all add: geoip_inv_def)
  then show ?thesis using Some by (simp add: GeoIP_Contains_def Let_def)
qed (simp add: GeoIP_Contains_def)

lemma ruleHits_means:
  assumes "engine_inv e" "\<forall>a. ip = Some a \<longrightarrow> addr_wf a"
  shows "ruleHits U e name (ToLower U name) ip r \<longleftrightarrow> rule_means U e name ip r"
proof -
  have low: "EqualFold v ''lan'' \<longleftrightarrow> map lower_char v = ''lan''" "EqualFold v ''cn'' \<longleftrightarrow> map lower_char v = ''cn''" for v
    by (simp_all add: EqualFold_def lower_char_def isUpper_def)
  have g: "GeoIP_Contains U db v a \<longleftrightarrow> (\<exists>ps p. GeoIP_Lookup U db v = Some ps \<and> p \<in> set ps \<and> Prefix_Contains p a)"
    if "eGeoIP e = Some db" "ip = Some a" for db v a
    using GeoIP_Contains_inv [of db a U v] that assms by (auto simp: engine_inv_def)
  consider "rKind r = KindGeoSite" | "rKind r = KindDomain" | "rKind r = KindGeoIP"
    | "rKind r \<noteq> KindGeoSite" "rKind r \<noteq> KindDomain" "rKind r \<noteq> KindGeoIP" by blast
  then show ?thesis
  proof cases
    case 1
    then show ?thesis by (auto simp: ruleHits_def rule_means_def route_consts split: option.splits)
  next
    case 2
    then show ?thesis by (auto simp: ruleHits_def rule_means_def route_consts domainSuffixMatch_iff subdomain_def)
  next
    case 3
    then show ?thesis
      using g by (cases ip; cases "eGeoIP e") (simp_all add: ruleHits_def rule_means_def route_consts low)
  next
    case 4
    then show ?thesis by (simp add: ruleHits_def rule_means_def)
  qed
qed

definition total_hits :: "Engine \<Rightarrow> u64" where
  "total_hits e = statsProxy e + statsDirect e + statsReject e + statsMiss e"

definition same_config :: "Engine \<Rightarrow> Engine \<Rightarrow> bool" where
  "same_config e e' \<longleftrightarrow> eRules e' = eRules e \<and> eFallback e' = eFallback e \<and> eGeoSite e' = eGeoSite e \<and> eGeoIP e' = eGeoIP e"

lemma matchLoop_cases:
  "matchLoop U e h lh ip rs = ((action, r, matched), e') \<Longrightarrow>
   (\<exists>pre post. rs = pre @ r # post \<and> ruleHits U e h lh ip r \<and> (\<forall>q\<in>set pre. \<not> ruleHits U e h lh ip q) \<and>
      matched \<and> action = rAction r \<and> statsMiss e' = statsMiss e) \<or>
   ((\<forall>q\<in>set rs. \<not> ruleHits U e h lh ip q) \<and> statsMiss e' = statsMiss e + 1 \<and>
      matched = (eFallback e \<noteq> []) \<and> action = (if eFallback e \<noteq> [] then eFallback e else ActionDirect))"
proof (induction U e h lh ip rs rule: matchLoop.induct)
  case (1 U e h lh ip)
  then show ?case by (auto simp: Let_def split: if_splits)
next
  case (2 U e h lh ip q qs)
  show ?case
  proof (cases "ruleHits U e h lh ip q")
    case True
    then have "r = q \<and> matched \<and> action = rAction q \<and> statsMiss e' = statsMiss e" using 2(2) by (auto simp: hit_def split: if_splits)
    then show ?thesis using True by (intro disjI1 exI [of _ "[]"] exI [of _ qs]) simp
  next
    case False
    then have "matchLoop U e h lh ip qs = ((action, r, matched), e')" using 2(2) by simp
    from 2(1) [OF False this] show ?thesis
    proof (elim disjE exE conjE)
      fix pre post assume *: "qs = pre @ r # post" "ruleHits U e h lh ip r" "\<forall>q\<in>set pre. \<not> ruleHits U e h lh ip q"
        "matched" "action = rAction r" "statsMiss e' = statsMiss e"
      then show ?thesis using False by (intro disjI1 exI [of _ "q # pre"] exI [of _ post]) simp
    qed (use False in simp)
  qed
qed

lemma matchLoop_state:
  "matchLoop U e h lh ip rs = (res, e') \<Longrightarrow> same_config e e' \<and> total_hits e' = total_hits e + 1"
  by (induction U e h lh ip rs rule: matchLoop.induct)
    (auto simp: hit_def same_config_def total_hits_def Let_def split: if_splits)

lemma Match_matchLoop:
  "Match U e host ip = matchLoop U e (target_name host) (ToLower U (target_name host)) (target_addr host ip) (eRules e)"
  by (simp add: Match_def target_name_def target_addr_def Let_def split: option.split)

lemma ParseAddr_wf: "ParseAddr s = Some a \<Longrightarrow> addr_wf a"
proof -
  have "ParseAddr_at s t = Some a \<Longrightarrow> addr_wf a" for t
    by (induction s t rule: ParseAddr_at.induct)
      (auto dest: parseIPv4_length parseIPv6_length split: if_splits)
  then show "ParseAddr s = Some a \<Longrightarrow> addr_wf a" by (simp add: ParseAddr_def)
qed

lemma target_addr_wf: "\<forall>a. ip = Some a \<longrightarrow> addr_wf a \<Longrightarrow> target_addr host ip = Some b \<Longrightarrow> addr_wf b"
  by (auto simp: target_addr_def dest: ParseAddr_wf split: option.splits)

text \<open>How the engine keeps its invariant.\<close>

lemma geoIPFromBytes_inv: "sorts_starts S \<Longrightarrow> geoIPFromBytes U S decoded = Inr db \<Longrightarrow> geoip_inv db"
  using ipLoop_inv [of S Map.empty U] by (auto simp: geoIPFromBytes_def geoip_inv_def split: option.splits)

lemma ParseRules_rules_wf: "ParseRules U text = Inr rules \<Longrightarrow> rules_wf rules"
  unfolding ParseRules_def by (erule parseRulesLoop_wf) (simp add: rules_wf_def)

lemma NewEngine_inv:
  assumes "sorts_starts S" "NewEngine U text site (geoIPFromBytes U S decoded) = Inr e"
  shows "engine_inv e"
  using assms(2) geoIPFromBytes_inv [OF assms(1), of U decoded]
  by (auto simp: NewEngine_def engine_inv_def applyRules_def loadGeoDBs_def dest: ParseRules_rules_wf split: sum.splits)

lemma Reload_inv: "engine_inv e \<Longrightarrow> engine_inv (snd (Reload U e text))"
  by (auto simp: Reload_def engine_inv_def applyRules_def dest: ParseRules_rules_wf split: sum.splits)

lemma loadGeoDBs_inv:
  "engine_inv e \<Longrightarrow> sorts_starts S \<Longrightarrow> engine_inv (loadGeoDBs e site (geoIPFromBytes U S decoded))"
  by (auto simp: loadGeoDBs_def engine_inv_def dest: geoIPFromBytes_inv split: sum.splits)

lemma same_config_inv: "same_config e e' \<Longrightarrow> engine_inv e \<Longrightarrow> engine_inv e'"
  by (simp add: same_config_def engine_inv_def)

text \<open>The states an engine goes through: loading, reloading rules and databases, matching.\<close>

inductive engine_reach :: "unicode_lib \<Rightarrow> slice_sort \<Rightarrow> Engine \<Rightarrow> bool" for U S where
  new: "NewEngine U text site (geoIPFromBytes U S decoded) = Inr e \<Longrightarrow> engine_reach U S e"
| reload: "engine_reach U S e \<Longrightarrow> engine_reach U S (snd (Reload U e text))"
| geo: "engine_reach U S e \<Longrightarrow> engine_reach U S (loadGeoDBs e site (geoIPFromBytes U S decoded))"
| match: "engine_reach U S e \<Longrightarrow> engine_reach U S (snd (Match U e host ip))"

lemma engine_reach_inv: "engine_reach U S e \<Longrightarrow> sorts_starts S \<Longrightarrow> engine_inv e"
proof (induction rule: engine_reach.induct)
  case (match e host ip)
  obtain res e' where m: "Match U e host ip = (res, e')" by fastforce
  then have "same_config e e'" using matchLoop_state unfolding Match_matchLoop by blast
  then show ?case using match m same_config_inv by simp
qed (auto intro: NewEngine_inv Reload_inv loadGeoDBs_inv)

lemma Match_first:
  assumes "engine_inv e" "\<forall>a. ip = Some a \<longrightarrow> addr_wf a" "Match U e host ip = ((action, r, matched), e')"
  defines "means \<equiv> rule_means U e (target_name host) (target_addr host ip)"
  shows "(\<exists>pre post. eRules e = pre @ r # post \<and> means r \<and> (\<forall>q\<in>set pre. \<not> means q) \<and>
            matched \<and> action = rAction r \<and> statsMiss e' = statsMiss e) \<or>
         ((\<forall>q\<in>set (eRules e). \<not> means q) \<and> statsMiss e' = statsMiss e + 1 \<and>
            matched = (firstDefault (eRules e) \<noteq> []) \<and>
            action = (if firstDefault (eRules e) \<noteq> [] then firstDefault (eRules e) else ActionDirect))"
proof -
  let ?n = "target_name host" and ?a = "target_addr host ip"
  have "\<forall>b. ?a = Some b \<longrightarrow> addr_wf b" using target_addr_wf assms(2) by blast
  then have h: "ruleHits U e ?n (ToLower U ?n) ?a q \<longleftrightarrow> means q" for q
    unfolding means_def by (rule ruleHits_means [OF assms(1)])
  have f: "eFallback e = firstDefault (eRules e)" using assms(1) by (simp add: engine_inv_def)
  show ?thesis using matchLoop_cases [OF assms(3) [unfolded Match_matchLoop], unfolded h f] .
qed

section \<open>Properties\<close>

text \<open>
  C18. Rule files round-trip: the text of any well-formed list of rules (valid actions and kinds,
  values of printable ASCII without spaces, at most one \<open>default:\<close> line) parses back to those rules,
  in their order; and whatever text is accepted, the rules it gives are well formed.
\<close>

lemma ParseRules_roundtrip:
  "(rules_wf rules \<and> list_all (plain_text \<circ> rValue) rules \<longrightarrow>
     ParseRules U (Join (CHR 0x0A) (map print_rule rules)) = Inr rules) \<and>
   (ParseRules U text = Inr rules' \<longrightarrow> rules_wf rules')"
proof (intro conjI impI)
  assume wf: "rules_wf rules \<and> list_all (plain_text \<circ> rValue) rules"
  show "ParseRules U (Join (CHR 0x0A) (map print_rule rules)) = Inr rules"
  proof (cases "rules = []")
    case True
    then show ?thesis by (simp add: ParseRules_def Let_def TrimSpace_def)
  next
    case False
    have "\<forall>l\<in>set (map print_rule rules). CHR 0x0A \<notin> set l"
      using wf print_rule_text(4) by (auto simp: rules_wf_def list_all_iff)
    then have "Split (CHR 0x0A) (Join (CHR 0x0A) (map print_rule rules)) = map print_rule rules"
      using False by (intro Split_Join) simp_all
    then show ?thesis using parseRulesLoop_print [of "[]" rules U 0] wf by (simp add: ParseRules_def)
  qed
next
  assume "ParseRules U text = Inr rules'"
  then show "rules_wf rules'" by (rule ParseRules_rules_wf)
qed

text \<open>
  C9. First match wins: in every state an engine reaches by loading and reloading rules and
  databases and by matching, \<open>Match\<close> returns the first rule of the file that applies to the target
  (a \<open>domain:\<close> rule to the name and its subdomains, a \<open>geosite:\<close> rule to the names of its category, a
  \<open>geoip:\<close> rule to the addresses in some prefix of its category or to local addresses, the built-in
  table standing in for a missing database), and when none applies the action of the \<open>default:\<close>
  line, or \<open>direct\<close> marked as unmatched; an IP literal never matches a rule on names. Exactly one
  counter moves, by one, and nothing else changes.
\<close>

lemma Match_first_match:
  assumes "sorts_starts sort_Slice" "engine_reach U sort_Slice e" "\<forall>a. ip = Some a \<longrightarrow> addr_wf a"
    "Match U e host ip = ((action, r, matched), e')"
  shows "((\<exists>pre post. eRules e = pre @ r # post \<and> rule_means U e (target_name host) (target_addr host ip) r \<and>
              (\<forall>q\<in>set pre. \<not> rule_means U e (target_name host) (target_addr host ip) q) \<and>
              matched \<and> action = rAction r \<and> statsMiss e' = statsMiss e) \<or>
          ((\<forall>q\<in>set (eRules e). \<not> rule_means U e (target_name host) (target_addr host ip) q) \<and>
              statsMiss e' = statsMiss e + 1 \<and> matched = (firstDefault (eRules e) \<noteq> []) \<and>
              action = (if firstDefault (eRules e) \<noteq> [] then firstDefault (eRules e) else ActionDirect))) \<and>
    same_config e e' \<and> total_hits e' = total_hits e + 1"
proof -
  have "same_config e e' \<and> total_hits e' = total_hits e + 1"
    using matchLoop_state [OF assms(4) [unfolded Match_matchLoop]] .
  then show ?thesis using Match_first [OF engine_reach_inv [OF assms(2,1)] assms(3,4)] by blast
qed

section \<open>Witnesses\<close>

definition wit_rules :: "Rule list" where
  "wit_rules = [\<lparr>rAction = ''reject'', rKind = ''domain'', rValue = ''ads.io''\<rparr>,
    \<lparr>rAction = ''proxy'', rKind = ''domain'', rValue = ''io''\<rparr>, \<lparr>rAction = ''direct'', rKind = ''default'', rValue = []\<rparr>]"

lemma wit_rules_wf: "rules_wf wit_rules" "list_all (plain_text \<circ> rValue) wit_rules"
  by (simp_all add: wit_rules_def rules_wf_def rule_wf_def validAction_def validKind_def route_consts
      plain_text_def isAscii_def asciiSpace_def)

definition wit_text :: string where
  "wit_text = Join (CHR 0x0A) (map print_rule wit_rules)"

lemma ParseRules_roundtrip_witness:
  "ParseRules wit_unicode wit_text = Inr wit_rules \<and> rules_wf wit_rules"
  using ParseRules_roundtrip [of wit_rules wit_unicode wit_text wit_rules] wit_rules_wf by (simp add: wit_text_def)

definition wit_engine :: Engine where
  "wit_engine = \<lparr>eRules = wit_rules, eFallback = ''direct'', eGeoSite = None, eGeoIP = None,
     statsProxy = 0, statsDirect = 0, statsReject = 0, statsMiss = 0\<rparr>"

lemma wit_engine_reach: "engine_reach wit_unicode sort_starts wit_engine"
proof (rule engine_reach.new)
  have "ParseRules wit_unicode wit_text = Inr wit_rules"
    unfolding wit_text_def ParseRules_def
    using parseRulesLoop_print [of "[]" wit_rules wit_unicode 0] wit_rules_wf
      Split_Join [of "map print_rule wit_rules" "CHR 0x0A"] print_rule_text(4)
    by (simp add: wit_rules_def print_rule_def KindDefault_def)
  then show "NewEngine wit_unicode wit_text (Inl EOF) (geoIPFromBytes wit_unicode sort_starts None) = Inr wit_engine"
    by (simp add: NewEngine_def wit_engine_def applyRules_def loadGeoDBs_def geoIPFromBytes_def wit_rules_def KindDefault_def)
qed

lemma Match_first_match_witness:
  "\<exists>e' r. Match wit_unicode wit_engine ''x.ADS.io'' None = ((''reject'', r, True), e') \<and> total_hits e' = 1 \<and>
     rule_means wit_unicode wit_engine (target_name ''x.ADS.io'') None r"
proof -
  let ?r = "\<lparr>rAction = ''reject'', rKind = ''domain'', rValue = ''ads.io''\<rparr>"
  have "fst (Match wit_unicode wit_engine ''x.ADS.io'' None) = (''reject'', ?r, True)" by code_simp
  then obtain e' where m: "Match wit_unicode wit_engine ''x.ADS.io'' None = ((''reject'', ?r, True), e')"
    by (cases "Match wit_unicode wit_engine ''x.ADS.io'' None") simp
  have t: "target_addr ''x.ADS.io'' None = None" by code_simp
  have "total_hits wit_engine = 0" by (simp add: total_hits_def wit_engine_def)
  moreover have "firstDefault (eRules wit_engine) = ''direct''" by (simp add: wit_engine_def wit_rules_def KindDefault_def)
  ultimately show ?thesis
    using Match_first_match [OF sort_starts_sorts wit_engine_reach _ m] m t by auto
qed

end
