(* ===== verification/Dns_Sniff.thy ===== *)
theory Dns_Sniff
  imports Go_Netip
begin

text \<open>
  DNS messages seen by the UDP relay (\<open>internal/app/dnssniff.go\<close>): the name of a query and the
  name and addresses of a response. A name may use compression pointers; the loop of
  \<open>parseDNSName\<close> ends because each pointer costs one of 128 hops and each label moves the position
  forward. \<open>None\<close> stands for \<open>ok = false\<close>, and the pair \<open>([], [])\<close> for \<open>("", nil)\<close>.
\<close>

section \<open>Model\<close>

definition dnsTypeA :: u16 where "dnsTypeA = 1"
definition dnsTypeAAAA :: u16 where "dnsTypeAAAA = 28"
definition dnsHeaderLen :: nat where "dnsHeaderLen = 12"
definition dnsFlagQR :: u16 where "dnsFlagQR = 0x8000"
definition dnsRCodeMask :: u16 where "dnsRCodeMask = 0x000f"

lemmas dns_consts = dnsTypeA_def dnsTypeAAAA_def dnsHeaderLen_def dnsFlagQR_def dnsRCodeMask_def

definition ptrTarget :: "byte \<Rightarrow> byte \<Rightarrow> nat" where
  "ptrTarget l b = (unat (l AND 0x3F) * 2 ^ 8) OR unat b"

function dnsNameLoop ::
  "bytes \<Rightarrow> nat \<Rightarrow> nat \<Rightarrow> string list \<Rightarrow> nat \<Rightarrow> bool \<Rightarrow> nat \<Rightarrow> (string \<times> nat) option" where
  "dnsNameLoop payload offset pos labels consumed ptr hops =
    (if hops < 128 then
       (if pos \<ge> length payload then None
        else
          (let l = payload ! pos in
           if l AND 0xC0 = 0xC0 then
             (if pos + 1 \<ge> length payload then None
              else
                dnsNameLoop payload offset (ptrTarget l (payload ! (pos + 1))) labels
                  (if \<not> ptr then pos + 2 - offset else consumed) True (hops + 1))
           else if l AND 0xC0 \<noteq> 0 then None
           else if l = 0 then
             (let consumed = (if \<not> ptr then pos + 1 - offset else consumed) in
              if length labels = 0 then Some (''.'', consumed)
              else Some (Join (CHR ''.'') labels, consumed))
           else
             (let pos = pos + 1 in
              if pos + unat l > length payload then None
              else
                dnsNameLoop payload offset (pos + unat l) (labels @ [str_of (slice pos (pos + unat l) payload)])
                  consumed ptr hops)))
     else None)"
  by pat_completeness auto
termination
  by (relation "inv_image (less_than <*lex*> less_than)
        (\<lambda>(payload, offset, pos, labels, consumed, ptr, hops). (128 - hops, length payload - pos))") auto

declare dnsNameLoop.simps [simp del]

definition parseDNSName :: "bytes \<Rightarrow> nat \<Rightarrow> (string \<times> nat) option" where
  "parseDNSName payload offset =
    (if offset \<ge> length payload then None else dnsNameLoop payload offset offset [] 0 False 0)"

definition sniffDNSQuery :: "bytes \<Rightarrow> string option" where
  "sniffDNSQuery payload =
    (if length payload < dnsHeaderLen then None
     else if get16 (slice 2 4 payload) AND dnsFlagQR \<noteq> 0 then None
     else if unat (get16 (slice 4 6 payload)) = 0 then None
     else
       (case parseDNSName payload dnsHeaderLen of
          None \<Rightarrow> None
        | Some (name, _) \<Rightarrow>
            (let qname = TrimSuffix name ''.'' in
             if qname = [] \<or> qname = ''.'' then None else Some qname)))"

text \<open>The question section, \<open>n\<close> questions to go, the \<open>i\<close>-th next; the result is the offset after it.\<close>

fun questionLoop :: "bytes \<Rightarrow> nat \<Rightarrow> nat \<Rightarrow> nat \<Rightarrow> string \<Rightarrow> (nat \<times> string) option" where
  "questionLoop payload 0 i off qname = Some (off, qname)"
| "questionLoop payload (Suc n) i off qname =
    (case parseDNSName payload off of
       None \<Rightarrow> None
     | Some (name, consumed) \<Rightarrow>
         (let off = off + consumed in
          if off + 4 > length payload then None
          else questionLoop payload n (i + 1) (off + 4) (if i = 0 then TrimSuffix name ''.'' else qname)))"

definition answerIP :: "u16 \<Rightarrow> bytes \<Rightarrow> addr list" where
  "answerIP rtype rd =
    (if rtype = dnsTypeA then
       (if length rd = 4 then (case AddrFromSlice rd of Some ip \<Rightarrow> [ip] | None \<Rightarrow> []) else [])
     else if rtype = dnsTypeAAAA then
       (if length rd = 16 then (case AddrFromSlice rd of Some ip \<Rightarrow> [ip] | None \<Rightarrow> []) else [])
     else [])"

fun answerLoop :: "bytes \<Rightarrow> nat \<Rightarrow> nat \<Rightarrow> addr list \<Rightarrow> addr list" where
  "answerLoop payload 0 off ips = ips"
| "answerLoop payload (Suc n) off ips =
    (case parseDNSName payload off of
       None \<Rightarrow> ips
     | Some (_, consumed) \<Rightarrow>
         (let off = off + consumed in
          if off + 10 > length payload then ips
          else
            (let rtype = get16 (slice off (off + 2) payload);
                 rdlen = unat (get16 (slice (off + 8) (off + 10) payload));
                 off = off + 10
             in if off + rdlen > length payload then ips
                else answerLoop payload n (off + rdlen) (ips @ answerIP rtype (slice off (off + rdlen) payload)))))"

definition sniffDNSAnswers :: "bytes \<Rightarrow> string \<times> addr list" where
  "sniffDNSAnswers payload =
    (if length payload < dnsHeaderLen then ([], [])
     else
       (let flags = get16 (slice 2 4 payload) in
        if flags AND dnsFlagQR = 0 then ([], [])
        else if flags AND dnsRCodeMask \<noteq> 0 then ([], [])
        else
          (case questionLoop payload (unat (get16 (slice 4 6 payload))) 0 dnsHeaderLen [] of
             None \<Rightarrow> ([], [])
           | Some (off, qname) \<Rightarrow> (qname, answerLoop payload (unat (get16 (slice 6 8 payload))) off []))))"

section \<open>Lemmas\<close>

text \<open>
  Names as RFC 1035 defines them: a zero byte ends a name, a byte below 64 starts a label, two high
  bits start a pointer. \<open>name_at p h off ls n\<close>: at offset \<open>off\<close> stands a name with the labels \<open>ls\<close> that
  follows \<open>h\<close> pointers and takes \<open>n\<close> bytes in place.
\<close>

inductive name_at :: "bytes \<Rightarrow> nat \<Rightarrow> nat \<Rightarrow> string list \<Rightarrow> nat \<Rightarrow> bool" for p where
  root: "off < length p \<Longrightarrow> p ! off = 0 \<Longrightarrow> name_at p 0 off [] 1"
| label: "off < length p \<Longrightarrow> p ! off \<noteq> 0 \<Longrightarrow> p ! off AND 0xC0 = 0 \<Longrightarrow> off + 1 + unat (p ! off) \<le> length p \<Longrightarrow>
    name_at p h (off + 1 + unat (p ! off)) ls n \<Longrightarrow>
    name_at p h off (str_of (slice (off + 1) (off + 1 + unat (p ! off)) p) # ls) (1 + unat (p ! off) + n)"
| pointer: "off + 1 < length p \<Longrightarrow> p ! off AND 0xC0 = 0xC0 \<Longrightarrow>
    name_at p h (ptrTarget (p ! off) (p ! (off + 1))) ls n \<Longrightarrow> name_at p (Suc h) off ls 2"

definition dotted :: "string list \<Rightarrow> string" where
  "dotted ls = (if ls = [] then ''.'' else Join (CHR ''.'') ls)"

text \<open>One round of the loop, by the kind of the byte at the position.\<close>

lemma dnsNameLoop_root:
  assumes "hops < 128" "pos < length p" "p ! pos = 0"
  shows "dnsNameLoop p off pos ls c ptr hops = Some (dotted ls, if ptr then c else pos + 1 - off)"
  using assms by (simp add: dnsNameLoop.simps [of p off pos] dotted_def Let_def)

lemma dnsNameLoop_label:
  assumes "hops < 128" "pos < length p" "p ! pos \<noteq> 0" "p ! pos AND 0xC0 = 0" "pos + 1 + unat (p ! pos) \<le> length p"
  shows "dnsNameLoop p off pos ls c ptr hops =
    dnsNameLoop p off (pos + 1 + unat (p ! pos)) (ls @ [str_of (slice (pos + 1) (pos + 1 + unat (p ! pos)) p)]) c ptr hops"
  using assms by (simp add: dnsNameLoop.simps [of p off pos] Let_def)

lemma dnsNameLoop_pointer:
  assumes "hops < 128" "pos + 1 < length p" "p ! pos AND 0xC0 = 0xC0"
  shows "dnsNameLoop p off pos ls c ptr hops =
    dnsNameLoop p off (ptrTarget (p ! pos) (p ! (pos + 1))) ls (if ptr then c else pos + 2 - off) True (hops + 1)"
  using assms by (simp add: dnsNameLoop.simps [of p off pos] Let_def)

lemma dnsNameLoop_complete:
  "name_at p h pos ls n \<Longrightarrow> off \<le> pos \<or> ptr \<Longrightarrow> h + hops < 128 \<Longrightarrow>
   dnsNameLoop p off pos pre c ptr hops = Some (dotted (pre @ ls), if ptr then c else pos + n - off)"
proof (induction arbitrary: pre c ptr hops rule: name_at.induct)
  case (root pos)
  then show ?case by (simp add: dnsNameLoop_root)
next
  case (label pos h ls n)
  from label.IH [of ptr hops "pre @ [str_of (slice (pos + 1) (pos + 1 + unat (p ! pos)) p)]" c] label.prems
  show ?case by (auto simp: dnsNameLoop_label [OF _ label.hyps(1-4)] add.assoc)
next
  case (pointer pos h ls n)
  from pointer.IH [of True "hops + 1" pre] pointer.prems
  show ?case by (simp add: dnsNameLoop_pointer [OF _ pointer.hyps(1,2)])
qed

lemma dnsNameLoop_sound:
  "dnsNameLoop p off pos pre c ptr hops = Some r \<Longrightarrow> off \<le> pos \<or> ptr \<Longrightarrow>
   \<exists>h ls n. h + hops < 128 \<and> name_at p h pos ls n \<and> r = (dotted (pre @ ls), if ptr then c else pos + n - off)"
proof (induction p off pos pre c ptr hops rule: dnsNameLoop.induct)
  case (1 p off pos pre c ptr hops)
  note e = trans [OF 1(3) [symmetric] dnsNameLoop.simps [of p off pos pre c ptr hops]]
  have g: "hops < 128" "\<not> pos \<ge> length p" using e by (simp_all split: if_splits)
  consider (P) "p ! pos AND 0xC0 = 0xC0" | (R) "p ! pos = 0" | (L) "p ! pos AND 0xC0 = 0" "p ! pos \<noteq> 0"
    using e g by (fastforce simp: Let_def split: if_splits)
  then show ?case
  proof cases
    case P
    have q: "\<not> pos + 1 \<ge> length p" using e g P by (simp split: if_splits)
    let ?t = "ptrTarget (p ! pos) (p ! (pos + 1))" and ?c = "if \<not> ptr then pos + 2 - off else c"
    have "dnsNameLoop p off ?t pre ?c True (hops + 1) = Some r" using e g P q by simp
    from 1(1) [OF g refl P q this] obtain h ls n where
      h: "h + (hops + 1) < 128" "name_at p h ?t ls n" "r = (dotted (pre @ ls), ?c)" by auto
    have "name_at p (Suc h) pos ls 2" using q P h(2) by (intro name_at.pointer) simp_all
    then show ?thesis using h by (intro exI [of _ "Suc h"] exI [of _ ls] exI [of _ 2]) simp
  next
    case R
    then have "name_at p 0 pos [] 1" using g by (intro name_at.root) simp_all
    then show ?thesis
      using e g R by (intro exI [of _ 0] exI [of _ "[]"] exI [of _ 1]) (auto simp: dotted_def Let_def)
  next
    case L
    let ?n = "unat (p ! pos)" and ?l = "str_of (slice (pos + 1) (pos + 1 + unat (p ! pos)) p)"
    have nc: "\<not> p ! pos AND 0xC0 = 0xC0" "\<not> p ! pos AND 0xC0 \<noteq> 0" using L by simp_all
    have q: "\<not> pos + 1 + ?n > length p" using e g L by (simp add: Let_def split: if_splits)
    have "dnsNameLoop p off (pos + 1 + ?n) (pre @ [?l]) c ptr hops = Some r" using e g L q by (simp add: Let_def)
    from 1(2) [OF g refl nc L(2) refl q this] 1(4) obtain h ls n where
      h: "h + hops < 128" "name_at p h (pos + 1 + ?n) ls n"
      "r = (dotted (pre @ ?l # ls), if ptr then c else pos + 1 + ?n + n - off)" by auto
    have "name_at p h pos (?l # ls) (1 + ?n + n)" using g L q h(2) by (intro name_at.label) simp_all
    then show ?thesis using h by (intro exI [of _ h] exI [of _ "?l # ls"] exI [of _ "1 + ?n + n"]) (simp add: add.assoc)
  qed
qed

lemma name_at_positive: "name_at p h off ls n \<Longrightarrow> off < length p \<and> 0 < n"
  by (induction rule: name_at.induct) auto

lemma parseDNSName_complete:
  assumes "name_at p h off ls n" "h < 128"
  shows "parseDNSName p off = Some (dotted ls, n)"
  using dnsNameLoop_complete [OF assms(1), of off False 0 "[]" 0] name_at_positive [OF assms(1)] assms(2)
  by (simp add: parseDNSName_def)

text \<open>Messages as a resolver sends them.\<close>

definition wire_label :: "string \<Rightarrow> bool" where
  "wire_label l \<longleftrightarrow> 1 \<le> length l \<and> length l \<le> 63"

definition name_bytes :: "string list \<Rightarrow> bytes" where
  "name_bytes ls = concat (map (\<lambda>l. word_of_nat (length l) # bytes_of l) ls) @ [0]"

text \<open>A resource record; \<open>rrName = None\<close> is the pointer to the question, as servers compress it.\<close>

record dns_rr =
  rrName :: "string list option"
  rrType :: u16
  rrMeta :: bytes
  rrData :: bytes

definition rr_name_bytes :: "dns_rr \<Rightarrow> bytes" where
  "rr_name_bytes rr = (case rrName rr of None \<Rightarrow> [0xC0, 12] | Some ls \<Rightarrow> name_bytes ls)"

definition rr_bytes :: "dns_rr \<Rightarrow> bytes" where
  "rr_bytes rr = rr_name_bytes rr @ put16 (rrType rr) @ rrMeta rr @ put16 (word_of_nat (length (rrData rr))) @ rrData rr"

definition rr_ok :: "dns_rr \<Rightarrow> bool" where
  "rr_ok rr \<longleftrightarrow> length (rrMeta rr) = 6 \<and> length (rrData rr) \<le> 65535 \<and>
    (case rrName rr of None \<Rightarrow> True | Some ls \<Rightarrow> list_all wire_label ls)"

definition dns_response :: "bytes \<Rightarrow> u16 \<Rightarrow> bytes \<Rightarrow> string list \<Rightarrow> bytes \<Rightarrow> dns_rr list \<Rightarrow> bytes \<Rightarrow> bytes" where
  "dns_response ident flags counts q qtype rrs rest =
    ident @ put16 flags @ put16 1 @ put16 (word_of_nat (length rrs)) @ counts @
    name_bytes q @ qtype @ concat (map rr_bytes rrs) @ rest"

lemma label_length_byte:
  assumes "wire_label l"
  shows "unat (word_of_nat (length l) :: byte) = length l" "(word_of_nat (length l) :: byte) \<noteq> 0"
    "(word_of_nat (length l) :: byte) AND 0xC0 = 0"
proof -
  have l: "1 \<le> length l" "length l < 64" using assms by (simp_all add: wire_label_def)
  show u: "unat (word_of_nat (length l) :: byte) = length l" using l by simp
  show "(word_of_nat (length l) :: byte) \<noteq> 0"
  proof
    assume "(word_of_nat (length l) :: byte) = 0"
    then have "unat (word_of_nat (length l) :: byte) = 0" by (simp only: unat_0)
    with u l show False by linarith
  qed
  show "(word_of_nat (length l) :: byte) AND 0xC0 = 0"
  proof (rule bit_word_eqI)
    fix i assume i: "i < LENGTH(8)"
    have t: "take_bit 6 (length l) = length l" using l by (simp add: take_bit_nat_eq_self)
    have "\<not> bit (length l) i" if "6 \<le> i" using t that by (metis bit_take_bit_iff not_less)
    then have "\<not> bit (word_of_nat (length l) :: byte) i" if "6 \<le> i"
      using that bit_unsigned_iff [of "word_of_nat (length l) :: byte" i, where ?'a = nat] u by auto
    moreover have "\<not> bit (0xC0 :: byte) i" if "i < 6"
    proof -
      have "\<not> bit (push_bit 6 (3 :: byte)) i" using that by (simp only: bit_push_bit_iff) simp
      then show ?thesis by simp
    qed
    ultimately show "bit ((word_of_nat (length l) :: byte) AND 0xC0) i = bit (0 :: byte) i"
      by (cases "i < 6") (simp_all add: bit_and_iff)
  qed
qed

lemma name_at_name_bytes:
  "list_all wire_label ls \<Longrightarrow> name_at (pre @ name_bytes ls @ post) 0 (length pre) ls (length (name_bytes ls))"
proof (induction ls arbitrary: pre)
  case Nil
  have "name_at (pre @ 0 # post) 0 (length pre) [] 1" by (rule name_at.root) (simp_all add: nth_append)
  then show ?case by (simp add: name_bytes_def)
next
  case (Cons l ls)
  let ?p = "pre @ name_bytes (l # ls) @ post" and ?w = "word_of_nat (length l) :: byte"
  have wl: "wire_label l" using Cons.prems by simp
  note w = label_length_byte [OF wl]
  have p: "?p = (pre @ ?w # bytes_of l) @ name_bytes ls @ post" by (simp add: name_bytes_def)
  have at: "?p ! length pre = ?w" by (simp add: name_bytes_def nth_append)
  have sl: "slice (length pre + 1) (length pre + 1 + length l) ?p = bytes_of l"
    by (simp add: slice_def name_bytes_def)
  from Cons.IH [of "pre @ ?w # bytes_of l"] Cons.prems
  have "name_at ?p 0 (length pre + 1 + unat (?p ! length pre)) ls (length (name_bytes ls))"
    unfolding p [symmetric] at w(1) by simp
  from name_at.label [OF _ _ _ _ this] show ?case
    unfolding at w(1) sl using w by (simp add: name_bytes_def add_ac)
qed

lemma name_at_question_pointer:
  assumes "name_at p 0 12 q n" "p = pre @ [0xC0, 12] @ post"
  shows "name_at p 1 (length pre) q 2"
proof -
  have at: "p ! length pre = 0xC0" "p ! (length pre + 1) = 12" unfolding assms(2) by (simp_all add: nth_append)
  have "ptrTarget 0xC0 12 = 12" by (simp add: ptrTarget_def)
  then have "name_at p (Suc 0) (length pre) q 2"
    using assms at by (intro name_at.pointer) simp_all
  then show ?thesis by simp
qed

lemma rr_name_at:
  assumes "name_at p 0 12 q k" "p = b @ rr_name_bytes rr @ post" "rr_ok rr"
  shows "\<exists>h ls. h < 128 \<and> name_at p h (length b) ls (length (rr_name_bytes rr))"
proof (cases "rrName rr")
  case None
  then have "name_at p 1 (length b) q 2"
    using assms(2) by (intro name_at_question_pointer [OF assms(1)]) (simp add: rr_name_bytes_def)
  then show ?thesis using None by (intro exI [of _ 1] exI [of _ q]) (simp add: rr_name_bytes_def numeral_2_eq_2)
next
  case (Some ls)
  then have "list_all wire_label ls" using assms(3) by (simp add: rr_ok_def)
  from name_at_name_bytes [OF this, of b] assms(2) Some show ?thesis
    by (intro exI [of _ 0]) (auto simp: rr_name_bytes_def)
qed

lemma answerLoop_records:
  "p = b @ concat (map rr_bytes rrs) @ rest \<Longrightarrow> name_at p 0 12 q k \<Longrightarrow> list_all rr_ok rrs \<Longrightarrow>
   answerLoop p (length rrs) (length b) ips = ips @ concat (map (\<lambda>rr. answerIP (rrType rr) (rrData rr)) rrs)"
proof (induction rrs arbitrary: b ips)
  case Nil
  then show ?case by simp
next
  case (Cons rr rrs)
  let ?nm = "rr_name_bytes rr" and ?d = "rrData rr" and ?rest = "concat (map rr_bytes rrs) @ rest"
  have ok: "length (rrMeta rr) = 6" "length ?d \<le> 65535" using Cons.prems(3) by (simp_all add: rr_ok_def)
  have p: "p = b @ ?nm @ put16 (rrType rr) @ rrMeta rr @ put16 (word_of_nat (length ?d)) @ ?d @ ?rest"
    using Cons.prems(1) by (simp add: rr_bytes_def [of rr])
  have "\<exists>h ls. h < 128 \<and> name_at p h (length b) ls (length ?nm)"
    using rr_name_at [OF Cons.prems(2) p] Cons.prems(3) by simp
  then obtain ls where nm: "parseDNSName p (length b) = Some (dotted ls, length ?nm)"
    using parseDNSName_complete by blast
  let ?o = "length b + length ?nm"
  have t: "slice ?o (?o + 2) p = put16 (rrType rr)" unfolding p by (simp add: slice_def)
  have l: "slice (?o + 8) (?o + 10) p = put16 (word_of_nat (length ?d))" unfolding p using ok(1) by (simp add: slice_def)
  have d: "slice (?o + 10) (?o + 10 + length ?d) p = ?d" unfolding p using ok(1) by (simp add: slice_def)
  have le: "\<not> length p < ?o + 10" "\<not> length p < ?o + 10 + length ?d" unfolding p using ok(1) by simp_all
  have o: "?o + 10 + length ?d = length (b @ rr_bytes rr)" using ok(1) by (simp add: rr_bytes_def [of rr])
  have "answerLoop p (length rrs) (length (b @ rr_bytes rr)) (ips @ answerIP (rrType rr) ?d) =
      (ips @ answerIP (rrType rr) ?d) @ concat (map (\<lambda>rr. answerIP (rrType rr) (rrData rr)) rrs)"
    using Cons.prems by (intro Cons.IH) simp_all
  then show ?case
    using nm le ok(2) t l d unfolding list.size answerLoop.simps o [symmetric]
    by (simp add: Let_def del: add_2_eq_Suc')
qed

lemma header_fields:
  assumes "length ident = 2" "length counts = 4"
  shows "get16 (slice 2 4 (dns_response ident flags counts q qtype rrs rest)) = flags"
    and "get16 (slice 4 6 (dns_response ident flags counts q qtype rrs rest)) = 1"
    and "get16 (slice 6 8 (dns_response ident flags counts q qtype rrs rest)) = word_of_nat (length rrs)"
  using assms by (simp_all add: dns_response_def slice_def)

lemma question_name:
  assumes "length ident = 2" "length counts = 4" "list_all wire_label q"
  shows "name_at (dns_response ident flags counts q qtype rrs rest) 0 12 q (length (name_bytes q))"
proof -
  let ?h = "ident @ put16 flags @ put16 1 @ put16 (word_of_nat (length rrs)) @ counts"
  have "length ?h = 12" using assms(1,2) by simp
  with name_at_name_bytes [OF assms(3), of ?h "qtype @ concat (map rr_bytes rrs) @ rest"]
  show ?thesis by (simp add: dns_response_def)
qed

lemma sniff_dns_response:
  assumes "length ident = 2" "length counts = 4" "length qtype = 4"
    "flags AND dnsFlagQR \<noteq> 0" "flags AND dnsRCodeMask = 0"
    "list_all wire_label q" "length rrs \<le> 65535" "list_all rr_ok rrs"
  shows "sniffDNSAnswers (dns_response ident flags counts q qtype rrs rest) =
    (TrimSuffix (dotted q) ''.'', concat (map (\<lambda>rr. answerIP (rrType rr) (rrData rr)) rrs))"
proof -
  let ?p = "dns_response ident flags counts q qtype rrs rest"
  let ?b = "ident @ put16 flags @ put16 1 @ put16 (word_of_nat (length rrs)) @ counts @ name_bytes q @ qtype"
  note na = question_name [OF assms(1,2,6), of flags qtype rrs rest]
  note h = header_fields [OF assms(1,2), of flags q qtype rrs rest]
  have nm: "parseDNSName ?p 12 = Some (dotted q, length (name_bytes q))" using parseDNSName_complete [OF na] by simp
  have p: "?p = ?b @ concat (map rr_bytes rrs) @ rest" by (simp add: dns_response_def)
  have b: "length ?b = 12 + length (name_bytes q) + 4" using assms(1-3) by simp
  have len: "12 + length (name_bytes q) + 4 \<le> length ?p" using b unfolding p by simp
  have qs: "questionLoop ?p 1 0 12 [] = Some (12 + length (name_bytes q) + 4, TrimSuffix (dotted q) ''.'')"
    using nm len by (simp add: Let_def)
  have "answerLoop ?p (length rrs) (12 + length (name_bytes q) + 4) [] = concat (map (\<lambda>rr. answerIP (rrType rr) (rrData rr)) rrs)"
    unfolding b [symmetric] using answerLoop_records [OF p na assms(8), of "[]"] by simp
  then show ?thesis
    using h qs len assms(4,5,7)
    by (simp add: sniffDNSAnswers_def dnsHeaderLen_def Let_def del: questionLoop.simps answerLoop.simps)
qed

text \<open>
  DNS names: \<open>parseDNSName\<close> always returns, on any bytes and any pointer cycle, and it
  accepts exactly the names of RFC 1035 that follow fewer than 128 compression pointers, with their
  labels joined by dots and the number of bytes the name takes in place.
\<close>

lemma parseDNSName_exact:
  "parseDNSName payload offset = Some (name, consumed) \<longleftrightarrow>
   (\<exists>h ls. h < 128 \<and> name_at payload h offset ls consumed \<and> name = dotted ls)"
proof
  assume "parseDNSName payload offset = Some (name, consumed)"
  then have "dnsNameLoop payload offset offset [] 0 False 0 = Some (name, consumed)"
    by (simp add: parseDNSName_def split: if_splits)
  from dnsNameLoop_sound [OF this] show "\<exists>h ls. h < 128 \<and> name_at payload h offset ls consumed \<and> name = dotted ls"
    by auto
next
  assume "\<exists>h ls. h < 128 \<and> name_at payload h offset ls consumed \<and> name = dotted ls"
  then show "parseDNSName payload offset = Some (name, consumed)" by (auto dest: parseDNSName_complete)
qed

text \<open>
  On a well-formed successful response (one question, any records, whose names are
  written out or compressed to the question, any trailing sections) the sniffer returns the name of
  the question and the addresses of exactly the A and AAAA records, in order.
\<close>

lemma sniffDNSAnswers_response:
  assumes "length ident = 2" "length counts = 4" "length qtype = 4"
    "flags AND dnsFlagQR \<noteq> 0" "flags AND dnsRCodeMask = 0"
    "list_all wire_label q" "length rrs \<le> 65535" "list_all rr_ok rrs"
  shows "sniffDNSAnswers (dns_response ident flags counts q qtype rrs rest) =
    (TrimSuffix (dotted q) ''.'', concat (map (\<lambda>rr. answerIP (rrType rr) (rrData rr)) rrs))"
  by (rule sniff_dns_response [OF assms])

section \<open>Witnesses\<close>

definition wit_rrs :: "dns_rr list" where
  "wit_rrs = [\<lparr>rrName = None, rrType = 5, rrMeta = [0, 1, 0, 0, 0, 60], rrData = [1, 97, 0]\<rparr>,
    \<lparr>rrName = Some [''a''], rrType = 1, rrMeta = [0, 1, 0, 0, 0, 60], rrData = [93, 184, 216, 34]\<rparr>]"

lemma sniffDNSAnswers_response_witness:
  "sniffDNSAnswers (dns_response [1, 2] 0x8180 [0, 0, 0, 0] [''ab'', ''io''] [0, 1, 0, 1] wit_rrs []) =
    (''ab.io'', [V4 [93, 184, 216, 34]])"
proof -
  have "TrimSuffix (dotted [''ab'', ''io'']) ''.'' = ''ab.io''"
    by (simp add: dotted_def TrimSuffix_def HasSuffix_def)
  then show ?thesis
    using sniffDNSAnswers_response [of "[1, 2]" "[0, 0, 0, 0]" "[0, 1, 0, 1]" "0x8180" "[''ab'', ''io'']" wit_rrs "[]"]
    by (simp add: wit_rrs_def rr_ok_def wire_label_def dns_consts answerIP_def AddrFromSlice_def)
qed

end
