(* ===== verification/Route_Runtime.thy ===== *)
theory Route_Runtime
  imports Route_Rules Dns_Sniff
begin

text \<open>
  The client's routing runtime (\<open>internal/app/route.go\<close>): the engine in use, the map from addresses
  to the names DNS answers gave for them, and the decision for a target. The runtime is a record that
  the operations pass on; matching moves the counters of the engine. The part of the UDP relay that
  feeds the map from DNS responses and picks the resolver of a DNS query
  (\<open>internal/app/local_socks5.go\<close>, \<open>handleUDPResponse\<close>, \<open>directReadLoop\<close> and \<open>send\<close>) is here too. Time is
  an argument; \<open>None\<close> is the zero \<open>netip.Addr\<close> and the nil engine.
\<close>

section \<open>Model\<close>

record dnsMapEntry =
  dmDomain :: string
  dmExpiry :: gotime

record routeRuntime =
  rtEngine :: "Engine option"
  dnsMap :: "addr \<rightharpoonup> dnsMapEntry"

definition dnsMapTTL :: duration where
  "dnsMapTTL = 10 * 60 * second"

definition setEngine :: "routeRuntime \<Rightarrow> Engine option \<Rightarrow> routeRuntime" where
  "setEngine rt e = rt\<lparr>rtEngine := e\<rparr>"

definition remember :: "gotime \<Rightarrow> addr option \<Rightarrow> string \<Rightarrow> routeRuntime \<Rightarrow> routeRuntime" where
  "remember now ip domain rt =
    (case ip of
       None \<Rightarrow> rt
     | Some a \<Rightarrow>
         if domain = [] then rt
         else rt\<lparr>dnsMap := (dnsMap rt)(Unmap a \<mapsto> \<lparr>dmDomain = domain, dmExpiry = now + dnsMapTTL\<rparr>)\<rparr>)"

definition mappedHost :: "routeRuntime \<Rightarrow> gotime \<Rightarrow> addr \<Rightarrow> string option" where
  "mappedHost rt now ip =
    (case dnsMap rt (Unmap ip) of
       None \<Rightarrow> None
     | Some e \<Rightarrow> if now > dmExpiry e then None else Some (dmDomain e))"

definition resolveHostForRoute :: "routeRuntime \<Rightarrow> gotime \<Rightarrow> string \<Rightarrow> string \<times> addr option" where
  "resolveHostForRoute rt now host =
    (case ParseAddr host of
       Some ip \<Rightarrow>
         (case mappedHost rt now ip of Some domain \<Rightarrow> (domain, Some ip) | None \<Rightarrow> (host, Some ip))
     | None \<Rightarrow> (host, None))"

definition rt_match :: "unicode_lib \<Rightarrow> routeRuntime \<Rightarrow> string \<Rightarrow> addr option \<Rightarrow> (string \<times> bool) \<times> routeRuntime" where
  "rt_match U rt host ip =
    (case rtEngine rt of
       None \<Rightarrow> ((ActionProxy, False), rt)
     | Some e \<Rightarrow>
         (case Match U e host ip of
            ((action, _, matched), e') \<Rightarrow> ((action, matched), rt\<lparr>rtEngine := Some e'\<rparr>)))"

datatype routeAction = RouteProxy | RouteDirect | RouteReject

definition decideForTarget :: "unicode_lib \<Rightarrow> routeRuntime \<Rightarrow> string \<Rightarrow> addr option \<Rightarrow> routeAction \<times> routeRuntime" where
  "decideForTarget U rt host ip =
    (if rtEngine rt = None then (RouteProxy, rt)
     else
       (case rt_match U rt host ip of
          ((action, matched), rt') \<Rightarrow>
            (if \<not> matched then RouteProxy
             else if action = ActionDirect then RouteDirect
             else if action = ActionReject then RouteReject
             else RouteProxy, rt')))"

definition shouldTunnelDNS :: "unicode_lib \<Rightarrow> routeRuntime \<Rightarrow> string \<Rightarrow> bool \<times> routeRuntime" where
  "shouldTunnelDNS U rt host =
    (if rtEngine rt = None then (False, rt)
     else
       (case rt_match U rt host None of
          ((action, matched), rt') \<Rightarrow> (matched \<and> action = ActionProxy, rt')))"

fun firstSOCKS5Loop :: "unicode_lib \<Rightarrow> string list \<Rightarrow> string" where
  "firstSOCKS5Loop U [] = []"
| "firstSOCKS5Loop U (raw # rest) =
    (let trimmed = TrimSpace U raw in
     if HasPrefix trimmed ''socks5://'' then trimmed else firstSOCKS5Loop U rest)"

definition firstSOCKS5ListenAddr :: "unicode_lib \<Rightarrow> string \<Rightarrow> string" where
  "firstSOCKS5ListenAddr U listenAddr = firstSOCKS5Loop U (Split (CHR '','') listenAddr)"

definition trimDot :: "string \<Rightarrow> string" where
  "trimDot s = TrimSuffix s ''.''"

section \<open>DNS traffic of the UDP relay\<close>

definition tunnelDNSHost :: string where "tunnelDNSHost = ''1.1.1.1''"
definition directDNSHost :: string where "directDNSHost = ''223.5.5.5''"

definition rememberHostFromDNS :: "gotime \<Rightarrow> addr \<Rightarrow> string \<Rightarrow> routeRuntime \<Rightarrow> routeRuntime" where
  "rememberHostFromDNS now ip host rt = remember now (Some ip) host rt"

definition rememberAnswers :: "gotime \<Rightarrow> bytes \<Rightarrow> routeRuntime \<Rightarrow> routeRuntime" where
  "rememberAnswers now data rt =
    (case sniffDNSAnswers data of
       (qname, ips) \<Rightarrow>
         if qname \<noteq> [] then fold (\<lambda>ip. rememberHostFromDNS now ip qname) ips rt else rt)"

text \<open>The sniffing of a response that came through the tunnel, and of one that came directly.\<close>

definition sniffTunnelResponse :: "gotime \<Rightarrow> int \<Rightarrow> bytes \<Rightarrow> routeRuntime \<Rightarrow> routeRuntime" where
  "sniffTunnelResponse now port data rt =
    (if rtEngine rt \<noteq> None \<and> port = 53 then rememberAnswers now data rt else rt)"

definition sniffDirectResponse :: "gotime \<Rightarrow> int \<Rightarrow> bytes \<Rightarrow> routeRuntime \<Rightarrow> routeRuntime" where
  "sniffDirectResponse now port data rt = (if port = 53 then rememberAnswers now data rt else rt)"

text \<open>
  The head of \<open>UDPAssociation.send\<close>: the target and host after choosing the resolver. The error of
  \<open>SplitHostPort\<close> is ignored by the code, both parts being empty then.
\<close>

definition split_or_empty :: "string \<Rightarrow> string \<times> string" where
  "split_or_empty s = (case SplitHostPort s of Inr hp \<Rightarrow> hp | Inl _ \<Rightarrow> ([], []))"

definition chooseResolver :: "unicode_lib \<Rightarrow> routeRuntime \<Rightarrow> string \<Rightarrow> bytes \<Rightarrow> (string \<times> string) \<times> routeRuntime" where
  "chooseResolver U rt target data =
    (case split_or_empty target of
       (host, portStr) \<Rightarrow>
         if portStr = ''53'' \<and> rtEngine rt \<noteq> None then
           (case sniffDNSQuery data of
              None \<Rightarrow> ((target, host), rt)
            | Some qname \<Rightarrow>
                (case shouldTunnelDNS U rt qname of
                   (tunnel, rt) \<Rightarrow>
                     if tunnel then
                       (let rewritten = JoinHostPort tunnelDNSHost ''53'' in
                        if rewritten \<noteq> target then ((rewritten, tunnelDNSHost), rt) else ((target, host), rt))
                     else if host \<noteq> directDNSHost then ((JoinHostPort directDNSHost ''53'', directDNSHost), rt)
                     else ((target, host), rt)))
         else ((target, host), rt))"

section \<open>Lemmas\<close>

lemma remember_engine [simp]: "rtEngine (remember now ip d rt) = rtEngine rt"
  by (simp add: remember_def split: option.split)

lemma mappedHost_remember:
  "d \<noteq> [] \<Longrightarrow> mappedHost (remember now (Some a) d rt) t b =
    (if Unmap b = Unmap a then (if t > now + dnsMapTTL then None else Some d) else mappedHost rt t b)"
  by (simp add: remember_def mappedHost_def)

text \<open>Remembering a list of answers for one name.\<close>

lemma mappedHost_fold:
  "d \<noteq> [] \<Longrightarrow> mappedHost (fold (\<lambda>ip. rememberHostFromDNS now ip d) ips rt) t b =
    (if Unmap b \<in> Unmap ` set ips then (if t > now + dnsMapTTL then None else Some d) else mappedHost rt t b)"
  by (induction ips arbitrary: rt) (auto simp: rememberHostFromDNS_def mappedHost_remember)

lemma fold_remember_engine: "rtEngine (fold (\<lambda>ip. rememberHostFromDNS now ip d) ips rt) = rtEngine rt"
  by (induction ips arbitrary: rt) (simp_all add: rememberHostFromDNS_def)

text \<open>The outcome of a match as a decision.\<close>

definition route_spec :: "unicode_lib \<Rightarrow> Engine \<Rightarrow> string \<Rightarrow> addr option \<Rightarrow> string option" where
  "route_spec U e host ip =
    (case find (rule_means U e (target_name host) (target_addr host ip)) (eRules e) of
       Some r \<Rightarrow> Some (rAction r)
     | None \<Rightarrow> if firstDefault (eRules e) \<noteq> [] then Some (firstDefault (eRules e)) else None)"

lemma find_first:
  "xs = pre @ x # post \<Longrightarrow> P x \<Longrightarrow> \<forall>y\<in>set pre. \<not> P y \<Longrightarrow> find P xs = Some x"
  by (induction pre arbitrary: xs) auto

lemma rt_match_spec:
  assumes "engine_inv e" "\<forall>a. ip = Some a \<longrightarrow> addr_wf a" "rtEngine rt = Some e"
  shows "\<exists>action matched rt'. rt_match U rt host ip = ((action, matched), rt') \<and>
    (if matched then route_spec U e host ip = Some action else route_spec U e host ip = None) \<and>
    dnsMap rt' = dnsMap rt \<and> (\<exists>e'. rtEngine rt' = Some e' \<and> same_config e e')"
proof -
  obtain action r matched e' where m: "Match U e host ip = ((action, r, matched), e')"
    by (metis prod_cases3 surj_pair)
  have "same_config e e'" using matchLoop_state [OF m [unfolded Match_matchLoop]] by simp
  moreover have "if matched then route_spec U e host ip = Some action else route_spec U e host ip = None"
    using Match_first [OF assms(1,2) m]
  proof (elim disjE exE conjE)
    fix pre post
    assume f: "eRules e = pre @ r # post" "rule_means U e (target_name host) (target_addr host ip) r"
      "\<forall>q\<in>set pre. \<not> rule_means U e (target_name host) (target_addr host ip) q" and "matched" "action = rAction r"
    then show ?thesis using find_first [OF f] by (simp only: route_spec_def option.case if_True)
  next
    assume n: "\<forall>q\<in>set (eRules e). \<not> rule_means U e (target_name host) (target_addr host ip) q"
      "matched = (firstDefault (eRules e) \<noteq> [])"
      "action = (if firstDefault (eRules e) \<noteq> [] then firstDefault (eRules e) else ActionDirect)"
    from n(1) have "find (rule_means U e (target_name host) (target_addr host ip)) (eRules e) = None"
      by (simp add: find_None_iff)
    then show ?thesis using n(2,3) by (simp add: route_spec_def)
  qed
  ultimately show ?thesis using assms(3) m by (simp add: rt_match_def)
qed


lemma decideForTarget_spec:
  assumes "engine_inv e" "\<forall>a. ip = Some a \<longrightarrow> addr_wf a" "rtEngine rt = Some e"
  shows "fst (decideForTarget U rt host ip) =
    (if route_spec U e host ip = Some ActionDirect then RouteDirect
     else if route_spec U e host ip = Some ActionReject then RouteReject else RouteProxy)"
  using rt_match_spec [OF assms, of U host] assms(3)
  by (auto simp: decideForTarget_def route_consts split: if_splits)

lemma shouldTunnelDNS_spec:
  assumes "engine_inv e" "rtEngine rt = Some e"
  shows "\<exists>rt' e'. shouldTunnelDNS U rt host = (route_spec U e host None = Some ActionProxy, rt') \<and>
    dnsMap rt' = dnsMap rt \<and> rtEngine rt' = Some e' \<and> same_config e e'"
proof -
  obtain action matched rt' e' where r: "rt_match U rt host None = ((action, matched), rt')"
    "if matched then route_spec U e host None = Some action else route_spec U e host None = None"
    "dnsMap rt' = dnsMap rt" "rtEngine rt' = Some e'" "same_config e e'"
    using rt_match_spec [OF assms(1) _ assms(2), of None U host] by auto
  then show ?thesis using assms(2) by (cases matched) (auto simp: shouldTunnelDNS_def)
qed

section \<open>Properties\<close>

text \<open>
  C16. The routing decision fails closed: without an engine every target goes through the tunnel;
  with an engine in any reachable state a target is connected directly only when the first rule that
  applies to it, or for want of one the \<open>default:\<close> line, says \<open>direct\<close>; it is refused only when
  that says \<open>reject\<close>; a target no rule covers goes through the tunnel. A DNS query, in contrast, is
  tunnelled only when a rule or the default says \<open>proxy\<close>.
\<close>

lemma decision_fail_closed:
  assumes "sorts_starts sort_Slice"
    "\<forall>e. rtEngine rt = Some e \<longrightarrow> engine_reach U sort_Slice e" "\<forall>a. ip = Some a \<longrightarrow> addr_wf a"
  shows "fst (decideForTarget U rt host ip) =
      (case rtEngine rt of
         None \<Rightarrow> RouteProxy
       | Some e \<Rightarrow> if route_spec U e host ip = Some ActionDirect then RouteDirect
           else if route_spec U e host ip = Some ActionReject then RouteReject else RouteProxy) \<and>
    fst (shouldTunnelDNS U rt host) =
      (case rtEngine rt of None \<Rightarrow> False | Some e \<Rightarrow> route_spec U e host None = Some ActionProxy)"
proof (cases "rtEngine rt")
  case None
  then show ?thesis by (simp add: decideForTarget_def shouldTunnelDNS_def)
next
  case (Some e)
  then have "engine_inv e" using assms(1,2) engine_reach_inv by blast
  then show ?thesis
    using decideForTarget_spec [OF _ assms(3) Some] shouldTunnelDNS_spec [OF _ Some, of U host] Some by auto
qed

text \<open>
  C17. DNS answers make rules on names work for address targets: once a response for \<open>q\<close> with
  the address \<open>a\<close> came back through the relay, a connection to that address, also in its IPv4-mapped
  form, within ten minutes is decided as the target \<open>q\<close>, after any number of responses about other
  addresses; later the address stands for itself again.
\<close>

lemma dns_answers_name_targets:
  assumes "rtEngine rt = Some e" "sniffDNSAnswers d = (q, ips)" "q \<noteq> []" "a \<in> set ips"
    "ParseAddr host = Some b" "Unmap b = Unmap a"
    "list_all (\<lambda>(now', d'). \<forall>c\<in>set (snd (sniffDNSAnswers d')). Unmap c \<noteq> Unmap a) later"
  shows "resolveHostForRoute
      (fold (\<lambda>(now', d'). sniffTunnelResponse now' 53 d') later (sniffTunnelResponse now 53 d rt)) t host =
    (if t \<le> now + dnsMapTTL then (q, Some b) else (host, Some b))"
proof -
  let ?rt = "sniffTunnelResponse now 53 d rt"
  have first: "mappedHost ?rt t b = (if t > now + dnsMapTTL then None else Some q)"
    using assms(1-4,6) by (auto simp: sniffTunnelResponse_def rememberAnswers_def mappedHost_fold)
  have "mappedHost (fold (\<lambda>(now', d'). sniffTunnelResponse now' 53 d') later rt') t b = mappedHost rt' t b" for rt'
    using assms(6,7)
  proof (induction later arbitrary: rt')
    case (Cons x later)
    obtain n' d' where x: "x = (n', d')" by (cases x)
    obtain q' ips' where s: "sniffDNSAnswers d' = (q', ips')" by fastforce
    have "Unmap b \<notin> Unmap ` set ips'" using Cons.prems x s by auto
    then have "mappedHost (sniffTunnelResponse n' 53 d' rt') t b = mappedHost rt' t b"
      by (simp add: sniffTunnelResponse_def rememberAnswers_def s mappedHost_fold)
    then show ?case using Cons x by simp
  qed simp
  then show ?thesis using first assms(5) by (simp add: resolveHostForRoute_def)
qed

section \<open>Witnesses\<close>

definition wit_rt :: routeRuntime where
  "wit_rt = \<lparr>rtEngine = Some wit_engine, dnsMap = Map.empty\<rparr>"

lemma decision_fail_closed_witness:
  "fst (decideForTarget wit_unicode wit_rt ''x.org'' None) = RouteDirect \<and>
   fst (shouldTunnelDNS wit_unicode wit_rt ''x.org'') = False"
proof -
  have "\<forall>e. rtEngine wit_rt = Some e \<longrightarrow> engine_reach wit_unicode sort_starts e"
    by (simp add: wit_rt_def wit_engine_reach)
  moreover have "route_spec wit_unicode wit_engine ''x.org'' None = Some ''direct''"
  proof -
    have "target_name ''x.org'' = ''x.org''" "target_addr ''x.org'' None = None" by code_simp+
    moreover have "ToLower wit_unicode ''x.org'' = ''x.org''" "ToLower wit_unicode ''ads.io'' = ''ads.io''"
      "ToLower wit_unicode ''io'' = ''io''" by code_simp+
    moreover have "\<not> subdomain ''x.org'' ''ads.io''" "\<not> subdomain ''x.org'' ''io''"
      by (simp_all add: domainSuffixMatch_iff [symmetric] subdomain_def domainSuffixMatch_def HasSuffix_def)
    ultimately show ?thesis
      by (simp add: route_spec_def wit_engine_def wit_rules_def rule_means_def route_consts)
  qed
  ultimately show ?thesis
    using decision_fail_closed [OF sort_starts_sorts, of wit_rt wit_unicode None "''x.org''"]
    by (simp add: wit_rt_def route_consts)
qed

lemma dns_answers_name_targets_witness:
  "resolveHostForRoute (sniffTunnelResponse 0 53
      (dns_response [1, 2] 0x8180 [0, 0, 0, 0] [''ab'', ''io''] [0, 1, 0, 1] wit_rrs []) wit_rt) dnsMapTTL ''93.184.216.34'' =
    (''ab.io'', Some (V4 [93, 184, 216, 34]))"
proof -
  have s: "sniffDNSAnswers (dns_response [1, 2] 0x8180 [0, 0, 0, 0] [''ab'', ''io''] [0, 1, 0, 1] wit_rrs []) =
    (''ab.io'', [V4 [93, 184, 216, 34]])"
    using sniff_dns_response [of "[1, 2]" "[0, 0, 0, 0]" "[0, 1, 0, 1]" "0x8180" "[''ab'', ''io'']" wit_rrs "[]"]
    by (simp add: wit_rrs_def rr_ok_def wire_label_def dns_consts answerIP_def AddrFromSlice_def dotted_def TrimSuffix_def HasSuffix_def)
  have "ParseAddr ''93.184.216.34'' = Some (V4 [93, 184, 216, 34])" by code_simp
  from dns_answers_name_targets [of wit_rt wit_engine, OF _ s _ _ this, of "V4 [93, 184, 216, 34]" "[]" 0 dnsMapTTL]
  show ?thesis by (simp add: wit_rt_def)
qed

end
