(* ===== verification/Socks5_Udp.thy ===== *)
theory Socks5_Udp
  imports Socks5 Route_Runtime
begin

text \<open>
  The UDP association of the local SOCKS5 proxy (\<open>internal/app/local_socks5.go\<close>, \<open>UDPAssociation\<close>) as
  a state machine. Three kinds of goroutine share the association: the loop that reads datagrams from
  the client and sends them on, the readers of the tunnel stream and of the direct socket, and the one
  that closes the association when the TCP connection ends. A step is one critical section of the
  mutex, or one call that blocks outside it; the loop's position between two such points is its
  program counter, and steps of the others may come in between. Handles of streams and sockets are
  numbers; the world records which are open and what was written to them.
\<close>

section \<open>State\<close>

record UDPAssociation =
  clientUDPAddr :: "UDPAddr option"
  uClosed :: bool
  receiving :: bool
  uActive :: bool
  channelID :: int
  uTarget :: string
  uStream :: "nat option"
  directConn :: "nat option"

datatype pc =
    Idle
  | SendTunnel string bytes
  | OpenStream string bytes
  | WriteStream "nat option" string bytes
  | SendDirect string bytes
  | OpenDirect string bytes
  | WriteDirect nat string bytes
  | Ended

text \<open>The client's datagrams go to \<open>wChunks\<close> (stream, target, data) or \<open>wDirectOut\<close>; replies to \<open>wToClient\<close>.\<close>

record udp_world =
  wAssoc :: UDPAssociation
  wPc :: pc
  wActiveSeq :: "64 word"
  wRt :: routeRuntime
  wStreams :: "(nat \<times> string) list"
  wDirects :: "nat list"
  wListener :: bool
  wTcpConn :: bool
  wNext :: nat
  wChunks :: "(nat \<times> string \<times> bytes) list"
  wDirectOut :: "(nat \<times> string \<times> bytes) list"
  wToClient :: "(UDPAddr \<times> bytes) list"

text \<open>The association that \<open>handleSOCKS5UDP\<close> sets up once the reply is written.\<close>

definition newAssociation :: "routeRuntime \<Rightarrow> 64 word \<Rightarrow> udp_world" where
  "newAssociation rt activeSeq =
    \<lparr>wAssoc = \<lparr>clientUDPAddr = None, uClosed = False, receiving = False, uActive = True, channelID = -1,
       uTarget = [], uStream = None, directConn = None\<rparr>,
     wPc = Idle, wActiveSeq = activeSeq + 1, wRt = rt, wStreams = [], wDirects = [],
     wListener = True, wTcpConn = True, wNext = 0, wChunks = [], wDirectOut = [], wToClient = []\<rparr>"

section \<open>Operations\<close>

text \<open>\<open>net.UDPAddr.String\<close> for an address without a zone.\<close>

definition UDPAddr_String :: "UDPAddr \<Rightarrow> string" where
  "UDPAddr_String a = JoinHostPort (if uaIP a = [] then [] else IP_String (uaIP a)) (Itoa (uaPort a))"

text \<open>\<open>UDPAssociation.send\<close> up to the choice between the tunnel and a direct socket.\<close>

definition sendRoute :: "unicode_lib \<Rightarrow> gotime \<Rightarrow> string \<Rightarrow> bytes \<Rightarrow> udp_world \<Rightarrow> udp_world" where
  "sendRoute U now target data w =
    (case chooseResolver U (wRt w) target data of
       ((target, host), rt) \<Rightarrow>
         (case resolveHostForRoute rt now host of
            (routeHost, routeIP) \<Rightarrow>
              (case decideForTarget U rt routeHost routeIP of
                 (action, rt) \<Rightarrow>
                   w\<lparr>wRt := rt, wPc := if action = RouteDirect then SendDirect target data else SendTunnel target data\<rparr>)))"

definition loopForward :: "unicode_lib \<Rightarrow> byte \<Rightarrow> int list \<Rightarrow> gotime \<Rightarrow> bytes \<Rightarrow> udp_world \<Rightarrow> udp_world" where
  "loopForward U ipStrategy udpBlockPorts now buf w =
    (case parseSOCKS5UDPPacket U buf of
       Inl _ \<Rightarrow> w
     | Inr (tgt, data) \<Rightarrow>
         (case split_or_empty tgt of
            (h, ps) \<Rightarrow>
              if (case ParseIP h of
                    None \<Rightarrow> False
                  | Some ip \<Rightarrow> ipStrategy = IPStrategyIPv4Only \<and> To4 ip = None \<or>
                      ipStrategy = IPStrategyIPv6Only \<and> To4 ip \<noteq> None)
              then w
              else
                (case Atoi ps of
                   None \<Rightarrow> w
                 | Some prt \<Rightarrow> if prt \<in> set udpBlockPorts then w else sendRoute U now tgt data w)))"

text \<open>One round of \<open>UDPAssociation.loop\<close>: the first source is remembered, any other is ignored.\<close>

definition loopPacket ::
  "unicode_lib \<Rightarrow> byte \<Rightarrow> int list \<Rightarrow> gotime \<Rightarrow> UDPAddr \<Rightarrow> bytes \<Rightarrow> udp_world \<Rightarrow> udp_world" where
  "loopPacket U ipStrategy udpBlockPorts now addr buf w =
    (case clientUDPAddr (wAssoc w) of
       None \<Rightarrow> loopForward U ipStrategy udpBlockPorts now buf (w\<lparr>wAssoc := (wAssoc w)\<lparr>clientUDPAddr := Some addr\<rparr>\<rparr>)
     | Some c \<Rightarrow>
         if UDPAddr_String c \<noteq> UDPAddr_String addr then w
         else loopForward U ipStrategy udpBlockPorts now buf w)"

text \<open>\<open>UDPAssociation.Close\<close>. Adding \<open>^uint64(0)\<close> to the counter of active associations wraps to minus one.\<close>

definition assoc_Close :: "udp_world \<Rightarrow> udp_world" where
  "assoc_Close w =
    (let a = wAssoc w in
     if uClosed a then w
     else w\<lparr>wAssoc := a\<lparr>uClosed := True, uStream := None, directConn := None, uActive := False\<rparr>,
            wActiveSeq := (if uActive a then wActiveSeq w + (-1) else wActiveSeq w),
            wStreams := filter (\<lambda>(s, _). Some s \<noteq> uStream a) (wStreams w),
            wDirects := filter (\<lambda>c. Some c \<noteq> directConn a) (wDirects w),
            wListener := False, wTcpConn := False\<rparr>)"

text \<open>\<open>UDPAssociation.send\<close> through the tunnel: the critical section, the opened stream, the write.\<close>

definition sendLock :: "string \<Rightarrow> bytes \<Rightarrow> udp_world \<Rightarrow> udp_world" where
  "sendLock target data w =
    (let a = wAssoc w in
     if uClosed a then w\<lparr>wPc := Idle\<rparr>
     else if \<not> receiving a
       then w\<lparr>wAssoc := a\<lparr>receiving := True, uTarget := target\<rparr>, wPc := OpenStream target data\<rparr>
     else if target \<noteq> [] \<and> target \<noteq> uTarget a then w\<lparr>wPc := Idle\<rparr>
     else w\<lparr>wPc := WriteStream (uStream a) target data\<rparr>)"

definition sendOpened :: "int option \<Rightarrow> string \<Rightarrow> bytes \<Rightarrow> udp_world \<Rightarrow> udp_world" where
  "sendOpened result target data w =
    (case result of
       None \<Rightarrow> (assoc_Close w)\<lparr>wPc := Idle\<rparr>
     | Some chID \<Rightarrow>
         w\<lparr>wAssoc := (wAssoc w)\<lparr>uStream := Some (wNext w), channelID := chID\<rparr>,
           wStreams := (wNext w, target) # wStreams w, wNext := Suc (wNext w),
           wPc := WriteStream (Some (wNext w)) target data\<rparr>)"

text \<open>A write fails when it is told to or when the stream has been closed.\<close>

definition sendWrite :: "bool \<Rightarrow> nat option \<Rightarrow> string \<Rightarrow> bytes \<Rightarrow> udp_world \<Rightarrow> udp_world" where
  "sendWrite fails stream target data w =
    (case stream of
       None \<Rightarrow> (assoc_Close w)\<lparr>wPc := Idle\<rparr>
     | Some s \<Rightarrow>
         if fails \<or> s \<notin> fst ` set (wStreams w) then (assoc_Close w)\<lparr>wPc := Idle\<rparr>
         else w\<lparr>wChunks := wChunks w @ [(s, target, data)], wPc := Idle\<rparr>)"

text \<open>\<open>UDPAssociation.sendDirect\<close>: the critical section, the opened socket, the write.\<close>

definition sendDirectLock :: "string \<Rightarrow> bytes \<Rightarrow> udp_world \<Rightarrow> udp_world" where
  "sendDirectLock target data w =
    (let a = wAssoc w in
     if uClosed a then w\<lparr>wPc := Idle\<rparr>
     else
       (case directConn a of
          None \<Rightarrow> w\<lparr>wPc := OpenDirect target data\<rparr>
        | Some c \<Rightarrow>
            if uTarget a \<noteq> [] \<and> uTarget a \<noteq> target then w\<lparr>wPc := OpenDirect target data\<rparr>
            else w\<lparr>wPc := WriteDirect c target data\<rparr>))"

definition sendDirectOpened :: "bool \<Rightarrow> string \<Rightarrow> bytes \<Rightarrow> udp_world \<Rightarrow> udp_world" where
  "sendDirectOpened fails target data w =
    (if fails then w\<lparr>wPc := Idle\<rparr>
     else
       w\<lparr>wAssoc := (wAssoc w)\<lparr>directConn := Some (wNext w)\<rparr>,
         wDirects := wNext w # filter (\<lambda>c. Some c \<noteq> directConn (wAssoc w)) (wDirects w),
         wNext := Suc (wNext w), wPc := WriteDirect (wNext w) target data\<rparr>)"

definition sendDirectWrite :: "bool \<Rightarrow> nat \<Rightarrow> string \<Rightarrow> bytes \<Rightarrow> udp_world \<Rightarrow> udp_world" where
  "sendDirectWrite fails c target data w =
    (if fails \<or> c \<notin> set (wDirects w) then w\<lparr>wPc := Idle\<rparr>
     else w\<lparr>wDirectOut := wDirectOut w @ [(c, target, data)], wPc := Idle\<rparr>)"

text \<open>A reply written to the client; writing to a closed listener fails and the error is ignored.\<close>

definition toClient :: "UDPAddr \<Rightarrow> bytes \<Rightarrow> udp_world \<Rightarrow> udp_world" where
  "toClient a pkt w = (if wListener w then w\<lparr>wToClient := wToClient w @ [(a, pkt)]\<rparr> else w)"

definition handleUDPResponse :: "unicode_lib \<Rightarrow> gotime \<Rightarrow> string \<Rightarrow> bytes \<Rightarrow> udp_world \<Rightarrow> udp_world" where
  "handleUDPResponse U now addrStr data w =
    (case SplitHostPort addrStr of
       Inl _ \<Rightarrow> w
     | Inr (host, portStr) \<Rightarrow>
         (case Atoi portStr of
            None \<Rightarrow> w
          | Some port \<Rightarrow>
              (let w = w\<lparr>wRt := sniffTunnelResponse now port data (wRt w)\<rparr> in
               case buildSOCKS5UDPPacket U host port data of
                 Inl _ \<Rightarrow> w
               | Inr pkt \<Rightarrow>
                   (case clientUDPAddr (wAssoc w) of Some c \<Rightarrow> toClient c pkt w | None \<Rightarrow> w))))"

text \<open>
  A datagram read by \<open>directReadLoop\<close>, with whether the loop goes on. \<open>from\<close> is never nil for a
  datagram that was read; an idle timeout goes on and any other error ends the loop.
\<close>

definition directResponse :: "unicode_lib \<Rightarrow> gotime \<Rightarrow> UDPAddr \<Rightarrow> bytes \<Rightarrow> udp_world \<Rightarrow> bool \<times> udp_world" where
  "directResponse U now from payload w =
    (if payload = [] then (True, w)
     else
       (let w = w\<lparr>wRt := sniffDirectResponse now (uaPort from) payload (wRt w)\<rparr> in
        case buildSOCKS5UDPPacket U (IP_String (uaIP from)) (uaPort from) payload of
          Inl _ \<Rightarrow> (True, w)
        | Inr pkt \<Rightarrow>
            (case clientUDPAddr (wAssoc w) of
               Some c \<Rightarrow> if uClosed (wAssoc w) then (False, w) else (True, toClient c pkt w)
             | None \<Rightarrow> (False, w))))"

section \<open>Steps\<close>

text \<open>
  Any result of the blocking calls is possible. A datagram read before the listener was closed may
  still be handled after it; once the listener is closed the loop may end.
\<close>

inductive udp_step :: "unicode_lib \<Rightarrow> byte \<Rightarrow> int list \<Rightarrow> udp_world \<Rightarrow> udp_world \<Rightarrow> bool"
  for U :: unicode_lib and ipStrategy :: byte and blockPorts :: "int list" where
  packet: "wPc w = Idle \<Longrightarrow> udp_step U ipStrategy blockPorts w (loopPacket U ipStrategy blockPorts now addr buf w)"
| ended: "wPc w = Idle \<Longrightarrow> \<not> wListener w \<Longrightarrow> udp_step U ipStrategy blockPorts w (w\<lparr>wPc := Ended\<rparr>)"
| lock: "wPc w = SendTunnel t d \<Longrightarrow> udp_step U ipStrategy blockPorts w (sendLock t d w)"
| opened: "wPc w = OpenStream t d \<Longrightarrow> udp_step U ipStrategy blockPorts w (sendOpened result t d w)"
| chunk: "wPc w = WriteStream s t d \<Longrightarrow> udp_step U ipStrategy blockPorts w (sendWrite fails s t d w)"
| dlock: "wPc w = SendDirect t d \<Longrightarrow> udp_step U ipStrategy blockPorts w (sendDirectLock t d w)"
| dopened: "wPc w = OpenDirect t d \<Longrightarrow> udp_step U ipStrategy blockPorts w (sendDirectOpened fails t d w)"
| dwrite: "wPc w = WriteDirect c t d \<Longrightarrow> udp_step U ipStrategy blockPorts w (sendDirectWrite fails c t d w)"
| response: "udp_step U ipStrategy blockPorts w (handleUDPResponse U now addrStr payload w)"
| dresponse: "udp_step U ipStrategy blockPorts w (snd (directResponse U now from payload w))"
| close: "udp_step U ipStrategy blockPorts w (assoc_Close w)"

inductive udp_run :: "unicode_lib \<Rightarrow> byte \<Rightarrow> int list \<Rightarrow> udp_world \<Rightarrow> udp_world \<Rightarrow> bool"
  for U :: unicode_lib and ipStrategy :: byte and blockPorts :: "int list" where
  refl: "udp_run U ipStrategy blockPorts w w"
| step: "udp_run U ipStrategy blockPorts w w' \<Longrightarrow> udp_step U ipStrategy blockPorts w' w'' \<Longrightarrow>
    udp_run U ipStrategy blockPorts w w''"

inductive_cases udp_stepE: "udp_step U ipStrategy blockPorts w w'"

section \<open>Lemmas\<close>

lemma JoinHostPort_nonempty [simp]: "JoinHostPort h p \<noteq> []"
  by (simp add: JoinHostPort_def)

lemma chooseResolver_nonempty:
  "target \<noteq> [] \<Longrightarrow> fst (fst (chooseResolver U rt target data)) \<noteq> []"
  by (auto simp: chooseResolver_def Let_def split: prod.splits option.splits)

lemma parsePacket_nonempty: "parseSOCKS5UDPPacket U buf = Inr (tgt, data) \<Longrightarrow> tgt \<noteq> []"
  by (auto simp: parseSOCKS5UDPPacket_def parseSOCKS5UDPFrameAddr_def Let_def split: sum.splits if_splits simp: rbind_eq_Inr)

text \<open>Where a datagram from the client leads: nowhere, or to one of the two ways to send it.\<close>

lemma loopForward_cases:
  "loopForward U ipStrategy blockPorts now buf w = w \<or>
    (\<exists>rt t d. t \<noteq> [] \<and> (loopForward U ipStrategy blockPorts now buf w = w\<lparr>wRt := rt, wPc := SendTunnel t d\<rparr> \<or>
       loopForward U ipStrategy blockPorts now buf w = w\<lparr>wRt := rt, wPc := SendDirect t d\<rparr>))"
proof (cases "parseSOCKS5UDPPacket U buf")
  case (Inr p)
  obtain tgt data where p: "p = (tgt, data)" by fastforce
  obtain target host rt where c: "chooseResolver U (wRt w) tgt data = ((target, host), rt)" by (metis prod.exhaust)
  obtain rh rip where r: "resolveHostForRoute rt now host = (rh, rip)" by fastforce
  obtain act rt' where a: "decideForTarget U rt rh rip = (act, rt')" by fastforce
  have n: "target \<noteq> []" using chooseResolver_nonempty [OF parsePacket_nonempty [OF Inr [unfolded p]], of U "wRt w" data] c by simp
  have "sendRoute U now tgt data w = w\<lparr>wRt := rt', wPc := if act = RouteDirect then SendDirect target data else SendTunnel target data\<rparr>"
    using c r a by (simp add: sendRoute_def)
  then show ?thesis using Inr p n by (auto simp: loopForward_def split: prod.splits option.splits)
qed (simp add: loopForward_def)

text \<open>So a predicate that both ways keep holds after the datagram.\<close>

lemma loopForward_rule:
  assumes "P w" "\<And>rt t d. t \<noteq> [] \<Longrightarrow> P (w\<lparr>wRt := rt, wPc := SendTunnel t d\<rparr>)"
    "\<And>rt t d. t \<noteq> [] \<Longrightarrow> P (w\<lparr>wRt := rt, wPc := SendDirect t d\<rparr>)"
  shows "P (loopForward U ipStrategy blockPorts now buf w)"
  using loopForward_cases [of U ipStrategy blockPorts now buf w] assms by metis

text \<open>Replies leave the association and its handles alone.\<close>

lemma toClient_frame:
  "\<exists>out. toClient c pkt w = w\<lparr>wToClient := out\<rparr> \<and> (\<forall>x. x \<in> set out \<longrightarrow> x \<in> set (wToClient w) \<or> fst x = c)"
  by (cases "wListener w") (auto simp: toClient_def intro: exI [of _ "wToClient w"])

lemma handleUDPResponse_frame:
  "\<exists>rt out. handleUDPResponse U now s p w = w\<lparr>wRt := rt, wToClient := out\<rparr> \<and>
    (\<forall>x. x \<in> set out \<longrightarrow> x \<in> set (wToClient w) \<or> clientUDPAddr (wAssoc w) = Some (fst x))"
proof -
  let ?P = "\<lambda>w'. \<exists>rt out. w' = w\<lparr>wRt := rt, wToClient := out\<rparr> \<and>
    (\<forall>x. x \<in> set out \<longrightarrow> x \<in> set (wToClient w) \<or> clientUDPAddr (wAssoc w) = Some (fst x))"
  have a: "?P (w\<lparr>wRt := rt\<rparr>)" for rt
    by (intro exI [of _ rt] exI [of _ "wToClient w"]) simp
  have b: "?P (toClient c pkt (w\<lparr>wRt := rt\<rparr>))" if "clientUDPAddr (wAssoc w) = Some c" for c pkt rt
    using toClient_frame [of c pkt "w\<lparr>wRt := rt\<rparr>"] that by force
  have c: "?P w" using a [of "wRt w"] by simp
  show ?thesis
    using a b c by (auto simp: handleUDPResponse_def Let_def split: sum.split prod.split option.split)
qed

lemma directResponse_frame:
  "\<exists>rt out. snd (directResponse U now from p w) = w\<lparr>wRt := rt, wToClient := out\<rparr> \<and>
    (\<forall>x. x \<in> set out \<longrightarrow> x \<in> set (wToClient w) \<or> clientUDPAddr (wAssoc w) = Some (fst x))"
proof -
  let ?P = "\<lambda>w'. \<exists>rt out. w' = w\<lparr>wRt := rt, wToClient := out\<rparr> \<and>
    (\<forall>x. x \<in> set out \<longrightarrow> x \<in> set (wToClient w) \<or> clientUDPAddr (wAssoc w) = Some (fst x))"
  have a: "?P (w\<lparr>wRt := rt\<rparr>)" for rt
    by (intro exI [of _ rt] exI [of _ "wToClient w"]) simp
  have b: "?P (toClient c pkt (w\<lparr>wRt := rt\<rparr>))" if "clientUDPAddr (wAssoc w) = Some c" for c pkt rt
    using toClient_frame [of c pkt "w\<lparr>wRt := rt\<rparr>"] that by force
  have c: "?P w" using a [of "wRt w"] by simp
  show ?thesis
    using a b c by (auto simp: directResponse_def Let_def split: sum.split prod.split option.split)
qed

text \<open>The invariant of the association.\<close>

definition mid_open :: "udp_world \<Rightarrow> bool" where
  "mid_open w = (case wPc w of OpenStream _ _ \<Rightarrow> True | OpenDirect _ _ \<Rightarrow> True | _ \<Rightarrow> False)"

definition pc_inv :: "udp_world \<Rightarrow> bool" where
  "pc_inv w =
    (case wPc w of
       SendTunnel t _ \<Rightarrow> t \<noteq> []
     | OpenStream t _ \<Rightarrow> receiving (wAssoc w) \<and> uTarget (wAssoc w) = t \<and> uStream (wAssoc w) = None \<and> wStreams w = []
     | WriteStream _ t _ \<Rightarrow> receiving (wAssoc w) \<and> uTarget (wAssoc w) = t
     | _ \<Rightarrow> True)"

definition handles_inv :: "udp_world \<Rightarrow> bool" where
  "handles_inv w \<longleftrightarrow>
    (\<not> uClosed (wAssoc w) \<longrightarrow>
       map fst (wStreams w) = (case uStream (wAssoc w) of Some s \<Rightarrow> [s] | None \<Rightarrow> []) \<and>
       wDirects w = (case directConn (wAssoc w) of Some c \<Rightarrow> [c] | None \<Rightarrow> [])) \<and>
    length (wStreams w) \<le> 1 \<and>
    (\<not> receiving (wAssoc w) \<longrightarrow> wStreams w = [] \<and> wChunks w = []) \<and>
    (\<forall>(s, t)\<in>set (wStreams w). t = uTarget (wAssoc w)) \<and>
    (\<forall>(s, t, d)\<in>set (wChunks w). t = uTarget (wAssoc w))"

definition count_inv :: "64 word \<Rightarrow> udp_world \<Rightarrow> bool" where
  "count_inv base w \<longleftrightarrow>
    uActive (wAssoc w) = (\<not> uClosed (wAssoc w)) \<and>
    wActiveSeq w = base + (if uClosed (wAssoc w) then 0 else 1) \<and>
    wListener w = (\<not> uClosed (wAssoc w)) \<and> wTcpConn w = (\<not> uClosed (wAssoc w))"

definition assoc_inv :: "64 word \<Rightarrow> udp_world \<Rightarrow> bool" where
  "assoc_inv base w \<longleftrightarrow> count_inv base w \<and> handles_inv w \<and> pc_inv w"

lemmas inv_defs = assoc_inv_def count_inv_def handles_inv_def pc_inv_def

lemma assoc_inv_new: "assoc_inv base (newAssociation rt base)"
  by (simp add: newAssociation_def inv_defs)

lemma filter_handles:
  "map fst xs = [s] \<Longrightarrow> filter (\<lambda>(s', _). s' \<noteq> s) xs = []"
  by (auto simp: map_eq_Cons_conv)

lemma assoc_inv_Close: "assoc_inv base w \<Longrightarrow> assoc_inv base (assoc_Close w)"
  by (cases "uClosed (wAssoc w)"; cases "wPc w")
    (auto simp: assoc_Close_def Let_def inv_defs filter_handles case_prod_beta split: option.splits intro: le_trans [OF length_filter_le])

lemma assoc_inv_Close_Idle: "assoc_inv base w \<Longrightarrow> assoc_inv base ((assoc_Close w)\<lparr>wPc := Idle\<rparr>)"
  using assoc_inv_Close [of base w] by (simp add: inv_defs)

lemma assoc_inv_Idle: "assoc_inv base w \<Longrightarrow> assoc_inv base (w\<lparr>wPc := Idle\<rparr>)"
  by (simp add: inv_defs)

lemma assoc_inv_frame: "assoc_inv base (w\<lparr>wRt := rt, wToClient := out\<rparr>) = assoc_inv base w"
  by (cases "wPc w") (simp_all add: inv_defs)

lemma assoc_inv_client: "assoc_inv base (w\<lparr>wAssoc := (wAssoc w)\<lparr>clientUDPAddr := c\<rparr>\<rparr>) = assoc_inv base w"
  by (cases "wPc w") (simp_all add: inv_defs)

lemma assoc_inv_forward: "assoc_inv base w \<Longrightarrow> assoc_inv base (loopForward U st bp now buf w)"
  by (rule loopForward_rule) (simp_all add: inv_defs)

lemma assoc_inv_packet: "assoc_inv base w \<Longrightarrow> assoc_inv base (loopPacket U st bp now addr buf w)"
  by (auto simp: loopPacket_def assoc_inv_client split: option.split intro!: assoc_inv_forward)

lemma assoc_inv_lock: "assoc_inv base w \<Longrightarrow> wPc w = SendTunnel t d \<Longrightarrow> assoc_inv base (sendLock t d w)"
  by (auto simp: sendLock_def Let_def inv_defs split: option.splits)

lemma assoc_inv_opened:
  assumes "assoc_inv base w" "wPc w = OpenStream t d"
  shows "assoc_inv base (sendOpened result t d w)"
proof (cases result)
  case None
  then show ?thesis using assoc_inv_Close_Idle [OF assms(1)] by (simp add: sendOpened_def)
next
  case (Some c)
  then show ?thesis using assms by (clarsimp simp: sendOpened_def inv_defs) blast
qed

lemma assoc_inv_chunk:
  assumes "assoc_inv base w" "wPc w = WriteStream s t d"
  shows "assoc_inv base (sendWrite fails s t d w)"
proof (cases "s = None \<or> fails \<or> the s \<notin> fst ` set (wStreams w)")
  case True
  then have "sendWrite fails s t d w = (assoc_Close w)\<lparr>wPc := Idle\<rparr>" by (cases s) (auto simp: sendWrite_def)
  then show ?thesis using assoc_inv_Close_Idle [OF assms(1)] by simp
next
  case False
  then have "sendWrite fails s t d w = w\<lparr>wChunks := wChunks w @ [(the s, t, d)], wPc := Idle\<rparr>"
    by (cases s) (auto simp: sendWrite_def)
  then show ?thesis using assms by (clarsimp simp: inv_defs)
qed

lemma assoc_inv_direct:
  "assoc_inv base w \<Longrightarrow> assoc_inv base (sendDirectLock t d w)"
  "assoc_inv base w \<Longrightarrow> assoc_inv base (sendDirectOpened fails t d w)"
  "assoc_inv base w \<Longrightarrow> assoc_inv base (sendDirectWrite fails c t d w)"
  by (auto simp: sendDirectLock_def sendDirectOpened_def sendDirectWrite_def Let_def inv_defs split: option.split)

lemma assoc_inv_step: "udp_step U st bp w w' \<Longrightarrow> assoc_inv base w \<Longrightarrow> assoc_inv base w'"
proof (induction rule: udp_step.induct)
  case (response w now s p)
  then show ?case using handleUDPResponse_frame [of U now s p w] by (metis assoc_inv_frame)
next
  case (dresponse w now src p)
  then show ?case using directResponse_frame [of U now src p w] by (metis assoc_inv_frame)
next
  case (ended w)
  then show ?case by (simp add: inv_defs)
qed (simp_all add: assoc_inv_packet assoc_inv_lock assoc_inv_opened assoc_inv_chunk assoc_inv_direct assoc_inv_Close)

lemma udp_run_trans: "udp_run U st bp w w' \<Longrightarrow> udp_run U st bp w0 w \<Longrightarrow> udp_run U st bp w0 w'"
  by (induction rule: udp_run.induct) (auto intro: udp_run.step)

lemma assoc_inv_run: "udp_run U st bp w w' \<Longrightarrow> assoc_inv base w \<Longrightarrow> assoc_inv base w'"
  by (induction rule: udp_run.induct) (auto intro: assoc_inv_step)

text \<open>A closed association with no open under way and no handle left stays so.\<close>

definition released :: "udp_world \<Rightarrow> bool" where
  "released w \<longleftrightarrow> uClosed (wAssoc w) \<and> \<not> mid_open w \<and> wStreams w = [] \<and> wDirects w = []"

lemma released_forward: "released w \<Longrightarrow> released (loopForward U st bp now buf w)"
  by (rule loopForward_rule) (simp_all add: released_def mid_open_def)

lemma released_step: "udp_step U st bp w w' \<Longrightarrow> released w \<Longrightarrow> released w'"
proof (induction rule: udp_step.induct)
  case (packet w now addr buf)
  have "released (w\<lparr>wAssoc := (wAssoc w)\<lparr>clientUDPAddr := c\<rparr>\<rparr>)" for c
    using packet by (simp add: released_def mid_open_def)
  then show ?case using packet(2) by (simp add: loopPacket_def released_forward split: option.split)
next
  case (response w now s p)
  then show ?case using handleUDPResponse_frame [of U now s p w] by (clarsimp simp: released_def mid_open_def)
next
  case (dresponse w now src p)
  then show ?case using directResponse_frame [of U now src p w] by (auto simp: released_def mid_open_def)
qed (auto simp: released_def mid_open_def sendLock_def sendWrite_def sendDirectLock_def sendDirectWrite_def assoc_Close_def
  Let_def split: option.split)

lemma released_run: "udp_run U st bp w w' \<Longrightarrow> released w \<Longrightarrow> released w'"
  by (induction rule: udp_run.induct) (auto intro: released_step)

text \<open>A handle the closed association no longer refers to is never closed.\<close>

definition leaked :: "udp_world \<Rightarrow> bool" where
  "leaked w \<longleftrightarrow> uClosed (wAssoc w) \<and> \<not> mid_open w \<and> wStreams w \<noteq> []"

lemma leaked_forward: "leaked w \<Longrightarrow> leaked (loopForward U st bp now buf w)"
  by (rule loopForward_rule) (simp_all add: leaked_def mid_open_def)

lemma leaked_step: "udp_step U st bp w w' \<Longrightarrow> leaked w \<Longrightarrow> leaked w'"
proof (induction rule: udp_step.induct)
  case (packet w now addr buf)
  have "leaked (w\<lparr>wAssoc := (wAssoc w)\<lparr>clientUDPAddr := c\<rparr>\<rparr>)" for c
    using packet by (simp add: leaked_def mid_open_def)
  then show ?case using packet(2) by (simp add: loopPacket_def leaked_forward split: option.split)
next
  case (response w now s p)
  then show ?case using handleUDPResponse_frame [of U now s p w] by (auto simp: leaked_def mid_open_def)
next
  case (dresponse w now src p)
  then show ?case using directResponse_frame [of U now src p w] by (auto simp: leaked_def mid_open_def)
qed (auto simp: leaked_def mid_open_def sendLock_def sendWrite_def sendDirectLock_def sendDirectWrite_def assoc_Close_def
  Let_def split: option.split)

lemma leaked_run: "udp_run U st bp w w' \<Longrightarrow> leaked w \<Longrightarrow> leaked w'"
  by (induction rule: udp_run.induct) (auto intro: leaked_step)

lemma Close_released:
  assumes "assoc_inv base w" "\<not> uClosed (wAssoc w)" "\<not> mid_open w"
  shows "released (assoc_Close w)"
  using assms by (auto simp: released_def assoc_Close_def Let_def inv_defs mid_open_def filter_handles case_prod_beta split: option.splits pc.splits)

text \<open>The source that is remembered first stays, and replies go to it alone.\<close>

definition pinned :: "UDPAddr \<Rightarrow> udp_world \<Rightarrow> bool" where
  "pinned c w \<longleftrightarrow> clientUDPAddr (wAssoc w) = Some c \<and> (\<forall>x\<in>set (wToClient w). fst x = c)"

lemma pinned_frame:
  "pinned c w \<Longrightarrow> (\<forall>x. x \<in> set out \<longrightarrow> x \<in> set (wToClient w) \<or> clientUDPAddr (wAssoc w) = Some (fst x)) \<Longrightarrow>
   pinned c (w\<lparr>wRt := rt, wToClient := out\<rparr>)"
  by (fastforce simp: pinned_def)

lemma pinned_step: "udp_step U st bp w w' \<Longrightarrow> pinned c w \<Longrightarrow> pinned c w'"
proof (induction rule: udp_step.induct)
  case (packet w now addr buf)
  have "pinned c (loopForward U st bp now buf w)"
    by (rule loopForward_rule) (use packet(2) in \<open>simp_all add: pinned_def\<close>)
  then show ?case using packet(2) by (auto simp: loopPacket_def pinned_def)
next
  case (response w now s p)
  then show ?case using handleUDPResponse_frame [of U now s p w] pinned_frame by metis
next
  case (dresponse w now src p)
  then show ?case using directResponse_frame [of U now src p w] pinned_frame by metis
qed (auto simp: pinned_def sendLock_def sendOpened_def sendWrite_def sendDirectLock_def sendDirectOpened_def sendDirectWrite_def
  assoc_Close_def Let_def split: option.split)

lemma pinned_run: "udp_run U st bp w w' \<Longrightarrow> pinned c w \<Longrightarrow> pinned c w'"
  by (induction rule: udp_run.induct) (auto intro: pinned_step)

definition pin_inv :: "udp_world \<Rightarrow> bool" where
  "pin_inv w = (case clientUDPAddr (wAssoc w) of None \<Rightarrow> wToClient w = [] | Some c \<Rightarrow> pinned c w)"

lemma pin_inv_frame:
  assumes "pin_inv w" "clientUDPAddr (wAssoc w) = None"
    "\<forall>x. x \<in> set out \<longrightarrow> x \<in> set (wToClient w) \<or> clientUDPAddr (wAssoc w) = Some (fst x)"
  shows "pin_inv (w\<lparr>wRt := rt, wToClient := out\<rparr>)"
proof -
  have "set out = {}" using assms by (auto simp: pin_inv_def)
  then show ?thesis using assms(2) by (simp add: pin_inv_def)
qed

lemma pin_inv_step:
  assumes "udp_step U st bp w w'" "pin_inv w"
  shows "pin_inv w'"
proof (cases "clientUDPAddr (wAssoc w)")
  case (Some c)
  then have "pinned c w" using assms(2) by (simp add: pin_inv_def)
  from pinned_step [OF assms(1) this] show ?thesis by (simp add: pin_inv_def pinned_def)
next
  case None
  with assms show ?thesis
  proof (induction rule: udp_step.induct)
    case (packet w now addr buf)
    have "pin_inv (loopForward U st bp now buf (w\<lparr>wAssoc := (wAssoc w)\<lparr>clientUDPAddr := Some addr\<rparr>\<rparr>))"
      by (rule loopForward_rule) (use packet in \<open>simp_all add: pin_inv_def pinned_def\<close>)
    then show ?case using packet(3) by (simp add: loopPacket_def)
  next
    case (response w now s p)
    then show ?case using handleUDPResponse_frame [of U now s p w] pin_inv_frame [of w] by fastforce
  next
    case (dresponse w now src p)
    then show ?case using directResponse_frame [of U now src p w] pin_inv_frame [of w] by fastforce
  qed (auto simp: pin_inv_def sendLock_def sendOpened_def sendWrite_def sendDirectLock_def sendDirectOpened_def
    sendDirectWrite_def assoc_Close_def Let_def split: option.split)
qed

lemma pin_inv_run: "udp_run U st bp w w' \<Longrightarrow> pin_inv w \<Longrightarrow> pin_inv w'"
  by (induction rule: udp_run.induct) (auto intro: pin_inv_step)

section \<open>Properties\<close>


text \<open>
  The client of an association is the source of its first datagram: from then on, in every
  later state, that source stays the client, every reply that was ever sent went to it, and a datagram
  from an address that prints differently changes nothing.
\<close>

lemma udp_client_pinned:
  assumes "udp_run U strategy blockPorts (newAssociation rt base) w" "clientUDPAddr (wAssoc w) = Some c"
    "udp_run U strategy blockPorts w w'"
  shows "clientUDPAddr (wAssoc w') = Some c \<and> (\<forall>(a, pkt)\<in>set (wToClient w'). a = c) \<and>
    (\<forall>now addr buf. UDPAddr_String addr \<noteq> UDPAddr_String c \<longrightarrow> loopPacket U strategy blockPorts now addr buf w' = w')"
proof -
  have "pin_inv (newAssociation rt base)" by (simp add: pin_inv_def newAssociation_def)
  from pin_inv_run [OF assms(1) this] assms(2) have "pinned c w" by (simp add: pin_inv_def)
  from pinned_run [OF assms(3) this] have p: "clientUDPAddr (wAssoc w') = Some c" "\<forall>x\<in>set (wToClient w'). fst x = c"
    by (simp_all add: pinned_def)
  then show ?thesis by (auto simp: loopPacket_def)
qed

text \<open>
  Closing an open association while the loop is not in the middle of opening a stream or a
  socket releases everything: from then on, whatever still happens, no tunnel stream and no direct
  socket is open.
\<close>

lemma udp_close_releases:
  assumes "udp_run U strategy blockPorts (newAssociation rt base) w" "\<not> uClosed (wAssoc w)" "\<not> mid_open w"
    "udp_run U strategy blockPorts (assoc_Close w) w'"
  shows "wStreams w' = [] \<and> wDirects w' = [] \<and> \<not> wListener w'"
proof -
  have "released (assoc_Close w)"
    using Close_released [OF assoc_inv_run [OF assms(1) assoc_inv_new] assms(2,3)] .
  from released_run [OF assms(4) this] have r: "released w'" .
  have "udp_run U strategy blockPorts (newAssociation rt base) w'"
    using udp_run_trans [OF assms(4) udp_run.step [OF assms(1) udp_step.close]] .
  from assoc_inv_run [OF this assoc_inv_new] r show ?thesis
    by (simp add: released_def assoc_inv_def count_inv_def)
qed

text \<open>
  The gap in the previous property is real: when the association is closed while the loop is
  opening a tunnel stream and the open then succeeds, the stream is stored in an association that is
  already closed, and nothing ever closes it, whatever happens later.
\<close>

lemma udp_close_race_leaks:
  assumes "udp_run U strategy blockPorts (newAssociation rt base) w" "wPc w = OpenStream target data"
  shows "\<exists>w1. udp_run U strategy blockPorts (newAssociation rt base) w1 \<and> uClosed (wAssoc w1) \<and>
    (\<forall>w'. udp_run U strategy blockPorts w1 w' \<longrightarrow> wStreams w' \<noteq> [])"
proof -
  let ?w = "assoc_Close w" and ?w1 = "sendOpened (Some 1) target data (assoc_Close w)"
  have pc: "wPc ?w = OpenStream target data" using assms(2) by (simp add: assoc_Close_def Let_def)
  have "udp_run U strategy blockPorts (newAssociation rt base) ?w1"
    using udp_run.step [OF udp_run.step [OF assms(1) udp_step.close] udp_step.opened [OF pc]] .
  moreover have l: "leaked ?w1"
    by (simp add: leaked_def mid_open_def sendOpened_def assoc_Close_def Let_def)
  moreover have "uClosed (wAssoc ?w1)" using l by (simp add: leaked_def)
  ultimately show ?thesis using leaked_run leaked_def by blast
qed

text \<open>
  A concrete run for the witnesses: the client's first datagram, addressed to 1.2.3.4 port 80, and the
  critical section after which its stream is being opened.
\<close>

definition wit_routes :: routeRuntime where
  "wit_routes = \<lparr>rtEngine = None, dnsMap = Map.empty\<rparr>"

definition wit_client :: UDPAddr where
  "wit_client = \<lparr>uaIP = [127, 0, 0, 1], uaPort = 50\<rparr>"

definition wit_frame :: bytes where
  "wit_frame = [0, 0, 0, 1, 1, 2, 3, 4, 0, 80, 7]"

definition wit_packet :: udp_world where
  "wit_packet = loopPacket wit_lib IPStrategyDefault [443] 0 wit_client wit_frame (newAssociation wit_routes 5)"

lemma wit_parse: "parseSOCKS5UDPPacket wit_lib wit_frame = Inr (''1.2.3.4:80'', [7])"
  by code_simp

lemma wit_packet_eq:
  "wit_packet = (newAssociation wit_routes 5)\<lparr>wAssoc := (wAssoc (newAssociation wit_routes 5))\<lparr>clientUDPAddr := Some wit_client\<rparr>,
     wPc := SendTunnel ''1.2.3.4:80'' [7]\<rparr>"
proof -
  have f: "split_or_empty ''1.2.3.4:80'' = (''1.2.3.4'', ''80'')" "Atoi ''80'' = Some 80" "80 \<notin> set [443 :: int]"
    by code_simp+
  have s: "IPStrategyDefault \<noteq> IPStrategyIPv4Only" "IPStrategyDefault \<noteq> IPStrategyIPv6Only" by code_simp+
  have "sendRoute wit_lib 0 ''1.2.3.4:80'' [7] w = w\<lparr>wPc := SendTunnel ''1.2.3.4:80'' [7]\<rparr>" if "wRt w = wit_routes" for w
  proof -
    obtain h i where r: "resolveHostForRoute wit_routes 0 ''1.2.3.4'' = (h, i)" by fastforce
    then show ?thesis using that f by (simp add: sendRoute_def chooseResolver_def decideForTarget_def wit_routes_def)
  qed
  then show ?thesis
    using f s wit_parse
    by (simp add: wit_packet_def loopPacket_def loopForward_def newAssociation_def split: option.split)
qed

lemma wit_run:
  "udp_run wit_lib IPStrategyDefault [443] (newAssociation wit_routes 5) wit_packet"
  "udp_run wit_lib IPStrategyDefault [443] (newAssociation wit_routes 5) (sendLock ''1.2.3.4:80'' [7] wit_packet)"
  "wPc (sendLock ''1.2.3.4:80'' [7] wit_packet) = OpenStream ''1.2.3.4:80'' [7]"
proof -
  have "wPc (newAssociation wit_routes 5) = Idle" by (simp add: newAssociation_def)
  from udp_run.step [OF udp_run.refl udp_step.packet [OF this]]
  show r: "udp_run wit_lib IPStrategyDefault [443] (newAssociation wit_routes 5) wit_packet" unfolding wit_packet_def .
  have "wPc wit_packet = SendTunnel ''1.2.3.4:80'' [7]" by (simp add: wit_packet_eq)
  from udp_run.step [OF r udp_step.lock [OF this]]
  show "udp_run wit_lib IPStrategyDefault [443] (newAssociation wit_routes 5) (sendLock ''1.2.3.4:80'' [7] wit_packet)" .
  show "wPc (sendLock ''1.2.3.4:80'' [7] wit_packet) = OpenStream ''1.2.3.4:80'' [7]"
    by (simp add: sendLock_def wit_packet_eq newAssociation_def Let_def)
qed


lemma udp_client_pinned_witness:
  "loopPacket wit_lib IPStrategyDefault [443] 0 \<lparr>uaIP = [127, 0, 0, 1], uaPort = 51\<rparr> wit_frame wit_packet = wit_packet"
proof -
  have c: "clientUDPAddr (wAssoc wit_packet) = Some wit_client" by (simp add: wit_packet_eq)
  have "UDPAddr_String \<lparr>uaIP = [127, 0, 0, 1], uaPort = 51\<rparr> \<noteq> UDPAddr_String wit_client" by code_simp
  with udp_client_pinned [OF wit_run(1) c udp_run.refl] show ?thesis by blast
qed

lemma udp_close_releases_witness:
  "wStreams (assoc_Close wit_packet) = [] \<and> wDirects (assoc_Close wit_packet) = [] \<and> \<not> wListener (assoc_Close wit_packet)"
proof -
  have "\<not> uClosed (wAssoc wit_packet)" "\<not> mid_open wit_packet"
    by (simp_all add: wit_packet_eq newAssociation_def mid_open_def)
  from udp_close_releases [OF wit_run(1) this udp_run.refl] show ?thesis .
qed

lemma udp_close_race_leaks_witness:
  "\<exists>w1. udp_run wit_lib IPStrategyDefault [443] (newAssociation wit_routes 5) w1 \<and> uClosed (wAssoc w1) \<and>
    (\<forall>w'. udp_run wit_lib IPStrategyDefault [443] w1 w' \<longrightarrow> wStreams w' \<noteq> [])"
  using udp_close_race_leaks [OF wit_run(2,3)] .

end
