(* ===== verification/Stream_Open.thy ===== *)
theory Stream_Open
  imports Socks5 Route_Runtime Server_Caches "HOL-Library.Signed_Division"
begin

text \<open>
  Opening a tunnelled stream: the client's choice of a channel and the request it sends
  (\<open>internal/app/client.go\<close>, \<open>openBestStream\<close>, \<open>openTCPStream\<close>, \<open>openUDPStream\<close>), what the server does with
  a stream (\<open>internal/app/server.go\<close>, \<open>handleSmuxStream\<close> and its helpers), the relay of UDP packets, and
  the local proxy's handling of a CONNECT (\<open>internal/app/local_socks5.go\<close>, \<open>internal/app/route.go\<close>).
  Both ends see the plain bytes of the cipher stream: a reader and a writer. The network calls are
  arguments, as is the text of an error; deadlines and logging are not modelled.
\<close>

section \<open>Open status\<close>

definition hasOpenStatusCode :: "u64 \<Rightarrow> bool" where
  "hasOpenStatusCode caps \<longleftrightarrow> caps AND ucast protocolCapabilityOpenStatusCode \<noteq> 0"

definition writeTCPOpenSuccess :: "'w io_writer \<Rightarrow> 'w \<Rightarrow> u64 \<Rightarrow> go_error option \<times> 'w" where
  "writeTCPOpenSuccess W w caps =
    (if hasOpenStatusCode caps then writeTCPOpenStatusCode W w tcpOpenStatusOK openStatusCodeNone []
     else writeTCPOpenStatus W w tcpOpenStatusOK [])"

definition writeTCPOpenFailure :: "'w io_writer \<Rightarrow> 'w \<Rightarrow> u64 \<Rightarrow> byte \<Rightarrow> string \<Rightarrow> go_error option \<times> 'w" where
  "writeTCPOpenFailure W w caps code message =
    (if hasOpenStatusCode caps then writeTCPOpenStatusCode W w tcpOpenStatusError code message
     else writeTCPOpenStatus W w tcpOpenStatusError message)"

definition writeUDPOpenSuccess :: "'w io_writer \<Rightarrow> 'w \<Rightarrow> u64 \<Rightarrow> go_error option \<times> 'w" where
  "writeUDPOpenSuccess W w caps =
    (if hasOpenStatusCode caps then writeUDPOpenStatusCode W w udpOpenStatusOK openStatusCodeNone []
     else writeUDPOpenStatus W w udpOpenStatusOK [])"

definition writeUDPOpenFailure :: "'w io_writer \<Rightarrow> 'w \<Rightarrow> u64 \<Rightarrow> byte \<Rightarrow> string \<Rightarrow> go_error option \<times> 'w" where
  "writeUDPOpenFailure W w caps code message =
    (if hasOpenStatusCode caps then writeUDPOpenStatusCode W w udpOpenStatusError code message
     else writeUDPOpenStatus W w udpOpenStatusError message)"

text \<open>An error of an open: one the server reported, or any other.\<close>

record remoteOpenError =
  roNetwork :: string
  roStatus :: byte
  roCode :: byte
  roMessage :: string

datatype open_error = RemoteOpen remoteOpenError | LocalError go_error

definition openStatusCodeName :: "byte \<Rightarrow> string" where
  "openStatusCodeName code =
    (if code = openStatusCodeNone then ''none''
     else if code = openStatusCodeBadTarget then ''bad_target''
     else if code = openStatusCodePolicyDenied then ''policy_denied''
     else if code = openStatusCodeDialFailed then ''dial_failed''
     else if code = openStatusCodeResourceLimit then ''resource_limit''
     else ''code_'' @ Itoa (uint code))"

definition formatOpenStatusError :: "byte \<Rightarrow> byte \<Rightarrow> string \<Rightarrow> string" where
  "formatOpenStatusError status code message =
    (if code = openStatusCodeNone then (if message = [] then ''status='' @ Itoa (uint status) else message)
     else if message = [] then openStatusCodeName code
     else openStatusCodeName code @ '': '' @ message)"

definition socks5ReplyForOpenError :: "open_error \<Rightarrow> byte" where
  "socks5ReplyForOpenError err =
    (case err of
       RemoteOpen e \<Rightarrow> if roCode e = openStatusCodePolicyDenied then 0x02 else 0x05
     | LocalError _ \<Rightarrow> 0x05)"

definition httpStatusForOpenError :: "open_error \<Rightarrow> nat" where
  "httpStatusForOpenError err =
    (case err of
       RemoteOpen e \<Rightarrow> if roCode e = openStatusCodePolicyDenied then 403 else 502
     | LocalError _ \<Rightarrow> 502)"

section \<open>The client's channels\<close>

text \<open>A slot of the pool: whether its session is closed (\<open>None\<close>: no session), and what is known of it.\<close>

record channel_slot =
  slClosed :: "bool option"
  slRTT :: int
  slCaps :: u64

fun liveCandidates :: "int \<Rightarrow> nat \<Rightarrow> channel_slot list \<Rightarrow> (nat \<times> int) list" where
  "liveCandidates probeTimeout i [] = []"
| "liveCandidates probeTimeout i (s # ss) =
    (if slClosed s \<noteq> Some False then liveCandidates probeTimeout (Suc i) ss
     else (i, if slRTT s \<le> 0 then probeTimeout else slRTT s) # liveCandidates probeTimeout (Suc i) ss)"

fun minRTTLoop :: "int \<Rightarrow> (nat \<times> int) list \<Rightarrow> int" where
  "minRTTLoop m [] = m"
| "minRTTLoop m ((_, rtt) # cs) = minRTTLoop (if rtt < m then rtt else m) cs"

definition tieWindow :: int where
  "tieWindow = 10 * 1000000"

text \<open>
  The slot that \<open>openBestStream\<close> picks, with the counter it leaves. The index is the counter cut to a
  signed 64-bit number modulo the candidates, with Go's sign of the dividend; a negative index panics,
  which is \<open>Inl\<close> of the runtime error here.
\<close>

definition pickChannel :: "int \<Rightarrow> channel_slot list \<Rightarrow> u64 \<Rightarrow> nat result \<times> u64" where
  "pickChannel probeTimeout slots selectCounter =
    (case liveCandidates probeTimeout 0 slots of
       [] \<Rightarrow> (Inl (Errorf ''no channel''), selectCounter)
     | c # cs \<Rightarrow>
         (let minRTT = minRTTLoop (snd c) cs;
              near = filter (\<lambda>(_, rtt). rtt - minRTT \<le> tieWindow) (c # cs);
              counter = selectCounter + 1;
              pick = sint (counter - 1) smod int (length near)
          in (if pick < 0 then Inl (Errorf ''index out of range'') else Inr (fst (near ! nat pick)), counter)))"

section \<open>The client's request\<close>

text \<open>The common part of \<open>openTCPStream\<close> and \<open>openUDPStream\<close> on the cipher stream of the picked channel.\<close>

definition openStream ::
  "'w io_writer \<Rightarrow> string \<Rightarrow> byte \<Rightarrow> byte \<Rightarrow> byte \<Rightarrow> u64 \<Rightarrow> string \<Rightarrow> reader \<Rightarrow> 'w \<Rightarrow> (open_error + reader) \<times> 'w" where
  "openStream W network kind okStatus ipStrategy caps target r w =
    (case writeSmuxOpenHeader W w kind ipStrategy target of
       (Some e, w) \<Rightarrow> (Inl (LocalError e), w)
     | (None, w) \<Rightarrow>
         (case (if hasOpenStatusCode caps then readOpenStatusCode r
                else rbind (readOpenStatus r) (\<lambda>((status, message), r). Inr ((status, 0, message), r))) of
            Inl e \<Rightarrow> (Inl (LocalError e), w)
          | Inr ((status, code, message), r) \<Rightarrow>
              if status \<noteq> okStatus
              then (Inl (RemoteOpen \<lparr>roNetwork = network, roStatus = status, roCode = code, roMessage = message\<rparr>), w)
              else (Inr r, w)))"

definition openTCPStream ::
  "'w io_writer \<Rightarrow> byte \<Rightarrow> u64 \<Rightarrow> string \<Rightarrow> reader \<Rightarrow> 'w \<Rightarrow> (open_error + reader) \<times> 'w" where
  "openTCPStream W ipStrategy caps target r w = openStream W ''TCP'' streamKindTCP tcpOpenStatusOK ipStrategy caps target r w"

definition openUDPStream ::
  "'w io_writer \<Rightarrow> byte \<Rightarrow> u64 \<Rightarrow> string \<Rightarrow> reader \<Rightarrow> 'w \<Rightarrow> (open_error + reader) \<times> 'w" where
  "openUDPStream W ipStrategy caps target r w = openStream W ''UDP'' streamKindUDP udpOpenStatusOK ipStrategy caps target r w"

section \<open>Dialling with an IP strategy\<close>

text \<open>The first IPv4 and the first IPv6 address of a lookup; the loop stops when it has both.\<close>

fun pickIPs :: "bytes list \<Rightarrow> bytes option \<Rightarrow> bytes option \<Rightarrow> bytes option \<times> bytes option" where
  "pickIPs [] v4 v6 = (v4, v6)"
| "pickIPs (ip # ips) v4 v6 =
    (let v4' = (if To4 ip \<noteq> None \<and> v4 = None then Some ip else v4);
         v6' = (if To4 ip = None \<and> v6 = None then Some ip else v6)
     in if v4' \<noteq> None \<and> v6' \<noteq> None then (v4', v6') else pickIPs ips v4' v6')"

definition selectIP :: "byte \<Rightarrow> bytes list \<Rightarrow> bytes option" where
  "selectIP strategy addrs =
    (case pickIPs addrs None None of
       (v4, v6) \<Rightarrow>
         if strategy = IPStrategyPv4Pv6 then (if v4 \<noteq> None then v4 else v6)
         else (if v6 \<noteq> None then v6 else v4))"

text \<open>\<open>DialTimeout\<close> and \<open>LookupIPAddr\<close> are arguments.\<close>

definition dialTCPWithStrategy ::
  "(string \<Rightarrow> string \<Rightarrow> 'c result) \<Rightarrow> (string \<Rightarrow> bytes list result) \<Rightarrow> string \<Rightarrow> byte \<Rightarrow> 'c result" where
  "dialTCPWithStrategy DialTimeout LookupIPAddr addr strategy =
    (case SplitHostPort addr of
       Inl _ \<Rightarrow> DialTimeout ''tcp'' addr
     | Inr (host, port) \<Rightarrow>
         if ParseIP host \<noteq> None then DialTimeout ''tcp'' addr
         else if strategy = IPStrategyIPv4Only then DialTimeout ''tcp4'' addr
         else if strategy = IPStrategyIPv6Only then DialTimeout ''tcp6'' addr
         else if strategy = IPStrategyPv4Pv6 \<or> strategy = IPStrategyPv6Pv4 then
           rbind (LookupIPAddr host) (\<lambda>addrs.
             case selectIP strategy addrs of
               None \<Rightarrow> Inl (Errorf ''no usable IP'')
             | Some ip \<Rightarrow> DialTimeout ''tcp'' (JoinHostPort (IP_String ip) port))
         else DialTimeout ''tcp'' addr)"

definition resolveUDPWithStrategy ::
  "(string \<Rightarrow> string \<Rightarrow> UDPAddr result) \<Rightarrow> (string \<Rightarrow> bytes list result) \<Rightarrow> string \<Rightarrow> byte \<Rightarrow> UDPAddr result" where
  "resolveUDPWithStrategy ResolveUDPAddr LookupIPAddr addr strategy =
    (case SplitHostPort addr of
       Inl _ \<Rightarrow> ResolveUDPAddr ''udp'' addr
     | Inr (host, portStr) \<Rightarrow>
         (case Atoi portStr of
            None \<Rightarrow> Inl (Errorf ''port range'')
          | Some port \<Rightarrow>
              if port \<le> 0 \<or> port > 65535 then Inl (Errorf ''port range'')
              else
                (case ParseIP host of
                   Some ip \<Rightarrow> Inr \<lparr>uaIP = ip, uaPort = port\<rparr>
                 | None \<Rightarrow>
                     if strategy = IPStrategyIPv4Only then ResolveUDPAddr ''udp4'' addr
                     else if strategy = IPStrategyIPv6Only then ResolveUDPAddr ''udp6'' addr
                     else if strategy = IPStrategyPv4Pv6 \<or> strategy = IPStrategyPv6Pv4 then
                       rbind (LookupIPAddr host) (\<lambda>addrs.
                         case selectIP strategy addrs of
                           None \<Rightarrow> Inl (Errorf ''no usable IP'')
                         | Some ip \<Rightarrow> Inr \<lparr>uaIP = ip, uaPort = port\<rparr>)
                     else ResolveUDPAddr ''udp'' addr)))"

section \<open>The server's handling of a stream\<close>

record server_counters =
  serverStreamSeq :: u64
  serverUnsupportedStreamSeq :: u64
  serverTargetRejectSeq :: u64
  serverStreamRejectSeq :: u64

text \<open>
  What a handled stream goes on to: nothing, the answered ping, the relay of a TCP connection or of a
  UDP relayer, with the unread bytes of the stream.
\<close>

datatype ('c, 'u) served = ServedClosed | ServedPing | ServedTCP 'c reader | ServedUDP 'u reader

text \<open>The checks both kinds of stream pass before anything is dialled: the code of the failing one.\<close>

definition checkTarget :: "unicode_lib \<Rightarrow> TargetPolicy option \<Rightarrow> byte \<Rightarrow> string \<Rightarrow> (byte \<times> go_error) option" where
  "checkTarget U policy strategy target =
    (if \<not> validateIPStrategyValue strategy then Some (openStatusCodeBadTarget, Errorf ''invalid IP strategy'')
     else
       (case validateSmuxStreamTarget U target of
          Inl e \<Rightarrow> Some (openStatusCodeBadTarget, e)
        | Inr _ \<Rightarrow>
            (case ensureTargetAllowed U policy target of
               Inl e \<Rightarrow> Some (openStatusCodePolicyDenied, e)
             | Inr _ \<Rightarrow> None)))"

text \<open>
  \<open>handleSmuxStream\<close> from the cipher stream on: \<open>dialTCP\<close> and \<open>openRelay\<close> are what the branches with and
  without an upstream proxy come to, \<open>errText\<close> is the \<open>Error\<close> method.
\<close>

definition handleSmuxStream ::
  "unicode_lib \<Rightarrow> (go_error \<Rightarrow> string) \<Rightarrow> TargetPolicy option \<Rightarrow> (string \<Rightarrow> byte \<Rightarrow> 'c result) \<Rightarrow> (string \<Rightarrow> byte \<Rightarrow> 'u result) \<Rightarrow>
   'w io_writer \<Rightarrow> u64 \<Rightarrow> reader \<Rightarrow> 'w \<Rightarrow> server_counters \<Rightarrow> ('c, 'u) served \<times> 'w \<times> server_counters" where
  "handleSmuxStream U errText policy dialTCP openRelay W caps r w st =
    (let st = st\<lparr>serverStreamSeq := serverStreamSeq st + 1\<rparr> in
     case readSmuxOpenHeader r of
       Inl _ \<Rightarrow> (ServedClosed, w, st)
     | Inr ((kind, strategy, target), r) \<Rightarrow>
         if \<not> isSupportedStreamKind kind
         then (ServedClosed, w, st\<lparr>serverUnsupportedStreamSeq := serverUnsupportedStreamSeq st + 1\<rparr>)
         else if kind = streamKindPing then
           (case read_full 8 r of
              Inl _ \<Rightarrow> (ServedClosed, w, st)
            | Inr (payload, r) \<Rightarrow> (ServedPing, snd (writeAll W w payload), st))
         else if kind = streamKindTCP then
           (case checkTarget U policy strategy target of
              Some (code, e) \<Rightarrow>
                (ServedClosed, snd (writeTCPOpenFailure W w caps code (errText e)),
                 st\<lparr>serverTargetRejectSeq := serverTargetRejectSeq st + 1\<rparr>)
            | None \<Rightarrow>
                (case dialTCP target strategy of
                   Inl e \<Rightarrow> (ServedClosed, snd (writeTCPOpenFailure W w caps openStatusCodeDialFailed (errText e)), st)
                 | Inr conn \<Rightarrow>
                     (case writeTCPOpenSuccess W w caps of
                        (Some _, w) \<Rightarrow> (ServedClosed, w, st)
                      | (None, w) \<Rightarrow> (ServedTCP conn r, w, st))))
         else
           (case checkTarget U policy strategy target of
              Some (code, e) \<Rightarrow>
                (ServedClosed, snd (writeUDPOpenFailure W w caps code (errText e)),
                 st\<lparr>serverTargetRejectSeq := serverTargetRejectSeq st + 1\<rparr>)
            | None \<Rightarrow>
                (case openRelay target strategy of
                   Inl e \<Rightarrow> (ServedClosed, snd (writeUDPOpenFailure W w caps openStatusCodeDialFailed (errText e)), st)
                 | Inr relay \<Rightarrow>
                     (case writeUDPOpenSuccess W w caps of
                        (Some _, w) \<Rightarrow> (ServedClosed, w, st)
                      | (None, w) \<Rightarrow> (ServedUDP relay r, w, st)))))"

definition rejectSmuxStreamDueToLimit :: "'w io_writer \<Rightarrow> u64 \<Rightarrow> reader \<Rightarrow> 'w \<Rightarrow> 'w" where
  "rejectSmuxStreamDueToLimit W caps r w =
    (case readSmuxOpenHeader r of
       Inl _ \<Rightarrow> w
     | Inr ((kind, _, _), _) \<Rightarrow>
         if kind = streamKindTCP then snd (writeTCPOpenFailure W w caps openStatusCodeResourceLimit ''max streams reached'')
         else if kind = streamKindUDP then snd (writeUDPOpenFailure W w caps openStatusCodeResourceLimit ''max streams reached'')
         else w)"

section \<open>The relay of UDP packets\<close>

text \<open>The upward loop: chunks of the stream go to the relayer until either fails; empty ones are skipped.\<close>

function relayUp :: "(bytes \<Rightarrow> 's \<Rightarrow> go_error option \<times> 's) \<Rightarrow> reader \<Rightarrow> 's \<Rightarrow> 's" where
  "relayUp relayWrite r s =
    (case readChunk r of
       Inl _ \<Rightarrow> s
     | Inr (packet, r') \<Rightarrow>
         if packet = [] then relayUp relayWrite r' s
         else
           (case relayWrite packet s of
              (Some _, s') \<Rightarrow> s'
            | (None, s') \<Rightarrow> relayUp relayWrite r' s'))"
  by pat_completeness auto

text \<open>
  The downward loop over the results of \<open>relay.Read\<close>: a timeout goes on unless the upward loop is done,
  any other error ends it, a packet is written as a UDP reply.
\<close>

datatype relay_read = ReadTimeout bool | ReadError | ReadPacket string bytes

fun relayDown :: "unicode_lib \<Rightarrow> 'w io_writer \<Rightarrow> relay_read list \<Rightarrow> 'w \<Rightarrow> 'w" where
  "relayDown U W [] w = w"
| "relayDown U W (ReadTimeout uplinkDone # es) w = (if uplinkDone then w else relayDown U W es w)"
| "relayDown U W (ReadError # es) w = w"
| "relayDown U W (ReadPacket addr payload # es) w =
    (case writeUDPReply U W w addr payload of
       (Some _, w) \<Rightarrow> w
     | (None, w) \<Rightarrow> relayDown U W es w)"

lemma readChunk_consumes: "readChunk r = Inr (p, r') \<Longrightarrow> length (rdata r') + 2 \<le> length (rdata r)"
  by (auto simp: readChunk_def Let_def rbind_eq_Inr readExactPayload_Inr read_full_Inr)

termination relayUp
  by (relation "measure (\<lambda>(f, r, s). length (rdata r))") (auto dest: readChunk_consumes)

declare relayUp.simps [simp del]

section \<open>The local proxy's CONNECT\<close>

datatype 'c connect_end = ConnClosed | ConnDirect 'c | ConnTunnel string reader bytes

text \<open>
  \<open>opened\<close> is the result of \<open>openTCPStream\<close> for a target, \<open>dialed\<close> that of the direct dial, \<open>avail\<close> the
  bytes the client sends within the sniffing deadline; the bytes to relay first are returned.
\<close>

definition handleDirectConnect :: "'w io_writer \<Rightarrow> (string \<Rightarrow> 'c result) \<Rightarrow> string \<Rightarrow> 'w \<Rightarrow> 'c connect_end \<times> 'w" where
  "handleDirectConnect W dialed target w =
    (case dialed target of
       Inl _ \<Rightarrow> (ConnClosed, snd (writeSOCKS5Reply W w 0x05))
     | Inr upstream \<Rightarrow>
         (case writeSOCKS5Reply W w 0x00 of
            (Some _, w) \<Rightarrow> (ConnClosed, w)
          | (None, w) \<Rightarrow> (ConnDirect upstream, w)))"

definition handleSNIProxyConnect ::
  "'w io_writer \<Rightarrow> (string \<Rightarrow> open_error + reader) \<Rightarrow> bytes \<Rightarrow> string \<Rightarrow> 'w \<Rightarrow> 'c connect_end \<times> 'w" where
  "handleSNIProxyConnect W opened avail target w =
    (case writeSOCKS5Reply W w 0x00 of
       (Some _, w) \<Rightarrow> (ConnClosed, w)
     | (None, w) \<Rightarrow>
         (case sniffSNITarget avail target of
            (target, pending) \<Rightarrow>
              (case opened target of
                 Inl _ \<Rightarrow> (ConnClosed, w)
               | Inr stream \<Rightarrow> (ConnTunnel target stream pending, w))))"

definition handleSOCKS5Connect ::
  "unicode_lib \<Rightarrow> 'w io_writer \<Rightarrow> bool \<Rightarrow> (string \<Rightarrow> 'c result) \<Rightarrow> (string \<Rightarrow> open_error + reader) \<Rightarrow> gotime \<Rightarrow> bytes \<Rightarrow>
   string \<Rightarrow> routeRuntime \<Rightarrow> 'w \<Rightarrow> 'c connect_end \<times> 'w \<times> routeRuntime" where
  "handleSOCKS5Connect U W sniSniff dialed opened now avail target rt w =
    (case split_or_empty target of
       (host, _) \<Rightarrow>
         (case resolveHostForRoute rt now host of
            (routeHost, routeIP) \<Rightarrow>
              (case decideForTarget U rt routeHost routeIP of
                 (action, rt) \<Rightarrow>
                   (case action of
                      RouteDirect \<Rightarrow> (case handleDirectConnect W dialed target w of (e, w) \<Rightarrow> (e, w, rt))
                    | RouteReject \<Rightarrow> (ConnClosed, snd (writeSOCKS5Reply W w 0x02), rt)
                    | RouteProxy \<Rightarrow>
                        if sniSniff \<and> sniCandidate target
                        then (case handleSNIProxyConnect W opened avail target w of (e, w) \<Rightarrow> (e, w, rt))
                        else
                          (case opened target of
                             Inl e \<Rightarrow> (ConnClosed, snd (writeSOCKS5Reply W w (socks5ReplyForOpenError e)), rt)
                           | Inr stream \<Rightarrow>
                               (case writeSOCKS5Reply W w 0x00 of
                                  (Some _, w) \<Rightarrow> (ConnClosed, w, rt)
                                | (None, w) \<Rightarrow> (ConnTunnel target stream [], w, rt)))))))"

section \<open>Lemmas\<close>

lemmas stream_consts = streamKindTCP_def streamKindUDP_def streamKindPing_def isSupportedStreamKind_def
  tcpOpenStatusOK_def tcpOpenStatusError_def udpOpenStatusOK_def udpOpenStatusError_def openStatusCodeNone_def

lemma buffer_frames:
  assumes "length m \<le> 65535"
  shows "writeOpenStatus buffer_writer w st m = (None, w @ open_status_frame st m)"
    and "writeOpenStatusCode buffer_writer w st code m = (None, w @ open_code_frame st code m)"
    and "writeSmuxOpenHeader buffer_writer w kind strat m = (None, w @ open_code_frame kind strat m)"
  using buf.frames_emit(1) [OF TrueI assms, of w st] buf.frames_emit(2) [OF TrueI assms, of w st code]
    buf.frames_emit(3) [OF TrueI assms, of w kind strat]
  by (auto simp: buf.emits_def prod_eq_iff)

text \<open>The frame of a status under the negotiated capabilities, as the client reads it.\<close>

definition status_frame :: "u64 \<Rightarrow> byte \<Rightarrow> byte \<Rightarrow> string \<Rightarrow> bytes" where
  "status_frame caps status code message =
    (if hasOpenStatusCode caps then open_code_frame status code message else open_status_frame status message)"

lemma buffer_open_writes:
  "writeTCPOpenSuccess buffer_writer w caps = (None, w @ status_frame caps 0 0 [])"
  "writeUDPOpenSuccess buffer_writer w caps = (None, w @ status_frame caps 0 0 [])"
  "length m \<le> 65535 \<Longrightarrow> writeTCPOpenFailure buffer_writer w caps code m = (None, w @ status_frame caps 1 code m)"
  "length m \<le> 65535 \<Longrightarrow> writeUDPOpenFailure buffer_writer w caps code m = (None, w @ status_frame caps 1 code m)"
  by (simp_all add: writeTCPOpenSuccess_def writeUDPOpenSuccess_def writeTCPOpenFailure_def writeUDPOpenFailure_def
      status_frame_def buffer_frames stream_consts)

lemma openStream_status:
  assumes "length target \<le> 65535" "length m \<le> 65535"
  shows "openStream buffer_writer net kind 0 strategy caps target (Reader (status_frame caps status code m @ rest) e) w =
    (if status \<noteq> 0
     then Inl (RemoteOpen \<lparr>roNetwork = net, roStatus = status, roCode = if hasOpenStatusCode caps then code else 0, roMessage = m\<rparr>)
     else Inr (Reader rest e), w @ open_code_frame kind strategy target)"
  using buffer_frames [OF assms(1)] read_frames [OF assms(2), of "[]"]
  by (simp add: openStream_def status_frame_def)

text \<open>What the open comes to, by the server's checks and dial.\<close>

definition open_outcome :: "(go_error \<Rightarrow> string) \<Rightarrow> string \<Rightarrow> u64 \<Rightarrow> (byte \<times> go_error) option \<Rightarrow> 'c result \<Rightarrow> 'r \<Rightarrow> open_error + 'r" where
  "open_outcome errText net caps check dialed r =
    (let failed = (\<lambda>code er. Inl (RemoteOpen \<lparr>roNetwork = net, roStatus = 1,
           roCode = if hasOpenStatusCode caps then code else 0, roMessage = errText er\<rparr>))
     in case check of
          Some (code, er) \<Rightarrow> failed code er
        | None \<Rightarrow> (case dialed of Inl er \<Rightarrow> failed openStatusCodeDialFailed er | Inr _ \<Rightarrow> Inr r))"

lemma checkTarget_None:
  "checkTarget U policy strategy target = None \<longleftrightarrow>
    validateIPStrategyValue strategy \<and> ValidateHostPort U target = Inr () \<and> Allows U policy target"
  by (auto simp: checkTarget_def validateSmuxStreamTarget_def ensureTargetAllowed_def split: sum.split)

lemma checkTarget_code:
  "checkTarget U policy strategy target = Some (code, er) \<Longrightarrow>
    code = (if validateIPStrategyValue strategy \<and> ValidateHostPort U target = Inr () then openStatusCodePolicyDenied
            else openStatusCodeBadTarget)"
  by (auto simp: checkTarget_def validateSmuxStreamTarget_def ensureTargetAllowed_def split: sum.splits if_splits)

text \<open>Choice of a channel.\<close>

lemma liveCandidates_set:
  "(j, rtt) \<in> set (liveCandidates pt i ss) \<longleftrightarrow>
    i \<le> j \<and> j < i + length ss \<and> slClosed (ss ! (j - i)) = Some False \<and>
    rtt = (if slRTT (ss ! (j - i)) \<le> 0 then pt else slRTT (ss ! (j - i)))"
proof (induction ss arbitrary: i)
  case (Cons s ss)
  show ?case
  proof (cases "j = i")
    case True
    have "(i, rtt) \<notin> set (liveCandidates pt (Suc i) ss)" using Cons [of "Suc i"] True by simp
    then show ?thesis using True by (cases "slClosed s") auto
  next
    case False
    then have "i \<le> j \<and> j < i + length (s # ss) \<longleftrightarrow> Suc i \<le> j \<and> j < Suc i + length ss" by auto
    moreover have "(s # ss) ! (j - i) = ss ! (j - Suc i)" if "Suc i \<le> j"
      using that Suc_diff_Suc [of i j, symmetric] by simp
    moreover have "(j, rtt) \<in> set (liveCandidates pt i (s # ss)) \<longleftrightarrow> (j, rtt) \<in> set (liveCandidates pt (Suc i) ss)"
      using False by simp
    ultimately show ?thesis using Cons [of "Suc i"] by (cases "Suc i \<le> j") (simp_all del: liveCandidates.simps)
  qed
qed simp

lemma minRTTLoop_min:
  "minRTTLoop m cs \<le> m" "c \<in> set cs \<Longrightarrow> minRTTLoop m cs \<le> snd c"
  "minRTTLoop m cs = m \<or> minRTTLoop m cs \<in> snd ` set cs"
proof -
  have "minRTTLoop m cs \<le> m \<and> (\<forall>c\<in>set cs. minRTTLoop m cs \<le> snd c) \<and> (minRTTLoop m cs = m \<or> minRTTLoop m cs \<in> snd ` set cs)"
    by (induction m cs rule: minRTTLoop.induct) (force split: if_splits)+
  then show "minRTTLoop m cs \<le> m" "c \<in> set cs \<Longrightarrow> minRTTLoop m cs \<le> snd c"
    "minRTTLoop m cs = m \<or> minRTTLoop m cs \<in> snd ` set cs" by blast+
qed

text \<open>The slots in reach of the best one, in order.\<close>

definition near_slots :: "int \<Rightarrow> channel_slot list \<Rightarrow> nat list" where
  "near_slots pt slots =
    (let cs = liveCandidates pt 0 slots in
     map fst (filter (\<lambda>c. \<forall>d\<in>set cs. snd c \<le> snd d + tieWindow) cs))"

lemma sint_small:
  assumes "unat (c :: u64) < 2 ^ 63"
  shows "sint c = int (unat c)"
proof -
  have "int (unat c) < int (2 ^ 63)" using assms by (simp only: of_nat_less_iff)
  then have u: "uint c < 2 ^ 63" by (simp only: of_nat_power of_nat_numeral uint_nat)
  have "signed_take_bit 63 (uint c) = uint c"
    by (rule signed_take_bit_int_eq_self [OF _ u]) (rule order_trans [OF _ uint_nonnegative], simp)
  then show ?thesis by (simp add: sint_uint)
qed

lemma smod_index:
  assumes "0 < n" "\<not> a smod int n < 0"
  shows "nat (a smod int n) < n"
  using smod_int_range [of "int n" a] assms by (simp add: nat_less_iff)

lemma pickChannel_near:
  assumes "liveCandidates pt 0 slots \<noteq> []"
  shows "near_slots pt slots \<noteq> []"
    and "pickChannel pt slots n =
      (let k = sint n smod int (length (near_slots pt slots)) in
       (if k < 0 then Inl (Errorf ''index out of range'') else Inr (near_slots pt slots ! nat k), n + 1))"
proof -
  obtain c cs where l: "liveCandidates pt 0 slots = c # cs" using assms by (cases "liveCandidates pt 0 slots") auto
  let ?m = "minRTTLoop (snd c) cs"
  have m: "?m \<le> snd d" if "d \<in> set (c # cs)" for d
    using that minRTTLoop_min(1) [of "snd c" cs] minRTTLoop_min(2) [of d cs "snd c"] by (cases "d = c") simp_all
  obtain d0 where d0: "d0 \<in> set (c # cs)" "snd d0 = ?m" using minRTTLoop_min(3) [of "snd c" cs] by (metis imageE list.set_intros)
  have eq: "(\<forall>d\<in>set (c # cs). snd x \<le> snd d + tieWindow) = (snd x - ?m \<le> tieWindow)" for x :: "nat \<times> int"
    using m d0 by (fastforce dest: bspec [OF _ d0(1)])
  have f: "filter (\<lambda>x. \<forall>d\<in>set (c # cs). snd x \<le> snd d + tieWindow) (c # cs) = filter (\<lambda>(_, rtt). rtt - ?m \<le> tieWindow) (c # cs)"
    by (rule filter_cong) (simp_all only: eq case_prod_beta)
  let ?near = "filter (\<lambda>(_, rtt). rtt - ?m \<le> tieWindow) (c # cs)"
  have ns: "near_slots pt slots = map fst ?near" unfolding near_slots_def l Let_def f ..
  have "d0 \<in> set ?near" unfolding set_filter using d0 by (simp add: case_prod_beta tieWindow_def)
  then have ne: "?near \<noteq> []" by (metis empty_iff empty_set)
  then show "near_slots pt slots \<noteq> []" by (simp only: ns map_is_Nil_conv) simp
  show "pickChannel pt slots n =
      (let k = sint n smod int (length (near_slots pt slots)) in
       (if k < 0 then Inl (Errorf ''index out of range'') else Inr (near_slots pt slots ! nat k), n + 1))"
    unfolding pickChannel_def l ns Let_def list.case length_map
    using smod_index [of "length ?near" "sint n"] ne by (simp add: nth_map del: filter.simps)
qed

text \<open>Selection of an address.\<close>

definition is4 :: "bytes \<Rightarrow> bool" where
  "is4 ip \<longleftrightarrow> To4 ip \<noteq> None"

lemma pickIPs_find:
  "pickIPs ips v4 v6 =
    (case v4 of Some x \<Rightarrow> v4 | None \<Rightarrow> find is4 ips, case v6 of Some x \<Rightarrow> v6 | None \<Rightarrow> find (\<lambda>ip. \<not> is4 ip) ips)"
  by (induction ips v4 v6 rule: pickIPs.induct) (auto simp: is4_def Let_def split: option.splits)

text \<open>The upward relay on a stream of chunks.\<close>

lemma relayUp_chunks:
  assumes "\<forall>d\<in>set ds. length d \<le> 65535" "\<forall>d s. \<exists>s'. relayWrite d s = (None, s')"
  shows "relayUp relayWrite (Reader (concat (map chunk_frame ds) @ rest) e) s =
    relayUp relayWrite (Reader rest e) (fold (\<lambda>d s. snd (relayWrite d s)) (filter (\<lambda>d. d \<noteq> []) ds) s)"
  using assms(1)
proof (induction ds arbitrary: s)
  case (Cons d ds)
  have r: "readChunk (Reader (chunk_frame d @ concat (map chunk_frame ds) @ rest) e) = Inr (d, Reader (concat (map chunk_frame ds) @ rest) e)"
    using read_frames(4) [of "[]" d] Cons.prems by simp
  obtain s' where s': "relayWrite d s = (None, s')" using assms(2) by blast
  show ?case
  proof (cases "d = []")
    case True
    then show ?thesis
      using Cons r by (simp add: relayUp.simps [of relayWrite "Reader (chunk_frame [] @ _) e"])
  next
    case False
    then show ?thesis
      using Cons r s' by (simp add: relayUp.simps [of relayWrite "Reader (chunk_frame d @ _) e"])
  qed
qed simp

lemma buffer_chunks:
  assumes "\<forall>d\<in>set ds. length d \<le> 65535"
  shows "fold (\<lambda>d w. snd (writeChunk buffer_writer w d)) ds w = w @ concat (map chunk_frame ds)"
  using assms
proof (induction ds arbitrary: w)
  case (Cons d ds)
  have "writeChunk buffer_writer w d = (None, w @ chunk_frame d)"
    using buf.frames_emit(4) [OF TrueI, of d w] Cons.prems by (simp add: buf.emits_def prod_eq_iff)
  then show ?case using Cons by simp
qed simp

lemma relayUp_empty: "relayUp relayWrite (Reader [] e) s = s"
  by (subst relayUp.simps) (simp add: readChunk_def read_full_def)

text \<open>The downward relay: the replies the client reads back.\<close>

fun readReplies :: "unicode_lib \<Rightarrow> nat \<Rightarrow> reader \<Rightarrow> (string \<times> bytes) list" where
  "readReplies U 0 r = []"
| "readReplies U (Suc n) r = (case readUDPReply U r of Inl _ \<Rightarrow> [] | Inr (p, r) \<Rightarrow> p # readReplies U n r)"

definition good_reply :: "unicode_lib \<Rightarrow> string \<times> bytes \<Rightarrow> bool" where
  "good_reply U p \<longleftrightarrow> length (fst p) \<le> 65535 \<and> length (snd p) \<le> 65535 \<and> ValidateHostPort U (fst p) = Inr ()"

lemma relayDown_frames:
  assumes "\<forall>p\<in>set ps. good_reply U p"
  shows "relayDown U buffer_writer (map (\<lambda>(a, d). ReadPacket a d) ps) w = w @ concat (map (\<lambda>(a, d). udp_frame a d) ps)"
  using assms
proof (induction ps arbitrary: w)
  case (Cons p ps)
  obtain a d where p: "p = (a, d)" by fastforce
  have "writeUDPReply U buffer_writer w a d = (None, w @ udp_frame a d)"
    using buf.udp_reply_emits [OF TrueI, of a d U w] Cons.prems p by (simp add: buf.emits_def prod_eq_iff good_reply_def)
  then show ?case using Cons p by simp
qed simp

lemma readReplies_frames:
  assumes "\<forall>p\<in>set ps. good_reply U p"
  shows "readReplies U (length ps) (Reader (concat (map (\<lambda>(a, d). udp_frame a d) ps) @ rest) e) = ps"
  using assms
proof (induction ps)
  case (Cons p ps)
  then show ?case using read_udp_frame [of "fst p" "snd p" U] by (cases p) (simp add: good_reply_def)
qed simp

text \<open>Slots of a session: each accepted stream holds one until its handler ends.\<close>

inductive slots_reach :: "int \<Rightarrow> 'a ClientSession \<Rightarrow> nat \<Rightarrow> bool" for maxStreams :: int where
  start: "activeStreams s = 0 \<Longrightarrow> slots_reach maxStreams s 0"
| accept: "slots_reach maxStreams s n \<Longrightarrow> tryAcquireStream maxStreams s = ((active, True), s') \<Longrightarrow>
    slots_reach maxStreams s' (Suc n)"
| reject: "slots_reach maxStreams s n \<Longrightarrow> tryAcquireStream maxStreams s = ((active, False), s') \<Longrightarrow>
    slots_reach maxStreams s' n"
| finish: "slots_reach maxStreams s (Suc n) \<Longrightarrow> slots_reach maxStreams (releaseStream s) n"

text \<open>The server's answer to a stream of either kind.\<close>

definition open_answer :: "(go_error \<Rightarrow> string) \<Rightarrow> u64 \<Rightarrow> (byte \<times> go_error) option \<Rightarrow> 'c result \<Rightarrow> bytes" where
  "open_answer errText caps check dialed =
    (case check of
       Some (code, er) \<Rightarrow> status_frame caps 1 code (errText er)
     | None \<Rightarrow>
         (case dialed of
            Inl er \<Rightarrow> status_frame caps 1 openStatusCodeDialFailed (errText er)
          | Inr _ \<Rightarrow> status_frame caps 0 0 []))"

lemma client_outcome:
  assumes "length target \<le> 65535" "\<forall>er. length (errText er) \<le> 65535"
  shows "openStream buffer_writer net kind 0 strategy caps target (Reader (open_answer errText caps check dialed @ rest) e) w =
    (open_outcome errText net caps check dialed (Reader rest e), w @ open_code_frame kind strategy target)"
  using openStream_status [OF assms(1)] assms(2)
  by (simp add: open_answer_def open_outcome_def Let_def split: option.split sum.split prod.split)

lemma server_answer_TCP:
  assumes "length target \<le> 65535" "\<forall>er. length (errText er) \<le> 65535"
  shows "\<exists>st'. \<forall>w tail e. handleSmuxStream U errText policy dialTCP openRelay buffer_writer caps
      (Reader (open_code_frame streamKindTCP strategy target @ tail) e) w st =
    (case open_outcome errText net caps (checkTarget U policy strategy target) (dialTCP target strategy) () of
       Inl _ \<Rightarrow> ServedClosed
     | Inr _ \<Rightarrow> ServedTCP (projr (dialTCP target strategy)) (Reader tail e),
     w @ open_answer errText caps (checkTarget U policy strategy target) (dialTCP target strategy), st')"
proof (cases "checkTarget U policy strategy target")
  case None
  then show ?thesis
    using read_frames(3) [OF assms(1), of "[]"] assms(2)
    by (cases "dialTCP target strategy")
      (auto simp: handleSmuxStream_def stream_consts open_outcome_def open_answer_def buffer_open_writes Let_def)
next
  case (Some ce)
  then show ?thesis
    using read_frames(3) [OF assms(1), of "[]"] assms(2)
    by (cases ce) (auto simp: handleSmuxStream_def stream_consts open_outcome_def open_answer_def buffer_open_writes Let_def)
qed

lemma server_answer_UDP:
  assumes "length target \<le> 65535" "\<forall>er. length (errText er) \<le> 65535"
  shows "\<exists>st'. \<forall>w tail e. handleSmuxStream U errText policy dialTCP openRelay buffer_writer caps
      (Reader (open_code_frame streamKindUDP strategy target @ tail) e) w st =
    (case open_outcome errText net caps (checkTarget U policy strategy target) (openRelay target strategy) () of
       Inl _ \<Rightarrow> ServedClosed
     | Inr _ \<Rightarrow> ServedUDP (projr (openRelay target strategy)) (Reader tail e),
     w @ open_answer errText caps (checkTarget U policy strategy target) (openRelay target strategy), st')"
proof (cases "checkTarget U policy strategy target")
  case None
  then show ?thesis
    using read_frames(3) [OF assms(1), of "[]"] assms(2)
    by (cases "openRelay target strategy")
      (auto simp: handleSmuxStream_def stream_consts open_outcome_def open_answer_def buffer_open_writes Let_def)
next
  case (Some ce)
  then show ?thesis
    using read_frames(3) [OF assms(1), of "[]"] assms(2)
    by (cases ce) (auto simp: handleSmuxStream_def stream_consts open_outcome_def open_answer_def buffer_open_writes Let_def)
qed

section \<open>Properties\<close>

text \<open>
  C7. Opening a stream end to end: when the server handles what the client wrote for a target and
  the client reads what the server answered, both agree on the outcome, for TCP and UDP alike. The
  stream is relayed exactly when the strategy byte, the target and the policy pass and the dial
  succeeds; the server then goes on with the client's remaining bytes and the client with the
  server's. Otherwise the client gets the server's error with the code of the check that failed, or
  code 0 from a server without status codes.
\<close>

lemma stream_open_agreement:
  assumes "length target \<le> 65535" "\<forall>er. length (errText er) \<le> 65535"
  shows "(\<exists>hdr sb st'.
      (\<forall>w rest e. openTCPStream buffer_writer strategy caps target (Reader (sb @ rest) e) w =
        (open_outcome errText ''TCP'' caps (checkTarget U policy strategy target) (dialTCP target strategy) (Reader rest e), w @ hdr)) \<and>
      (\<forall>w tail e. handleSmuxStream U errText policy dialTCP openRelay buffer_writer caps (Reader (hdr @ tail) e) w st =
        (case open_outcome errText ''TCP'' caps (checkTarget U policy strategy target) (dialTCP target strategy) () of
           Inl _ \<Rightarrow> ServedClosed
         | Inr _ \<Rightarrow> ServedTCP (projr (dialTCP target strategy)) (Reader tail e), w @ sb, st'))) \<and>
    (\<exists>hdr sb st'.
      (\<forall>w rest e. openUDPStream buffer_writer strategy caps target (Reader (sb @ rest) e) w =
        (open_outcome errText ''UDP'' caps (checkTarget U policy strategy target) (openRelay target strategy) (Reader rest e), w @ hdr)) \<and>
      (\<forall>w tail e. handleSmuxStream U errText policy dialTCP openRelay buffer_writer caps (Reader (hdr @ tail) e) w st =
        (case open_outcome errText ''UDP'' caps (checkTarget U policy strategy target) (openRelay target strategy) () of
           Inl _ \<Rightarrow> ServedClosed
         | Inr _ \<Rightarrow> ServedUDP (projr (openRelay target strategy)) (Reader tail e), w @ sb, st')))"
proof (rule conjI)
  let ?chk = "checkTarget U policy strategy target"
  obtain st1 where s: "\<forall>w tail e. handleSmuxStream U errText policy dialTCP openRelay buffer_writer caps
      (Reader (open_code_frame streamKindTCP strategy target @ tail) e) w st =
    (case open_outcome errText ''TCP'' caps ?chk (dialTCP target strategy) () of
       Inl _ \<Rightarrow> ServedClosed | Inr _ \<Rightarrow> ServedTCP (projr (dialTCP target strategy)) (Reader tail e),
     w @ open_answer errText caps ?chk (dialTCP target strategy), st1)"
    using server_answer_TCP [where net = "''TCP''", OF assms] by blast
  have c: "\<forall>w rest e. openTCPStream buffer_writer strategy caps target
      (Reader (open_answer errText caps ?chk (dialTCP target strategy) @ rest) e) w =
    (open_outcome errText ''TCP'' caps ?chk (dialTCP target strategy) (Reader rest e), w @ open_code_frame streamKindTCP strategy target)"
    using client_outcome [OF assms, of "''TCP''" streamKindTCP strategy caps ?chk "dialTCP target strategy"]
    by (simp add: openTCPStream_def tcpOpenStatusOK_def)
  show "\<exists>hdr sb st'.
      (\<forall>w rest e. openTCPStream buffer_writer strategy caps target (Reader (sb @ rest) e) w =
        (open_outcome errText ''TCP'' caps ?chk (dialTCP target strategy) (Reader rest e), w @ hdr)) \<and>
      (\<forall>w tail e. handleSmuxStream U errText policy dialTCP openRelay buffer_writer caps (Reader (hdr @ tail) e) w st =
        (case open_outcome errText ''TCP'' caps ?chk (dialTCP target strategy) () of
           Inl _ \<Rightarrow> ServedClosed | Inr _ \<Rightarrow> ServedTCP (projr (dialTCP target strategy)) (Reader tail e), w @ sb, st'))"
    using c s by blast
next
  let ?chk = "checkTarget U policy strategy target"
  obtain st1 where s: "\<forall>w tail e. handleSmuxStream U errText policy dialTCP openRelay buffer_writer caps
      (Reader (open_code_frame streamKindUDP strategy target @ tail) e) w st =
    (case open_outcome errText ''UDP'' caps ?chk (openRelay target strategy) () of
       Inl _ \<Rightarrow> ServedClosed | Inr _ \<Rightarrow> ServedUDP (projr (openRelay target strategy)) (Reader tail e),
     w @ open_answer errText caps ?chk (openRelay target strategy), st1)"
    using server_answer_UDP [where net = "''UDP''", OF assms] by blast
  have c: "\<forall>w rest e. openUDPStream buffer_writer strategy caps target
      (Reader (open_answer errText caps ?chk (openRelay target strategy) @ rest) e) w =
    (open_outcome errText ''UDP'' caps ?chk (openRelay target strategy) (Reader rest e), w @ open_code_frame streamKindUDP strategy target)"
    using client_outcome [OF assms, of "''UDP''" streamKindUDP strategy caps ?chk "openRelay target strategy"]
    by (simp add: openUDPStream_def udpOpenStatusOK_def)
  show "\<exists>hdr sb st'.
      (\<forall>w rest e. openUDPStream buffer_writer strategy caps target (Reader (sb @ rest) e) w =
        (open_outcome errText ''UDP'' caps ?chk (openRelay target strategy) (Reader rest e), w @ hdr)) \<and>
      (\<forall>w tail e. handleSmuxStream U errText policy dialTCP openRelay buffer_writer caps (Reader (hdr @ tail) e) w st =
        (case open_outcome errText ''UDP'' caps ?chk (openRelay target strategy) () of
           Inl _ \<Rightarrow> ServedClosed | Inr _ \<Rightarrow> ServedUDP (projr (openRelay target strategy)) (Reader tail e), w @ sb, st'))"
    using c s by blast
qed


text \<open>
  Dialling with an IP strategy: an address literal is dialled as it is; a name is dialled
  over the one family the strategy allows, or, when the strategy prefers a family, at the first
  address of that family in the lookup's answer and else at the first of the other, failing exactly
  when the lookup fails or is empty.
\<close>

lemma dialTCPWithStrategy_target:
  assumes "SplitHostPort addr = Inr (host, port)"
  shows "dialTCPWithStrategy DialTimeout LookupIPAddr addr strategy =
    (if ParseIP host \<noteq> None \<or> strategy \<notin> {IPStrategyIPv4Only, IPStrategyIPv6Only, IPStrategyPv4Pv6, IPStrategyPv6Pv4}
     then DialTimeout ''tcp'' addr
     else if strategy = IPStrategyIPv4Only then DialTimeout ''tcp4'' addr
     else if strategy = IPStrategyIPv6Only then DialTimeout ''tcp6'' addr
     else
       (case LookupIPAddr host of
          Inl e \<Rightarrow> Inl e
        | Inr addrs \<Rightarrow>
            (case filter (\<lambda>ip. To4 ip \<noteq> None) addrs of
               v4 # _ \<Rightarrow>
                 (case filter (\<lambda>ip. To4 ip = None) addrs of
                    v6 # _ \<Rightarrow> DialTimeout ''tcp'' (JoinHostPort (IP_String (if strategy = IPStrategyPv4Pv6 then v4 else v6)) port)
                  | [] \<Rightarrow> DialTimeout ''tcp'' (JoinHostPort (IP_String v4) port))
             | [] \<Rightarrow>
                 (case filter (\<lambda>ip. To4 ip = None) addrs of
                    v6 # _ \<Rightarrow> DialTimeout ''tcp'' (JoinHostPort (IP_String v6) port)
                  | [] \<Rightarrow> Inl (Errorf ''no usable IP'')))))"
proof -
  have find: "find P xs = (case filter P xs of x # _ \<Rightarrow> Some x | [] \<Rightarrow> None)" for P and xs :: "bytes list"
    by (induction xs) auto
  have i4: "is4 = (\<lambda>ip. To4 ip \<noteq> None)" by (simp add: is4_def fun_eq_iff)
  show ?thesis
    using assms
    by (auto simp: dialTCPWithStrategy_def selectIP_def pickIPs_find find i4 rbind_def IPStrategyIPv4Only_def
        IPStrategyIPv6Only_def IPStrategyPv4Pv6_def IPStrategyPv6Pv4_def split: sum.split list.split)
qed

text \<open>
  C33. The client's choice of a channel: as long as the selection counter has not passed half of its
  64-bit range, some channel is picked whenever one is live; the picked slot exists, its session is
  open, its round-trip time (the probe timeout when unknown) is within 10 milliseconds of every other
  live channel's, and successive picks go round the channels in reach.
\<close>

lemma pickChannel_best:
  assumes "\<exists>j < length slots. slClosed (slots ! j) = Some False" "unat counter < 2 ^ 63" "0 < probeTimeout"
  shows "\<exists>i. pickChannel probeTimeout slots counter = (Inr i, counter + 1) \<and> i < length slots \<and>
    slClosed (slots ! i) = Some False \<and>
    (\<forall>j < length slots. slClosed (slots ! j) = Some False \<longrightarrow>
      (if slRTT (slots ! i) \<le> 0 then probeTimeout else slRTT (slots ! i)) \<le>
      (if slRTT (slots ! j) \<le> 0 then probeTimeout else slRTT (slots ! j)) + tieWindow) \<and>
    i = near_slots probeTimeout slots ! (unat counter mod length (near_slots probeTimeout slots))"
proof -
  let ?rtt = "\<lambda>j. if slRTT (slots ! j) \<le> 0 then probeTimeout else slRTT (slots ! j)"
  let ?ns = "near_slots probeTimeout slots" and ?cs = "liveCandidates probeTimeout 0 slots"
  have mem: "(j, rtt) \<in> set ?cs \<longleftrightarrow> j < length slots \<and> slClosed (slots ! j) = Some False \<and> rtt = ?rtt j" for j rtt
    using liveCandidates_set [of j rtt probeTimeout 0 slots] by simp
  have ne: "?cs \<noteq> []" using assms(1) mem by (metis empty_iff empty_set)
  have s: "sint counter = int (unat counter)"
    using sint_small [OF assms(2)] .
  have n: "?ns \<noteq> []" "length ?ns > 0" using pickChannel_near(1) [OF ne] by simp_all
  have k: "sint counter smod int (length ?ns) = int (unat counter mod length ?ns)"
    unfolding s by (simp add: smod_mod_positive zmod_int)
  have lt: "unat counter mod length ?ns < length ?ns" using n by simp
  let ?i = "?ns ! (unat counter mod length ?ns)"
  have "?i \<in> set ?ns" using lt by simp
  then obtain rtt where c: "(?i, rtt) \<in> set ?cs" "\<forall>d\<in>set ?cs. rtt \<le> snd d + tieWindow"
    by (auto simp: near_slots_def Let_def)
  have i: "?i < length slots" "slClosed (slots ! ?i) = Some False" "rtt = ?rtt ?i" using c(1) mem by blast+
  have "?rtt ?i \<le> ?rtt j + tieWindow" if "j < length slots" "slClosed (slots ! j) = Some False" for j
    using bspec [OF c(2), of "(j, ?rtt j)"] mem that i(3) by simp
  moreover have "pickChannel probeTimeout slots counter = (Inr ?i, counter + 1)"
    unfolding pickChannel_near(2) [OF ne] k Let_def by simp
  ultimately show ?thesis using i(1,2) by blast
qed

text \<open>
  UDP over the tunnel is a round trip in both directions: the datagrams that the client
  writes as chunks reach the relayer in order and unchanged, empty ones apart, and the packets that
  the relayer reads, with valid source addresses, are what the client reads as replies, in order.
\<close>

lemma udp_relay_roundtrip:
  assumes "\<forall>d\<in>set ds. length d \<le> 65535" "\<forall>p\<in>set ps. good_reply U p"
  shows "relayUp (\<lambda>d s. (None, s @ [d])) (Reader (fold (\<lambda>d w. snd (writeChunk buffer_writer w d)) ds []) e) [] =
      filter (\<lambda>d. d \<noteq> []) ds \<and>
    readReplies U (length ps)
      (Reader (relayDown U buffer_writer (map (\<lambda>(a, d). ReadPacket a d) ps) [] @ rest) e) = ps"
proof -
  have f: "fold (\<lambda>d s. s @ [d]) xs acc = acc @ xs" for xs acc :: "bytes list"
    by (induction xs arbitrary: acc) auto
  have "relayUp (\<lambda>d s. (None, s @ [d])) (Reader (concat (map chunk_frame ds)) e) [] = filter (\<lambda>d. d \<noteq> []) ds"
    using relayUp_chunks [OF assms(1), of "\<lambda>d s. (None, s @ [d])" "[]" e "[]"] by (simp add: relayUp_empty f)
  moreover have "fold (\<lambda>d w. snd (writeChunk buffer_writer w d)) ds [] = concat (map chunk_frame ds)"
    using buffer_chunks [OF assms(1), of "[]"] by simp
  ultimately show ?thesis
    using readReplies_frames [OF assms(2), of rest e] relayDown_frames [OF assms(2), of "[]"] by simp
qed

text \<open>
  The local proxy answers every CONNECT with exactly one reply. A target the rules reject
  gets code 2 and nothing is opened. Success is reported for every connection that is relayed, and
  without one only on the sniffing path, where the reply has to precede the open. The tunnel is used
  exactly for targets that are neither direct nor rejected, and the bytes peeked at are replayed.
\<close>

lemma connect_replies:
  assumes "handleSOCKS5Connect U buffer_writer sniSniff dialed opened now avail target rt w = (result, w', rt')"
    "action = fst (decideForTarget U rt (fst (resolveHostForRoute rt now (fst (split_or_empty target))))
       (snd (resolveHostForRoute rt now (fst (split_or_empty target)))))"
  shows "\<exists>code. w' = w @ [0x05, code, 0x00, 0x01, 0, 0, 0, 0, 0, 0] \<and>
    (action = RouteReject \<longrightarrow> code = 0x02 \<and> result = ConnClosed) \<and>
    (result \<noteq> ConnClosed \<longrightarrow> code = 0) \<and>
    (result = ConnClosed \<and> code = 0 \<longrightarrow>
       action = RouteProxy \<and> sniSniff \<and> sniCandidate target \<and> (\<exists>er. opened (fst (sniffSNITarget avail target)) = Inl er)) \<and>
    (\<forall>c. result = ConnDirect c \<longrightarrow> action = RouteDirect \<and> dialed target = Inr c) \<and>
    (\<forall>t s p. result = ConnTunnel t s p \<longrightarrow> action = RouteProxy \<and> opened t = Inr s \<and> (p = [] \<or> p = avail) \<and>
       (t = target \<or> sniSniff \<and> sniCandidate target \<and> t = fst (sniffSNITarget avail target)))"
proof -
  obtain host ps rh ip act rt1 where d: "split_or_empty target = (host, ps)" "resolveHostForRoute rt now host = (rh, ip)"
    "decideForTarget U rt rh ip = (act, rt1)" by (metis surj_pair)
  have a: "action = act" using assms(2) d by simp
  have reply: "writeSOCKS5Reply buffer_writer w code = (None, w @ [0x05, code, 0x00, 0x01, 0, 0, 0, 0, 0, 0])" for code
    by (simp add: writeSOCKS5Reply_def buffer_writeAll)
  have pend: "snd (sniffSNITarget avail target) = avail"
    by (auto simp: sniffSNITarget_def Let_def split: sum.split option.split)
  show ?thesis
  proof (cases act)
    case RouteProxy
    show ?thesis
    proof (cases "sniSniff \<and> sniCandidate target")
      case True
      obtain t p where t: "sniffSNITarget avail target = (t, p)" by fastforce
      then have "p = avail" using pend by simp
      then show ?thesis
        using assms(1) d a RouteProxy True t reply
        by (cases "opened t") (auto simp: handleSOCKS5Connect_def handleSNIProxyConnect_def)
    next
      case False
      then show ?thesis
        using assms(1) d a RouteProxy reply
        by (cases "opened target") (auto simp: handleSOCKS5Connect_def socks5ReplyForOpenError_def split: open_error.splits)
    qed
  next
    case RouteDirect
    then show ?thesis
      using assms(1) d a reply by (cases "dialed target") (auto simp: handleSOCKS5Connect_def handleDirectConnect_def)
  next
    case RouteReject
    then show ?thesis using assms(1) d a reply by (auto simp: handleSOCKS5Connect_def)
  qed
qed

text \<open>
  The stream slots of a session are exact: whatever the order in which streams are accepted,
  refused and finished, the session's count is the number of handlers that are running, it stays within
  the limit when there is one, a stream is refused only when the limit is reached, and no slot is lost
  once all handlers have ended.
\<close>

lemma stream_slots_exact:
  assumes "slots_reach maxStreams s n"
  shows "activeStreams s = int n \<and> (0 < maxStreams \<longrightarrow> int n \<le> maxStreams) \<and>
    (\<forall>active s'. tryAcquireStream maxStreams s = ((active, False), s') \<longrightarrow> 0 < maxStreams \<and> int n = maxStreams \<and> s' = s)"
proof -
  have "activeStreams s = int n \<and> (0 < maxStreams \<longrightarrow> int n \<le> maxStreams)"
    using assms by (induction rule: slots_reach.induct) (auto simp: tryAcquireStream_def releaseStream_def split: if_splits)
  then show ?thesis by (auto simp: tryAcquireStream_def split: if_splits)
qed

section \<open>Witnesses\<close>

lemma wit_text_short: "\<forall>er. length ((\<lambda>_. ''refused'') er) \<le> 65535"
  by simp

lemma stream_open_agreement_witness:
  "\<exists>hdr sb st'.
    (\<forall>w rest e. openTCPStream buffer_writer 0 64 ''a.io:80'' (Reader (sb @ rest) e) w =
      (open_outcome (\<lambda>_. ''refused'') ''TCP'' 64 (checkTarget wit_lib None 0 ''a.io:80'') (Inr 7 :: nat result) (Reader rest e), w @ hdr)) \<and>
    (\<forall>w tail e. handleSmuxStream wit_lib (\<lambda>_. ''refused'') None (\<lambda>_ _. Inr 7 :: nat result) (\<lambda>_ _. Inr () :: unit result)
        buffer_writer 64 (Reader (hdr @ tail) e) w \<lparr>serverStreamSeq = 0, serverUnsupportedStreamSeq = 0, serverTargetRejectSeq = 0, serverStreamRejectSeq = 0\<rparr> =
      (case open_outcome (\<lambda>_. ''refused'') ''TCP'' 64 (checkTarget wit_lib None 0 ''a.io:80'') (Inr 7 :: nat result) () of
         Inl _ \<Rightarrow> ServedClosed | Inr _ \<Rightarrow> ServedTCP (projr (Inr 7 :: nat result)) (Reader tail e), w @ sb, st'))"
proof -
  have "length ''a.io:80'' \<le> 65535" by simp
  note claim = stream_open_agreement [OF this wit_text_short, of 0 64 wit_lib None "\<lambda>_ _. Inr 7 :: nat result" "\<lambda>_ _. Inr () :: unit result"
      "\<lparr>serverStreamSeq = 0, serverUnsupportedStreamSeq = 0, serverTargetRejectSeq = 0, serverStreamRejectSeq = 0\<rparr>"]
  show ?thesis by (rule conjunct1 [OF claim])
qed


lemma dialTCPWithStrategy_target_witness:
  "dialTCPWithStrategy (\<lambda>net a. Inr (net, a)) (\<lambda>_. Inr [[0x20, 1, 0, 0, 0, 0, 0, 0, 0, 0, 0, 0, 0, 0, 0, 1], [10, 0, 0, 1]]) ''a.io:80'' IPStrategyPv4Pv6 =
    Inr (''tcp'', ''10.0.0.1:80'')"
proof -
  have s: "SplitHostPort ''a.io:80'' = Inr (''a.io'', ''80'')" "ParseIP ''a.io'' = None" by code_simp+
  have v: "To4 [0x20, 1, 0, 0, 0, 0, 0, 0, 0, 0, 0, 0, 0, 0, 0, 1] = None" "To4 [10, 0, 0, 1] = Some [10, 0, 0, 1]"
    "JoinHostPort (IP_String [10, 0, 0, 1]) ''80'' = ''10.0.0.1:80''" by code_simp+
  have "IPStrategyPv4Pv6 \<noteq> IPStrategyIPv4Only" "IPStrategyPv4Pv6 \<noteq> IPStrategyIPv6Only"
    by (simp_all add: IPStrategyIPv4Only_def IPStrategyIPv6Only_def IPStrategyPv4Pv6_def)
  with s v show ?thesis by (simp add: dialTCPWithStrategy_target [OF s(1)])
qed

lemma pickChannel_best_witness:
  "\<exists>i. pickChannel 5 [\<lparr>slClosed = Some True, slRTT = 1, slCaps = 0\<rparr>, \<lparr>slClosed = Some False, slRTT = 3, slCaps = 0\<rparr>] 4 = (Inr i, 5)"
proof -
  let ?s = "[\<lparr>slClosed = Some True, slRTT = 1, slCaps = 0\<rparr>, \<lparr>slClosed = Some False, slRTT = 3, slCaps = 0\<rparr>]"
  have "\<exists>j < length ?s. slClosed (?s ! j) = Some False" by (intro exI [of _ 1]) simp
  moreover have "unat (4 :: u64) < 2 ^ 63" by simp
  ultimately show ?thesis using pickChannel_best [of ?s 4 5] by auto
qed

lemma udp_relay_roundtrip_witness:
  "relayUp (\<lambda>d s. (None, s @ [d])) (Reader (fold (\<lambda>d w. snd (writeChunk buffer_writer w d)) [[1], [], [2, 3]] []) EOF) [] = [[1], [2, 3]]"
  using udp_relay_roundtrip [of "[[1], [], [2, 3]]" "[]" wit_lib EOF "[]"] by simp

lemma connect_replies_witness:
  "\<exists>code w' rt'. handleSOCKS5Connect wit_lib buffer_writer False (\<lambda>_. Inr (7 :: nat)) (\<lambda>_. Inl (LocalError EOF)) 0 [] ''a.io:80''
      \<lparr>rtEngine = None, dnsMap = Map.empty\<rparr> [] = (ConnClosed, w', rt') \<and>
    w' = [0x05, code, 0x00, 0x01, 0, 0, 0, 0, 0, 0] \<and> code \<noteq> 0"
proof -
  let ?rt = "\<lparr>rtEngine = None, dnsMap = Map.empty\<rparr>"
  obtain w' rt' where h: "handleSOCKS5Connect wit_lib buffer_writer False (\<lambda>_. Inr (7 :: nat)) (\<lambda>_. Inl (LocalError EOF)) 0 [] ''a.io:80'' ?rt [] =
      (ConnClosed, w', rt')"
    by (auto simp: handleSOCKS5Connect_def decideForTarget_def split: prod.split)
  from connect_replies [OF h refl] obtain code where "w' = [] @ [0x05, code, 0x00, 0x01, 0, 0, 0, 0, 0, 0]" "code \<noteq> 0" by blast
  with h show ?thesis by auto
qed

lemma stream_slots_exact_witness:
  "activeStreams (snd (tryAcquireStream 1 (\<lparr>nextChanID = 0, csClientID = ''c'', csChannels = [], activeStreams = 0\<rparr> :: unit ClientSession))) = 1"
proof -
  let ?s = "\<lparr>nextChanID = 0, csClientID = ''c'', csChannels = [], activeStreams = 0\<rparr> :: unit ClientSession"
  have "slots_reach 1 ?s 0" by (rule slots_reach.start) simp
  then have "slots_reach 1 (snd (tryAcquireStream 1 ?s)) (Suc 0)"
    by (rule slots_reach.accept [where active = 1]) (simp add: tryAcquireStream_def)
  from stream_slots_exact [OF this] show ?thesis by simp
qed

end
