(* ===== verification/Dns_Cache.thy ===== *)
theory Dns_Cache
  imports Go_Net "HOL-Library.Multiset"
begin

text \<open>
  The client's cache of resolved host names (\<open>internal/app/dnscache.go\<close>). Entries are shared by
  reference: a lookup in flight keeps a pointer to its entry while another call may put a new entry
  under the same host. So the cache is a store of entries by number and a map from hosts to numbers. A
  call of \<open>Resolve\<close> that has to look up or to wait is split where the code releases the mutex; calls
  waiting on a channel are numbered. Time is an argument; the zero time is 0. The resolver is an argument.
\<close>

section \<open>Model\<close>

record dnsCacheEntry =
  deIPs :: "bytes list"
  rrIndex :: nat
  expires :: gotime
  goodIP :: "bytes option"
  pending :: bool
  waiters :: "nat list"

record dnsCache =
  store :: "nat \<Rightarrow> dnsCacheEntry"
  nextEntry :: nat
  dcEntries :: "string \<rightharpoonup> nat"
  nextChan :: nat

definition zeroEntry :: dnsCacheEntry where
  "zeroEntry = \<lparr>deIPs = [], rrIndex = 0, expires = 0, goodIP = None, pending = False, waiters = []\<rparr>"

definition newDNSCache :: dnsCache where
  "newDNSCache = \<lparr>store = (\<lambda>_. zeroEntry), nextEntry = 0, dcEntries = Map.empty, nextChan = 0\<rparr>"

definition newEntry :: "string \<Rightarrow> dnsCacheEntry \<Rightarrow> dnsCache \<Rightarrow> dnsCache" where
  "newEntry host e c =
    c\<lparr>store := (store c)(nextEntry c := e), nextEntry := Suc (nextEntry c), dcEntries := (dcEntries c)(host \<mapsto> nextEntry c)\<rparr>"

text \<open>\<open>Resolve\<close> up to the point where it has the answer, looks up without the cache, waits, or looks up for all.\<close>

datatype resolve_begin = Answer "bytes list" | Uncached | WaitOn nat | LookUp nat

definition resolveBegin :: "gotime \<Rightarrow> duration \<Rightarrow> string \<Rightarrow> dnsCache \<Rightarrow> resolve_begin \<times> dnsCache" where
  "resolveBegin now ttl host c =
    (case ParseIP host of
       Some ip \<Rightarrow> (Answer [ip], c)
     | None \<Rightarrow>
         if ttl \<le> 0 then (Uncached, c)
         else
           (let lead = (LookUp (nextEntry c), newEntry host (zeroEntry\<lparr>pending := True\<rparr>) c) in
            case dcEntries c host of
              None \<Rightarrow> lead
            | Some i \<Rightarrow>
                if now < expires (store c i) then (Answer (deIPs (store c i)), c)
                else if pending (store c i)
                then (WaitOn (nextChan c),
                      c\<lparr>store := (store c)(i := (store c i)\<lparr>waiters := waiters (store c i) @ [nextChan c]\<rparr>), nextChan := Suc (nextChan c)\<rparr>)
                else lead))"

text \<open>
  \<open>Resolve\<close> after the lookup: the entry is filled and kept, or the host is deleted from the map. The
  messages are what is sent to the waiting channels; nil is \<open>None\<close>.
\<close>

definition resolveFinish ::
  "gotime \<Rightarrow> duration \<Rightarrow> string \<Rightarrow> nat \<Rightarrow> bytes list result \<Rightarrow> dnsCache \<Rightarrow> (nat \<times> bytes list option) list \<times> dnsCache" where
  "resolveFinish now ttl host i looked c =
    (let e = (store c i)\<lparr>pending := False, waiters := []\<rparr> in
     case looked of
       Inl _ \<Rightarrow> (map (\<lambda>w. (w, None)) (waiters (store c i)), c\<lparr>store := (store c)(i := e), dcEntries := (dcEntries c)(host := None)\<rparr>)
     | Inr ips \<Rightarrow>
         (map (\<lambda>w. (w, Some ips)) (waiters (store c i)), c\<lparr>store := (store c)(i := e\<lparr>deIPs := ips, expires := now + ttl\<rparr>)\<rparr>))"

text \<open>What a waiting call does with its message: the answer, or a new \<open>Resolve\<close>.\<close>

definition waitForResolve :: "gotime \<Rightarrow> duration \<Rightarrow> string \<Rightarrow> bytes list option \<Rightarrow> dnsCache \<Rightarrow> resolve_begin \<times> dnsCache" where
  "waitForResolve now ttl host m c = (case m of None \<Rightarrow> resolveBegin now ttl host c | Some ips \<Rightarrow> (Answer ips, c))"

definition GoodIP :: "gotime \<Rightarrow> string \<Rightarrow> dnsCache \<Rightarrow> bytes option" where
  "GoodIP now host c =
    (case dcEntries c host of
       None \<Rightarrow> None
     | Some i \<Rightarrow> if now > expires (store c i) then None else goodIP (store c i))"

definition MarkGood :: "gotime \<Rightarrow> duration \<Rightarrow> string \<Rightarrow> bytes option \<Rightarrow> dnsCache \<Rightarrow> dnsCache" where
  "MarkGood now ttl host ip c =
    (case ip of
       None \<Rightarrow> c
     | Some a \<Rightarrow>
         (let fresh = newEntry host (zeroEntry\<lparr>deIPs := [a], expires := now + ttl, goodIP := Some a\<rparr>) c in
          case dcEntries c host of
            None \<Rightarrow> fresh
          | Some i \<Rightarrow>
              if now > expires (store c i) then fresh
              else c\<lparr>store := (store c)(i := (store c i)\<lparr>goodIP := Some a\<rparr>)\<rparr>))"

definition ClearGood :: "string \<Rightarrow> dnsCache \<Rightarrow> dnsCache" where
  "ClearGood host c =
    (case dcEntries c host of
       None \<Rightarrow> c
     | Some i \<Rightarrow> c\<lparr>store := (store c)(i := (store c i)\<lparr>goodIP := None\<rparr>)\<rparr>)"

text \<open>\<open>NextCandidate\<close>: the entry it uses, then the pick in it.\<close>

definition candidateEntry :: "gotime \<Rightarrow> duration \<Rightarrow> string \<Rightarrow> bytes list \<Rightarrow> dnsCache \<Rightarrow> nat \<times> dnsCache" where
  "candidateEntry now ttl host ips c =
    (let fresh = (nextEntry c, newEntry host (zeroEntry\<lparr>deIPs := ips, expires := now + ttl\<rparr>) c) in
     case dcEntries c host of
       None \<Rightarrow> fresh
     | Some i \<Rightarrow> if now > expires (store c i) \<or> deIPs (store c i) = [] then fresh else (i, c))"

definition NextCandidate :: "gotime \<Rightarrow> duration \<Rightarrow> string \<Rightarrow> bytes list \<Rightarrow> dnsCache \<Rightarrow> bytes option \<times> dnsCache" where
  "NextCandidate now ttl host ips c =
    (if ips = [] then (None, c)
     else
       (case candidateEntry now ttl host ips c of
          (i, c) \<Rightarrow>
            (let e = store c i; k = (if rrIndex e \<ge> length (deIPs e) then 0 else rrIndex e) in
             (Some (deIPs e ! k), c\<lparr>store := (store c)(i := e\<lparr>rrIndex := (k + 1) mod length (deIPs e)\<rparr>)\<rparr>))))"

section \<open>Runs\<close>

text \<open>
  The lookups in flight (entry, host, time to live) and the messages sent so far, with any interleaving
  of the calls.
\<close>

record dns_world =
  dwCache :: dnsCache
  inFlight :: "(nat \<times> string \<times> duration) list"
  sent :: "(nat \<times> bytes list option) list"

inductive dns_step :: "dns_world \<Rightarrow> dns_world \<Rightarrow> bool" where
  answer: "resolveBegin now ttl host (dwCache w) = (Answer ips, c) \<Longrightarrow> dns_step w (w\<lparr>dwCache := c\<rparr>)"
| uncached: "resolveBegin now ttl host (dwCache w) = (Uncached, c) \<Longrightarrow> dns_step w (w\<lparr>dwCache := c\<rparr>)"
| wait: "resolveBegin now ttl host (dwCache w) = (WaitOn ch, c) \<Longrightarrow> dns_step w (w\<lparr>dwCache := c\<rparr>)"
| lookup: "resolveBegin now ttl host (dwCache w) = (LookUp i, c) \<Longrightarrow>
    dns_step w (w\<lparr>dwCache := c, inFlight := (i, host, ttl) # inFlight w\<rparr>)"
| finish: "(i, host, ttl) \<in> set (inFlight w) \<Longrightarrow> resolveFinish now ttl host i looked (dwCache w) = (ms, c) \<Longrightarrow>
    dns_step w (w\<lparr>dwCache := c, inFlight := remove1 (i, host, ttl) (inFlight w), sent := sent w @ ms\<rparr>)"
| mark: "dns_step w (w\<lparr>dwCache := MarkGood now ttl host ip (dwCache w)\<rparr>)"
| clear: "dns_step w (w\<lparr>dwCache := ClearGood host (dwCache w)\<rparr>)"
| candidate: "dns_step w (w\<lparr>dwCache := snd (NextCandidate now ttl host ips (dwCache w))\<rparr>)"

inductive dns_reach :: "dns_world \<Rightarrow> bool" where
  start: "dns_reach \<lparr>dwCache = newDNSCache, inFlight = [], sent = []\<rparr>"
| step: "dns_reach w \<Longrightarrow> dns_step w w' \<Longrightarrow> dns_reach w'"

section \<open>Lemmas\<close>

definition flying :: "dns_world \<Rightarrow> nat \<Rightarrow> bool" where
  "flying w i \<longleftrightarrow> i \<in> fst ` set (inFlight w)"

definition waiting :: "dnsCache \<Rightarrow> nat list \<Rightarrow> nat multiset" where
  "waiting c is = sum_list (map (\<lambda>i. mset (waiters (store c i))) is)"

text \<open>
  Numbers in use are below the counters, exactly the entries with a lookup in flight are pending and
  only they have waiters, and every channel made so far is either waiting on such an entry or has
  been sent its message, once.
\<close>

definition dns_inv :: "dns_world \<Rightarrow> bool" where
  "dns_inv w \<longleftrightarrow>
    (let c = dwCache w in
     distinct (map fst (inFlight w)) \<and> (\<forall>i. flying w i \<longrightarrow> i < nextEntry c) \<and>
     (\<forall>h i. dcEntries c h = Some i \<longrightarrow> i < nextEntry c) \<and>
     (\<forall>i. pending (store c i) \<longleftrightarrow> flying w i) \<and> (\<forall>i. waiters (store c i) \<noteq> [] \<longrightarrow> flying w i) \<and>
     mset (map fst (sent w)) + waiting c (map fst (inFlight w)) = mset [0..<nextChan c])"

text \<open>Operations that leave lookups and waiters alone.\<close>

definition quiet :: "dnsCache \<Rightarrow> dnsCache \<Rightarrow> bool" where
  "quiet c c' \<longleftrightarrow> nextChan c' = nextChan c \<and> nextEntry c \<le> nextEntry c' \<and>
    (\<forall>h i. dcEntries c' h = Some i \<longrightarrow> dcEntries c h = Some i \<or> i < nextEntry c') \<and>
    (\<forall>i. waiters (store c' i) = waiters (store c i) \<and> pending (store c' i) = pending (store c i))"

lemma waiting_cong: "\<forall>i\<in>set is. waiters (store c' i) = waiters (store c i) \<Longrightarrow> waiting c' is = waiting c is"
  by (simp add: waiting_def cong: map_cong)

lemma waiting_add:
  "distinct is \<Longrightarrow> i \<in> set is \<Longrightarrow> waiters (store c' i) = waiters (store c i) @ [ch] \<Longrightarrow>
   \<forall>j. j \<noteq> i \<longrightarrow> waiters (store c' j) = waiters (store c j) \<Longrightarrow> waiting c' is = add_mset ch (waiting c is)"
proof (induction "is")
  case (Cons j "is")
  show ?case
  proof (cases "j = i")
    case True
    then have "waiting c' is = waiting c is" using Cons.prems by (intro waiting_cong) auto
    then show ?thesis using True Cons.prems(3) by (simp add: waiting_def)
  next
    case False
    then show ?thesis using Cons by (simp add: waiting_def)
  qed
qed simp

lemma waiting_member: "ch \<in># waiting c is \<Longrightarrow> \<exists>i\<in>set is. ch \<in> set (waiters (store c i))"
  by (induction "is") (auto simp: waiting_def)

lemma waiting_remove: "i \<in> set is \<Longrightarrow> waiting c is = mset (waiters (store c i)) + waiting c (remove1 i is)"
  by (induction "is") (auto simp: waiting_def)

lemma quiet_inv:
  assumes "dns_inv w" "quiet (dwCache w) c"
  shows "dns_inv (w\<lparr>dwCache := c\<rparr>)"
proof -
  have "waiting c (map fst (inFlight w)) = waiting (dwCache w) (map fst (inFlight w))"
    by (rule waiting_cong) (use assms(2) in \<open>simp add: quiet_def\<close>)
  moreover have "i < nextEntry c" if "dcEntries c h = Some i" for h i
    using assms that unfolding dns_inv_def quiet_def Let_def by (meson less_le_trans)
  moreover have "i < nextEntry c" if "flying w i" for i
    using assms that unfolding dns_inv_def quiet_def Let_def by (meson less_le_trans)
  ultimately show ?thesis using assms by (simp add: dns_inv_def quiet_def flying_def Let_def)
qed

lemma quiet_new:
  assumes "dns_inv w" "\<not> pending e" "waiters e = []"
  shows "quiet (dwCache w) (newEntry host e (dwCache w))"
proof -
  have "\<not> flying w (nextEntry (dwCache w))" using assms(1) by (auto simp: dns_inv_def Let_def)
  then have "\<not> pending (store (dwCache w) (nextEntry (dwCache w)))" "waiters (store (dwCache w) (nextEntry (dwCache w))) = []"
    using assms(1) by (auto simp: dns_inv_def Let_def)
  then show ?thesis using assms(2,3) by (auto simp: quiet_def newEntry_def)
qed

lemma quiet_refl: "quiet c c"
  by (simp add: quiet_def)

lemma quiet_trans_update:
  "quiet c c' \<Longrightarrow> waiters e = waiters (store c' i) \<Longrightarrow> pending e = pending (store c' i) \<Longrightarrow> quiet c (c'\<lparr>store := (store c')(i := e)\<rparr>)"
  by (simp add: quiet_def)

lemma quiet_MarkGood: "dns_inv w \<Longrightarrow> quiet (dwCache w) (MarkGood now ttl host ip (dwCache w))"
  by (auto simp: MarkGood_def Let_def quiet_refl zeroEntry_def split: option.split intro!: quiet_new quiet_trans_update)

lemma quiet_ClearGood: "quiet c (ClearGood host c)"
  by (auto simp: ClearGood_def quiet_refl split: option.split intro!: quiet_trans_update)

lemma quiet_NextCandidate:
  assumes "dns_inv w"
  shows "quiet (dwCache w) (snd (NextCandidate now ttl host ips (dwCache w)))"
proof -
  obtain i c where ce: "candidateEntry now ttl host ips (dwCache w) = (i, c)" by fastforce
  have "quiet (dwCache w) c"
    using ce quiet_new [OF assms, of "zeroEntry\<lparr>deIPs := ips, expires := now + ttl\<rparr>" host]
    by (auto simp: candidateEntry_def Let_def quiet_refl zeroEntry_def split: option.splits if_splits)
  then show ?thesis using ce by (auto simp: NextCandidate_def quiet_refl Let_def intro!: quiet_trans_update)
qed

lemma dns_inv_wait:
  assumes inv: "dns_inv w" and b: "resolveBegin now ttl host (dwCache w) = (WaitOn ch, c)"
  shows "dns_inv (w\<lparr>dwCache := c\<rparr>)"
proof -
  let ?c = "dwCache w"
  obtain i where i: "dcEntries ?c host = Some i" "pending (store ?c i)" "ch = nextChan ?c"
    "c = ?c\<lparr>store := (store ?c)(i := (store ?c i)\<lparr>waiters := waiters (store ?c i) @ [nextChan ?c]\<rparr>), nextChan := Suc (nextChan ?c)\<rparr>"
    using b by (auto simp: resolveBegin_def Let_def split: option.splits if_splits)
  have f: "flying w i" using inv i(2) by (simp add: dns_inv_def Let_def)
  have "waiting c (map fst (inFlight w)) = add_mset (nextChan ?c) (waiting ?c (map fst (inFlight w)))"
    by (rule waiting_add [of _ i]) (use inv f i(4) in \<open>auto simp: dns_inv_def Let_def flying_def\<close>)
  then show ?thesis using inv f i(4) by (simp add: dns_inv_def Let_def flying_def atLeast0_lessThan_Suc)
qed

lemma dns_inv_lookup:
  assumes inv: "dns_inv w" and b: "resolveBegin now ttl host (dwCache w) = (LookUp i, c)"
  shows "dns_inv (w\<lparr>dwCache := c, inFlight := (i, host, ttl) # inFlight w\<rparr>)"
proof -
  let ?c = "dwCache w"
  have i: "i = nextEntry ?c" "c = newEntry host (zeroEntry\<lparr>pending := True\<rparr>) ?c"
    using b by (auto simp: resolveBegin_def Let_def split: option.splits if_splits)
  have n: "\<not> flying w i" using inv i(1) by (auto simp: dns_inv_def Let_def)
  have "waiting c (map fst (inFlight w)) = waiting ?c (map fst (inFlight w))"
    by (rule waiting_cong) (use n i in \<open>auto simp: newEntry_def flying_def image_iff\<close>)
  then show ?thesis
    using inv n i by (auto simp: dns_inv_def Let_def flying_def newEntry_def zeroEntry_def waiting_def less_Suc_eq)
qed

lemma map_fst_remove1: "distinct (map fst xs) \<Longrightarrow> p \<in> set xs \<Longrightarrow> map fst (remove1 p xs) = remove1 (fst p) (map fst xs)"
  by (induction xs) (auto simp: rev_image_eqI)

lemma dns_inv_finish:
  assumes inv: "dns_inv w" and m: "(i, host, ttl) \<in> set (inFlight w)"
    and f: "resolveFinish now ttl host i looked (dwCache w) = (ms, c)"
  shows "dns_inv (w\<lparr>dwCache := c, inFlight := remove1 (i, host, ttl) (inFlight w), sent := sent w @ ms\<rparr>)"
proof -
  let ?c = "dwCache w" and ?fl = "remove1 (i, host, ttl) (inFlight w)"
  have d: "distinct (map fst (inFlight w))" using inv by (simp add: dns_inv_def Let_def)
  have r: "map fst ?fl = remove1 i (map fst (inFlight w))"
    using map_fst_remove1 [OF d m] by simp
  have c: "map fst ms = waiters (store ?c i)" "nextChan c = nextChan ?c" "nextEntry c = nextEntry ?c"
    "\<not> pending (store c i)" "waiters (store c i) = []"
    "\<forall>j. j \<noteq> i \<longrightarrow> store c j = store ?c j" "\<forall>h j. dcEntries c h = Some j \<longrightarrow> dcEntries ?c h = Some j"
    using f by (auto simp: resolveFinish_def Let_def comp_def split: sum.splits if_splits)
  have s: "set (remove1 i (map fst (inFlight w))) = set (map fst (inFlight w)) - {i}" using d by simp
  have "waiting ?c (map fst (inFlight w)) = mset (waiters (store ?c i)) + waiting ?c (remove1 i (map fst (inFlight w)))"
    by (rule waiting_remove) (use m in force)
  moreover have "waiting c (remove1 i (map fst (inFlight w))) = waiting ?c (remove1 i (map fst (inFlight w)))"
    by (rule waiting_cong) (use c(6) s in auto)
  moreover have "mset (map fst (sent w)) + waiting ?c (map fst (inFlight w)) = mset [0..<nextChan ?c]"
    using inv by (simp only: dns_inv_def Let_def)
  ultimately have ms: "mset (map fst (sent w @ ms)) + waiting c (map fst ?fl) = mset [0..<nextChan c]"
    unfolding r map_append mset_append c(1,2) by (simp only: add.assoc)
  have fl: "flying (w\<lparr>dwCache := c, inFlight := ?fl, sent := sent w @ ms\<rparr>) j \<longleftrightarrow> flying w j \<and> j \<noteq> i" for j
    using s r by (simp add: flying_def flip: set_map)
  have "pending (store c j) \<longleftrightarrow> flying w j \<and> j \<noteq> i" for j
    using inv c(4,6) by (cases "j = i") (simp_all add: dns_inv_def Let_def)
  moreover have "waiters (store c j) \<noteq> [] \<Longrightarrow> flying w j \<and> j \<noteq> i" for j
    using inv c(5,6) by (cases "j = i") (simp_all add: dns_inv_def Let_def)
  moreover have "dcEntries c h = Some j \<Longrightarrow> j < nextEntry c" for h j
    using inv c(3,7) unfolding dns_inv_def Let_def by fastforce
  moreover have "flying w j \<Longrightarrow> j < nextEntry c" for j
    using inv c(3) by (simp add: dns_inv_def Let_def)
  moreover have "distinct (map fst ?fl)" unfolding r using d by simp
  ultimately show ?thesis
    unfolding dns_inv_def Let_def fl using ms by simp
qed

lemma dns_inv_step: "dns_step w w' \<Longrightarrow> dns_inv w \<Longrightarrow> dns_inv w'"
proof (induction rule: dns_step.induct)
  case (answer now ttl host w ips c)
  then have "c = dwCache w" by (auto simp: resolveBegin_def Let_def split: option.splits if_splits)
  then show ?case using answer by simp
next
  case (uncached now ttl host w c)
  then have "c = dwCache w" by (auto simp: resolveBegin_def Let_def split: option.splits if_splits)
  then show ?case using uncached by simp
qed (auto intro: dns_inv_wait dns_inv_lookup dns_inv_finish quiet_inv quiet_MarkGood quiet_ClearGood quiet_NextCandidate)

lemma dns_reach_inv: "dns_reach w \<Longrightarrow> dns_inv w"
proof (induction rule: dns_reach.induct)
  case start
  show ?case by (simp add: dns_inv_def newDNSCache_def zeroEntry_def flying_def waiting_def Let_def)
qed (rule dns_inv_step)

text \<open>Without the two operations that replace entries, at most one lookup per host is in flight.\<close>

inductive plain_reach :: "dns_world \<Rightarrow> bool" where
  start: "plain_reach \<lparr>dwCache = newDNSCache, inFlight = [], sent = []\<rparr>"
| resolving: "plain_reach w \<Longrightarrow> resolveBegin now ttl host (dwCache w) = (r, c) \<Longrightarrow>
    plain_reach (w\<lparr>dwCache := c, inFlight := (case r of LookUp i \<Rightarrow> [(i, host, ttl)] | _ \<Rightarrow> []) @ inFlight w\<rparr>)"
| finish: "plain_reach w \<Longrightarrow> (i, host, ttl) \<in> set (inFlight w) \<Longrightarrow> resolveFinish now ttl host i looked (dwCache w) = (ms, c) \<Longrightarrow>
    plain_reach (w\<lparr>dwCache := c, inFlight := remove1 (i, host, ttl) (inFlight w), sent := sent w @ ms\<rparr>)"
| clear: "plain_reach w \<Longrightarrow> plain_reach (w\<lparr>dwCache := ClearGood host (dwCache w)\<rparr>)"

lemma plain_reach_reach: "plain_reach w \<Longrightarrow> dns_reach w"
proof (induction rule: plain_reach.induct)
  case start
  show ?case by (rule dns_reach.start)
next
  case (resolving w now ttl host r c)
  note b = resolving(2)
  have "dns_step w (w\<lparr>dwCache := c, inFlight := (case r of LookUp i \<Rightarrow> [(i, host, ttl)] | _ \<Rightarrow> []) @ inFlight w\<rparr>)"
  proof (cases r)
    case (Answer ips)
    then show ?thesis using dns_step.answer [of now ttl host w ips c] b by simp
  next
    case Uncached
    then show ?thesis using dns_step.uncached [of now ttl host w c] b by simp
  next
    case (WaitOn ch)
    then show ?thesis using dns_step.wait [of now ttl host w ch c] b by simp
  next
    case (LookUp i)
    then show ?thesis using dns_step.lookup [of now ttl host w i c] b by simp
  qed
  then show ?case using resolving(3) dns_reach.step by blast
next
  case (finish w i host ttl now looked ms c)
  then show ?case using dns_reach.step dns_step.finish by blast
next
  case (clear w host)
  then show ?case using dns_reach.step dns_step.clear by blast
qed

definition single :: "dns_world \<Rightarrow> bool" where
  "single w \<longleftrightarrow> distinct (map (fst \<circ> snd) (inFlight w)) \<and>
    (\<forall>i host ttl. (i, host, ttl) \<in> set (inFlight w) \<longrightarrow> dcEntries (dwCache w) host = Some i)"

lemma single_finish:
  assumes "single w" "dns_inv w" "(i, host, ttl) \<in> set (inFlight w)" "resolveFinish now ttl host i looked (dwCache w) = (ms, c)"
  shows "single (w\<lparr>dwCache := c, inFlight := remove1 (i, host, ttl) (inFlight w), sent := sent w @ ms\<rparr>)"
proof -
  have d: "distinct (map (fst \<circ> snd) (inFlight w))" using assms(1) by (simp add: single_def)
  then have dw: "distinct (inFlight w)" by (simp add: distinct_map)
  have dr: "distinct (map (fst \<circ> snd) (remove1 (i, host, ttl) (inFlight w)))"
    using d by (metis distinct_map distinct_remove1 dw inj_on_subset set_remove1_subset)
  have ho: "h \<noteq> host" if "(j, h, t) \<in> set (remove1 (i, host, ttl) (inFlight w))" for j h t
  proof
    assume "h = host"
    with that have "(j, host, t) \<in> set (inFlight w)" "(j, host, t) \<noteq> (i, host, ttl)" using dw by auto
    moreover have "inj_on (fst \<circ> snd) (set (inFlight w))" using d by (simp add: distinct_map)
    ultimately show False using inj_onD [of "fst \<circ> snd" "set (inFlight w)" "(j, host, t)" "(i, host, ttl)"] assms(3) by simp
  qed
  have "dcEntries c h = dcEntries (dwCache w) h" if "h \<noteq> host" for h
    using assms(4) that by (auto simp: resolveFinish_def Let_def split: sum.splits)
  then have "dcEntries c h = Some j" if "(j, h, t) \<in> set (remove1 (i, host, ttl) (inFlight w))" for j h t
    using assms(1) ho [OF that] notin_set_remove1 [of "(j, h, t)"] that unfolding single_def by metis
  then show ?thesis using dr by (simp add: single_def)
qed

lemma single_resolve:
  assumes "single w" "dns_inv w" "resolveBegin now ttl host (dwCache w) = (r, c)"
  shows "single (w\<lparr>dwCache := c, inFlight := (case r of LookUp i \<Rightarrow> [(i, host, ttl)] | _ \<Rightarrow> []) @ inFlight w\<rparr>)"
proof (cases "\<exists>i. r = LookUp i")
  case True
  then obtain i where i: "r = LookUp i" by blast
  have c: "c = newEntry host (zeroEntry\<lparr>pending := True\<rparr>) (dwCache w)" "i = nextEntry (dwCache w)"
    and np: "\<forall>j. dcEntries (dwCache w) host = Some j \<longrightarrow> \<not> pending (store (dwCache w) j)"
    using assms(3) i by (auto simp: resolveBegin_def Let_def split: option.splits if_splits)
  have "host \<notin> (fst \<circ> snd) ` set (inFlight w)"
  proof
    assume "host \<in> (fst \<circ> snd) ` set (inFlight w)"
    then obtain j t where j: "(j, host, t) \<in> set (inFlight w)" by auto
    then have "flying w j" by (force simp: flying_def)
    then have "pending (store (dwCache w) j)" using assms(2) by (simp add: dns_inv_def Let_def)
    moreover have "dcEntries (dwCache w) host = Some j" using assms(1) j by (auto simp: single_def)
    ultimately show False using np by blast
  qed
  then have n: "h \<noteq> host" if "(j, h, t) \<in> set (inFlight w)" for j h t using that by force
  have "distinct (map (fst \<circ> snd) ((i, host, ttl) # inFlight w))" using assms(1) n by (force simp: single_def)
  moreover have "dcEntries c h = Some j" if "(j, h, t) \<in> set ((i, host, ttl) # inFlight w)" for j h t
    using that n [of j h t] assms(1) c by (auto simp: single_def newEntry_def)
  ultimately show ?thesis using i by (simp add: single_def)
next
  case False
  then have "(case r of LookUp i \<Rightarrow> [(i, host, ttl)] | _ \<Rightarrow> []) = []" "dcEntries c = dcEntries (dwCache w)"
    using assms(3) by (auto simp: resolveBegin_def Let_def split: option.splits if_splits resolve_begin.splits)
  then show ?thesis using assms(1) by (simp add: single_def)
qed

lemma plain_single: "plain_reach w \<Longrightarrow> single w"
proof (induction rule: plain_reach.induct)
  case (resolving w now ttl host r c)
  then show ?case using single_resolve dns_reach_inv plain_reach_reach by blast
next
  case (finish w i host ttl now looked ms c)
  then show ?case using single_finish dns_reach_inv plain_reach_reach by blast
next
  case (clear w host)
  have "dcEntries (ClearGood host (dwCache w)) = dcEntries (dwCache w)" by (simp add: ClearGood_def split: option.split)
  then show ?case using clear by (simp add: single_def)
qed (simp add: single_def)

section \<open>Properties\<close>

text \<open>
  C32. No call waiting for another call's lookup is forgotten or answered twice, whatever the
  interleaving of lookups, failures and the marking of good addresses: every channel made so far was
  sent exactly one message or waits on an entry whose lookup is still in flight, so once no lookup is
  in flight every waiting call has its message.
\<close>

lemma dns_waiters_answered:
  assumes "dns_reach w"
  shows "distinct (map fst (sent w)) \<and>
    (\<forall>ch < nextChan (dwCache w). ch \<in> fst ` set (sent w) \<or> (\<exists>(i, host, ttl)\<in>set (inFlight w). ch \<in> set (waiters (store (dwCache w) i)))) \<and>
    (\<forall>ch \<in> fst ` set (sent w). ch < nextChan (dwCache w)) \<and>
    (inFlight w = [] \<longrightarrow> fst ` set (sent w) = {..<nextChan (dwCache w)})"
proof -
  let ?c = "dwCache w" and ?W = "waiting (dwCache w) (map fst (inFlight w))"
  have m: "mset (map fst (sent w)) + ?W = mset [0..<nextChan ?c]"
    using dns_reach_inv [OF assms] by (simp only: dns_inv_def Let_def)
  obtain ws where "mset ws = ?W" using ex_mset by blast
  with m have "mset (map fst (sent w) @ ws) = mset [0..<nextChan ?c]" by simp
  from mset_eq_imp_distinct_iff [OF this] have d: "distinct (map fst (sent w))" by simp
  have u: "fst ` set (sent w) \<union> set_mset ?W = {..<nextChan ?c}"
    using arg_cong [OF m, of set_mset] by (simp add: lessThan_atLeast0)
  have w: "ch \<in># ?W \<Longrightarrow> \<exists>(i, host, ttl)\<in>set (inFlight w). ch \<in> set (waiters (store ?c i))" for ch
    using waiting_member [of ch ?c "map fst (inFlight w)"] by fastforce
  have e: "inFlight w = [] \<Longrightarrow> ?W = {#}" by (simp add: waiting_def)
  show ?thesis using d u w e by auto
qed

text \<open>
  As long as no address is marked good or handed out as a candidate, concurrent calls for a
  host share one lookup: at most one lookup per host is in flight, and the map leads to its entry, so
  that further calls wait for it.
\<close>

lemma dns_single_flight:
  assumes "plain_reach w"
  shows "distinct (map (fst \<circ> snd) (inFlight w)) \<and>
    (\<forall>(i, host, ttl)\<in>set (inFlight w). dcEntries (dwCache w) host = Some i \<and> pending (store (dwCache w) i))"
proof -
  have "single w" using plain_single [OF assms] .
  moreover have "pending (store (dwCache w) i)" if "(i, host, ttl) \<in> set (inFlight w)" for i host ttl
  proof -
    have "flying w i" using that by (force simp: flying_def)
    then show ?thesis using dns_reach_inv [OF plain_reach_reach [OF assms]] by (simp add: dns_inv_def Let_def)
  qed
  ultimately show ?thesis unfolding single_def by blast
qed

text \<open>
  What the cache promises for a verified address, and where it fails: right after
  \<open>MarkGood\<close> the address is returned until the entry expires, and another host's calls do not change
  that; but when a lookup for the host was in flight at that moment and fails afterwards, the address
  is gone at once, whatever the time to live.
\<close>

lemma dns_good_ip:
  assumes "0 < ttl" "0 < now" "ParseIP host = None" "dcEntries c host = None"
  shows "GoodIP t host (MarkGood now ttl host (Some a) c) = (if t > now + ttl then None else Some a) \<and>
    (\<forall>er. GoodIP t host (snd (resolveFinish later ttl host (nextEntry c) (Inl er)
        (MarkGood now ttl host (Some a) (snd (resolveBegin now ttl host c))))) = None)"
  using assms
  by (auto simp: GoodIP_def MarkGood_def newEntry_def resolveBegin_def resolveFinish_def zeroEntry_def Let_def)

text \<open>Successive candidates for reconnects.\<close>

fun candidates :: "gotime \<Rightarrow> duration \<Rightarrow> string \<Rightarrow> bytes list \<Rightarrow> nat \<Rightarrow> dnsCache \<Rightarrow> bytes option list" where
  "candidates now ttl host ips 0 c = []"
| "candidates now ttl host ips (Suc n) c =
    (case NextCandidate now ttl host ips c of (ip, c') \<Rightarrow> ip # candidates now ttl host ips n c')"

lemma candidates_from:
  assumes "dcEntries c host = Some i" "now \<le> expires (store c i)" "deIPs (store c i) = xs" "xs \<noteq> []"
    "rrIndex (store c i) < length xs" "ips \<noteq> []"
  shows "candidates now ttl host ips n c = map (\<lambda>k. Some (xs ! ((rrIndex (store c i) + k) mod length xs))) [0..<n]"
  using assms
proof (induction n arbitrary: c)
  case (Suc n)
  let ?e = "store c i"
  let ?c = "c\<lparr>store := (store c)(i := ?e\<lparr>rrIndex := (rrIndex ?e + 1) mod length xs\<rparr>)\<rparr>"
  have nc: "NextCandidate now ttl host ips c = (Some (xs ! rrIndex ?e), ?c)"
    using Suc.prems by (simp add: NextCandidate_def candidateEntry_def Let_def)
  have "candidates now ttl host ips n ?c = map (\<lambda>k. Some (xs ! ((rrIndex (store ?c i) + k) mod length xs))) [0..<n]"
    by (rule Suc.IH) (use Suc.prems in simp_all)
  also have "\<dots> = map (\<lambda>k. Some (xs ! ((rrIndex ?e + Suc k) mod length xs))) [0..<n]"
    by (simp add: mod_add_left_eq)
  finally have "candidates now ttl host ips (Suc n) c =
      Some (xs ! (rrIndex ?e mod length xs)) # map (\<lambda>k. Some (xs ! ((rrIndex ?e + Suc k) mod length xs))) [0..<n]"
    using nc Suc.prems(5) by simp
  then show ?case by (simp add: map_Suc_upt [symmetric] upt_conv_Cons comp_def del: upt_Suc)
qed simp

text \<open>
  Reconnects go round the resolved addresses: on an entry that stays valid, successive
  candidates follow its list cyclically from its index, so any \<open>n\<close> of them in a row, on a list of \<open>n\<close>
  addresses, try each of them.
\<close>

lemma dns_candidates_cover:
  assumes "dcEntries c host = Some i" "now \<le> expires (store c i)" "deIPs (store c i) = xs" "xs \<noteq> []"
    "rrIndex (store c i) < length xs" "ips \<noteq> []"
  shows "set (candidates now ttl host ips (length xs) c) = Some ` set xs"
proof -
  let ?r = "rrIndex (store c i)" and ?n = "length xs"
  have "\<exists>k < ?n. (?r + k) mod ?n = j" if "j < ?n" for j
  proof (intro exI conjI)
    show "(j + ?n - ?r) mod ?n < ?n" using assms(4) by simp
    have "(?r + (j + ?n - ?r) mod ?n) mod ?n = (?r + (j + ?n - ?r)) mod ?n" by (rule mod_add_right_eq)
    then show "(?r + (j + ?n - ?r) mod ?n) mod ?n = j" using assms(5) that by simp
  qed
  then have "(\<lambda>k. (?r + k) mod ?n) ` {..<?n} = {..<?n}" using assms(4) by (fastforce simp: image_iff)
  then have "(\<lambda>k. Some (xs ! ((?r + k) mod ?n))) ` {..<?n} = (\<lambda>k. Some (xs ! k)) ` {..<?n}"
    by (metis (no_types, lifting) image_cong image_image)
  moreover have "set xs = (\<lambda>k. xs ! k) ` {..<?n}" by (auto simp: set_conv_nth)
  ultimately show ?thesis unfolding candidates_from [OF assms] by (simp add: image_image lessThan_atLeast0)
qed

section \<open>Witnesses\<close>

text \<open>Two calls for the same host: the first looks up, the second waits.\<close>

definition wit_first :: dns_world where
  "wit_first = \<lparr>dwCache = newEntry ''a.io'' (zeroEntry\<lparr>pending := True\<rparr>) newDNSCache, inFlight = [(0, ''a.io'', 60)], sent = []\<rparr>"

lemma wit_name: "ParseIP ''a.io'' = None"
  by code_simp

lemma wit_first_reach: "plain_reach wit_first"
proof -
  have "resolveBegin 5 60 ''a.io'' newDNSCache = (LookUp 0, newEntry ''a.io'' (zeroEntry\<lparr>pending := True\<rparr>) newDNSCache)"
    by (simp add: resolveBegin_def wit_name newDNSCache_def Let_def)
  from plain_reach.resolving [OF plain_reach.start, unfolded dns_world.simps, OF this]
  show ?thesis by (simp add: wit_first_def)
qed

lemma dns_waiters_answered_witness:
  "\<exists>w. dns_reach w \<and> inFlight w = [] \<and> fst ` set (sent w) = {..<nextChan (dwCache w)} \<and> nextChan (dwCache w) = 1"
proof -
  let ?c = "dwCache wit_first"
  obtain c1 where b: "resolveBegin 6 60 ''a.io'' ?c = (WaitOn 0, c1)" "nextChan c1 = 1" "waiters (store c1 0) = [0]"
    by (simp add: wit_first_def resolveBegin_def wit_name newDNSCache_def newEntry_def zeroEntry_def Let_def)
  let ?w1 = "wit_first\<lparr>dwCache := c1\<rparr>"
  have r1: "dns_reach ?w1"
    using dns_reach.step [OF plain_reach_reach [OF wit_first_reach] dns_step.wait [of 6 60 "''a.io''" wit_first 0 c1]] b(1) by simp
  obtain ms c2 where f: "resolveFinish 7 60 ''a.io'' 0 (Inr [[1, 2, 3, 4]]) c1 = (ms, c2)" "nextChan c2 = 1"
    using b(2) by (simp add: resolveFinish_def Let_def)
  let ?w2 = "?w1\<lparr>dwCache := c2, inFlight := [], sent := ms\<rparr>"
  have "dns_step ?w1 ?w2"
    using dns_step.finish [of 0 "''a.io''" 60 ?w1 7 "Inr [[1, 2, 3, 4]]" ms c2] f(1) by (simp add: wit_first_def)
  then have r2: "dns_reach ?w2" using r1 dns_reach.step by blast
  from dns_waiters_answered [OF r2] have "fst ` set (sent ?w2) = {..<nextChan (dwCache ?w2)}" by simp
  then show ?thesis using r2 f(2) by (intro exI [of _ ?w2]) simp
qed

lemma dns_single_flight_witness:
  "distinct (map (fst \<circ> snd) (inFlight wit_first)) \<and> inFlight wit_first \<noteq> [] \<and> pending (store (dwCache wit_first) 0)"
  using dns_single_flight [OF wit_first_reach] by (simp add: wit_first_def)

lemma dns_good_ip_witness:
  "GoodIP 7 ''a.io'' (MarkGood 5 60 ''a.io'' (Some [1, 2, 3, 4]) newDNSCache) = Some [1, 2, 3, 4] \<and>
   GoodIP 7 ''a.io'' (snd (resolveFinish 6 60 ''a.io'' 0 (Inl EOF)
     (MarkGood 5 60 ''a.io'' (Some [1, 2, 3, 4]) (snd (resolveBegin 5 60 ''a.io'' newDNSCache))))) = None"
  using dns_good_ip [of 60 5 "''a.io''" newDNSCache 7 "[1, 2, 3, 4]" 6] by (simp add: wit_name newDNSCache_def)

lemma dns_candidates_cover_witness:
  "set (candidates 6 60 ''a.io'' [[9]] 2 (snd (NextCandidate 5 60 ''a.io'' [[1], [2]] newDNSCache))) = {Some [1], Some [2]}"
proof -
  let ?c = "snd (NextCandidate 5 60 ''a.io'' [[1], [2]] newDNSCache)"
  have "dcEntries ?c ''a.io'' = Some 0" "6 \<le> expires (store ?c 0)" "deIPs (store ?c 0) = [[1], [2]]" "rrIndex (store ?c 0) < length [[1], [2]]"
    by (simp_all add: NextCandidate_def candidateEntry_def newEntry_def newDNSCache_def zeroEntry_def Let_def)
  from dns_candidates_cover [OF this(1-3) _ this(4), of "[[9]]" 60] show ?thesis by (simp add: numeral_2_eq_2)
qed

end
