(* ===== verification/Go_Url.thy ===== *)
theory Go_Url
  imports Go_Net
begin

text \<open>
  What the program uses of \<open>net/url\<close>: the fields of a parsed URL that it reads, with everything else in
  \<open>urlOther\<close>. The parser and the printer are a parameter (record \<open>url_lib\<close>). \<open>redactURLUserInfo\<close> and
  \<open>redactConfigValue\<close> of \<open>internal/app/status.go\<close> take the credentials out of the addresses that the
  status and the log show.
\<close>

record userinfo =
  uiUsername :: string
  uiPassword :: "string option"

record 'r URL =
  urlScheme :: string
  urlUser :: "userinfo option"
  urlHost :: string
  urlPath :: string
  urlOther :: 'r

record 'r url_lib =
  url_Parse :: "string \<Rightarrow> 'r URL result"
  url_String :: "'r URL \<Rightarrow> string"

section \<open>Model\<close>

text \<open>\<open>url.URL.Hostname\<close>: without an optional numeric port and without brackets.\<close>

definition urlHostname :: "'r URL \<Rightarrow> string" where
  "urlHostname u =
    (let hostPort = urlHost u;
         host = (case LastIndexByte (CHR '':'') hostPort of
                   None \<Rightarrow> hostPort
                 | Some i \<Rightarrow> if list_all isDigit (drop (i + 1) hostPort) then take i hostPort else hostPort)
     in if HasPrefix host ''['' \<and> HasSuffix host '']'' then butlast (tl host) else host)"

definition redactURLUserInfo :: "'r url_lib \<Rightarrow> string \<Rightarrow> string" where
  "redactURLUserInfo L value =
    (case url_Parse L value of
       Inl _ \<Rightarrow> value
     | Inr u \<Rightarrow>
         (case urlUser u of
            None \<Rightarrow> value
          | Some ui \<Rightarrow>
              url_String L (u\<lparr>urlUser :=
                Some (if uiPassword ui \<noteq> None then \<lparr>uiUsername = ''redacted'', uiPassword = Some ''redacted''\<rparr>
                      else \<lparr>uiUsername = ''redacted'', uiPassword = None\<rparr>)\<rparr>)))"

definition redactConfigValue :: "unicode_lib \<Rightarrow> 'r url_lib \<Rightarrow> string \<Rightarrow> string" where
  "redactConfigValue U L value =
    (if value = [] then value
     else Join (CHR '','') (map (\<lambda>part. redactURLUserInfo L (TrimSpace U part)) (Split (CHR '','') value)))"

section \<open>Lemmas\<close>

lemma IndexByte_SomeD:
  assumes "IndexByte c s = Some i"
  shows "i < length s \<and> s = take i s @ c # drop (Suc i) s \<and> c \<notin> set (take i s)"
  using assms by (induction s arbitrary: i) (auto split: if_splits)

end
