(* ===== verification/Log_Ring.thy ===== *)
theory Log_Ring
  imports Go_Url
begin

text \<open>
  The log of the control interface (\<open>internal/app/logring.go\<close>): a ring of the last entries, the writer
  that cuts the output of the \<open>log\<close> package into lines, and the cursor of the log stream
  (\<open>handleLogsStream\<close> in \<open>internal/app/control.go\<close>). The clock is an argument.
\<close>

section \<open>Model\<close>

record LogEntry =
  leID :: u64
  leTime :: gotime
  leLevel :: string
  leComponent :: string
  leMessage :: string
  leFields :: "string \<rightharpoonup> string"

record LogRing =
  lrEntries :: "LogEntry list"
  lrNext :: nat
  lrFull :: bool
  lrSeq :: u64

definition zeroLogEntry :: LogEntry where
  "zeroLogEntry = \<lparr>leID = 0, leTime = 0, leLevel = [], leComponent = [], leMessage = [], leFields = Map.empty\<rparr>"

definition NewLogRing :: "int \<Rightarrow> LogRing" where
  "NewLogRing limit =
    (let limit = (if limit \<le> 0 then 256 else limit) in
     \<lparr>lrEntries = replicate (nat limit) zeroLogEntry, lrNext = 0, lrFull = False, lrSeq = 0\<rparr>)"

text \<open>The component is the text between brackets at the start of a message.\<close>

definition logComponent :: "string \<Rightarrow> string" where
  "logComponent message =
    (if HasPrefix message ''['' then
       (case IndexByte (CHR '']'') message of
          Some end \<Rightarrow> if end > 1 then take (end - 1) (drop 1 message) else []
        | None \<Rightarrow> [])
     else [])"

definition LogRing_Add :: "unicode_lib \<Rightarrow> 'r url_lib \<Rightarrow> gotime \<Rightarrow> string \<Rightarrow> LogRing \<Rightarrow> LogRing" where
  "LogRing_Add U L now message0 r =
    (let message = TrimSpace U message0 in
     if message = [] then r
     else
       (let seq = lrSeq r + 1;
            m = redactConfigValue U L message;
            entry = \<lparr>leID = seq, leTime = now, leLevel = ''info'', leComponent = logComponent m, leMessage = m, leFields = Map.empty\<rparr>;
            next' = (lrNext r + 1) mod length (lrEntries r)
        in r\<lparr>lrSeq := seq, lrEntries := (lrEntries r)[lrNext r := entry], lrNext := next',
             lrFull := (if next' = 0 then True else lrFull r)\<rparr>))"

text \<open>How many entries the ring holds, and the position of the oldest.\<close>

definition ringCount :: "LogRing \<Rightarrow> nat" where
  "ringCount r = (if lrFull r then length (lrEntries r) else lrNext r)"

definition ringStart :: "LogRing \<Rightarrow> nat" where
  "ringStart r = (if lrFull r then lrNext r else 0)"

definition LogRing_Entries :: "int \<Rightarrow> LogRing \<Rightarrow> LogEntry list" where
  "LogRing_Entries limit r =
    (let count = ringCount r;
         limit = (if limit \<le> 0 \<or> limit > int count then count else nat limit)
     in map (\<lambda>i. lrEntries r ! ((ringStart r + i) mod length (lrEntries r))) [count - limit..<count])"

definition EntriesSince :: "u64 \<Rightarrow> int \<Rightarrow> LogRing \<Rightarrow> LogEntry list" where
  "EntriesSince after limit r =
    (let out = filter (\<lambda>e. leID e > after)
           (map (\<lambda>i. lrEntries r ! ((ringStart r + i) mod length (lrEntries r))) [0..<ringCount r])
     in if limit > 0 \<and> int (length out) > limit then drop (length out - nat limit) out else out)"

text \<open>
  \<open>logRingWriter.Write\<close>: complete lines go to the ring and, trimmed, to the sink; the rest of the text
  stays in the buffer. The underlying writer gets the bytes as they are.
\<close>

record log_writer =
  lwRing :: LogRing
  lwBuf :: string
  lwOut :: string
  lwSink :: "string list"

function lineLoop :: "unicode_lib \<Rightarrow> 'r url_lib \<Rightarrow> gotime \<Rightarrow> string \<Rightarrow> LogRing \<Rightarrow> string list \<Rightarrow> string \<times> LogRing \<times> string list" where
  "lineLoop U L now buf ring lines =
    (case IndexByte (CHR 0x0A) buf of
       None \<Rightarrow> (buf, ring, lines)
     | Some i \<Rightarrow>
         (let line = take (i + 1) buf in
          lineLoop U L now (drop (i + 1) buf) (LogRing_Add U L now line ring) (lines @ [TrimSpace U line])))"
  by pat_completeness auto
termination
  by (relation "measure (\<lambda>(U, L, now, buf, ring, lines). length buf)") (auto dest: IndexByte_SomeD)

declare lineLoop.simps [simp del]

definition logRingWriter_Write :: "unicode_lib \<Rightarrow> 'r url_lib \<Rightarrow> gotime \<Rightarrow> string \<Rightarrow> log_writer \<Rightarrow> nat \<times> log_writer" where
  "logRingWriter_Write U L now p w =
    (let (buf, ring, lines) = lineLoop U L now (lwBuf w @ p) (lwRing w) [] in
     (length p, w\<lparr>lwRing := ring, lwBuf := buf, lwOut := lwOut w @ p,
        lwSink := lwSink w @ filter (\<lambda>l. l \<noteq> []) lines\<rparr>))"

text \<open>\<open>sendEntries\<close> of \<open>handleLogsStream\<close>: the entries sent and the new cursor.\<close>

definition sendEntries :: "int \<Rightarrow> LogRing \<Rightarrow> u64 \<Rightarrow> LogEntry list \<times> u64" where
  "sendEntries limit r cursor =
    (let es = EntriesSince cursor limit r in (es, if es = [] then cursor else leID (last es)))"

section \<open>Lemmas\<close>

text \<open>
  The abstract log: all entries ever added, numbered from one. A ring of size \<open>N\<close> stands for the last
  \<open>N\<close> of them.
\<close>

definition ring_rel :: "nat \<Rightarrow> LogEntry list \<Rightarrow> LogRing \<Rightarrow> bool" where
  "ring_rel N hist r \<longleftrightarrow> 0 < N \<and> length (lrEntries r) = N \<and> lrNext r = length hist mod N \<and>
    lrFull r = (N \<le> length hist) \<and> lrSeq r = word_of_nat (length hist) \<and>
    (\<forall>i < length hist. length hist - N \<le> i \<longrightarrow> lrEntries r ! (i mod N) = hist ! i) \<and>
    (\<forall>i < length hist. leID (hist ! i) = word_of_nat (Suc i))"

definition window :: "nat \<Rightarrow> 'a list \<Rightarrow> 'a list" where
  "window N hist = drop (length hist - N) hist"

definition log_entry :: "unicode_lib \<Rightarrow> 'r url_lib \<Rightarrow> gotime \<Rightarrow> nat \<Rightarrow> string \<Rightarrow> LogEntry" where
  "log_entry U L now k message =
    \<lparr>leID = word_of_nat k, leTime = now, leLevel = ''info'', leComponent = logComponent (redactConfigValue U L message),
     leMessage = redactConfigValue U L message, leFields = Map.empty\<rparr>"

definition spec_add :: "unicode_lib \<Rightarrow> 'r url_lib \<Rightarrow> gotime \<Rightarrow> string \<Rightarrow> LogEntry list \<Rightarrow> LogEntry list" where
  "spec_add U L now message hist =
    (if TrimSpace U message = [] then hist else hist @ [log_entry U L now (Suc (length hist)) (TrimSpace U message)])"

lemma ring_rel_new: "ring_rel (if limit \<le> 0 then 256 else nat limit) [] (NewLogRing limit)"
  by (simp add: ring_rel_def NewLogRing_def Let_def)

lemma ring_slot_other:
  fixes N n i :: nat
  assumes "i < n" "n - N < i \<or> n < N" "0 < N"
  shows "i mod N \<noteq> n mod N"
proof
  assume "i mod N = n mod N"
  then have "N dvd n - i" using assms(1) by (metis less_imp_le mod_eq_dvd_iff_nat)
  then have "N \<le> n - i" using assms(1) by (simp add: dvd_imp_le)
  then show False using assms by auto
qed

lemma ring_rel_add:
  assumes "ring_rel N hist r"
  shows "ring_rel N (spec_add U L now message hist) (LogRing_Add U L now message r)"
proof (cases "TrimSpace U message = []")
  case True
  then show ?thesis using assms by (simp add: spec_add_def LogRing_Add_def)
next
  case False
  let ?n = "length hist" and ?e = "log_entry U L now (Suc (length hist)) (TrimSpace U message)"
  have N: "0 < N" "length (lrEntries r) = N" "lrNext r = ?n mod N" "lrFull r = (N \<le> ?n)" "lrSeq r = word_of_nat ?n"
    and old: "\<forall>i < ?n. ?n - N \<le> i \<longrightarrow> lrEntries r ! (i mod N) = hist ! i"
    and ids: "\<forall>i < ?n. leID (hist ! i) = word_of_nat (Suc i)"
    using assms by (simp_all add: ring_rel_def)
  have r: "LogRing_Add U L now message r = r\<lparr>lrSeq := word_of_nat (Suc ?n), lrEntries := (lrEntries r)[?n mod N := ?e],
      lrNext := Suc ?n mod N, lrFull := (N \<le> Suc ?n)\<rparr>"
  proof -
    have "(?n mod N + 1) mod N = Suc ?n mod N" by (simp add: mod_Suc_eq)
    moreover have "(if Suc ?n mod N = 0 then True else N \<le> ?n) = (N \<le> Suc ?n)"
      using N(1) by (auto simp: le_Suc_eq dest: dvd_imp_le)
    moreover have "(word_of_nat ?n :: u64) + 1 = word_of_nat (Suc ?n)" by simp
    ultimately show ?thesis using False by (simp only: LogRing_Add_def Let_def log_entry_def N if_False)
  qed
  have "((lrEntries r)[?n mod N := ?e]) ! (i mod N) = (hist @ [?e]) ! i" if "i < Suc ?n" "Suc ?n - N \<le> i" for i
  proof (cases "i = ?n")
    case True
    then show ?thesis using N by simp
  next
    case False
    then have "i < ?n" "?n - N < i \<or> ?n < N" "?n - N \<le> i" using that N(1) by auto
    then show ?thesis using ring_slot_other [of i ?n N] N old by (simp add: nth_append)
  qed
  then show ?thesis
    using False N ids by (auto simp: r ring_rel_def spec_add_def nth_append less_Suc_eq log_entry_def)
qed

lemma ring_held:
  assumes "ring_rel N hist r"
  shows "map (\<lambda>i. lrEntries r ! ((ringStart r + i) mod length (lrEntries r))) [0..<ringCount r] = window N hist"
    and "ringCount r = length (window N hist)"
proof -
  let ?n = "length hist"
  have N: "0 < N" "length (lrEntries r) = N" "lrNext r = ?n mod N" "lrFull r = (N \<le> ?n)"
    and old: "\<And>i. i < ?n \<Longrightarrow> ?n - N \<le> i \<Longrightarrow> lrEntries r ! (i mod N) = hist ! i"
    using assms by (simp_all add: ring_rel_def)
  show c: "ringCount r = length (window N hist)" using N by (auto simp: ringCount_def window_def)
  have "lrEntries r ! ((ringStart r + i) mod N) = hist ! (?n - N + i)" if "i < ringCount r" for i
  proof (cases "N \<le> ?n")
    case True
    have "(?n mod N + i) mod N = (?n - N + i) mod N" using True by (metis le_mod_geq mod_add_left_eq)
    then show ?thesis using True N old [of "?n - N + i"] that by (simp add: ringStart_def ringCount_def)
  next
    case False
    then show ?thesis using N old [of i] that by (simp add: ringStart_def ringCount_def)
  qed
  then show "map (\<lambda>i. lrEntries r ! ((ringStart r + i) mod length (lrEntries r))) [0..<ringCount r] = window N hist"
    using c N(2) by (intro nth_equalityI) (simp_all add: window_def)
qed
lemma window_window: "window k (window N xs) = window (min k N) xs"
  unfolding window_def drop_drop length_drop by (rule arg_cong [of _ _ "\<lambda>n. drop n xs"]) arith

lemma window_all: "length xs \<le> k \<Longrightarrow> window k xs = xs"
  by (simp add: window_def)

lemma window_map: "window k (map f xs) = map f (window k xs)"
  by (simp add: window_def drop_map)

lemma Entries_window:
  assumes "ring_rel N hist r"
  shows "LogRing_Entries k r = window (if k \<le> 0 then N else min (nat k) N) hist"
proof -
  let ?W = "window N hist" and ?c = "ringCount r"
  let ?at = "\<lambda>i. lrEntries r ! ((ringStart r + i) mod length (lrEntries r))"
  have c: "?c = length ?W" and w: "map ?at [0..<?c] = ?W" using ring_held [OF assms] by simp_all
  have d: "map ?at [?c - l..<?c] = window l ?W" if "l \<le> ?c" for l
    using arg_cong [OF w, of "drop (?c - l)"] c by (simp add: drop_map window_def [of l ?W])
  have "LogRing_Entries k r = window (if k \<le> 0 then length ?W else nat k) ?W"
    using d [of "nat k"] d [of ?c] c by (auto simp: LogRing_Entries_def Let_def window_all)
  also have "\<dots> = window (if k \<le> 0 then N else min (nat k) N) hist"
    by (cases "k \<le> 0") (simp_all add: window_window, simp add: window_def)
  finally show ?thesis .
qed

lemma EntriesSince_window:
  assumes "ring_rel N hist r"
  shows "EntriesSince after k r =
    (let new = filter (\<lambda>e. leID e > after) (window N hist) in if k > 0 then window (nat k) new else new)"
  unfolding EntriesSince_def ring_held(1) [OF assms] by (auto simp: Let_def window_def)

lemma ring_rel_fold:
  "ring_rel N hist r \<Longrightarrow> ring_rel N (fold (\<lambda>(t, m). spec_add U L t m) ms hist) (fold (\<lambda>(t, m). LogRing_Add U L t m) ms r)"
  by (induction ms arbitrary: hist r) (auto intro: ring_rel_add)

text \<open>Cutting a text into lines does not depend on how it was split into writes.\<close>

lemma Split_append: "Split c (a @ b) = butlast (Split c a) @ Split c (last (Split c a) @ b)"
proof (induction a)
  case (Cons x a)
  show ?case
  proof (cases "Split c a")
    case Nil
    then show ?thesis using Split_not_Nil by blast
  next
    case (Cons y ys)
    show ?thesis
    proof (cases "ys = []")
      case True
      then show ?thesis using Cons.IH Cons by (cases "Split c (y @ b)") auto
    next
      case False
      then show ?thesis using Cons.IH Cons by (auto split: list.split)
    qed
  qed
qed simp

abbreviation NL :: char where "NL \<equiv> CHR 0x0A"

definition full_lines :: "string \<Rightarrow> string list" where
  "full_lines text = map (\<lambda>l. l @ [NL]) (butlast (Split NL text))"

lemma lineLoop_Split:
  "lineLoop U L now buf ring lines =
    (last (Split NL buf), fold (LogRing_Add U L now) (full_lines buf) ring, lines @ map (TrimSpace U) (full_lines buf))"
proof (induction U L now buf ring lines rule: lineLoop.induct)
  case (1 U L now buf ring lines)
  show ?case
  proof (cases "IndexByte NL buf")
    case None
    moreover from None have "NL \<notin> set buf" by simp
    ultimately show ?thesis
      by (simp add: lineLoop.simps [of U L now buf] full_lines_def Split_no_sep del: IndexByte_None)
  next
    case (Some i)
    have b: "buf = take i buf @ NL # drop (Suc i) buf" "NL \<notin> set (take i buf)" "i < length buf"
      using IndexByte_SomeD [OF Some] by blast+
    have s: "Split NL buf = take i buf # Split NL (drop (Suc i) buf)"
      by (subst b(1)) (rule Split_append_sep [OF b(2)])
    have f: "full_lines buf = take (i + 1) buf # full_lines (drop (Suc i) buf)"
      using s b(3) IndexByte_SomeD [OF Some] by (simp add: full_lines_def take_Suc_conv_app_nth) (metis id_take_nth_drop nth_append_length nth_via_drop append_eq_conv_conj)
    show ?thesis using 1 [OF Some refl] by (simp add: lineLoop.simps [of U L now buf] Some Let_def f) (simp add: s)
  qed
qed
section \<open>The interface of a numbered log\<close>

lemma unat_u64: "n < 2 ^ 64 \<Longrightarrow> unat (word_of_nat n :: u64) = n"
  using take_bit_nat_eq_self [of n "LENGTH(64)"] by (simp only: unsigned_of_nat of_nat_id len_num1 len_bit0 len_of_numeral_defs) simp

lemma filter_upt_ge: "filter (\<lambda>i. m \<le> i) [a..<b] = [max m a..<b]"
  by (induction b) (auto simp: max_def)

lemma drop_index:
  fixes n m N k :: nat
  assumes "m \<le> n"
  shows "n - max m (n - N) - k + max m (n - N) = max m (n - min N k)"
proof (cases "N \<le> k")
  case True
  then show ?thesis using assms by (simp add: max_def min_def) arith
next
  case False
  then have "n - N \<le> n - k" "n - (n - N + k) + (n - N) = n - k" by arith+
  then show ?thesis using False assms by (simp add: max_def min_def)
qed

text \<open>
  What the log stream relies on: \<open>since after k r\<close> gives the last \<open>k\<close> of the entries above \<open>after\<close> among
  the last \<open>N\<close> entries of the log \<open>hist\<close> that \<open>r\<close> stands for, and the entries of a log are numbered from
  one. The numbers are 64 bits wide.
\<close>

locale numbered_log =
  fixes rel :: "'e list \<Rightarrow> 'r \<Rightarrow> bool"
    and since :: "u64 \<Rightarrow> int \<Rightarrow> 'r \<Rightarrow> 'e list"
    and key :: "'e \<Rightarrow> u64"
    and N :: nat
  assumes keys: "rel hist r \<Longrightarrow> i < length hist \<Longrightarrow> key (hist ! i) = word_of_nat (Suc i)"
    and since_window: "rel hist r \<Longrightarrow> since after k r =
      (let new = filter (\<lambda>e. key e > after) (window N hist) in if k > 0 then window (nat k) new else new)"
begin

lemma key_nat:
  assumes "rel hist r" "length hist < 2 ^ 64" "i < length hist"
  shows "unat (key (hist ! i)) = Suc i"
  unfolding keys [OF assms(1,3)] by (rule unat_u64) (rule le_less_trans [OF Suc_leI [OF assms(3)] assms(2)])

lemma above_drop:
  assumes "rel hist r" "length hist < 2 ^ 64" "m \<le> length hist"
  shows "filter (\<lambda>e. key e > word_of_nat m) (window N hist) = drop (max m (length hist - N)) hist"
proof -
  have m: "unat (word_of_nat m :: u64) = m" by (rule unat_u64) (rule le_less_trans [OF assms(3,2)])
  have gt: "key (hist ! i) > word_of_nat m \<longleftrightarrow> m \<le> i" if "i < length hist" for i
    unfolding word_less_nat_alt m key_nat [OF assms(1,2) that] by (rule less_Suc_eq_le)
  have w: "window N hist = map (\<lambda>i. hist ! i) [length hist - N..<length hist]"
    by (simp add: window_def list_eq_iff_nth_eq)
  have "filter (\<lambda>e. key e > word_of_nat m) (window N hist) = map (\<lambda>i. hist ! i) (filter (\<lambda>i. m \<le> i) [length hist - N..<length hist])"
    unfolding w filter_map using gt by (intro arg_cong [of _ _ "map _"] filter_cong) simp_all
  also have "filter (\<lambda>i. m \<le> i) [length hist - N..<length hist] = [max m (length hist - N)..<length hist]"
    by (rule filter_upt_ge)
  finally show ?thesis by (simp add: list_eq_iff_nth_eq)
qed

lemma since_drop:
  assumes "rel hist r" "length hist < 2 ^ 64" "m \<le> length hist" "0 < k"
  shows "since (word_of_nat m) k r = drop (max m (length hist - min N (nat k))) hist"
proof -
  have "since (word_of_nat m) k r = window (nat k) (drop (max m (length hist - N)) hist)"
    using since_window [OF assms(1), of "word_of_nat m" k] above_drop [OF assms(1-3)] assms(4) by (simp add: Let_def)
  also have "\<dots> = drop (max m (length hist - min N (nat k))) hist"
    unfolding window_def drop_drop length_drop drop_index [OF assms(3)] ..
  finally show ?thesis .
qed

lemma last_key:
  assumes "rel hist r" "j < length hist"
  shows "key (last (drop j hist)) = word_of_nat (length hist)"
  using keys [OF assms(1), of "length hist - 1"] assms(2) by (simp add: last_conv_nth)

end

interpretation ring: numbered_log "ring_rel N" EntriesSince leID N
  by unfold_locales (simp_all add: ring_rel_def EntriesSince_window)

section \<open>The log stream\<close>

datatype log_event = Logged gotime string | Polled

fun stream_step :: "unicode_lib \<Rightarrow> 'r url_lib \<Rightarrow> int \<Rightarrow> log_event \<Rightarrow> LogRing \<times> u64 \<times> LogEntry list \<Rightarrow> LogRing \<times> u64 \<times> LogEntry list" where
  "stream_step U L limit (Logged t m) (r, cursor, sent) = (LogRing_Add U L t m r, cursor, sent)"
| "stream_step U L limit Polled (r, cursor, sent) =
    (let (es, cursor') = sendEntries limit r cursor in (r, cursor', sent @ es))"

definition stream_run :: "unicode_lib \<Rightarrow> 'r url_lib \<Rightarrow> int \<Rightarrow> int \<Rightarrow> log_event list \<Rightarrow> LogRing \<times> u64 \<times> LogEntry list" where
  "stream_run U L cap limit evs = fold (stream_step U L limit) evs (NewLogRing cap, 0, [])"

definition spec_log :: "unicode_lib \<Rightarrow> 'r url_lib \<Rightarrow> log_event list \<Rightarrow> LogEntry list" where
  "spec_log U L evs = fold (\<lambda>ev hist. case ev of Logged t m \<Rightarrow> spec_add U L t m hist | Polled \<Rightarrow> hist) evs []"

text \<open>At most \<open>k\<close> messages are logged between two polls.\<close>

fun paced :: "nat \<Rightarrow> nat \<Rightarrow> log_event list \<Rightarrow> bool" where
  "paced k n [] = True"
| "paced k n (Logged t m # evs) = paced k (Suc n) evs"
| "paced k n (Polled # evs) = (n \<le> k \<and> paced k 0 evs)"

lemma spec_log_snoc:
  "spec_log U L (evs @ [ev]) = (case ev of Logged t m \<Rightarrow> spec_add U L t m (spec_log U L evs) | Polled \<Rightarrow> spec_log U L evs)"
  by (simp add: spec_log_def split: log_event.split)

lemma spec_add_length: "length hist \<le> length (spec_add U L t m hist) \<and> length (spec_add U L t m hist) \<le> Suc (length hist)"
  by (simp add: spec_add_def)

text \<open>
  After any events: the ring stands for the log, the cursor is the number of the last entry sent, and
  the entries sent are a part of the log up to the cursor, in its order.
\<close>

definition stream_inv :: "nat \<Rightarrow> LogEntry list \<Rightarrow> LogRing \<times> u64 \<times> LogEntry list \<Rightarrow> bool" where
  "stream_inv N hist st \<longleftrightarrow> (case st of (r, cursor, sent) \<Rightarrow> ring_rel N hist r \<and>
    (\<exists>m js. m \<le> length hist \<and> cursor = word_of_nat m \<and> sent = map (\<lambda>j. hist ! j) js \<and> sorted_wrt (<) js \<and> (\<forall>j\<in>set js. j < m)))"

lemma sorted_upt_append: "sorted_wrt (<) js \<Longrightarrow> \<forall>j\<in>set js. j < a \<Longrightarrow> sorted_wrt (<) (js @ [a..<b])"
  by (auto simp: sorted_wrt_append)

lemma drop_upt: "drop a hist = map (\<lambda>j. hist ! j) [a..<length hist]"
  by (simp add: list_eq_iff_nth_eq)

lemma stream_inv_poll:
  assumes "stream_inv N hist (r, cursor, sent)" "length hist < 2 ^ 64" "0 < limit"
  shows "stream_inv N hist (stream_step U L limit Polled (r, cursor, sent))"
proof -
  from assms(1) obtain m js where rel: "ring_rel N hist r" and m: "m \<le> length hist" "cursor = word_of_nat m"
    and js: "sent = map (\<lambda>j. hist ! j) js" "sorted_wrt (<) js" "\<forall>j\<in>set js. j < m" by (auto simp: stream_inv_def)
  let ?a = "max m (length hist - min N (nat limit))"
  have es: "EntriesSince cursor limit r = drop ?a hist" unfolding m(2) by (rule ring.since_drop [OF rel assms(2) m(1) assms(3)])
  show ?thesis
  proof (cases "?a < length hist")
    case True
    have e: "stream_step U L limit Polled (r, cursor, sent) = (r, word_of_nat (length hist), map (\<lambda>j. hist ! j) (js @ [?a..<length hist]))"
    proof -
      have "drop ?a hist \<noteq> []" using True by (metis drop_eq_Nil leD)
      then show ?thesis
        using ring.last_key [OF rel True] unfolding stream_step.simps sendEntries_def es js(1) by (simp add: Let_def del: drop_eq_Nil) (rule drop_upt)
    qed
    have "sorted_wrt (<) (js @ [?a..<length hist])" "\<forall>j\<in>set (js @ [?a..<length hist]). j < length hist"
      using js(2,3) m(1) by (auto intro!: sorted_upt_append)
    then show ?thesis unfolding e stream_inv_def prod.case using rel by blast
  next
    case False
    then have "drop ?a hist = []" by (metis drop_all not_le)
    then have "stream_step U L limit Polled (r, cursor, sent) = (r, cursor, sent)" by (simp add: sendEntries_def es Let_def)
    then show ?thesis using assms(1) by simp
  qed
qed

lemma stream_inv_add:
  assumes "stream_inv N hist (r, cursor, sent)"
  shows "stream_inv N (spec_add U L t x hist) (stream_step U L limit (Logged t x) (r, cursor, sent))"
proof -
  from assms obtain m js where rel: "ring_rel N hist r" and m: "m \<le> length hist" "cursor = word_of_nat m"
    and js: "sent = map (\<lambda>j. hist ! j) js" "sorted_wrt (<) js" "\<forall>j\<in>set js. j < m" by (auto simp: stream_inv_def)
  let ?h = "spec_add U L t x hist"
  have "hist ! j = ?h ! j" if "j < length hist" for j using that by (simp add: spec_add_def nth_append)
  then have "sent = map (\<lambda>j. ?h ! j) js" using js(1,3) m(1) by auto
  moreover have "m \<le> length ?h" using m(1) spec_add_length [of hist U L t x] by simp
  moreover have "ring_rel N ?h (LogRing_Add U L t x r)" by (rule ring_rel_add [OF rel])
  ultimately show ?thesis unfolding stream_inv_def stream_step.simps prod.case using m(2) js(2,3) by blast
qed
abbreviation capacity :: "int \<Rightarrow> nat" where
  "capacity cap \<equiv> (if cap \<le> 0 then 256 else nat cap)"

lemma spec_log_length_mono: "length (spec_log U L evs) \<le> length (spec_log U L (evs @ [ev]))"
  using spec_add_length [of "spec_log U L evs" U L] by (simp add: spec_log_snoc split: log_event.split)

lemma stream_run_inv:
  "length (spec_log U L evs) < 2 ^ 64 \<Longrightarrow> 0 < limit \<Longrightarrow> stream_inv (capacity cap) (spec_log U L evs) (stream_run U L cap limit evs)"
proof (induction evs rule: rev_induct)
  case Nil
  show ?case
    using ring_rel_new [of cap] by (auto simp: stream_inv_def stream_run_def spec_log_def intro!: exI [of _ 0] exI [of _ "[]"])
next
  case (snoc ev evs)
  obtain r c s where st: "stream_run U L cap limit evs = (r, c, s)" by (cases "stream_run U L cap limit evs") auto
  have l: "length (spec_log U L evs) < 2 ^ 64" by (rule le_less_trans [OF spec_log_length_mono snoc.prems(1)])
  have "stream_run U L cap limit (evs @ [ev]) = stream_step U L limit ev (r, c, s)" using st by (simp add: stream_run_def)
  moreover have "stream_inv (capacity cap) (spec_log U L evs) (r, c, s)" using snoc.IH [OF l snoc.prems(2)] st by simp
  ultimately show ?case
    using stream_inv_poll [OF _ l snoc.prems(2)] stream_inv_add by (cases ev) (simp_all only: spec_log_snoc log_event.case)
qed

text \<open>With paced messages nothing is lost: the entries sent are the log up to the cursor.\<close>

fun unpolled :: "nat \<Rightarrow> log_event list \<Rightarrow> nat" where
  "unpolled n [] = n"
| "unpolled n (Logged t m # evs) = unpolled (Suc n) evs"
| "unpolled n (Polled # evs) = unpolled 0 evs"

lemma unpolled_snoc: "unpolled n (evs @ [ev]) = (case ev of Logged t m \<Rightarrow> Suc (unpolled n evs) | Polled \<Rightarrow> 0)"
  by (induction n evs rule: unpolled.induct) (simp_all split: log_event.split)

lemma paced_snoc: "paced k n (evs @ [ev]) \<longleftrightarrow> paced k n evs \<and> (ev = Polled \<longrightarrow> unpolled n evs \<le> k)"
  by (induction k n evs rule: paced.induct) (cases ev; auto)+

lemma stream_run_lossless:
  assumes "0 < limit"
  shows "length (spec_log U L evs) < 2 ^ 64 \<Longrightarrow> paced (min (capacity cap) (nat limit)) 0 evs \<Longrightarrow>
    \<exists>r m. stream_run U L cap limit evs = (r, word_of_nat m, take m (spec_log U L evs)) \<and>
      ring_rel (capacity cap) (spec_log U L evs) r \<and> m \<le> length (spec_log U L evs) \<and>
      length (spec_log U L evs) \<le> m + unpolled 0 evs"
proof (induction evs rule: rev_induct)
  case Nil
  show ?case using ring_rel_new [of cap] by (auto simp: stream_run_def spec_log_def intro!: exI [of _ 0])
next
  case (snoc ev evs)
  let ?h = "spec_log U L evs" and ?N = "capacity cap"
  have l: "length ?h < 2 ^ 64" by (rule le_less_trans [OF spec_log_length_mono snoc.prems(1)])
  have p: "paced (min ?N (nat limit)) 0 evs" "ev = Polled \<longrightarrow> unpolled 0 evs \<le> min ?N (nat limit)"
    using snoc.prems(2) unfolding paced_snoc by blast+
  from snoc.IH [OF l p(1)] obtain r m where st: "stream_run U L cap limit evs = (r, word_of_nat m, take m ?h)"
    and rel: "ring_rel ?N ?h r" and m: "m \<le> length ?h" "length ?h \<le> m + unpolled 0 evs" by blast
  have run: "stream_run U L cap limit (evs @ [ev]) = stream_step U L limit ev (r, word_of_nat m, take m ?h)"
    using st by (simp add: stream_run_def)
  show ?case
  proof (cases ev)
    case (Logged t x)
    let ?h' = "spec_add U L t x ?h"
    have "take m ?h = take m ?h'" using m(1) by (simp add: spec_add_def)
    moreover have "ring_rel ?N ?h' (LogRing_Add U L t x r)" by (rule ring_rel_add [OF rel])
    moreover have "m \<le> length ?h'" "length ?h' \<le> m + Suc (unpolled 0 evs)" using m spec_add_length [of ?h U L t x] by simp_all
    ultimately show ?thesis using run Logged by (simp add: spec_log_snoc unpolled_snoc) blast
  next
    case Polled
    define K where "K = min ?N (nat limit)"
    have "unpolled 0 evs \<le> K" using p(2) Polled unfolding K_def by blast
    then have "length ?h - K \<le> m" using m(2) by linarith
    then have a: "max m (length ?h - min ?N (nat limit)) = m" unfolding K_def by (rule max_absorb1)
    have es: "EntriesSince (word_of_nat m) limit r = drop m ?h"
      using ring.since_drop [OF rel l m(1) assms] unfolding a .
    have "stream_step U L limit ev (r, word_of_nat m, take m ?h) = (r, word_of_nat (length ?h), ?h)"
      unfolding Polled stream_step.simps sendEntries_def es
      using m(1) ring.last_key [OF rel, of m] by (cases "m = length ?h") (simp_all add: Let_def)
    then show ?thesis using run Polled rel by (auto simp: spec_log_snoc unpolled_snoc)
  qed
qed
text \<open>The messages of a log written through the writer.\<close>

lemma spec_add_messages:
  "map leMessage (spec_add U L t x hist) =
    map leMessage hist @ map (redactConfigValue U L) (filter (\<lambda>l. l \<noteq> []) [TrimSpace U x])"
  by (simp add: spec_add_def log_entry_def)

definition writer_rel :: "unicode_lib \<Rightarrow> 'r url_lib \<Rightarrow> nat \<Rightarrow> string \<Rightarrow> log_writer \<Rightarrow> bool" where
  "writer_rel U L N text w \<longleftrightarrow> lwBuf w = last (Split NL text) \<and> lwOut w = text \<and>
    lwSink w = filter (\<lambda>l. l \<noteq> []) (map (TrimSpace U) (full_lines text)) \<and>
    (\<exists>hist. ring_rel N hist (lwRing w) \<and> map leMessage hist = map (redactConfigValue U L) (lwSink w))"

lemma ring_rel_lines:
  "ring_rel N hist r \<Longrightarrow> \<exists>hist'. ring_rel N hist' (fold (LogRing_Add U L now) ls r) \<and>
    map leMessage hist' = map leMessage hist @ map (redactConfigValue U L) (filter (\<lambda>l. l \<noteq> []) (map (TrimSpace U) ls))"
proof (induction ls arbitrary: hist r)
  case Nil
  then show ?case by auto
next
  case (Cons l ls)
  from Cons.IH [OF ring_rel_add [OF Cons.prems, of U L now l]] show ?case
    by (auto simp: spec_add_messages)
qed

lemma writer_rel_write:
  assumes "writer_rel U L N text w"
  shows "writer_rel U L N (text @ p) (snd (logRingWriter_Write U L now p w))"
proof -
  from assms obtain hist where w: "lwBuf w = last (Split NL text)" "lwOut w = text"
    "lwSink w = filter (\<lambda>l. l \<noteq> []) (map (TrimSpace U) (full_lines text))"
    and h: "ring_rel N hist (lwRing w)" "map leMessage hist = map (redactConfigValue U L) (lwSink w)"
    by (auto simp: writer_rel_def)
  have s: "Split NL (text @ p) = butlast (Split NL text) @ Split NL (lwBuf w @ p)" unfolding w(1) by (rule Split_append)
  have f: "full_lines (text @ p) = full_lines text @ full_lines (lwBuf w @ p)" by (simp add: full_lines_def s butlast_append)
  from ring_rel_lines [OF h(1), of U L now "full_lines (lwBuf w @ p)"] obtain hist' where
    "ring_rel N hist' (fold (LogRing_Add U L now) (full_lines (lwBuf w @ p)) (lwRing w))"
    "map leMessage hist' = map leMessage hist @
       map (redactConfigValue U L) (filter (\<lambda>l. l \<noteq> []) (map (TrimSpace U) (full_lines (lwBuf w @ p))))" by blast
  then show ?thesis
    unfolding writer_rel_def logRingWriter_Write_def lineLoop_Split prod.case Let_def snd_conv
    using s f w(2,3) h(2) by auto
qed

definition ring_after :: "unicode_lib \<Rightarrow> 'r url_lib \<Rightarrow> int \<Rightarrow> (gotime \<times> string) list \<Rightarrow> LogRing" where
  "ring_after U L cap ms = fold (\<lambda>(t, m). LogRing_Add U L t m) ms (NewLogRing cap)"

definition log_after :: "unicode_lib \<Rightarrow> 'r url_lib \<Rightarrow> (gotime \<times> string) list \<Rightarrow> LogEntry list" where
  "log_after U L ms = fold (\<lambda>(t, m). spec_add U L t m) ms []"

definition writer_after :: "unicode_lib \<Rightarrow> 'r url_lib \<Rightarrow> int \<Rightarrow> (gotime \<times> string) list \<Rightarrow> log_writer" where
  "writer_after U L cap ps = fold (\<lambda>(t, p) w. snd (logRingWriter_Write U L t p w)) ps
    \<lparr>lwRing = NewLogRing cap, lwBuf = [], lwOut = [], lwSink = []\<rparr>"

section \<open>Properties\<close>

text \<open>
  The log ring keeps exactly the last entries: after any messages it shows what the unbounded log shows
  of its last \<open>N\<close> entries, oldest first, with numbers from one; \<open>Entries\<close> cuts this to the newest ones,
  and \<open>EntriesSince\<close> to the newest ones above a number.
\<close>

lemma log_ring_refines:
  "LogRing_Entries k (ring_after U L cap ms) = window (if k \<le> 0 then capacity cap else min (nat k) (capacity cap)) (log_after U L ms) \<and>
   EntriesSince after k (ring_after U L cap ms) =
     (let new = filter (\<lambda>e. leID e > after) (window (capacity cap) (log_after U L ms)) in if k > 0 then window (nat k) new else new)"
proof -
  have "ring_rel (capacity cap) (log_after U L ms) (ring_after U L cap ms)"
    unfolding ring_after_def log_after_def by (rule ring_rel_fold [OF ring_rel_new])
  then show ?thesis using Entries_window EntriesSince_window by blast
qed

text \<open>
  C36. The log stream: whatever the interleaving of messages and polls, while fewer than \<open>2 ^ 64\<close> entries are
  logged, every entry sent is an entry of the log, each at most once and in the order of the log; and
  when no more messages come between two polls than the ring and the limit hold, a poll leaves nothing
  unsent.
\<close>

lemma log_stream_exact:
  assumes "length (spec_log U L evs) < 2 ^ 64" "0 < limit" "stream_run U L cap limit evs = (r, cursor, sent)"
  shows "(\<exists>js. sorted_wrt (<) js \<and> (\<forall>j\<in>set js. j < length (spec_log U L evs)) \<and> sent = map (\<lambda>j. spec_log U L evs ! j) js) \<and>
    (\<forall>before. evs = before @ [Polled] \<and> paced (min (capacity cap) (nat limit)) 0 evs \<longrightarrow> sent = spec_log U L evs)"
proof (intro conjI allI impI)
  have "stream_inv (capacity cap) (spec_log U L evs) (r, cursor, sent)"
    using stream_run_inv [OF assms(1,2), of cap] unfolding assms(3) .
  then show "\<exists>js. sorted_wrt (<) js \<and> (\<forall>j\<in>set js. j < length (spec_log U L evs)) \<and> sent = map (\<lambda>j. spec_log U L evs ! j) js"
    unfolding stream_inv_def prod.case using less_le_trans by blast
next
  fix before
  assume e: "evs = before @ [Polled] \<and> paced (min (capacity cap) (nat limit)) 0 evs"
  from stream_run_lossless [OF assms(2,1), of cap] e assms(3) obtain m where
    m: "sent = take m (spec_log U L evs)" "length (spec_log U L evs) \<le> m + unpolled 0 evs" by auto
  then show "sent = spec_log U L evs" using e unpolled_snoc [of 0 before Polled] by simp
qed

text \<open>
  The log writer: however the output of the program is cut into writes, the ring holds the last
  messages of the complete lines written so far, trimmed, without empty ones and redacted; the sink
  got these lines, the underlying writer got all bytes, and the incomplete line waits in the buffer.
\<close>

lemma log_writer_lines:
  "map leMessage (LogRing_Entries 0 (lwRing (writer_after U L cap ps))) =
     window (capacity cap) (map (redactConfigValue U L) (filter (\<lambda>l. l \<noteq> []) (map (TrimSpace U) (full_lines (concat (map snd ps)))))) \<and>
   lwSink (writer_after U L cap ps) = filter (\<lambda>l. l \<noteq> []) (map (TrimSpace U) (full_lines (concat (map snd ps)))) \<and>
   lwOut (writer_after U L cap ps) = concat (map snd ps) \<and>
   lwBuf (writer_after U L cap ps) = last (Split NL (concat (map snd ps)))"
proof -
  have "writer_rel U L (capacity cap) (concat (map snd qs)) (writer_after U L cap qs)" for qs
  proof (induction qs rule: rev_induct)
    case Nil
    have "ring_rel (capacity cap) [] (NewLogRing cap)" by (rule ring_rel_new)
    then show ?case by (auto simp: writer_rel_def writer_after_def full_lines_def intro!: exI [of _ "[]"])
  next
    case (snoc q qs)
    obtain t p where q: "q = (t, p)" by fastforce
    from writer_rel_write [OF snoc.IH, of p t] show ?case by (simp add: q writer_after_def)
  qed
  from this [of ps] obtain hist where w: "writer_rel U L (capacity cap) (concat (map snd ps)) (writer_after U L cap ps)"
    and h: "ring_rel (capacity cap) hist (lwRing (writer_after U L cap ps))" "map leMessage hist = map (redactConfigValue U L) (lwSink (writer_after U L cap ps))"
    unfolding writer_rel_def by blast
  have "map leMessage (LogRing_Entries 0 (lwRing (writer_after U L cap ps))) = window (capacity cap) (map leMessage hist)"
    using Entries_window [OF h(1), of 0] by (simp add: window_map)
  then show ?thesis using w h(2) by (simp add: writer_rel_def)
qed
section \<open>Witnesses\<close>

definition ascii_lib :: unicode_lib where
  "ascii_lib = \<lparr>uc_ToLower = id, uc_ToUpper = id, uc_TrimSpace = id, uc_TrimRightSpace = id\<rparr>"

definition wit_urls :: "unit url_lib" where
  "wit_urls = \<lparr>url_Parse = (\<lambda>_. Inl (Errorf ''invalid URL'')), url_String = (\<lambda>_. [])\<rparr>"

lemma log_stream_exact_witness:
  "snd (snd (stream_run ascii_lib wit_urls 2 3 [Logged 7 ''[a] x'', Logged 8 ''y'', Polled])) =
    [log_entry ascii_lib wit_urls 7 1 ''[a] x'', log_entry ascii_lib wit_urls 8 2 ''y'']"
proof -
  let ?evs = "[Logged 7 ''[a] x'', Logged 8 ''y'', Polled]"
  obtain r c s where run: "stream_run ascii_lib wit_urls 2 3 ?evs = (r, c, s)" by (cases "stream_run ascii_lib wit_urls 2 3 ?evs") auto
  have h: "spec_log ascii_lib wit_urls ?evs = [log_entry ascii_lib wit_urls 7 1 ''[a] x'', log_entry ascii_lib wit_urls 8 2 ''y'']"
    by (simp add: spec_log_def spec_add_def TrimSpace_def asciiSpace_def isAscii_def numeral_2_eq_2)
  then have l: "length (spec_log ascii_lib wit_urls ?evs) < 2 ^ 64" by simp
  have p: "?evs = [Logged 7 ''[a] x'', Logged 8 ''y''] @ [Polled] \<and> paced (min (capacity 2) (nat 3)) 0 ?evs" by simp
  have "s = spec_log ascii_lib wit_urls ?evs" using conjunct2 [OF log_stream_exact [OF l _ run]] p by (metis zero_less_numeral)
  then show ?thesis unfolding run h by simp
qed

end
