(* ===== verification/Go_Http.thy ===== *)
theory Go_Http
  imports Go_Url
begin

text \<open>
  What the program uses of \<open>strings\<close> and \<open>net/http\<close> for HTTP messages: comparison under case folding and
  splitting at white space, whose Unicode tables are a parameter (record \<open>fold_lib\<close>) as in \<open>Go_Net\<close>, and
  headers, which are maps from canonical names to lists of values.
\<close>

section \<open>Model\<close>

record fold_lib =
  fl_EqualFold :: "string \<Rightarrow> string \<Rightarrow> bool"
  fl_Fields :: "string \<Rightarrow> string list"

definition strEqualFold :: "fold_lib \<Rightarrow> string \<Rightarrow> string \<Rightarrow> bool" where
  "strEqualFold F s t =
    (if list_all isAscii s \<and> list_all isAscii t then map lower_char s = map lower_char t else fl_EqualFold F s t)"

text \<open>The words of an ASCII text; \<open>w\<close> is the word read so far.\<close>

fun asciiFields :: "string \<Rightarrow> string \<Rightarrow> string list" where
  "asciiFields w [] = (if w = [] then [] else [w])"
| "asciiFields w (c # cs) =
    (if asciiSpace c then (if w = [] then asciiFields [] cs else w # asciiFields [] cs) else asciiFields (w @ [c]) cs)"

definition Fields :: "fold_lib \<Rightarrow> string \<Rightarrow> string list" where
  "Fields F s = (if list_all isAscii s then asciiFields [] s else fl_Fields F s)"

text \<open>The characters of a header name (RFC 9110 \<open>tchar\<close>), as \<open>validHeaderFieldByte\<close> has them.\<close>

definition tokenChar :: "char \<Rightarrow> bool" where
  "tokenChar c \<longleftrightarrow> isDigit c \<or> isUpper c \<or> isLower c \<or> c \<in> set ''!#$%&*+-.^_|~'' \<or> ord c = 39 \<or> ord c = 96"

fun canonicalLoop :: "bool \<Rightarrow> string \<Rightarrow> string" where
  "canonicalLoop upper [] = []"
| "canonicalLoop upper (c # cs) = (if upper then upper_char c else lower_char c) # canonicalLoop (c = CHR ''-'') cs"

definition CanonicalHeaderKey :: "string \<Rightarrow> string" where
  "CanonicalHeaderKey s = (if list_all tokenChar s then canonicalLoop True s else s)"

type_synonym Header = "string \<Rightarrow> string list"

definition hdr_Values :: "Header \<Rightarrow> string \<Rightarrow> string list" where
  "hdr_Values h key = h (CanonicalHeaderKey key)"

definition hdr_Get :: "Header \<Rightarrow> string \<Rightarrow> string" where
  "hdr_Get h key = (case hdr_Values h key of [] \<Rightarrow> [] | v # _ \<Rightarrow> v)"

definition hdr_Del :: "Header \<Rightarrow> string \<Rightarrow> Header" where
  "hdr_Del h key = h(CanonicalHeaderKey key := [])"

definition hdr_Add :: "Header \<Rightarrow> string \<Rightarrow> string \<Rightarrow> Header" where
  "hdr_Add h key val = h(CanonicalHeaderKey key := h (CanonicalHeaderKey key) @ [val])"

end
