(* ===== verification/Front_Proxy.thy ===== *)
theory Front_Proxy
  imports Go_Http Netaddr
begin

text \<open>
  The configuration of a proxy in front of the WebSocket connection (\<open>internal/app/front_proxy.go\<close>): its
  record and its validation. The headers are a map; an association list stands for it, an empty one
  also for \<open>nil\<close>. Dialling through the proxy is I/O of \<open>net/http\<close> and not modelled.
\<close>

section \<open>Model\<close>

record WebSocketFrontProxyConfig =
  wfEnabled :: bool
  wfType :: string
  wfServer :: string
  wfConnectHost :: string
  wfHeaders :: "(string \<times> string) list"

definition zeroFrontProxy :: WebSocketFrontProxyConfig where
  "zeroFrontProxy = \<lparr>wfEnabled = False, wfType = [], wfServer = [], wfConnectHost = [], wfHeaders = []\<rparr>"

definition webSocketFrontProxyTypeHTTPConnect :: string where
  "webSocketFrontProxyTypeHTTPConnect = ''http_connect''"

definition containsHTTPHeaderLineBreak :: "string \<Rightarrow> bool" where
  "containsHTTPHeaderLineBreak val \<longleftrightarrow> list_ex (\<lambda>c. c = CHR 0x0D \<or> c = CHR 0x0A) val"

definition isHTTPHostHeaderValue :: "string \<Rightarrow> bool" where
  "isHTTPHostHeaderValue val \<longleftrightarrow> val \<noteq> [] \<and> \<not> containsHTTPHeaderLineBreak val \<and>
    list_all (\<lambda>c. \<not> (ord c \<le> 32 \<or> ord c = 127) \<and> c \<noteq> CHR ''/'' \<and> ord c \<noteq> 92) val"

definition isHTTPToken :: "string \<Rightarrow> bool" where
  "isHTTPToken val \<longleftrightarrow> val \<noteq> [] \<and> list_all tokenChar val"

definition validateHTTPConnectHeader :: "unicode_lib \<Rightarrow> fold_lib \<Rightarrow> string \<Rightarrow> string \<Rightarrow> unit result" where
  "validateHTTPConnectHeader U F name val =
    (if TrimSpace U name = [] then Inl (Errorf ''empty header name'')
     else if \<not> isHTTPToken name then Inl (Errorf ''invalid header name'')
     else if strEqualFold F name ''Host'' then Inl (Errorf ''Host in headers'')
     else if containsHTTPHeaderLineBreak val then Inl (Errorf ''CR/LF in header'')
     else Inr ())"

fun validateHeaders :: "unicode_lib \<Rightarrow> fold_lib \<Rightarrow> (string \<times> string) list \<Rightarrow> unit result" where
  "validateHeaders U F [] = Inr ()"
| "validateHeaders U F ((name, val) # hs) = rbind (validateHTTPConnectHeader U F name val) (\<lambda>_. validateHeaders U F hs)"

definition validateWebSocketFrontProxyConfig :: "unicode_lib \<Rightarrow> fold_lib \<Rightarrow> WebSocketFrontProxyConfig \<Rightarrow> unit result" where
  "validateWebSocketFrontProxyConfig U F config =
    (if \<not> wfEnabled config then Inr ()
     else if wfType config \<noteq> webSocketFrontProxyTypeHTTPConnect then Inl (Errorf ''front proxy type'')
     else if TrimSpace U (wfServer config) = [] then Inl (Errorf ''empty front proxy server'')
     else
       rbind (ValidateHostPort U (wfServer config)) (\<lambda>_.
         if wfConnectHost config \<noteq> [] \<and> \<not> isHTTPHostHeaderValue (wfConnectHost config) then Inl (Errorf ''connect_host'')
         else validateHeaders U F (wfHeaders config)))"

section \<open>Lemmas\<close>

definition one_line :: "string \<Rightarrow> bool" where
  "one_line s \<longleftrightarrow> CHR 0x0D \<notin> set s \<and> CHR 0x0A \<notin> set s"

lemma tokenChar_line: "tokenChar c \<Longrightarrow> c \<noteq> CHR 0x0D \<and> c \<noteq> CHR 0x0A"
  by (auto simp: tokenChar_def isDigit_def isUpper_def isLower_def)

lemma header_lines:
  assumes "validateHTTPConnectHeader U F name val = Inr ()"
  shows "one_line name \<and> one_line val"
proof -
  have "isHTTPToken name" "\<not> containsHTTPHeaderLineBreak val"
    using assms by (auto simp: validateHTTPConnectHeader_def split: if_splits)
  then show ?thesis
    using tokenChar_line by (auto simp: one_line_def isHTTPToken_def containsHTTPHeaderLineBreak_def list_all_iff list_ex_iff)
qed

lemma headers_lines: "validateHeaders U F hs = Inr () \<Longrightarrow> \<forall>(name, val)\<in>set hs. one_line name \<and> one_line val"
  by (induction U F hs rule: validateHeaders.induct) (auto simp: rbind_eq_Inr dest: header_lines)

lemma front_proxy_lines:
  assumes "validateWebSocketFrontProxyConfig U F config = Inr ()" "wfEnabled config"
  shows "ValidateHostPort U (wfServer config) = Inr ()" "one_line (wfConnectHost config)"
    "\<forall>(name, val)\<in>set (wfHeaders config). one_line name \<and> one_line val"
proof -
  have v: "ValidateHostPort U (wfServer config) = Inr ()"
    "\<not> (wfConnectHost config \<noteq> [] \<and> \<not> isHTTPHostHeaderValue (wfConnectHost config))" "validateHeaders U F (wfHeaders config) = Inr ()"
    using assms by (auto simp: validateWebSocketFrontProxyConfig_def rbind_eq_Inr split: if_splits)
  show "ValidateHostPort U (wfServer config) = Inr ()" by (rule v(1))
  show "one_line (wfConnectHost config)"
    using v(2) by (cases "wfConnectHost config = []") (auto simp: one_line_def isHTTPHostHeaderValue_def containsHTTPHeaderLineBreak_def list_ex_iff)
  show "\<forall>(name, val)\<in>set (wfHeaders config). one_line name \<and> one_line val" by (rule headers_lines [OF v(3)])
qed

end
