(* ===== verification/Go_Base64.thy ===== *)
theory Go_Base64
  imports Prelude
begin

text \<open>
  The standard base64 encoding of Go's \<open>encoding/base64\<close>, with padding. Decoding skips carriage returns
  and line feeds, wants the padding at the end and ignores the spare bits of the last quantum.
\<close>

definition b64_alphabet :: string where
  "b64_alphabet = ''ABCDEFGHIJKLMNOPQRSTUVWXYZabcdefghijklmnopqrstuvwxyz0123456789+/''"

definition b64_char :: "nat \<Rightarrow> char" where
  "b64_char n = b64_alphabet ! n"

definition b64_value :: "char \<Rightarrow> nat option" where
  "b64_value c =
    (let n = length (takeWhile (\<lambda>d. d \<noteq> c) b64_alphabet) in if n < 64 then Some n else None)"

fun EncodeToString :: "bytes \<Rightarrow> string" where
  "EncodeToString [] = []"
| "EncodeToString [x] = [b64_char (unat x div 4), b64_char (unat x mod 4 * 16), CHR ''='', CHR ''='']"
| "EncodeToString [x, y] =
    [b64_char (unat x div 4), b64_char (unat x mod 4 * 16 + unat y div 16), b64_char (unat y mod 16 * 4), CHR ''='']"
| "EncodeToString (x # y # z # bs) =
    [b64_char (unat x div 4), b64_char (unat x mod 4 * 16 + unat y div 16),
     b64_char (unat y mod 16 * 4 + unat z div 64), b64_char (unat z mod 64)] @ EncodeToString bs"

text \<open>The three bytes of four six-bit values.\<close>

definition b64_first :: "nat \<Rightarrow> nat \<Rightarrow> byte" where
  "b64_first va vb = word_of_nat (va * 4 + vb div 16)"

definition b64_second :: "nat \<Rightarrow> nat \<Rightarrow> byte" where
  "b64_second vb vc = word_of_nat (vb mod 16 * 16 + vc div 4)"

definition b64_third :: "nat \<Rightarrow> nat \<Rightarrow> byte" where
  "b64_third vc vd = word_of_nat (vc mod 4 * 64 + vd)"

fun decode_quanta :: "string \<Rightarrow> bytes option" where
  "decode_quanta [] = Some []"
| "decode_quanta (a # b # c # d # s) =
    (case (b64_value a, b64_value b) of
       (Some va, Some vb) \<Rightarrow>
         if c = CHR ''='' then
           (if d = CHR ''='' \<and> s = [] then Some [b64_first va vb] else None)
         else
           (case b64_value c of
              None \<Rightarrow> None
            | Some vc \<Rightarrow>
                if d = CHR ''='' then
                  (if s = [] then Some [b64_first va vb, b64_second vb vc] else None)
                else
                  (case (b64_value d, decode_quanta s) of
                     (Some vd, Some bs) \<Rightarrow>
                       Some (b64_first va vb # b64_second vb vc # b64_third vc vd # bs)
                   | _ \<Rightarrow> None))
     | _ \<Rightarrow> None)"
| "decode_quanta _ = None"

definition DecodeString :: "string \<Rightarrow> bytes option" where
  "DecodeString s = decode_quanta (filter (\<lambda>c. c \<noteq> CHR 0x0D \<and> c \<noteq> CHR 0x0A) s)"

section \<open>Decoding inverts encoding\<close>

lemma b64_values: "list_all (\<lambda>n. b64_value (b64_char n) = Some n \<and> b64_char n \<noteq> CHR ''='' \<and>
    b64_char n \<noteq> CHR 0x0D \<and> b64_char n \<noteq> CHR 0x0A) [0..<64]"
  by code_simp

lemma b64_char_props [simp]:
  assumes "n < 64"
  shows "b64_value (b64_char n) = Some n" "b64_char n \<noteq> CHR ''=''" "CHR ''='' \<noteq> b64_char n"
    "b64_char n \<noteq> CHR 0x0D" "b64_char n \<noteq> CHR 0x0A"
proof -
  have "n \<in> set [0..<64]" using assms by simp
  then show "b64_value (b64_char n) = Some n" "b64_char n \<noteq> CHR ''=''" "CHR ''='' \<noteq> b64_char n"
    "b64_char n \<noteq> CHR 0x0D" "b64_char n \<noteq> CHR 0x0A"
    using b64_values unfolding list_all_iff by (blast, metis+)
qed

lemma nat_bounds:
  fixes a b :: nat
  assumes "a < 256" "b < 256"
  shows "a div 4 < 64" "a mod 4 * 16 < 64" "a mod 4 * 16 + b div 16 < 64" "a mod 16 * 4 < 64" "a mod 16 * 4 + b div 64 < 64" "a mod 64 < 64"
proof -
  have m: "a mod 4 < 4" "a mod 16 < 16" and d: "b div 16 < 16" "b div 64 < 4"
    using assms by (simp_all add: less_mult_imp_div_less)
  show "a div 4 < 64" using assms by (simp add: less_mult_imp_div_less)
  show "a mod 4 * 16 < 64" "a mod 4 * 16 + b div 16 < 64" "a mod 16 * 4 < 64" "a mod 16 * 4 + b div 64 < 64"
    using m d by linarith+
qed simp

lemma nat_regroup:
  fixes a b c :: nat
  assumes "a < 256" "b < 256" "c < 256"
  shows "a div 4 * 4 + (a mod 4 * 16 + b div 16) div 16 = a" "a div 4 * 4 + a mod 4 * 16 div 16 = a"
    "(a mod 4 * 16 + b div 16) mod 16 * 16 + (b mod 16 * 4 + c div 64) div 4 = b"
    "(a mod 4 * 16 + b div 16) mod 16 * 16 + b mod 16 * 4 div 4 = b"
    "(b mod 16 * 4 + c div 64) mod 4 * 64 + c mod 64 = c"
proof -
  have d: "b div 16 < 16" "c div 64 < 4" using assms by (simp_all add: less_mult_imp_div_less)
  have k: "(k * 16 + b div 16) div 16 = k" "(k * 16 + b div 16) mod 16 = b div 16"
    "(k * 4 + c div 64) div 4 = k" "(k * 4 + c div 64) mod 4 = c div 64" for k
    using d by simp_all
  show "a div 4 * 4 + (a mod 4 * 16 + b div 16) div 16 = a" "a div 4 * 4 + a mod 4 * 16 div 16 = a"
    "(a mod 4 * 16 + b div 16) mod 16 * 16 + (b mod 16 * 4 + c div 64) div 4 = b"
    "(a mod 4 * 16 + b div 16) mod 16 * 16 + b mod 16 * 4 div 4 = b"
    "(b mod 16 * 4 + c div 64) mod 4 * 64 + c mod 64 = c"
    unfolding k by simp_all
qed

lemmas byte_bounds [simp] = nat_bounds [OF unat_byte_less unat_byte_less]

lemmas byte_regroup [simp] = nat_regroup [OF unat_byte_less unat_byte_less unat_byte_less]

lemma word_unat_roundtrip: "word_of_nat (unat x) = (x :: byte)"
  by simp

lemma b64_bytes [simp]:
  "b64_first (unat x div 4) (unat x mod 4 * 16 + unat (y :: byte) div 16) = x"
  "b64_first (unat x div 4) (unat x mod 4 * 16) = x"
  "b64_second (unat (x :: byte) mod 4 * 16 + unat y div 16) (unat y mod 16 * 4 + unat (z :: byte) div 64) = y"
  "b64_second (unat (x :: byte) mod 4 * 16 + unat y div 16) (unat y mod 16 * 4) = y"
  "b64_third (unat (y :: byte) mod 16 * 4 + unat z div 64) (unat z mod 64) = z"
  unfolding b64_first_def b64_second_def b64_third_def byte_regroup by (rule word_unat_roundtrip)+

lemma decode_quanta_encode: "decode_quanta (EncodeToString b) = Some b"
  by (induction b rule: EncodeToString.induct) simp_all

lemma encode_no_newline: "c \<in> set (EncodeToString b) \<Longrightarrow> c \<noteq> CHR 0x0D \<and> c \<noteq> CHR 0x0A"
  by (induction b rule: EncodeToString.induct) auto

lemma base64_roundtrip: "DecodeString (EncodeToString b) = Some b"
proof -
  have "filter (\<lambda>c. c \<noteq> CHR 0x0D \<and> c \<noteq> CHR 0x0A) (EncodeToString b) = EncodeToString b"
    using encode_no_newline by (intro filter_True) blast
  then show ?thesis by (simp add: DecodeString_def decode_quanta_encode)
qed

lemma encode_empty: "EncodeToString b = [] \<longleftrightarrow> b = []"
  by (cases b rule: EncodeToString.cases) auto

end
