(* ===== verification/Local_Http.thy ===== *)
theory Local_Http
  imports Go_Http Go_Base64 Stream_Open
begin

text \<open>
  The local HTTP proxy (\<open>internal/app/local_http.go\<close>, and \<open>handleDirectHTTP\<close> of \<open>route.go\<close>). Reading and
  writing HTTP messages is \<open>net/http\<close>'s: the request that \<open>http.ReadRequest\<close> returned is an argument,
  what the buffered reader holds behind the head is explicit, and record \<open>http_lib\<close> says how a request
  is written.
\<close>

section \<open>Model\<close>

record 'r http_request =
  rqMethod :: string
  rqURL :: "'r URL option"
  rqHost :: string
  rqHeader :: Header
  rqClose :: bool
  rqRequestURI :: string

text \<open>
  \<open>hl_head\<close>: the request line and header that \<open>Request.Write\<close> writes; \<open>hl_body\<close>: what the body of a request
  yields from the unread bytes of its connection, with what is left, or an error.
\<close>

record 'r http_lib =
  hl_head :: "'r http_request \<Rightarrow> bytes"
  hl_body :: "'r http_request \<Rightarrow> bytes \<Rightarrow> (bytes \<times> bytes) result"

definition validHTTPProxyBasicAuth :: "fold_lib \<Rightarrow> string \<Rightarrow> string \<Rightarrow> string \<Rightarrow> bool" where
  "validHTTPProxyBasicAuth F auth username password =
    (case Fields F auth of
       [scheme, encoded] \<Rightarrow>
         strEqualFold F scheme ''Basic'' \<and>
         (case DecodeString encoded of
            None \<Rightarrow> False
          | Some decoded \<Rightarrow> decoded = bytes_of (username @ '':'' @ password))
     | _ \<Rightarrow> False)"

definition httpHopByHopHeaders :: "string list" where
  "httpHopByHopHeaders = [''Connection'', ''Keep-Alive'', ''Proxy-Authenticate'', ''Proxy-Authorization'', ''Proxy-Connection'',
     ''TE'', ''Trailer'', ''Transfer-Encoding'', ''Upgrade'']"

definition isHTTPUpgradeRequest :: "unicode_lib \<Rightarrow> fold_lib \<Rightarrow> Header \<Rightarrow> bool" where
  "isHTTPUpgradeRequest U F h \<longleftrightarrow> hdr_Get h ''Upgrade'' \<noteq> [] \<or>
    list_ex (\<lambda>connection. list_ex (\<lambda>token. strEqualFold F (TrimSpace U token) ''upgrade'') (Split (CHR '','') connection))
      (hdr_Values h ''Connection'')"

definition httpProxyViaValue :: string where "httpProxyViaValue = ''1.1 x-tunnel''"

text \<open>The names the \<open>Connection\<close> values list, deleted in order; the values are read before the loop.\<close>

definition connectionTokens :: "unicode_lib \<Rightarrow> Header \<Rightarrow> string list" where
  "connectionTokens U h =
    filter (\<lambda>token. token \<noteq> []) (map (TrimSpace U) (concat (map (Split (CHR '','')) (hdr_Values h ''Connection''))))"

definition stripHTTPProxyHeaders :: "unicode_lib \<Rightarrow> Header \<Rightarrow> Header" where
  "stripHTTPProxyHeaders U h = foldl hdr_Del (foldl hdr_Del h (connectionTokens U h)) httpHopByHopHeaders"

definition addHTTPProxyViaHeader :: "Header \<Rightarrow> Header" where
  "addHTTPProxyViaHeader h = hdr_Add h ''Via'' httpProxyViaValue"

definition sanitizeHTTPProxyRequest :: "unicode_lib \<Rightarrow> 'r http_request \<Rightarrow> 'r http_request" where
  "sanitizeHTTPProxyRequest U req = req\<lparr>rqHeader := stripHTTPProxyHeaders U (rqHeader req), rqClose := False\<rparr>"

definition httpHostOfTarget :: "string \<Rightarrow> string" where
  "httpHostOfTarget target =
    (case SplitHostPort target of
       Inl _ \<Rightarrow> rev (dropWhile (\<lambda>c. c \<in> set ''[]'') (rev (dropWhile (\<lambda>c. c \<in> set ''[]'') target)))
     | Inr (host, _) \<Rightarrow> host)"

definition normalizeHTTPProxyAuthority :: "unicode_lib \<Rightarrow> string \<Rightarrow> string \<Rightarrow> string result" where
  "normalizeHTTPProxyAuthority U authority0 defaultPort =
    (let authority = TrimSpace U authority0 in
     if authority = [] then Inl (Errorf ''empty proxy target'')
     else if list_ex (\<lambda>c. c \<in> {CHR '' '', CHR 0x09, CHR 0x0D, CHR 0x0A}) authority then Inl (Errorf ''illegal characters'')
     else
       (case SplitHostPort authority of
          Inr (host, port) \<Rightarrow>
            if TrimSpace U host = [] then Inl (Errorf ''empty host'')
            else
              rbind (ValidateHostnameOrIP U host) (\<lambda>_.
                case Atoi port of
                  None \<Rightarrow> Inl (Errorf ''port out of range'')
                | Some p \<Rightarrow> if p \<le> 0 \<or> p > 65535 then Inl (Errorf ''port out of range'') else Inr (JoinHostPort host port))
        | Inl _ \<Rightarrow>
            if HasPrefix authority ''['' then
              (if \<not> HasSuffix authority '']'' then Inl (Errorf ''IPv6 address'')
               else
                 (let host = TrimSuffix (TrimPrefix authority ''['') '']'' in
                  if ParseIP host = None then Inl (Errorf ''IPv6 address'') else Inr (JoinHostPort host defaultPort)))
            else if CHR '':'' \<in> set authority then Inl (Errorf ''invalid proxy target'')
            else rbind (ValidateHostnameOrIP U authority) (\<lambda>_. Inr (JoinHostPort authority defaultPort))))"

definition httpProxyTarget :: "unicode_lib \<Rightarrow> fold_lib \<Rightarrow> 'r http_request \<Rightarrow> string result" where
  "httpProxyTarget U F req =
    (let defaultPort = (if rqMethod req = ''CONNECT'' then ''443'' else ''80'');
         target = TrimSpace U (rqHost req)
     in case (if rqMethod req \<noteq> ''CONNECT'' then rqURL req else None) of
          Some u \<Rightarrow>
            if urlScheme u = [] then normalizeHTTPProxyAuthority U target defaultPort
            else if \<not> strEqualFold F (urlScheme u) ''http'' then Inl (Errorf ''unsupported scheme'')
            else if urlUser u \<noteq> None then Inl (Errorf ''userinfo in proxy target'')
            else
              (let target = TrimSpace U (urlHost u) in
               if rqHost req \<noteq> [] then
                 rbind (normalizeHTTPProxyAuthority U (rqHost req) defaultPort) (\<lambda>hostTarget.
                 rbind (normalizeHTTPProxyAuthority U target defaultPort) (\<lambda>urlTarget.
                   if \<not> strEqualFold F hostTarget urlTarget then Inl (Errorf ''Host differs from proxy target'') else Inr urlTarget))
               else normalizeHTTPProxyAuthority U target defaultPort)
        | None \<Rightarrow> normalizeHTTPProxyAuthority U target defaultPort)"

text \<open>The connection's buffered reader behind the head: bytes in the buffer, bytes still to come.\<close>

record http_conn =
  brBuffered :: bytes
  brUnread :: bytes

definition readBufferedHTTPBytes :: "http_conn \<Rightarrow> bytes \<times> http_conn" where
  "readBufferedHTTPBytes br = (brBuffered br, br\<lparr>brBuffered := []\<rparr>)"

abbreviation CRLF :: string where "CRLF \<equiv> [CHR 0x0D, CHR 0x0A]"

definition httpResponse :: "string \<Rightarrow> string list \<Rightarrow> string" where
  "httpResponse status headers = ''HTTP/1.1 '' @ status @ CRLF @ concat (map (\<lambda>h. h @ CRLF) headers) @ CRLF"

definition authRequired :: string where
  "authRequired = httpResponse ''407 Proxy Authentication Required''
    [''Proxy-Authenticate: Basic realm='' @ [CHR 0x22, CHR 0xE4, CHR 0xBB, CHR 0xA3, CHR 0xE7, CHR 0x90, CHR 0x86, CHR 0x22],
     ''Content-Length: 0'']"

definition writeHTTPProxyResponse :: "'w io_writer \<Rightarrow> 'w \<Rightarrow> string \<Rightarrow> go_error option \<times> 'w" where
  "writeHTTPProxyResponse W w response = writeAll W w (bytes_of response)"

definition statusText :: "nat \<Rightarrow> string" where
  "statusText code = (if code = 403 then ''Forbidden'' else ''Bad Gateway'')"

text \<open>
  How a request ends: closed, or relayed to an upstream in the state \<open>v\<close> its writer has reached, with the
  client's bytes that are still unread.
\<close>

datatype 'v http_end = HttpClosed | HttpRelay string 'v http_conn

definition forwardRequest ::
  "'r http_lib \<Rightarrow> 'w io_writer \<Rightarrow> 'v io_writer \<Rightarrow> string \<Rightarrow> 'r http_request \<Rightarrow> bytes \<Rightarrow> http_conn \<Rightarrow> 'w \<Rightarrow> 'v \<Rightarrow> 'v http_end \<times> 'w" where
  "forwardRequest H W V target req buffered br w v =
    (if rqMethod req = ''CONNECT'' then
       (case writeHTTPProxyResponse W w (httpResponse ''200 Connection Established'' []) of
          (Some _, w) \<Rightarrow> (HttpClosed, w)
        | (None, w) \<Rightarrow>
            (case (if buffered \<noteq> [] then writeAll V v buffered else (None, v)) of
               (Some _, v) \<Rightarrow> (HttpClosed, w)
             | (None, v) \<Rightarrow> (HttpRelay target v br, w)))
     else
       (case hl_body H req (brBuffered br @ brUnread br) of
          Inl _ \<Rightarrow> (HttpClosed, w)
        | Inr (body, unread) \<Rightarrow>
            (case writeAll V v (hl_head H req @ body) of
               (Some _, v) \<Rightarrow> (HttpClosed, w)
             | (None, v) \<Rightarrow> (HttpRelay target v \<lparr>brBuffered = [], brUnread = unread\<rparr>, w))))"

definition handleDirectHTTP ::
  "'r http_lib \<Rightarrow> 'w io_writer \<Rightarrow> 'v io_writer \<Rightarrow> (string \<Rightarrow> 'v result) \<Rightarrow> string \<Rightarrow> 'r http_request \<Rightarrow> bytes \<Rightarrow> http_conn \<Rightarrow> 'w \<Rightarrow>
   'v http_end \<times> 'w" where
  "handleDirectHTTP H W V dialed target req buffered br w =
    (case dialed target of
       Inl _ \<Rightarrow> (HttpClosed, snd (writeHTTPProxyResponse W w (httpResponse ''502 Bad Gateway'' [''Content-Length: 0''])))
     | Inr upstream \<Rightarrow> forwardRequest H W V target req buffered br w upstream)"

text \<open>
  \<open>handleHTTP\<close> in two parts: the checks and the rewriting of the request, which end in a response to the
  client or in a target; then routing and forwarding.
\<close>

definition prepareHTTP :: "unicode_lib \<Rightarrow> fold_lib \<Rightarrow> ProxyConfig \<Rightarrow> 'r http_request \<Rightarrow> string + (string \<times> 'r http_request)" where
  "prepareHTTP U F cfgp req =
    (if pcUsername cfgp \<noteq> [] \<and>
        \<not> validHTTPProxyBasicAuth F (hdr_Get (rqHeader req) ''Proxy-Authorization'') (pcUsername cfgp) (pcPassword cfgp)
     then Inl authRequired
     else
       (let upgradeRequest = isHTTPUpgradeRequest U F (rqHeader req);
            req = (if upgradeRequest
                   then req\<lparr>rqHeader := hdr_Del (hdr_Del (rqHeader req) ''Proxy-Authorization'') ''Proxy-Connection'', rqClose := False\<rparr>
                   else sanitizeHTTPProxyRequest U req)
        in case httpProxyTarget U F req of
             Inl _ \<Rightarrow> Inl (httpResponse ''400 Bad Request'' [''Content-Length: 0''])
           | Inr target \<Rightarrow>
               Inr (target,
                 if rqMethod req \<noteq> ''CONNECT''
                 then (let req = (if \<not> upgradeRequest then req\<lparr>rqHeader := addHTTPProxyViaHeader (rqHeader req)\<rparr> else req)
                       in req\<lparr>rqRequestURI := [], rqURL := map_option (\<lambda>u. u\<lparr>urlScheme := [], urlHost := []\<rparr>) (rqURL req)\<rparr>)
                 else req)))"

definition dispatchHTTP ::
  "unicode_lib \<Rightarrow> 'r http_lib \<Rightarrow> 'w io_writer \<Rightarrow> 'v io_writer \<Rightarrow> (string \<Rightarrow> 'v result) \<Rightarrow> (string \<Rightarrow> open_error + 'v) \<Rightarrow>
   gotime \<Rightarrow> routeRuntime \<Rightarrow> string \<Rightarrow> 'r http_request \<Rightarrow> http_conn \<Rightarrow> 'w \<Rightarrow> 'v http_end \<times> 'w \<times> routeRuntime" where
  "dispatchHTTP U H W V dialed opened now rt target req br w =
    (let (buffered, br) = readBufferedHTTPBytes br;
         (routeHost, routeIP) = resolveHostForRoute rt now (httpHostOfTarget target);
         (action, rt) = decideForTarget U rt routeHost routeIP
     in case action of
          RouteDirect \<Rightarrow> (case handleDirectHTTP H W V dialed target req buffered br w of (e, w) \<Rightarrow> (e, w, rt))
        | RouteReject \<Rightarrow>
            (HttpClosed, snd (writeHTTPProxyResponse W w (httpResponse ''403 Forbidden'' [''Content-Length: 0''])), rt)
        | RouteProxy \<Rightarrow>
            (case opened target of
               Inl e \<Rightarrow>
                 (HttpClosed, snd (writeHTTPProxyResponse W w
                    (httpResponse (Itoa (int (httpStatusForOpenError e)) @ '' '' @ statusText (httpStatusForOpenError e))
                       [''Content-Length: 0''])), rt)
             | Inr stream \<Rightarrow> (case forwardRequest H W V target req buffered br w stream of (e, w) \<Rightarrow> (e, w, rt))))"

definition handleHTTP ::
  "unicode_lib \<Rightarrow> fold_lib \<Rightarrow> 'r http_lib \<Rightarrow> 'w io_writer \<Rightarrow> 'v io_writer \<Rightarrow> ProxyConfig \<Rightarrow> (string \<Rightarrow> 'v result) \<Rightarrow>
   (string \<Rightarrow> open_error + 'v) \<Rightarrow> gotime \<Rightarrow> routeRuntime \<Rightarrow> 'r http_request result \<Rightarrow> http_conn \<Rightarrow> 'w \<Rightarrow>
   'v http_end \<times> 'w \<times> routeRuntime" where
  "handleHTTP U F H W V cfgp dialed opened now rt parsed br w =
    (case parsed of
       Inl _ \<Rightarrow> (HttpClosed, w, rt)
     | Inr req \<Rightarrow>
         (case prepareHTTP U F cfgp req of
            Inl response \<Rightarrow> (HttpClosed, snd (writeHTTPProxyResponse W w response), rt)
          | Inr (target, req) \<Rightarrow> dispatchHTTP U H W V dialed opened now rt target req br w))"

section \<open>Lemmas\<close>

text \<open>A target the proxy may dial: a valid host and a port.\<close>

definition http_target_ok :: "unicode_lib \<Rightarrow> string \<Rightarrow> bool" where
  "http_target_ok U t \<longleftrightarrow> (\<exists>host port p. t = JoinHostPort host port \<and> ValidateHostnameOrIP U host = Inr () \<and>
    Atoi port = Some p \<and> 1 \<le> p \<and> p \<le> 65535)"

lemma default_ports: "Atoi ''443'' = Some 443" "Atoi ''80'' = Some 80"
  by code_simp+

lemma ParseIP_valid: "ParseIP host \<noteq> None \<Longrightarrow> ValidateHostnameOrIP U host = Inr ()"
  by (simp add: ValidateHostnameOrIP_def)

lemma authority_cases:
  assumes "normalizeHTTPProxyAuthority U a port = Inr t"
  obtains (full) host q p where "t = JoinHostPort host q" "ValidateHostnameOrIP U host = Inr ()" "Atoi q = Some p" "1 \<le> p" "p \<le> 65535"
    | (default) host where "t = JoinHostPort host port" "ValidateHostnameOrIP U host = Inr ()"
proof -
  note g = assms [unfolded normalizeHTTPProxyAuthority_def Let_def]
  show thesis
  proof (cases "SplitHostPort (TrimSpace U a)")
    case (Inr hp)
    obtain host q where hp: "hp = (host, q)" by fastforce
    show thesis using g Inr hp full by (auto simp: rbind_eq_Inr split: if_splits option.splits)
  next
    case (Inl e)
    show thesis
    proof (cases "HasPrefix (TrimSpace U a) ''[''")
      case True
      show thesis using g Inl True default ParseIP_valid by (auto split: if_splits)
    next
      case False
      show thesis using g Inl False default by (auto simp: rbind_eq_Inr split: if_splits)
    qed
  qed
qed

lemma authority_ok:
  assumes "normalizeHTTPProxyAuthority U a port = Inr t" "port = ''443'' \<or> port = ''80''"
  shows "http_target_ok U t"
  using assms(1)
proof (cases rule: authority_cases)
  case full
  then show ?thesis unfolding http_target_ok_def by blast
next
  case (default host)
  moreover have "\<exists>p. Atoi port = Some p \<and> 1 \<le> p \<and> p \<le> 65535" using assms(2) default_ports by auto
  ultimately show ?thesis unfolding http_target_ok_def by blast
qed

lemma httpProxyTarget_ok:
  assumes "httpProxyTarget U F req = Inr t"
  shows "http_target_ok U t"
  using assms authority_ok [of U _ _ t] unfolding httpProxyTarget_def
  by (auto simp: Let_def rbind_eq_Inr split: if_splits option.splits)

lemma foldl_Del: "foldl hdr_Del h ks = (\<lambda>k. if k \<in> CanonicalHeaderKey ` set ks then [] else h k)"
  by (induction ks rule: rev_induct) (auto simp: hdr_Del_def)

text \<open>Base64 text is one field.\<close>

lemma asciiFields_word: "list_all (Not \<circ> asciiSpace) s \<Longrightarrow> asciiFields w s = (if w @ s = [] then [] else [w @ s])"
  by (induction s arbitrary: w) auto

lemma b64_char_ascii:
  assumes "n < 64"
  shows "isAscii (b64_char n)" "\<not> asciiSpace (b64_char n)"
proof -
  have "list_all (\<lambda>c. isAscii c \<and> \<not> asciiSpace c) b64_alphabet"
    by (simp add: b64_alphabet_def isAscii_def asciiSpace_def)
  moreover have "b64_char n \<in> set b64_alphabet" unfolding b64_char_def by (rule nth_mem) (use assms in \<open>simp add: b64_alphabet_def\<close>)
  ultimately show "isAscii (b64_char n)" "\<not> asciiSpace (b64_char n)" unfolding list_all_iff by blast+
qed

lemma pad_plain: "isAscii (CHR ''='')" "\<not> asciiSpace (CHR ''='')"
  by (simp_all add: isAscii_def asciiSpace_def)

lemma encode_plain: "c \<in> set (EncodeToString b) \<Longrightarrow> isAscii c \<and> \<not> asciiSpace c"
  by (induction b rule: EncodeToString.induct) (auto simp: b64_char_ascii pad_plain)
lemma lower_basic: "strEqualFold F ''Basic'' ''Basic''"
  by (simp add: strEqualFold_def isAscii_def)

lemma Fields_basic:
  assumes "s \<noteq> []" "\<forall>c\<in>set s. isAscii c \<and> \<not> asciiSpace c"
  shows "Fields F (''Basic '' @ s) = [''Basic'', s]"
proof -
  have "asciiFields [] s = [s]" using assms asciiFields_word [of s "[]"] by (simp add: list_all_iff)
  then show ?thesis using assms(2) by (simp add: Fields_def isAscii_def asciiSpace_def list_all_iff)
qed

text \<open>After its head a request that is not a CONNECT goes on without the buffered bytes.\<close>

lemma forward_unbuffered:
  "rqMethod req \<noteq> ''CONNECT'' \<Longrightarrow> forwardRequest H W V target req b br w v = forwardRequest H W V target req b' br w v"
  by (simp add: forwardRequest_def)

lemma method_kept:
  "rqMethod (req\<lparr>rqHeader := h, rqClose := c\<rparr>) = rqMethod req"
  "rqMethod (sanitizeHTTPProxyRequest U req) = rqMethod req"
  by (simp_all add: sanitizeHTTPProxyRequest_def)

lemma prepareHTTP_ok:
  assumes "prepareHTTP U F cfgp req = Inr (target, req')"
  shows "http_target_ok U target" "rqMethod req' = rqMethod req"
    "pcUsername cfgp \<noteq> [] \<longrightarrow>
     validHTTPProxyBasicAuth F (hdr_Get (rqHeader req) ''Proxy-Authorization'') (pcUsername cfgp) (pcPassword cfgp)"
proof -
  show "http_target_ok U target"
    using assms httpProxyTarget_ok [of U F _ target] by (auto simp: prepareHTTP_def Let_def split: if_splits sum.splits)
  show "rqMethod req' = rqMethod req"
    using assms by (auto simp: prepareHTTP_def Let_def method_kept split: if_splits sum.splits)
  show "pcUsername cfgp \<noteq> [] \<longrightarrow>
      validHTTPProxyBasicAuth F (hdr_Get (rqHeader req) ''Proxy-Authorization'') (pcUsername cfgp) (pcPassword cfgp)"
    using assms by (auto simp: prepareHTTP_def split: if_splits)
qed

section \<open>Properties\<close>

text \<open>
  C22. The HTTP proxy dials nothing but valid targets of authenticated clients: on any request and over any
  writers, its behaviour is the same for any two dialers and stream openers that agree on targets
  with a valid host and port, and for all of them when credentials are configured and the request does
  not carry them.
\<close>

lemma http_dial_checked:
  assumes "\<forall>target. http_target_ok U target \<and>
      (pcUsername cfgp \<noteq> [] \<longrightarrow> (\<exists>req. parsed = Inr req \<and>
         validHTTPProxyBasicAuth F (hdr_Get (rqHeader req) ''Proxy-Authorization'') (pcUsername cfgp) (pcPassword cfgp))) \<longrightarrow>
      dialed target = dialed' target \<and> opened target = opened' target"
  shows "handleHTTP U F H W V cfgp dialed opened now rt parsed br w = handleHTTP U F H W V cfgp dialed' opened' now rt parsed br w"
proof (cases parsed)
  case (Inr req)
  show ?thesis
  proof (cases "prepareHTTP U F cfgp req")
    case (Inr tr)
    obtain target req' where tr: "tr = (target, req')" by fastforce
    have "dialed target = dialed' target \<and> opened target = opened' target"
      using assms prepareHTTP_ok [OF Inr [unfolded tr]] \<open>parsed = Inr req\<close> by blast
    then show ?thesis
      using Inr tr \<open>parsed = Inr req\<close> by (simp add: handleHTTP_def dispatchHTTP_def handleDirectHTTP_def split: prod.split routeAction.split)
  qed (simp add: handleHTTP_def Inr)
qed (simp add: handleHTTP_def)

text \<open>
  Basic authentication is exact: the header a client sends for a user and password is accepted exactly
  when the joined credentials are the configured ones.
\<close>

lemma basic_auth_exact:
  "validHTTPProxyBasicAuth F (''Basic '' @ EncodeToString (bytes_of (user @ '':'' @ pass))) username password \<longleftrightarrow>
   user @ '':'' @ pass = username @ '':'' @ password"
proof -
  have "EncodeToString (bytes_of (user @ '':'' @ pass)) \<noteq> []" unfolding encode_empty by simp
  then have "Fields F (''Basic '' @ EncodeToString (bytes_of (user @ '':'' @ pass))) =
      [''Basic'', EncodeToString (bytes_of (user @ '':'' @ pass))]"
    using encode_plain by (intro Fields_basic) blast+
  then show ?thesis unfolding validHTTPProxyBasicAuth_def by (simp only: list.case lower_basic base64_roundtrip option.case bytes_of_inject simp_thms)
qed

text \<open>
  Hop-by-hop headers stop at the proxy: from a request that is no upgrade exactly the hop-by-hop fields
  and the fields that its \<open>Connection\<close> values name are removed; every other field is forwarded as it is,
  with the proxy's own \<open>Via\<close> value added.
\<close>

lemma hop_by_hop_removed:
  "addHTTPProxyViaHeader (rqHeader (sanitizeHTTPProxyRequest U req)) k =
    (if k \<in> CanonicalHeaderKey ` (set (connectionTokens U (rqHeader req)) \<union> set httpHopByHopHeaders) then [] else rqHeader req k) @
    (if k = ''Via'' then [httpProxyViaValue] else [])"
proof -
  have "CanonicalHeaderKey ''Via'' = ''Via''" by code_simp
  then show ?thesis
    by (auto simp: addHTTPProxyViaHeader_def hdr_Add_def sanitizeHTTPProxyRequest_def stripHTTPProxyHeaders_def foldl_Del)
qed

text \<open>
  The body of a request is cut: whatever bytes of the body arrived together with the head, so that they
  stand in the reader's buffer, a request that is not a CONNECT is handled as if they had never been
  sent. They are read out of the buffer and dropped, and the body goes on with the bytes behind them.
\<close>

lemma http_body_dropped:
  assumes "parsed = Inr req" "rqMethod req \<noteq> ''CONNECT''"
  shows "handleHTTP U F H W V cfgp dialed opened now rt parsed \<lparr>brBuffered = early, brUnread = late\<rparr> w =
    handleHTTP U F H W V cfgp dialed opened now rt parsed \<lparr>brBuffered = [], brUnread = late\<rparr> w"
proof -
  have "dispatchHTTP U H W V dialed opened now rt target req' \<lparr>brBuffered = early, brUnread = late\<rparr> w =
      dispatchHTTP U H W V dialed opened now rt target req' \<lparr>brBuffered = [], brUnread = late\<rparr> w"
    if "prepareHTTP U F cfgp req = Inr (target, req')" for target req'
    using prepareHTTP_ok(2) [OF that] assms(2)
      forward_unbuffered [of req' H W V target early _ w _ "[]"]
    by (simp add: dispatchHTTP_def handleDirectHTTP_def readBufferedHTTPBytes_def split: prod.split routeAction.split sum.split)
  then show ?thesis using assms(1) by (simp add: handleHTTP_def split: sum.split)
qed
section \<open>Witnesses\<close>

definition wit_folds :: fold_lib where
  "wit_folds = \<lparr>fl_EqualFold = (=), fl_Fields = (\<lambda>s. [s])\<rparr>"

definition wit_http :: "unit http_lib" where
  "wit_http = \<lparr>hl_head = (\<lambda>_. []), hl_body = (\<lambda>_ bs. if length bs < 2 then Inl ErrUnexpectedEOF else Inr (take 2 bs, drop 2 bs))\<rparr>"

definition wit_post :: "unit http_request" where
  "wit_post = \<lparr>rqMethod = ''POST'', rqURL = None, rqHost = ''ab.io'', rqHeader = (\<lambda>_. []), rqClose = False, rqRequestURI = ''/''\<rparr>"

definition wit_conf :: ProxyConfig where
  "wit_conf = \<lparr>pcUsername = [], pcPassword = [], pcHost = ''127.0.0.1:50''\<rparr>"

definition no_routes :: routeRuntime where
  "no_routes = \<lparr>rtEngine = None, dnsMap = Map.empty\<rparr>"

lemma http_dial_checked_witness:
  "handleHTTP wit_lib wit_folds wit_http buffer_writer buffer_writer wit_conf (\<lambda>_. Inr []) (\<lambda>_. Inl (LocalError EOF)) 0 no_routes
     (Inr wit_post) \<lparr>brBuffered = [], brUnread = [1, 2]\<rparr> [] =
   handleHTTP wit_lib wit_folds wit_http buffer_writer buffer_writer wit_conf (\<lambda>t. if t = ''x'' then Inl EOF else Inr [])
     (\<lambda>_. Inl (LocalError EOF)) 0 no_routes (Inr wit_post) \<lparr>brBuffered = [], brUnread = [1, 2]\<rparr> []"
proof (rule http_dial_checked)
  have "CHR '':'' \<in> set (JoinHostPort host port)" for host port by (simp add: JoinHostPort_def)
  moreover have "CHR '':'' \<notin> set ''x''" by simp
  ultimately have "\<not> http_target_ok wit_lib ''x''" unfolding http_target_ok_def by metis
  then show "\<forall>target. http_target_ok wit_lib target \<and>
      (pcUsername wit_conf \<noteq> [] \<longrightarrow> (\<exists>req. (Inr wit_post :: unit http_request result) = Inr req \<and>
         validHTTPProxyBasicAuth wit_folds (hdr_Get (rqHeader req) ''Proxy-Authorization'') (pcUsername wit_conf) (pcPassword wit_conf))) \<longrightarrow>
      (Inr [] :: bytes result) = (if target = ''x'' then Inl EOF else Inr []) \<and>
      (Inl (LocalError EOF) :: open_error + bytes) = Inl (LocalError EOF)"
    by auto
qed

lemma http_body_dropped_witness:
  "handleHTTP wit_lib wit_folds wit_http buffer_writer buffer_writer wit_conf (\<lambda>_. Inr []) (\<lambda>_. Inr []) 0 no_routes
     (Inr wit_post) \<lparr>brBuffered = [104, 105], brUnread = []\<rparr> [] =
   handleHTTP wit_lib wit_folds wit_http buffer_writer buffer_writer wit_conf (\<lambda>_. Inr []) (\<lambda>_. Inr []) 0 no_routes
     (Inr wit_post) \<lparr>brBuffered = [], brUnread = []\<rparr> []"
  by (rule http_body_dropped [OF refl]) (simp add: wit_post_def)

end
