(* ===== verification/Ech_Dns.thy ===== *)
theory Ech_Dns
  imports Dns_Sniff Go_Base64 Netaddr
begin

text \<open>
  The client's query for the ECH configuration of its server: the DNS message it builds, the check of
  the answer and the HTTPS record in it (\<open>internal/app/tls_ech_dns.go\<close>). Sending the query over UDP or
  HTTPS is not modelled; what comes back is an argument.
\<close>

section \<open>Model\<close>

definition typeHTTPS :: u16 where "typeHTTPS = 65"

definition normalizeDNSName :: "unicode_lib \<Rightarrow> string \<Rightarrow> string" where
  "normalizeDNSName U domain = ToLower U (TrimSuffix (TrimSpace U domain) ''.'')"

definition dnsLabelOk :: "string \<Rightarrow> bool" where
  "dnsLabelOk label \<longleftrightarrow> label \<noteq> [] \<and> length label \<le> 63 \<and> hd label \<noteq> CHR ''-'' \<and> last label \<noteq> CHR ''-'' \<and>
    list_all (\<lambda>r. isLower r \<or> isDigit r \<or> r = CHR ''-'') label"

definition validateDNSName :: "string \<Rightarrow> unit result" where
  "validateDNSName domain =
    (if domain = [] then Inl (Errorf ''empty name'')
     else if length domain > 253 then Inl (Errorf ''name too long'')
     else if list_all dnsLabelOk (Split (CHR ''.'') domain) then Inr ()
     else Inl (Errorf ''invalid label''))"

definition buildDNSQuery :: "unicode_lib \<Rightarrow> string \<Rightarrow> u16 \<Rightarrow> bytes result" where
  "buildDNSQuery U domain0 qtype =
    (let domain = normalizeDNSName U domain0 in
     rbind (validateDNSName domain) (\<lambda>_.
       Inr ([0x00, 0x01, 0x01, 0x00, 0x00, 0x01, 0x00, 0x00, 0x00, 0x00, 0x00, 0x00] @
         concat (map (\<lambda>label. word_of_nat (length label) # bytes_of label) (Split (CHR ''.'') domain)) @
         [0x00] @ put16 qtype @ [0x00, 0x01])))"

text \<open>
  \<open>skipDNSName\<close>: the offset behind a name, following pointers to its end. The offsets seen so far keep
  the loop from going round; they are the termination measure.
\<close>

lemma skip_measure:
  fixes n i :: nat
  assumes "\<not> n \<le> i" "i \<notin> S"
  shows "card ({..<n} - insert i S) < card ({..<n} - S)"
proof -
  have "{..<n} - insert i S = ({..<n} - S) - {i}" by blast
  moreover have "card (({..<n} - S) - {i}) < card ({..<n} - S)"
    by (rule card_Diff1_less) (use assms in \<open>simp_all add: not_le\<close>)
  ultimately show ?thesis by (simp only:)
qed

function skipLoop :: "bytes \<Rightarrow> nat \<Rightarrow> nat option \<Rightarrow> nat list \<Rightarrow> nat result" where
  "skipLoop message offset next seen =
    (if offset \<ge> length message then Inl (Errorf ''name out of range'')
     else if offset \<in> set seen then Inl (Errorf ''pointer loop'')
     else
       (let l = message ! offset in
        if l AND 0xC0 = 0x00 then
          (if l = 0 then Inr (case next of Some n \<Rightarrow> n | None \<Rightarrow> offset + 1)
           else if offset + 1 + unat l > length message then Inl (Errorf ''name out of range'')
           else skipLoop message (offset + 1 + unat l) next (offset # seen))
        else if l AND 0xC0 = 0xC0 then
          (if offset + 1 \<ge> length message then Inl (Errorf ''pointer out of range'')
           else if ptrTarget l (message ! (offset + 1)) \<ge> length message then Inl (Errorf ''pointer out of range'')
           else skipLoop message (ptrTarget l (message ! (offset + 1)))
             (if next = None then Some (offset + 2) else next) (offset # seen))
        else Inl (Errorf ''label type'')))"
  by pat_completeness auto
termination
  by (relation "measure (\<lambda>(message, offset, next, seen). card ({..<length message} - set seen))",
      rule wf_measure, simp_all only: in_measure prod.case list.set) (rule skip_measure; assumption)+

declare skipLoop.simps [simp del]

definition skipDNSName :: "bytes \<Rightarrow> nat \<Rightarrow> nat result" where
  "skipDNSName message offset =
    (if offset \<ge> length message then Inl (Errorf ''name out of range'') else skipLoop message offset None [])"

text \<open>\<open>parseHTTPSRecord\<close>: the value of the first parameter with key 5, in base64, or nothing.\<close>

function paramLoop :: "bytes \<Rightarrow> nat \<Rightarrow> string" where
  "paramLoop data offset =
    (if offset + 4 \<le> length data then
       (let key = get16 (slice offset (offset + 2) data);
            len = unat (get16 (slice (offset + 2) (offset + 4) data));
            offset = offset + 4
        in if offset + len > length data then []
           else if key = 5 then EncodeToString (slice offset (offset + len) data)
           else paramLoop data (offset + len))
     else [])"
  by pat_completeness auto
termination by (relation "measure (\<lambda>(data, offset). length data - offset)") auto

declare paramLoop.simps [simp del]

definition parseHTTPSRecord :: "bytes \<Rightarrow> string" where
  "parseHTTPSRecord data =
    (if length data < 2 then []
     else (case skipDNSName data 2 of Inl _ \<Rightarrow> [] | Inr offset \<Rightarrow> paramLoop data offset))"

fun httpsLoop :: "bytes \<Rightarrow> nat \<Rightarrow> nat \<Rightarrow> string result" where
  "httpsLoop response 0 offset = Inr []"
| "httpsLoop response (Suc n) offset =
    (if offset \<ge> length response then Inl (Errorf ''answer out of range'')
     else
       rbind (skipDNSName response offset) (\<lambda>offset.
         if offset + 10 > length response then Inl (Errorf ''answer out of range'')
         else
           (let rrType = get16 (slice offset (offset + 2) response);
                dataLen = unat (get16 (slice (offset + 8) (offset + 10) response));
                offset = offset + 10
            in if offset + dataLen > length response then Inl (Errorf ''answer data out of range'')
               else
                 (let ech = (if rrType = typeHTTPS then parseHTTPSRecord (slice offset (offset + dataLen) response) else [])
                  in if ech \<noteq> [] then Inr ech else httpsLoop response n (offset + dataLen)))))"

definition parseDNSResponse :: "bytes \<Rightarrow> string result" where
  "parseDNSResponse response =
    (if length response < 12 then Inl (Errorf ''response too short'')
     else if get16 (slice 0 2 response) \<noteq> 1 then Inl (Errorf ''transaction ID'')
     else if response ! 2 AND 0x80 = 0 then Inl (Errorf ''not a response'')
     else if response ! 3 AND 0x0F \<noteq> 0 then Inl (Errorf ''response code'')
     else if get16 (slice 4 6 response) \<noteq> 1 then Inl (Errorf ''question count'')
     else if get16 (slice 6 8 response) = 0 then Inl (Errorf ''no answer'')
     else
       rbind (skipDNSName response 12) (\<lambda>offset.
         if offset + 4 > length response then Inl (Errorf ''question out of range'')
         else if get16 (slice offset (offset + 2) response) \<noteq> typeHTTPS \<or> get16 (slice (offset + 2) (offset + 4) response) \<noteq> 1
         then Inl (Errorf ''question type'')
         else httpsLoop response (unat (get16 (slice 6 8 response))) (offset + 4)))"

text \<open>One round of \<open>prepareECHContext\<close>: the configuration list to store, or \<open>None\<close> to try again.\<close>

definition prepareECHRound :: "string result \<Rightarrow> bytes option" where
  "prepareECHRound queried =
    (case queried of
       Inl _ \<Rightarrow> None
     | Inr echBase64 \<Rightarrow> if echBase64 = [] then None else DecodeString echBase64)"

text \<open>\<open>getECHList\<close>; without fallback an empty list is not loaded yet.\<close>

definition getECHList :: "bool \<Rightarrow> bytes \<Rightarrow> bytes result" where
  "getECHList fallback echList =
    (if fallback then Inr [] else if length echList = 0 then Inl (Errorf ''ECH not loaded'') else Inr echList)"

section \<open>Lemmas\<close>

text \<open>One round of the loop.\<close>

lemma skipLoop_root:
  assumes "off < length p" "off \<notin> set seen" "p ! off = 0"
  shows "skipLoop p off next seen = Inr (case next of Some n \<Rightarrow> n | None \<Rightarrow> off + 1)"
  using assms by (simp add: skipLoop.simps [of p off] Let_def)

lemma skipLoop_label:
  assumes "off < length p" "off \<notin> set seen" "p ! off \<noteq> 0" "p ! off AND 0xC0 = 0" "off + 1 + unat (p ! off) \<le> length p"
  shows "skipLoop p off next seen = skipLoop p (off + 1 + unat (p ! off)) next (off # seen)"
  using assms by (simp add: skipLoop.simps [of p off] Let_def)

lemma skipLoop_pointer:
  assumes "off + 1 < length p" "off \<notin> set seen" "p ! off AND 0xC0 = 0xC0" "ptrTarget (p ! off) (p ! (off + 1)) < length p"
  shows "skipLoop p off next seen =
    skipLoop p (ptrTarget (p ! off) (p ! (off + 1))) (if next = None then Some (off + 2) else next) (off # seen)"
  using assms by (simp add: skipLoop.simps [of p off] Let_def)

text \<open>
  The steps from an offset to the end of its name. The count is unique, so a walk that ends never
  comes back to an offset it has left.
\<close>

inductive walk :: "bytes \<Rightarrow> nat \<Rightarrow> nat \<Rightarrow> bool" for p where
  root: "p ! off = 0 \<Longrightarrow> walk p 0 off"
| label: "p ! off \<noteq> 0 \<Longrightarrow> p ! off AND 0xC0 = 0 \<Longrightarrow> walk p d (off + 1 + unat (p ! off)) \<Longrightarrow> walk p (Suc d) off"
| pointer: "p ! off AND 0xC0 = 0xC0 \<Longrightarrow> walk p d (ptrTarget (p ! off) (p ! (off + 1))) \<Longrightarrow> walk p (Suc d) off"

inductive_cases walk_E: "walk p d off"

lemma not_both_masks: "(w :: byte) AND 0xC0 = 0 \<Longrightarrow> w AND 0xC0 \<noteq> 0xC0" "(0 :: byte) AND 0xC0 \<noteq> 0xC0"
  by simp_all

lemma walk_unique: "walk p d off \<Longrightarrow> walk p d' off \<Longrightarrow> d = d'"
proof (induction arbitrary: d' rule: walk.induct)
  case (root off)
  from root(2) show ?case by (rule walk_E) (use root(1) not_both_masks in auto)
next
  case (label off d)
  from label(5) show ?case by (rule walk_E) (use label(1,2,4) not_both_masks in auto)
next
  case (pointer off d)
  from pointer(4) show ?case by (rule walk_E) (use pointer(1,3) not_both_masks in auto)
qed

lemma name_at_walk: "name_at p h off ls n \<Longrightarrow> \<exists>d. walk p d off"
  by (induction rule: name_at.induct) (blast intro: walk.intros)+

lemma skipLoop_complete:
  "name_at p h off ls n \<Longrightarrow> walk p d off \<Longrightarrow> \<forall>s\<in>set seen. \<exists>k > d. walk p k s \<Longrightarrow>
   skipLoop p off next seen = Inr (case next of Some m \<Rightarrow> m | None \<Rightarrow> off + n)"
proof (induction arbitrary: d "next" seen rule: name_at.induct)
  case (root off)
  have "off \<notin> set seen" using root.prems walk_unique by blast
  then show ?case using root by (simp add: skipLoop_root)
next
  case (label off h ls n)
  have ns: "off \<notin> set seen" using label.prems walk_unique by blast
  obtain d' where d': "d = Suc d'" "walk p d' (off + 1 + unat (p ! off))"
    using label.prems(1) by (rule walk_E) (use label.hyps(2,3) not_both_masks in auto)
  have "\<forall>s\<in>set (off # seen). \<exists>k > d'. walk p k s" using label.prems d'(1) by (auto intro: Suc_lessD)
  from label.IH [OF d'(2) this, of "next"] show ?case
    unfolding skipLoop_label [OF label.hyps(1) ns label.hyps(2-4)] by (simp add: add.assoc split: option.split)
next
  case (pointer off h ls n)
  have ns: "off \<notin> set seen" using pointer.prems walk_unique by blast
  obtain d' where d': "d = Suc d'" "walk p d' (ptrTarget (p ! off) (p ! (off + 1)))"
    using pointer.prems(1) by (rule walk_E) (use pointer.hyps(2) not_both_masks in auto)
  have "\<forall>s\<in>set (off # seen). \<exists>k > d'. walk p k s" using pointer.prems d'(1) by (auto intro: Suc_lessD)
  from pointer.IH [OF d'(2) this, of "if next = None then Some (off + 2) else next"] show ?case
    using skipLoop_pointer [OF pointer.hyps(1) ns pointer.hyps(2)] name_at_positive [OF pointer.hyps(3)]
    by (cases "next") simp_all
qed

lemma skipLoop_sound:
  "skipLoop p off next seen = Inr k \<Longrightarrow>
   \<exists>h ls n. name_at p h off ls n \<and> k = (case next of Some m \<Rightarrow> m | None \<Rightarrow> off + n)"
proof (induction p off "next" seen rule: skipLoop.induct)
  case (1 p off "next" seen)
  note e = trans [OF 1(3) [symmetric] skipLoop.simps [of p off "next" seen]]
  have g: "\<not> off \<ge> length p" "off \<notin> set seen" using e by (simp_all split: if_splits)
  consider (R) "p ! off = 0" | (L) "p ! off AND 0xC0 = 0" "p ! off \<noteq> 0" | (P) "p ! off AND 0xC0 \<noteq> 0" "p ! off AND 0xC0 = 0xC0"
    using e g by (auto simp: Let_def split: if_splits)
  then show ?case
  proof cases
    case R
    then have "name_at p 0 off [] 1" using g by (intro name_at.root) simp_all
    moreover have "k = (case next of Some m \<Rightarrow> m | None \<Rightarrow> off + 1)" using e g R by simp
    ultimately show ?thesis by blast
  next
    case L
    have q: "\<not> off + 1 + unat (p ! off) > length p" using e g L by (simp add: Let_def split: if_splits)
    have "skipLoop p (off + 1 + unat (p ! off)) next (off # seen) = Inr k" using e g L q by (simp add: Let_def)
    from 1(1) [OF g refl L q this] obtain h ls n where h: "name_at p h (off + 1 + unat (p ! off)) ls n"
      "k = (case next of Some m \<Rightarrow> m | None \<Rightarrow> off + 1 + unat (p ! off) + n)" by blast
    from name_at.label [OF _ L(2,1) _ h(1)] g q
    have "name_at p h off (str_of (slice (off + 1) (off + 1 + unat (p ! off)) p) # ls) (1 + unat (p ! off) + n)" by simp
    then show ?thesis using h(2) by (metis (no_types, lifting) add.assoc)
  next
    case P
    have q: "\<not> off + 1 \<ge> length p" using e g P by (simp add: Let_def split: if_splits)
    have t: "\<not> ptrTarget (p ! off) (p ! (off + 1)) \<ge> length p" using e g P q by (simp add: Let_def split: if_splits)
    have "skipLoop p (ptrTarget (p ! off) (p ! (off + 1))) (if next = None then Some (off + 2) else next) (off # seen) = Inr k"
      using e g P q t by (simp add: Let_def)
    from 1(2) [OF g refl P q t this] obtain h ls n where h: "name_at p h (ptrTarget (p ! off) (p ! (off + 1))) ls n"
      "k = (case (if next = None then Some (off + 2) else next) of Some m \<Rightarrow> m | None \<Rightarrow> ptrTarget (p ! off) (p ! (off + 1)) + n)" by blast
    have "name_at p (Suc h) off ls 2" using q P(2) h(1) by (intro name_at.pointer) simp_all
    moreover have "k = (case next of Some m \<Rightarrow> m | None \<Rightarrow> off + 2)" using h(2) by (cases "next") simp_all
    ultimately show ?thesis by blast
  qed
qed

lemma skipDNSName_iff: "skipDNSName p off = Inr k \<longleftrightarrow> (\<exists>h ls n. name_at p h off ls n \<and> k = off + n)"
proof
  assume "skipDNSName p off = Inr k"
  then show "\<exists>h ls n. name_at p h off ls n \<and> k = off + n"
    using skipLoop_sound [of p off None "[]" k] by (auto simp: skipDNSName_def split: if_splits)
next
  assume "\<exists>h ls n. name_at p h off ls n \<and> k = off + n"
  then obtain h ls n where n: "name_at p h off ls n" "k = off + n" by blast
  obtain d where d: "walk p d off" using name_at_walk [OF n(1)] by blast
  show "skipDNSName p off = Inr k"
    using skipLoop_complete [OF n(1) d, of "[]" None] name_at_positive [OF n(1)] n(2) by (simp add: skipDNSName_def)
qed

text \<open>The names a query can carry.\<close>

lemma dnsLabelOk_valid: "dnsLabelOk = valid_label"
  by (auto simp: fun_eq_iff dnsLabelOk_def valid_label_def label_char_def list_all_iff)

lemma valid_wire_label: "valid_label l \<Longrightarrow> wire_label l"
  by (cases l) (simp_all add: valid_label_def wire_label_def)

lemma validateDNSName_iff:
  "validateDNSName d = Inr () \<longleftrightarrow> d \<noteq> [] \<and> length d \<le> 253 \<and> (\<forall>l\<in>set (Split (CHR ''.'') d). valid_label l)"
  by (auto simp: validateDNSName_def dnsLabelOk_valid list_all_iff)

lemma validateDNSName_plain: "validateDNSName d = Inr () \<longleftrightarrow> plain_hostname d"
proof
  assume "validateDNSName d = Inr ()"
  then show "plain_hostname d"
    unfolding validateDNSName_iff plain_hostname_def by (metis Join_Split Split_not_Nil)
next
  assume p: "plain_hostname d"
  then obtain ls where ls: "ls \<noteq> []" "\<forall>l\<in>set ls. valid_label l" "d = Join (CHR ''.'') ls" "length d \<le> 253"
    by (auto simp: plain_hostname_def)
  have "Split (CHR ''.'') d = ls" unfolding ls(3) using ls(1,2) valid_label_no_dot by (intro Split_Join) blast+
  moreover have "d \<noteq> []" using plain_hostname_last [OF p] by simp
  ultimately show "validateDNSName d = Inr ()" using ls by (simp add: validateDNSName_iff)
qed

text \<open>HTTPS records as RFC 9460 writes them: a priority, a target name and parameters.\<close>

definition param_bytes :: "(u16 \<times> bytes) list \<Rightarrow> bytes" where
  "param_bytes ps = concat (map (\<lambda>(k, v). put16 k @ put16 (word_of_nat (length v)) @ v) ps)"

definition https_rdata :: "bytes \<Rightarrow> string list \<Rightarrow> (u16 \<times> bytes) list \<Rightarrow> bytes" where
  "https_rdata prio target ps = prio @ name_bytes target @ param_bytes ps"

definition ech_of :: "(u16 \<times> bytes) list \<Rightarrow> bytes" where
  "ech_of ps = (case find (\<lambda>(k, _). k = 5) ps of Some (_, v) \<Rightarrow> v | None \<Rightarrow> [])"

lemma paramLoop_params:
  "\<forall>(k, v)\<in>set ps. length v \<le> 65535 \<Longrightarrow> paramLoop (pre @ param_bytes ps) (length pre) = EncodeToString (ech_of ps)"
proof (induction ps arbitrary: pre)
  case Nil
  then show ?case by (subst paramLoop.simps) (simp add: param_bytes_def ech_of_def)
next
  case (Cons kv ps)
  obtain k v where kv: "kv = (k, v)" by fastforce
  have v: "length v \<le> 65535" using Cons.prems kv by simp
  let ?pre = "pre @ put16 k @ put16 (word_of_nat (length v)) @ v"
  have e: "pre @ param_bytes (kv # ps) = ?pre @ param_bytes ps" by (simp add: param_bytes_def kv)
  have s: "slice (length pre) (length pre + 2) (?pre @ param_bytes ps) = put16 k"
    "slice (length pre + 2) (length pre + 4) (?pre @ param_bytes ps) = put16 (word_of_nat (length v))"
    "slice (length pre + 4) (length pre + 4 + length v) (?pre @ param_bytes ps) = v"
    by (simp_all add: slice_def)
  have le: "length pre + 4 \<le> length (?pre @ param_bytes ps)" "\<not> length pre + 4 + length v > length (?pre @ param_bytes ps)"
    by simp_all
  have u: "unat (get16 (put16 (word_of_nat (length v)))) = length v" using v by simp
  have "paramLoop (?pre @ param_bytes ps) (length pre) =
      (if k = 5 then EncodeToString v else paramLoop (?pre @ param_bytes ps) (length pre + 4 + length v))"
    unfolding paramLoop.simps [of "?pre @ param_bytes ps" "length pre"] Let_def s(1,2) u using le s(3) by (simp only: if_True if_False get_put_nil) 
  also have "\<dots> = EncodeToString (ech_of (kv # ps))"
  proof -
    have "length pre + 4 + length v = length ?pre" by simp
    moreover have "paramLoop (?pre @ param_bytes ps) (length ?pre) = EncodeToString (ech_of ps)"
      using Cons.prems by (intro Cons.IH) simp
    ultimately show ?thesis by (cases "k = 5") (simp_all only: kv ech_of_def find.simps prod.case option.case if_True if_False simp_thms)
  qed
  finally show ?case unfolding e .
qed

lemma parseHTTPSRecord_rdata:
  assumes "length prio = 2" "list_all wire_label target" "\<forall>(k, v)\<in>set ps. length v \<le> 65535"
  shows "parseHTTPSRecord (https_rdata prio target ps) = EncodeToString (ech_of ps)"
proof -
  have "skipDNSName (https_rdata prio target ps) 2 = Inr (2 + length (name_bytes target))"
    unfolding skipDNSName_iff using name_at_name_bytes [OF assms(2), of prio "param_bytes ps"] assms(1)
    by (auto simp: https_rdata_def)
  moreover have "paramLoop (https_rdata prio target ps) (2 + length (name_bytes target)) = EncodeToString (ech_of ps)"
    using paramLoop_params [OF assms(3), of "prio @ name_bytes target"] assms(1) by (simp add: https_rdata_def)
  ultimately show ?thesis using assms(1) by (simp add: parseHTTPSRecord_def https_rdata_def)
qed

text \<open>The answers of a response.\<close>

definition rr_ech :: "dns_rr \<Rightarrow> string" where
  "rr_ech rr = (if rrType rr = typeHTTPS then parseHTTPSRecord (rrData rr) else [])"

lemma httpsLoop_records:
  "p = b @ concat (map rr_bytes rrs) @ rest \<Longrightarrow> name_at p 0 12 q k \<Longrightarrow> list_all rr_ok rrs \<Longrightarrow>
   httpsLoop p (length rrs) (length b) = Inr (case find (\<lambda>rr. rr_ech rr \<noteq> []) rrs of Some rr \<Rightarrow> rr_ech rr | None \<Rightarrow> [])"
proof (induction rrs arbitrary: b)
  case Nil
  then show ?case by simp
next
  case (Cons rr rrs)
  let ?nm = "rr_name_bytes rr" and ?d = "rrData rr" and ?rest = "concat (map rr_bytes rrs) @ rest"
  have ok: "length (rrMeta rr) = 6" "length ?d \<le> 65535" using Cons.prems(3) by (simp_all add: rr_ok_def)
  have p: "p = b @ ?nm @ put16 (rrType rr) @ rrMeta rr @ put16 (word_of_nat (length ?d)) @ ?d @ ?rest"
    using Cons.prems(1) by (simp add: rr_bytes_def [of rr])
  obtain h ls where na: "name_at p h (length b) ls (length ?nm)"
    using rr_name_at [OF Cons.prems(2) p] Cons.prems(3) by auto
  have sk: "skipDNSName p (length b) = Inr (length b + length ?nm)" unfolding skipDNSName_iff using na by blast
  let ?o = "length b + length ?nm"
  have t: "slice ?o (?o + 2) p = put16 (rrType rr)" unfolding p by (simp add: slice_def)
  have l: "slice (?o + 8) (?o + 10) p = put16 (word_of_nat (length ?d))" unfolding p using ok(1) by (simp add: slice_def)
  have d: "slice (?o + 10) (?o + 10 + length ?d) p = ?d" unfolding p using ok(1) by (simp add: slice_def)
  have le: "\<not> length p < ?o + 10" "\<not> length p < ?o + 10 + length ?d" "\<not> length p \<le> length b"
    using ok(1) name_at_positive [OF na] unfolding p by simp_all
  have o: "?o + 10 + length ?d = length (b @ rr_bytes rr)" using ok(1) by (simp add: rr_bytes_def [of rr])
  have ih: "httpsLoop p (length rrs) (length (b @ rr_bytes rr)) = Inr (case find (\<lambda>rr. rr_ech rr \<noteq> []) rrs of Some rr \<Rightarrow> rr_ech rr | None \<Rightarrow> [])"
    using Cons.prems by (intro Cons.IH) simp_all
  have "httpsLoop p (Suc (length rrs)) (length b) =
      (if rr_ech rr \<noteq> [] then Inr (rr_ech rr) else httpsLoop p (length rrs) (?o + 10 + length ?d))"
    using sk le ok(2) t l d by (simp add: Let_def rr_ech_def del: add_2_eq_Suc')
  then show ?case using ih unfolding o by simp
qed

text \<open>The flags, read as bytes and as a 16-bit word.\<close>

lemma put16_bytes: "put16 f = [word_of_nat (unat f div 256), word_of_nat (unat f)]"
  by (simp add: put16_def numeral_2_eq_2)

text \<open>The query is a message with one question and no records.\<close>

lemma buildDNSQuery_message:
  assumes "plain_hostname (normalizeDNSName U domain)"
  obtains ls where "normalizeDNSName U domain = dotted ls" "list_all wire_label ls"
    "buildDNSQuery U domain t = Inr (dns_response [0, 1] 0x0100 [0, 0, 0, 0] ls (put16 t @ [0, 1]) [] [])"
proof -
  let ?d = "normalizeDNSName U domain" and ?ls = "Split (CHR ''.'') (normalizeDNSName U domain)"
  have v: "validateDNSName ?d = Inr ()" using assms by (simp add: validateDNSName_plain)
  have "?d = dotted ?ls" by (simp add: dotted_def Join_Split)
  moreover have "list_all wire_label ?ls" using v valid_wire_label by (auto simp: validateDNSName_iff list_all_iff)
  moreover have "[0x01, 0x00] = put16 0x0100" "[0x00, 0x01] = put16 1" "[0x00, 0x00] = put16 0"
    by (simp_all add: put16_bytes)
  then have "buildDNSQuery U domain t = Inr (dns_response [0, 1] 0x0100 [0, 0, 0, 0] ?ls (put16 t @ [0, 1]) [] [])"
    using v by (simp add: buildDNSQuery_def dns_response_def name_bytes_def put16_def)
  ultimately show ?thesis by (rule that)
qed

lemma buildDNSQuery_plain: "buildDNSQuery U domain t = Inr q \<Longrightarrow> plain_hostname (normalizeDNSName U domain)"
  by (cases "validateDNSName (normalizeDNSName U domain)") (simp_all add: buildDNSQuery_def Let_def validateDNSName_plain [symmetric])

lemma flag_bytes:
  "(word_of_nat (unat f div 256) :: byte) AND 0x80 = 0 \<longleftrightarrow> f AND dnsFlagQR = 0"
  "(word_of_nat (unat f) :: byte) AND 0x0F = 0 \<longleftrightarrow> f AND dnsRCodeMask = 0"
proof -
  have "bit (word_of_nat (unat f div 256) :: byte) 7 \<longleftrightarrow> bit f 15"
    using fun_cong [OF bit_drop_bit_eq [of 8 "unat f"], of 7] by (simp add: bit_of_nat_iff bit_unsigned_iff drop_bit_eq_div)
  then show "(word_of_nat (unat f div 256) :: byte) AND 0x80 = 0 \<longleftrightarrow> f AND dnsFlagQR = 0"
    using and_exp_eq_0_iff_not_bit [of "word_of_nat (unat f div 256) :: byte" 7] and_exp_eq_0_iff_not_bit [of f 15]
    by (simp add: dnsFlagQR_def)
  have "unat ((word_of_nat (unat f) :: byte) AND 0x0F) = unat (f AND 0x0F)"
    using take_bit_eq_mask [of 4 "word_of_nat (unat f) :: byte"] take_bit_eq_mask [of 4 f]
      unsigned_take_bit_eq [of 4 f, where ?'a = nat] unsigned_take_bit_eq [of 4 "word_of_nat (unat f) :: byte", where ?'a = nat]
    by (simp add: mask_eq_exp_minus_1 unsigned_ucast_eq)
  then show "(word_of_nat (unat f) :: byte) AND 0x0F = 0 \<longleftrightarrow> f AND dnsRCodeMask = 0"
    unfolding dnsRCodeMask_def by (metis unat_eq_0)
qed

text \<open>
  The query for a name is written exactly for the names that are host names after
  trimming, cutting one final dot and lowering; and the query, read by the sniffer, names that host.
\<close>

lemma dns_query_roundtrip:
  "case buildDNSQuery U domain t of
     Inl _ \<Rightarrow> \<not> plain_hostname (normalizeDNSName U domain)
   | Inr q \<Rightarrow> plain_hostname (normalizeDNSName U domain) \<and> sniffDNSQuery q = Some (normalizeDNSName U domain)"
proof (cases "plain_hostname (normalizeDNSName U domain)")
  case True
  let ?d = "normalizeDNSName U domain"
  from buildDNSQuery_message [OF True] obtain ls where ls: "?d = dotted ls" "list_all wire_label ls"
    and b: "buildDNSQuery U domain t = Inr (dns_response [0, 1] 0x0100 [0, 0, 0, 0] ls (put16 t @ [0, 1]) [] [])" by blast
  let ?q = "dns_response [0, 1] 0x0100 [0, 0, 0, 0] ls (put16 t @ [0, 1]) [] []"
  have na: "name_at ?q 0 12 ls (length (name_bytes ls))" by (rule question_name) (simp_all add: ls)
  have d: "?d \<noteq> []" "last ?d \<noteq> CHR ''.''" using plain_hostname_last [OF True] label_char_not_special by blast+
  have "TrimSuffix ?d ''.'' = ?d" using d by (cases ?d rule: rev_cases) (simp_all add: TrimSuffix_def HasSuffix_def)
  moreover have "?d \<noteq> ''.''" using d by auto
  moreover have "length ?q \<ge> 12" by (simp add: dns_response_def)
  ultimately have "sniffDNSQuery ?q = Some ?d"
    using parseDNSName_complete [OF na] header_fields(1,2) [where ident = "[0, 1]" and counts = "[0, 0, 0, 0]" and flags = "0x0100" and q = ls and
      qtype = "put16 t @ [0, 1]" and rrs = "[]" and rest = "[]"] d(1)
    by (simp add: sniffDNSQuery_def dns_consts Let_def ls(1) [symmetric])
  then show ?thesis using b True by simp
next
  case False
  then show ?thesis using buildDNSQuery_plain by (auto split: sum.split)
qed

text \<open>What the client reads from a response with these records.\<close>

lemma parseDNSResponse_message:
  assumes "length counts = 4" "flags AND dnsFlagQR \<noteq> 0" "flags AND dnsRCodeMask = 0"
    "list_all wire_label q" "rrs \<noteq> []" "length rrs \<le> 65535" "list_all rr_ok rrs"
  shows "parseDNSResponse (dns_response (put16 1) flags counts q (put16 typeHTTPS @ put16 1) rrs rest) =
    Inr (case find (\<lambda>rr. rr_ech rr \<noteq> []) rrs of Some rr \<Rightarrow> rr_ech rr | None \<Rightarrow> [])"
proof -
  let ?q = "put16 typeHTTPS @ put16 1"
  let ?p = "dns_response (put16 1) flags counts q ?q rrs rest"
  let ?h = "put16 1 @ put16 flags @ put16 1 @ put16 (word_of_nat (length rrs)) @ counts"
  let ?b = "?h @ name_bytes q @ ?q" and ?o = "12 + length (name_bytes q)"
  have p: "?p = ?b @ concat (map rr_bytes rrs) @ rest" by (simp add: dns_response_def)
  have na: "name_at ?p 0 12 q (length (name_bytes q))" by (rule question_name) (simp_all add: assms)
  have sk: "skipDNSName ?p 12 = Inr ?o" unfolding skipDNSName_iff using na by blast
  have b: "length ?b = ?o + 4" using assms(1) by simp
  have len: "\<not> length ?p < ?o + 4" using b unfolding p by simp
  have hd: "get16 (slice 0 2 ?p) = 1" "get16 (slice 4 6 ?p) = 1" "get16 (slice 6 8 ?p) = word_of_nat (length rrs)"
    using header_fields(2,3) [where ident = "put16 1" and counts = counts] assms(1) by (simp_all add: dns_response_def slice_def)
  have fl: "?p ! 2 = word_of_nat (unat flags div 256)" "?p ! 3 = word_of_nat (unat flags)"
    by (simp_all add: dns_response_def put16_bytes nth_append)
  have ok: "?p ! 2 AND 0x80 \<noteq> 0" "?p ! 3 AND 0x0F = 0" unfolding fl flag_bytes by (fact assms(2,3))+
  have cnt: "unat (word_of_nat (length rrs) :: u16) = length rrs" "(word_of_nat (length rrs) :: u16) \<noteq> 0"
    using assms(5,6) by simp (use assms(5,6) in \<open>auto simp: word_of_nat_eq_0_iff dest: dvd_imp_le\<close>)
  have t: "slice ?o (?o + 2) ?p = put16 typeHTTPS" "slice (?o + 2) (?o + 4) ?p = put16 1"
    using assms(1) by (simp_all add: dns_response_def slice_def)
  have "httpsLoop ?p (length rrs) (?o + 4) = Inr (case find (\<lambda>rr. rr_ech rr \<noteq> []) rrs of Some rr \<Rightarrow> rr_ech rr | None \<Rightarrow> [])"
    unfolding b [symmetric] by (rule httpsLoop_records [OF p na assms(7)])
  then show ?thesis
    using sk len hd ok cnt t
    by (simp add: parseDNSResponse_def Let_def not_less del: httpsLoop.simps add_2_eq_Suc')
qed

text \<open>
  The two name readers agree: wherever the sniffer reads a name, the client's
  \<open>skipDNSName\<close>, which keeps a set of visited offsets instead of a pointer budget, ends behind the same
  bytes; and where \<open>skipDNSName\<close> fails, the sniffer finds no name either.
\<close>

lemma skipDNSName_agrees:
  "case skipDNSName p off of
     Inl _ \<Rightarrow> parseDNSName p off = None
   | Inr k \<Rightarrow> off < k \<and> (case parseDNSName p off of None \<Rightarrow> True | Some (_, n) \<Rightarrow> k = off + n)"
proof -
  have s: "\<exists>h ls. name_at p h off ls n" if "parseDNSName p off = Some (nm, n)" for nm n
  proof -
    from that have "dnsNameLoop p off off [] 0 False 0 = Some (nm, n)" by (simp add: parseDNSName_def split: if_splits)
    from dnsNameLoop_sound [OF this] show ?thesis by auto
  qed
  have t: "skipDNSName p off = Inr (off + n)" if "parseDNSName p off = Some (nm, n)" for nm n
    unfolding skipDNSName_iff using s [OF that] by blast
  have pos: "off < k" if k: "skipDNSName p off = Inr k" for k
  proof -
    from k obtain h ls n where n: "name_at p h off ls n" "k = off + n" unfolding skipDNSName_iff by blast
    then show ?thesis using name_at_positive [OF n(1)] by simp
  qed
  show ?thesis
  proof (cases "parseDNSName p off")
    case None
    then show ?thesis using pos by (cases "skipDNSName p off") simp_all
  next
    case (Some c)
    then obtain nm n where c: "parseDNSName p off = Some (nm, n)" by (cases c) simp
    then show ?thesis using t [OF c] pos by simp
  qed
qed

text \<open>
  The ECH configuration: for every well-formed successful answer to the query whose first HTTPS
  record (RFC 9460: priority, target name, parameters) carries a non-empty value under key 5, behind
  any records of other types and before any records at all, the client stores exactly that value.
\<close>

lemma ech_config_delivered:
  assumes "length counts = 4" "flags AND dnsFlagQR \<noteq> 0" "flags AND dnsRCodeMask = 0"
    "list_all wire_label q" "length (before @ rr # after) \<le> 65535" "list_all rr_ok (before @ rr # after)"
    and "\<forall>r\<in>set before. rrType r \<noteq> typeHTTPS" "rrType rr = typeHTTPS" "rrData rr = https_rdata prio target ps"
    and "length prio = 2" "list_all wire_label target" "\<forall>(k, v)\<in>set ps. length v \<le> 65535" "ech_of ps \<noteq> []"
  shows "prepareECHRound (parseDNSResponse
      (dns_response (put16 1) flags counts q (put16 typeHTTPS @ put16 1) (before @ rr # after) rest)) = Some (ech_of ps) \<and>
    getECHList False (ech_of ps) = Inr (ech_of ps)"
proof -
  have e: "rr_ech rr = EncodeToString (ech_of ps)" using assms(8-12) by (simp add: rr_ech_def parseHTTPSRecord_rdata)
  have "find (\<lambda>rr. rr_ech rr \<noteq> []) (before @ rr # after) = Some rr"
    using assms(7,13) e by (induction before) (simp_all add: rr_ech_def encode_empty)
  then have "parseDNSResponse (dns_response (put16 1) flags counts q (put16 typeHTTPS @ put16 1) (before @ rr # after) rest) =
      Inr (EncodeToString (ech_of ps))"
    using parseDNSResponse_message [OF assms(1-4) _ assms(5,6), of rest] e by simp
  then show ?thesis using assms(13) by (simp add: prepareECHRound_def encode_empty base64_roundtrip getECHList_def)
qed

section \<open>Witnesses\<close>

definition wit_https :: dns_rr where
  "wit_https = \<lparr>rrName = None, rrType = typeHTTPS, rrMeta = [0, 1, 0, 0, 0, 60],
    rrData = https_rdata [0, 1] [] [(1, [2, 104, 50]), (5, [7, 8, 9, 10])]\<rparr>"

lemma ech_config_delivered_witness:
  "prepareECHRound (parseDNSResponse
      (dns_response (put16 1) 0x8180 [0, 0, 0, 0] [''ab'', ''io''] (put16 typeHTTPS @ put16 1) (wit_rrs @ [wit_https]) [])) =
     Some [7, 8, 9, 10]"
proof -
  have r: "list_all rr_ok (wit_rrs @ [wit_https])"
    by (simp add: wit_rrs_def wit_https_def rr_ok_def wire_label_def https_rdata_def param_bytes_def name_bytes_def)
  have t: "\<forall>r\<in>set wit_rrs. rrType r \<noteq> typeHTTPS" by (simp add: wit_rrs_def typeHTTPS_def)
  have l: "length (wit_rrs @ [wit_https]) \<le> 65535" by (simp add: wit_rrs_def)
  have v: "ech_of [(1, [2, 104, 50]), (5, [7, 8, 9, 10])] = [7, 8, 9, 10]" by (simp add: ech_of_def)
  show ?thesis
    using ech_config_delivered [of "[0, 0, 0, 0]" "0x8180" "[''ab'', ''io'']" wit_rrs wit_https "[]" "[0, 1]" "[]"
        "[(1, [2, 104, 50]), (5, [7, 8, 9, 10])]" "[]"] r t l v
    by (simp add: dns_consts wire_label_def wit_https_def)
qed

end
