(* ===== verification/Config.thy ===== *)
theory Config
  imports Complex_Main Front_Proxy Local_Http Ech_Dns Wire_V3
begin

text \<open>
  The configuration (\<open>internal/app/config.go\<close>): the values with their defaults, how a configuration file
  is laid over them under the command line, and the validation that turns them into the start-up
  state. Decoding JSON, \<open>url.Parse\<close> and \<open>time.ParseDuration\<close> are the library's: the decoded file, the
  parsed URLs and the durations are arguments. The pacing rate is a rational number; a JSON number is
  finite.
\<close>

section \<open>Values\<close>

record GlobalConfig =
  gcDialTimeout :: duration
  gcWSHandshakeTimeout :: duration
  gcReconnectDelay :: duration
  gcReconnectMaxDelay :: duration
  gcReconnectJitter :: duration
  gcRTTProbeTimeout :: duration
  gcDNSQueryTimeout :: duration
  gcECHRetryDelay :: duration
  gcUDPReadTimeout :: duration
  gcShutdownTimeout :: duration
  gcAuthSkew :: duration
  gcPreAuthTimeout :: duration
  gcDNSCacheTTL :: duration
  gcReadBuf :: int

abbreviation millisecond :: duration where "millisecond \<equiv> 1000000"

definition defaultGlobalConfig :: GlobalConfig where
  "defaultGlobalConfig =
    \<lparr>gcDialTimeout = 3 * second, gcWSHandshakeTimeout = 5 * second, gcReconnectDelay = 1 * second,
     gcReconnectMaxDelay = 30 * second, gcReconnectJitter = 500 * millisecond, gcRTTProbeTimeout = 2 * second,
     gcDNSQueryTimeout = 3 * second, gcECHRetryDelay = 2 * second, gcUDPReadTimeout = 1 * second,
     gcShutdownTimeout = 5 * second, gcAuthSkew = 5 * 60 * second, gcPreAuthTimeout = 5 * second,
     gcDNSCacheTTL = 5 * 60 * second, gcReadBuf = 64 * 1024\<rparr>"

record runtimeValues =
  rvListenAddr :: string
  rvForwardAddr :: string
  rvIPAddr :: string
  rvUDPBlockPortsStr :: string
  rvCertFile :: string
  rvKeyFile :: string
  rvClientCAFile :: string
  rvClientCertFile :: string
  rvClientKeyFile :: string
  rvToken :: string
  rvMetricsAddr :: string
  rvCIDRs :: string
  rvTargetAllowCIDRs :: string
  rvTargetDenyCIDRs :: string
  rvTargetAllowHosts :: string
  rvTargetDenyHosts :: string
  rvMaxClientSessions :: int
  rvMaxStreamsPerClient :: int
  rvConnectionNum :: int
  rvInsecure :: bool
  rvIPS :: string
  rvDNSServer :: string
  rvEnableECH :: bool
  rvECHDomain :: string
  rvFallback :: bool
  rvCipherPref :: string
  rvPacingRateMbps :: rat
  rvShapingCoalesceMs :: int
  rvTransportMode :: string
  rvQuicPort :: int
  rvEnableDatagram :: bool
  rvCoverTraffic :: bool
  rvGlobal :: GlobalConfig
  rvWebSocketFrontProxy :: WebSocketFrontProxyConfig
  rvRulesPath :: string
  rvGeoDir :: string
  rvRouteEnabled :: bool
  rvSNISniff :: bool

definition defaultRuntimeValues :: runtimeValues where
  "defaultRuntimeValues =
    \<lparr>rvListenAddr = [], rvForwardAddr = [], rvIPAddr = [], rvUDPBlockPortsStr = ''443'', rvCertFile = [], rvKeyFile = [],
     rvClientCAFile = [], rvClientCertFile = [], rvClientKeyFile = [], rvToken = [], rvMetricsAddr = [],
     rvCIDRs = ''0.0.0.0/0,::/0'', rvTargetAllowCIDRs = [], rvTargetDenyCIDRs = [], rvTargetAllowHosts = [],
     rvTargetDenyHosts = [], rvMaxClientSessions = 0, rvMaxStreamsPerClient = 0, rvConnectionNum = 3, rvInsecure = False,
     rvIPS = [], rvDNSServer = ''https://doh.pub/dns-query'', rvEnableECH = False, rvECHDomain = ''cloudflare-ech.com'',
     rvFallback = False, rvCipherPref = ''1,2,3'', rvPacingRateMbps = 0, rvShapingCoalesceMs = 0, rvTransportMode = ''auto'',
     rvQuicPort = 0, rvEnableDatagram = True, rvCoverTraffic = False, rvGlobal = defaultGlobalConfig,
     rvWebSocketFrontProxy = zeroFrontProxy, rvRulesPath = [], rvGeoDir = [], rvRouteEnabled = False, rvSNISniff = True\<rparr>"

section \<open>The configuration file\<close>

record FileConfig =
  fcListen :: "string option"
  fcForward :: "string option"
  fcIP :: "string option"
  fcBlock :: "string option"
  fcCert :: "string option"
  fcKey :: "string option"
  fcClientCA :: "string option"
  fcClientCert :: "string option"
  fcClientKey :: "string option"
  fcClientCAFlag :: "string option"
  fcClientCertFlag :: "string option"
  fcClientKeyFlag :: "string option"
  fcToken :: "string option"
  fcMetrics :: "string option"
  fcCIDR :: "string option"
  fcAllowTarget :: "string option"
  fcDenyTarget :: "string option"
  fcAllowHost :: "string option"
  fcDenyHost :: "string option"
  fcAllowTargetFlag :: "string option"
  fcDenyTargetFlag :: "string option"
  fcAllowHostFlag :: "string option"
  fcDenyHostFlag :: "string option"
  fcMaxClients :: "int option"
  fcMaxClientsFlag :: "int option"
  fcMaxStreams :: "int option"
  fcMaxStreamsFlag :: "int option"
  fcDNS :: "string option"
  fcECH :: "bool option"
  fcECHDomain :: "string option"
  fcECHDomainFlag :: "string option"
  fcIPS :: "string option"
  fcConnections :: "int option"
  fcInsecure :: "bool option"
  fcFallback :: "bool option"
  fcCipherPref :: "string option"
  fcCipherPrefFlag :: "string option"
  fcPacingRateMbps :: "rat option"
  fcPacingRateMbpsFlag :: "rat option"
  fcShapingCoalesceMs :: "int option"
  fcShapingCoalesceMsFlag :: "int option"
  fcTransport :: "string option"
  fcTransportFlag :: "string option"
  fcQuicPort :: "int option"
  fcQuicPortFlag :: "int option"
  fcEnableDatagram :: "bool option"
  fcEnableDatagramFlag :: "bool option"
  fcCoverTraffic :: "bool option"
  fcCoverTrafficFlag :: "bool option"
  fcWebSocketFrontProxy :: "WebSocketFrontProxyConfig option"
  fcDialTimeout :: "string option"
  fcWSHandshakeTimeout :: "string option"
  fcReconnectDelay :: "string option"
  fcReconnectMaxDelay :: "string option"
  fcReconnectJitter :: "string option"
  fcRTTProbeTimeout :: "string option"
  fcDNSQueryTimeout :: "string option"
  fcDNSCacheTTL :: "string option"
  fcECHRetryDelay :: "string option"
  fcUDPReadTimeout :: "string option"
  fcShutdownTimeout :: "string option"
  fcAuthSkew :: "string option"
  fcPreAuthTimeout :: "string option"
  fcRulesPath :: "string option"
  fcGeoDir :: "string option"
  fcRouteEnabled :: "bool option"
  fcSNI :: "bool option"

text \<open>The four \<open>single\<dots>ConfigAlias\<close> functions differ in the type of the value only.\<close>

definition singleConfigAlias :: "string \<Rightarrow> string \<Rightarrow> 'a option \<Rightarrow> 'a option \<Rightarrow> 'a option result" where
  "singleConfigAlias primaryName aliasName primary alias =
    (if primary \<noteq> None \<and> alias \<noteq> None then Inl (Errorf (primaryName @ '' and '' @ aliasName @ '' must not both be set''))
     else if primary \<noteq> None then Inr primary
     else Inr alias)"

definition applyStringConfig :: "(string \<Rightarrow> bool) \<Rightarrow> string \<Rightarrow> string option \<Rightarrow> string \<Rightarrow> string" where
  "applyStringConfig seen flagName val target = (case val of Some v \<Rightarrow> if \<not> seen flagName then v else target | None \<Rightarrow> target)"

text \<open>The fields that are set in place: \<open>if fc.X != nil && !seen[flag] { values.X = *fc.X }\<close>.\<close>

definition applyValue :: "(string \<Rightarrow> bool) \<Rightarrow> string \<Rightarrow> 'a option \<Rightarrow> 'a \<Rightarrow> 'a" where
  "applyValue seen flagName val target = (case val of Some v \<Rightarrow> if \<not> seen flagName then v else target | None \<Rightarrow> target)"

definition applyNonNegativeFloat64Config :: "(string \<Rightarrow> bool) \<Rightarrow> string \<Rightarrow> rat option \<Rightarrow> rat \<Rightarrow> rat result" where
  "applyNonNegativeFloat64Config seen flagName val target =
    (case val of
       None \<Rightarrow> Inr target
     | Some v \<Rightarrow> if seen flagName then Inr target else if v < 0 then Inl (Errorf ''must not be negative'') else Inr v)"

definition applyNonNegativeIntConfig :: "(string \<Rightarrow> bool) \<Rightarrow> string \<Rightarrow> int option \<Rightarrow> int \<Rightarrow> int result" where
  "applyNonNegativeIntConfig seen flagName val target =
    (case val of
       None \<Rightarrow> Inr target
     | Some v \<Rightarrow> if seen flagName then Inr target else if v < 0 then Inl (Errorf ''must not be negative'') else Inr v)"

definition applyDurationConfig ::
  "(string \<Rightarrow> duration option) \<Rightarrow> (string \<Rightarrow> bool) \<Rightarrow> string \<Rightarrow> string option \<Rightarrow> duration \<Rightarrow> duration result" where
  "applyDurationConfig ParseDuration seen flagName val target =
    (case val of
       None \<Rightarrow> Inr target
     | Some v \<Rightarrow>
         if seen flagName then Inr target
         else
           (case ParseDuration v of
              None \<Rightarrow> Inl (Errorf ''invalid duration'')
            | Some parsed \<Rightarrow> if parsed \<le> 0 then Inl (Errorf ''must be positive'') else Inr parsed))"

definition applyNonNegativeDurationConfig ::
  "(string \<Rightarrow> duration option) \<Rightarrow> (string \<Rightarrow> bool) \<Rightarrow> string \<Rightarrow> string option \<Rightarrow> duration \<Rightarrow> duration result" where
  "applyNonNegativeDurationConfig ParseDuration seen flagName val target =
    (case val of
       None \<Rightarrow> Inr target
     | Some v \<Rightarrow>
         if seen flagName then Inr target
         else
           (case ParseDuration v of
              None \<Rightarrow> Inl (Errorf ''invalid duration'')
            | Some parsed \<Rightarrow> if parsed < 0 then Inl (Errorf ''must not be negative'') else Inr parsed))"

text \<open>The aliases, resolved into the primary fields.\<close>

definition resolveAliases :: "FileConfig \<Rightarrow> FileConfig result" where
  "resolveAliases fc =
    rbind (singleConfigAlias ''allow_target'' ''allow-target'' (fcAllowTarget fc) (fcAllowTargetFlag fc)) (\<lambda>allowTarget.
    rbind (singleConfigAlias ''deny_target'' ''deny-target'' (fcDenyTarget fc) (fcDenyTargetFlag fc)) (\<lambda>denyTarget.
    rbind (singleConfigAlias ''allow_host'' ''allow-host'' (fcAllowHost fc) (fcAllowHostFlag fc)) (\<lambda>allowHost.
    rbind (singleConfigAlias ''deny_host'' ''deny-host'' (fcDenyHost fc) (fcDenyHostFlag fc)) (\<lambda>denyHost.
    rbind (singleConfigAlias ''max_clients'' ''max-clients'' (fcMaxClients fc) (fcMaxClientsFlag fc)) (\<lambda>maxClients.
    rbind (singleConfigAlias ''max_streams'' ''max-streams'' (fcMaxStreams fc) (fcMaxStreamsFlag fc)) (\<lambda>maxStreams.
    rbind (singleConfigAlias ''client_ca'' ''client-ca'' (fcClientCA fc) (fcClientCAFlag fc)) (\<lambda>clientCA.
    rbind (singleConfigAlias ''client_cert'' ''client-cert'' (fcClientCert fc) (fcClientCertFlag fc)) (\<lambda>clientCert.
    rbind (singleConfigAlias ''client_key'' ''client-key'' (fcClientKey fc) (fcClientKeyFlag fc)) (\<lambda>clientKey.
    rbind (singleConfigAlias ''ech_domain'' ''ech-domain'' (fcECHDomain fc) (fcECHDomainFlag fc)) (\<lambda>echDomainVal.
    rbind (singleConfigAlias ''cipher_pref'' ''cipher-pref'' (fcCipherPref fc) (fcCipherPrefFlag fc)) (\<lambda>cipherPrefVal.
    rbind (singleConfigAlias ''pacing_rate_mbps'' ''pacing-rate-mbps'' (fcPacingRateMbps fc) (fcPacingRateMbpsFlag fc)) (\<lambda>pacingRateVal.
    rbind (singleConfigAlias ''shaping_coalesce_ms'' ''shaping-coalesce-ms'' (fcShapingCoalesceMs fc) (fcShapingCoalesceMsFlag fc)) (\<lambda>shapingCoalesceVal.
    rbind (singleConfigAlias ''transport'' ''transport_mode'' (fcTransport fc) (fcTransportFlag fc)) (\<lambda>transportVal.
    rbind (singleConfigAlias ''quic_port'' ''quic-port'' (fcQuicPort fc) (fcQuicPortFlag fc)) (\<lambda>quicPortVal.
    rbind (singleConfigAlias ''enable_datagram'' ''enable-datagram'' (fcEnableDatagram fc) (fcEnableDatagramFlag fc)) (\<lambda>enableDatagramVal.
    rbind (singleConfigAlias ''cover_traffic'' ''cover-traffic'' (fcCoverTraffic fc) (fcCoverTrafficFlag fc)) (\<lambda>coverTrafficVal.
      Inr (fc\<lparr>fcAllowTarget := allowTarget, fcDenyTarget := denyTarget, fcAllowHost := allowHost, fcDenyHost := denyHost,
        fcMaxClients := maxClients, fcMaxStreams := maxStreams, fcClientCA := clientCA, fcClientCert := clientCert,
        fcClientKey := clientKey, fcECHDomain := echDomainVal, fcCipherPref := cipherPrefVal, fcPacingRateMbps := pacingRateVal,
        fcShapingCoalesceMs := shapingCoalesceVal, fcTransport := transportVal, fcQuicPort := quicPortVal,
        fcEnableDatagram := enableDatagramVal, fcCoverTraffic := coverTrafficVal\<rparr>))))))))))))))))))"

text \<open>The fields that cannot fail, and those that can in the order the code checks them.\<close>

definition applyPlainFields :: "(string \<Rightarrow> bool) \<Rightarrow> FileConfig \<Rightarrow> runtimeValues \<Rightarrow> runtimeValues" where
  "applyPlainFields seen fc v =
    v\<lparr>rvListenAddr := applyStringConfig seen ''l'' (fcListen fc) (rvListenAddr v),
      rvForwardAddr := applyStringConfig seen ''f'' (fcForward fc) (rvForwardAddr v),
      rvIPAddr := applyStringConfig seen ''ip'' (fcIP fc) (rvIPAddr v),
      rvUDPBlockPortsStr := applyStringConfig seen ''block'' (fcBlock fc) (rvUDPBlockPortsStr v),
      rvCertFile := applyStringConfig seen ''cert'' (fcCert fc) (rvCertFile v),
      rvKeyFile := applyStringConfig seen ''key'' (fcKey fc) (rvKeyFile v),
      rvClientCAFile := applyStringConfig seen ''client-ca'' (fcClientCA fc) (rvClientCAFile v),
      rvClientCertFile := applyStringConfig seen ''client-cert'' (fcClientCert fc) (rvClientCertFile v),
      rvClientKeyFile := applyStringConfig seen ''client-key'' (fcClientKey fc) (rvClientKeyFile v),
      rvToken := applyStringConfig seen ''token'' (fcToken fc) (rvToken v),
      rvMetricsAddr := applyStringConfig seen ''metrics'' (fcMetrics fc) (rvMetricsAddr v),
      rvCIDRs := applyStringConfig seen ''cidr'' (fcCIDR fc) (rvCIDRs v),
      rvTargetAllowCIDRs := applyStringConfig seen ''allow-target'' (fcAllowTarget fc) (rvTargetAllowCIDRs v),
      rvTargetDenyCIDRs := applyStringConfig seen ''deny-target'' (fcDenyTarget fc) (rvTargetDenyCIDRs v),
      rvTargetAllowHosts := applyStringConfig seen ''allow-host'' (fcAllowHost fc) (rvTargetAllowHosts v),
      rvTargetDenyHosts := applyStringConfig seen ''deny-host'' (fcDenyHost fc) (rvTargetDenyHosts v),
      rvDNSServer := applyStringConfig seen ''dns'' (fcDNS fc) (rvDNSServer v),
      rvEnableECH := applyValue seen ''ech'' (fcECH fc) (rvEnableECH v),
      rvECHDomain := applyStringConfig seen ''ech-domain'' (fcECHDomain fc) (rvECHDomain v),
      rvIPS := applyStringConfig seen ''ips'' (fcIPS fc) (rvIPS v),
      rvCipherPref := applyStringConfig seen ''cipher-pref'' (fcCipherPref fc) (rvCipherPref v),
      rvRulesPath := applyStringConfig seen ''rules-path'' (fcRulesPath fc) (rvRulesPath v),
      rvGeoDir := applyStringConfig seen ''geo-dir'' (fcGeoDir fc) (rvGeoDir v),
      rvRouteEnabled := applyValue seen ''route-enabled'' (fcRouteEnabled fc) (rvRouteEnabled v),
      rvSNISniff := applyValue seen ''sni'' (fcSNI fc) (rvSNISniff v),
      rvConnectionNum := applyValue seen ''n'' (fcConnections fc) (rvConnectionNum v),
      rvInsecure := applyValue seen ''insecure'' (fcInsecure fc) (rvInsecure v),
      rvFallback := applyValue seen ''fallback'' (fcFallback fc) (rvFallback v),
      rvTransportMode := applyStringConfig seen ''transport'' (fcTransport fc) (rvTransportMode v),
      rvEnableDatagram := applyValue seen ''enable-datagram'' (fcEnableDatagram fc) (rvEnableDatagram v),
      rvCoverTraffic := applyValue seen ''cover-traffic'' (fcCoverTraffic fc) (rvCoverTraffic v),
      rvWebSocketFrontProxy := (case fcWebSocketFrontProxy fc of Some c \<Rightarrow> c | None \<Rightarrow> zeroFrontProxy)\<rparr>"

definition applyLimits :: "(string \<Rightarrow> bool) \<Rightarrow> FileConfig \<Rightarrow> runtimeValues \<Rightarrow> runtimeValues result" where
  "applyLimits seen fc v =
    rbind (applyNonNegativeFloat64Config seen ''pacing-rate-mbps'' (fcPacingRateMbps fc) (rvPacingRateMbps v)) (\<lambda>pacing.
    rbind (applyNonNegativeIntConfig seen ''shaping-coalesce-ms'' (fcShapingCoalesceMs fc) (rvShapingCoalesceMs v)) (\<lambda>shaping.
    rbind (applyNonNegativeIntConfig seen ''max-clients'' (fcMaxClients fc) (rvMaxClientSessions v)) (\<lambda>maxClients.
    rbind (applyNonNegativeIntConfig seen ''max-streams'' (fcMaxStreams fc) (rvMaxStreamsPerClient v)) (\<lambda>maxStreams.
    rbind (applyNonNegativeIntConfig seen ''quic-port'' (fcQuicPort fc) (rvQuicPort v)) (\<lambda>quicPort.
      Inr (v\<lparr>rvPacingRateMbps := pacing, rvShapingCoalesceMs := shaping, rvMaxClientSessions := maxClients,
        rvMaxStreamsPerClient := maxStreams, rvQuicPort := quicPort\<rparr>))))))"

definition applyTimeouts :: "(string \<Rightarrow> duration option) \<Rightarrow> (string \<Rightarrow> bool) \<Rightarrow> FileConfig \<Rightarrow> GlobalConfig \<Rightarrow> GlobalConfig result" where
  "applyTimeouts PD seen fc g =
    rbind (applyDurationConfig PD seen ''dial-timeout'' (fcDialTimeout fc) (gcDialTimeout g)) (\<lambda>dial.
    rbind (applyDurationConfig PD seen ''ws-handshake-timeout'' (fcWSHandshakeTimeout fc) (gcWSHandshakeTimeout g)) (\<lambda>wsHandshake.
    rbind (applyDurationConfig PD seen ''reconnect-delay'' (fcReconnectDelay fc) (gcReconnectDelay g)) (\<lambda>reconnect.
    rbind (applyDurationConfig PD seen ''reconnect-max-delay'' (fcReconnectMaxDelay fc) (gcReconnectMaxDelay g)) (\<lambda>reconnectMax.
    rbind (applyNonNegativeDurationConfig PD seen ''reconnect-jitter'' (fcReconnectJitter fc) (gcReconnectJitter g)) (\<lambda>jitter.
    rbind (applyDurationConfig PD seen ''rtt-timeout'' (fcRTTProbeTimeout fc) (gcRTTProbeTimeout g)) (\<lambda>rtt.
    rbind (applyDurationConfig PD seen ''dns-timeout'' (fcDNSQueryTimeout fc) (gcDNSQueryTimeout g)) (\<lambda>dns.
    rbind (applyNonNegativeDurationConfig PD seen ''dns-cache-ttl'' (fcDNSCacheTTL fc) (gcDNSCacheTTL g)) (\<lambda>ttl.
    rbind (applyDurationConfig PD seen ''ech-retry-delay'' (fcECHRetryDelay fc) (gcECHRetryDelay g)) (\<lambda>echRetry.
    rbind (applyDurationConfig PD seen ''udp-read-timeout'' (fcUDPReadTimeout fc) (gcUDPReadTimeout g)) (\<lambda>udpRead.
    rbind (applyDurationConfig PD seen ''shutdown-timeout'' (fcShutdownTimeout fc) (gcShutdownTimeout g)) (\<lambda>shutdown.
    rbind (applyNonNegativeDurationConfig PD seen ''auth-skew'' (fcAuthSkew fc) (gcAuthSkew g)) (\<lambda>skew.
    rbind (applyDurationConfig PD seen ''preauth-timeout'' (fcPreAuthTimeout fc) (gcPreAuthTimeout g)) (\<lambda>preauth.
      Inr (g\<lparr>gcDialTimeout := dial, gcWSHandshakeTimeout := wsHandshake, gcReconnectDelay := reconnect,
        gcReconnectMaxDelay := reconnectMax, gcReconnectJitter := jitter, gcRTTProbeTimeout := rtt, gcDNSQueryTimeout := dns,
        gcDNSCacheTTL := ttl, gcECHRetryDelay := echRetry, gcUDPReadTimeout := udpRead, gcShutdownTimeout := shutdown,
        gcAuthSkew := skew, gcPreAuthTimeout := preauth\<rparr>))))))))))))))"

text \<open>What the decoder finds behind the object: the end, an error, or another value.\<close>

datatype json_rest = RestEOF | RestError go_error | RestValue

definition applyConfigJSONToValues ::
  "(string \<Rightarrow> duration option) \<Rightarrow> FileConfig result \<Rightarrow> json_rest \<Rightarrow> (string \<Rightarrow> bool) \<Rightarrow> runtimeValues \<Rightarrow> runtimeValues result" where
  "applyConfigJSONToValues PD decoded rest seen values =
    rbind decoded (\<lambda>fc.
      case rest of
        RestError e \<Rightarrow> Inl e
      | RestValue \<Rightarrow> Inl (Errorf ''only one JSON object'')
      | RestEOF \<Rightarrow>
          rbind (resolveAliases fc) (\<lambda>fc.
          rbind (applyLimits seen fc (applyPlainFields seen fc values)) (\<lambda>values.
          rbind (applyTimeouts PD seen fc (rvGlobal values)) (\<lambda>g. Inr (values\<lparr>rvGlobal := g\<rparr>)))))"

section \<open>Validation\<close>

definition splitCommaList :: "unicode_lib \<Rightarrow> string \<Rightarrow> string list" where
  "splitCommaList U raw = filter (\<lambda>t. t \<noteq> []) (map (TrimSpace U) (Split (CHR '','') raw))"

text \<open>\<open>strconv.ParseUint(p, 10, 8)\<close>: digits, and no more than eight bits.\<close>

definition ParseUint8 :: "string \<Rightarrow> byte option" where
  "ParseUint8 p = (if p = [] \<or> \<not> list_all isDigit p \<or> digits_value p > 255 then None else Some (word_of_nat (digits_value p)))"

fun cipherItems :: "unicode_lib \<Rightarrow> string list \<Rightarrow> bytes result" where
  "cipherItems U [] = Inr []"
| "cipherItems U (part # parts) =
    (let p = TrimSpace U part in
     if p = [] then Inl (Errorf ''empty cipher ID'')
     else
       (case ParseUint8 p of
          None \<Rightarrow> Inl (Errorf ''invalid cipher ID'')
        | Some cid \<Rightarrow>
            if cid \<notin> set V3SupportedCiphers then Inl (Errorf ''unsupported cipher ID'')
            else rbind (cipherItems U parts) (\<lambda>rest. Inr (cid # rest))))"

definition parseCipherPreference :: "unicode_lib \<Rightarrow> string \<Rightarrow> bytes result" where
  "parseCipherPreference U raw =
    (let trimmed = TrimSpace U raw in
     if trimmed = [] then Inl (Errorf ''empty cipher preference'')
     else
       (let parts = Split (CHR '','') trimmed in
        if length parts > 8 then Inl (Errorf ''too many ciphers'')
        else
          rbind (cipherItems U parts) (\<lambda>result.
            if result = [] then Inl (Errorf ''empty cipher preference'') else Inr result)))"

definition defaultCipherPreference :: bytes where
  "defaultCipherPreference = V3SupportedCiphers"

definition clientCipherPreference :: "unicode_lib \<Rightarrow> bytes \<Rightarrow> string \<Rightarrow> bytes" where
  "clientCipherPreference U configuredCipherPref cipherPrefStr =
    (if configuredCipherPref \<noteq> [] then configuredCipherPref
     else
       (case parseCipherPreference U cipherPrefStr of
          Inr parsed \<Rightarrow> if parsed \<noteq> [] then parsed else defaultCipherPreference
        | Inl _ \<Rightarrow> defaultCipherPreference))"

fun portItems :: "string list \<Rightarrow> int list result" where
  "portItems [] = Inr []"
| "portItems (part # parts) =
    (case Atoi part of
       None \<Rightarrow> Inl (Errorf ''port out of range'')
     | Some port \<Rightarrow>
         if port \<le> 0 \<or> port > 65535 then Inl (Errorf ''port out of range'')
         else rbind (portItems parts) (\<lambda>ports. Inr (port # ports)))"

definition parseUDPBlockPorts :: "unicode_lib \<Rightarrow> string \<Rightarrow> int set result" where
  "parseUDPBlockPorts U raw = rbind (portItems (splitCommaList U raw)) (\<lambda>ports. Inr (set ports))"

text \<open>A byte below 32 or equal to 127 is a rune of its own; the other bytes belong to larger runes.\<close>

definition validateToken :: "string \<Rightarrow> unit result" where
  "validateToken val = (if list_ex (\<lambda>r. ord r < 32 \<or> ord r = 127) val then Inl (Errorf ''control characters'') else Inr ())"

definition validateCertificatePair :: "string \<Rightarrow> string \<Rightarrow> unit result" where
  "validateCertificatePair certPath keyPath =
    (if certPath = [] \<and> keyPath = [] then Inr ()
     else if certPath = [] \<or> keyPath = [] then Inl (Errorf ''certificate and key'')
     else Inr ())"

definition validateGlobalConfigValues :: "GlobalConfig \<Rightarrow> int \<Rightarrow> int \<Rightarrow> unit result" where
  "validateGlobalConfigValues g maxClients maxStreams =
    (if list_ex (\<lambda>value. value \<le> 0)
          [gcDialTimeout g, gcWSHandshakeTimeout g, gcReconnectDelay g, gcReconnectMaxDelay g, gcRTTProbeTimeout g,
           gcDNSQueryTimeout g, gcECHRetryDelay g, gcUDPReadTimeout g, gcShutdownTimeout g, gcPreAuthTimeout g]
     then Inl (Errorf ''must be positive'')
     else if gcReconnectJitter g < 0 then Inl (Errorf ''reconnect-jitter'')
     else if gcAuthSkew g < 0 then Inl (Errorf ''auth-skew'')
     else if gcReconnectMaxDelay g < gcReconnectDelay g then Inl (Errorf ''reconnect-max-delay'')
     else if maxClients < 0 then Inl (Errorf ''max-clients'')
     else if maxStreams < 0 then Inl (Errorf ''max-streams'')
     else Inr ())"

definition validateMTLSConfigValues :: "bool \<Rightarrow> string \<Rightarrow> runtimeValues \<Rightarrow> unit result" where
  "validateMTLSConfigValues isServer serverScheme values =
    rbind (validateCertificatePair (rvCertFile values) (rvKeyFile values)) (\<lambda>_.
    rbind (validateCertificatePair (rvClientCertFile values) (rvClientKeyFile values)) (\<lambda>_.
      if isServer then
        (if rvClientCAFile values \<noteq> [] \<and> serverScheme \<noteq> ''wss'' then Inl (Errorf ''client-ca without wss'')
         else if rvClientCertFile values \<noteq> [] \<or> rvClientKeyFile values \<noteq> [] then Inl (Errorf ''client certificate in server mode'')
         else Inr ())
      else if rvCertFile values \<noteq> [] \<or> rvKeyFile values \<noteq> [] then Inl (Errorf ''server certificate in client mode'')
      else if rvClientCAFile values \<noteq> [] then Inl (Errorf ''client-ca in client mode'')
      else Inr ()))"

definition validateDialIPOverride :: "unicode_lib \<Rightarrow> string \<Rightarrow> unit result" where
  "validateDialIPOverride U val =
    (case SplitHostPort val of
       Inr (host, port) \<Rightarrow>
         if TrimSpace U port = [] then Inl (Errorf ''empty port'')
         else
           (case Atoi port of
              None \<Rightarrow> Inl (Errorf ''port out of range'')
            | Some p \<Rightarrow>
                if p \<le> 0 \<or> p > 65535 then Inl (Errorf ''port out of range'')
                else if ParseIP host = None then validateDNSName host
                else Inr ())
     | Inl _ \<Rightarrow> if ParseIP val = None then validateDNSName val else Inr ())"

definition parseTCPForwardRule :: "unicode_lib \<Rightarrow> 'r url_lib \<Rightarrow> string \<Rightarrow> (string \<times> string) result" where
  "parseTCPForwardRule U L rule =
    rbind (url_Parse L rule) (\<lambda>u.
      if ToLower U (urlScheme u) \<noteq> ''tcp'' then Inl (Errorf ''tcp rule'')
      else
        (let listen = TrimSpace U (urlHost u);
             target = TrimSpace U (TrimPrefix (urlPath u) ''/'')
         in if listen = [] \<or> target = [] \<or> CHR ''/'' \<in> set target then Inl (Errorf ''tcp rule'') else Inr (listen, target)))"

definition validateListenRule :: "unicode_lib \<Rightarrow> 'r url_lib \<Rightarrow> string \<Rightarrow> unit result" where
  "validateListenRule U L rule =
    rbind (url_Parse L rule) (\<lambda>u.
      let scheme = ToLower U (urlScheme u) in
      if scheme \<in> {''ws'', ''wss'', ''socks5'', ''http''} then
        (if urlHost u = [] then Inl (Errorf ''host:port'')
         else
           rbind
             (case urlUser u of
                Some ui \<Rightarrow>
                  if scheme = ''socks5'' \<or> scheme = ''http'' then
                    (if uiUsername ui = [] \<or> uiPassword ui = None \<or> the (uiPassword ui) = [] then Inl (Errorf ''user:pass'')
                     else if scheme = ''socks5'' then validateSOCKS5AuthLength (uiUsername ui) (the (uiPassword ui))
                     else Inr ())
                  else Inr ()
              | None \<Rightarrow> Inr ())
             (\<lambda>_. ValidateListenHostPort U (urlHost u)))
      else if scheme = ''tcp'' then
        rbind (parseTCPForwardRule U L rule) (\<lambda>(listen, target).
        rbind (ValidateListenHostPort U listen) (\<lambda>_.
          ValidateHostPort U target))
      else Inl (Errorf ''listen scheme''))"

record listenerStartupConfig =
  lsRaw :: string
  lsScheme :: string

definition normalizeURLScheme :: "string \<Rightarrow> string \<Rightarrow> string" where
  "normalizeURLScheme raw scheme =
    (case IndexByte (CHR '':'') raw of
       None \<Rightarrow> raw
     | Some i \<Rightarrow> if i = 0 \<or> scheme = [] then raw else scheme @ drop i raw)"

text \<open>The loop of \<open>classifyListeners\<close>: the listeners, the server listener and the number of those.\<close>

fun listenerLoop :: "unicode_lib \<Rightarrow> 'r url_lib \<Rightarrow> string list \<Rightarrow> listenerStartupConfig list \<Rightarrow> string \<times> string \<times> nat \<Rightarrow>
    (listenerStartupConfig list \<times> string \<times> string \<times> nat) result" where
  "listenerLoop U L [] listeners (serverListen, serverScheme, serverListeners) =
    Inr (listeners, serverListen, serverScheme, serverListeners)"
| "listenerLoop U L (l # ls) listeners (serverListen, serverScheme, serverListeners) =
    rbind (url_Parse L l) (\<lambda>u.
      let scheme = ToLower U (urlScheme u);
          normalized = normalizeURLScheme l scheme
      in rbind (validateListenRule U L normalized) (\<lambda>_.
           listenerLoop U L ls (listeners @ [\<lparr>lsRaw = normalized, lsScheme = scheme\<rparr>])
             (if scheme = ''ws'' \<or> scheme = ''wss'' then (normalized, scheme, serverListeners + 1)
              else (serverListen, serverScheme, serverListeners))))"

definition classifyListeners :: "unicode_lib \<Rightarrow> 'r url_lib \<Rightarrow> string \<Rightarrow> (listenerStartupConfig list \<times> bool \<times> string \<times> string) result" where
  "classifyListeners U L raw =
    (let listenerStrings = splitCommaList U raw in
     if listenerStrings = [] then Inl (Errorf ''no listener'')
     else
       rbind (listenerLoop U L listenerStrings [] ([], [], 0)) (\<lambda>(listeners, serverListen, serverScheme, serverListeners).
         let isServer = (serverListeners > 0) in
         if isServer \<and> (serverListeners \<noteq> 1 \<or> length listeners \<noteq> 1) then Inl (Errorf ''mixed listeners'')
         else Inr (listeners, isServer, serverListen, serverScheme)))"

definition validateECHLookupConfig :: "unicode_lib \<Rightarrow> fold_lib \<Rightarrow> 'r url_lib \<Rightarrow> string \<Rightarrow> string \<Rightarrow> unit result" where
  "validateECHLookupConfig U F L domain server0 =
    rbind (buildDNSQuery U domain typeHTTPS) (\<lambda>_.
      let server = TrimSpace U server0 in
      if server = [] then Inl (Errorf ''empty DNS server'')
      else if HasPrefix server ''http://'' \<or> HasPrefix server ''https://'' then
        rbind (url_Parse L server) (\<lambda>u.
          if urlHost u = [] then Inl (Errorf ''DoH URL without host'')
          else if urlUser u \<noteq> None then Inl (Errorf ''DoH URL with userinfo'')
          else
            rbind (normalizeHTTPProxyAuthority U (urlHost u) (if strEqualFold F (urlScheme u) ''http'' then ''80'' else ''443''))
              (\<lambda>_. Inr ()))
      else if str_Contains server ''://'' then Inl (Errorf ''DNS server scheme'')
      else ValidateHostPort U (if CHR '':'' \<notin> set server then server @ '':53'' else server))"

record clientStartupConfig =
  csForwardScheme :: string
  csFallback :: bool
  csAutoFallback :: bool
  csUDPBlockPorts :: "int set"
  csEnableECH :: bool
  csCipherPref :: bytes
  csPacingRateMbps :: rat
  csShapingCoalesceMs :: int

definition zeroClient :: clientStartupConfig where
  "zeroClient = \<lparr>csForwardScheme = [], csFallback = False, csAutoFallback = False, csUDPBlockPorts = {}, csEnableECH = False,
     csCipherPref = [], csPacingRateMbps = 0, csShapingCoalesceMs = 0\<rparr>"

record startupConfig =
  scListeners :: "listenerStartupConfig list"
  scIsServer :: bool
  scServerListen :: string
  scServerScheme :: string
  scTargetIPs :: "string list"
  scIPStrategy :: byte
  scSourceCIDRs :: "IPNet list"
  scTargetPolicy :: "TargetPolicy option"
  scSOCKS5Config :: "SOCKS5Config option"
  scClient :: clientStartupConfig

definition validateServerStartupConfig ::
  "unicode_lib \<Rightarrow> string \<Rightarrow> string \<Rightarrow> string \<Rightarrow> string \<Rightarrow> string \<Rightarrow> (TargetPolicy \<times> SOCKS5Config option) result" where
  "validateServerStartupConfig U forward allowCIDRs denyCIDRs allowHosts denyHosts =
    rbind (parseTargetPolicy U allowCIDRs denyCIDRs allowHosts denyHosts) (\<lambda>policy.
      if forward = [] then Inr (policy, None)
      else
        rbind (parseSOCKS5Addr U forward) (\<lambda>config.
        rbind (ValidateHostPort U (s5Host config)) (\<lambda>_. Inr (policy, Some config))))"

definition validateClientStartupConfig ::
  "unicode_lib \<Rightarrow> 'r url_lib \<Rightarrow> string \<Rightarrow> int \<Rightarrow> string \<Rightarrow> string \<Rightarrow> bool \<Rightarrow> bool \<Rightarrow> bool \<Rightarrow> string \<Rightarrow> clientStartupConfig result" where
  "validateClientStartupConfig U L forward connections clientCert clientKey insecureMode fallbackMode enableECHMode blockPortsRaw =
    (if forward = [] then Inl (Errorf ''no server address'')
     else if connections \<le> 0 then Inl (Errorf ''-n must be positive'')
     else
       rbind (url_Parse L forward) (\<lambda>forwardURL.
         let scheme = ToLower U (urlScheme forwardURL) in
         if scheme \<noteq> ''wss'' \<and> scheme \<noteq> ''ws'' then Inl (Errorf ''forward scheme'')
         else if urlHost forwardURL = [] then Inl (Errorf ''forward host'')
         else if (clientCert \<noteq> [] \<or> clientKey \<noteq> []) \<and> scheme \<noteq> ''wss'' then Inl (Errorf ''client certificate without wss'')
         else
           rbind (parseUDPBlockPorts U blockPortsRaw) (\<lambda>ports.
             let fallback = (if \<not> enableECHMode then True else fallbackMode);
                 auto = (scheme = ''wss'' \<and> insecureMode \<and> \<not> fallback)
             in Inr \<lparr>csForwardScheme = scheme, csFallback = (fallback \<or> auto), csAutoFallback = auto, csUDPBlockPorts = ports,
                  csEnableECH = enableECHMode, csCipherPref = [], csPacingRateMbps = 0, csShapingCoalesceMs = 0\<rparr>)))"

fun validateTargetIPs :: "unicode_lib \<Rightarrow> string list \<Rightarrow> unit result" where
  "validateTargetIPs U [] = Inr ()"
| "validateTargetIPs U (ip # ips) = rbind (validateDialIPOverride U ip) (\<lambda>_. validateTargetIPs U ips)"

text \<open>
  \<open>validateStartupConfigValues\<close> in parts: the checks both modes share, and those of each mode.
  \<open>configuredCipherPref\<close>, which the client branch sets, is the \<open>csCipherPref\<close> of the result.
\<close>

definition validateCommon :: "unicode_lib \<Rightarrow> 'r url_lib \<Rightarrow> runtimeValues \<Rightarrow> (startupConfig \<times> bytes) result" where
  "validateCommon U L v =
    rbind (validateToken (rvToken v)) (\<lambda>_.
    rbind (validateGlobalConfigValues (rvGlobal v) (rvMaxClientSessions v) (rvMaxStreamsPerClient v)) (\<lambda>_.
    if rvPacingRateMbps v < 0 then Inl (Errorf ''pacing-rate-mbps'')
    else if rvShapingCoalesceMs v < 0 then Inl (Errorf ''shaping-coalesce-ms'')
    else if ToLower U (TrimSpace U (rvTransportMode v)) \<notin> {[], ''auto'', ''quic'', ''tcp''} then Inl (Errorf ''transport mode'')
    else
      rbind (parseCipherPreference U (rvCipherPref v)) (\<lambda>parsedCipherPref.
      rbind (if rvMetricsAddr v \<noteq> [] then ValidateListenHostPortAllowZero U (rvMetricsAddr v) else Inr ()) (\<lambda>_.
      rbind (validateTargetIPs U (splitCommaList U (rvIPAddr v))) (\<lambda>_.
      rbind (parseIPStrategyStrict U (rvIPS v)) (\<lambda>ipStrategyValue.
      rbind (classifyListeners U L (rvListenAddr v)) (\<lambda>(listeners, isServer, serverListen, serverScheme).
      rbind (validateMTLSConfigValues isServer serverScheme v) (\<lambda>_.
        Inr (\<lparr>scListeners = listeners, scIsServer = isServer, scServerListen = serverListen, scServerScheme = serverScheme,
          scTargetIPs = splitCommaList U (rvIPAddr v), scIPStrategy = ipStrategyValue, scSourceCIDRs = [], scTargetPolicy = None,
          scSOCKS5Config = None, scClient = zeroClient\<rparr>, parsedCipherPref)))))))))"

definition startServer :: "unicode_lib \<Rightarrow> runtimeValues \<Rightarrow> startupConfig \<Rightarrow> startupConfig result" where
  "startServer U v startup =
    rbind (parseSourceCIDRs U (rvCIDRs v)) (\<lambda>sourceNets.
    rbind (validateServerStartupConfig U (rvForwardAddr v) (rvTargetAllowCIDRs v) (rvTargetDenyCIDRs v)
             (rvTargetAllowHosts v) (rvTargetDenyHosts v)) (\<lambda>(policy, socksConfig).
      Inr (startup\<lparr>scSourceCIDRs := sourceNets, scTargetPolicy := Some policy, scSOCKS5Config := socksConfig\<rparr>)))"

definition startClient :: "unicode_lib \<Rightarrow> fold_lib \<Rightarrow> 'r url_lib \<Rightarrow> runtimeValues \<Rightarrow> startupConfig \<Rightarrow> bytes \<Rightarrow> startupConfig result" where
  "startClient U F L v startup parsedCipherPref =
    rbind (validateClientStartupConfig U L (rvForwardAddr v) (rvConnectionNum v) (rvClientCertFile v) (rvClientKeyFile v)
             (rvInsecure v) (rvFallback v) (rvEnableECH v) (rvUDPBlockPortsStr v)) (\<lambda>clientConfig.
    rbind (if csForwardScheme clientConfig = ''wss'' \<and> \<not> csFallback clientConfig
           then validateECHLookupConfig U F L (rvECHDomain v) (rvDNSServer v) else Inr ()) (\<lambda>_.
    rbind (validateWebSocketFrontProxyConfig U F (rvWebSocketFrontProxy v)) (\<lambda>_.
      Inr (startup\<lparr>scClient := clientConfig\<lparr>csCipherPref := parsedCipherPref, csPacingRateMbps := rvPacingRateMbps v,
        csShapingCoalesceMs := rvShapingCoalesceMs v\<rparr>\<rparr>))))"

definition validateStartupConfigValues :: "unicode_lib \<Rightarrow> fold_lib \<Rightarrow> 'r url_lib \<Rightarrow> runtimeValues \<Rightarrow> startupConfig result" where
  "validateStartupConfigValues U F L v =
    rbind (validateCommon U L v) (\<lambda>(startup, parsedCipherPref).
      if scIsServer startup then startServer U v startup else startClient U F L v startup parsedCipherPref)"

text \<open>\<open>LoadConfig\<close> with the file's decoded content, if there is a file; \<open>CheckConfigJSON\<close>.\<close>

definition LoadConfig ::
  "unicode_lib \<Rightarrow> fold_lib \<Rightarrow> 'r url_lib \<Rightarrow> (string \<Rightarrow> duration option) \<Rightarrow> (FileConfig result \<times> json_rest) option \<Rightarrow>
   (string \<Rightarrow> bool) \<Rightarrow> runtimeValues \<Rightarrow> (runtimeValues \<times> startupConfig) result" where
  "LoadConfig U F L PD file overrides current =
    rbind (case file of None \<Rightarrow> Inr current | Some (decoded, rest) \<Rightarrow> applyConfigJSONToValues PD decoded rest overrides current) (\<lambda>values.
      if TrimSpace U (rvListenAddr values) = [] then Inl (Errorf ''no listener'')
      else rbind (validateStartupConfigValues U F L values) (\<lambda>startup. Inr (values, startup)))"

definition CheckConfigJSON ::
  "unicode_lib \<Rightarrow> fold_lib \<Rightarrow> 'r url_lib \<Rightarrow> (string \<Rightarrow> duration option) \<Rightarrow> FileConfig result \<times> json_rest \<Rightarrow> unit result" where
  "CheckConfigJSON U F L PD file =
    rbind (applyConfigJSONToValues PD (fst file) (snd file) (\<lambda>_. False) defaultRuntimeValues) (\<lambda>values.
      if TrimSpace U (rvListenAddr values) = [] then Inl (Errorf ''no listener'')
      else rbind (validateStartupConfigValues U F L values) (\<lambda>_. Inr ()))"

section \<open>Reconnecting\<close>

fun reconnectLoop :: "duration \<Rightarrow> nat \<Rightarrow> duration \<Rightarrow> duration" where
  "reconnectLoop maxDelay 0 delay = delay"
| "reconnectLoop maxDelay (Suc n) delay =
    (if maxDelay > 0 \<and> delay \<ge> maxDelay then maxDelay
     else
       (let delay = int64 (delay * 2) in
        if maxDelay > 0 \<and> delay > maxDelay then maxDelay else reconnectLoop maxDelay n delay))"

definition baseReconnectDelay :: "GlobalConfig \<Rightarrow> int \<Rightarrow> duration" where
  "baseReconnectDelay g attempt =
    (if gcReconnectDelay g \<le> 0 then 0 else reconnectLoop (gcReconnectMaxDelay g) (nat attempt) (gcReconnectDelay g))"

text \<open>\<open>random\<close> is what \<open>randomDuration\<close> returns for a limit; integer division truncates toward zero.\<close>

definition reconnectDelay :: "(duration \<Rightarrow> duration) \<Rightarrow> GlobalConfig \<Rightarrow> int \<Rightarrow> duration" where
  "reconnectDelay random g attempt =
    (let delay = baseReconnectDelay g attempt in
     if delay \<le> 0 \<or> gcReconnectJitter g \<le> 0 then delay
     else
       (let half = delay div 2;
            jitterLimit = (if half > 0 \<and> half < gcReconnectJitter g then half else gcReconnectJitter g)
        in int64 (delay + random jitterLimit)))"

section \<open>Lemmas\<close>

lemma cipherItems_supported: "cipherItems U ps = Inr r \<Longrightarrow> length r = length ps \<and> set r \<subseteq> set V3SupportedCiphers"
  by (induction ps arbitrary: r) (fastforce simp: Let_def rbind_eq_Inr split: if_splits option.splits)+

lemma parseCipherPreference_ok:
  assumes "parseCipherPreference U raw = Inr r"
  shows "r \<noteq> [] \<and> length r \<le> 8 \<and> set r \<subseteq> set V3SupportedCiphers \<and> NegotiateCipherV3 r = (hd r, 0, [])"
proof -
  have r: "r \<noteq> []" "length r \<le> 8" "set r \<subseteq> set V3SupportedCiphers"
    using assms by (auto simp: parseCipherPreference_def Let_def rbind_eq_Inr dest: cipherItems_supported split: if_splits)
  then have "isSupportedCipherV3 (hd r)" by (cases r) (auto simp: isSupportedCipherV3_def V3SupportedCiphers_def)
  then have "NegotiateCipherV3 r = (hd r, 0, [])" using r(1) by (cases r) (simp_all add: NegotiateCipherV3_def)
  then show ?thesis using r by blast
qed

lemma portItems_range: "portItems ps = Inr r \<Longrightarrow> set r \<subseteq> {1..65535}"
  by (induction ps arbitrary: r) (fastforce simp: rbind_eq_Inr split: if_splits option.splits)+

lemma parseUDPBlockPorts_range: "parseUDPBlockPorts U raw = Inr ports \<Longrightarrow> ports \<subseteq> {1..65535}"
  using portItems_range by (auto simp: parseUDPBlockPorts_def rbind_eq_Inr)

lemma validateTargetIPs_all: "validateTargetIPs U ips = Inr () \<longleftrightarrow> (\<forall>ip\<in>set ips. validateDialIPOverride U ip = Inr ())"
  by (induction U ips rule: validateTargetIPs.induct) (auto simp: rbind_eq_Inr)

text \<open>A listener the loop accepted, and one that makes the process a server.\<close>

definition listener_ok :: "unicode_lib \<Rightarrow> 'r url_lib \<Rightarrow> listenerStartupConfig \<Rightarrow> bool" where
  "listener_ok U L l \<longleftrightarrow> validateListenRule U L (lsRaw l) = Inr ()"

definition server_listener :: "listenerStartupConfig \<Rightarrow> bool" where
  "server_listener l \<longleftrightarrow> lsScheme l = ''ws'' \<or> lsScheme l = ''wss''"

lemma listenerLoop_result:
  "listenerLoop U L ls acc (sl, ss, n) = Inr (listeners, sl', ss', n') \<Longrightarrow>
   \<exists>new. listeners = acc @ new \<and> length new = length ls \<and> list_all (listener_ok U L) new \<and>
     n' = n + length (filter server_listener new) \<and>
     (filter server_listener new = [] \<longrightarrow> sl' = sl \<and> ss' = ss) \<and>
     (filter server_listener new \<noteq> [] \<longrightarrow> last (filter server_listener new) = \<lparr>lsRaw = sl', lsScheme = ss'\<rparr>)"
proof (induction ls arbitrary: acc sl ss n)
  case Nil
  then show ?case by auto
next
  case (Cons l ls)
  from Cons.prems obtain u where u: "url_Parse L l = Inr u" by (auto simp: rbind_eq_Inr)
  let ?s = "ToLower U (urlScheme u)"
  let ?x = "\<lparr>lsRaw = normalizeURLScheme l ?s, lsScheme = ?s\<rparr>"
  have ok: "listener_ok U L ?x"
    and loop: "listenerLoop U L ls (acc @ [?x]) (if server_listener ?x then (lsRaw ?x, ?s, n + 1) else (sl, ss, n)) =
      Inr (listeners, sl', ss', n')"
    using Cons.prems u by (auto simp: rbind_eq_Inr Let_def listener_ok_def server_listener_def)
  show ?case
  proof (cases "server_listener ?x")
    case True
    then have "listenerLoop U L ls (acc @ [?x]) (lsRaw ?x, ?s, n + 1) = Inr (listeners, sl', ss', n')" using loop by simp
    from Cons.IH [OF this] obtain new where new: "listeners = (acc @ [?x]) @ new" "length new = length ls" "list_all (listener_ok U L) new"
      "n' = n + 1 + length (filter server_listener new)"
      "filter server_listener new = [] \<longrightarrow> sl' = lsRaw ?x \<and> ss' = ?s"
      "filter server_listener new \<noteq> [] \<longrightarrow> last (filter server_listener new) = \<lparr>lsRaw = sl', lsScheme = ss'\<rparr>" by blast
    then show ?thesis using ok True by (intro exI [of _ "?x # new"]) auto
  next
    case False
    then have "listenerLoop U L ls (acc @ [?x]) (sl, ss, n) = Inr (listeners, sl', ss', n')" using loop by simp
    from Cons.IH [OF this] obtain new where new: "listeners = (acc @ [?x]) @ new" "length new = length ls" "list_all (listener_ok U L) new"
      "n' = n + length (filter server_listener new)"
      "filter server_listener new = [] \<longrightarrow> sl' = sl \<and> ss' = ss"
      "filter server_listener new \<noteq> [] \<longrightarrow> last (filter server_listener new) = \<lparr>lsRaw = sl', lsScheme = ss'\<rparr>" by blast
    then show ?thesis using ok False by (intro exI [of _ "?x # new"]) auto
  qed
qed

lemma classifyListeners_ok:
  assumes "classifyListeners U L raw = Inr (listeners, isServer, sl, ss)"
  shows "listeners \<noteq> [] \<and> list_all (listener_ok U L) listeners \<and>
    (if isServer then listeners = [\<lparr>lsRaw = sl, lsScheme = ss\<rparr>] \<and> (ss = ''ws'' \<or> ss = ''wss'')
     else list_all (Not \<circ> server_listener) listeners)"
proof -
  obtain n where n: "listenerLoop U L (splitCommaList U raw) [] ([], [], 0) = Inr (listeners, sl, ss, n)" "isServer = (n > 0)"
    "splitCommaList U raw \<noteq> []" "isServer \<longrightarrow> n = 1 \<and> length listeners = 1"
    using assms by (auto simp: classifyListeners_def Let_def rbind_eq_Inr split: if_splits prod.splits)
  from listenerLoop_result [OF n(1)] have l: "length listeners = length (splitCommaList U raw)" "list_all (listener_ok U L) listeners"
    "n = length (filter server_listener listeners)"
    "filter server_listener listeners \<noteq> [] \<longrightarrow> last (filter server_listener listeners) = \<lparr>lsRaw = sl, lsScheme = ss\<rparr>" by auto
  show ?thesis
  proof (cases isServer)
    case True
    then obtain x where x: "listeners = [x]" using n(4) by (cases listeners) auto
    then have "server_listener x" "x = \<lparr>lsRaw = sl, lsScheme = ss\<rparr>" using True n(2) l(3,4) by (auto split: if_splits)
    then show ?thesis using True x l(2) by (auto simp: server_listener_def)
  next
    case False
    then have "filter server_listener listeners = []" using n(2) l(3) by simp
    then show ?thesis using False l(1,2) n(3) by (auto simp: filter_empty_conv list_all_iff)
  qed
qed

text \<open>The timeouts and limits a running process relies on.\<close>

definition global_ok :: "GlobalConfig \<Rightarrow> bool" where
  "global_ok g \<longleftrightarrow> (\<forall>t\<in>{gcDialTimeout g, gcWSHandshakeTimeout g, gcReconnectDelay g, gcReconnectMaxDelay g, gcRTTProbeTimeout g,
      gcDNSQueryTimeout g, gcECHRetryDelay g, gcUDPReadTimeout g, gcShutdownTimeout g, gcPreAuthTimeout g}. 0 < t) \<and>
    0 \<le> gcReconnectJitter g \<and> 0 \<le> gcAuthSkew g"

lemma validateGlobalConfigValues_iff:
  "validateGlobalConfigValues g maxClients maxStreams = Inr () \<longleftrightarrow>
   global_ok g \<and> gcReconnectDelay g \<le> gcReconnectMaxDelay g \<and> 0 \<le> maxClients \<and> 0 \<le> maxStreams"
  by (auto simp: validateGlobalConfigValues_def global_ok_def not_le)

lemma validateToken_iff: "validateToken t = Inr () \<longleftrightarrow> (\<forall>c\<in>set t. 32 \<le> ord c \<and> ord c \<noteq> 127)"
  by (auto simp: validateToken_def list_ex_iff) (meson leD)+

lemma parseIPStrategyStrict_ok: "parseIPStrategyStrict U s = Inr b \<Longrightarrow> validateIPStrategyValue b"
  by (auto simp: parseIPStrategyStrict_def validateIPStrategyValue_def Let_def split: if_splits)

lemma validateCommon_ok:
  assumes "validateCommon U L v = Inr (s, pref)"
  shows "validateToken (rvToken v) = Inr ()"
    "validateGlobalConfigValues (rvGlobal v) (rvMaxClientSessions v) (rvMaxStreamsPerClient v) = Inr ()"
    "parseCipherPreference U (rvCipherPref v) = Inr pref"
    "validateTargetIPs U (scTargetIPs s) = Inr ()"
    "parseIPStrategyStrict U (rvIPS v) = Inr (scIPStrategy s)"
    "classifyListeners U L (rvListenAddr v) = Inr (scListeners s, scIsServer s, scServerListen s, scServerScheme s)"
    "validateMTLSConfigValues (scIsServer s) (scServerScheme s) v = Inr ()"
  using assms unfolding validateCommon_def
  by (auto elim!: result_elims simp: rbind_eq_Inr split: if_splits prod.splits)

lemma validateClient_ok:
  assumes "validateClientStartupConfig U L forward connections cert key insecure fallback ech ports = Inr c"
  shows "csForwardScheme c \<in> {''ws'', ''wss''}" "csUDPBlockPorts c \<subseteq> {1..65535}" "0 < connections" "csFallback c \<longleftrightarrow> fallback \<or> \<not> ech \<or> csForwardScheme c = ''wss'' \<and> insecure"
    "csForwardScheme c = ''ws'' \<longrightarrow> cert = [] \<and> key = []"
proof -
  show "csUDPBlockPorts c \<subseteq> {1..65535}"
  proof (rule parseUDPBlockPorts_range)
    show "parseUDPBlockPorts U ports = Inr (csUDPBlockPorts c)"
      using assms by (auto simp: validateClientStartupConfig_def Let_def rbind_eq_Inr split: if_splits)
  qed
qed (use assms in \<open>auto simp: validateClientStartupConfig_def Let_def rbind_eq_Inr split: if_splits\<close>)

lemma validateECHLookup_domain:
  "validateECHLookupConfig U F L domain server = Inr () \<Longrightarrow> plain_hostname (normalizeDNSName U domain)"
  using buildDNSQuery_plain by (auto simp: validateECHLookupConfig_def rbind_eq_Inr)

lemma reconnectLoop_min:
  "0 < d \<Longrightarrow> d \<le> m \<Longrightarrow> m \<le> 2 ^ 62 \<Longrightarrow> reconnectLoop m n d = min m (d * 2 ^ n)"
proof (induction n arbitrary: d)
  case 0
  then show ?case by simp
next
  case (Suc n)
  show ?case
  proof (cases "d \<ge> m")
    case True
    have "m * 1 \<le> d * 2 ^ Suc n" using True Suc.prems by (intro mult_mono one_le_power) simp_all
    then show ?thesis using True Suc.prems by simp
  next
    case False
    have i: "int64 (d * 2) = d * 2" by (rule int64_ident) (use False Suc.prems in simp_all)
    show ?thesis
    proof (cases "d * 2 > m")
      case True
      have "m * 1 \<le> (d * 2) * 2 ^ n" using True Suc.prems by (intro mult_mono) (simp_all add: one_le_power)
      then show ?thesis using True False i by (simp add: Let_def mult.assoc)
    next
      case no: False
      then have "reconnectLoop m n (d * 2) = min m (d * 2 * 2 ^ n)" using Suc.prems by (intro Suc.IH) simp_all
      then show ?thesis using no False i by (simp add: Let_def mult.assoc)
    qed
  qed
qed

text \<open>Laying a file over the values twice changes nothing more.\<close>

lemma apply_idem [simp]:
  "applyStringConfig seen f x (applyStringConfig seen f x t) = applyStringConfig seen f x t"
  "applyValue seen f y (applyValue seen f y u) = applyValue seen f y u"
  by (simp_all add: applyStringConfig_def applyValue_def split: option.split)

lemma apply_seen [simp]:
  "seen f \<Longrightarrow> applyStringConfig seen f x t = t"
  "seen f \<Longrightarrow> applyValue seen f y u = u"
  "seen f \<Longrightarrow> applyNonNegativeFloat64Config seen f r v = Inr v"
  "seen f \<Longrightarrow> applyNonNegativeIntConfig seen f i w = Inr w"
  "seen f \<Longrightarrow> applyDurationConfig PD seen f s d = Inr d"
  "seen f \<Longrightarrow> applyNonNegativeDurationConfig PD seen f s d = Inr d"
  by (simp_all add: applyStringConfig_def applyValue_def applyNonNegativeFloat64Config_def applyNonNegativeIntConfig_def
      applyDurationConfig_def applyNonNegativeDurationConfig_def split: option.split)

lemma apply_again:
  "applyNonNegativeFloat64Config seen f r v = Inr v' \<Longrightarrow> applyNonNegativeFloat64Config seen f r v' = Inr v'"
  "applyNonNegativeIntConfig seen f i w = Inr w' \<Longrightarrow> applyNonNegativeIntConfig seen f i w' = Inr w'"
  "applyDurationConfig PD seen f s d = Inr d' \<Longrightarrow> applyDurationConfig PD seen f s d' = Inr d'"
  "applyNonNegativeDurationConfig PD seen f s d = Inr d' \<Longrightarrow> applyNonNegativeDurationConfig PD seen f s d' = Inr d'"
  by (auto simp: applyNonNegativeFloat64Config_def applyNonNegativeIntConfig_def applyDurationConfig_def
      applyNonNegativeDurationConfig_def split: option.splits if_splits)

lemma apply_bounds:
  "applyDurationConfig PD seen f s d = Inr d' \<Longrightarrow> 0 < d \<Longrightarrow> 0 < d'"
  "applyNonNegativeDurationConfig PD seen f s d = Inr d' \<Longrightarrow> 0 \<le> d \<Longrightarrow> 0 \<le> d'"
  by (auto simp: applyDurationConfig_def applyNonNegativeDurationConfig_def split: option.splits if_splits)

lemma applyPlainFields_idem: "applyPlainFields seen fc (applyPlainFields seen fc v) = applyPlainFields seen fc v"
  by (simp add: applyPlainFields_def)

lemma applyTimeouts_ok:
  assumes "applyTimeouts PD seen fc g = Inr g'"
  shows "applyTimeouts PD seen fc g' = Inr g'" "global_ok g \<longrightarrow> global_ok g'" "(\<forall>f. seen f) \<longrightarrow> g' = g"
proof -
  show "applyTimeouts PD seen fc g' = Inr g'"
    using assms unfolding applyTimeouts_def by (elim rbind_InrE Inr_InrE) (simp add: apply_again)
  show "global_ok g \<longrightarrow> global_ok g'"
    using assms unfolding applyTimeouts_def by (elim rbind_InrE Inr_InrE) (simp add: global_ok_def apply_bounds)
  show "(\<forall>f. seen f) \<longrightarrow> g' = g"
    using assms by (auto simp: applyTimeouts_def)
qed

lemma startServer_ok:
  assumes "startServer U v s0 = Inr s"
  obtains nets policy socks where "s = s0\<lparr>scSourceCIDRs := nets, scTargetPolicy := Some policy, scSOCKS5Config := socks\<rparr>"
    "\<forall>p. socks = Some p \<longrightarrow> ValidateHostPort U (s5Host p) = Inr ()"
  using assms that unfolding startServer_def validateServerStartupConfig_def
  by (auto elim!: rbind_InrE simp: rbind_eq_Inr split: if_splits)

lemma startClient_ok:
  assumes "startClient U F L v s0 pref = Inr s"
  obtains cc where "s = s0\<lparr>scClient := cc\<lparr>csCipherPref := pref, csPacingRateMbps := rvPacingRateMbps v, csShapingCoalesceMs := rvShapingCoalesceMs v\<rparr>\<rparr>"
    "csForwardScheme cc \<in> {''ws'', ''wss''}" "csUDPBlockPorts cc \<subseteq> {1..65535}"
    "csForwardScheme cc = ''wss'' \<and> \<not> csFallback cc \<longrightarrow> plain_hostname (normalizeDNSName U (rvECHDomain v))"
    "wfEnabled (rvWebSocketFrontProxy v) \<longrightarrow> one_line (wfConnectHost (rvWebSocketFrontProxy v)) \<and>
      (\<forall>(name, val)\<in>set (wfHeaders (rvWebSocketFrontProxy v)). one_line name \<and> one_line val)"
proof -
  obtain cc where s: "s = s0\<lparr>scClient := cc\<lparr>csCipherPref := pref, csPacingRateMbps := rvPacingRateMbps v, csShapingCoalesceMs := rvShapingCoalesceMs v\<rparr>\<rparr>"
    and v: "validateClientStartupConfig U L (rvForwardAddr v) (rvConnectionNum v) (rvClientCertFile v) (rvClientKeyFile v)
      (rvInsecure v) (rvFallback v) (rvEnableECH v) (rvUDPBlockPortsStr v) = Inr cc"
    and e: "csForwardScheme cc = ''wss'' \<and> \<not> csFallback cc \<longrightarrow> validateECHLookupConfig U F L (rvECHDomain v) (rvDNSServer v) = Inr ()"
    and f: "validateWebSocketFrontProxyConfig U F (rvWebSocketFrontProxy v) = Inr ()"
    using assms unfolding startClient_def by (auto elim!: rbind_InrE split: if_splits)
  show thesis
    using that [OF s validateClient_ok(1,2) [OF v]] e validateECHLookup_domain front_proxy_lines(2,3) [OF f] by blast
qed

lemma applyLimits_ok:
  assumes "applyLimits seen fc v = Inr v'"
  shows "applyLimits seen fc v' = Inr v'" "rvGlobal v' = rvGlobal v" "(\<forall>f. seen f) \<longrightarrow> v' = v"
    "applyPlainFields seen fc v = v \<longrightarrow> applyPlainFields seen fc v' = v'"
proof -
  show "applyLimits seen fc v' = Inr v'"
    using assms unfolding applyLimits_def by (elim rbind_InrE Inr_InrE) (simp add: apply_again)
  show "rvGlobal v' = rvGlobal v" using assms unfolding applyLimits_def by (elim rbind_InrE Inr_InrE) simp
  show "(\<forall>f. seen f) \<longrightarrow> v' = v" using assms by (auto simp: applyLimits_def)
  show "applyPlainFields seen fc v = v \<longrightarrow> applyPlainFields seen fc v' = v'"
    using assms unfolding applyLimits_def applyPlainFields_def by (elim rbind_InrE Inr_InrE) (cases v, simp)
qed

lemma resolveAliases_front: "resolveAliases fc = Inr fc' \<Longrightarrow> fcWebSocketFrontProxy fc' = fcWebSocketFrontProxy fc"
  unfolding resolveAliases_def by (elim rbind_InrE Inr_InrE) simp

lemma applyPlainFields_frame:
  "applyPlainFields seen fc (v\<lparr>rvGlobal := g\<rparr>) = (applyPlainFields seen fc v)\<lparr>rvGlobal := g\<rparr>"
  "rvGlobal (applyPlainFields seen fc v) = rvGlobal v"
  by (simp_all add: applyPlainFields_def)

lemma applyLimits_frame: "applyLimits seen fc (v\<lparr>rvGlobal := g\<rparr>) = rbind (applyLimits seen fc v) (\<lambda>v. Inr (v\<lparr>rvGlobal := g\<rparr>))"
  by (simp add: applyLimits_def rbind_def split: sum.split)

section \<open>Properties\<close>

text \<open>
  C10. What a validated configuration guarantees. Timeouts are positive and limits not negative, the token has
  no control characters, every listener passes the check of its scheme, the addresses to dial are
  IP addresses or host names. A server has exactly one listener, \<open>ws\<close> or \<open>wss\<close>, a target policy, and an
  upstream proxy with a valid address if any. A client has no \<open>ws\<close> or \<open>wss\<close> listener, a \<open>ws\<close> or \<open>wss\<close>
  server, blocked ports in range, no more than eight ciphers, all supported, so that the server's
  negotiation accepts the first of them; unless it falls back to standard TLS over \<open>wss\<close> it has an
  ECH domain to ask for; and nothing in the CONNECT to its front proxy breaks a line.
\<close>

lemma startup_config_sound:
  assumes "validateStartupConfigValues U F L v = Inr s"
  shows "global_ok (rvGlobal v) \<and> gcReconnectDelay (rvGlobal v) \<le> gcReconnectMaxDelay (rvGlobal v) \<and>
    0 \<le> rvMaxClientSessions v \<and> 0 \<le> rvMaxStreamsPerClient v \<and> (\<forall>c\<in>set (rvToken v). 32 \<le> ord c \<and> ord c \<noteq> 127) \<and>
    scListeners s \<noteq> [] \<and> list_all (listener_ok U L) (scListeners s) \<and>
    (\<forall>ip\<in>set (scTargetIPs s). validateDialIPOverride U ip = Inr ()) \<and> validateIPStrategyValue (scIPStrategy s) \<and>
    (if scIsServer s then
       scListeners s = [\<lparr>lsRaw = scServerListen s, lsScheme = scServerScheme s\<rparr>] \<and> scServerScheme s \<in> {''ws'', ''wss''} \<and>
       scTargetPolicy s \<noteq> None \<and> (\<forall>p. scSOCKS5Config s = Some p \<longrightarrow> ValidateHostPort U (s5Host p) = Inr ())
     else
       list_all (Not \<circ> server_listener) (scListeners s) \<and> csForwardScheme (scClient s) \<in> {''ws'', ''wss''} \<and>
       csUDPBlockPorts (scClient s) \<subseteq> {1..65535} \<and> length (csCipherPref (scClient s)) \<le> 8 \<and>
       set (csCipherPref (scClient s)) \<subseteq> set V3SupportedCiphers \<and>
       NegotiateCipherV3 (csCipherPref (scClient s)) = (hd (csCipherPref (scClient s)), 0, []) \<and>
       (csForwardScheme (scClient s) = ''wss'' \<and> \<not> csFallback (scClient s) \<longrightarrow> plain_hostname (normalizeDNSName U (rvECHDomain v))) \<and>
       (wfEnabled (rvWebSocketFrontProxy v) \<longrightarrow> one_line (wfConnectHost (rvWebSocketFrontProxy v)) \<and>
          (\<forall>(name, val)\<in>set (wfHeaders (rvWebSocketFrontProxy v)). one_line name \<and> one_line val)))"
proof -
  obtain s0 pref where c: "validateCommon U L v = Inr (s0, pref)"
    and r: "(if scIsServer s0 then startServer U v s0 else startClient U F L v s0 pref) = Inr s"
    using assms unfolding validateStartupConfigValues_def by (auto elim!: rbind_InrE)
  note o = validateCommon_ok [OF c]
  note cl = classifyListeners_ok [OF o(6)]
  have common: "global_ok (rvGlobal v) \<and> gcReconnectDelay (rvGlobal v) \<le> gcReconnectMaxDelay (rvGlobal v) \<and>
      0 \<le> rvMaxClientSessions v \<and> 0 \<le> rvMaxStreamsPerClient v \<and> (\<forall>c\<in>set (rvToken v). 32 \<le> ord c \<and> ord c \<noteq> 127) \<and>
      (\<forall>ip\<in>set (scTargetIPs s0). validateDialIPOverride U ip = Inr ()) \<and> validateIPStrategyValue (scIPStrategy s0)"
    using o(1,2,4,5) parseIPStrategyStrict_ok by (simp add: validateGlobalConfigValues_iff validateToken_iff validateTargetIPs_all)
  show ?thesis
  proof (cases "scIsServer s0")
    case True
    then have "startServer U v s0 = Inr s" using r by simp
    then obtain nets policy socks where s: "s = s0\<lparr>scSourceCIDRs := nets, scTargetPolicy := Some policy, scSOCKS5Config := socks\<rparr>"
      and socks: "\<forall>p. socks = Some p \<longrightarrow> ValidateHostPort U (s5Host p) = Inr ()" by (rule startServer_ok)
    have "list_all (listener_ok U L) [\<lparr>lsRaw = scServerListen s0, lsScheme = scServerScheme s0\<rparr>]" using cl True by metis
    then show ?thesis using common cl True socks by (simp add: s)
  next
    case False
    then have "startClient U F L v s0 pref = Inr s" using r by simp
    then show ?thesis
    proof (rule startClient_ok)
      fix cc
      assume s: "s = s0\<lparr>scClient := cc\<lparr>csCipherPref := pref, csPacingRateMbps := rvPacingRateMbps v, csShapingCoalesceMs := rvShapingCoalesceMs v\<rparr>\<rparr>"
        and cc: "csForwardScheme cc \<in> {''ws'', ''wss''}" "csUDPBlockPorts cc \<subseteq> {1..65535}"
          "csForwardScheme cc = ''wss'' \<and> \<not> csFallback cc \<longrightarrow> plain_hostname (normalizeDNSName U (rvECHDomain v))"
          "wfEnabled (rvWebSocketFrontProxy v) \<longrightarrow> one_line (wfConnectHost (rvWebSocketFrontProxy v)) \<and>
            (\<forall>(name, val)\<in>set (wfHeaders (rvWebSocketFrontProxy v)). one_line name \<and> one_line val)"
      show ?thesis using common cl False parseCipherPreference_ok [OF o(3)] cc by (simp add: s)
    qed
  qed
qed

text \<open>
  The configuration file lies under the command line: a field whose flag was given on the command line
  keeps its value; applying the same file again changes nothing; and a file that is accepted never
  spoils the timeouts. With every flag given only the front proxy, which has no flag, is taken from the
  file.
\<close>

lemma config_layering:
  assumes "applyConfigJSONToValues PD (Inr fc) RestEOF seen v = Inr v'"
  shows "applyConfigJSONToValues PD (Inr fc) RestEOF seen v' = Inr v' \<and>
    (global_ok (rvGlobal v) \<longrightarrow> global_ok (rvGlobal v')) \<and>
    ((\<forall>f. seen f) \<longrightarrow> v' = v\<lparr>rvWebSocketFrontProxy := (case fcWebSocketFrontProxy fc of Some c \<Rightarrow> c | None \<Rightarrow> zeroFrontProxy)\<rparr>)"
proof -
  obtain fc' v1 g where a: "resolveAliases fc = Inr fc'" and l: "applyLimits seen fc' (applyPlainFields seen fc' v) = Inr v1"
    and t: "applyTimeouts PD seen fc' (rvGlobal v1) = Inr g" and v': "v' = v1\<lparr>rvGlobal := g\<rparr>"
    using assms unfolding applyConfigJSONToValues_def by (auto elim!: rbind_InrE)
  note lo = applyLimits_ok [OF l]
  note to = applyTimeouts_ok [OF t]
  have "applyPlainFields seen fc' v1 = v1" using lo(4) applyPlainFields_idem by blast
  then have "applyConfigJSONToValues PD (Inr fc) RestEOF seen v' = Inr v'"
    using a lo(1) to(1) by (simp add: applyConfigJSONToValues_def v' applyPlainFields_frame applyLimits_frame)
  moreover have "global_ok (rvGlobal v) \<longrightarrow> global_ok (rvGlobal v')"
    using to(2) lo(2) by (simp add: v' applyPlainFields_frame)
  moreover have "v' = v\<lparr>rvWebSocketFrontProxy := (case fcWebSocketFrontProxy fc of Some c \<Rightarrow> c | None \<Rightarrow> zeroFrontProxy)\<rparr>" if "\<forall>f. seen f"
    using that lo(3) to(3) resolveAliases_front [OF a] by (simp add: v' applyPlainFields_def)
  ultimately show ?thesis by blast
qed

text \<open>
  The delay before the \<open>n\<close>-th reconnect of a validated configuration whose largest delay is at most
  \<open>2 ^ 62\<close> nanoseconds: it doubles up to the largest delay, and the jitter adds less than the configured
  jitter and no more than half of the delay. In particular no 64-bit product overflows.
\<close>

lemma reconnect_backoff:
  assumes "validateGlobalConfigValues g maxClients maxStreams = Inr ()" "gcReconnectMaxDelay g \<le> 2 ^ 62" "gcReconnectJitter g < 2 ^ 63"
    "\<forall>limit > 0. 0 \<le> random limit \<and> random limit < limit"
  shows "baseReconnectDelay g n = min (gcReconnectMaxDelay g) (gcReconnectDelay g * 2 ^ nat n) \<and>
    baseReconnectDelay g n \<le> reconnectDelay random g n \<and>
    reconnectDelay random g n \<le> baseReconnectDelay g n + gcReconnectJitter g \<and>
    (2 \<le> baseReconnectDelay g n \<longrightarrow> 2 * reconnectDelay random g n \<le> 3 * baseReconnectDelay g n)"
proof -
  let ?b = "baseReconnectDelay g n" and ?j = "gcReconnectJitter g"
  have g: "0 < gcReconnectDelay g" "gcReconnectDelay g \<le> gcReconnectMaxDelay g" "0 \<le> ?j"
    using assms(1) by (simp_all add: validateGlobalConfigValues_iff global_ok_def)
  have b: "?b = min (gcReconnectMaxDelay g) (gcReconnectDelay g * 2 ^ nat n)"
    using g assms(2) by (simp add: baseReconnectDelay_def reconnectLoop_min)
  have b0: "0 < ?b" "?b \<le> 2 ^ 62" unfolding b using g assms(2) by simp_all
  have "?b \<le> reconnectDelay random g n \<and> reconnectDelay random g n \<le> ?b + ?j \<and> (2 \<le> ?b \<longrightarrow> 2 * reconnectDelay random g n \<le> 3 * ?b)"
  proof (cases "?j = 0")
    case True
    then have "reconnectDelay random g n = ?b" by (simp add: reconnectDelay_def Let_def)
    then show ?thesis using b0 True by simp
  next
    case False
    define lim where "lim = (if ?b div 2 > 0 \<and> ?b div 2 < ?j then ?b div 2 else ?j)"
    have lim: "0 < lim" "lim \<le> ?j" "2 \<le> ?b \<longrightarrow> 2 * lim \<le> ?b" using False g(3) b0(1) unfolding lim_def by auto
    have r: "0 \<le> random lim" "random lim < lim" using assms(4) lim(1) by blast+
    have "?b + random lim < 2 ^ 63"
    proof (cases "2 \<le> ?b")
      case True
      then show ?thesis using lim(3) r(2) b0(2) by simp
    next
      case False
      then have "?b = 1" using b0(1) by simp
      then show ?thesis using r(2) lim(2) assms(3) by simp
    qed
    then have "int64 (?b + random lim) = ?b + random lim" using b0(1) r(1) by (intro int64_ident) simp_all
    then have "reconnectDelay random g n = ?b + random lim"
      using False g(3) b0(1) unfolding reconnectDelay_def Let_def lim_def by simp
    then show ?thesis using r lim by auto
  qed
  then show ?thesis using b by blast
qed
section \<open>Witnesses\<close>

definition wit_url :: "unit url_lib" where
  "wit_url = \<lparr>url_Parse = (\<lambda>s.
      if s = ''http://:50'' then Inr \<lparr>urlScheme = ''http'', urlUser = None, urlHost = '':50'', urlPath = [], urlOther = ()\<rparr>
      else if s = ''ws://a.io'' then Inr \<lparr>urlScheme = ''ws'', urlUser = None, urlHost = ''a.io'', urlPath = [], urlOther = ()\<rparr>
      else Inl (Errorf ''invalid URL'')), url_String = (\<lambda>_. [])\<rparr>"

definition wit_values :: runtimeValues where
  "wit_values = defaultRuntimeValues\<lparr>rvListenAddr := ''http://:50'', rvForwardAddr := ''ws://a.io'', rvUDPBlockPortsStr := ''53''\<rparr>"

definition wit_startup :: "startupConfig result" where
  "wit_startup = validateStartupConfigValues wit_lib wit_folds wit_url wit_values"

lemma wit_startup_ok: "case wit_startup of Inl _ \<Rightarrow> False | Inr s \<Rightarrow> \<not> scIsServer s"
  by code_simp

lemma startup_config_sound_witness:
  "case wit_startup of
     Inl _ \<Rightarrow> False
   | Inr s \<Rightarrow> csForwardScheme (scClient s) \<in> {''ws'', ''wss''} \<and> set (csCipherPref (scClient s)) \<subseteq> set V3SupportedCiphers"
  using wit_startup_ok startup_config_sound [of wit_lib wit_folds wit_url wit_values]
  by (simp add: wit_startup_def split: sum.splits)

lemma reconnect_backoff_witness:
  "baseReconnectDelay defaultGlobalConfig 3 = min (30 * second) (1 * second * 2 ^ 3) \<and>
   reconnectDelay (\<lambda>limit. limit div 2) defaultGlobalConfig 3 \<le> 8 * second + 500 * millisecond"
proof -
  have "validateGlobalConfigValues defaultGlobalConfig 0 0 = Inr ()"
    by (simp add: validateGlobalConfigValues_def defaultGlobalConfig_def second_def)
  moreover have "\<forall>limit > (0 :: int). 0 \<le> limit div 2 \<and> limit div 2 < limit" by auto
  ultimately show ?thesis
    using reconnect_backoff [of defaultGlobalConfig 0 0 "\<lambda>limit. limit div 2" 3] by (simp add: defaultGlobalConfig_def second_def)
qed

definition emptyFile :: FileConfig where
  "emptyFile =
    \<lparr>fcListen = None, fcForward = None, fcIP = None, fcBlock = None, fcCert = None, fcKey = None,
     fcClientCA = None, fcClientCert = None, fcClientKey = None, fcClientCAFlag = None, fcClientCertFlag = None,
     fcClientKeyFlag = None, fcToken = None, fcMetrics = None, fcCIDR = None, fcAllowTarget = None,
     fcDenyTarget = None, fcAllowHost = None, fcDenyHost = None, fcAllowTargetFlag = None, fcDenyTargetFlag = None,
     fcAllowHostFlag = None, fcDenyHostFlag = None, fcMaxClients = None, fcMaxClientsFlag = None, fcMaxStreams = None,
     fcMaxStreamsFlag = None, fcDNS = None, fcECH = None, fcECHDomain = None, fcECHDomainFlag = None, fcIPS = None,
     fcConnections = None, fcInsecure = None, fcFallback = None, fcCipherPref = None, fcCipherPrefFlag = None,
     fcPacingRateMbps = None, fcPacingRateMbpsFlag = None, fcShapingCoalesceMs = None, fcShapingCoalesceMsFlag = None,
     fcTransport = None, fcTransportFlag = None, fcQuicPort = None, fcQuicPortFlag = None, fcEnableDatagram = None,
     fcEnableDatagramFlag = None, fcCoverTraffic = None, fcCoverTrafficFlag = None, fcWebSocketFrontProxy = None,
     fcDialTimeout = None, fcWSHandshakeTimeout = None, fcReconnectDelay = None, fcReconnectMaxDelay = None,
     fcReconnectJitter = None, fcRTTProbeTimeout = None, fcDNSQueryTimeout = None, fcDNSCacheTTL = None,
     fcECHRetryDelay = None, fcUDPReadTimeout = None, fcShutdownTimeout = None, fcAuthSkew = None,
     fcPreAuthTimeout = None, fcRulesPath = None, fcGeoDir = None, fcRouteEnabled = None, fcSNI = None\<rparr>"

lemma empty_file_applies:
  "applyConfigJSONToValues (\<lambda>_. None) (Inr (emptyFile\<lparr>fcToken := Some ''t''\<rparr>)) RestEOF (\<lambda>_. False) defaultRuntimeValues =
    Inr (defaultRuntimeValues\<lparr>rvToken := ''t''\<rparr>)"
  by (simp add: applyConfigJSONToValues_def resolveAliases_def singleConfigAlias_def applyPlainFields_def applyLimits_def applyTimeouts_def
      emptyFile_def defaultRuntimeValues_def applyStringConfig_def applyValue_def applyNonNegativeFloat64Config_def
      applyNonNegativeIntConfig_def applyDurationConfig_def applyNonNegativeDurationConfig_def)

lemma config_layering_witness:
  "applyConfigJSONToValues (\<lambda>_. None) (Inr (emptyFile\<lparr>fcToken := Some ''t''\<rparr>)) RestEOF (\<lambda>_. False)
     (defaultRuntimeValues\<lparr>rvToken := ''t''\<rparr>) = Inr (defaultRuntimeValues\<lparr>rvToken := ''t''\<rparr>) \<and>
   global_ok (rvGlobal defaultRuntimeValues)"
proof -
  have "global_ok (rvGlobal defaultRuntimeValues)" by (simp add: global_ok_def defaultRuntimeValues_def defaultGlobalConfig_def second_def)
  then show ?thesis using config_layering [OF empty_file_applies] by blast
qed

end
