(* ===== verification/Lifecycle.thy ===== *)
theory Lifecycle
  imports Config Log_Ring Route_Runtime
begin

text \<open>
  The life of the runtime (\<open>internal/app/engine.go\<close>), its listeners (\<open>runtimeListener\<close> of
  \<open>internal/app/status.go\<close>) and the exit codes of the process (\<open>internal/app/run.go\<close>).

  \<open>Start\<close>, \<open>abortStart\<close>, \<open>Close\<close> and \<open>finishWhenDone\<close> run in different goroutines, so each is cut into
  its critical sections and waits, and a step relation interleaves them with the watcher of every
  listener, with listeners that end or fail, and with the cancellation of the parent context. The
  record has the fields of \<open>Engine\<close>, where each of its goroutines stands, and the two process globals
  that the engine installs: the output of the standard logger and the routing runtime. A close of the
  channel \<open>done\<close> counts up \<open>enDone\<close>: Go panics when a channel is closed twice. The wait group is not a
  field: its counter is the number of tracked listeners that have not finished, and one more between the
  end of \<open>Start\<close> and the cancellation. What \<open>startRuntime\<close> does with a configuration is a list of actions,
  run one after the other up to the first that fails; whether a bind, a file or a lookup succeeds is up
  to the environment. Waits for the dial goroutines of the client pool end with their context and change
  nothing, so they are no steps; the wait of \<open>abortStart\<close> ends with the wait group or with its context,
  so its last step is always possible. The other process globals that a start sets (policy, strategy,
  fallback and the like) belong to the theories that use them.
\<close>

section \<open>Listeners\<close>

text \<open>
  \<open>rlClosing\<close> says that \<open>closeFn\<close> was called, \<open>rlWatched\<close> that the goroutine which closes the listener
  on cancellation still waits, \<open>rlDone\<close> that the channel \<open>done\<close> is closed.
\<close>

record runtimeListener =
  rlProtocol :: string
  rlConfigured :: string
  rlActual :: string
  rlState :: string
  rlLastError :: string
  rlClosing :: bool
  rlWatched :: bool
  rlDone :: bool

definition newRuntimeListener :: "string \<Rightarrow> string \<Rightarrow> string \<Rightarrow> runtimeListener" where
  "newRuntimeListener protocol configured actual =
    \<lparr>rlProtocol = protocol, rlConfigured = configured, rlActual = actual, rlState = ''started'', rlLastError = [],
     rlClosing = False, rlWatched = True, rlDone = False\<rparr>"

definition listener_Close :: "runtimeListener \<Rightarrow> runtimeListener" where
  "listener_Close l = l\<lparr>rlState := ''stopping'', rlClosing := True\<rparr>"

definition listener_finish :: "string option \<Rightarrow> runtimeListener \<Rightarrow> runtimeListener" where
  "listener_finish err l =
    (if rlDone l then l
     else
       (let l = (case err of Some e \<Rightarrow> l\<lparr>rlLastError := e\<rparr> | None \<Rightarrow> l)
        in l\<lparr>rlState := ''stopped'', rlDone := True\<rparr>))"

record ListenerStatus =
  lsProtocol :: string
  lsConfigured :: string
  lsActual :: string
  lsState :: string
  lsLastError :: string

definition listener_snapshot :: "unicode_lib \<Rightarrow> 'r url_lib \<Rightarrow> runtimeListener \<Rightarrow> ListenerStatus" where
  "listener_snapshot U L l =
    \<lparr>lsProtocol = rlProtocol l, lsConfigured = redactConfigValue U L (rlConfigured l),
     lsActual = redactConfigValue U L (rlActual l), lsState = rlState l, lsLastError = redactConfigValue U L (rlLastError l)\<rparr>"

section \<open>What a start does\<close>

record RuntimeOptions =
  opControlAddr :: string
  opReadyFile :: string
  opControlTokenFile :: string

datatype startAction =
    MissingStartup
  | StartMetrics string
  | StartServer string string
  | PrepareECH
  | InitRoute
  | StartPool
  | StartListener string string
  | StartControl string
  | WriteReady

definition controlPlan :: "RuntimeOptions \<Rightarrow> startAction list" where
  "controlPlan opts =
    (if opControlAddr opts = [] then []
     else StartControl (opControlAddr opts) # (if opReadyFile opts \<noteq> [] then [WriteReady] else []))"

definition listenerPlan :: "listenerStartupConfig list \<Rightarrow> startAction list" where
  "listenerPlan ls =
    map (\<lambda>l. StartListener (lsScheme l) (lsRaw l)) (filter (\<lambda>l. lsScheme l \<in> {''tcp'', ''socks5'', ''http''}) ls)"

definition startPlan :: "RuntimeOptions \<Rightarrow> runtimeValues \<Rightarrow> startupConfig option \<Rightarrow> startAction list" where
  "startPlan opts v st =
    (case st of
       None \<Rightarrow> [MissingStartup]
     | Some startup \<Rightarrow>
         (if rvMetricsAddr v \<noteq> [] then [StartMetrics (rvMetricsAddr v)] else []) @
         (if scIsServer startup then StartServer (scServerScheme startup) (scServerListen startup) # controlPlan opts
          else
            (if csForwardScheme (scClient startup) = ''wss'' \<and> \<not> csFallback (scClient startup) then [PrepareECH] else []) @
            (if rvRouteEnabled v then [InitRoute] else []) @
            StartPool # listenerPlan (scListeners startup) @ controlPlan opts))"

fun startError :: "startAction \<Rightarrow> bool \<Rightarrow> string \<Rightarrow> string" where
  "startError MissingStartup _ _ = ''runtime config is missing startup state''"
| "startError (StartMetrics _) _ err = ''listen.bind_failed: metrics: '' @ err"
| "startError (StartServer _ _) _ err = ''listen.bind_failed: server: '' @ err"
| "startError PrepareECH canceled err = (if canceled then err else ''transport.ech_lookup_failed: '' @ err)"
| "startError InitRoute _ err = ''route.init_failed: '' @ err"
| "startError StartPool _ err = err"
| "startError (StartListener scheme _) _ err = ''listen.bind_failed: '' @ scheme @ '': '' @ err"
| "startError (StartControl _) _ err = ''listen.bind_failed: control: '' @ err"
| "startError WriteReady _ err = ''ready_file.write_failed: '' @ err"

section \<open>The engine\<close>

datatype start_pc =
    NotStarted
  | Starting "startAction list"
  | StartFailed string
  | AbortCancel string bool
  | AbortListeners string bool nat
  | AbortWait string bool
  | StartReturned "string option"

datatype close_pc =
    CloseIdle
  | CloseCancel nat "Engine option"
  | CloseRoute nat "Engine option"
  | CloseListeners nat nat
  | CloseWaiting

record runtime =
  enStarted :: bool
  enClosed :: bool
  enCancelled :: bool
  enDone :: nat
  enListeners :: "runtimeListener list"
  enControl :: bool
  enPool :: bool
  enLogUndo :: bool
  enFatal :: "string option"
  enRoute :: "Engine option"
  thStart :: start_pc
  thClose :: close_pc
  thFinish :: bool
  gLogRing :: bool
  gRoute :: routeRuntime
  gOpenRoutes :: nat

definition app_NewEngine :: "RuntimeOptions \<Rightarrow> unit result \<Rightarrow> routeRuntime \<Rightarrow> runtime result" where
  "app_NewEngine opts validated rt =
    rbind validated (\<lambda>_.
      if opControlAddr opts = [] \<and> (opReadyFile opts \<noteq> [] \<or> opControlTokenFile opts \<noteq> [])
      then Inl (Errorf ''-ready-file and -control-token-file require -control'')
      else Inr \<lparr>enStarted = False, enClosed = False, enCancelled = False, enDone = 0, enListeners = [], enControl = False,
        enPool = False, enLogUndo = False, enFatal = None, enRoute = None, thStart = NotStarted, thClose = CloseIdle,
        thFinish = False, gLogRing = False, gRoute = rt, gOpenRoutes = 0\<rparr>)"

definition engine_Start :: "startAction list \<Rightarrow> runtime \<Rightarrow> string option \<times> runtime" where
  "engine_Start plan e =
    (if enStarted e then (Some ''runtime already started'', e)
     else if enClosed e then (Some ''runtime already closed'', e)
     else (None, e\<lparr>enStarted := True, enLogUndo := True, gLogRing := True, thStart := Starting plan\<rparr>))"

definition trackListener :: "runtimeListener \<Rightarrow> runtime \<Rightarrow> runtime" where
  "trackListener l e = e\<lparr>enListeners := enListeners e @ [l]\<rparr>"

text \<open>
  The effect of an action that succeeds, with the address that was bound and the routing engine that
  was built.
\<close>

fun startRuntime :: "startAction \<Rightarrow> string \<Rightarrow> Engine \<Rightarrow> runtime \<Rightarrow> runtime" where
  "startRuntime (StartMetrics addr) actual _ e = trackListener (newRuntimeListener ''metrics'' addr actual) e"
| "startRuntime (StartServer scheme addr) actual _ e = trackListener (newRuntimeListener scheme addr actual) e"
| "startRuntime InitRoute _ r e =
    e\<lparr>gRoute := setEngine (gRoute e) (Some r), enRoute := Some r, gOpenRoutes := gOpenRoutes e + 1\<rparr>"
| "startRuntime StartPool _ _ e = e\<lparr>enPool := True\<rparr>"
| "startRuntime (StartListener scheme raw) actual _ e = trackListener (newRuntimeListener scheme raw actual) e"
| "startRuntime (StartControl addr) actual _ e = trackListener (newRuntimeListener ''control'' addr actual) (e\<lparr>enControl := True\<rparr>)"
| "startRuntime _ _ _ e = e"

definition abortStart :: "string \<Rightarrow> runtime \<Rightarrow> runtime" where
  "abortStart err e =
    (if enClosed e then e\<lparr>thStart := StartReturned (Some err)\<rparr>
     else e\<lparr>enClosed := True, enLogUndo := False, thStart := AbortCancel err (enLogUndo e)\<rparr>)"

definition abortFinish :: "string \<Rightarrow> bool \<Rightarrow> runtime \<Rightarrow> runtime" where
  "abortFinish err logUndo e =
    e\<lparr>gLogRing := (gLogRing e \<and> \<not> logUndo), enDone := enDone e + 1, thStart := StartReturned (Some err)\<rparr>"

definition reportFatal :: "string \<Rightarrow> runtime \<Rightarrow> runtime" where
  "reportFatal err e =
    e\<lparr>enFatal := (if enFatal e = None then Some err else enFatal e), enCancelled := (enCancelled e \<or> enStarted e)\<rparr>"

definition finishWhenDone :: "runtime \<Rightarrow> runtime" where
  "finishWhenDone e =
    e\<lparr>gLogRing := (gLogRing e \<and> \<not> enLogUndo e), enLogUndo := False, enDone := enDone e + 1, thFinish := False\<rparr>"

definition engine_Close :: "runtime \<Rightarrow> runtime" where
  "engine_Close e =
    (if enClosed e then e
     else if \<not> enStarted e then e\<lparr>enClosed := True, enDone := enDone e + 1\<rparr>
     else e\<lparr>enClosed := True, enRoute := None, thClose := CloseCancel (length (enListeners e)) (enRoute e)\<rparr>)"

definition closeRouteEngine :: "Engine option \<Rightarrow> runtime \<Rightarrow> runtime" where
  "closeRouteEngine r e =
    (case r of
       None \<Rightarrow> e
     | Some _ \<Rightarrow> e\<lparr>gOpenRoutes := gOpenRoutes e - 1, gRoute := setEngine (gRoute e) None\<rparr>)"

definition onListener :: "nat \<Rightarrow> (runtimeListener \<Rightarrow> runtimeListener) \<Rightarrow> runtime \<Rightarrow> runtime" where
  "onListener i f e = e\<lparr>enListeners := (enListeners e)[i := f (enListeners e ! i)]\<rparr>"

text \<open>The result of \<open>Wait\<close>: \<open>None\<close> while it blocks.\<close>

definition engine_Wait :: "runtime \<Rightarrow> string option option" where
  "engine_Wait e = (if enDone e = 0 then None else Some (enFatal e))"

definition wgCount :: "runtime \<Rightarrow> nat" where
  "wgCount e =
    length (filter (\<lambda>l. \<not> rlDone l) (enListeners e)) + (if thStart e = StartReturned None \<and> \<not> enCancelled e then 1 else 0)"

section \<open>Steps\<close>

text \<open>
  The steps that end a closed engine: those of \<open>Close\<close>, of the watchers, of the listeners whose
  \<open>closeFn\<close> was called, and of \<open>finishWhenDone\<close>.
\<close>

inductive shutdown_step :: "runtime \<Rightarrow> runtime \<Rightarrow> bool" where
  StepCloseCancel: "thClose e = CloseCancel n r \<Longrightarrow>
    shutdown_step e (e\<lparr>enCancelled := True, thClose := CloseRoute n r\<rparr>)"
| StepCloseRoute: "thClose e = CloseRoute n r \<Longrightarrow>
    shutdown_step e ((closeRouteEngine r e)\<lparr>thClose := CloseListeners 0 n\<rparr>)"
| StepCloseListener: "thClose e = CloseListeners k n \<Longrightarrow> k < n \<Longrightarrow>
    shutdown_step e ((onListener k listener_Close e)\<lparr>thClose := CloseListeners (Suc k) n\<rparr>)"
| StepCloseWait: "thClose e = CloseListeners k n \<Longrightarrow> \<not> k < n \<Longrightarrow>
    shutdown_step e (e\<lparr>thClose := CloseWaiting\<rparr>)"
| StepWatcher: "enCancelled e \<Longrightarrow> i < length (enListeners e) \<Longrightarrow> rlWatched (enListeners e ! i) \<Longrightarrow>
    shutdown_step e (onListener i (\<lambda>l. (listener_Close l)\<lparr>rlWatched := False\<rparr>) e)"
| StepListenerEnds: "enCancelled e \<Longrightarrow> i < length (enListeners e) \<Longrightarrow> rlClosing (enListeners e ! i) \<Longrightarrow>
    \<not> rlDone (enListeners e ! i) \<Longrightarrow> shutdown_step e (onListener i (listener_finish None) e)"
| StepFinish: "thFinish e \<Longrightarrow> wgCount e = 0 \<Longrightarrow> shutdown_step e (finishWhenDone e)"

inductive engine_step :: "startAction list \<Rightarrow> runtime \<Rightarrow> runtime \<Rightarrow> bool" for plan where
  StepStart: "engine_Start plan e = (None, e') \<Longrightarrow> engine_step plan e e'"
| StepActionOk: "thStart e = Starting (a # as) \<Longrightarrow> a \<noteq> MissingStartup \<Longrightarrow>
    engine_step plan e ((startRuntime a actual r e)\<lparr>thStart := Starting as\<rparr>)"
| StepActionFails: "thStart e = Starting (a # as) \<Longrightarrow> a \<noteq> StartPool \<Longrightarrow>
    engine_step plan e (e\<lparr>thStart := StartFailed (startError a canceled err)\<rparr>)"
| StepStarted: "thStart e = Starting [] \<Longrightarrow>
    engine_step plan e (e\<lparr>thStart := StartReturned None, thFinish := True\<rparr>)"
| StepAbort: "thStart e = StartFailed err \<Longrightarrow> engine_step plan e (abortStart err e)"
| StepAbortCancel: "thStart e = AbortCancel err u \<Longrightarrow>
    engine_step plan e (e\<lparr>enCancelled := True, thStart := AbortListeners err u 0\<rparr>)"
| StepAbortListener: "thStart e = AbortListeners err u k \<Longrightarrow> k < length (enListeners e) \<Longrightarrow>
    engine_step plan e ((onListener k listener_Close e)\<lparr>thStart := AbortListeners err u (Suc k)\<rparr>)"
| StepAbortWait: "thStart e = AbortListeners err u k \<Longrightarrow> \<not> k < length (enListeners e) \<Longrightarrow>
    engine_step plan e (e\<lparr>thStart := AbortWait err u\<rparr>)"
| StepAbortDone: "thStart e = AbortWait err u \<Longrightarrow> engine_step plan e (abortFinish err u e)"
| StepClose: "engine_step plan e (engine_Close e)"
| StepShutdown: "shutdown_step e e' \<Longrightarrow> engine_step plan e e'"
| StepParent: "enStarted e \<Longrightarrow> engine_step plan e (e\<lparr>enCancelled := True\<rparr>)"
| StepFatal: "engine_step plan e (reportFatal err e)"
| StepListenerFails: "i < length (enListeners e) \<Longrightarrow> engine_step plan e (onListener i (listener_finish (Some err)) e)"

abbreviation engine_reach :: "startAction list \<Rightarrow> runtime \<Rightarrow> runtime \<Rightarrow> bool" where
  "engine_reach plan \<equiv> (engine_step plan)\<^sup>*\<^sup>*"
section \<open>The process\<close>

text \<open>
  \<open>RunCLI\<close> and the offline commands: the exit code from the flags and from what loading, building,
  starting and waiting gave.
\<close>

definition RunCLI ::
  "bool \<Rightarrow> string \<Rightarrow> string \<Rightarrow> string \<Rightarrow> string \<Rightarrow> int \<Rightarrow> 'c result \<Rightarrow> 'e result \<Rightarrow> string option \<Rightarrow> string option \<Rightarrow> int" where
  "RunCLI showVersion checkConfigFile formatConfigFile configFile listenAddr offline loaded built started waited =
    (if showVersion then 0
     else if checkConfigFile \<noteq> [] \<or> formatConfigFile \<noteq> [] then offline
     else if configFile = [] \<and> listenAddr = [] then 0
     else
       (case loaded of
          Inl _ \<Rightarrow> 2
        | Inr _ \<Rightarrow>
            (case built of
               Inl _ \<Rightarrow> 2
             | Inr _ \<Rightarrow>
                 (case started of
                    Some err \<Rightarrow> if str_Contains err ''listen.bind_failed'' then 3 else 2
                  | None \<Rightarrow> (case waited of Some _ \<Rightarrow> 4 | None \<Rightarrow> 0)))))"

definition runOfflineConfigCommand ::
  "string \<Rightarrow> string \<Rightarrow> (string \<Rightarrow> bytes result) \<Rightarrow> (bytes \<Rightarrow> bytes result) \<Rightarrow> (bytes \<Rightarrow> bool) \<Rightarrow> (bytes \<Rightarrow> unit result) \<Rightarrow> int" where
  "runOfflineConfigCommand checkConfigFile formatConfigFile readInput formatJSON written checkJSON =
    (if checkConfigFile \<noteq> [] \<and> formatConfigFile \<noteq> [] then 2
     else
       (case readInput (if formatConfigFile \<noteq> [] then formatConfigFile else checkConfigFile) of
          Inl _ \<Rightarrow> 2
        | Inr raw \<Rightarrow>
            if formatConfigFile \<noteq> [] then
              (case formatJSON raw of Inl _ \<Rightarrow> 2 | Inr formatted \<Rightarrow> if \<not> written formatted then 2 else 0)
            else (case checkJSON raw of Inl _ \<Rightarrow> 2 | Inr _ \<Rightarrow> 0)))"

section \<open>The invariant\<close>

definition past_cancel :: "close_pc \<Rightarrow> bool" where
  "past_cancel pc = (case pc of CloseIdle \<Rightarrow> False | CloseCancel _ _ \<Rightarrow> False | _ \<Rightarrow> True)"

definition starting_inv :: "runtime \<Rightarrow> bool" where
  "starting_inv e \<longleftrightarrow> enStarted e \<and> \<not> thFinish e \<and> enDone e = 0 \<and> enLogUndo e \<and> gLogRing e \<and> (enClosed e \<longleftrightarrow> thClose e \<noteq> CloseIdle)"

definition aborting_inv :: "bool \<Rightarrow> runtime \<Rightarrow> bool" where
  "aborting_inv u e \<longleftrightarrow> enStarted e \<and> enClosed e \<and> \<not> thFinish e \<and> enDone e = 0 \<and> u \<and> gLogRing e \<and> thClose e = CloseIdle"

text \<open>Where the parts of the engine stand, by the point that \<open>Start\<close> has reached.\<close>

fun start_inv :: "start_pc \<Rightarrow> runtime \<Rightarrow> bool" where
  "start_inv NotStarted e \<longleftrightarrow> \<not> enStarted e \<and> \<not> thFinish e \<and> \<not> gLogRing e \<and> \<not> enCancelled e \<and> enListeners e = [] \<and>
     thClose e = CloseIdle \<and> enDone e = (if enClosed e then 1 else 0)"
| "start_inv (Starting as) e = starting_inv e"
| "start_inv (StartFailed err) e = starting_inv e"
| "start_inv (AbortCancel err u) e = aborting_inv u e"
| "start_inv (AbortListeners err u k) e = (aborting_inv u e \<and> enCancelled e)"
| "start_inv (AbortWait err u) e = (aborting_inv u e \<and> enCancelled e)"
| "start_inv (StartReturned (Some err)) e \<longleftrightarrow> enStarted e \<and> enClosed e \<and> \<not> thFinish e \<and>
     (if thClose e = CloseIdle then enDone e = 1 \<and> \<not> gLogRing e else enDone e = 0 \<and> gLogRing e)"
| "start_inv (StartReturned None) e \<longleftrightarrow> enStarted e \<and> (enClosed e \<longleftrightarrow> thClose e \<noteq> CloseIdle) \<and>
     (if thFinish e then enDone e = 0 \<and> gLogRing e \<and> enLogUndo e
      else enDone e = 1 \<and> \<not> gLogRing e \<and> enCancelled e \<and> (\<forall>l\<in>set (enListeners e). rlDone l))"

definition runtime_inv :: "runtime \<Rightarrow> bool" where
  "runtime_inv e \<longleftrightarrow> start_inv (thStart e) e \<and> (past_cancel (thClose e) \<longrightarrow> enCancelled e) \<and>
    (\<forall>l\<in>set (enListeners e). rlWatched l \<or> rlClosing l)"

lemmas runtime_inv_defs = runtime_inv_def starting_inv_def aborting_inv_def

lemma listener_Close_simps [simp]:
  "rlDone (listener_Close l) = rlDone l" "rlWatched (listener_Close l) = rlWatched l" "rlClosing (listener_Close l)"
  by (simp_all add: listener_Close_def)

lemma listener_finish_simps [simp]:
  "rlDone (listener_finish err l)" "rlWatched (listener_finish err l) = rlWatched l" "rlClosing (listener_finish err l) = rlClosing l"
  by (simp_all add: listener_finish_def Let_def split: option.split)

lemma onListener_simps [simp]:
  "enStarted (onListener i f e) = enStarted e" "enClosed (onListener i f e) = enClosed e"
  "enCancelled (onListener i f e) = enCancelled e" "enDone (onListener i f e) = enDone e"
  "enLogUndo (onListener i f e) = enLogUndo e" "enFatal (onListener i f e) = enFatal e" "enRoute (onListener i f e) = enRoute e"
  "thStart (onListener i f e) = thStart e" "thClose (onListener i f e) = thClose e" "thFinish (onListener i f e) = thFinish e"
  "gLogRing (onListener i f e) = gLogRing e" "gRoute (onListener i f e) = gRoute e" "gOpenRoutes (onListener i f e) = gOpenRoutes e"
  "length (enListeners (onListener i f e)) = length (enListeners e)"
  by (simp_all add: onListener_def)

lemma closeRouteEngine_simps [simp]:
  "enStarted (closeRouteEngine r e) = enStarted e" "enClosed (closeRouteEngine r e) = enClosed e"
  "enCancelled (closeRouteEngine r e) = enCancelled e" "enDone (closeRouteEngine r e) = enDone e"
  "enLogUndo (closeRouteEngine r e) = enLogUndo e" "enFatal (closeRouteEngine r e) = enFatal e" "enRoute (closeRouteEngine r e) = enRoute e"
  "thStart (closeRouteEngine r e) = thStart e" "thClose (closeRouteEngine r e) = thClose e" "thFinish (closeRouteEngine r e) = thFinish e"
  "gLogRing (closeRouteEngine r e) = gLogRing e" "enListeners (closeRouteEngine r e) = enListeners e"
  by (simp_all add: closeRouteEngine_def split: option.split)

text \<open>An action changes nothing but the listeners, the control server, the pool and the routing engine.\<close>

lemma startRuntime_frame [simp]:
  "enStarted (startRuntime a x r e) = enStarted e" "enClosed (startRuntime a x r e) = enClosed e"
  "enCancelled (startRuntime a x r e) = enCancelled e" "enDone (startRuntime a x r e) = enDone e"
  "enLogUndo (startRuntime a x r e) = enLogUndo e" "thStart (startRuntime a x r e) = thStart e"
  "thClose (startRuntime a x r e) = thClose e" "thFinish (startRuntime a x r e) = thFinish e" "gLogRing (startRuntime a x r e) = gLogRing e"
  by (cases a; simp add: trackListener_def)+

lemma startRuntime_listeners:
  "l \<in> set (enListeners (startRuntime a x r e)) \<Longrightarrow> l \<in> set (enListeners e) \<or> rlWatched l"
  by (cases a) (auto simp: trackListener_def newRuntimeListener_def)

lemma set_onListener:
  assumes "l \<in> set (enListeners (onListener i f e))"
  shows "l \<in> set (enListeners e) \<or> (\<exists>k\<in>set (enListeners e). l = f k)"
proof (cases "i < length (enListeners e)")
  case True
  then show ?thesis
    using assms set_update_subset_insert [of "enListeners e" i "f (enListeners e ! i)"] by (fastforce simp: onListener_def)
qed (use assms in \<open>simp add: onListener_def not_less list_update_beyond\<close>)

lemma runtime_inv_onListener:
  assumes "runtime_inv e"
    and "\<And>l. rlDone l \<Longrightarrow> rlDone (f l)" "\<And>l. rlWatched l \<or> rlClosing l \<Longrightarrow> rlWatched (f l) \<or> rlClosing (f l)"
  shows "runtime_inv (onListener i f e)"
proof -
  have all: "(\<forall>l\<in>set (enListeners e). P l) \<Longrightarrow> (\<And>l. P l \<Longrightarrow> P (f l)) \<Longrightarrow> \<forall>l\<in>set (enListeners (onListener i f e)). P l" for P
    using set_onListener by blast
  have "enListeners e = [] \<Longrightarrow> enListeners (onListener i f e) = []" by (simp add: onListener_def)
  then have "start_inv (thStart e) (onListener i f e)"
    using assms(1) all [of rlDone, OF _ assms(2)]
    by (cases "(thStart e, e)" rule: start_inv.cases) (auto simp: runtime_inv_defs)
  then show ?thesis using assms(1) all [of "\<lambda>l. rlWatched l \<or> rlClosing l", OF _ assms(3)] by (simp add: runtime_inv_def)
qed

lemma runtime_inv_shutdown_step:
  assumes "shutdown_step e e'" "runtime_inv e"
  shows "runtime_inv e'"
  using assms
proof (induction rule: shutdown_step.induct)
  case (StepCloseListener e k n)
  then have "runtime_inv (onListener k listener_Close e)" by (intro runtime_inv_onListener) auto
  with StepCloseListener show ?case
    by (cases "(thStart e, e)" rule: start_inv.cases) (auto simp: runtime_inv_defs past_cancel_def split: if_splits)
next
  case (StepWatcher e i)
  then show ?case by (intro runtime_inv_onListener) auto
next
  case (StepListenerEnds e i)
  then show ?case by (intro runtime_inv_onListener) auto
next
  case (StepFinish e)
  then show ?case
    by (cases "(thStart e, e)" rule: start_inv.cases) (auto simp: runtime_inv_defs finishWhenDone_def wgCount_def filter_empty_conv split: if_splits)
qed (case_tac "(thStart e, e)" rule: start_inv.cases; auto simp: runtime_inv_defs past_cancel_def split: if_splits)+

lemma runtime_inv_step:
  assumes "engine_step plan e e'" "runtime_inv e"
  shows "runtime_inv e'"
  using assms
proof (induction rule: engine_step.induct)
  case (StepStart e e')
  then show ?case
    by (cases "(thStart e, e)" rule: start_inv.cases) (auto simp: runtime_inv_defs engine_Start_def split: if_splits)
next
  case (StepActionOk e a as actual r)
  then show ?case using startRuntime_listeners by (fastforce simp: runtime_inv_defs)
next
  case (StepAbort e err)
  then show ?case by (auto simp: runtime_inv_defs abortStart_def)
next
  case (StepAbortListener e err u k)
  then have "runtime_inv (onListener k listener_Close e)" by (intro runtime_inv_onListener) auto
  with StepAbortListener show ?case by (auto simp: runtime_inv_defs)
next
  case (StepAbortDone e err u)
  then show ?case by (auto simp: runtime_inv_defs abortFinish_def)
next
  case (StepClose e)
  then show ?case
    by (cases "(thStart e, e)" rule: start_inv.cases) (auto simp: runtime_inv_defs engine_Close_def past_cancel_def split: if_splits)
next
  case (StepShutdown e e')
  then show ?case by (blast intro: runtime_inv_shutdown_step)
next
  case (StepParent e)
  then show ?case by (cases "(thStart e, e)" rule: start_inv.cases) (auto simp: runtime_inv_defs split: if_splits)
next
  case (StepFatal e err)
  then show ?case by (cases "(thStart e, e)" rule: start_inv.cases) (auto simp: runtime_inv_defs reportFatal_def split: if_splits)
next
  case (StepListenerFails i e err)
  then show ?case by (intro runtime_inv_onListener) auto
qed (auto simp: runtime_inv_defs past_cancel_def split: close_pc.splits)

lemma runtime_inv_reach: "engine_reach plan e e' \<Longrightarrow> runtime_inv e \<Longrightarrow> runtime_inv e'"
  by (induction rule: rtranclp_induct) (blast intro: runtime_inv_step)+

lemma runtime_inv_new: "app_NewEngine opts validated rt = Inr e \<Longrightarrow> runtime_inv e"
  by (auto simp: app_NewEngine_def runtime_inv_def past_cancel_def rbind_def split: sum.splits if_splits)

section \<open>Shutting down\<close>

fun close_weight :: "close_pc \<Rightarrow> nat" where
  "close_weight (CloseCancel n _) = n + 3"
| "close_weight (CloseRoute n _) = n + 2"
| "close_weight (CloseListeners k n) = n - k + 1"
| "close_weight _ = 0"

definition countListeners :: "(runtimeListener \<Rightarrow> bool) \<Rightarrow> runtime \<Rightarrow> nat" where
  "countListeners P e = length (filter P (enListeners e))"

definition shutdown_measure :: "runtime \<Rightarrow> nat" where
  "shutdown_measure e = close_weight (thClose e) + countListeners rlWatched e + countListeners (\<lambda>l. \<not> rlDone l) e + (if thFinish e then 1 else 0)"

lemma length_filter_update:
  assumes "i < length xs"
  shows "length (filter P (xs[i := x])) + (if P (xs ! i) then 1 else 0) = length (filter P xs) + (if P x then 1 else 0)"
  using assms
proof (induction xs arbitrary: i)
  case (Cons y ys)
  show ?case
  proof (cases i)
    case (Suc j)
    with Cons.prems Cons.IH [of j] show ?thesis by simp
  qed simp
qed simp

lemma countListeners_onListener:
  assumes "i < length (enListeners e)"
  shows "countListeners P (onListener i f e) + (if P (enListeners e ! i) then 1 else 0) = countListeners P e + (if P (f (enListeners e ! i)) then 1 else 0)"
  using length_filter_update [OF assms] by (simp add: countListeners_def onListener_def)

lemma countListeners_onListener_same:
  assumes "\<And>l. P (f l) = P l"
  shows "countListeners P (onListener i f e) = countListeners P e"
proof (cases "i < length (enListeners e)")
  case True
  from countListeners_onListener [OF True, of P f] show ?thesis by (simp add: assms)
qed (simp add: countListeners_def onListener_def not_less list_update_beyond)

lemma countListeners_frame [simp]:
  "countListeners P (e\<lparr>enCancelled := a\<rparr>) = countListeners P e" "countListeners P (e\<lparr>thClose := b\<rparr>) = countListeners P e"
  "countListeners P (closeRouteEngine r e) = countListeners P e" "countListeners P (finishWhenDone e) = countListeners P e"
  by (simp_all add: countListeners_def finishWhenDone_def)

lemma shutdown_step_decreases: "shutdown_step e e' \<Longrightarrow> shutdown_measure e' < shutdown_measure e"
proof (induction rule: shutdown_step.induct)
  case (StepCloseListener e k n)
  then show ?case by (simp add: shutdown_measure_def countListeners_onListener_same)
next
  case (StepWatcher e i)
  with countListeners_onListener [OF StepWatcher(2), of rlWatched "\<lambda>l. (listener_Close l)\<lparr>rlWatched := False\<rparr>"]
  show ?case by (simp add: shutdown_measure_def countListeners_onListener_same)
next
  case (StepListenerEnds e i)
  with countListeners_onListener [OF StepListenerEnds(2), of "\<lambda>l. \<not> rlDone l" "listener_finish None"]
  show ?case by (simp add: shutdown_measure_def countListeners_onListener_same)
next
  case (StepFinish e)
  then show ?case by (simp add: shutdown_measure_def) (simp add: finishWhenDone_def)
qed (simp_all add: shutdown_measure_def)

lemma shutdown_run_bounded: "(shutdown_step ^^ k) e e' \<Longrightarrow> k + shutdown_measure e' \<le> shutdown_measure e"
proof (induction k arbitrary: e')
  case (Suc k)
  then obtain m where "(shutdown_step ^^ k) e m" "shutdown_step m e'" by auto
  with Suc.IH [of m] shutdown_step_decreases [of m e'] show ?case by simp
qed simp

text \<open>A closed engine whose start succeeded is never stuck before \<open>done\<close> is closed.\<close>

lemma shutdown_progress:
  assumes "runtime_inv e" "thStart e = StartReturned None" "enClosed e" "enDone e = 0"
  shows "\<exists>e'. shutdown_step e e'"
proof -
  have fin: "thFinish e" and closing: "thClose e \<noteq> CloseIdle" using assms by (auto simp: runtime_inv_def split: if_splits)
  show ?thesis
  proof (cases "thClose e = CloseWaiting")
    case False
    with closing show ?thesis
      by (cases "thClose e") (auto intro: shutdown_step.intros dest: StepCloseListener StepCloseWait)
  next
    case True
    then have c: "enCancelled e" using assms(1) by (simp add: runtime_inv_def past_cancel_def)
    show ?thesis
    proof (cases "\<forall>l\<in>set (enListeners e). rlDone l")
      case True
      then have "wgCount e = 0" using c by (simp add: wgCount_def)
      with fin show ?thesis by (blast intro: StepFinish)
    next
      case False
      then obtain i where i: "i < length (enListeners e)" "\<not> rlDone (enListeners e ! i)" by (metis in_set_conv_nth)
      then have "rlWatched (enListeners e ! i) \<or> rlClosing (enListeners e ! i)" using assms(1) by (simp add: runtime_inv_def)
      with i c show ?thesis by (blast intro: StepWatcher StepListenerEnds)
    qed
  qed
qed

lemma shutdown_run_closed:
  assumes "(shutdown_step ^^ k) e e'" "runtime_inv e" "thStart e = StartReturned None" "enClosed e"
  shows "runtime_inv e' \<and> thStart e' = StartReturned None \<and> enClosed e'"
  using assms
proof (induction k arbitrary: e')
  case (Suc k)
  then obtain m where m: "(shutdown_step ^^ k) e m" "shutdown_step m e'" by auto
  have "thStart e' = thStart m \<and> enClosed e' = enClosed m"
    using m(2) by (induction rule: shutdown_step.induct) (simp_all add: finishWhenDone_def)
  with Suc m show ?case by (metis runtime_inv_shutdown_step)
qed simp

section \<open>Properties\<close>

text \<open>
  C25. \<open>done\<close> is closed at most once, whatever calls of \<open>Start\<close> and \<open>Close\<close>, cancellations, fatal errors and
  failing listeners meet: closing a closed channel would panic. When a run that started well has closed
  it, its context is cancelled, every listener has finished and the output of the logger is back where it
  was; so \<open>Wait\<close> returns only then. An engine is started at most once and never after it was closed.
\<close>

lemma engine_done_once:
  assumes "app_NewEngine opts validated rt = Inr new" "engine_reach plan new e"
  shows "enDone e \<le> 1 \<and>
    (thStart e = StartReturned None \<and> engine_Wait e \<noteq> None \<longrightarrow>
       enCancelled e \<and> (\<forall>l\<in>set (enListeners e). rlDone l) \<and> \<not> gLogRing e) \<and>
    (enStarted e \<or> enClosed e \<longrightarrow> (\<exists>err. engine_Start plan e = (Some err, e)))"
proof -
  have "runtime_inv e" using assms by (blast intro: runtime_inv_reach runtime_inv_new)
  then have "enDone e \<le> 1" by (cases "(thStart e, e)" rule: start_inv.cases) (auto simp: runtime_inv_defs split: if_splits)
  moreover have "enCancelled e \<and> (\<forall>l\<in>set (enListeners e). rlDone l) \<and> \<not> gLogRing e"
    if "thStart e = StartReturned None" "engine_Wait e \<noteq> None"
    using that \<open>runtime_inv e\<close> by (auto simp: runtime_inv_def engine_Wait_def split: if_splits)
  ultimately show ?thesis by (auto simp: engine_Start_def)
qed

text \<open>
  C26. \<open>Close\<close> brings a started engine down: from any state in which the start has succeeded and \<open>Close\<close> was
  called, the steps of the shutdown can go on until \<open>done\<close> is closed, and every sequence of them is
  bounded, so each run that goes on ends there, with all listeners finished; \<open>Wait\<close> then returns the
  first fatal error, if any.
\<close>

lemma engine_close_completes:
  assumes "app_NewEngine opts validated rt = Inr new" "engine_reach plan new e"
    and "thStart e = StartReturned None" "enClosed e"
  shows "\<exists>bound. \<forall>k e'. (shutdown_step ^^ k) e e' \<longrightarrow>
    k \<le> bound \<and> ((\<exists>e''. shutdown_step e' e'') \<or> engine_Wait e' = Some (enFatal e') \<and> (\<forall>l\<in>set (enListeners e'). rlDone l))"
proof (intro exI allI impI)
  fix k e' assume run: "(shutdown_step ^^ k) e e'"
  have "runtime_inv e" using assms by (blast intro: runtime_inv_reach runtime_inv_new)
  note inv = shutdown_run_closed [OF run this assms(3,4)]
  have "k \<le> shutdown_measure e" using shutdown_run_bounded [OF run] by simp
  moreover have "engine_Wait e' = Some (enFatal e') \<and> (\<forall>l\<in>set (enListeners e'). rlDone l)" if "enDone e' \<noteq> 0"
    using that inv by (auto simp: runtime_inv_def engine_Wait_def split: if_splits)
  ultimately show "k \<le> shutdown_measure e \<and>
      ((\<exists>e''. shutdown_step e' e'') \<or> engine_Wait e' = Some (enFatal e') \<and> (\<forall>l\<in>set (enListeners e'). rlDone l))"
    using inv shutdown_progress by blast
qed

lemma failed_stays:
  assumes "engine_step plan e e'" "runtime_inv e" "thStart e = StartReturned (Some err)"
  shows "thStart e' = StartReturned (Some err) \<and> (thClose e' = CloseIdle \<longleftrightarrow> thClose e = CloseIdle) \<and>
    (thClose e = CloseIdle \<longrightarrow> gRoute e' = gRoute e \<and> gOpenRoutes e' = gOpenRoutes e)"
  using assms
proof (induction rule: engine_step.induct)
  case (StepShutdown e e')
  then show ?case
    by (induction rule: shutdown_step.induct) (auto simp: finishWhenDone_def runtime_inv_def)
qed (auto simp: engine_Start_def engine_Close_def reportFatal_def runtime_inv_def split: if_splits)

lemma failed_stays_reach:
  assumes "engine_reach plan e e'" "runtime_inv e" "thStart e = StartReturned (Some err)"
  shows "thStart e' = StartReturned (Some err) \<and> (thClose e' = CloseIdle \<longleftrightarrow> thClose e = CloseIdle) \<and>
    (thClose e = CloseIdle \<longrightarrow> gRoute e' = gRoute e \<and> gOpenRoutes e' = gOpenRoutes e)"
  using assms(1)
proof (induction rule: rtranclp_induct)
  case (step y z)
  have "runtime_inv y" using step(1) assms(2) by (rule runtime_inv_reach)
  from failed_stays [OF step(2) this] step(3) show ?case by auto
qed (use assms in simp)

definition route_inv :: "runtime \<Rightarrow> bool" where
  "route_inv e \<longleftrightarrow> (thClose e = CloseIdle \<longrightarrow> enRoute e \<noteq> None \<longrightarrow> rtEngine (gRoute e) = enRoute e \<and> gOpenRoutes e > 0)"

lemma route_inv_startRuntime: "route_inv e \<Longrightarrow> route_inv (startRuntime a x r e)"
  by (cases a) (auto simp: route_inv_def trackListener_def setEngine_def)

lemma route_inv_step: "engine_step plan e e' \<Longrightarrow> route_inv e \<Longrightarrow> route_inv e'"
proof (induction rule: engine_step.induct)
  case (StepActionOk e a as actual r)
  then show ?case using route_inv_startRuntime [of e a actual r] by (simp add: route_inv_def)
next
  case (StepShutdown e e')
  then show ?case by (induction rule: shutdown_step.induct) (auto simp: finishWhenDone_def route_inv_def)
qed (auto simp: route_inv_def engine_Start_def engine_Close_def reportFatal_def abortStart_def abortFinish_def split: if_splits)

text \<open>
  What a failed start leaves behind. When \<open>Close\<close> was called while the start was running, \<open>abortStart\<close>
  finds the engine closed and returns: nothing closes \<open>done\<close> any more, \<open>Wait\<close> blocks for ever and the
  output of the logger stays redirected. Otherwise \<open>abortStart\<close> closes \<open>done\<close>, but the routing engine that
  the start had installed stays open and in force, whatever happens later.
\<close>

lemma engine_failed_start_leaks:
  assumes "app_NewEngine opts validated rt = Inr new" "engine_reach plan new e"
    and "thStart e = StartReturned (Some err)" "engine_reach plan e e'"
  shows "(thClose e \<noteq> CloseIdle \<longrightarrow> engine_Wait e' = None \<and> gLogRing e') \<and>
    (thClose e = CloseIdle \<and> enRoute e \<noteq> None \<longrightarrow> engine_Wait e' \<noteq> None \<and> rtEngine (gRoute e') = enRoute e \<and> gOpenRoutes e' > 0)"
proof -
  have inv: "runtime_inv e" using assms by (blast intro: runtime_inv_reach runtime_inv_new)
  have route: "route_inv e"
    using assms(2)
  proof (induction rule: rtranclp_induct)
    case base
    show ?case using assms(1) by (auto simp: app_NewEngine_def rbind_def route_inv_def split: sum.splits if_splits)
  qed (blast intro: route_inv_step)
  note stays = failed_stays_reach [OF assms(4) inv assms(3)]
  have "runtime_inv e'" using inv assms(4) by (blast intro: runtime_inv_reach)
  with stays have "if thClose e = CloseIdle then enDone e' = 1 else enDone e' = 0 \<and> gLogRing e'"
    by (auto simp: runtime_inv_def split: if_splits)
  with stays route show ?thesis by (auto simp: route_inv_def engine_Wait_def split: if_splits)
qed

section \<open>What a started engine runs\<close>

fun planned :: "startAction \<Rightarrow> (string \<times> string) list" where
  "planned (StartMetrics addr) = [(''metrics'', addr)]"
| "planned (StartServer scheme addr) = [(scheme, addr)]"
| "planned (StartListener scheme raw) = [(scheme, raw)]"
| "planned (StartControl addr) = [(''control'', addr)]"
| "planned _ = []"

definition listener_keys :: "runtime \<Rightarrow> (string \<times> string) list" where
  "listener_keys e = map (\<lambda>l. (rlProtocol l, rlConfigured l)) (enListeners e)"

definition plan_inv :: "startAction list \<Rightarrow> runtime \<Rightarrow> bool" where
  "plan_inv plan e \<longleftrightarrow>
    (case thStart e of
       NotStarted \<Rightarrow> listener_keys e = []
     | Starting as \<Rightarrow> (\<exists>run. plan = run @ as \<and> listener_keys e = concat (map planned run))
     | StartReturned None \<Rightarrow> listener_keys e = concat (map planned plan)
     | _ \<Rightarrow> True)"

lemma listener_keys_onListener:
  assumes "\<And>l. rlProtocol (f l) = rlProtocol l" "\<And>l. rlConfigured (f l) = rlConfigured l"
  shows "listener_keys (onListener i f e) = listener_keys e"
proof (cases "i < length (enListeners e)")
  case True
  then show ?thesis by (simp add: listener_keys_def onListener_def map_update assms list_update_same_conv)
qed (simp add: listener_keys_def onListener_def not_less list_update_beyond)

lemma listener_op_keys [simp]:
  "rlProtocol (listener_Close l) = rlProtocol l" "rlConfigured (listener_Close l) = rlConfigured l"
  "rlProtocol (listener_finish err l) = rlProtocol l" "rlConfigured (listener_finish err l) = rlConfigured l"
  by (simp_all add: listener_Close_def listener_finish_def Let_def split: option.split)

lemma listener_keys_startRuntime: "listener_keys (startRuntime a x r e) = listener_keys e @ planned a"
  by (cases a) (simp_all add: listener_keys_def trackListener_def newRuntimeListener_def)

lemma listener_keys_frame [simp]:
  "listener_keys (e\<lparr>enCancelled := a\<rparr>) = listener_keys e" "listener_keys (e\<lparr>thClose := b\<rparr>) = listener_keys e"
  "listener_keys (e\<lparr>thStart := c\<rparr>) = listener_keys e" "listener_keys (e\<lparr>thFinish := d\<rparr>) = listener_keys e"
  "listener_keys (closeRouteEngine r e) = listener_keys e" "listener_keys (finishWhenDone e) = listener_keys e"
  "listener_keys (engine_Close e) = listener_keys e" "listener_keys (reportFatal err e) = listener_keys e"
  by (simp_all add: listener_keys_def finishWhenDone_def engine_Close_def reportFatal_def)

lemma plan_inv_shutdown_step: "shutdown_step e e' \<Longrightarrow> thStart e' = thStart e \<and> listener_keys e' = listener_keys e"
  by (induction rule: shutdown_step.induct) (simp_all add: listener_keys_onListener finishWhenDone_def [THEN arg_cong [of _ _ thStart]])

lemma plan_inv_cong: "thStart e' = thStart e \<Longrightarrow> listener_keys e' = listener_keys e \<Longrightarrow> plan_inv plan e' = plan_inv plan e"
  by (simp add: plan_inv_def split: start_pc.split option.split)

lemma plan_inv_step: "engine_step plan e e' \<Longrightarrow> runtime_inv e \<Longrightarrow> plan_inv plan e \<Longrightarrow> plan_inv plan e'"
proof (induction rule: engine_step.induct)
  case (StepStart e e')
  then have "thStart e = NotStarted"
    by (cases "(thStart e, e)" rule: start_inv.cases) (auto simp: runtime_inv_defs engine_Start_def split: if_splits)
  with StepStart show ?case by (auto simp: plan_inv_def engine_Start_def listener_keys_def split: if_splits)
next
  case (StepActionOk e a as actual r)
  then obtain run where "plan = run @ a # as" "listener_keys e = concat (map planned run)" by (auto simp: plan_inv_def)
  then show ?case by (simp add: plan_inv_def listener_keys_startRuntime)
next
  case (StepShutdown e e')
  then show ?case using plan_inv_shutdown_step [of e e'] plan_inv_cong [of e' e] by blast
next
  case (StepListenerFails i e err)
  have "plan_inv plan (onListener i (listener_finish (Some err)) e) = plan_inv plan e"
    by (rule plan_inv_cong) (simp_all add: listener_keys_onListener)
  with StepListenerFails show ?case by blast
next
  case (StepClose e)
  have "plan_inv plan (engine_Close e) = plan_inv plan e" by (rule plan_inv_cong) (simp_all, simp add: engine_Close_def)
  with StepClose show ?case by blast
next
  case (StepFatal e err)
  have "plan_inv plan (reportFatal err e) = plan_inv plan e" by (rule plan_inv_cong) (simp_all, simp add: reportFatal_def)
  with StepFatal show ?case by blast
next
  case (StepParent e)
  have "plan_inv plan (e\<lparr>enCancelled := True\<rparr>) = plan_inv plan e" by (rule plan_inv_cong) simp_all
  with StepParent show ?case by blast
qed (auto simp: plan_inv_def abortStart_def abortFinish_def)

lemma plan_inv_reach:
  assumes "app_NewEngine opts validated rt = Inr new" "engine_reach plan new e"
  shows "plan_inv plan e"
  using assms(2)
proof (induction rule: rtranclp_induct)
  case base
  show ?case using assms(1) by (auto simp: app_NewEngine_def rbind_def plan_inv_def listener_keys_def split: sum.splits if_splits)
next
  case (step y z)
  have "runtime_inv y" using assms(1) step(1) by (blast intro: runtime_inv_reach runtime_inv_new)
  with step show ?case by (blast intro: plan_inv_step)
qed

lemma planned_controlPlan:
  "concat (map planned (controlPlan opts)) = (if opControlAddr opts = [] then [] else [(''control'', opControlAddr opts)])"
  by (simp add: controlPlan_def)

lemma planned_listenerPlan:
  "concat (map planned (listenerPlan ls)) = map (\<lambda>l. (lsScheme l, lsRaw l)) (filter (\<lambda>l. lsScheme l \<in> {''tcp'', ''socks5'', ''http''}) ls)"
  by (induction ls) (simp_all add: listenerPlan_def)


section \<open>Witnesses\<close>

definition wit_options :: RuntimeOptions where
  "wit_options = \<lparr>opControlAddr = [], opReadyFile = [], opControlTokenFile = []\<rparr>"

definition wit_client :: startupConfig where
  "wit_client = \<lparr>scListeners = [\<lparr>lsRaw = ''http://:80'', lsScheme = ''http''\<rparr>], scIsServer = False, scServerListen = [], scServerScheme = [],
     scTargetIPs = [], scIPStrategy = 0, scSourceCIDRs = [], scTargetPolicy = None, scSOCKS5Config = None, scClient = zeroClient\<rparr>"

abbreviation wit_listener :: startAction where "wit_listener \<equiv> StartListener ''http'' ''http://:80''"

abbreviation wit_plan :: "startAction list" where "wit_plan \<equiv> [InitRoute, StartPool, wit_listener]"

lemma wit_startPlan: "startPlan wit_options (defaultRuntimeValues\<lparr>rvRouteEnabled := True\<rparr>) (Some wit_client) = wit_plan"
  by (simp add: startPlan_def wit_client_def wit_options_def defaultRuntimeValues_def zeroClient_def listenerPlan_def controlPlan_def)

definition wit_routes :: routeRuntime where
  "wit_routes = \<lparr>rtEngine = None, dnsMap = (\<lambda>_. None)\<rparr>"

definition wit_engine :: Engine where
  "wit_engine = \<lparr>eRules = [], eFallback = [], eGeoSite = None, eGeoIP = None, statsProxy = 0, statsDirect = 0, statsReject = 0, statsMiss = 0\<rparr>"

definition wit_new :: runtime where
  "wit_new = projr (app_NewEngine wit_options (Inr ()) wit_routes)"

lemma wit_new_ok: "app_NewEngine wit_options (Inr ()) wit_routes = Inr wit_new"
  by (simp add: wit_new_def app_NewEngine_def wit_options_def rbind_def)

text \<open>The engine with its pool started and the listener still to come, and after the start.\<close>

definition wit_pool :: runtime where
  "wit_pool = (startRuntime StartPool [] wit_engine (startRuntime InitRoute [] wit_engine (snd (engine_Start wit_plan wit_new))))
     \<lparr>thStart := Starting [wit_listener]\<rparr>"

definition wit_running :: runtime where
  "wit_running = (startRuntime wit_listener ''http://0.0.0.0:80'' wit_engine wit_pool)\<lparr>thStart := StartReturned None, thFinish := True\<rparr>"

lemmas wit_run_defs = wit_new_def app_NewEngine_def wit_options_def rbind_def engine_Start_def wit_pool_def wit_running_def
  setEngine_def trackListener_def newRuntimeListener_def wit_routes_def

lemma wit_pool_reach: "engine_reach wit_plan wit_new wit_pool"
proof -
  define e1 where "e1 = snd (engine_Start wit_plan wit_new)"
  define e2 where "e2 = (startRuntime InitRoute [] wit_engine e1)\<lparr>thStart := Starting [StartPool, wit_listener]\<rparr>"
  have "engine_step wit_plan wit_new e1" by (rule StepStart) (simp add: e1_def wit_run_defs)
  moreover have "engine_step wit_plan e1 e2" unfolding e2_def by (rule StepActionOk) (simp_all add: e1_def wit_run_defs)
  moreover have "engine_step wit_plan e2 ((startRuntime StartPool [] wit_engine e2)\<lparr>thStart := Starting [wit_listener]\<rparr>)"
    by (rule StepActionOk) (simp_all add: e2_def)
  then have "engine_step wit_plan e2 wit_pool" by (simp add: wit_pool_def e2_def e1_def)
  ultimately show ?thesis by (meson converse_rtranclp_into_rtranclp rtranclp.rtrancl_refl)
qed

lemma wit_running_reach: "engine_reach wit_plan wit_new wit_running"
proof -
  define e where "e = (startRuntime wit_listener ''http://0.0.0.0:80'' wit_engine wit_pool)\<lparr>thStart := Starting []\<rparr>"
  have "engine_step wit_plan wit_pool e" unfolding e_def by (rule StepActionOk) (simp_all add: wit_pool_def)
  moreover have "engine_step wit_plan e (e\<lparr>thStart := StartReturned None, thFinish := True\<rparr>)" by (rule StepStarted) (simp add: e_def)
  then have "engine_step wit_plan e wit_running" by (simp add: e_def wit_running_def)
  ultimately show ?thesis using wit_pool_reach by (meson rtranclp.rtrancl_into_rtrancl)
qed

lemma wit_running_fields: "thStart wit_running = StartReturned None" "enStarted wit_running" "enClosed wit_running = False"
  by (simp_all add: wit_run_defs)

lemma wit_closed_reach: "engine_reach wit_plan wit_new (engine_Close wit_running)"
  using wit_running_reach StepClose by (rule rtranclp.rtrancl_into_rtrancl)


lemma engine_close_completes_witness:
  "thStart (engine_Close wit_running) = StartReturned None \<and> enClosed (engine_Close wit_running) \<and>
   engine_Wait (engine_Close wit_running) = None \<and> (\<exists>e'. shutdown_step (engine_Close wit_running) e')"
proof -
  have closed: "thStart (engine_Close wit_running) = StartReturned None" "enClosed (engine_Close wit_running)"
    using wit_running_fields by (simp_all add: engine_Close_def)
  have "engine_Wait (engine_Close wit_running) = None" by (simp add: engine_Wait_def engine_Close_def wit_run_defs)
  moreover have "(shutdown_step ^^ 0) (engine_Close wit_running) (engine_Close wit_running)" by simp
  ultimately show ?thesis
    using engine_close_completes [OF wit_new_ok wit_closed_reach closed] closed by (metis option.distinct(1))
qed

definition wit_finished :: runtime where
  "wit_finished = finishWhenDone (onListener 0 (listener_finish None)
     (onListener 0 (\<lambda>l. (listener_Close l)\<lparr>rlWatched := False\<rparr>) (wit_running\<lparr>enCancelled := True\<rparr>)))"

lemma wit_finished_reach: "engine_reach wit_plan wit_new wit_finished"
proof -
  define c where "c = wit_running\<lparr>enCancelled := True\<rparr>"
  define w where "w = onListener 0 (\<lambda>l. (listener_Close l)\<lparr>rlWatched := False\<rparr>) c"
  define f where "f = onListener 0 (listener_finish None) w"
  have "engine_step wit_plan wit_running c" unfolding c_def by (rule StepParent) (simp add: wit_running_fields)
  moreover have "shutdown_step c w" unfolding w_def by (rule StepWatcher) (simp_all add: c_def wit_run_defs)
  moreover have "shutdown_step w f" unfolding f_def
    by (rule StepListenerEnds) (simp_all add: w_def c_def onListener_def wit_run_defs listener_Close_def)
  moreover have "shutdown_step f (finishWhenDone f)"
    by (rule StepFinish) (simp_all add: wgCount_def f_def w_def c_def onListener_def wit_run_defs)
  ultimately show ?thesis using wit_running_reach unfolding wit_finished_def f_def w_def c_def
    by (meson StepShutdown rtranclp.rtrancl_into_rtrancl)
qed

lemma engine_done_once_witness:
  "engine_reach wit_plan wit_new wit_finished \<and> thStart wit_finished = StartReturned None \<and> engine_Wait wit_finished = Some None \<and>
   enDone wit_finished \<le> 1 \<and> enCancelled wit_finished \<and> list_all rlDone (enListeners wit_finished) \<and> \<not> gLogRing wit_finished \<and>
   (\<exists>err. engine_Start wit_plan wit_finished = (Some err, wit_finished))"
proof -
  have "thStart wit_finished = StartReturned None" "enStarted wit_finished" "engine_Wait wit_finished = Some None"
    by (simp_all add: wit_finished_def finishWhenDone_def engine_Wait_def) (simp_all add: wit_run_defs)
  with engine_done_once [OF wit_new_ok wit_finished_reach] wit_finished_reach show ?thesis by (simp add: list_all_iff)
qed

text \<open>A bind that fails after \<open>Close\<close>, and one that fails without it.\<close>

abbreviation wit_error :: string where "wit_error \<equiv> startError wit_listener False ''address already in use''"

definition wit_raced :: runtime where
  "wit_raced = (engine_Close wit_pool)\<lparr>thStart := StartReturned (Some wit_error)\<rparr>"

definition wit_aborted :: runtime where
  "wit_aborted = abortFinish wit_error True
     (wit_pool\<lparr>enClosed := True, enLogUndo := False, enCancelled := True, thStart := AbortWait wit_error True\<rparr>)"

lemma wit_raced_reach: "engine_reach wit_plan wit_new wit_raced"
proof -
  define f where "f = (engine_Close wit_pool)\<lparr>thStart := StartFailed wit_error\<rparr>"
  have "engine_step wit_plan wit_pool (engine_Close wit_pool)" by (rule StepClose)
  moreover have "engine_step wit_plan (engine_Close wit_pool) f"
    unfolding f_def by (rule StepActionFails [where a = wit_listener and as = "[]"]) (simp_all add: engine_Close_def wit_pool_def)
  moreover have "engine_step wit_plan f (abortStart wit_error f)" by (rule StepAbort) (simp add: f_def)
  then have "engine_step wit_plan f wit_raced" by (simp add: abortStart_def f_def wit_raced_def engine_Close_def wit_run_defs)
  ultimately show ?thesis using wit_pool_reach by (meson rtranclp.rtrancl_into_rtrancl)
qed

lemma wit_aborted_reach: "engine_reach wit_plan wit_new wit_aborted"
proof -
  define f where "f = wit_pool\<lparr>thStart := StartFailed wit_error\<rparr>"
  define a where "a = wit_pool\<lparr>enClosed := True, enLogUndo := False, thStart := AbortCancel wit_error True\<rparr>"
  define l where "l = wit_pool\<lparr>enClosed := True, enLogUndo := False, enCancelled := True, thStart := AbortListeners wit_error True 0\<rparr>"
  define w where "w = wit_pool\<lparr>enClosed := True, enLogUndo := False, enCancelled := True, thStart := AbortWait wit_error True\<rparr>"
  have "engine_step wit_plan wit_pool f"
    unfolding f_def by (rule StepActionFails [where a = wit_listener and as = "[]"]) (simp_all add: wit_pool_def)
  moreover have "engine_step wit_plan f a"
    using StepAbort [of f wit_error wit_plan] by (simp add: f_def a_def abortStart_def) (simp add: wit_run_defs)
  moreover have "engine_step wit_plan a l" using StepAbortCancel [of a wit_error True wit_plan] by (simp add: a_def l_def)
  moreover have "engine_step wit_plan l w" using StepAbortWait [of l wit_error True 0 wit_plan] by (simp add: l_def w_def) (simp add: wit_run_defs)
  moreover have "engine_step wit_plan w wit_aborted"
    using StepAbortDone [of w wit_error True wit_plan] by (simp add: w_def wit_aborted_def)
  ultimately show ?thesis using wit_pool_reach by (meson rtranclp.rtrancl_into_rtrancl)
qed

lemma engine_failed_start_leaks_witness:
  "engine_reach wit_plan wit_new wit_raced \<and> engine_reach wit_plan wit_new wit_aborted \<and>
   engine_Wait wit_raced = None \<and> gLogRing wit_raced \<and>
   engine_Wait wit_aborted \<noteq> None \<and> rtEngine (gRoute wit_aborted) = Some wit_engine \<and> gOpenRoutes wit_aborted > 0"
proof -
  have r: "thStart wit_raced = StartReturned (Some wit_error)" "thClose wit_raced \<noteq> CloseIdle"
    by (simp_all add: wit_raced_def) (simp_all add: engine_Close_def wit_run_defs)
  have a: "thStart wit_aborted = StartReturned (Some wit_error)" "thClose wit_aborted = CloseIdle" "enRoute wit_aborted = Some wit_engine"
    by (simp_all add: wit_aborted_def abortFinish_def) (simp_all add: wit_run_defs)
  show ?thesis
    using engine_failed_start_leaks [OF wit_new_ok wit_raced_reach r(1) rtranclp.rtrancl_refl]
      engine_failed_start_leaks [OF wit_new_ok wit_aborted_reach a(1) rtranclp.rtrancl_refl]
      r(2) a(2,3) wit_raced_reach wit_aborted_reach by simp
qed

end
