(* ===== verification/Control.thy ===== *)
theory Control
  imports Lifecycle
begin

text \<open>
  The control API (\<open>internal/app/control.go\<close>) and the status it shows (\<open>internal/app/status.go\<close>): the
  check of the address, the bearer token, the routes with their authentication, and every handler on
  every branch. A request is its method, path, header, the two query values that handlers read, and the
  result of reading the body; a response is a status code and a payload, from which the JSON text is
  made. Error payloads are modelled by their code, not by their wording. The state is the runtime of
  \<open>Lifecycle\<close>, the log ring, and how many goroutines a handler has started to close the engine and to
  update the databases. Build information, the counters of the process, the reading of the rules file and
  the checks of a posted configuration are arguments. Paths are exact patterns of \<open>http.ServeMux\<close>; its
  redirect of unclean paths is left to the library.
\<close>

section \<open>Address and token\<close>

definition validateControlAddr :: "unicode_lib \<Rightarrow> string \<Rightarrow> unit result" where
  "validateControlAddr U addr =
    rbind (SplitHostPort addr) (\<lambda>(host, port).
      if TrimSpace U port = [] then Inl (Errorf ''control port is empty'')
      else if port \<noteq> ''0'' \<and> (case Atoi port of None \<Rightarrow> True | Some p \<Rightarrow> p \<le> 0 \<or> p > 65535) then Inl (Errorf ''control port range'')
      else
        (case ParseIP host of
           None \<Rightarrow> Inl (Errorf ''control address is not loopback'')
         | Some ip \<Rightarrow> if \<not> netIsLoopback ip then Inl (Errorf ''control address is not loopback'') else Inr ()))"

definition hex_char :: "nat \<Rightarrow> char" where
  "hex_char n = ''0123456789abcdef'' ! n"

definition hexEncodeToString :: "bytes \<Rightarrow> string" where
  "hexEncodeToString bs = concat (map (\<lambda>b. [hex_char (unat b div 16), hex_char (unat b mod 16)]) bs)"

text \<open>
  \<open>writeControlTokenFile\<close>: the token is the text of 32 random bytes; the path is the given one or that of
  a temporary file; writing is the environment's.
\<close>

definition writeControlTokenFile ::
  "bytes result \<Rightarrow> string \<Rightarrow> string result \<Rightarrow> (string \<Rightarrow> string \<Rightarrow> unit result) \<Rightarrow> (string \<times> string) result" where
  "writeControlTokenFile random path tempFile writeFile =
    rbind random (\<lambda>tokenBytes.
      let token = hexEncodeToString tokenBytes in
      rbind (if path = [] then tempFile else Inr path) (\<lambda>path.
      rbind (writeFile path (token @ [CHR 0x0A])) (\<lambda>_. Inr (token, path))))"

definition authorized :: "fold_lib \<Rightarrow> string \<Rightarrow> string \<Rightarrow> bool" where
  "authorized F token header =
    (case Fields F header of
       [scheme, given] \<Rightarrow> strEqualFold F scheme ''Bearer'' \<and> given = token
     | _ \<Rightarrow> False)"

section \<open>Status\<close>

record TargetPolicySummary =
  tpAllowCIDRs :: nat
  tpDenyCIDRs :: nat
  tpAllowHosts :: nat
  tpDenyHosts :: nat

definition summarizeTargetPolicy :: "TargetPolicy option \<Rightarrow> TargetPolicySummary" where
  "summarizeTargetPolicy policy =
    (case policy of
       None \<Rightarrow> \<lparr>tpAllowCIDRs = 0, tpDenyCIDRs = 0, tpAllowHosts = 0, tpDenyHosts = 0\<rparr>
     | Some p \<Rightarrow> \<lparr>tpAllowCIDRs = length (Allow p), tpDenyCIDRs = length (Deny p), tpAllowHosts = length (AllowHosts p),
         tpDenyHosts = length (DenyHosts p)\<rparr>)"

record ServerStatus =
  ssSessions :: nat
  ssChannels :: nat
  ssActiveStreams :: nat
  ssTargetPolicy :: TargetPolicySummary

record 'ch ClientStatus =
  clForward :: string
  clChannels :: 'ch
  clFallback :: bool
  clECHEnabled :: bool
  clFrontProxy :: bool
  clUDPBlockList :: "int set"

record 'ch Status =
  stMode :: string
  stListeners :: "ListenerStatus list"
  stClient :: "'ch ClientStatus option"
  stServer :: "ServerStatus option"
  stMetricsAddr :: string
  stLastFatal :: string

text \<open>The status of an engine; the counts of the server and the channels of the client are arguments.\<close>

definition engine_status ::
  "unicode_lib \<Rightarrow> 'r url_lib \<Rightarrow> runtimeValues \<Rightarrow> startupConfig \<Rightarrow> nat \<times> nat \<times> nat \<Rightarrow> 'ch \<Rightarrow> runtime \<Rightarrow> 'ch Status" where
  "engine_status U L v startup counts channels e =
    \<lparr>stMode = (if scIsServer startup then ''server'' else ''client''),
     stListeners = map (listener_snapshot U L) (enListeners e),
     stClient = (if scIsServer startup then None
       else Some \<lparr>clForward = redactConfigValue U L (rvForwardAddr v), clChannels = channels,
         clFallback = csFallback (scClient startup),
         clECHEnabled = (csForwardScheme (scClient startup) = ''wss'' \<and> \<not> csFallback (scClient startup)),
         clFrontProxy = wfEnabled (rvWebSocketFrontProxy v), clUDPBlockList = csUDPBlockPorts (scClient startup)\<rparr>),
     stServer = (if scIsServer startup
       then Some (case counts of (sessions, chs, streams) \<Rightarrow>
         \<lparr>ssSessions = sessions, ssChannels = chs, ssActiveStreams = streams, ssTargetPolicy = summarizeTargetPolicy (scTargetPolicy startup)\<rparr>)
       else None),
     stMetricsAddr = rvMetricsAddr v,
     stLastFatal = (case enFatal e of None \<Rightarrow> [] | Some err \<Rightarrow> redactConfigValue U L err)\<rparr>"

section \<open>Requests\<close>

record ctl_request =
  cqMethod :: string
  cqPath :: string
  cqHeader :: Header
  cqLimit :: string
  cqAfter :: string
  cqBody :: "bytes result"

datatype 's payload =
    PError string
  | PVersion string string string
  | POk
  | PStatus 's
  | PLogs "LogEntry list"
  | PStream "LogEntry list" u64 int
  | PMetrics
  | PStats 's
  | PFormatted bytes
  | PStopping
  | PRules bool "Rule list"
  | PReloaded bool "Rule list"
  | PGeoStarted
  | PRouteStats "Engine option"

type_synonym 's response = "nat \<times> 's payload"

record 's ctl_env =
  ceToken :: string
  ceVersion :: "string \<times> string \<times> string"
  ceRouteEnabled :: bool
  ceStatus :: "runtime \<Rightarrow> 's"
  ceFlusher :: bool
  ceCheck :: "bytes \<Rightarrow> unit result"
  ceFormat :: "bytes \<Rightarrow> bytes result"
  ceRulesFile :: "string option"
  ceUnicode :: unicode_lib
  ceFolds :: fold_lib

record ctl_state =
  ctRuntime :: runtime
  ctLogs :: LogRing
  ctCloses :: nat
  ctGeoUpdates :: nat

abbreviation GET :: string where "GET \<equiv> ''GET''"
abbreviation POST :: string where "POST \<equiv> ''POST''"

definition methodNotAllowed :: "'s response" where
  "methodNotAllowed = (405, PError ''http.method_not_allowed'')"

definition handleVersion :: "'s ctl_env \<Rightarrow> ctl_request \<Rightarrow> ctl_state \<Rightarrow> 's response \<times> ctl_state" where
  "handleVersion C r s =
    (if cqMethod r \<noteq> GET then (methodNotAllowed, s)
     else ((200, case ceVersion C of (version, commit, build) \<Rightarrow> PVersion version commit build), s))"

definition handleHealth :: "'s ctl_env \<Rightarrow> ctl_request \<Rightarrow> ctl_state \<Rightarrow> 's response \<times> ctl_state" where
  "handleHealth C r s = (if cqMethod r \<noteq> GET then (methodNotAllowed, s) else ((200, POk), s))"

definition handleStatus :: "'s ctl_env \<Rightarrow> ctl_request \<Rightarrow> ctl_state \<Rightarrow> 's response \<times> ctl_state" where
  "handleStatus C r s = (if cqMethod r \<noteq> GET then (methodNotAllowed, s) else ((200, PStatus (ceStatus C (ctRuntime s))), s))"

definition logsLimit :: "string \<Rightarrow> int" where
  "logsLimit raw = (case Atoi raw of Some parsed \<Rightarrow> if parsed > 0 then parsed else 100 | None \<Rightarrow> 100)"

definition handleLogs :: "'s ctl_env \<Rightarrow> ctl_request \<Rightarrow> ctl_state \<Rightarrow> 's response \<times> ctl_state" where
  "handleLogs C r s =
    (if cqMethod r \<noteq> GET then (methodNotAllowed, s) else ((200, PLogs (LogRing_Entries (logsLimit (cqLimit r)) (ctLogs s))), s))"

definition ParseUint64 :: "string \<Rightarrow> u64 option" where
  "ParseUint64 p = (if p = [] \<or> \<not> list_all isDigit p \<or> digits_value p > 2 ^ 64 - 1 then None else Some (word_of_nat (digits_value p)))"

definition streamLimit :: "string \<Rightarrow> int" where
  "streamLimit raw = (case Atoi raw of Some parsed \<Rightarrow> if parsed > 0 \<and> parsed \<le> 1000 then parsed else 200 | None \<Rightarrow> 200)"

text \<open>The stream up to its first batch of entries, with the cursor and limit of the polls that follow.\<close>

definition handleLogsStream :: "'s ctl_env \<Rightarrow> ctl_request \<Rightarrow> ctl_state \<Rightarrow> 's response \<times> ctl_state" where
  "handleLogsStream C r s =
    (if cqMethod r \<noteq> GET then (methodNotAllowed, s)
     else if \<not> ceFlusher C then ((500, PError ''stream.unsupported''), s)
     else
       (let cursor = (case ParseUint64 (cqAfter r) of Some parsed \<Rightarrow> parsed | None \<Rightarrow> 0);
            limit = streamLimit (cqLimit r)
        in ((200, case sendEntries limit (ctLogs s) cursor of (entries, cursor) \<Rightarrow> PStream entries cursor limit), s)))"

definition handleMetrics :: "'s ctl_env \<Rightarrow> ctl_request \<Rightarrow> ctl_state \<Rightarrow> 's response \<times> ctl_state" where
  "handleMetrics C r s = (if cqMethod r \<noteq> GET then (methodNotAllowed, s) else ((200, PMetrics), s))"

definition handleStats :: "'s ctl_env \<Rightarrow> ctl_request \<Rightarrow> ctl_state \<Rightarrow> 's response \<times> ctl_state" where
  "handleStats C r s = (if cqMethod r \<noteq> GET then (methodNotAllowed, s) else ((200, PStats (ceStatus C (ctRuntime s))), s))"

definition handleConfigCheck :: "'s ctl_env \<Rightarrow> ctl_request \<Rightarrow> ctl_state \<Rightarrow> 's response \<times> ctl_state" where
  "handleConfigCheck C r s =
    (if cqMethod r \<noteq> POST then (methodNotAllowed, s)
     else
       (case cqBody r of
          Inl _ \<Rightarrow> ((400, PError ''config.read_failed''), s)
        | Inr raw \<Rightarrow> (case ceCheck C raw of Inl _ \<Rightarrow> ((400, PError ''config.invalid''), s) | Inr _ \<Rightarrow> ((200, POk), s))))"

definition handleConfigFormat :: "'s ctl_env \<Rightarrow> ctl_request \<Rightarrow> ctl_state \<Rightarrow> 's response \<times> ctl_state" where
  "handleConfigFormat C r s =
    (if cqMethod r \<noteq> POST then (methodNotAllowed, s)
     else
       (case cqBody r of
          Inl _ \<Rightarrow> ((400, PError ''config.read_failed''), s)
        | Inr raw \<Rightarrow>
            (case ceFormat C raw of Inl _ \<Rightarrow> ((400, PError ''config.invalid''), s) | Inr formatted \<Rightarrow> ((200, PFormatted formatted), s))))"

definition handleStop :: "'s ctl_env \<Rightarrow> ctl_request \<Rightarrow> ctl_state \<Rightarrow> 's response \<times> ctl_state" where
  "handleStop C r s =
    (if cqMethod r \<noteq> POST then (methodNotAllowed, s) else ((200, PStopping), s\<lparr>ctCloses := ctCloses s + 1\<rparr>))"

definition routeSnapshot :: "'s ctl_env \<Rightarrow> ctl_state \<Rightarrow> Engine option \<times> bool" where
  "routeSnapshot C s = (enRoute (ctRuntime s), ceRouteEnabled C)"

definition handleRules :: "'s ctl_env \<Rightarrow> ctl_request \<Rightarrow> ctl_state \<Rightarrow> 's response \<times> ctl_state" where
  "handleRules C r s =
    (if cqMethod r \<noteq> GET then (methodNotAllowed, s)
     else
       (case routeSnapshot C s of
          (None, enabled) \<Rightarrow> ((200, PRules enabled []), s)
        | (Some engine, _) \<Rightarrow> ((200, PRules True (eRules engine)), s)))"

text \<open>
  A reload changes the engine that the runtime and the routing runtime share.
\<close>

definition shareEngine :: "Engine \<Rightarrow> runtime \<Rightarrow> runtime" where
  "shareEngine engine e = e\<lparr>enRoute := Some engine, gRoute := setEngine (gRoute e) (Some engine)\<rparr>"

definition handleRulesReload :: "'s ctl_env \<Rightarrow> ctl_request \<Rightarrow> ctl_state \<Rightarrow> 's response \<times> ctl_state" where
  "handleRulesReload C r s =
    (if cqMethod r \<noteq> POST then (methodNotAllowed, s)
     else
       (case routeSnapshot C s of
          (None, _) \<Rightarrow> ((409, PError ''route.disabled''), s)
        | (Some engine, enabled) \<Rightarrow>
            (case ceRulesFile C of
               None \<Rightarrow> ((400, PError ''route.reload_failed''), s)
             | Some rulesText \<Rightarrow>
                 (case Reload (ceUnicode C) engine rulesText of
                    (Some _, _) \<Rightarrow> ((400, PError ''route.reload_failed''), s)
                  | (None, engine') \<Rightarrow>
                      ((200, PReloaded enabled (eRules engine')), s\<lparr>ctRuntime := shareEngine engine' (ctRuntime s)\<rparr>)))))"

definition handleGeoUpdate :: "'s ctl_env \<Rightarrow> ctl_request \<Rightarrow> ctl_state \<Rightarrow> 's response \<times> ctl_state" where
  "handleGeoUpdate C r s =
    (if cqMethod r \<noteq> POST then (methodNotAllowed, s)
     else
       (case routeSnapshot C s of
          (None, _) \<Rightarrow> ((409, PError ''route.disabled''), s)
        | (Some _, _) \<Rightarrow> ((200, PGeoStarted), s\<lparr>ctGeoUpdates := ctGeoUpdates s + 1\<rparr>)))"

definition handleRouteStats :: "'s ctl_env \<Rightarrow> ctl_request \<Rightarrow> ctl_state \<Rightarrow> 's response \<times> ctl_state" where
  "handleRouteStats C r s =
    (if cqMethod r \<noteq> GET then (methodNotAllowed, s) else ((200, PRouteStats (fst (routeSnapshot C s))), s))"

definition requireAuth ::
  "('s ctl_env \<Rightarrow> ctl_request \<Rightarrow> ctl_state \<Rightarrow> 's response \<times> ctl_state) \<Rightarrow>
   's ctl_env \<Rightarrow> ctl_request \<Rightarrow> ctl_state \<Rightarrow> 's response \<times> ctl_state" where
  "requireAuth h C r s =
    (if \<not> authorized (ceFolds C) (ceToken C) (hdr_Get (cqHeader r) ''Authorization'') then ((401, PError ''auth.unauthorized''), s)
     else h C r s)"

text \<open>The routes that \<open>startControlServer\<close> registers; for any other path the library answers 404.\<close>

definition controlRoutes :: "(string \<times> ('s ctl_env \<Rightarrow> ctl_request \<Rightarrow> ctl_state \<Rightarrow> 's response \<times> ctl_state)) list" where
  "controlRoutes =
    [(''/v1/version'', handleVersion),
     (''/v1/health'', handleHealth),
     (''/v1/status'', requireAuth handleStatus),
     (''/v1/logs'', requireAuth handleLogs),
     (''/v1/logs/stream'', requireAuth handleLogsStream),
     (''/v1/metrics'', requireAuth handleMetrics),
     (''/v1/stats'', requireAuth handleStats),
     (''/v1/config/check'', requireAuth handleConfigCheck),
     (''/v1/config/format'', requireAuth handleConfigFormat),
     (''/v1/runtime/stop'', requireAuth handleStop),
     (''/v1/rules'', requireAuth handleRules),
     (''/v1/rules/reload'', requireAuth handleRulesReload),
     (''/v1/route/geo/update'', requireAuth handleGeoUpdate),
     (''/v1/route/stats'', requireAuth handleRouteStats)]"

definition controlServe :: "'s ctl_env \<Rightarrow> ctl_request \<Rightarrow> ctl_state \<Rightarrow> 's response \<times> ctl_state" where
  "controlServe C r s =
    (case map_of controlRoutes (cqPath r) of None \<Rightarrow> ((404, PError ''404 page not found''), s) | Some h \<Rightarrow> h C r s)"

abbreviation authenticated :: "'s ctl_env \<Rightarrow> ctl_request \<Rightarrow> bool" where
  "authenticated C r \<equiv> authorized (ceFolds C) (ceToken C) (hdr_Get (cqHeader r) ''Authorization'')"

section \<open>Lemmas\<close>

lemma all_below_16: "(\<forall>n < 16. P n) \<longleftrightarrow> list_all P [0..<16]"
  by (auto simp: list_all_iff)

lemma hex_char_props:
  assumes "n < 16"
  shows "hexval (hex_char n) = Some n" "isAscii (hex_char n)" "\<not> asciiSpace (hex_char n)"
proof -
  have "\<forall>n < 16. hexval (hex_char n) = Some n \<and> isAscii (hex_char n) \<and> \<not> asciiSpace (hex_char n)"
    unfolding all_below_16 by code_simp
  then show "hexval (hex_char n) = Some n" "isAscii (hex_char n)" "\<not> asciiSpace (hex_char n)" using assms by blast+
qed

lemma hex_char_inj: "m < 16 \<Longrightarrow> n < 16 \<Longrightarrow> hex_char m = hex_char n \<longleftrightarrow> m = n"
  using hex_char_props(1) by (metis option.inject)

lemma byte_nibbles: "unat (b :: byte) div 16 < 16" "unat (b :: byte) mod 16 < 16"
  using unat_byte_less [of b] by (simp_all add: less_mult_imp_div_less)

lemma hexEncode_Cons: "hexEncodeToString (b # bs) = hex_char (unat b div 16) # hex_char (unat b mod 16) # hexEncodeToString bs"
  by (simp add: hexEncodeToString_def)

lemma hexEncode_inject [simp]: "hexEncodeToString bs = hexEncodeToString cs \<longleftrightarrow> bs = cs"
proof (induction bs arbitrary: cs)
  case Nil
  show ?case by (cases cs) (simp_all add: hexEncodeToString_def)
next
  case (Cons b bs)
  have nibbles: "unat b div 16 = unat c div 16 \<and> unat b mod 16 = unat c mod 16 \<longleftrightarrow> b = c" for c :: byte
    by (metis div_mult_mod_eq word_unat_eq_iff)
  show ?case
  proof (cases cs)
    case (Cons c cs')
    then show ?thesis using Cons.IH nibbles [of c] by (auto simp: hexEncode_Cons hex_char_inj byte_nibbles)
  qed (simp add: hexEncodeToString_def)
qed

lemma hexEncode_plain: "c \<in> set (hexEncodeToString bs) \<Longrightarrow> isAscii c \<and> \<not> asciiSpace c"
  using byte_nibbles hex_char_props(2,3) by (auto simp: hexEncodeToString_def)

lemma Fields_bearer:
  assumes "s \<noteq> []" "\<forall>c\<in>set s. isAscii c \<and> \<not> asciiSpace c"
  shows "Fields F (''Bearer '' @ s) = [''Bearer'', s]"
proof -
  have "asciiFields [] s = [s]" using assms asciiFields_word [of s "[]"] by (simp add: list_all_iff)
  then show ?thesis using assms(2) by (simp add: Fields_def isAscii_def asciiSpace_def list_all_iff)
qed

lemma handlers_read_only:
  "snd (handleVersion C r s) = s" "snd (handleHealth C r s) = s" "snd (handleStatus C r s) = s" "snd (handleLogs C r s) = s"
  "snd (handleLogsStream C r s) = s" "snd (handleMetrics C r s) = s" "snd (handleStats C r s) = s" "snd (handleConfigCheck C r s) = s"
  "snd (handleConfigFormat C r s) = s" "snd (handleRules C r s) = s" "snd (handleRouteStats C r s) = s"
  by (simp_all add: handleVersion_def handleHealth_def handleStatus_def handleLogs_def handleLogsStream_def Let_def handleMetrics_def
      handleStats_def handleConfigCheck_def handleConfigFormat_def handleRules_def handleRouteStats_def split: sum.split option.split prod.split)

lemma handleRulesReload_state:
  assumes "snd (handleRulesReload C r s) \<noteq> s"
  shows "cqMethod r = POST \<and> (\<exists>engine text rules. enRoute (ctRuntime s) = Some engine \<and> ceRulesFile C = Some text \<and>
    ParseRules (ceUnicode C) text = Inr rules \<and>
    snd (handleRulesReload C r s) = s\<lparr>ctRuntime := shareEngine (applyRules engine rules) (ctRuntime s)\<rparr>)"
  using assms by (auto simp: handleRulesReload_def routeSnapshot_def Reload_def split: if_splits option.splits sum.splits)

lemmas controlRoutes_iff = controlRoutes_def list.set insert_iff prod.inject empty_iff

lemma controlRoutes_guarded:
  "(path, h) \<in> set controlRoutes \<Longrightarrow> path = ''/v1/version'' \<or> path = ''/v1/health'' \<or> (\<exists>g. h = requireAuth g)"
  unfolding controlRoutes_iff by blast

lemma controlServe_closed:
  assumes "\<not> authenticated C r" "cqPath r \<noteq> ''/v1/version''" "cqPath r \<noteq> ''/v1/health''"
  shows "controlServe C r s \<in> {((401, PError ''auth.unauthorized''), s), ((404, PError ''404 page not found''), s)}"
proof (cases "map_of controlRoutes (cqPath r) :: ('a ctl_env \<Rightarrow> ctl_request \<Rightarrow> ctl_state \<Rightarrow> 'a response \<times> ctl_state) option")
  case (Some h)
  then obtain g where "h = requireAuth g" using controlRoutes_guarded [OF map_of_SomeD] assms(2,3) by blast
  then have "controlServe C r s = ((401, PError ''auth.unauthorized''), s)"
    using Some assms(1) unfolding controlServe_def requireAuth_def by simp
  then show ?thesis by blast
qed (simp add: controlServe_def)

lemma requireAuth_read_only: "(\<And>C r s. snd (h C r s) = s) \<Longrightarrow> snd (requireAuth h C r s) = s"
  by (simp add: requireAuth_def)

text \<open>The three handlers that can change the state.\<close>

lemma controlRoutes_changes:
  "(path, h) \<in> set controlRoutes \<Longrightarrow>
    path = ''/v1/runtime/stop'' \<and> h = requireAuth handleStop \<or> path = ''/v1/route/geo/update'' \<and> h = requireAuth handleGeoUpdate \<or>
    path = ''/v1/rules/reload'' \<and> h = requireAuth handleRulesReload \<or> (\<forall>C r s. snd (h C r s) = s)"
  unfolding controlRoutes_iff by (elim disjE conjE) (simp_all only: requireAuth_read_only handlers_read_only simp_thms)

lemma controlServe_changes:
  assumes "snd (controlServe C r s) \<noteq> s"
  shows "authenticated C r \<and>
    (cqPath r = ''/v1/runtime/stop'' \<and> controlServe C r s = handleStop C r s \<or>
     cqPath r = ''/v1/route/geo/update'' \<and> controlServe C r s = handleGeoUpdate C r s \<or>
     cqPath r = ''/v1/rules/reload'' \<and> controlServe C r s = handleRulesReload C r s)"
proof (cases "map_of controlRoutes (cqPath r) :: ('a ctl_env \<Rightarrow> ctl_request \<Rightarrow> ctl_state \<Rightarrow> 'a response \<times> ctl_state) option")
  case (Some h)
  then have serve: "controlServe C r s = h C r s" by (simp add: controlServe_def)
  with assms have "\<not> (\<forall>C r s. snd (h C r s) = s)" by auto
  moreover have "authenticated C r \<and> requireAuth g C r s = g C r s" if "h = requireAuth g" for g
    using assms serve that by (simp add: requireAuth_def split: if_splits)
  ultimately show ?thesis using controlRoutes_changes [OF map_of_SomeD [OF Some]] serve by metis
qed (use assms in \<open>simp add: controlServe_def\<close>)

lemma handleStop_state: "snd (handleStop C r s) \<noteq> s \<Longrightarrow> cqMethod r = POST \<and> snd (handleStop C r s) = s\<lparr>ctCloses := ctCloses s + 1\<rparr>"
  by (simp add: handleStop_def split: if_splits)

lemma handleGeoUpdate_state:
  "snd (handleGeoUpdate C r s) \<noteq> s \<Longrightarrow> cqMethod r = POST \<and> snd (handleGeoUpdate C r s) = s\<lparr>ctGeoUpdates := ctGeoUpdates s + 1\<rparr>"
  by (auto simp: handleGeoUpdate_def split: if_splits option.splits prod.splits)

section \<open>Properties\<close>

text \<open>
  C28. Nothing but version and health is open: without the token every other path answers 401, or 404 when
  there is no such path, and shows and changes nothing. With it, only three requests change anything, all
  of them POST: stopping, reloading the rules and updating the databases; and a reload installs exactly
  the rules of a file that parses, keeping the counters and databases of the engine.
\<close>

lemma control_guarded:
  "(\<not> authenticated C r \<and> cqPath r \<noteq> ''/v1/version'' \<and> cqPath r \<noteq> ''/v1/health'' \<longrightarrow>
      controlServe C r s \<in> {((401, PError ''auth.unauthorized''), s), ((404, PError ''404 page not found''), s)}) \<and>
    (snd (controlServe C r s) \<noteq> s \<longrightarrow>
      authenticated C r \<and> cqMethod r = POST \<and>
      (cqPath r = ''/v1/runtime/stop'' \<and> snd (controlServe C r s) = s\<lparr>ctCloses := ctCloses s + 1\<rparr> \<or>
       cqPath r = ''/v1/route/geo/update'' \<and> snd (controlServe C r s) = s\<lparr>ctGeoUpdates := ctGeoUpdates s + 1\<rparr> \<or>
       cqPath r = ''/v1/rules/reload'' \<and>
         (\<exists>engine text rules. enRoute (ctRuntime s) = Some engine \<and> ceRulesFile C = Some text \<and> ParseRules (ceUnicode C) text = Inr rules \<and>
            snd (controlServe C r s) = s\<lparr>ctRuntime := shareEngine (applyRules engine rules) (ctRuntime s)\<rparr>)))"
proof -
  have "authenticated C r \<and> cqMethod r = POST \<and>
      (cqPath r = ''/v1/runtime/stop'' \<and> snd (controlServe C r s) = s\<lparr>ctCloses := ctCloses s + 1\<rparr> \<or>
       cqPath r = ''/v1/route/geo/update'' \<and> snd (controlServe C r s) = s\<lparr>ctGeoUpdates := ctGeoUpdates s + 1\<rparr> \<or>
       cqPath r = ''/v1/rules/reload'' \<and>
         (\<exists>engine text rules. enRoute (ctRuntime s) = Some engine \<and> ceRulesFile C = Some text \<and> ParseRules (ceUnicode C) text = Inr rules \<and>
            snd (controlServe C r s) = s\<lparr>ctRuntime := shareEngine (applyRules engine rules) (ctRuntime s)\<rparr>))"
    if "snd (controlServe C r s) \<noteq> s"
    using controlServe_changes [OF that] that handleStop_state [of C r s] handleGeoUpdate_state [of C r s] handleRulesReload_state [of C r s]
    by metis
  then show ?thesis using controlServe_closed [of C r s] by blast
qed

text \<open>
  The token that \<open>writeControlTokenFile\<close> writes opens the API, and the text of no other bytes does.
\<close>

lemma control_token_exact:
  assumes "writeControlTokenFile (Inr bs) path tempFile writeFile = Inr (token, file)" "length bs = 32"
  shows "writeFile file (token @ [CHR 0x0A]) = Inr () \<and> (authorized F token (''Bearer '' @ hexEncodeToString given) \<longleftrightarrow> given = bs)"
proof -
  have token: "token = hexEncodeToString bs" "writeFile file (token @ [CHR 0x0A]) = Inr ()"
    using assms(1) by (auto simp: writeControlTokenFile_def Let_def rbind_eq_Inr split: if_splits)
  have "strEqualFold F ''Bearer'' ''Bearer''" by (simp add: strEqualFold_def isAscii_def)
  then have "authorized F token (''Bearer '' @ hexEncodeToString given) \<longleftrightarrow> given = bs" if "given \<noteq> []"
  proof -
    have "hexEncodeToString given \<noteq> []" using that by (cases given) (simp_all add: hexEncode_Cons)
    then have "Fields F (''Bearer '' @ hexEncodeToString given) = [''Bearer'', hexEncodeToString given]"
      using hexEncode_plain by (intro Fields_bearer) blast+
    then show ?thesis unfolding authorized_def using \<open>strEqualFold F ''Bearer'' ''Bearer''\<close> token(1) by simp
  qed
  moreover have "\<not> authorized F token (''Bearer '' @ hexEncodeToString [])"
    by (simp add: authorized_def Fields_def isAscii_def asciiSpace_def hexEncodeToString_def)
  ultimately show ?thesis using assms(2) token(2) by (cases "given = []") auto
qed

section \<open>Witnesses\<close>

definition wit_env :: "unit ctl_env" where
  "wit_env = \<lparr>ceToken = ''ab'', ceVersion = ([], [], []), ceRouteEnabled = False, ceStatus = (\<lambda>_. ()), ceFlusher = True,
     ceCheck = (\<lambda>_. Inr ()), ceFormat = Inr, ceRulesFile = None, ceUnicode = ascii_lib, ceFolds = \<lparr>fl_EqualFold = (\<lambda>_ _. False), fl_Fields = (\<lambda>_. [])\<rparr>\<rparr>"

definition wit_request :: "string \<Rightarrow> string \<Rightarrow> string \<Rightarrow> ctl_request" where
  "wit_request method path auth = \<lparr>cqMethod = method, cqPath = path, cqHeader = (\<lambda>k. if k = ''Authorization'' then [auth] else []),
     cqLimit = [], cqAfter = [], cqBody = Inr []\<rparr>"

lemma wit_auth: "authenticated wit_env (wit_request method path auth) \<longleftrightarrow> authorized (ceFolds wit_env) ''ab'' auth"
proof -
  have "CanonicalHeaderKey ''Authorization'' = ''Authorization''" by code_simp
  then show ?thesis by (simp add: wit_env_def wit_request_def hdr_Get_def hdr_Values_def)
qed

definition wit_state :: ctl_state where
  "wit_state = \<lparr>ctRuntime = wit_new, ctLogs = NewLogRing 4, ctCloses = 0, ctGeoUpdates = 0\<rparr>"

abbreviation wit_peek :: ctl_request where "wit_peek \<equiv> wit_request GET ''/v1/status'' ''Bearer ac''"
abbreviation wit_stop :: ctl_request where "wit_stop \<equiv> wit_request POST ''/v1/runtime/stop'' ''bearer ab''"

lemma wit_authorized: "\<not> authorized (ceFolds wit_env) ''ab'' ''Bearer ac''" "authorized (ceFolds wit_env) ''ab'' ''bearer ab''"
  by code_simp+

lemma wit_stop_changes: "snd (controlServe wit_env wit_stop wit_state) \<noteq> wit_state"
proof -
  have "cqPath wit_stop = ''/v1/runtime/stop''" by (simp add: wit_request_def)
  then have "controlServe wit_env wit_stop wit_state = requireAuth handleStop wit_env wit_stop wit_state"
    by (simp add: controlServe_def controlRoutes_def)
  also have "\<dots> = handleStop wit_env wit_stop wit_state" using wit_auth wit_authorized(2) by (simp add: requireAuth_def)
  finally show ?thesis by (simp add: handleStop_def wit_request_def wit_state_def)
qed

lemma control_guarded_witness:
  "\<not> authenticated wit_env wit_peek \<and>
   controlServe wit_env wit_peek wit_state \<in> {((401, PError ''auth.unauthorized''), wit_state), ((404, PError ''404 page not found''), wit_state)} \<and>
   snd (controlServe wit_env wit_stop wit_state) \<noteq> wit_state \<and> authenticated wit_env wit_stop \<and> cqMethod wit_stop = POST"
proof -
  have "\<not> authenticated wit_env wit_peek" using wit_auth wit_authorized(1) by simp
  moreover have "cqPath wit_peek \<noteq> ''/v1/version''" "cqPath wit_peek \<noteq> ''/v1/health''" by (simp_all add: wit_request_def)
  ultimately show ?thesis
    using control_guarded [of wit_env wit_peek wit_state] control_guarded [of wit_env wit_stop wit_state] wit_stop_changes by blast
qed

end
