(* ===== verification/Quic_Server.thy ===== *)
theory Quic_Server
  imports Handshake Datagram Stream_Open Go_Url
begin

text \<open>
  What the server does before and beside the streams of a session (\<open>internal/app/server.go\<close>): the
  filter of the WebSocket entry point and the names both entry points give to the handshake
  (\<open>startWebSocketServer\<close>, \<open>requestServerName\<close>), with the names the client gives it
  (\<open>protocolAuthEndpoint\<close> of \<open>internal/app/client.go\<close>), and the relay of QUIC datagrams
  (\<open>handleQuicDatagrams\<close>). The relay is a state with the reassembler, the map from associations to the
  address of their socket, and the associations whose reply goroutine still runs; its events are the
  datagrams of the session and what reads of the sockets return. Resolving names, opening sockets and
  parsing URLs are parameters.
\<close>

section \<open>Names\<close>

definition protocolAuthEndpoint :: "unicode_lib \<Rightarrow> 'r url_lib \<Rightarrow> string \<Rightarrow> (string \<times> string) result" where
  "protocolAuthEndpoint U L raw =
    rbind (url_Parse L raw) (\<lambda>u.
      let serverName = ToLower U (TrimSpace U (urlHostname u)) in
      if serverName = [] then Inl (Errorf ''server name is empty'')
      else Inr (serverName, if urlPath u = [] then ''/'' else urlPath u))"

definition requestServerName :: "unicode_lib \<Rightarrow> string \<Rightarrow> string" where
  "requestServerName U host =
    ToLower U (TrimSpace U (case SplitHostPort host of Inr (h, _) \<Rightarrow> h | Inl _ \<Rightarrow> host))"

definition serverPath :: "'r URL \<Rightarrow> string" where
  "serverPath u = (if urlPath u = [] then ''/'' else urlPath u)"

text \<open>The name a QUIC session is authenticated under: that of the listen address.\<close>

definition quicServerName :: "'r URL \<Rightarrow> string" where
  "quicServerName u = (if urlHostname u = [] then urlHost u else urlHostname u)"

section \<open>The two entry points\<close>

datatype entry = BadRequest | Forbidden | Handshake string string string

definition webSocketEntry :: "unicode_lib \<Rightarrow> IPNet list \<Rightarrow> 'r URL \<Rightarrow> string \<Rightarrow> string \<Rightarrow> u64 \<Rightarrow> entry \<times> u64" where
  "webSocketEntry U allowedNets u remoteAddr host sourceRejectSeq =
    (case SplitHostPort remoteAddr of
       Inl _ \<Rightarrow> (BadRequest, sourceRejectSeq)
     | Inr (clientIP, _) \<Rightarrow>
         (case ParseIP clientIP of
            None \<Rightarrow> (Forbidden, sourceRejectSeq + 1)
          | Some ip \<Rightarrow>
              if \<not> list_ex (\<lambda>n. IPNet_Contains n ip) allowedNets then (Forbidden, sourceRejectSeq + 1)
              else (Handshake clientIP (requestServerName U host) (serverPath u), sourceRejectSeq)))"

definition quicEntry :: "'r URL \<Rightarrow> string option \<Rightarrow> entry" where
  "quicEntry u remoteAddr =
    Handshake
      (case remoteAddr of
         None \<Rightarrow> ''-''
       | Some ra \<Rightarrow> (case SplitHostPort ra of Inr (h, _) \<Rightarrow> h | Inl _ \<Rightarrow> ''-''))
      (quicServerName u) (serverPath u)"

section \<open>Datagrams\<close>

record quic_relay =
  qrReassembler :: DatagramReassembler
  qrRelayers :: "u16 \<rightharpoonup> UDPAddr"
  qrReading :: "u16 set"

definition newQuicRelay :: quic_relay where
  "newQuicRelay = \<lparr>qrReassembler = NewDatagramReassembler (5 * second) 1024, qrRelayers = (\<lambda>_. None), qrReading = {}\<rparr>"

definition datagramTarget :: "DatagramFrame \<Rightarrow> string" where
  "datagramTarget f = TargetAddr f @ '':'' @ Itoa (uint (TargetPort f))"

text \<open>
  One datagram of the session: \<open>resolve\<close> is \<open>resolveUDPWithStrategy\<close>, \<open>listens\<close> says whether a socket can be
  opened. The result is what is written, and to which address.
\<close>

definition quicDatagram ::
  "(string \<Rightarrow> byte \<Rightarrow> UDPAddr result) \<Rightarrow> bool \<Rightarrow> gotime \<Rightarrow> gotime \<Rightarrow> bytes \<Rightarrow> quic_relay \<Rightarrow> (UDPAddr \<times> bytes) option \<times> quic_relay" where
  "quicDatagram resolve listens now1 now2 raw s =
    (case DecodeDatagram raw of
       Inl _ \<Rightarrow> (None, s)
     | Inr frame \<Rightarrow>
         (case Add now1 now2 (qrReassembler s) frame of
            (added, reassembler) \<Rightarrow>
              (let s = s\<lparr>qrReassembler := reassembler\<rparr> in
               case added of
                 Inl _ \<Rightarrow> (None, s)
               | Inr None \<Rightarrow> (None, s)
               | Inr (Some full) \<Rightarrow>
                   (case qrRelayers s (AssocID full) of
                      Some addr \<Rightarrow> (Some (addr, Payload full), s)
                    | None \<Rightarrow>
                        (case resolve (datagramTarget full) IPStrategyPv4Pv6 of
                           Inl _ \<Rightarrow> (None, s)
                         | Inr addr \<Rightarrow>
                             if \<not> listens then (None, s)
                             else (Some (addr, Payload full),
                                   s\<lparr>qrRelayers := (qrRelayers s)(AssocID full \<mapsto> addr), qrReading := insert (AssocID full) (qrReading s)\<rparr>))))))"

text \<open>The frame for a packet that a socket received.\<close>

definition quicResponse :: "u16 \<Rightarrow> string \<Rightarrow> bytes \<Rightarrow> DatagramFrame" where
  "quicResponse assocID fromAddr data =
    (case (case SplitHostPort fromAddr of
             Inr (host, portStr) \<Rightarrow> (host, case Atoi portStr of Some p \<Rightarrow> p | None \<Rightarrow> 0)
           | Inl _ \<Rightarrow> (fromAddr, 0)) of
       (host, port) \<Rightarrow>
         \<lparr>AssocID = assocID, PktID = 0, FragTotal = 0, FragID = 0, PayloadLen = 0,
          AddrType = (case ParseIP host of Some ip \<Rightarrow> if To4 ip \<noteq> None then AddrTypeIPv4 else AddrTypeIPv6 | None \<Rightarrow> AddrTypeDomain),
          TargetAddr = host, TargetPort = word_of_int port, Payload = data\<rparr>)"

text \<open>
  What the goroutine of an association does with one result of a read, which ends with an error when
  nothing arrives before the deadline: the datagram it sends back, if any.
\<close>

definition quicReply :: "u16 \<Rightarrow> (bytes \<times> string) result \<Rightarrow> quic_relay \<Rightarrow> bytes option \<times> quic_relay" where
  "quicReply assocID read s =
    (if assocID \<notin> qrReading s then (None, s)
     else
       (case read of
          Inl _ \<Rightarrow> (None, s\<lparr>qrReading := qrReading s - {assocID}\<rparr>)
        | Inr (data, fromAddr) \<Rightarrow>
            (case EncodeDatagram (quicResponse assocID fromAddr data) of Inl _ \<Rightarrow> (None, s) | Inr encoded \<Rightarrow> (Some encoded, s))))"

datatype quic_event =
    QDatagram bool gotime gotime bytes
  | QReply u16 "(bytes \<times> string) result"

fun quicStep :: "(string \<Rightarrow> byte \<Rightarrow> UDPAddr result) \<Rightarrow> quic_event \<Rightarrow> quic_relay \<Rightarrow> quic_relay" where
  "quicStep resolve (QDatagram listens now1 now2 raw) s = snd (quicDatagram resolve listens now1 now2 raw s)"
| "quicStep resolve (QReply assocID read) s = snd (quicReply assocID read s)"

definition quicRun :: "(string \<Rightarrow> byte \<Rightarrow> UDPAddr result) \<Rightarrow> quic_event list \<Rightarrow> quic_relay \<Rightarrow> quic_relay" where
  "quicRun resolve evs s = fold (quicStep resolve) evs s"

section \<open>Lemmas\<close>

lemma quicDatagram_frame:
  "snd (quicDatagram resolve listens now1 now2 raw s) = s' \<Longrightarrow>
    dom (qrRelayers s) \<subseteq> dom (qrRelayers s') \<and> (\<forall>a addr. qrRelayers s a = Some addr \<longrightarrow> qrRelayers s' a = Some addr) \<and>
    qrReading s' - qrReading s \<subseteq> dom (qrRelayers s') - dom (qrRelayers s)"
  by (auto simp: quicDatagram_def Let_def split: sum.splits option.splits prod.splits if_splits)

lemma quicReply_frame:
  "snd (quicReply assocID read s) = s' \<Longrightarrow> qrRelayers s' = qrRelayers s \<and> qrReading s' \<subseteq> qrReading s"
  by (auto simp: quicReply_def split: sum.splits option.splits prod.splits if_splits)

lemma quicStep_frame:
  assumes "qrRelayers s a = Some addr"
  shows "qrRelayers (quicStep resolve ev s) a = Some addr \<and> (a \<notin> qrReading s \<longrightarrow> a \<notin> qrReading (quicStep resolve ev s))"
proof (cases ev)
  case (QDatagram listens now1 now2 raw)
  then show ?thesis using assms quicDatagram_frame [of resolve listens now1 now2 raw s, OF refl] by auto
next
  case (QReply assocID read)
  then show ?thesis using assms quicReply_frame [of assocID read s, OF refl] by auto
qed

text \<open>A socket stays bound to its first target, and a reply goroutine that ended is not started again.\<close>

lemma quicRun_frame:
  assumes "qrRelayers s a = Some addr"
  shows "qrRelayers (quicRun resolve evs s) a = Some addr \<and> (a \<notin> qrReading s \<longrightarrow> a \<notin> qrReading (quicRun resolve evs s))"
  using assms
proof (induction evs arbitrary: s)
  case (Cons ev evs)
  with quicStep_frame [OF Cons.prems] show ?case by (simp add: quicRun_def)
qed (simp add: quicRun_def)

lemma quicRun_reading: "qrReading s \<subseteq> dom (qrRelayers s) \<Longrightarrow> qrReading (quicRun resolve evs s) \<subseteq> dom (qrRelayers (quicRun resolve evs s))"
proof (induction evs arbitrary: s)
  case (Cons ev evs)
  have "qrReading (quicStep resolve ev s) \<subseteq> dom (qrRelayers (quicStep resolve ev s))"
  proof (cases ev)
    case (QDatagram listens now1 now2 raw)
    then show ?thesis using Cons.prems quicDatagram_frame [of resolve listens now1 now2 raw s, OF refl] by auto
  next
    case (QReply assocID read)
    then show ?thesis using Cons.prems quicReply_frame [of assocID read s, OF refl] by auto
  qed
  with Cons.IH show ?case by (simp add: quicRun_def)
qed (simp add: quicRun_def)

lemma datagramTarget_join:
  assumes "plain_hostname (TargetAddr f)"
  shows "datagramTarget f = JoinHostPort (TargetAddr f) (Itoa (uint (TargetPort f)))"
proof -
  have "CHR '':'' \<notin> set (TargetAddr f)" using plain_hostname_chars [OF assms] label_char_not_special by fastforce
  then show ?thesis by (simp add: datagramTarget_def JoinHostPort_def)
qed

section \<open>Properties\<close>

text \<open>
  An association of the datagram relay goes deaf: in any state of the relay, once one read of its socket
  has ended with an error, a timeout included, no packet for it is ever sent back to the client, although
  its socket stays open and datagrams of the client are still written to it.
\<close>

lemma quic_replies_stop:
  assumes "s = quicRun resolve before newQuicRelay" "assocID \<in> qrReading s"
    and "s' = quicRun resolve (QReply assocID (Inl err) # later) s"
  shows "fst (quicReply assocID (Inr (data, fromAddr)) s') = None \<and>
    (\<exists>addr. qrRelayers s assocID = Some addr \<and> qrRelayers s' assocID = Some addr)"
proof -
  have "qrReading s \<subseteq> dom (qrRelayers s)" unfolding assms(1) by (rule quicRun_reading) (simp add: newQuicRelay_def)
  then obtain addr where addr: "qrRelayers s assocID = Some addr" using assms(2) by blast
  have "qrRelayers (snd (quicReply assocID (Inl err) s)) assocID = Some addr \<and> assocID \<notin> qrReading (snd (quicReply assocID (Inl err) s))"
    using addr assms(2) by (simp add: quicReply_def)
  with quicRun_frame have "qrRelayers s' assocID = Some addr \<and> assocID \<notin> qrReading s'"
    unfolding assms(3) by (simp add: quicRun_def)
  then show ?thesis using addr by (simp add: quicReply_def)
qed

text \<open>
  Datagrams pass the target policy by. A complete datagram to an IPv4 address and port of a new
  association is written to that address, whatever the policy of the server: also when the policy denies
  the target, so that a stream to the same target is refused.
\<close>

lemma quic_datagrams_unpoliced:
  assumes "EncodeDatagram f = Inr raw" "AddrType f = AddrTypeIPv4" "TargetAddr f = ipv4_String ip" "length ip = 4"
    and "TargetPort f \<noteq> 0" "FragTotal f \<le> 1" "length (Payload f) \<le> 65535" "qrRelayers s (AssocID f) = None"
    and "\<not> Allows U policy (datagramTarget f)" "validateIPStrategyValue strategy"
  shows "fst (quicDatagram (resolveUDPWithStrategy R L) True now1 now2 raw s) =
      Some (\<lparr>uaIP = v4_mapped ip, uaPort = uint (TargetPort f)\<rparr>, Payload f) \<and>
    (\<exists>err. checkTarget U policy strategy (datagramTarget f) = Some (openStatusCodePolicyDenied, err))"
proof -
  let ?p = "uint (TargetPort f)"
  have "?p \<noteq> 0" using assms(5) by (simp add: unsigned_eq_0_iff)
  moreover have "0 \<le> ?p" "?p < 65536" using uint_bounded [of "TargetPort f"] by simp_all
  ultimately have port: "1 \<le> ?p" "?p \<le> 65535" by linarith+
  have host: "plain_hostname (TargetAddr f)" using assms(3,4) plain_ipv4_String by simp
  note target = datagramTarget_join [OF host]
  have ip: "ParseIP (TargetAddr f) = Some (v4_mapped ip)" using assms(3,4) ParseIP_ipv4_String by simp
  have "encodeAddr f = Inr ip" using assms(2) ip assms(4) by (simp add: encodeAddr_def)
  then have addr: "encodeAddr f = Inr ip" "canonicalAddr f = TargetAddr f"
    using assms(2,3,4) by (simp_all add: canonicalAddr_def IP_String_def addr_types To4_def)
  obtain frame where frame: "DecodeDatagram raw = Inr frame" "AssocID frame = AssocID f" "Payload frame = Payload f"
      "FragTotal frame \<le> 1" "datagramTarget frame = datagramTarget f"
    using datagram_roundtrip [of f] assms(1,6,7) addr
    by (auto simp: datagramTarget_def dest: spec [where x = "[]"] split: if_splits)
  have "resolveUDPWithStrategy R L (datagramTarget f) IPStrategyPv4Pv6 = Inr \<lparr>uaIP = v4_mapped ip, uaPort = ?p\<rparr>"
    using ip port by (simp add: resolveUDPWithStrategy_def target SplitHostPort_plain [OF host] Atoi_Itoa)
  then have "fst (quicDatagram (resolveUDPWithStrategy R L) True now1 now2 raw s) = Some (\<lparr>uaIP = v4_mapped ip, uaPort = ?p\<rparr>, Payload f)"
    using frame assms(8) by (simp add: quicDatagram_def Add_def)
  moreover have "\<exists>err. checkTarget U policy strategy (datagramTarget f) = Some (openStatusCodePolicyDenied, err)"
    using assms(9,10) ValidateHostPort_JoinHostPort [OF host port]
    by (simp add: checkTarget_def target validateSmuxStreamTarget_def ensureTargetAllowed_def)
  ultimately show ?thesis by blast
qed

text \<open>Different transcripts have different proofs, as far as these two are concerned.\<close>

definition no_collision :: "crypto \<Rightarrow> bytes \<Rightarrow> bytes \<Rightarrow> bool" where
  "no_collision C t t' \<longleftrightarrow> (\<forall>k k'. hmac_SHA256 C k (sha256_Sum C t) = hmac_SHA256 C k' (sha256_Sum C t') \<longrightarrow> t = t')"

lemma proof_binds_name:
  assumes "ComputeV3AuthProof C token cn cp init = Inr (AuthProof init)" "sn \<noteq> cn"
    and "\<And>t t'. channelInitTranscriptV3 cn cp init [] [] 0 False = Inr t \<Longrightarrow>
      channelInitTranscriptV3 sn path init [] [] 0 False = Inr t' \<Longrightarrow> no_collision C t t'"
  shows "\<not> VerifyV3AuthProof C token sn path init"
proof
  assume "VerifyV3AuthProof C token sn path init"
  then have "ComputeV3AuthProof C token sn path init = Inr (AuthProof init)" by (simp add: VerifyV3AuthProof_iff)
  with assms(1) obtain t t' k k' where t: "channelInitTranscriptV3 cn cp init [] [] 0 False = Inr t"
      "channelInitTranscriptV3 sn path init [] [] 0 False = Inr t'"
      "hmac_SHA256 C k (sha256_Sum C t) = AuthProof init" "hmac_SHA256 C k' (sha256_Sum C t') = AuthProof init"
    by (auto simp: ComputeV3AuthProof_def ComputeV3TranscriptHashInit_def ComputeV3TranscriptHash_def rbind_eq_Inr)
  then have "t = t'" using assms(3) [OF t(1,2)] unfolding no_collision_def by metis
  then show False using t(1,2) assms(2) transcript_layout_inject unfolding channelInitTranscriptV3_iff by blast
qed


text \<open>
  Over WebSocket the two sides agree: the name the server takes from the \<open>Host\<close> header, which is the host
  of the client's URL, is the name in the client's proof.
\<close>

lemma websocket_name_agrees:
  assumes "url_Parse L raw = Inr u" "plain_hostname h" "urlHost u = h \<or> (\<exists>p. 1 \<le> p \<and> urlHost u = JoinHostPort h (Itoa p))"
    and "ToLower U (TrimSpace U h) \<noteq> []"
  shows "protocolAuthEndpoint U L raw = Inr (requestServerName U (urlHost u), serverPath u)"
proof -
  have no: "CHR '':'' \<notin> set h" "CHR ''['' \<notin> set h" using plain_hostname_chars [OF assms(2)] label_char_not_special by fastforce+
  have pre: "\<not> HasPrefix h ''[''" using no(2) by (cases h) (auto simp: HasPrefix_def)
  from assms(3) show ?thesis
  proof
    assume h: "urlHost u = h"
    have none: "LastIndexByte (CHR '':'') h = None" using no(1) by (simp add: LastIndexByte_def)
    have "urlHostname u = h" using pre by (simp add: urlHostname_def h none)
    moreover have "SplitHostPort h = Inl (Errorf ''missing port in address'')" by (simp add: SplitHostPort_def none)
    ultimately show ?thesis using assms(1,4) by (simp add: protocolAuthEndpoint_def requestServerName_def serverPath_def h)
  next
    assume "\<exists>p. 1 \<le> p \<and> urlHost u = JoinHostPort h (Itoa p)"
    then obtain p where p: "1 \<le> p" "urlHost u = JoinHostPort h (Itoa p)" by blast
    then have digits: "list_all isDigit (Itoa p)" using dec_digits_props [of "nat p"] by (simp add: Itoa_def)
    then have "CHR '':'' \<notin> set (Itoa p)" by (auto simp: list_all_iff isDigit_def)
    then have "urlHostname u = h"
      using digits no(1) pre p(2) LastIndexByte_last [of "CHR '':''" "Itoa p" h] by (simp add: urlHostname_def JoinHostPort_def)
    then show ?thesis
      using assms(1,4) SplitHostPort_plain [OF assms(2) p(1)] by (simp add: protocolAuthEndpoint_def requestServerName_def serverPath_def p(2))
  qed
qed

text \<open>
  The source filter stands before WebSocket sessions only: those that reach the handshake come from an
  allowed network, while a QUIC session reaches it from any address.
\<close>

lemma source_filter:
  "fst (webSocketEntry U allowedNets u remoteAddr host n) = Handshake clientIP serverName path \<Longrightarrow>
    \<exists>port ip. SplitHostPort remoteAddr = Inr (clientIP, port) \<and> ParseIP clientIP = Some ip \<and> (\<exists>net\<in>set allowedNets. IPNet_Contains net ip)"
  "SplitHostPort remoteAddr = Inr (clientIP, port) \<Longrightarrow> quicEntry u (Some remoteAddr) = Handshake clientIP (quicServerName u) (serverPath u)"
  by (auto simp: webSocketEntry_def quicEntry_def list_ex_iff split: sum.splits option.splits if_splits)

section \<open>Witnesses\<close>

definition wit_frame :: DatagramFrame where
  "wit_frame = \<lparr>AssocID = 7, PktID = 1, FragTotal = 1, FragID = 0, PayloadLen = 2, AddrType = AddrTypeIPv4,
     TargetAddr = ''10.0.0.1'', TargetPort = 53, Payload = [1, 2]\<rparr>"

definition wit_raw :: bytes where "wit_raw = projr (EncodeDatagram wit_frame)"

definition wit_policy :: TargetPolicy where
  "wit_policy = \<lparr>Allow = [], Deny = [\<lparr>netIP = [10, 0, 0, 0], netMask = [255, 0, 0, 0]\<rparr>], AllowHosts = [], DenyHosts = []\<rparr>"

definition no_resolve :: "string \<Rightarrow> string \<Rightarrow> UDPAddr result" where "no_resolve network addr = Inl (Errorf ''no such host'')"
definition no_lookup :: "string \<Rightarrow> bytes list result" where "no_lookup host = Inl (Errorf ''no such host'')"

abbreviation wit_dial :: "string \<Rightarrow> byte \<Rightarrow> UDPAddr result" where
  "wit_dial \<equiv> resolveUDPWithStrategy no_resolve no_lookup"

definition ascii_unicode :: unicode_lib where
  "ascii_unicode = \<lparr>uc_ToLower = (\<lambda>s. s), uc_ToUpper = (\<lambda>s. s), uc_TrimSpace = (\<lambda>s. s), uc_TrimRightSpace = (\<lambda>s. s)\<rparr>"

lemma wit_frame_facts: "EncodeDatagram wit_frame = Inr wit_raw" "TargetAddr wit_frame = ipv4_String [10, 0, 0, 1]"
  "\<not> Allows ascii_unicode (Some wit_policy) (datagramTarget wit_frame)" "validateIPStrategyValue 0"
  by code_simp+

lemma quic_datagrams_unpoliced_witness:
  "\<not> Allows ascii_unicode (Some wit_policy) (datagramTarget wit_frame) \<and>
   fst (quicDatagram wit_dial True 0 0 wit_raw newQuicRelay) = Some (\<lparr>uaIP = v4_mapped [10, 0, 0, 1], uaPort = 53\<rparr>, [1, 2]) \<and>
   (\<exists>err. checkTarget ascii_unicode (Some wit_policy) 0 (datagramTarget wit_frame) = Some (openStatusCodePolicyDenied, err))"
  using quic_datagrams_unpoliced [OF wit_frame_facts(1) _ wit_frame_facts(2), of newQuicRelay ascii_unicode "Some wit_policy" 0
      no_resolve no_lookup 0 0] wit_frame_facts(3,4)
  by (simp add: newQuicRelay_def) (simp add: wit_frame_def)

abbreviation wit_bound :: "quic_event list" where "wit_bound \<equiv> [QDatagram True 0 0 wit_raw]"

lemma wit_reading: "7 \<in> qrReading (quicRun wit_dial wit_bound newQuicRelay)"
proof -
  have "DecodeDatagram wit_raw = Inr wit_frame" by code_simp
  moreover have "wit_dial (datagramTarget wit_frame) IPStrategyPv4Pv6 = Inr \<lparr>uaIP = v4_mapped [10, 0, 0, 1], uaPort = 53\<rparr>" by code_simp
  ultimately show ?thesis
    by (simp add: quicRun_def quicDatagram_def Add_def wit_frame_def newQuicRelay_def)
qed

lemma quic_replies_stop_witness:
  "7 \<in> qrReading (quicRun wit_dial wit_bound newQuicRelay) \<and>
   fst (quicReply 7 (Inr ([3], ''10.0.0.1:53''))
     (quicRun wit_dial (QReply 7 (Inl (Errorf ''i/o timeout'')) # wit_bound) (quicRun wit_dial wit_bound newQuicRelay))) = None"
  using quic_replies_stop [OF refl wit_reading refl] wit_reading by blast

text \<open>A client of \<open>wss://s/p\<close> and a server that listens on \<open>wss://0.0.0.0/p\<close>.\<close>

definition wit_listen :: "unit URL" where
  "wit_listen = \<lparr>urlScheme = ''wss'', urlUser = None, urlHost = ''0.0.0.0:443'', urlPath = ''/p'', urlOther = ()\<rparr>"

definition wit_urls :: "unit url_lib" where
  "wit_urls = \<lparr>url_Parse = (\<lambda>_. Inr \<lparr>urlScheme = ''wss'', urlUser = None, urlHost = ''s'', urlPath = ''/p'', urlOther = ()\<rparr>), url_String = (\<lambda>_. [])\<rparr>"

definition wit_init :: ChannelInit where
  "wit_init = ChannelInit0\<lparr>SessionID := replicate 16 7, ChannelID := 1, ClientNonce := replicate 32 8,
     Timestamp := word_of_int (time_Unix sample_now), Capabilities := currentProtocolCapabilitiesV2 OR protocolCapabilityForwardSecrecy,
     CipherPref := [1], ClientEphPK := fit 32 [1], TAI64N := EncodeTAI64N sample_now\<rparr>"

text \<open>A hash that tells the client's transcript from every other one.\<close>

definition wit_hash :: crypto where
  "wit_hash = plain_crypto\<lparr>sha256_Sum := (\<lambda>t. fit 32 [if t = transcript_layout_v3 ''s'' ''/p'' wit_init [] [] 0 False then 1 else 2])\<rparr>"

lemma wit_sent:
  "\<exists>i f. clientBuildInit wit_hash (cfgToken sample_cfg) [9] [1] sample_env 1 = Inr (i, replicate 32 5, ''s'', ''/p'') \<and>
     carries (Inr (Reader f EOF)) i"
proof -
  have sup: "isSupportedCipherV3 1" by (simp add: isSupportedCipherV3_def ProtocolCipherChaCha20Poly1305_def)
  have "transcript_ok_v3 ''s'' ''/p'' wit_init [] [] 0 False"
    using sample_label sup by (simp add: transcript_ok_v3_def wit_init_def)
  then have "channelInitTranscriptV3 ''s'' ''/p'' wit_init [] [] 0 False = Inr (transcript_layout_v3 ''s'' ''/p'' wit_init [] [] 0 False)"
    by (simp only: channelInitTranscriptV3_iff)
  then obtain p where p: "ComputeV3AuthProof wit_hash (cfgToken sample_cfg) ''s'' ''/p'' wit_init = Inr p" "length p = 32"
    by (simp add: ComputeV3AuthProof_def ComputeV3TranscriptHashInit_def ComputeV3TranscriptHash_def hkdf_New_def wit_hash_def plain_crypto_def)
  have wf: "wf_init_v3 (wit_init\<lparr>AuthProof := p\<rparr>)" using p sample_label sup by (simp add: wf_init_v3_def wit_init_def)
  obtain body where "encodeChannelInitV3 (wit_init\<lparr>AuthProof := p\<rparr>) = Inr body"
    using encodeChannelInitV3_ok [OF wf] by (auto simp: ChannelInit0_def wit_init_def)
  moreover have "x25519 wit_hash (replicate 32 5) [9] = Inr (fit 32 [1])" by (simp add: wit_hash_def plain_crypto_def)
  ultimately have "\<exists>i. clientBuildInit wit_hash (cfgToken sample_cfg) [9] [1] sample_env 1 = Inr (i, replicate 32 5, ''s'', ''/p'')"
    using p by (auto simp: clientBuildInit_def sample_env_def NewV3ClientEphemeralKey_def fixed_rand_def Let_def wit_init_def
        split: prod.splits)
  then obtain i where i: "clientBuildInit wit_hash (cfgToken sample_cfg) [9] [1] sample_env 1 = Inr (i, replicate 32 5, ''s'', ''/p'')" by blast
  have R: "rand_ok (ceOffset sample_env)" "rand_ok (cePad sample_env)" by (simp_all add: sample_env_def sample_stream)
  have "wf_init_v3 i" "length (Padding i) \<le> 16192" using clientBuildInit_Inr [OF i R] by auto
  then have "delivers (\<lambda>b. b) [] (writeChannelInitV3 buffer_writer [] i) (\<lambda>r. readChannelInitV3 r 0) i"
    using init_v3_delivers [OF buf.reliable_writer_axioms] by simp
  then obtain f where "\<And>rest e. readChannelInitV3 (Reader (f @ rest) e) 0 = Inr (i, Reader rest e)" by (auto simp: delivers_def)
  from this [of "[]" EOF] have "carries (Inr (Reader f EOF)) i" by (simp add: carries_def read_default_size)
  with i show ?thesis by blast
qed


end
