(* ===== verification/Client_Pool.thy ===== *)
theory Client_Pool
  imports Handshake Wire_Tai64n Selector Rotation Config
begin

text \<open>
  The channels of the client (\<open>internal/app/client.go\<close>): the source of handshake timestamps, the count
  of failing handshakes, the slots of the pool with their target addresses (\<open>NewECHPool\<close>, \<open>Start\<close>), the
  address that is dialled, and the loop that keeps one channel up (\<open>dialAndServe\<close>). One turn of the loop
  is cut where it waits: \<open>connectRound\<close> goes from the choice of the address to a channel that is ready, or
  to the pause after a failure, and \<open>disconnectRound\<close> from the end of the session to that pause. What dialling,
  the handshake and the first probe give are arguments; the delays are those of \<open>reconnectDelay\<close>.
  Periodic probing and cover traffic only repeat the probe and are left out. The channels of a pool share
  the selector and the endpoints: the state of a loop holds what one channel sees of them. A slot without
  keys has \<open>None\<close> where the code has the zero value, and the multiplexer that the code keeps beside a
  session is a part of that session.
\<close>

section \<open>Timestamps and failures\<close>

definition nextClientTAI64N :: "int \<Rightarrow> int \<Rightarrow> bytes \<times> int" where
  "nextClientTAI64N unixNano lastNano =
    (let now = (if unixNano \<le> lastNano then int64 (lastNano + 1) else unixNano)
     in (EncodeTAI64N (time_of_unix 0 now), now))"

text \<open>The labels of successive calls at the given clock readings.\<close>

fun clientLabels :: "int list \<Rightarrow> int \<Rightarrow> bytes list" where
  "clientLabels [] lastNano = []"
| "clientLabels (n # ns) lastNano =
    (case nextClientTAI64N n lastNano of (label, lastNano') \<Rightarrow> label # clientLabels ns lastNano')"

definition clientAuthHintThreshold :: int where "clientAuthHintThreshold = 5"

definition recordFailure :: "int \<Rightarrow> bool \<times> int" where
  "recordFailure consecutive =
    (let consecutive = int64 (consecutive + 1) in (consecutive mod clientAuthHintThreshold = 0, consecutive))"

definition recordSuccess :: int where "recordSuccess = 0"

section \<open>Slots\<close>

definition poolTotal :: "nat \<Rightarrow> string list \<Rightarrow> nat" where
  "poolTotal n ips = (if length ips > 0 then length ips * n else n)"

definition slotTarget :: "nat \<Rightarrow> string list \<Rightarrow> nat \<Rightarrow> string" where
  "slotTarget n ips i = (if length ips > 0 \<and> i div n < length ips then ips ! (i div n) else [])"

definition poolMode :: "unicode_lib \<Rightarrow> string \<Rightarrow> TransportType" where
  "poolMode U transportMode =
    (let mode = ToLower U (TrimSpace U transportMode) in if mode = [] then TransportTypeAuto else mode)"

definition poolEndpoints :: "string list \<Rightarrow> EndpointPool option" where
  "poolEndpoints ips = (if length ips > 0 then Some (NewEndpointPool ips 3 (60 * second)) else None)"

definition resolveWebSocketDialTarget :: "string \<Rightarrow> string \<Rightarrow> string result" where
  "resolveWebSocketDialTarget address ip =
    (if ip = [] then Inr address
     else
       rbind (SplitHostPort address) (\<lambda>(_, port).
         case SplitHostPort ip of
           Inr (host, overridePort) \<Rightarrow> Inr (JoinHostPort host overridePort)
         | Inl _ \<Rightarrow> Inr (JoinHostPort ip port)))"

section \<open>One channel\<close>

record 's pool_channel =
  pcSession :: "'s option"
  pcRTT :: int
  pcCaps :: u64
  pcKeys :: "V3SessionKeys option"
  pcCipher :: byte

definition zeroChannel :: "'s pool_channel" where
  "zeroChannel = \<lparr>pcSession = None, pcRTT = 0, pcCaps = 0, pcKeys = None, pcCipher = 0\<rparr>"

record 's channel_loop =
  clAttempt :: int
  clFailures :: int
  clSelector :: TransportSelector
  clEndpoints :: "EndpointPool option"
  clChannel :: "'s pool_channel"
  clDelays :: "duration list"

text \<open>
  What a turn meets: the clock before and after the dial, whether the server is \<open>wss\<close>, the front proxy, the dialers by address, the
  result of the handshake on a session and of the first probe, and the jitter.
\<close>

record 's turn =
  tuNow :: gotime
  tuLater :: gotime
  tuWSS :: bool
  tuFrontProxy :: bool
  tuHost :: "string \<Rightarrow> string option"
  tuDialers :: "string \<Rightarrow> 's dialers"
  tuWebSocket :: "string \<Rightarrow> 's result"
  tuNegotiate :: "'s \<Rightarrow> (u64 \<times> V3SessionKeys \<times> byte) result"
  tuProbe :: "'s \<Rightarrow> int option"
  tuElapsed :: duration
  tuRandom :: "duration \<Rightarrow> duration"

definition selectTarget :: "gotime \<Rightarrow> string \<Rightarrow> 's channel_loop \<Rightarrow> string \<times> 's channel_loop" where
  "selectTarget now ip c =
    (case clEndpoints c of
       None \<Rightarrow> (ip, c)
     | Some p \<Rightarrow>
         (case SelectNext p now of
            (Inr nextIP, p') \<Rightarrow> (if nextIP \<noteq> [] then nextIP else ip, c\<lparr>clEndpoints := Some p'\<rparr>)
          | (Inl _, p') \<Rightarrow> (ip, c\<lparr>clEndpoints := Some p'\<rparr>)))"

definition recordTarget :: "gotime \<Rightarrow> string \<Rightarrow> bool \<Rightarrow> duration \<Rightarrow> 's channel_loop \<Rightarrow> 's channel_loop" where
  "recordTarget now targetIP success rtt c =
    (case clEndpoints c of
       Some p \<Rightarrow> if targetIP \<noteq> [] then c\<lparr>clEndpoints := Some (RecordResult p targetIP success rtt now)\<rparr> else c
     | None \<Rightarrow> c)"

definition sleepBeforeReconnect :: "(duration \<Rightarrow> duration) \<Rightarrow> GlobalConfig \<Rightarrow> 's channel_loop \<Rightarrow> 's channel_loop" where
  "sleepBeforeReconnect random cfg c =
    c\<lparr>clDelays := clDelays c @ [reconnectDelay random cfg (clAttempt c)], clAttempt := int64 (clAttempt c + 1)\<rparr>"

text \<open>The dial of a turn: through the selector for \<open>wss\<close> servers that may use QUIC, else WebSocket.\<close>

definition dialRound :: "GlobalConfig \<Rightarrow> string \<Rightarrow> 's turn \<Rightarrow> string \<Rightarrow> 's channel_loop \<Rightarrow> 's result \<times> 's channel_loop" where
  "dialRound cfg addr t targetIP c =
    (if tuWSS t \<and> selMode (clSelector c) \<in> {TransportTypeAuto, TransportTypeQUIC} \<and> \<not> tuFrontProxy t then
       (case DialSession (tuHost t) (tuDialers t targetIP) (clSelector c) (tuNow t) (tuLater t) addr (gcWSHandshakeTimeout cfg) of
          (sess, sel) \<Rightarrow> (sess, c\<lparr>clSelector := sel\<rparr>))
     else (tuWebSocket t targetIP, c))"

text \<open>\<open>Some\<close> session: the channel is ready; \<open>None\<close>: the turn failed and the loop pauses.\<close>

definition connectRound :: "GlobalConfig \<Rightarrow> string \<Rightarrow> string \<Rightarrow> 's turn \<Rightarrow> 's channel_loop \<Rightarrow> 's option \<times> 's channel_loop" where
  "connectRound cfg addr ip t c =
    (case selectTarget (tuNow t) ip c of
       (targetIP, c) \<Rightarrow>
         (case dialRound cfg addr t targetIP c of
            (Inl _, c) \<Rightarrow> (None, sleepBeforeReconnect (tuRandom t) cfg (recordTarget (tuLater t) targetIP False 0 c))
          | (Inr sess, c) \<Rightarrow>
              (case tuNegotiate t sess of
                 Inl _ \<Rightarrow>
                   (None, sleepBeforeReconnect (tuRandom t) cfg
                     (recordTarget (tuLater t) targetIP False 0 (c\<lparr>clFailures := snd (recordFailure (clFailures c))\<rparr>)))
               | Inr (caps, ks, alg) \<Rightarrow>
                   (let c = c\<lparr>clFailures := recordSuccess,
                          clChannel := \<lparr>pcSession = Some sess, pcRTT = 0, pcCaps = caps, pcKeys = Some ks, pcCipher = alg\<rparr>,
                          clAttempt := 0\<rparr>
                    in case tuProbe t sess of
                         Some rtt \<Rightarrow> (Some sess, recordTarget (tuLater t) targetIP True rtt (c\<lparr>clChannel := (clChannel c)\<lparr>pcRTT := rtt\<rparr>\<rparr>))
                       | None \<Rightarrow> (Some sess, recordTarget (tuLater t) targetIP True (tuElapsed t) c)))))"

definition disconnectRound :: "GlobalConfig \<Rightarrow> 's turn \<Rightarrow> 's channel_loop \<Rightarrow> 's channel_loop" where
  "disconnectRound cfg t c = sleepBeforeReconnect (tuRandom t) cfg (c\<lparr>clChannel := zeroChannel\<rparr>)"

text \<open>Whole turns of the loop: a channel that came up goes down before the next.\<close>

definition dialAndServe :: "GlobalConfig \<Rightarrow> string \<Rightarrow> string \<Rightarrow> 's turn \<Rightarrow> 's channel_loop \<Rightarrow> 's channel_loop" where
  "dialAndServe cfg addr ip t c =
    (case connectRound cfg addr ip t c of
       (Some _, c) \<Rightarrow> disconnectRound cfg t c
     | (None, c) \<Rightarrow> c)"

definition newChannelLoop :: "TransportType \<Rightarrow> string list \<Rightarrow> 's channel_loop" where
  "newChannelLoop mode ips = \<lparr>clAttempt = 0, clFailures = 0, clSelector = NewTransportSelector mode, clEndpoints = poolEndpoints ips,
     clChannel = zeroChannel, clDelays = []\<rparr>"

section \<open>Lemmas\<close>

lemma recordTarget_frame [simp]:
  "clChannel (recordTarget now ip b rtt c) = clChannel c" "clSelector (recordTarget now ip b rtt c) = clSelector c"
  "clAttempt (recordTarget now ip b rtt c) = clAttempt c" "clFailures (recordTarget now ip b rtt c) = clFailures c"
  "clDelays (recordTarget now ip b rtt c) = clDelays c"
  by (simp_all add: recordTarget_def split: option.split)

lemma selectTarget_frame:
  "selectTarget now ip c = (targetIP, c') \<Longrightarrow> clChannel c' = clChannel c \<and> clSelector c' = clSelector c \<and> clDelays c' = clDelays c"
  by (auto simp: selectTarget_def split: option.splits prod.splits sum.splits)

lemma dialRound_frame: "dialRound cfg addr t targetIP c = (r, c') \<Longrightarrow> clChannel c' = clChannel c \<and> clDelays c' = clDelays c"
  by (auto simp: dialRound_def split: if_splits prod.splits)

lemma sleep_frame [simp]:
  "clChannel (sleepBeforeReconnect R cfg c) = clChannel c" "clSelector (sleepBeforeReconnect R cfg c) = clSelector c"
  "length (clDelays (sleepBeforeReconnect R cfg c)) = Suc (length (clDelays c))"
  by (simp_all add: sleepBeforeReconnect_def)

lemma connectRound_cases:
  assumes "connectRound cfg addr ip t c = (r, c')"
  shows "case r of
     None \<Rightarrow> clChannel c' = clChannel c \<and> length (clDelays c') = Suc (length (clDelays c))
   | Some sess \<Rightarrow> clDelays c' = clDelays c \<and> clAttempt c' = 0 \<and> clFailures c' = 0 \<and>
       (\<exists>caps ks alg. tuNegotiate t sess = Inr (caps, ks, alg) \<and>
         clChannel c' = \<lparr>pcSession = Some sess, pcRTT = (case tuProbe t sess of Some rtt \<Rightarrow> rtt | None \<Rightarrow> 0), pcCaps = caps, pcKeys = Some ks, pcCipher = alg\<rparr>)"
proof -
  obtain targetIP c1 where s: "selectTarget (tuNow t) ip c = (targetIP, c1)" by (cases "selectTarget (tuNow t) ip c")
  obtain d c2 where d: "dialRound cfg addr t targetIP c1 = (d, c2)" by (cases "dialRound cfg addr t targetIP c1")
  note frame = selectTarget_frame [OF s] dialRound_frame [OF d]
  show ?thesis
  proof (cases d)
    case (Inr sess)
    show ?thesis
    proof (cases "tuNegotiate t sess")
      case neg: (Inr x)
      then show ?thesis
        using assms frame Inr by (cases x) (auto simp: connectRound_def s d Let_def recordSuccess_def split: option.splits)
    qed (use assms frame Inr in \<open>auto simp: connectRound_def s d\<close>)
  qed (use assms frame in \<open>auto simp: connectRound_def s d\<close>)
qed

section \<open>Properties\<close>

text \<open>
  A slot holds a session together with the capabilities, keys and cipher of its handshake, or nothing: a
  turn that fails leaves it empty, a turn that succeeds fills it with what the handshake gave and resets the
  back-off, and the end of the session empties it again; each turn of the loop pauses exactly once.
\<close>

lemma channel_slot_clean:
  assumes "clChannel c = zeroChannel" "connectRound cfg addr ip t c = (r, c')"
  shows "(r = None \<longrightarrow> clChannel c' = zeroChannel) \<and>
    (\<forall>sess. r = Some sess \<longrightarrow> (\<exists>caps ks alg rtt. tuNegotiate t sess = Inr (caps, ks, alg) \<and> clAttempt c' = 0 \<and>
      clChannel c' = \<lparr>pcSession = Some sess, pcRTT = rtt, pcCaps = caps, pcKeys = Some ks, pcCipher = alg\<rparr>)) \<and>
    clChannel (dialAndServe cfg addr ip t c) = zeroChannel \<and>
    length (clDelays (dialAndServe cfg addr ip t c)) = Suc (length (clDelays c))"
  using connectRound_cases [OF assms(2)] assms
  by (auto simp: dialAndServe_def disconnectRound_def split: option.splits)

lemma ShouldTryQUIC_after_success: "ShouldTryQUIC h (RecordSuccess h c addr TransportTypeQUIC) now addr"
  by (simp add: ShouldTryQUIC_def RecordSuccess_def Let_def MaxConsecutiveFails_def)

text \<open>A turn in which QUIC connects and the handshake over it is refused.\<close>

definition quic_refused :: "string \<Rightarrow> (string \<Rightarrow> string option) \<Rightarrow> 's turn \<Rightarrow> bool" where
  "quic_refused addr h t \<longleftrightarrow> tuWSS t \<and> \<not> tuFrontProxy t \<and> tuHost t = h \<and>
    (\<forall>ip timeout. \<exists>sess err. quic_DialSession (tuDialers t ip) addr timeout = Inr sess \<and> tuNegotiate t sess = Inl err)"

definition quic_first :: "string \<Rightarrow> (string \<Rightarrow> string option) \<Rightarrow> 's channel_loop \<Rightarrow> bool" where
  "quic_first addr h c \<longleftrightarrow> clChannel c = zeroChannel \<and> selMode (clSelector c) = TransportTypeAuto \<and>
    (\<forall>now. ShouldTryQUIC h (selCache (clSelector c)) now addr)"

lemma quic_refused_turn:
  assumes "quic_refused addr h t" "quic_first addr h c"
  shows "fst (connectRound cfg addr ip t c) = None \<and> quic_first addr h (dialAndServe cfg addr ip t c)"
proof -
  obtain targetIP c1 where s: "selectTarget (tuNow t) ip c = (targetIP, c1)" by (cases "selectTarget (tuNow t) ip c")
  let ?timeout = "if gcWSHandshakeTimeout cfg > 0 \<and> gcWSHandshakeTimeout cfg < fallbackTimeout (clSelector c)
    then gcWSHandshakeTimeout cfg else fallbackTimeout (clSelector c)"
  obtain sess err where q: "quic_DialSession (tuDialers t targetIP) addr ?timeout = Inr sess" "tuNegotiate t sess = Inl err"
    using assms(1) unfolding quic_refused_def by blast
  note frame = selectTarget_frame [OF s]
  let ?sel = "(clSelector c)\<lparr>selCache := RecordSuccess h (selCache (clSelector c)) addr TransportTypeQUIC\<rparr>"
  have "dialRound cfg addr t targetIP c1 = (Inr sess, c1\<lparr>clSelector := ?sel\<rparr>)"
    using assms q frame
    by (simp add: dialRound_def DialSession_def dialAuto_def quic_refused_def quic_first_def transport_types Let_def)
  then have "fst (connectRound cfg addr ip t c) = None \<and> clSelector (dialAndServe cfg addr ip t c) = ?sel \<and>
      clChannel (dialAndServe cfg addr ip t c) = zeroChannel"
    using q(2) frame assms(2) by (simp add: dialAndServe_def connectRound_def s quic_first_def)
  then show ?thesis using assms(2) ShouldTryQUIC_after_success by (simp add: quic_first_def)
qed

text \<open>
  C40. In the automatic mode a client is stuck on a QUIC path whose handshake is refused: the dialer counts a
  QUIC connection as a success before the handshake is tried and is not told of its failure, so in every
  turn it takes QUIC again and never the TCP transport, whether or not that would work, and the channel
  never comes up.
\<close>

lemma auto_mode_stuck:
  assumes "list_all (quic_refused addr h) ts" "c = fold (dialAndServe cfg addr ip) ts (newChannelLoop TransportTypeAuto ips)"
  shows "pcSession (clChannel c) = None \<and> (\<forall>now. ShouldTryQUIC h (selCache (clSelector c)) now addr) \<and>
    (\<forall>t. quic_refused addr h t \<longrightarrow> fst (connectRound cfg addr ip t c) = None)"
proof -
  have "quic_first addr h (newChannelLoop TransportTypeAuto ips :: 'a channel_loop)"
    by (simp add: quic_first_def newChannelLoop_def NewTransportSelector_def ShouldTryQUIC_def NewHostMemoryCache_def transport_types)
  then have first: "quic_first addr h c"
    unfolding assms(2) using assms(1)
    by (induction ts rule: rev_induct) (simp_all add: quic_refused_turn)
  then have "\<forall>t. quic_refused addr h t \<longrightarrow> fst (connectRound cfg addr ip t c) = None" using quic_refused_turn by blast
  with first show ?thesis by (simp add: quic_first_def zeroChannel_def)
qed

lemma unix_time_of_nano:
  assumes "0 \<le> n" "n < 2 ^ 63"
  shows "unix_time (time_of_unix 0 n)"
proof -
  have "n div second < 2 ^ 34" using assms by (simp add: second_def)
  moreover have "0 \<le> n div second" using assms by (simp add: second_def)
  moreover have "time_of_unix 0 n div second = unixToInternal + n div second"
    by (simp add: time_of_unix_def int64_ident unixToInternal_def second_def)
  ultimately show ?thesis by (simp add: unix_time_def unixToInternal_def)
qed

lemma clientLabels_nanos:
  assumes "\<forall>n\<in>set ns. 0 \<le> n \<and> n \<le> B" "0 \<le> l" "l \<le> B" "B + int (length ns) < 2 ^ 63"
  shows "\<exists>ms. clientLabels ns l = map (\<lambda>m. EncodeTAI64N (time_of_unix 0 m)) ms \<and> sorted_wrt (<) (l # ms) \<and> (\<forall>m\<in>set ms. m < 2 ^ 63)"
  using assms
proof (induction ns arbitrary: l B)
  case (Cons n ns)
  let ?m = "if n \<le> l then l + 1 else n"
  have m: "nextClientTAI64N n l = (EncodeTAI64N (time_of_unix 0 ?m), ?m)" "l < ?m" "?m < 2 ^ 63"
    using Cons.prems by (auto simp: nextClientTAI64N_def int64_ident Let_def)
  have "\<forall>n\<in>set ns. 0 \<le> n \<and> n \<le> B + 1" "0 \<le> ?m" "?m \<le> B + 1" "B + 1 + int (length ns) < 2 ^ 63"
    using Cons.prems by auto
  from Cons.IH [OF this] obtain ms where "clientLabels ns ?m = map (\<lambda>m. EncodeTAI64N (time_of_unix 0 m)) ms"
    "sorted_wrt (<) (?m # ms)" "\<forall>m\<in>set ms. m < 2 ^ 63" by blast
  then show ?case using m by (intro exI [of _ "?m # ms"]) auto
qed simp

text \<open>
  C29. The timestamps of a client's handshakes increase strictly, also when its channels ask for them in the
  same nanosecond or when the clock goes back: each label is earlier, as the server compares labels, than
  all later ones.
\<close>

lemma client_labels_increase:
  assumes "\<forall>n\<in>set ns. 0 \<le> n \<and> n \<le> B" "0 \<le> l" "l \<le> B" "B + int (length ns) < 2 ^ 63"
  shows "sorted_wrt (\<lambda>a b. CompareTAI64N a b = -1) (clientLabels ns l)"
proof -
  obtain ms where ms: "clientLabels ns l = map (\<lambda>m. EncodeTAI64N (time_of_unix 0 m)) ms" "sorted_wrt (<) (l # ms)" "\<forall>m\<in>set ms. m < 2 ^ 63"
    using clientLabels_nanos [OF assms] by blast
  have "CompareTAI64N (EncodeTAI64N (time_of_unix 0 a)) (EncodeTAI64N (time_of_unix 0 b)) = -1"
    if "a \<in> set ms" "b \<in> set ms" "a < b" for a b
  proof -
    have "unix_time (time_of_unix 0 a)" "unix_time (time_of_unix 0 b)"
      using ms(2,3) that assms(2) by (intro unix_time_of_nano; force)+
    then show ?thesis using that(3) by (simp add: CompareTAI64N_order time_of_unix_def)
  qed
  then show ?thesis using ms(2) by (auto simp: ms(1) sorted_wrt_map intro: sorted_wrt_mono_rel)
qed

text \<open>Every address of the client's list gets the configured number of slots, and every slot has one.\<close>

lemma pool_slots_cover:
  assumes "0 < n" "k < length ips"
  shows "card {i. i < poolTotal n ips \<and> i div n = k} = n \<and> (\<forall>i < poolTotal n ips. i div n = k \<longrightarrow> slotTarget n ips i = ips ! k)"
proof -
  have "k * n + n \<le> length ips * n" using assms(2) by (metis Suc_leI mult_Suc add.commute mult_le_mono1)
  then have "{i. i < poolTotal n ips \<and> i div n = k} = {k * n ..< k * n + n}"
    using assms dividend_less_times_div [OF assms(1)] by (auto simp: poolTotal_def div_nat_eqI mult.commute add.commute)
  then show ?thesis using assms(2) by (auto simp: slotTarget_def poolTotal_def)
qed

section \<open>Witnesses\<close>

text \<open>A server whose QUIC handshake is refused and whose WebSocket handshake would succeed.\<close>

definition wit_turn :: "bool turn" where
  "wit_turn = \<lparr>tuNow = 0, tuLater = 1, tuWSS = True, tuFrontProxy = False, tuHost = (\<lambda>_. None),
     tuDialers = (\<lambda>_. \<lparr>tcp_DialSession = (\<lambda>_ _. Inr False), quic_DialSession = (\<lambda>_ _. Inr True)\<rparr>), tuWebSocket = (\<lambda>_. Inr False),
     tuNegotiate = (\<lambda>quic. if quic then Inl (Errorf ''closed by server'') else Inr (0, \<lparr>Seed = [], C2SNoncePrefix = [], S2CNoncePrefix = []\<rparr>, 1)),
     tuProbe = (\<lambda>_. Some 5), tuElapsed = 1, tuRandom = (\<lambda>_. 0)\<rparr>"

lemma wit_turn_refused: "quic_refused ''wss://s/p'' (\<lambda>_. None) wit_turn"
  by (auto simp: quic_refused_def wit_turn_def)

definition wit_loop :: "TransportType \<Rightarrow> bool channel_loop" where
  "wit_loop mode = newChannelLoop mode []"

lemma auto_mode_stuck_witness:
  "pcSession (clChannel (fold (dialAndServe defaultGlobalConfig ''wss://s/p'' []) [wit_turn, wit_turn] (wit_loop TransportTypeAuto))) = None \<and>
   fst (connectRound defaultGlobalConfig ''wss://s/p'' [] wit_turn (wit_loop TransportTypeTCP)) = Some False"
proof -
  have "fst (connectRound defaultGlobalConfig ''wss://s/p'' [] wit_turn (wit_loop TransportTypeTCP)) = Some False"
    by (simp add: connectRound_def selectTarget_def dialRound_def wit_loop_def newChannelLoop_def poolEndpoints_def NewTransportSelector_def
        transport_types wit_turn_def Let_def)
  then show ?thesis
    using auto_mode_stuck [of "''wss://s/p''" "\<lambda>_. None" "[wit_turn, wit_turn]"] wit_turn_refused by (simp add: wit_loop_def)
qed

lemma channel_slot_clean_witness:
  "clChannel (wit_loop TransportTypeTCP) = zeroChannel \<and>
   (\<exists>c'. connectRound defaultGlobalConfig ''wss://s/p'' [] wit_turn (wit_loop TransportTypeTCP) = (Some False, c') \<and>
     pcSession (clChannel c') = Some False \<and> pcKeys (clChannel c') \<noteq> None) \<and>
   clChannel (dialAndServe defaultGlobalConfig ''wss://s/p'' [] wit_turn (wit_loop TransportTypeTCP)) = zeroChannel"
proof -
  obtain c' where c: "connectRound defaultGlobalConfig ''wss://s/p'' [] wit_turn (wit_loop TransportTypeTCP) = (Some False, c')"
    by (simp add: connectRound_def selectTarget_def dialRound_def wit_loop_def newChannelLoop_def poolEndpoints_def NewTransportSelector_def
        transport_types wit_turn_def Let_def)
  have "clChannel (wit_loop TransportTypeTCP) = zeroChannel" by (simp add: wit_loop_def newChannelLoop_def)
  from channel_slot_clean [OF this c] this c show ?thesis by auto
qed

lemma client_labels_increase_witness:
  "sorted_wrt (\<lambda>a b. CompareTAI64N a b = -1) (clientLabels [5, 5, 3] 5) \<and> length (clientLabels [5, 5, 3] 5) = 3"
  using client_labels_increase [of "[5, 5, 3]" 5 5] by (simp add: nextClientTAI64N_def Let_def)

end
