(* ===== verification/Ws_Conn.thy ===== *)
theory Ws_Conn
  imports Wire_Protocol Netaddr
begin

text \<open>
  WebSocket connections as byte streams: \<open>wsNetConn\<close> of \<open>internal/app/transport_ws.go\<close> and \<open>WSNetConn\<close> of
  \<open>internal/transport/tcp_transport.go\<close>, which carry the \<open>smux\<close> sessions, and the addresses that the TCP and
  QUIC transports dial. What arrives is a list of messages, each read in pieces up to an end of file or an
  error, and an error of \<open>NextReader\<close> behind the last; the framing is the library's.
  The two adapters are shown to deliver the same, namely the bytes of the binary messages in order, and
  what is written on one side is what is read on the other.
\<close>

section \<open>Incoming messages\<close>

text \<open>
  The reader of a message: the pieces that its calls return, and its end. With \<open>AtEOF True\<close> the last piece
  comes together with \<open>io.EOF\<close>, as the contract of \<open>io.Reader\<close> allows.
\<close>

datatype message_end = AtEOF bool | Broken go_error

type_synonym message_reader = "bytes list \<times> message_end"

record ws_message =
  msBinary :: bool
  msReader :: message_reader

fun end_error :: "message_end \<Rightarrow> go_error" where
  "end_error (AtEOF _) = EOF"
| "end_error (Broken e) = e"

fun message_Read :: "nat \<Rightarrow> message_reader \<Rightarrow> bytes \<times> go_error option \<times> message_reader" where
  "message_Read k ([], en) = ([], Some (end_error en), ([], en))"
| "message_Read k (c # cs, en) =
    (if length c > k then (take k c, None, (drop k c # cs, en))
     else (c, if cs = [] \<and> en = AtEOF True then Some EOF else None, (cs, en)))"

section \<open>The adapters\<close>

text \<open>\<open>wcCloses\<close> counts how often \<open>deadCh\<close> was closed; a second close would panic.\<close>

record wsNetConn =
  wcMessages :: "ws_message list"
  wcNextErr :: go_error
  wcReader :: "message_reader option"
  wcDeadErr :: "go_error option"
  wcOnce :: bool
  wcCloses :: nat

definition newWSNetConn :: "ws_message list \<Rightarrow> go_error \<Rightarrow> wsNetConn" where
  "newWSNetConn msgs err =
    \<lparr>wcMessages = msgs, wcNextErr = err, wcReader = None, wcDeadErr = None, wcOnce = False, wcCloses = 0\<rparr>"

definition signalDead :: "go_error option \<Rightarrow> wsNetConn \<Rightarrow> wsNetConn" where
  "signalDead err c =
    (case err of
       None \<Rightarrow> c
     | Some e \<Rightarrow>
         (let c = (if wcDeadErr c = None then c\<lparr>wcDeadErr := Some e\<rparr> else c)
          in if wcOnce c then c else c\<lparr>wcOnce := True, wcCloses := wcCloses c + 1\<rparr>))"

text \<open>The version of the transport package.\<close>

definition transport_signalDead :: "go_error \<Rightarrow> wsNetConn \<Rightarrow> wsNetConn" where
  "transport_signalDead e c =
    (if wcOnce c then c else c\<lparr>wcOnce := True, wcDeadErr := Some e, wcCloses := wcCloses c + 1\<rparr>)"

function ws_Read :: "nat \<Rightarrow> wsNetConn \<Rightarrow> (bytes \<times> go_error option) \<times> wsNetConn" where
  "ws_Read k c =
    (case wcReader c of
       None \<Rightarrow>
         (case wcMessages c of
            [] \<Rightarrow> (([], Some (wcNextErr c)), signalDead (Some (wcNextErr c)) c)
          | m # ms \<Rightarrow>
              if \<not> msBinary m then ws_Read k (c\<lparr>wcMessages := ms\<rparr>)
              else ws_Read k (c\<lparr>wcMessages := ms, wcReader := Some (msReader m)\<rparr>))
     | Some r \<Rightarrow>
         (case message_Read k r of
            (data, err, r') \<Rightarrow>
              if err = Some EOF then
                (let c = c\<lparr>wcReader := None\<rparr> in if data \<noteq> [] then ((data, None), c) else ws_Read k c)
              else ((data, err), signalDead err (c\<lparr>wcReader := Some r'\<rparr>))))"
  by pat_completeness auto
termination
  by (relation "measure (\<lambda>(k, c). 2 * length (wcMessages c) + (if wcReader c = None then 0 else 1))") auto

function transport_Read :: "nat \<Rightarrow> wsNetConn \<Rightarrow> (bytes \<times> go_error option) \<times> wsNetConn" where
  "transport_Read k c =
    (case wcReader c of
       Some r \<Rightarrow>
         (case message_Read k r of
            (data, None, r') \<Rightarrow> ((data, None), c\<lparr>wcReader := Some r'\<rparr>)
          | (data, Some e, r') \<Rightarrow>
              if e = EOF then
                (let c = c\<lparr>wcReader := None\<rparr> in if data \<noteq> [] then ((data, None), c) else transport_Read k c)
              else ((data, Some e), transport_signalDead e (c\<lparr>wcReader := Some r'\<rparr>)))
     | None \<Rightarrow>
         (case wcMessages c of
            [] \<Rightarrow> (([], Some (wcNextErr c)), transport_signalDead (wcNextErr c) c)
          | m # ms \<Rightarrow>
              if \<not> msBinary m then transport_Read k (c\<lparr>wcMessages := ms\<rparr>)
              else transport_Read k (c\<lparr>wcMessages := ms, wcReader := Some (msReader m)\<rparr>)))"
  by pat_completeness auto
termination
  by (relation "measure (\<lambda>(k, c). 2 * length (wcMessages c) + (if wcReader c = None then 0 else 1))") auto

declare ws_Read.simps [simp del] transport_Read.simps [simp del]

text \<open>
  A write sends one binary message: \<open>new\<close> is the result of \<open>NextWriter\<close>, \<open>close\<close> the error of closing that
  writer, which sends the message.
\<close>

definition ws_Write ::
  "'w io_writer \<Rightarrow> 'w result \<Rightarrow> ('w \<Rightarrow> go_error option) \<Rightarrow> bytes \<Rightarrow> wsNetConn \<Rightarrow> (nat \<times> go_error option) \<times> 'w option \<times> wsNetConn" where
  "ws_Write W new close p c =
    (case new of
       Inl e \<Rightarrow> ((0, Some e), None, signalDead (Some e) c)
     | Inr w \<Rightarrow>
         (case writeAllCount W w p of
            (n, writeErr, w') \<Rightarrow>
              if writeErr \<noteq> None then ((n, writeErr), Some w', signalDead writeErr c)
              else if close w' \<noteq> None then ((n, close w'), Some w', signalDead (close w') c)
              else ((n, None), Some w', c)))"

definition ws_Close :: "go_error option \<Rightarrow> wsNetConn \<Rightarrow> go_error option \<times> wsNetConn" where
  "ws_Close closed c = (closed, signalDead (if closed \<noteq> None then closed else Some EOF) c)"

definition transport_Write :: "go_error option \<Rightarrow> bytes \<Rightarrow> wsNetConn \<Rightarrow> (nat \<times> go_error option) \<times> wsNetConn" where
  "transport_Write written p c =
    (case written of
       Some e \<Rightarrow> ((0, Some e), transport_signalDead e c)
     | None \<Rightarrow> ((length p, None), c))"

definition transport_Close :: "go_error option \<Rightarrow> wsNetConn \<Rightarrow> go_error option \<times> wsNetConn" where
  "transport_Close closed c = (closed, transport_signalDead ErrClosedPipe c)"

section \<open>Dial addresses\<close>

definition resolveDialTarget :: "string \<Rightarrow> string \<Rightarrow> string" where
  "resolveDialTarget addr targetIP =
    (if targetIP = [] then addr
     else
       (case SplitHostPort targetIP of
          Inr _ \<Rightarrow> targetIP
        | Inl _ \<Rightarrow>
            (case SplitHostPort addr of
               Inl _ \<Rightarrow> targetIP
             | Inr (_, port) \<Rightarrow> JoinHostPort targetIP port)))"

text \<open>\<open>strings.SplitN(s, sep, 2)[1]\<close> when \<open>s\<close> contains \<open>sep\<close>, else \<open>s\<close>.\<close>

fun afterFirst :: "string \<Rightarrow> string \<Rightarrow> string option" where
  "afterFirst sep [] = (if sep = [] then Some [] else None)"
| "afterFirst sep (x # xs) = (if HasPrefix (x # xs) sep then Some (drop (length sep) (x # xs)) else afterFirst sep xs)"

text \<open>\<open>strings.Trim(s, "[]")\<close>.\<close>

definition trimBrackets :: "string \<Rightarrow> string" where
  "trimBrackets s = (let b = (\<lambda>c. c = CHR ''['' \<or> c = CHR '']'') in rev (dropWhile b (rev (dropWhile b s))))"

definition resolveQUICDialTarget :: "string \<Rightarrow> string \<Rightarrow> int \<Rightarrow> string \<times> string" where
  "resolveQUICDialTarget rawAddr targetIP quicPort =
    (let addr = (case afterFirst ''://'' rawAddr of Some rest \<Rightarrow> rest | None \<Rightarrow> rawAddr);
         addr = (case IndexByte (CHR ''/'') addr of Some i \<Rightarrow> take i addr | None \<Rightarrow> addr)
     in case (case SplitHostPort addr of Inr hp \<Rightarrow> hp | Inl _ \<Rightarrow> (trimBrackets addr, ''443'')) of
          (host, port) \<Rightarrow>
            (let dialAddr = (if quicPort > 0 then JoinHostPort host (Itoa quicPort) else JoinHostPort host port)
             in (resolveDialTarget dialAddr targetIP, host)))"

section \<open>What is still to be read\<close>

definition rest :: "message_reader \<Rightarrow> bytes \<Rightarrow> bytes" where
  "rest r later = concat (fst r) @ (if end_error (snd r) = EOF then later else [])"

fun undelivered :: "ws_message list \<Rightarrow> bytes" where
  "undelivered [] = []"
| "undelivered (m # ms) = (if msBinary m then rest (msReader m) (undelivered ms) else undelivered ms)"

definition pending :: "wsNetConn \<Rightarrow> bytes" where
  "pending c = (case wcReader c of None \<Rightarrow> undelivered (wcMessages c) | Some r \<Rightarrow> rest r (undelivered (wcMessages c)))"

text \<open>No call of a reader returns nothing without an error.\<close>

definition pieces_ok :: "wsNetConn \<Rightarrow> bool" where
  "pieces_ok c \<longleftrightarrow> list_all (\<lambda>m. [] \<notin> set (fst (msReader m))) (wcMessages c) \<and>
    (case wcReader c of None \<Rightarrow> True | Some r \<Rightarrow> [] \<notin> set (fst r))"

lemma signalDead_frame [simp]:
  "wcReader (signalDead err c) = wcReader c" "wcMessages (signalDead err c) = wcMessages c"
  "\<exists>y. wcDeadErr (signalDead (Some e) c) = Some y"
  by (auto simp: signalDead_def Let_def split: option.split)

lemma signalDead_pending [simp]:
  "pending (signalDead err c) = pending c" "pieces_ok (signalDead err c) = pieces_ok c"
  by (simp_all add: pending_def pieces_ok_def split: option.split)

lemma message_Read_rest:
  assumes "message_Read k r = (d, err, r')"
  shows "length d \<le> k \<and>
    (case err of
       None \<Rightarrow> rest r later = d @ rest r' later \<and> ([] \<notin> set (fst r) \<longrightarrow> [] \<notin> set (fst r') \<and> (0 < k \<longrightarrow> d \<noteq> []))
     | Some e \<Rightarrow> if e = EOF then rest r later = d @ later else d = [] \<and> r' = r \<and> rest r later = [])"
  using assms by (cases r; cases "fst r") (auto simp: rest_def split: if_splits)

lemma ws_Read_step:
  assumes "ws_Read k c = ((d, err), c')"
  shows "d @ pending c' = pending c \<and> length d \<le> k \<and> (err \<noteq> None \<longrightarrow> d = [] \<and> pending c = [] \<and> wcDeadErr c' \<noteq> None) \<and>
    (pieces_ok c \<longrightarrow> pieces_ok c' \<and> (err = None \<and> 0 < k \<longrightarrow> d \<noteq> []))"
  using assms
proof (induction k c arbitrary: d err c' rule: ws_Read.induct)
  case (1 k c)
  show ?case
  proof (cases "wcReader c")
    case None
    show ?thesis
    proof (cases "wcMessages c")
      case Nil
      with 1(4) None show ?thesis by (auto simp: ws_Read.simps [of k c] pending_def)
    next
      case (Cons m ms)
      with 1(4) None 1(1,2) [OF None Cons] show ?thesis
        by (cases "msBinary m") (fastforce simp: ws_Read.simps [of k c] pending_def pieces_ok_def)+
    qed
  next
    case (Some r)
    obtain x e r' where m: "message_Read k r = (x, e, r')" by (cases "message_Read k r")
    note step = message_Read_rest [OF m, of "undelivered (wcMessages c)"]
    show ?thesis
    proof (cases "e = Some EOF \<and> x = []")
      case True
      then have "ws_Read k (c\<lparr>wcReader := None\<rparr>) = ((d, err), c')" using 1(4) Some m by (simp add: ws_Read.simps [of k c])
      note IH = 1(3) [OF Some m [symmetric] refl _ refl _ this]
      have "pending (c\<lparr>wcReader := None\<rparr>) = pending c" using True step Some by (simp add: pending_def)
      moreover have "pieces_ok c \<Longrightarrow> pieces_ok (c\<lparr>wcReader := None\<rparr>)" by (simp add: pieces_ok_def)
      ultimately show ?thesis using IH True by auto
    next
      case False
      then show ?thesis using 1(4) Some m step
        by (auto simp: ws_Read.simps [of k c] pending_def pieces_ok_def split: if_splits option.splits)
    qed
  qed
qed

section \<open>Reading a stream\<close>

text \<open>Calls of \<open>Read\<close> with buffers of the given sizes, up to the first error.\<close>

fun ws_reads :: "nat list \<Rightarrow> wsNetConn \<Rightarrow> bytes \<times> go_error option \<times> wsNetConn" where
  "ws_reads [] c = ([], None, c)"
| "ws_reads (k # ks) c =
    (case ws_Read k c of
       ((d, Some e), c') \<Rightarrow> (d, Some e, c')
     | ((d, None), c') \<Rightarrow> (case ws_reads ks c' of (ds, e, c'') \<Rightarrow> (d @ ds, e, c'')))"

lemma ws_reads_deliver:
  assumes "pieces_ok c" "list_all (\<lambda>k. 0 < k) ks" "ws_reads ks c = (d, err, c')"
  shows "d @ pending c' = pending c \<and> (err \<noteq> None \<longrightarrow> pending c' = [] \<and> wcDeadErr c' \<noteq> None) \<and>
    (err = None \<longrightarrow> length ks \<le> length d)"
  using assms
proof (induction ks arbitrary: c d err c')
  case (Cons k ks)
  obtain x e c1 where r: "ws_Read k c = ((x, e), c1)" by (cases "ws_Read k c") auto
  note step = ws_Read_step [OF r]
  show ?case
  proof (cases e)
    case (Some y)
    with step r Cons.prems show ?thesis by auto
  next
    case None
    obtain ds e' c2 where rs: "ws_reads ks c1 = (ds, e', c2)" by (cases "ws_reads ks c1")
    have x: "pieces_ok c1" "0 < length x" using step None Cons.prems(1,2) by auto
    then have "length ks \<le> length ds \<Longrightarrow> Suc (length ks) \<le> length (x @ ds)" using x(2) by (cases x) auto
    moreover have "d = x @ ds" "err = e'" "c' = c2" using r rs None Cons.prems(3) by simp_all
    ultimately show ?thesis using Cons.IH [OF x(1) _ rs] step None Cons.prems(2) by auto
  qed
qed simp

text \<open>The adapters of the two packages do the same, also to the error that a dead connection reports.\<close>

definition dead_ok :: "wsNetConn \<Rightarrow> bool" where
  "dead_ok c \<longleftrightarrow> (wcOnce c \<longleftrightarrow> wcDeadErr c \<noteq> None) \<and> wcCloses c = (if wcOnce c then 1 else 0)"

lemma dead_ok_new: "dead_ok (newWSNetConn msgs err)"
  by (simp add: dead_ok_def newWSNetConn_def)

lemma transport_signalDead_eq: "dead_ok c \<Longrightarrow> transport_signalDead e c = signalDead (Some e) c"
  by (simp add: transport_signalDead_def signalDead_def dead_ok_def Let_def)

lemma dead_ok_signalDead [simp]: "dead_ok c \<Longrightarrow> dead_ok (signalDead e c)"
  by (auto simp: signalDead_def dead_ok_def Let_def split: option.split)

lemma dead_ok_frame [simp]:
  "dead_ok (c\<lparr>wcReader := r\<rparr>) = dead_ok c" "dead_ok (c\<lparr>wcMessages := ms\<rparr>) = dead_ok c"
  by (simp_all add: dead_ok_def)

lemma transport_Read_eq:
  assumes "dead_ok c"
  shows "transport_Read k c = ws_Read k c \<and> dead_ok (snd (ws_Read k c))"
  using assms
proof (induction k c rule: ws_Read.induct)
  case (1 k c)
  show ?case
  proof (cases "wcReader c")
    case None
    then show ?thesis using 1
      by (cases "wcMessages c")
        (auto simp: ws_Read.simps [of k c] transport_Read.simps [of k c] transport_signalDead_eq)
  next
    case (Some r)
    obtain x e r' where m: "message_Read k r = (x, e, r')" by (cases "message_Read k r")
    show ?thesis
    proof (cases e)
      case None
      then show ?thesis using 1(4) Some m
        by (simp add: ws_Read.simps [of k c] transport_Read.simps [of k c] signalDead_def)
    next
      case (Some y)
      then show ?thesis using 1(3) [OF \<open>wcReader c = Some r\<close> m [symmetric]] 1(4) \<open>wcReader c = Some r\<close> m
        by (auto simp: ws_Read.simps [of k c] transport_Read.simps [of k c] transport_signalDead_eq Let_def)
    qed
  qed
qed

text \<open>A write over a writer that takes all bytes sends one message with exactly these.\<close>

lemma ws_Write_message:
  assumes "reliable_writer W ok sink" "ok w" "\<And>w. close w = None"
  shows "\<exists>w'. ws_Write W (Inr w) close p c = ((length p, None), Some w', c) \<and> sink w' = sink w @ p"
proof -
  obtain n e w' where w: "writeAllCount W w p = (n, e, w')" by (cases "writeAllCount W w p")
  have "e = None" using reliable_writer.writeAllLoop_None [OF assms(1,2), of p 0] w by (simp add: writeAllCount_def)
  moreover have "n \<le> length p \<and> sink w' = sink w @ take n p \<and> (e = None \<longrightarrow> n = length p)"
    using contract_writer.writeAllCount_sound [OF reliable_writer.axioms(1) [OF assms(1)] assms(2) w] by simp
  ultimately show ?thesis using w assms(3) by (simp add: ws_Write_def)
qed

definition payload :: "ws_message \<Rightarrow> bytes" where
  "payload m = concat (fst (msReader m))"

definition whole_messages :: "ws_message list \<Rightarrow> bool" where
  "whole_messages msgs \<longleftrightarrow> list_all (\<lambda>m. [] \<notin> set (fst (msReader m)) \<and> end_error (snd (msReader m)) = EOF) msgs"

lemma undelivered_whole: "whole_messages msgs \<Longrightarrow> undelivered msgs = concat (map payload (filter msBinary msgs))"
  by (induction msgs) (auto simp: whole_messages_def payload_def rest_def)

text \<open>A connection that has not failed and whose messages all come to their end.\<close>

definition live :: "wsNetConn \<Rightarrow> bool" where
  "live c \<longleftrightarrow> whole_messages (wcMessages c) \<and> dead_ok c \<and> wcDeadErr c = None \<and>
    (case wcReader c of None \<Rightarrow> True | Some r \<Rightarrow> end_error (snd r) = EOF)"

lemma message_Read_whole:
  assumes "message_Read k r = (d, err, r')" "end_error (snd r) = EOF"
  shows "(err = None \<or> err = Some EOF) \<and> end_error (snd r') = EOF"
  using assms by (cases r; cases "fst r") (auto split: if_splits)

lemma ws_Read_live:
  assumes "ws_Read k c = ((d, err), c')" "live c"
  shows "wcNextErr c' = wcNextErr c \<and> (case err of None \<Rightarrow> live c' | Some e \<Rightarrow> e = wcNextErr c \<and> wcDeadErr c' = Some e)"
  using assms
proof (induction k c arbitrary: d err c' rule: ws_Read.induct)
  case (1 k c)
  show ?case
  proof (cases "wcReader c")
    case None
    show ?thesis
    proof (cases "wcMessages c")
      case Nil
      with 1(4,5) None show ?thesis by (auto simp: ws_Read.simps [of k c] signalDead_def dead_ok_def live_def)
    next
      case (Cons m ms)
      with 1(4,5) None 1(1,2) [OF None Cons, of d err c'] show ?thesis
        by (cases "msBinary m"; cases err) (simp_all add: ws_Read.simps [of k c] whole_messages_def live_def)
    qed
  next
    case (Some r)
    obtain x e' r' where m: "message_Read k r = (x, e', r')" by (cases "message_Read k r")
    have whole: "e' = None \<or> e' = Some EOF" "end_error (snd r') = EOF"
      using message_Read_whole [OF m] 1(5) Some by (simp_all add: live_def)
    show ?thesis
    proof (cases "e' = Some EOF \<and> x = []")
      case True
      then have r: "ws_Read k (c\<lparr>wcReader := None\<rparr>) = ((d, err), c')"
        using 1(4) Some m by (simp add: ws_Read.simps [of k c])
      have "live (c\<lparr>wcReader := None\<rparr>)" using 1(5) by (simp add: live_def)
      then show ?thesis using 1(3) [OF Some m [symmetric] refl _ refl _ r] True by (cases err) simp_all
    next
      case False
      with 1(4,5) Some m whole show ?thesis
        by (auto simp: ws_Read.simps [of k c] Let_def live_def signalDead_def split: if_splits)
    qed
  qed
qed

lemma ws_reads_live:
  assumes "ws_reads ks c = (d, Some e, c')" "live c"
  shows "e = wcNextErr c \<and> wcDeadErr c' = Some e"
  using assms
proof (induction ks arbitrary: c d)
  case (Cons k ks)
  obtain x y c1 where r: "ws_Read k c = ((x, y), c1)" by (cases "ws_Read k c") auto
  with Cons ws_Read_live [OF r] show ?case by (cases y) (fastforce split: prod.splits)+
qed simp

section \<open>Properties\<close>

text \<open>
  C31. A WebSocket connection carries a byte stream. Each write over a working connection sends one binary
  message with all its bytes; when the peer gets these messages, in this order and cut into any pieces, with
  other messages in between, its reads with buffers of any sizes return exactly the bytes that were
  written, and then the error with which the connection ended, which is what \<open>DeadErr\<close> reports. Both
  adapters do this.
\<close>

lemma ws_stream_roundtrip:
  assumes "reliable_writer W ok sink" "ok w" "sink w = []" "\<And>w. close w = None"
    and "map payload (filter msBinary msgs) = map (\<lambda>p. sink (the (fst (snd (ws_Write W (Inr w) close p s))))) ps"
    and "whole_messages msgs" "list_all (\<lambda>k. 0 < k) ks" "length ks > length (concat ps)"
  shows "list_all (\<lambda>p. fst (ws_Write W (Inr w) close p s) = (length p, None)) ps \<and>
    (\<exists>c'. ws_reads ks (newWSNetConn msgs err) = (concat ps, Some err, c') \<and> wcDeadErr c' = Some err) \<and>
    transport_Read k (newWSNetConn msgs err) = ws_Read k (newWSNetConn msgs err)"
proof -
  have sent: "fst (ws_Write W (Inr w) close p s) = (length p, None) \<and> sink (the (fst (snd (ws_Write W (Inr w) close p s)))) = p" for p
    using ws_Write_message [OF assms(1,2), of close p s] assms(3,4) by auto
  let ?c = "newWSNetConn msgs err"
  have "pending ?c = concat ps"
    using undelivered_whole [OF assms(6)] assms(5) sent by (simp add: pending_def newWSNetConn_def)
  moreover have "pieces_ok ?c" using assms(6) by (auto simp: pieces_ok_def newWSNetConn_def whole_messages_def list_all_iff)
  moreover obtain d e c' where r: "ws_reads ks ?c = (d, e, c')" by (cases "ws_reads ks ?c")
  ultimately have d: "d @ pending c' = concat ps" "e \<noteq> None \<Longrightarrow> pending c' = []" "e = None \<Longrightarrow> length ks \<le> length d"
    using ws_reads_deliver [OF _ assms(7) r] by auto
  have "e \<noteq> None"
  proof
    assume "e = None"
    then have "length (concat ps) < length d" using d(3) assms(8) by linarith
    then show False unfolding d(1) [symmetric] by simp
  qed
  then obtain y where "e = Some y" "d = concat ps" using d by auto
  moreover have "live ?c" using assms(6) by (simp add: live_def dead_ok_new) (simp add: newWSNetConn_def)
  ultimately show ?thesis
    using r ws_reads_live [of ks ?c d y c'] sent transport_Read_eq [OF dead_ok_new, of k msgs err]
    by (auto simp: list_all_iff newWSNetConn_def)
qed

text \<open>
  Where QUIC dials the server: the host of the server's URL, which is also the name for TLS, at the QUIC
  port if there is one and else at the port of the URL; an address override replaces the host only.
\<close>

lemma quic_dial_target:
  assumes "plain_hostname host" "plain_hostname ip" "1 \<le> port" "HasPrefix path ''/'' \<or> path = []"
    and "p = (if quicPort > 0 then quicPort else port)"
  shows "resolveQUICDialTarget (''wss://'' @ JoinHostPort host (Itoa port) @ path) [] quicPort = (JoinHostPort host (Itoa p), host) \<and>
    resolveQUICDialTarget (''wss://'' @ JoinHostPort host (Itoa port) @ path) ip quicPort = (JoinHostPort ip (Itoa p), host)"
proof -
  let ?hp = "JoinHostPort host (Itoa port)"
  have "label_char c \<Longrightarrow> c \<noteq> CHR ''/''" for c by (auto simp: label_char_def isLower_def isDigit_def)
  then have "CHR ''/'' \<notin> set host" using plain_hostname_chars [OF assms(1)] by fastforce
  moreover have "CHR ''/'' \<notin> set (Itoa port)" using dec_digits_props [of "nat port"] assms(3) by (auto simp: Itoa_def list_all_iff isDigit_def)
  ultimately have "CHR ''/'' \<notin> set ?hp" by (simp add: JoinHostPort_def)
  then have "IndexByte (CHR ''/'') ?hp = None" "CHR ''/'' \<notin> set ?hp" by simp_all
  then have "(case IndexByte (CHR ''/'') (?hp @ path) of Some i \<Rightarrow> take i (?hp @ path) | None \<Rightarrow> ?hp @ path) = ?hp"
    using assms(4) by (cases path) (auto simp: HasPrefix_def simp del: IndexByte_None)
  moreover have "afterFirst ''://'' (''wss://'' @ ?hp @ path) = Some (?hp @ path)" by (simp add: HasPrefix_def)
  moreover have "\<exists>e. SplitHostPort ip = Inl e"
  proof -
    have "CHR '':'' \<notin> set ip" using plain_hostname_chars [OF assms(2)] label_char_not_special by fastforce
    then have "LastIndexByte (CHR '':'') ip = None" by (simp add: LastIndexByte_def)
    then show ?thesis by (simp add: SplitHostPort_def)
  qed
  moreover have "1 \<le> p" "ip \<noteq> []" using plain_hostname_last [OF assms(2)] assms(3,5) by auto
  ultimately show ?thesis
    using assms(5) SplitHostPort_plain [OF assms(1,3)] SplitHostPort_plain [OF assms(1) \<open>1 \<le> p\<close>]
    by (auto simp: resolveQUICDialTarget_def resolveDialTarget_def)
qed

section \<open>Witnesses\<close>

text \<open>Two writes; the first message arrives in two pieces, with a text message behind it.\<close>

definition wit_messages :: "ws_message list" where
  "wit_messages =
    [\<lparr>msBinary = True, msReader = ([[1], [2, 3]], AtEOF False)\<rparr>, \<lparr>msBinary = False, msReader = ([[9]], AtEOF False)\<rparr>,
     \<lparr>msBinary = True, msReader = ([[4]], AtEOF True)\<rparr>]"

lemma ws_stream_roundtrip_witness:
  "fst (ws_Write buffer_writer (Inr []) (\<lambda>_. None) [1, 2, 3] (newWSNetConn [] EOF)) = (3, None) \<and>
   (\<exists>c'. ws_reads (replicate 5 2) (newWSNetConn wit_messages ErrUnexpectedEOF) = ([1, 2, 3, 4], Some ErrUnexpectedEOF, c') \<and>
      wcDeadErr c' = Some ErrUnexpectedEOF)"
proof -
  have "reliable_writer buffer_writer (\<lambda>_. True) (\<lambda>b. b)" by unfold_locales
  note w = ws_stream_roundtrip [OF this, of "[]" "\<lambda>_. None" wit_messages "newWSNetConn [] EOF" "[[1, 2, 3], [4]]" "replicate 5 2"]
  have "map payload (filter msBinary wit_messages) = [[1, 2, 3], [4]]" by (simp add: wit_messages_def payload_def)
  moreover have "whole_messages wit_messages" by (simp add: wit_messages_def whole_messages_def)
  ultimately show ?thesis using w by (simp add: ws_Write_def buffer_writeAllCount list_all_iff)
qed


end
