(* ===== verification/Pacer.thy ===== *)
theory Pacer
  imports Wire_Protocol Wire_Tai64n Complex_Main
begin

text \<open>
  The token bucket that limits the rate of writes into a tunnel (\<open>internal/app/pacer.go\<close>) and the jitter
  of keep-alive intervals (\<open>internal/app/keepalive.go\<close>). The code computes in \<open>float64\<close>; the model computes
  in rational numbers, so the rounding of single operations is not seen, but the conversion of a pause to
  whole nanoseconds is. Clock readings and the random number are arguments. A write is cut at its pause:
  \<open>pacerTake\<close> is the critical section and gives the pause that follows it.
\<close>

section \<open>Model\<close>

record pacerWriter =
  pwRate :: rat
  pwBurst :: rat
  pwTokens :: rat
  pwLast :: gotime

definition newPacerWriter :: "rat \<Rightarrow> rat \<Rightarrow> gotime \<Rightarrow> pacerWriter" where
  "newPacerWriter bytesPerSec burstBytes now =
    (let burstBytes = (if burstBytes \<le> 0 then 64 * 1024 else burstBytes)
     in \<lparr>pwRate = bytesPerSec, pwBurst = burstBytes, pwTokens = burstBytes, pwLast = now\<rparr>)"

text \<open>\<open>None\<close>: the writer is returned as it is.\<close>

definition newPacerWriterMbps :: "rat \<Rightarrow> gotime \<Rightarrow> pacerWriter option" where
  "newPacerWriterMbps rateMbps now =
    (if rateMbps \<le> 0 then None else Some (newPacerWriter (rateMbps * 125000) (64 * 1024) now))"

text \<open>\<open>time.Duration(s * float64(time.Second))\<close> drops the fraction.\<close>

definition toDuration :: "rat \<Rightarrow> duration" where
  "toDuration s = (let x = s * 1000000000 in if x < 0 then - \<lfloor>- x\<rfloor> else \<lfloor>x\<rfloor>)"

definition pacerTake :: "gotime \<Rightarrow> nat \<Rightarrow> pacerWriter \<Rightarrow> duration \<times> pacerWriter" where
  "pacerTake now n pw =
    (if pwRate pw \<le> 0 then (0, pw)
     else
       (let tokens = (if pwLast pw \<noteq> 0
                      then (let t = pwTokens pw + of_int (now - pwLast pw) / 1000000000 * pwRate pw
                            in if t > pwBurst pw then pwBurst pw else t)
                      else pwTokens pw);
            needed = rat_of_nat n
        in if tokens < needed then
             (let sleepSec = (needed - tokens) / pwRate pw
              in (if sleepSec > 0 then toDuration sleepSec else 0, pw\<lparr>pwTokens := 0, pwLast := now + toDuration sleepSec\<rparr>))
           else (0, pw\<lparr>pwTokens := tokens - needed, pwLast := now\<rparr>)))"

definition pacer_Write :: "'w io_writer \<Rightarrow> gotime \<Rightarrow> bytes \<Rightarrow> pacerWriter \<Rightarrow> 'w \<Rightarrow> duration \<times> (nat \<times> go_error option \<times> 'w) \<times> pacerWriter" where
  "pacer_Write W now p pw w = (case pacerTake now (length p) pw of (sleep, pw') \<Rightarrow> (sleep, io_Write W w p, pw'))"

definition jitterKeepAliveWith :: "rat \<Rightarrow> duration \<Rightarrow> duration" where
  "jitterKeepAliveWith f base =
    (if base \<le> 0 then base
     else (let multiplier = 8 / 10 + 4 / 10 * f in \<lfloor>rat_of_int base * multiplier\<rfloor>))"

definition defaultSmuxKeepAliveInterval :: duration where
  "defaultSmuxKeepAliveInterval = 10 * second"

text \<open>Writes of the given sizes that come at the given times: when each is passed on.\<close>

fun pacerRun :: "(gotime \<times> nat) list \<Rightarrow> pacerWriter \<Rightarrow> gotime list \<times> pacerWriter" where
  "pacerRun [] pw = ([], pw)"
| "pacerRun ((now, n) # ws) pw =
    (case pacerTake now n pw of (sleep, pw') \<Rightarrow>
       (case pacerRun ws pw' of (ts, pw'') \<Rightarrow> ((now + sleep) # ts, pw'')))"

section \<open>Lemmas\<close>

lemma toDuration_bounds: "0 \<le> s \<Longrightarrow> 0 \<le> toDuration s \<and> of_int (toDuration s) \<le> s * 1000000000 \<and> s * 1000000000 < of_int (toDuration s) + 1"
  by (simp add: toDuration_def Let_def) linarith

text \<open>What the bucket owes: bytes let through so far may exceed the allowance of the elapsed time by this.\<close>

definition credit :: "pacerWriter \<Rightarrow> rat" where
  "credit pw = pwTokens pw - of_int (pwLast pw) / 1000000000 * pwRate pw"

lemma pacerTake_step:
  assumes "pacerTake now n pw = (sleep, pw')" "0 < pwRate pw" "0 < pwLast pw" "0 < now"
  shows "pwRate pw' = pwRate pw \<and> pwBurst pw' = pwBurst pw \<and> 0 \<le> pwTokens pw' \<and> 0 \<le> sleep \<and> pwLast pw' = now + sleep \<and>
    rat_of_nat n + credit pw' \<le> credit pw + pwRate pw / 1000000000"
proof -
  define t where "t = pwTokens pw + of_int (now - pwLast pw) / 1000000000 * pwRate pw"
  define tokens where "tokens = (if t > pwBurst pw then pwBurst pw else t)"
  define s where "s = (rat_of_nat n - tokens) / pwRate pw"
  have "pacerTake now n pw =
      (if tokens < rat_of_nat n then (if s > 0 then toDuration s else 0, pw\<lparr>pwTokens := 0, pwLast := now + toDuration s\<rparr>)
       else (0, pw\<lparr>pwTokens := tokens - rat_of_nat n, pwLast := now\<rparr>))"
    unfolding pacerTake_def Let_def t_def [symmetric] tokens_def [symmetric] s_def [symmetric] using assms(2,3)
    by (simp flip: tokens_def s_def)
  note take = this [unfolded assms(1)]
  have t: "tokens - of_int now / 1000000000 * pwRate pw \<le> credit pw"
    by (simp add: tokens_def t_def credit_def field_simps)
  show ?thesis
  proof (cases "tokens < rat_of_nat n")
    case True
    have s: "0 < s" "s * pwRate pw = rat_of_nat n - tokens" using True assms(2) by (simp_all add: s_def)
    have pw': "sleep = toDuration s" "pw' = pw\<lparr>pwTokens := 0, pwLast := now + toDuration s\<rparr>"
      using take True s(1) by simp_all
    note d = toDuration_bounds [OF less_imp_le [OF s(1)]]
    have "s * pwRate pw \<le> (of_int (toDuration s) + 1) / 1000000000 * pwRate pw"
      using d assms(2) by (intro mult_right_mono) (simp_all add: field_simps)
    then have "rat_of_nat n - tokens \<le> of_int (toDuration s) / 1000000000 * pwRate pw + pwRate pw / 1000000000"
      using s(2) by (simp add: field_simps)
    with t have "rat_of_nat n + credit pw' \<le> credit pw + pwRate pw / 1000000000"
      by (simp add: pw' credit_def field_simps)
    then show ?thesis using pw' d by simp
  next
    case False
    then have pw': "sleep = 0" "pw' = pw\<lparr>pwTokens := tokens - rat_of_nat n, pwLast := now\<rparr>"
      using take by simp_all
    have "rat_of_nat n + credit pw' \<le> credit pw" using t by (simp add: pw' credit_def)
    moreover have "0 < pwRate pw / 1000000000" using assms(2) by simp
    ultimately have "rat_of_nat n + credit pw' \<le> credit pw + pwRate pw / 1000000000" by linarith
    then show ?thesis using pw' False by simp
  qed
qed
lemma pacerRun_credit:
  assumes "pacerRun ws pw = (ts, pw')" "0 < pwRate pw" "0 < pwLast pw" "list_all (\<lambda>(now, _). 0 < now) ws"
  shows "rat_of_nat (sum_list (map snd ws)) + credit pw' \<le> credit pw + rat_of_nat (length ws) * (pwRate pw / 1000000000) \<and>
    pwRate pw' = pwRate pw \<and> (ws \<noteq> [] \<longrightarrow> 0 \<le> pwTokens pw' \<and> pwLast pw' = last ts) \<and> length ts = length ws"
  using assms
proof (induction ws arbitrary: pw ts)
  case (Cons w ws)
  obtain now n where w: "w = (now, n)" by (cases w)
  obtain sleep pw1 where t: "pacerTake now n pw = (sleep, pw1)" by (cases "pacerTake now n pw")
  obtain us where r: "pacerRun ws pw1 = (us, pw')" and ts: "ts = (now + sleep) # us"
    using Cons.prems(1) w t by (auto split: prod.splits)
  have "0 < now" using Cons.prems(4) w by simp
  note step = pacerTake_step [OF t Cons.prems(2,3) this]
  then have "0 < pwRate pw1" "0 < pwLast pw1" using Cons.prems(2) \<open>0 < now\<close> by auto
  note IH = Cons.IH [OF r this] Cons.prems(4)
  have "rat_of_nat (n + sum_list (map snd ws)) + credit pw' \<le> credit pw + rat_of_nat (Suc (length ws)) * (pwRate pw / 1000000000)"
    using IH step by (simp add: algebra_simps add_divide_distrib)
  then show ?case using IH step w ts r by (cases "ws = []") auto
qed simp

section \<open>Properties\<close>


text \<open>The interval between keep-alive messages stays within a fifth of the base.\<close>

lemma jitter_bounds:
  assumes "0 \<le> f" "f < 1" "0 \<le> base"
  shows "8 * base div 10 \<le> jitterKeepAliveWith f base \<and> 10 * jitterKeepAliveWith f base \<le> 12 * base"
proof (cases "base = 0")
  case False
  then have b: "0 < rat_of_int base" using assms(3) by simp
  let ?x = "rat_of_int base * (8 / 10 + 4 / 10 * f)"
  have "rat_of_int base * (8 / 10) \<le> ?x" "?x \<le> rat_of_int base * (12 / 10)"
    using assms(1,2) b by (auto intro!: mult_left_mono)
  then have x: "rat_of_int (8 * base) / rat_of_int 10 \<le> ?x" "10 * ?x \<le> rat_of_int (12 * base)" by (simp_all add: field_simps)
  have "8 * base div 10 = \<lfloor>rat_of_int (8 * base) / rat_of_int 10\<rfloor>" by (rule floor_divide_of_int_eq [symmetric])
  also have "\<dots> \<le> \<lfloor>?x\<rfloor>" using x(1) by (rule floor_mono)
  finally have lo: "8 * base div 10 \<le> \<lfloor>?x\<rfloor>" .
  have "10 * rat_of_int \<lfloor>?x\<rfloor> \<le> 10 * ?x" by (intro mult_left_mono of_int_floor_le) simp
  then have "rat_of_int (10 * \<lfloor>?x\<rfloor>) \<le> rat_of_int (12 * base)" using x(2) by linarith
  then have "10 * \<lfloor>?x\<rfloor> \<le> 12 * base" by (simp only: of_int_le_iff)
  with lo have "8 * base div 10 \<le> \<lfloor>?x\<rfloor>" "10 * \<lfloor>?x\<rfloor> \<le> 12 * base" by simp_all
  then show ?thesis using False assms(3) by (simp add: jitterKeepAliveWith_def Let_def)
qed (simp add: jitterKeepAliveWith_def)

section \<open>Witnesses\<close>


end
