(* ===== verification/Route_Files.thy ===== *)
theory Route_Files
  imports Route_Rules Go_Url
begin

text \<open>
  The files of the routing engine: the download of the GEO databases and of the default rules
  (\<open>internal/route/download.go\<close>), the atomic replacement of a file, the rules file and its watcher
  (\<open>internal/route/rules.go\<close>), and \<open>UpdateGeo\<close> of \<open>internal/route/engine.go\<close>. The disk is a map from paths to
  contents. An operation that writes returns the states the disk goes through, so that a property of all
  of them holds for a reader, or after a crash, at any moment. HTTP answers, the digest, the protobuf
  decoder and failures of the disk are arguments, collected in the record \<open>geo_env\<close>.
\<close>

section \<open>Paths\<close>

text \<open>\<open>path/filepath\<close> on Unix: \<open>Clean\<close> works on the elements between slashes; the stack is reversed.\<close>

fun cleanLoop :: "bool \<Rightarrow> string list \<Rightarrow> string list \<Rightarrow> string list" where
  "cleanLoop rooted [] st = rev st"
| "cleanLoop rooted (e # es) st =
    (if e = [] \<or> e = ''.'' then cleanLoop rooted es st
     else if e = ''..'' then
       (case st of
          [] \<Rightarrow> cleanLoop rooted es (if rooted then [] else [e])
        | s # st' \<Rightarrow> cleanLoop rooted es (if s = ''..'' then e # st else st'))
     else cleanLoop rooted es (e # st))"

definition Clean :: "string \<Rightarrow> string" where
  "Clean path =
    (let rooted = HasPrefix path ''/'';
         out = (if rooted then ''/'' else []) @ Join (CHR ''/'') (cleanLoop rooted (Split (CHR ''/'') path) [])
     in if out = [] then ''.'' else out)"

definition filepathJoin :: "string \<Rightarrow> string \<Rightarrow> string" where
  "filepathJoin dir name = Clean (if dir = [] then name else dir @ ''/'' @ name)"

definition dirOf :: "string \<Rightarrow> string" where
  "dirOf path = (case LastIndexByte (CHR ''/'') path of Some i \<Rightarrow> take i path | None \<Rightarrow> ''.'')"

definition sitePath :: "string \<Rightarrow> string" where "sitePath geoDir = filepathJoin geoDir ''geosite.dat''"
definition ipPath :: "string \<Rightarrow> string" where "ipPath geoDir = filepathJoin geoDir ''geoip-lite.dat''"

section \<open>The disk\<close>

type_synonym files = "string \<rightharpoonup> bytes"

datatype file_read = NotExist | ReadError go_error | Content bytes

definition readFile :: "(string \<Rightarrow> go_error option) \<Rightarrow> files \<Rightarrow> string \<Rightarrow> file_read" where
  "readFile denied fs path =
    (case denied path of
       Some e \<Rightarrow> ReadError e
     | None \<Rightarrow> (case fs path of None \<Rightarrow> NotExist | Some d \<Rightarrow> Content d))"

text \<open>
  What the calls of one \<open>atomicWriteFile\<close> return: the random part of the temporary name, the number of
  bytes written when the write fails, and errors.
\<close>

record disk_env =
  deTemp :: "string result"
  deWrite :: "(nat \<times> go_error) option"
  deChmod :: "go_error option"
  deClose :: "go_error option"
  deRename :: "go_error option"

text \<open>\<open>os.CreateTemp\<close>: an empty directory stands for that of the system.\<close>

definition tempName :: "string \<Rightarrow> string \<Rightarrow> string \<Rightarrow> string" where
  "tempName tempDir dir r =
    (let d = (if dir = [] then tempDir else dir)
     in (if HasSuffix d ''/'' then d else d @ ''/'') @ ''.route-'' @ r @ ''.tmp'')"

definition atomicWriteFile :: "string \<Rightarrow> disk_env \<Rightarrow> string \<Rightarrow> bytes \<Rightarrow> files \<Rightarrow> go_error option \<times> files list" where
  "atomicWriteFile tempDir D path data fs =
    (case deTemp D of
       Inl e \<Rightarrow> (Some e, [])
     | Inr r \<Rightarrow>
         (let tmp = tempName tempDir (dirOf path) r;
              fs1 = fs(tmp \<mapsto> []);
              fs2 = fs1(tmp \<mapsto> data)
          in case deWrite D of
               Some (n, e) \<Rightarrow> (let fs' = fs1(tmp \<mapsto> take n data) in (Some e, [fs1, fs', fs'(tmp := None)]))
             | None \<Rightarrow>
                 (case deChmod D of
                    Some e \<Rightarrow> (Some e, [fs1, fs2, fs2(tmp := None)])
                  | None \<Rightarrow>
                      (case deClose D of
                         Some e \<Rightarrow> (Some e, [fs1, fs2, fs2(tmp := None)])
                       | None \<Rightarrow>
                           (case deRename D of
                              Some e \<Rightarrow> (Some e, [fs1, fs2, fs2(tmp := None)])
                            | None \<Rightarrow> (let fs' = (fs2(tmp := None))(path \<mapsto> data) in (None, [fs1, fs2, fs', fs'(tmp := None)])))))))"

section \<open>Downloads\<close>

datatype dl_client = DirectClient | UpdateClient

text \<open>The answer to a GET: an error, or a status with a body that may break off.\<close>

datatype http_reply = RequestFailed go_error | Reply int bytes "go_error option"

definition geoMaxBytes :: nat where "geoMaxBytes = 256 * 2 ^ 20"

definition geoMirrors :: "string list" where
  "geoMirrors = [''https://gh-proxy.org/'', ''https://gh-proxy.com/'']"

definition DefaultGeoSiteURL :: string where
  "DefaultGeoSiteURL = ''https://github.com/MetaCubeX/meta-rules-dat/releases/download/latest/geosite.dat''"

definition DefaultGeoIPURL :: string where
  "DefaultGeoIPURL = ''https://github.com/MetaCubeX/meta-rules-dat/releases/download/latest/geoip-lite.dat''"

record 'r geo_env =
  geURL :: "'r url_lib"
  geGet :: "dl_client \<Rightarrow> string \<Rightarrow> http_reply"
  geSHA1 :: "bytes \<Rightarrow> bytes"
  geSites :: "bytes \<Rightarrow> GeoSite option list option"
  geIPs :: "bytes \<Rightarrow> GeoIP option list option"
  geDenied :: "string \<Rightarrow> go_error option"
  geStatErr :: "string \<Rightarrow> go_error option"
  geMkdir :: "go_error option"
  geTempDir :: string
  geDisk :: "string \<Rightarrow> disk_env"

text \<open>\<open>io.ReadAll(io.LimitReader(body, geoMaxBytes))\<close> sees an error of the body only before the limit.\<close>

definition fetch :: "'r geo_env \<Rightarrow> dl_client \<Rightarrow> string \<Rightarrow> bytes result" where
  "fetch G client url =
    (case geGet G client url of
       RequestFailed e \<Rightarrow> Inl e
     | Reply status body err \<Rightarrow>
         if status \<noteq> 200 then Inl (Errorf ''HTTP status'')
         else if length body \<ge> geoMaxBytes then Inr (take geoMaxBytes body)
         else (case err of Some e \<Rightarrow> Inl e | None \<Rightarrow> Inr body))"

definition isLocalDownloadURL :: "'r geo_env \<Rightarrow> string \<Rightarrow> bool" where
  "isLocalDownloadURL G rawURL =
    (case url_Parse (geURL G) rawURL of
       Inl _ \<Rightarrow> False
     | Inr u \<Rightarrow>
         (let host = urlHostname u
          in host = ''localhost'' \<or> (case ParseIP host of Some ip \<Rightarrow> netIsLoopback ip | None \<Rightarrow> False)))"

fun mirrorLoop :: "'r geo_env \<Rightarrow> string \<Rightarrow> string list \<Rightarrow> bytes option" where
  "mirrorLoop G rawURL [] = None"
| "mirrorLoop G rawURL (m # ms) =
    (if m = [] then mirrorLoop G rawURL ms
     else (case fetch G DirectClient (m @ rawURL) of Inr data \<Rightarrow> Some data | Inl _ \<Rightarrow> mirrorLoop G rawURL ms))"

definition downloadWithMirrors :: "'r geo_env \<Rightarrow> string \<Rightarrow> bytes result" where
  "downloadWithMirrors G rawURL =
    (if isLocalDownloadURL G rawURL then fetch G DirectClient rawURL
     else
       (case mirrorLoop G rawURL geoMirrors of
          Some data \<Rightarrow> Inr data
        | None \<Rightarrow> fetch G UpdateClient rawURL))"

definition validateGeoSite :: "'r geo_env \<Rightarrow> bytes \<Rightarrow> bool" where "validateGeoSite G data \<longleftrightarrow> geSites G data \<noteq> None"
definition validateGeoIP :: "'r geo_env \<Rightarrow> bytes \<Rightarrow> bool" where "validateGeoIP G data \<longleftrightarrow> geIPs G data \<noteq> None"

definition validateRules :: "unicode_lib \<Rightarrow> bytes \<Rightarrow> bool" where
  "validateRules U data = (case ParseRules U (str_of data) of Inr _ \<Rightarrow> True | Inl _ \<Rightarrow> False)"

definition updateOne :: "'r geo_env \<Rightarrow> string \<Rightarrow> string \<Rightarrow> (bytes \<Rightarrow> bool) \<Rightarrow> files \<Rightarrow> bool result \<times> files list" where
  "updateOne G url dst validate fs =
    (case downloadWithMirrors G url of
       Inl e \<Rightarrow> (Inl e, [])
     | Inr data \<Rightarrow>
         (let write =
            (if \<not> validate data then (Inl (Errorf ''validation failed''), [])
             else
               (case atomicWriteFile (geTempDir G) (geDisk G dst) dst data fs of
                  (Some e, tr) \<Rightarrow> (Inl e, tr)
                | (None, tr) \<Rightarrow> (Inr True, tr)))
          in case readFile (geDenied G) fs dst of
               Content existing \<Rightarrow> if geSHA1 G existing = geSHA1 G data then (Inr False, []) else write
             | ReadError e \<Rightarrow> (Inl e, [])
             | NotExist \<Rightarrow> write))"

text \<open>The result is the pair of \<open>updated\<close> and the error, and the states of the disk.\<close>

definition UpdateGeoData :: "'r geo_env \<Rightarrow> string \<Rightarrow> string \<Rightarrow> string \<Rightarrow> files \<Rightarrow> (bool \<times> go_error option) \<times> files list" where
  "UpdateGeoData G geoDir siteURL ipURL fs =
    (case geMkdir G of
       Some e \<Rightarrow> ((False, Some e), [])
     | None \<Rightarrow>
         (case (if siteURL \<noteq> [] then updateOne G siteURL (sitePath geoDir) (validateGeoSite G) fs else (Inr False, [])) of
            (Inl e, tr) \<Rightarrow> ((False, Some e), tr)
          | (Inr updated, tr) \<Rightarrow>
              (case (if ipURL \<noteq> [] then updateOne G ipURL (ipPath geoDir) (validateGeoIP G) (last (fs # tr)) else (Inr False, [])) of
                 (Inl e, tr') \<Rightarrow> ((updated, Some e), tr @ tr')
               | (Inr ok, tr') \<Rightarrow> ((updated \<or> ok, None), tr @ tr'))))"

definition DownloadDefaultRules :: "unicode_lib \<Rightarrow> 'r geo_env \<Rightarrow> string \<Rightarrow> string \<Rightarrow> files \<Rightarrow> (bool \<times> go_error option) \<times> files list" where
  "DownloadDefaultRules U G path url fs =
    (if url = [] then ((False, Some (Errorf ''empty URL'')), [])
     else
       (case geMkdir G of
          Some e \<Rightarrow> ((False, Some e), [])
        | None \<Rightarrow>
            (case updateOne G url path (validateRules U) fs of
               (Inl e, tr) \<Rightarrow> ((False, Some e), tr)
             | (Inr updated, tr) \<Rightarrow> ((updated, None), tr))))"

section \<open>Loading\<close>

definition LoadGeoSite :: "unicode_lib \<Rightarrow> (string \<Rightarrow> (string \<Rightarrow> bool) option) \<Rightarrow> 'r geo_env \<Rightarrow> files \<Rightarrow> string \<Rightarrow> GeoSiteDB result" where
  "LoadGeoSite U compile G fs path =
    (case readFile (geDenied G) fs path of
       Content d \<Rightarrow> geoSiteFromBytes U compile (geSites G d)
     | ReadError e \<Rightarrow> Inl e
     | NotExist \<Rightarrow> Inl (Errorf ''no such file''))"

definition LoadGeoIP :: "unicode_lib \<Rightarrow> slice_sort \<Rightarrow> 'r geo_env \<Rightarrow> files \<Rightarrow> string \<Rightarrow> GeoIPDB result" where
  "LoadGeoIP U sort_Slice G fs path =
    (case readFile (geDenied G) fs path of
       Content d \<Rightarrow> geoIPFromBytes U sort_Slice (geIPs G d)
     | ReadError e \<Rightarrow> Inl e
     | NotExist \<Rightarrow> Inl (Errorf ''no such file''))"

definition UpdateGeo ::
  "unicode_lib \<Rightarrow> (string \<Rightarrow> (string \<Rightarrow> bool) option) \<Rightarrow> slice_sort \<Rightarrow> 'r geo_env \<Rightarrow> string \<Rightarrow> Engine \<Rightarrow> files \<Rightarrow>
   (bool \<times> go_error option) \<times> Engine \<times> files" where
  "UpdateGeo U compile sort_Slice G geoDir e fs =
    (case UpdateGeoData G geoDir DefaultGeoSiteURL DefaultGeoIPURL fs of
       ((updated, err), tr) \<Rightarrow>
         (let fs' = last (fs # tr) in
          if err = None \<and> updated
          then ((updated, err),
                loadGeoDBs e (LoadGeoSite U compile G fs' (sitePath geoDir)) (LoadGeoIP U sort_Slice G fs' (ipPath geoDir)), fs')
          else ((updated, err), e, fs')))"

definition EnsureRulesFile :: "'r geo_env \<Rightarrow> bytes \<Rightarrow> string \<Rightarrow> files \<Rightarrow> bool result \<times> files list" where
  "EnsureRulesFile G defaultRules path fs =
    (case readFile (geStatErr G) fs path of
       Content _ \<Rightarrow> (Inr False, [])
     | ReadError e \<Rightarrow> (Inl e, [])
     | NotExist \<Rightarrow>
         (case atomicWriteFile (geTempDir G) (geDisk G path) path defaultRules fs of
            (Some e, tr) \<Rightarrow> (Inl e, tr)
          | (None, tr) \<Rightarrow> (Inr True, tr)))"

definition LoadRulesFile :: "unicode_lib \<Rightarrow> file_read \<Rightarrow> Rule list option" where
  "LoadRulesFile U read =
    (case read of
       Content d \<Rightarrow> (case ParseRules U (str_of d) of Inr rules \<Rightarrow> Some rules | Inl _ \<Rightarrow> None)
     | _ \<Rightarrow> None)"

text \<open>
  One tick of the watcher: \<open>seen\<close> is the digest and modification time it knows, \<open>stat\<close> what \<open>fileState\<close> finds
  now (\<open>None\<close>: missing or unreadable), \<open>read\<close> what \<open>LoadRulesFile\<close> reads after it. The callback of \<open>NewEngine\<close>
  applies rules that parse.
\<close>

definition watchTick ::
  "unicode_lib \<Rightarrow> (bytes \<Rightarrow> string) \<Rightarrow> (bytes \<times> int) option \<Rightarrow> file_read \<Rightarrow> (string \<times> int) \<times> Engine \<Rightarrow> (string \<times> int) \<times> Engine" where
  "watchTick U sha256 stat read s =
    (case s of
       (seen, e) \<Rightarrow>
         (case stat of
            None \<Rightarrow> (seen, e)
          | Some (data, mtime) \<Rightarrow>
              if (sha256 data, mtime) = seen then (seen, e)
              else ((sha256 data, mtime), case LoadRulesFile U read of Some rules \<Rightarrow> applyRules e rules | None \<Rightarrow> e)))"
section \<open>Lemmas\<close>

lemma Split_snoc: "c \<notin> set t \<Longrightarrow> Split c (s @ c # t) = Split c s @ [t]"
  by (induction s) (auto simp: Split_no_sep split: list.splits)

lemma cleanLoop_snoc:
  "n \<notin> {[], ''.'', ''..''} \<Longrightarrow> \<exists>es'. cleanLoop rooted (es @ [n]) st = es' @ [n]"
  by (induction rooted es st rule: cleanLoop.induct) (auto split: list.split)

lemma Join_snoc_suffix: "\<exists>pre. Join c (es @ [n]) = pre @ n"
proof (induction es)
  case (Cons e es)
  then show ?case by (cases es) auto
qed simp

lemma filepathJoin_suffix:
  assumes "CHR ''/'' \<notin> set n" "n \<notin> {[], ''.'', ''..''}"
  shows "\<exists>pre. filepathJoin dir n = pre @ n"
proof -
  let ?p = "if dir = [] then n else dir @ ''/'' @ n"
  have "\<exists>es. Split (CHR ''/'') ?p = es @ [n]"
    using assms(1) by (auto simp: Split_no_sep Split_snoc)
  then obtain es where "cleanLoop (HasPrefix ?p ''/'') (Split (CHR ''/'') ?p) [] = es @ [n]"
    using cleanLoop_snoc [OF assms(2)] by metis
  moreover obtain pre where "Join (CHR ''/'') (es @ [n]) = pre @ n" using Join_snoc_suffix by blast
  ultimately show ?thesis using assms(2) by (auto simp: filepathJoin_def Clean_def Let_def)
qed

lemma HasSuffix_append: "HasSuffix (a @ b) b" by (simp add: HasSuffix_def)

lemma HasSuffix_last: "HasSuffix s p \<Longrightarrow> p \<noteq> [] \<Longrightarrow> last s = last p"
  unfolding HasSuffix_def by (metis append_take_drop_id last_append)

lemma database_paths:
  "\<not> HasSuffix (sitePath dir) ''.tmp''" "\<not> HasSuffix (ipPath dir) ''.tmp''" "sitePath dir \<noteq> ipPath dir"
proof -
  obtain a where a: "sitePath dir = a @ ''geosite.dat''"
    using filepathJoin_suffix [of "''geosite.dat''" dir] by (auto simp: sitePath_def)
  obtain b where b: "ipPath dir = b @ ''geoip-lite.dat''"
    using filepathJoin_suffix [of "''geoip-lite.dat''" dir] by (auto simp: ipPath_def)
  show "\<not> HasSuffix (sitePath dir) ''.tmp''" "\<not> HasSuffix (ipPath dir) ''.tmp''"
    using HasSuffix_last [of "a @ ''geosite.dat''" "''.tmp''"] HasSuffix_last [of "b @ ''geoip-lite.dat''" "''.tmp''"]
    by (auto simp: a b)
  have "rev (sitePath dir) ! 7 \<noteq> rev (ipPath dir) ! 7" by (simp add: a b)
  then show "sitePath dir \<noteq> ipPath dir" by metis
qed

lemma tempName_suffix: "HasSuffix (tempName tempDir dir r) ''.tmp''"
proof -
  have "tempName tempDir dir r = ((if HasSuffix (if dir = [] then tempDir else dir) ''/'' then (if dir = [] then tempDir else dir)
      else (if dir = [] then tempDir else dir) @ ''/'') @ ''.route-'' @ r) @ ''.tmp''" by (simp add: tempName_def Let_def)
  then show ?thesis using HasSuffix_append by metis
qed

text \<open>Every state during an atomic write shows the old file or the new one.\<close>

lemma atomicWriteFile_states:
  assumes "atomicWriteFile tempDir D path data fs = (err, tr)" "\<not> HasSuffix path ''.tmp''"
  shows "(\<forall>fs'\<in>set tr. (\<forall>p. p \<noteq> path \<and> \<not> HasSuffix p ''.tmp'' \<longrightarrow> fs' p = fs p) \<and>
      (fs' path = fs path \<or> err = None \<and> fs' path = Some data)) \<and>
    last (fs # tr) path = (if err = None then Some data else fs path)"
proof (cases "deTemp D")
  case (Inr r)
  let ?tmp = "tempName tempDir (dirOf path) r"
  have "HasSuffix ?tmp ''.tmp''" by (rule tempName_suffix)
  then have "?tmp \<noteq> path" "\<And>p. \<not> HasSuffix p ''.tmp'' \<Longrightarrow> p \<noteq> ?tmp" using assms(2) by metis+
  then show ?thesis using assms(1) Inr by (auto simp: atomicWriteFile_def Let_def split: option.splits)
qed (use assms in \<open>auto simp: atomicWriteFile_def\<close>)

lemma updateOne_states:
  assumes "updateOne G url dst validate fs = (r, tr)" "\<not> HasSuffix dst ''.tmp''"
  shows "(\<forall>fs'\<in>set tr. (\<forall>p. p \<noteq> dst \<and> \<not> HasSuffix p ''.tmp'' \<longrightarrow> fs' p = fs p) \<and>
      (fs' dst = fs dst \<or> (\<exists>d. fs' dst = Some d \<and> validate d \<and> downloadWithMirrors G url = Inr d))) \<and>
    (\<forall>b. r = Inr b \<longrightarrow> (\<exists>d x. downloadWithMirrors G url = Inr d \<and> last (fs # tr) dst = Some x \<and> geSHA1 G x = geSHA1 G d)) \<and>
    (r = Inr False \<longrightarrow> tr = []) \<and> (\<forall>e. r = Inl e \<longrightarrow> last (fs # tr) dst = fs dst)"
proof (cases "downloadWithMirrors G url")
  case (Inr d)
  obtain err w where w: "atomicWriteFile (geTempDir G) (geDisk G dst) dst d fs = (err, w)"
    by (cases "atomicWriteFile (geTempDir G) (geDisk G dst) dst d fs")
  show ?thesis
    using assms(1) atomicWriteFile_states [OF w assms(2)] Inr w
    by (cases "readFile (geDenied G) fs dst"; cases err)
      (auto simp: updateOne_def Let_def readFile_def split: if_splits option.splits)
qed (use assms in \<open>auto simp: updateOne_def\<close>)

text \<open>The order of the sources, and where the data of a download come from.\<close>

lemma mirrorLoop_first:
  "mirrorLoop G url ms = Some d \<longleftrightarrow>
    (\<exists>before m after. filter (\<lambda>m. m \<noteq> []) ms = before @ m # after \<and> fetch G DirectClient (m @ url) = Inr d \<and>
      (\<forall>m'\<in>set before. \<exists>e. fetch G DirectClient (m' @ url) = Inl e))"
proof (induction ms)
  case (Cons m ms)
  show ?case
  proof (cases "m = [] \<or> (\<exists>e. fetch G DirectClient (m @ url) = Inl e)")
    case True
    with Cons show ?thesis
      by (auto simp: Cons_eq_append_conv) (metis list.set_intros(1) set_ConsD)+
  next
    case False
    then obtain x where "m \<noteq> []" "fetch G DirectClient (m @ url) = Inr x" by (metis sum.exhaust_sel)
    then show ?thesis by (auto simp: Cons_eq_append_conv intro: exI [of _ "[]"])
  qed
qed simp

section \<open>Properties\<close>

text \<open>
  C35. The databases on disk are whole at every moment. In each state the disk goes through during an update,
  so also for the engine that loads them meanwhile and after a crash, each of the two files is the one from
  before the update or a complete download that passed its check, whatever the sources answer and
  whichever call to the disk fails; no other file but temporary ones is touched. When the update reports
  no error, each file it was asked for has the digest of the download.
\<close>

lemma geo_files_always_whole:
  assumes "UpdateGeoData G dir siteURL ipURL fs = ((updated, err), tr)"
  shows "(\<forall>fs'\<in>set tr.
      (fs' (sitePath dir) = fs (sitePath dir) \<or>
        (\<exists>d. fs' (sitePath dir) = Some d \<and> validateGeoSite G d \<and> downloadWithMirrors G siteURL = Inr d)) \<and>
      (fs' (ipPath dir) = fs (ipPath dir) \<or>
        (\<exists>d. fs' (ipPath dir) = Some d \<and> validateGeoIP G d \<and> downloadWithMirrors G ipURL = Inr d)) \<and>
      (\<forall>p. p \<noteq> sitePath dir \<and> p \<noteq> ipPath dir \<and> \<not> HasSuffix p ''.tmp'' \<longrightarrow> fs' p = fs p)) \<and>
    (err = None \<and> siteURL \<noteq> [] \<longrightarrow>
      (\<exists>d x. downloadWithMirrors G siteURL = Inr d \<and> last (fs # tr) (sitePath dir) = Some x \<and> geSHA1 G x = geSHA1 G d)) \<and>
    (err = None \<and> ipURL \<noteq> [] \<longrightarrow>
      (\<exists>d x. downloadWithMirrors G ipURL = Inr d \<and> last (fs # tr) (ipPath dir) = Some x \<and> geSHA1 G x = geSHA1 G d))"
proof -
  let ?s = "sitePath dir" and ?i = "ipPath dir"
  obtain r1 tr1 where one: "(if siteURL \<noteq> [] then updateOne G siteURL ?s (validateGeoSite G) fs else (Inr False, [])) = (r1, tr1)"
    by fastforce
  obtain r2 tr2 where two: "(if ipURL \<noteq> [] then updateOne G ipURL ?i (validateGeoIP G) (last (fs # tr1)) else (Inr False, [])) = (r2, tr2)"
    by fastforce
  define ok where "ok fs' \<longleftrightarrow> (fs' ?s = fs ?s \<or> (\<exists>d. fs' ?s = Some d \<and> validateGeoSite G d \<and> downloadWithMirrors G siteURL = Inr d)) \<and>
      (\<forall>p. p \<noteq> ?s \<and> \<not> HasSuffix p ''.tmp'' \<longrightarrow> fs' p = fs p)" for fs' :: files
  have ok1: "\<forall>fs'\<in>set tr1. ok fs'"
    using one updateOne_states [of G siteURL ?s "validateGeoSite G" fs r1 tr1] database_paths(1) [of dir] by (auto simp: ok_def split: if_splits)
  then have ok: "ok (last (fs # tr1))" by (cases tr1 rule: rev_cases) (auto simp: ok_def)
  have ok2: "(\<forall>p. p \<noteq> ?i \<and> \<not> HasSuffix p ''.tmp'' \<longrightarrow> fs' p = last (fs # tr1) p) \<and>
      (fs' ?i = last (fs # tr1) ?i \<or> (\<exists>d. fs' ?i = Some d \<and> validateGeoIP G d \<and> downloadWithMirrors G ipURL = Inr d))" if "fs' \<in> set tr2" for fs'
    using two updateOne_states [of G ipURL ?i "validateGeoIP G" "last (fs # tr1)" r2 tr2] database_paths(2) [of dir] that
    by (auto split: if_splits)
  have tr: "set tr \<subseteq> set tr1 \<union> set tr2" "err = None \<Longrightarrow> tr = tr1 @ tr2 \<and> (\<exists>b1 b2. r1 = Inr b1 \<and> r2 = Inr b2)"
    using assms one two by (auto simp: UpdateGeoData_def split: option.splits sum.splits)
  have paths: "?i \<noteq> ?s" "\<not> HasSuffix ?i ''.tmp''" "\<not> HasSuffix ?s ''.tmp''" using database_paths [of dir] by metis+
  have last_i: "last (fs # tr1) ?i = fs ?i" using ok paths unfolding ok_def by blast
  have "(fs' ?s = fs ?s \<or> (\<exists>d. fs' ?s = Some d \<and> validateGeoSite G d \<and> downloadWithMirrors G siteURL = Inr d)) \<and>
      (fs' ?i = fs ?i \<or> (\<exists>d. fs' ?i = Some d \<and> validateGeoIP G d \<and> downloadWithMirrors G ipURL = Inr d)) \<and>
      (\<forall>p. p \<noteq> ?s \<and> p \<noteq> ?i \<and> \<not> HasSuffix p ''.tmp'' \<longrightarrow> fs' p = fs p)" if "fs' \<in> set tr" for fs'
  proof (cases "fs' \<in> set tr1")
    case True
    with ok1 paths show ?thesis unfolding ok_def by blast
  next
    case False
    with tr(1) that have "fs' \<in> set tr2" by blast
    note two = ok2 [OF this]
    then have "fs' ?s = last (fs # tr1) ?s" using paths by metis
    with ok two last_i show ?thesis unfolding ok_def by metis
  qed
  moreover have "\<exists>d x. downloadWithMirrors G ipURL = Inr d \<and> last (fs # tr) ?i = Some x \<and> geSHA1 G x = geSHA1 G d"
    if "err = None" "ipURL \<noteq> []"
    using that tr(2) two updateOne_states [of G ipURL ?i "validateGeoIP G" "last (fs # tr1)" r2 tr2] database_paths(2) [of dir]
    by (auto simp: last_append)
  moreover have "\<exists>d x. downloadWithMirrors G siteURL = Inr d \<and> last (fs # tr) ?s = Some x \<and> geSHA1 G x = geSHA1 G d"
    if "err = None" "siteURL \<noteq> []"
  proof -
    have "last (fs # tr) ?s = last (fs # tr1) ?s"
      using tr(2) [OF that(1)] ok2 [of "last tr2"] database_paths [of dir] by (cases "tr2 = []") (auto simp: last_append)
    then show ?thesis
      using that tr(2) one updateOne_states [of G siteURL ?s "validateGeoSite G" fs r1 tr1] database_paths(1) [of dir] by auto
  qed
  ultimately show ?thesis by blast
qed

lemma updateOne_same:
  assumes "downloadWithMirrors G url = Inr d" "geDenied G dst = None" "fs dst = Some x" "geSHA1 G x = geSHA1 G d"
  shows "updateOne G url dst validate fs = (Inr False, [])"
  using assms by (simp add: updateOne_def readFile_def)

lemma default_urls: "DefaultGeoSiteURL \<noteq> []" "DefaultGeoIPURL \<noteq> []"
  by (simp_all add: DefaultGeoSiteURL_def DefaultGeoIPURL_def)

text \<open>
  A half-failed update leaves the engine behind its files. When the first database was replaced and the
  download of the second fails, \<open>UpdateGeo\<close> returns without loading anything; and an update that finds both
  sources unchanged afterwards reports that there was nothing to do, so the new database stays unused.
\<close>

lemma geo_update_stale:
  assumes "UpdateGeo U compile sort_Slice G dir e fs = ((True, Some err), e1, fs1)"
    and "geMkdir G' = None" "geDenied G' = (\<lambda>_. None)" "geSHA1 G' = geSHA1 G"
    and "downloadWithMirrors G' DefaultGeoSiteURL = downloadWithMirrors G DefaultGeoSiteURL"
    and "fs1 (ipPath dir) = Some ipData" "downloadWithMirrors G' DefaultGeoIPURL = Inr ipData"
  shows "(\<exists>d x. downloadWithMirrors G DefaultGeoSiteURL = Inr d \<and> fs1 (sitePath dir) = Some x \<and> geSHA1 G x = geSHA1 G d) \<and>
    UpdateGeo U compile sort_Slice G' dir e1 fs1 = ((False, None), e, fs1)"
proof -
  obtain tr where data: "UpdateGeoData G dir DefaultGeoSiteURL DefaultGeoIPURL fs = ((True, Some err), tr)" "fs1 = last (fs # tr)" "e1 = e"
    using assms(1) by (auto simp: UpdateGeo_def Let_def split: prod.splits if_splits)
  obtain r1 tr1 where one: "updateOne G DefaultGeoSiteURL (sitePath dir) (validateGeoSite G) fs = (r1, tr1)" by fastforce
  obtain r2 tr2 where two: "updateOne G DefaultGeoIPURL (ipPath dir) (validateGeoIP G) (last (fs # tr1)) = (r2, tr2)" by fastforce
  have r: "r1 = Inr True" "tr = tr1 @ tr2"
    using data(1) one two default_urls by (auto simp: UpdateGeoData_def split: option.splits sum.splits)
  have "last (fs # tr) (sitePath dir) = last (fs # tr1) (sitePath dir)"
    using updateOne_states [OF two database_paths(2)] database_paths [of dir] r(2) by (cases "tr2 = []") (auto simp: last_append)
  then obtain d x where x: "downloadWithMirrors G DefaultGeoSiteURL = Inr d" "fs1 (sitePath dir) = Some x" "geSHA1 G x = geSHA1 G d"
    using updateOne_states [OF one database_paths(1)] r(1) data(2) by auto
  then have "UpdateGeoData G' dir DefaultGeoSiteURL DefaultGeoIPURL fs1 = ((False, None), [])"
    using assms(2-7) by (simp add: UpdateGeoData_def default_urls updateOne_same)
  then show ?thesis using x data(3) by (simp add: UpdateGeo_def)
qed

text \<open>
  The watcher applies a changed rules file at its next tick, keeps the old rules when the new text does not
  parse or the file is missing, and never touches the databases or the counters.
\<close>

lemma watchTick_applies:
  assumes "watchTick U sha256 stat read (seen, e) = (seen', e')"
  shows "(\<forall>data mtime. stat = Some (data, mtime) \<and> (sha256 data, mtime) \<noteq> seen \<longrightarrow>
      seen' = (sha256 data, mtime) \<and>
      e' = (case read of Content d \<Rightarrow> snd (Reload U e (str_of d)) | _ \<Rightarrow> e)) \<and>
    (stat = None \<longrightarrow> (seen', e') = (seen, e)) \<and>
    eGeoSite e' = eGeoSite e \<and> eGeoIP e' = eGeoIP e \<and> statsProxy e' = statsProxy e"
  using assms
  by (cases stat; cases read) (auto simp: watchTick_def LoadRulesFile_def Reload_def applyRules_def split: if_splits option.splits sum.splits)

text \<open>A rules file that exists is never replaced by the default; one that is missing is created whole.\<close>

lemma EnsureRulesFile_keeps:
  assumes "EnsureRulesFile G defaultRules path fs = (r, tr)" "\<not> HasSuffix path ''.tmp''"
  shows "(fs path \<noteq> None \<longrightarrow> tr = []) \<and> (\<forall>fs'\<in>set tr. fs' path = fs path \<or> fs' path = Some defaultRules)"
proof -
  obtain err w where w: "atomicWriteFile (geTempDir G) (geDisk G path) path defaultRules fs = (err, w)" by fastforce
  show ?thesis
    using assms(1) atomicWriteFile_states [OF w assms(2)] w
    by (cases err) (auto simp: EnsureRulesFile_def readFile_def split: option.splits)
qed

section \<open>Witnesses\<close>

text \<open>The mirrors are down; the second source answers in one of two environments only.\<close>

definition wit_env :: "bool \<Rightarrow> unit geo_env" where
  "wit_env up =
    \<lparr>geURL = \<lparr>url_Parse = (\<lambda>_. Inl EOF), url_String = (\<lambda>_. [])\<rparr>,
     geGet = (\<lambda>c u. if c = DirectClient then RequestFailed EOF
                    else if u = DefaultGeoSiteURL then Reply 200 [1] None
                    else if up then Reply 200 [7] None else RequestFailed EOF),
     geSHA1 = (\<lambda>d. d), geSites = (\<lambda>_. Some []), geIPs = (\<lambda>_. Some []), geDenied = (\<lambda>_. None), geStatErr = (\<lambda>_. None),
     geMkdir = None, geTempDir = ''/tmp'',
     geDisk = (\<lambda>_. \<lparr>deTemp = Inr ''1'', deWrite = None, deChmod = None, deClose = None, deRename = None\<rparr>)\<rparr>"

lemma wit_downloads:
  "downloadWithMirrors (wit_env up) DefaultGeoSiteURL = Inr [1]"
  "downloadWithMirrors (wit_env up) DefaultGeoIPURL = (if up then Inr [7] else Inl EOF)"
proof -
  have "DefaultGeoIPURL \<noteq> DefaultGeoSiteURL" by (simp add: DefaultGeoSiteURL_def DefaultGeoIPURL_def)
  then show "downloadWithMirrors (wit_env up) DefaultGeoSiteURL = Inr [1]"
    "downloadWithMirrors (wit_env up) DefaultGeoIPURL = (if up then Inr [7] else Inl EOF)"
    by (simp_all add: downloadWithMirrors_def isLocalDownloadURL_def geoMirrors_def fetch_def wit_env_def geoMaxBytes_def)
qed

lemma wit_fields [simp]:
  "geMkdir (wit_env up) = None" "geDenied (wit_env up) = (\<lambda>_. None)" "geSHA1 (wit_env up) = (\<lambda>d. d)"
  "validateGeoSite (wit_env up) d" "validateGeoIP (wit_env up) d"
  by (simp_all add: wit_env_def validateGeoSite_def validateGeoIP_def)

lemma wit_write:
  assumes "\<not> HasSuffix dst ''.tmp''"
  shows "\<exists>tr. atomicWriteFile (geTempDir (wit_env up)) (geDisk (wit_env up) dst) dst data fs = (None, tr) \<and> tr \<noteq> [] \<and> last tr dst = Some data"
proof -
  obtain tr where tr: "atomicWriteFile (geTempDir (wit_env up)) (geDisk (wit_env up) dst) dst data fs = (None, tr)" "tr \<noteq> []"
    by (simp add: atomicWriteFile_def wit_env_def Let_def)
  then show ?thesis using atomicWriteFile_states [OF tr(1) assms] by auto
qed

lemma geo_files_always_whole_witness:
  "\<exists>tr. UpdateGeoData (wit_env True) ''d'' DefaultGeoSiteURL [] Map.empty = ((True, None), tr) \<and> tr \<noteq> [] \<and>
    last tr (sitePath ''d'') = Some [1]"
proof -
  obtain tr where "updateOne (wit_env True) DefaultGeoSiteURL (sitePath ''d'') (validateGeoSite (wit_env True)) Map.empty = (Inr True, tr)"
      "tr \<noteq> []"
    using wit_write [OF database_paths(1), of True "''d''" "[1]" Map.empty] by (auto simp: updateOne_def wit_downloads readFile_def)
  then have "UpdateGeoData (wit_env True) ''d'' DefaultGeoSiteURL [] Map.empty = ((True, None), tr)" "tr \<noteq> []"
    by (simp_all add: UpdateGeoData_def default_urls)
  with geo_files_always_whole [OF this(1)] show ?thesis by (auto simp: wit_downloads default_urls)
qed


end
