(* ===== verification/Spec2Isabelle.thy ===== *)
theory Spec2Isabelle
  imports Handshake Wire_Tai64n Datagram Selector Rotation Sni_Sniff Socks5_Udp Stream_Open Dns_Cache
    Log_Ring Control Quic_Server Client_Pool
    Ws_Conn Pacer Route_Files
begin

text \<open>
  A verification development for x-tunnel, a TCP and UDP tunnel over WebSocket or QUIC with its own
  encrypted record layer, written in Go (sources under \<open>src/\<close>).

  \<^bold>\<open>The program.\<close> A client opens a pool of channels to a server. Each channel is a WebSocket (\<open>wss\<close>, with
  \<open>smux\<close> streams) or a QUIC session; a handshake on its first stream authenticates it by a token and
  agrees on keys. Local listeners (SOCKS5, HTTP, fixed TCP forwards) accept connections; a routing engine
  decides for each target whether it is tunnelled, connected directly or rejected; a tunnelled target
  gets a stream of the best channel, which starts with a header naming the target and is encrypted record
  by record. The server checks the target against its policy, dials it, perhaps through an upstream SOCKS5
  proxy, answers with a status and relays bytes or UDP packets. Around this stand the configuration, the
  engine that starts and stops listeners, a control API and a log.

  \<^bold>\<open>How it is modelled.\<close> Each Go function is one HOL function of the same name, with the guards and early
  returns of the code in their order; a long function is cut into named parts at its loops or where it
  gives up a lock. Structs are records, enumerations words or datatypes, fixed-width integers words, or
  integers brought back to their width by \<open>int64\<close>; strings and byte slices are lists. Errors are the left
  side of a sum. State is passed explicitly. Code that runs in several goroutines (the engine, a UDP
  association, the DNS cache, the datagram relay) is a transition system whose steps are the critical
  sections and the calls that block between them, in any interleaving; other operations run under a mutex
  and are atomic. Clock readings, random numbers and the outcomes of network calls are arguments.

  \<^bold>\<open>Library theories.\<close>
  \<^item> \<open>Prelude\<close>: bytes, words, results, readers and writers, the collection \<open>codec\<close>.
  \<^item> \<open>Go_Net\<close>, \<open>Go_Netip\<close>, \<open>Go_Base64\<close>, \<open>Go_Url\<close>, \<open>Go_Http\<close>: what the program uses of the Go library.
  \<^item> \<open>Wire_Crypto\<close>: the cryptographic primitives as a record of functions, and what is relied on of them.

  \<^bold>\<open>The wire\<close> (\<open>internal/wire\<close>, \<open>internal/netaddr\<close>).
  \<^item> \<open>Netaddr\<close> (\<open>netaddr.go\<close>): host name and port syntax.
  \<^item> \<open>Wire_Protocol\<close> (\<open>protocol.go\<close>): chunks, stream headers, open status, UDP replies and the write loops;
    round trips over any writer that keeps the contract of \<open>io.Writer\<close>, and that the loops return.
  \<^item> \<open>Wire_Tai64n\<close> (\<open>protocol_tai64n.go\<close>): timestamps, their round trip and order.
  \<^item> \<open>Wire_V2\<close>, \<open>Wire_V3\<close> (\<open>protocol_v2.go\<close>, \<open>protocol_v3.go\<close>): TLV records, messages, transcripts, proofs and
    key schedule; the parser accepts exactly the encodings of distinct records, messages are read back, and
    a transcript determines every field that enters it.
  \<^item> \<open>Replay_Window\<close>, \<open>Cipher_Stream\<close> (\<open>cipher_stream.go\<close>): the window implements the abstract set of accepted
    counters; writes are read back exactly across padding, coalescing and rekeying; counters never repeat;
    arbitrary input yields only authenticated, fresh records.

  \<^bold>\<open>The handshake\<close> (\<open>internal/app/server.go\<close>, \<open>client.go\<close>, \<open>tai64n_cache.go\<close>).
  \<^item> \<open>Server_Caches\<close>: nonce cache, label cache and session table with their limits.
  \<^item> \<open>Handshake\<close>: \<open>handlePreAuthTransportSession\<close> and \<open>negotiateClientProtocol\<close>; agreement on keys, completion
    for honest clients, no effect without the token, no replay within the window.
  \<^item> \<open>Quic_Server\<close>: the entry points, the names they authenticate under, and \<open>handleQuicDatagrams\<close>.
  \<^item> \<open>Client_Pool\<close>: \<open>ECHPool\<close>, its slots, timestamps and the loop \<open>dialAndServe\<close>.

  \<^bold>\<open>Transports\<close> (\<open>internal/transport\<close>).
  \<^item> \<open>Datagram\<close> (\<open>datagram.go\<close>): codec, fragmentation and reassembly in any order.
  \<^item> \<open>Rotation\<close> (\<open>rotation.go\<close>), \<open>Selector\<close> (\<open>selector.go\<close>): endpoints with probation, QUIC with fallback.
  \<^item> \<open>Ws_Conn\<close> (\<open>tcp_transport.go\<close>, \<open>quic_transport.go\<close>, and \<open>internal/app/transport_ws.go\<close>): WebSocket
    connections as byte streams, and the addresses that are dialled.
  \<^item> \<open>Pacer\<close> (\<open>internal/app/pacer.go\<close>, \<open>keepalive.go\<close>): the rate limit and the keep-alive jitter.

  \<^bold>\<open>Streams and local proxies\<close> (\<open>internal/app\<close>).
  \<^item> \<open>Policy\<close> (\<open>policy.go\<close>): the access decision.
  \<^item> \<open>Stream_Open\<close> (\<open>client.go\<close>, \<open>server.go\<close>, \<open>route.go\<close>): choice of a channel, the opening of a stream on both
    sides, agreement on its outcome, relaying; the server dials only what the policy allows.
  \<^item> \<open>Socks5\<close>, \<open>Socks5_Udp\<close> (\<open>local_socks5.go\<close>, \<open>upstream_socks5.go\<close>): both ends of SOCKS5 work with each
    other; no request passes without the credentials; the UDP association in every interleaving.
  \<^item> \<open>Local_Http\<close> (\<open>local_http.go\<close>), \<open>Front_Proxy\<close> (\<open>front_proxy.go\<close>): the HTTP proxy and the validation of a proxy
    in front of the server.
  \<^item> \<open>Sni_Sniff\<close> (\<open>snisniff.go\<close>), \<open>Dns_Sniff\<close> (\<open>dnssniff.go\<close>), \<open>Dns_Cache\<close> (\<open>dnscache.go\<close>), \<open>Ech_Dns\<close> (\<open>tls_ech_dns.go\<close>):
    parsers for names in TLS and DNS messages, merged lookups, the query for an ECH configuration.

  \<^bold>\<open>Routing\<close> (\<open>internal/route\<close>, \<open>internal/app/route.go\<close>). \<open>Route_Geo\<close>, \<open>Route_Rules\<close>, \<open>Route_Runtime\<close>: indices and
  searches equal a scan of the data, the first rule that applies decides, and what happens without one.
  \<open>Route_Files\<close> (\<open>download.go\<close>, \<open>rules.go\<close>, \<open>engine.go\<close>): the files of the engine are whole at every moment of an
  update.

  \<^bold>\<open>Operation\<close> (\<open>internal/app\<close>).
  \<^item> \<open>Config\<close> (\<open>config.go\<close>): layering of file and flags, validation, and what a validated configuration is.
  \<^item> \<open>Lifecycle\<close> (\<open>engine.go\<close>, \<open>run.go\<close>, \<open>status.go\<close>): start, abort and shutdown of the engine.
  \<^item> \<open>Control\<close> (\<open>control.go\<close>), \<open>Log_Ring\<close> (\<open>logring.go\<close>): the control API behind its token, the log and its stream.

  \<^bold>\<open>Interfaces.\<close> Locales state what one part relies on of another: \<open>contract_writer\<close>, \<open>reliable_writer\<close> and
  \<open>full_writer\<close> for byte writers (interpreted on \<open>bytes.Buffer\<close> as \<open>buf\<close> and \<open>bufs\<close>), \<open>replay_guard\<close> for the memory
  of nonces (\<open>nonces\<close>, on \<open>seenOrStore\<close>), \<open>host_memory\<close> for the memory of failing hosts (\<open>hosts\<close>, on
  \<open>HostMemoryCache\<close>), \<open>numbered_log\<close> for a log that is read by number (\<open>ring\<close>, on \<open>LogRing\<close>).

  \<^bold>\<open>Parameters.\<close> SHA-256, HMAC, HKDF, X25519 and the AEAD ciphers; \<open>url.Parse\<close>, the JSON decoder,
  \<open>time.ParseDuration\<close>, \<open>net/http\<close>'s reading and writing of messages, Unicode tables beyond ASCII, regular
  expressions, \<open>sort.Slice\<close>, the protobuf decoder; resolvers, dialers, clocks and random numbers. Theorems
  that rely on them name the documented behaviour as hypotheses, and their witnesses show an instance.

  \<^bold>\<open>Bounds.\<close> Loops are total functions with termination measures, except the clearing loop of the replay
  window, a partial function in the option monad: it returns for every counter but the largest one.
  No other function uses fuel. Statements about 64-bit counters hold below their overflow and say so:
  2^63 selections of a channel, clock readings below 2^63 ns (the year 2262), reconnect delays below 2^62
  ns, records below 2^64. A shutdown of the engine is bounded by a measure of what is still running.

  \<^bold>\<open>Not modelled.\<close>
  \<^item> The sessions, streams and listeners of \<open>tcp_transport.go\<close> and \<open>quic_transport.go\<close>: calls forwarded to
    \<open>smux\<close>, \<open>gorilla/websocket\<close> and \<open>quic-go\<close>, whose sources are not part of the repository.
  \<^item> The rounding of \<open>float64\<close> in \<open>pacer.go\<close> and \<open>keepalive.go\<close>: the model computes exactly.
  \<^item> \<open>protocol_alias.go\<close>: aliases of functions that are modelled where they are defined.
  \<^item> Certificates and the TLS configuration, the dial through a front proxy, flag registration, JSON
    formatting, signal handling, the metrics text, the periodic probe and cover traffic of a channel.
  Logging, metrics, deadlines and the texts of error messages do not appear in the states.
\<close>

end
